(* ===== verification/Prelude.thy ===== *)
theory Prelude
  imports Complex_Main "HOL-Library.AList" "HOL-Library.Char_ord" "HOL-Library.List_Lexorder"
    "HOL-Library.Product_Lexorder" "HOL-Library.Sublist"
begin

text \<open>
  What the components share: the values a Python program reads from JSON documents, its
  dictionaries (association lists in insertion order), the string methods the sources call,
  the conversions \<open>int()\<close>, \<open>float()\<close>, \<open>str()\<close> and \<open>round()\<close>, and the generic lemmas about
  them. Strings are lists of ASCII characters; a float is an exact rational number, so the
  rounding of the last binary digit, infinities and NaN are outside the model. The
  collection \<open>py_simps\<close> holds the rewrite rules the component proofs use.
\<close>

named_theorems py_simps

section \<open>Values\<close>

datatype pyval =
    PNone
  | PBool bool
  | PInt int
  | PFloat rat
  | PStr string
  | PList "pyval list"
  | PDict "(string \<times> pyval) list"

type_synonym 'v dict = "(string \<times> 'v) list"

definition truthy :: "pyval \<Rightarrow> bool" where
  "truthy v = (case v of PNone \<Rightarrow> False | PBool b \<Rightarrow> b | PInt i \<Rightarrow> i \<noteq> 0 | PFloat q \<Rightarrow> q \<noteq> 0
     | PStr s \<Rightarrow> s \<noteq> [] | PList xs \<Rightarrow> xs \<noteq> [] | PDict d \<Rightarrow> d \<noteq> [])"

definition py_or :: "pyval \<Rightarrow> pyval \<Rightarrow> pyval" where
  "py_or a b = (if truthy a then a else b)"

definition str_or :: "string \<Rightarrow> string \<Rightarrow> string" where
  "str_or a b = (if a = [] then b else a)"

definition is_dict :: "pyval \<Rightarrow> bool" where
  "is_dict v = (case v of PDict _ \<Rightarrow> True | _ \<Rightarrow> False)"

definition as_dict :: "pyval \<Rightarrow> pyval dict" where
  "as_dict v = (case v of PDict d \<Rightarrow> d | _ \<Rightarrow> [])"

section \<open>Dictionaries\<close>

text \<open>\<open>d[k] = v\<close> keeps the position of a key that is there and appends a new one.\<close>

definition dget :: "'v dict \<Rightarrow> string \<Rightarrow> 'v option" where
  "dget d k = map_of d k"

definition dset :: "'v dict \<Rightarrow> string \<Rightarrow> 'v \<Rightarrow> 'v dict" where
  "dset d k v = AList.update k v d"

definition dpop :: "'v dict \<Rightarrow> string \<Rightarrow> 'v dict" where
  "dpop d k = filter (\<lambda>p. fst p \<noteq> k) d"

definition dget_or :: "'v dict \<Rightarrow> string \<Rightarrow> 'v \<Rightarrow> 'v" where
  "dget_or d k v = (case dget d k of None \<Rightarrow> v | Some x \<Rightarrow> x)"

definition get_none :: "pyval dict \<Rightarrow> string \<Rightarrow> pyval" where
  "get_none d k = dget_or d k PNone"

lemma dget_Nil [simp, py_simps]: "dget [] k = None"
  by (simp add: dget_def)

lemma dget_Cons [simp, py_simps]: "dget (p # d) k = (if fst p = k then Some (snd p) else dget d k)"
  by (cases p) (simp add: dget_def)

lemma dget_dset [simp, py_simps]: "dget (dset d k v) k' = (if k = k' then Some v else dget d k')"
  by (simp add: dget_def dset_def update_conv')

lemma dget_dpop [simp, py_simps]: "dget (dpop d k) k' = (if k = k' then None else dget d k')"
  by (induction d) (auto simp: dpop_def dget_def)

lemma dget_or_dset [simp, py_simps]: "dget_or (dset d k v) k' w = (if k = k' then v else dget_or d k' w)"
  by (simp add: dget_or_def)

lemma get_none_dset [simp, py_simps]: "get_none (dset d k v) k' = (if k = k' then v else get_none d k')"
  by (simp add: get_none_def)

lemma get_none_Nil [simp, py_simps]: "get_none [] k = PNone"
  by (simp add: get_none_def dget_or_def)

lemma get_none_Cons [simp, py_simps]:
  "get_none (p # d) k = (if fst p = k then snd p else get_none d k)"
  by (simp add: get_none_def dget_or_def)

lemma keys_dset: "set (map fst (dset d k v)) = insert k (set (map fst d))"
  by (simp add: dset_def dom_update)

lemma distinct_dset [simp]: "distinct (map fst d) \<Longrightarrow> distinct (map fst (dset d k v))"
  by (simp add: dset_def distinct_update)

lemma distinct_dpop [simp]: "distinct (map fst d) \<Longrightarrow> distinct (map fst (dpop d k))"
  unfolding dpop_def by (induction d) auto

lemma dget_eq_Some_iff: "distinct (map fst d) \<Longrightarrow> dget d k = Some v \<longleftrightarrow> (k, v) \<in> set d"
  by (simp add: dget_def)

lemma dget_None_iff: "dget d k = None \<longleftrightarrow> k \<notin> set (map fst d)"
  by (simp add: dget_def map_of_eq_None_iff)

lemma dset_fresh: "k \<notin> set (map fst d) \<Longrightarrow> dset d k v = d @ [(k, v)]"
  unfolding dset_def by (induction d) auto

section \<open>Strings\<close>

definition is_space :: "char \<Rightarrow> bool" where
  "is_space c = (let n = of_char c :: nat in (9 \<le> n \<and> n \<le> 13) \<or> (28 \<le> n \<and> n \<le> 32))"

definition is_digit :: "char \<Rightarrow> bool" where
  "is_digit c = (let n = of_char c :: nat in 48 \<le> n \<and> n \<le> 57)"

definition digit_val :: "char \<Rightarrow> int" where
  "digit_val c = of_char c - 48"

definition isdigit :: "string \<Rightarrow> bool" where
  "isdigit s = (s \<noteq> [] \<and> list_all is_digit s)"

definition lower_char :: "char \<Rightarrow> char" where
  "lower_char c = (let n = of_char c :: nat in if 65 \<le> n \<and> n \<le> 90 then char_of (n + 32) else c)"

definition upper_char :: "char \<Rightarrow> char" where
  "upper_char c = (let n = of_char c :: nat in if 97 \<le> n \<and> n \<le> 122 then char_of (n - 32) else c)"

definition lower :: "string \<Rightarrow> string" where
  "lower s = map lower_char s"

definition upper :: "string \<Rightarrow> string" where
  "upper s = map upper_char s"

definition lstrip :: "string \<Rightarrow> string" where
  "lstrip s = dropWhile is_space s"

definition rstrip_by :: "(char \<Rightarrow> bool) \<Rightarrow> string \<Rightarrow> string" where
  "rstrip_by p s = rev (dropWhile p (rev s))"

definition strip :: "string \<Rightarrow> string" where
  "strip s = rstrip_by is_space (lstrip s)"

definition starts_with :: "string \<Rightarrow> string \<Rightarrow> bool" where
  "starts_with p s = (take (length p) s = p)"

definition ends_with :: "string \<Rightarrow> string \<Rightarrow> bool" where
  "ends_with p s = starts_with (rev p) (rev s)"

fun contains :: "string \<Rightarrow> string \<Rightarrow> bool" where
  "contains p [] = (p = [])"
| "contains p (c # s) = (starts_with p (c # s) \<or> contains p s)"

text \<open>\<open>s.split(c)\<close>: the empty string gives one empty field.\<close>

fun split_on :: "char \<Rightarrow> string \<Rightarrow> string list" where
  "split_on c [] = [[]]"
| "split_on c (x # xs) =
     (if x = c then [] # split_on c xs
      else (case split_on c xs of [] \<Rightarrow> [[x]] | w # ws \<Rightarrow> (x # w) # ws))"

text \<open>\<open>s.split(c, 1)\<close> on a string that contains \<open>c\<close>: the part before and the part after.\<close>

definition split1 :: "char \<Rightarrow> string \<Rightarrow> string \<times> string" where
  "split1 c s = (takeWhile (\<lambda>x. x \<noteq> c) s, tl (dropWhile (\<lambda>x. x \<noteq> c) s))"

text \<open>\<open>s.split()\<close> and \<open>s.split(None, n)\<close>: maximal runs without white space.\<close>

function words_ws :: "string \<Rightarrow> string list" where
  "words_ws s = (let t = lstrip s in
     if t = [] then []
     else takeWhile (\<lambda>c. \<not> is_space c) t # words_ws (dropWhile (\<lambda>c. \<not> is_space c) t))"
  by pat_completeness auto
termination
proof (relation "measure length")
  fix s :: string and t
  assume t: "t = lstrip s" and ne: "t \<noteq> []"
  have hd: "\<not> is_space (hd t)"
    using ne unfolding t lstrip_def by (rule hd_dropWhile)
  have "length (dropWhile (\<lambda>c. \<not> is_space c) t) < length t"
    using ne hd by (cases t) (auto intro: le_imp_less_Suc length_dropWhile_le)
  moreover have "length t \<le> length s"
    unfolding t lstrip_def by (rule length_dropWhile_le)
  ultimately show "(dropWhile (\<lambda>c. \<not> is_space c) t, s) \<in> measure length"
    by simp
qed simp

declare words_ws.simps [simp del]

fun split_ws_max :: "nat \<Rightarrow> string \<Rightarrow> string list" where
  "split_ws_max 0 s = (let t = lstrip s in if t = [] then [] else [t])"
| "split_ws_max (Suc n) s = (let t = lstrip s in
     if t = [] then []
     else takeWhile (\<lambda>c. \<not> is_space c) t # split_ws_max n (dropWhile (\<lambda>c. \<not> is_space c) t))"

definition is_linebreak :: "char \<Rightarrow> bool" where
  "is_linebreak c = (let n = of_char c :: nat in (10 \<le> n \<and> n \<le> 13) \<or> (28 \<le> n \<and> n \<le> 30))"

fun splitlines_acc :: "string \<Rightarrow> string \<Rightarrow> string list" where
  "splitlines_acc acc [] = (if acc = [] then [] else [rev acc])"
| "splitlines_acc acc [c] = (if is_linebreak c then [rev acc] else [rev (c # acc)])"
| "splitlines_acc acc (c # d # s) =
     (if c = CHR 0x0D \<and> d = CHR 0x0A then rev acc # splitlines_acc [] s
      else if is_linebreak c then rev acc # splitlines_acc [] (d # s)
      else splitlines_acc (c # acc) (d # s))"

definition splitlines :: "string \<Rightarrow> string list" where
  "splitlines s = splitlines_acc [] s"

definition join :: "string \<Rightarrow> string list \<Rightarrow> string" where
  "join sep ws = concat (case ws of [] \<Rightarrow> [] | w # rest \<Rightarrow> w # map (\<lambda>x. sep @ x) rest)"

lemma starts_with_iff: "starts_with p s \<longleftrightarrow> (\<exists>t. s = p @ t)"
  unfolding starts_with_def by (metis append_eq_conv_conj append_take_drop_id)

lemma starts_with_append [simp]: "starts_with p (p @ s)"
  by (auto simp: starts_with_iff)

lemma starts_with_Nil [simp]: "starts_with [] s"
  by (simp add: starts_with_def)

lemma starts_with_Cons [simp]:
  "starts_with (c # p) s = (case s of [] \<Rightarrow> False | d # t \<Rightarrow> c = d \<and> starts_with p t)"
  by (cases s) (auto simp: starts_with_def)

lemma lower_idem [simp]: "lower (lower s) = lower s"
proof -
  have "lower_char (lower_char c) = lower_char c" for c
    by (auto simp: lower_char_def Let_def)
  then show ?thesis by (simp add: lower_def)
qed

text \<open>Lines ended by line feeds, and texts without white space at their ends.\<close>

definition lf_lines :: "string list \<Rightarrow> string" where
  "lf_lines ls = concat (map (\<lambda>l. l @ [CHR 0x0A]) ls)"

definition no_breaks :: "string \<Rightarrow> bool" where
  "no_breaks s = list_all (\<lambda>c. \<not> is_linebreak c) s"

lemma splitlines_acc_line:
  "no_breaks l \<Longrightarrow> splitlines_acc acc (l @ CHR 0x0A # s) = (rev acc @ l) # splitlines_acc [] s"
proof (induction l arbitrary: acc)
  case Nil
  show ?case by (cases s) (simp_all add: is_linebreak_def)
next
  case (Cons c l)
  then have c: "\<not> is_linebreak c" and nb: "no_breaks l" by (simp_all add: no_breaks_def)
  then have "c \<noteq> CHR 0x0D" by (auto simp: is_linebreak_def)
  moreover obtain d t where dt: "l @ CHR 0x0A # s = d # t" by (cases l) auto
  ultimately have "splitlines_acc acc ((c # l) @ CHR 0x0A # s) = splitlines_acc (c # acc) (l @ CHR 0x0A # s)"
    using c by (simp add: dt)
  then show ?case using Cons.IH[OF nb, of "c # acc"] by simp
qed

lemma splitlines_lf_lines: "list_all no_breaks ls \<Longrightarrow> splitlines (lf_lines ls) = ls"
  unfolding splitlines_def lf_lines_def
  by (induction ls) (simp_all add: splitlines_acc_line)

definition trimmed :: "string \<Rightarrow> bool" where
  "trimmed s = (s = [] \<or> (\<not> is_space (hd s) \<and> \<not> is_space (last s)))"

lemma lstrip_trimmed: "trimmed s \<Longrightarrow> lstrip s = s"
  by (cases s) (auto simp: trimmed_def lstrip_def)

lemma strip_trimmed: "trimmed s \<Longrightarrow> strip s = s"
  by (cases s rule: rev_cases) (auto simp: strip_def rstrip_by_def lstrip_trimmed, auto simp: trimmed_def)

lemma trimmed_strip: "trimmed (strip s)"
proof (cases "strip s = []")
  case False
  let ?d = "dropWhile is_space s"
  have st: "strip s = rev (dropWhile is_space (rev ?d))" by (simp add: strip_def rstrip_by_def lstrip_def)
  then have ne: "dropWhile is_space (rev ?d) \<noteq> []" using False by simp
  then have l: "\<not> is_space (last (strip s))" unfolding st by (simp add: last_rev hd_dropWhile)
  have "?d \<noteq> []" using ne by (cases ?d) auto
  then have "\<not> is_space (hd ?d)" by (rule hd_dropWhile)
  moreover obtain sp where "rev ?d = sp @ dropWhile is_space (rev ?d)"
    by (metis takeWhile_dropWhile_id)
  then have "?d = strip s @ rev sp" unfolding st by (metis rev_append rev_rev_ident)
  then have "hd ?d = hd (strip s)" using False by (metis hd_append2)
  ultimately show ?thesis using l by (simp add: trimmed_def)
qed (simp add: trimmed_def)

lemma strip_idem [simp]: "strip (strip s) = strip s"
  by (rule strip_trimmed) (rule trimmed_strip)

lemma strip_spaces: "list_all is_space sp \<Longrightarrow> trimmed s \<Longrightarrow> strip (sp @ s) = s"
proof -
  assume sp: "list_all is_space sp" and t: "trimmed s"
  then have "lstrip (sp @ s) = lstrip s" unfolding lstrip_def by (induction sp) auto
  then have "strip (sp @ s) = strip s" by (simp add: strip_def)
  with t show ?thesis by (simp add: strip_trimmed)
qed

section \<open>Numbers\<close>

fun nat_digits_acc :: "nat \<Rightarrow> nat \<Rightarrow> string \<Rightarrow> string" where
  "nat_digits_acc 0 n acc = acc"
| "nat_digits_acc (Suc f) n acc =
     (let acc' = char_of (48 + n mod 10) # acc in if n < 10 then acc' else nat_digits_acc f (n div 10) acc')"

definition str_of_nat :: "nat \<Rightarrow> string" where
  "str_of_nat n = nat_digits_acc (Suc n) n []"

definition str_of_int :: "int \<Rightarrow> string" where
  "str_of_int i = (if i < 0 then CHR ''-'' # str_of_nat (nat (- i)) else str_of_nat (nat i))"

text \<open>Digits with single underscores between them, as \<open>int()\<close> and \<open>float()\<close> read them.\<close>

fun digits_val :: "int \<Rightarrow> bool \<Rightarrow> string \<Rightarrow> int option" where
  "digits_val acc after_digit [] = (if after_digit then Some acc else None)"
| "digits_val acc after_digit (c # s) =
     (if is_digit c then digits_val (acc * 10 + digit_val c) True s
      else if c = CHR ''_'' \<and> after_digit then digits_val acc False s
      else None)"

definition signed :: "string \<Rightarrow> int \<times> string" where
  "signed s = (case s of c # r \<Rightarrow> if c = CHR ''-'' then (-1, r) else if c = CHR ''+'' then (1, r) else (1, s)
     | [] \<Rightarrow> (1, s))"

definition int_of_str :: "string \<Rightarrow> int option" where
  "int_of_str s = (let (sg, r) = signed (strip s) in map_option (\<lambda>n. sg * n) (digits_val 0 False r))"

definition exponent_of :: "string \<Rightarrow> int option" where
  "exponent_of s = (let (sg, r) = signed s in map_option (\<lambda>n. sg * n) (digits_val 0 False r))"

definition pow10 :: "int \<Rightarrow> rat" where
  "pow10 e = (if 0 \<le> e then 10 ^ nat e else 1 / 10 ^ nat (- e))"

definition mantissa_of :: "string \<Rightarrow> rat option" where
  "mantissa_of s =
     (let ip = takeWhile (\<lambda>c. c \<noteq> CHR ''.'') s; rest = dropWhile (\<lambda>c. c \<noteq> CHR ''.'') s; fp = tl rest in
      if rest = [] then map_option of_int (digits_val 0 False ip)
      else if ip = [] \<and> fp = [] then None
      else (case (if ip = [] then Some 0 else digits_val 0 False ip,
                  if fp = [] then Some 0 else digits_val 0 False fp) of
              (Some i, Some f) \<Rightarrow> Some (of_int i + of_int f / 10 ^ length (filter is_digit fp))
            | _ \<Rightarrow> None))"

text \<open>
  \<open>float(s)\<close> for a decimal literal with an optional exponent; the names of infinity and
  NaN are not modelled.
\<close>

definition float_of_str :: "string \<Rightarrow> rat option" where
  "float_of_str s =
     (let (sg, r) = signed (strip s);
          is_e = (\<lambda>c. c = CHR ''e'' \<or> c = CHR ''E'');
          m = takeWhile (\<lambda>c. \<not> is_e c) r; er = dropWhile (\<lambda>c. \<not> is_e c) r in
      (case (mantissa_of m, if er = [] then Some 0 else exponent_of (tl er)) of
         (Some q, Some e) \<Rightarrow> Some (of_int sg * q * pow10 e)
       | _ \<Rightarrow> None))"

definition trunc :: "rat \<Rightarrow> int" where
  "trunc q = (if q < 0 then \<lceil>q\<rceil> else \<lfloor>q\<rfloor>)"

definition safe_int :: "pyval \<Rightarrow> int \<Rightarrow> int" where
  "safe_int v d = (case v of PInt i \<Rightarrow> i | PBool b \<Rightarrow> (if b then 1 else 0) | PFloat q \<Rightarrow> trunc q
     | PStr s \<Rightarrow> (case int_of_str s of Some i \<Rightarrow> i | None \<Rightarrow> d) | _ \<Rightarrow> d)"

definition safe_float :: "pyval \<Rightarrow> rat \<Rightarrow> rat" where
  "safe_float v d = (case v of PInt i \<Rightarrow> of_int i | PBool b \<Rightarrow> (if b then 1 else 0) | PFloat q \<Rightarrow> q
     | PStr s \<Rightarrow> (case float_of_str s of Some q \<Rightarrow> q | None \<Rightarrow> d) | _ \<Rightarrow> d)"

text \<open>\<open>round(q)\<close> rounds half to even; \<open>round(q, n)\<close> to \<open>n\<close> decimals.\<close>

definition round_even :: "rat \<Rightarrow> int" where
  "round_even q = (let f = \<lfloor>q\<rfloor>; r = q - of_int f in
     if r < 1 / 2 then f else if 1 / 2 < r then f + 1 else if even f then f else f + 1)"

definition round_dec :: "nat \<Rightarrow> rat \<Rightarrow> rat" where
  "round_dec n q = of_int (round_even (q * 10 ^ n)) / 10 ^ n"

lemma safe_int_PInt [simp, py_simps]: "safe_int (PInt i) d = i"
  by (simp add: safe_int_def)

lemma safe_int_PNone [simp, py_simps]: "safe_int PNone d = d"
  by (simp add: safe_int_def)

lemma safe_float_PInt [simp, py_simps]: "safe_float (PInt i) d = of_int i"
  by (simp add: safe_float_def)

lemma safe_float_PFloat [simp, py_simps]: "safe_float (PFloat q) d = q"
  by (simp add: safe_float_def)

lemma safe_float_PNone [simp, py_simps]: "safe_float PNone d = d"
  by (simp add: safe_float_def)

lemma round_even_of_int [simp]: "round_even (of_int i) = i"
  by (simp add: round_even_def Let_def)

lemma round_even_mono: "p \<le> q \<Longrightarrow> round_even p \<le> round_even q"
proof -
  assume le: "p \<le> q"
  then have fl: "\<lfloor>p\<rfloor> \<le> \<lfloor>q\<rfloor>" by (rule floor_mono)
  show ?thesis
  proof (cases "\<lfloor>p\<rfloor> = \<lfloor>q\<rfloor>")
    case True
    with le show ?thesis by (auto simp: round_even_def Let_def)
  next
    case False
    with fl have "\<lfloor>p\<rfloor> + 1 \<le> \<lfloor>q\<rfloor>" by simp
    then show ?thesis by (auto simp: round_even_def Let_def)
  qed
qed

lemma round_dec_mono: "p \<le> q \<Longrightarrow> round_dec n p \<le> round_dec n q"
  unfolding round_dec_def
  by (intro divide_right_mono) (auto intro!: round_even_mono mult_right_mono)

lemma round_dec_0 [simp]: "round_dec n 0 = 0"
  using round_even_of_int[of 0] by (simp add: round_dec_def)

lemma round_dec_nonneg: "0 \<le> q \<Longrightarrow> 0 \<le> round_dec n q"
  using round_dec_mono[of 0 q n] by simp

lemma round_dec_of_int [simp]: "round_dec n (of_int i) = of_int i"
proof -
  have "(of_int i :: rat) * 10 ^ n = of_int (i * 10 ^ n)" by simp
  then show ?thesis unfolding round_dec_def by (simp only: round_even_of_int) simp
qed

section \<open>The text of a value\<close>

definition float_digits :: nat where
  "float_digits = 17"

fun frac_digits :: "nat \<Rightarrow> rat \<Rightarrow> string" where
  "frac_digits 0 q = []"
| "frac_digits (Suc n) q =
     (if q = 0 then [] else char_of (48 + nat \<lfloor>q * 10\<rfloor>) # frac_digits n (q * 10 - of_int \<lfloor>q * 10\<rfloor>))"

text \<open>The decimal text of a float of ordinary magnitude, as \<open>repr\<close> prints it.\<close>

definition str_of_float :: "rat \<Rightarrow> string" where
  "str_of_float q =
     (let a = \<bar>q\<bar>; i = \<lfloor>a\<rfloor>; fr = frac_digits float_digits (a - of_int i) in
      (if q < 0 then ''-'' else []) @ str_of_int i @ ''.'' @ (if fr = [] then ''0'' else fr))"

definition quote_str :: "string \<Rightarrow> string" where
  "quote_str s =
     (let sq = CHR 0x27; dq = CHR 0x22; bs = CHR 0x5C;
          q = (if sq \<in> set s \<and> dq \<notin> set s then dq else sq);
          esc = (\<lambda>c. if c = bs then [bs, bs] else if c = q then [bs, c] else [c]) in
      q # concat (map esc s) @ [q])"

fun py_repr :: "pyval \<Rightarrow> string" where
  "py_repr PNone = ''None''"
| "py_repr (PBool b) = (if b then ''True'' else ''False'')"
| "py_repr (PInt i) = str_of_int i"
| "py_repr (PFloat q) = str_of_float q"
| "py_repr (PStr s) = quote_str s"
| "py_repr (PList xs) = ''['' @ join '', '' (map py_repr xs) @ '']''"
| "py_repr (PDict d) = ''{'' @ join '', '' (map (\<lambda>(k, v). quote_str k @ '': '' @ py_repr v) d) @ ''}''"

definition py_str :: "pyval \<Rightarrow> string" where
  "py_str v = (case v of PStr s \<Rightarrow> s | _ \<Rightarrow> py_repr v)"

lemma py_str_PStr [simp, py_simps]: "py_str (PStr s) = s"
  by (simp add: py_str_def)

section \<open>Rows of a table and generic list facts\<close>

text \<open>
  \<open>SELECT ... WHERE P ORDER BY key LIMIT 1\<close> and \<open>UPDATE ... SET f WHERE P\<close> on a table
  given as the list of its rows.
\<close>

definition select_first :: "('r \<Rightarrow> 'k::linorder) \<Rightarrow> ('r \<Rightarrow> bool) \<Rightarrow> 'r list \<Rightarrow> 'r option" where
  "select_first key P rows = (case sort_key key (filter P rows) of [] \<Rightarrow> None | r # _ \<Rightarrow> Some r)"

definition update_where :: "('r \<Rightarrow> bool) \<Rightarrow> ('r \<Rightarrow> 'r) \<Rightarrow> 'r list \<Rightarrow> 'r list" where
  "update_where P f rows = map (\<lambda>r. if P r then f r else r) rows"

definition rowcount :: "('r \<Rightarrow> bool) \<Rightarrow> 'r list \<Rightarrow> nat" where
  "rowcount P rows = length (filter P rows)"

lemma select_first_None: "select_first key P rows = None \<longleftrightarrow> (\<forall>r \<in> set rows. \<not> P r)"
proof -
  have "sort_key key (filter P rows) = [] \<longleftrightarrow> filter P rows = []"
    by (metis length_0_conv length_sort)
  then show ?thesis
    by (auto simp: select_first_def filter_empty_conv split: list.split)
qed

lemma select_first_Some:
  assumes "select_first key P rows = Some r"
  shows "r \<in> set rows" and "P r" and "s \<in> set rows \<Longrightarrow> P s \<Longrightarrow> key r \<le> key s"
proof -
  obtain rs where srt: "sort_key key (filter P rows) = r # rs"
    using assms by (auto simp: select_first_def split: list.splits)
  have set_eq: "set (r # rs) = {s \<in> set rows. P s}"
    using srt by (metis set_filter set_sort)
  then show "r \<in> set rows" and "P r" by auto
  assume "s \<in> set rows" "P s"
  then have mem: "s \<in> set (r # rs)" unfolding set_eq by simp
  have "sorted (map key (r # rs))"
    using sorted_sort_key[of key "filter P rows"] by (simp add: srt)
  with mem show "key r \<le> key s" by auto
qed

lemma set_update_where: "set (update_where P f rows) = (\<lambda>r. if P r then f r else r) ` set rows"
  by (simp add: update_where_def)

lemma map_update_where [simp]: "(\<And>r. P r \<Longrightarrow> g (f r) = g r) \<Longrightarrow> map g (update_where P f rows) = map g rows"
  by (simp add: update_where_def)

lemma length_update_where [simp]: "length (update_where P f rows) = length rows"
  by (simp add: update_where_def)

text \<open>Keeping the first occurrence of each value, as a loop over a \<open>seen\<close> set does.\<close>

fun dedup_first :: "'a list \<Rightarrow> 'a list \<Rightarrow> 'a list" where
  "dedup_first seen [] = []"
| "dedup_first seen (x # xs) = (if x \<in> set seen then dedup_first seen xs else x # dedup_first (x # seen) xs)"

lemma set_dedup_first: "set (dedup_first seen xs) = set xs - set seen"
  by (induction xs arbitrary: seen) auto

lemma distinct_dedup_first: "distinct (dedup_first seen xs)"
  by (induction xs arbitrary: seen) (auto simp: set_dedup_first)

lemma sorted_perm_unique:
  fixes xs ys :: "'a list" and key :: "'a \<Rightarrow> 'k::linorder"
  assumes "inj_on key (set xs)" and "set xs = set ys" and "distinct xs" and "distinct ys"
  shows "sort_key key xs = sort_key key ys"
proof -
  have inj: "inj_on key (set ys)" using assms(1,2) by simp
  have "map key (sort_key key xs) = map key (sort_key key ys)"
  proof (rule sorted_distinct_set_unique)
    show "sorted (map key (sort_key key xs))" "sorted (map key (sort_key key ys))" by simp_all
    show "distinct (map key (sort_key key xs))" using assms by (simp add: distinct_map)
    show "distinct (map key (sort_key key ys))" using assms inj by (simp add: distinct_map)
    show "set (map key (sort_key key xs)) = set (map key (sort_key key ys))" using assms by simp
  qed
  then show ?thesis
    by (rule map_inj_on) (use assms in \<open>simp add: Un_absorb\<close>)
qed


subsection \<open>Reading back a printed number\<close>

lemma digit_char: "is_digit (char_of (48 + n mod 10 :: nat))" "digit_val (char_of (48 + n mod 10 :: nat)) = int (n mod 10)"
proof -
  have "n mod 10 < 10" by simp
  then have "(48 + n mod 10) mod 256 = 48 + n mod 10" by simp
  then show "is_digit (char_of (48 + n mod 10 :: nat))" by (simp add: is_digit_def)
  define c :: char where "c = char_of (48 + n mod 10 :: nat)"
  have "of_char c = 48 + n mod 10" using \<open>(48 + n mod 10) mod 256 = 48 + n mod 10\<close> by (simp add: c_def)
  moreover have "(of_char c :: int) = int (of_char c)" by (rule of_nat_of_char[symmetric])
  ultimately show "digit_val (char_of (48 + n mod 10 :: nat)) = int (n mod 10)"
    unfolding c_def[symmetric] digit_val_def by simp
qed

lemma nat_digits_val:
  "n < f \<Longrightarrow> \<exists>k. \<forall>a b. digits_val a b (nat_digits_acc f n acc) = digits_val (a * 10 ^ k + int n) True acc"
proof (induction f arbitrary: n acc)
  case (Suc f)
  have digit: "digits_val a b (char_of (48 + n mod 10) # acc) = digits_val (a * 10 + int (n mod 10)) True acc" for a b
    using digit_char[of n] by simp
  show ?case
  proof (cases "n < 10")
    case True
    then show ?thesis using digit by (intro exI[of _ 1]) (simp add: Let_def)
  next
    case False
    then have "n div 10 < f" using Suc.prems by linarith
    then obtain k where k: "\<And>a b. digits_val a b (nat_digits_acc f (n div 10) (char_of (48 + n mod 10) # acc))
        = digits_val (a * 10 ^ k + int (n div 10)) True (char_of (48 + n mod 10) # acc)"
      using Suc.IH by blast
    have v: "(a * 10 ^ k + int (n div 10)) * 10 + int (n mod 10) = a * 10 ^ Suc k + int n" for a
    proof -
      have "int n = 10 * int (n div 10) + int (n mod 10)" by (metis int_ops(7) mult_div_mod_eq of_nat_add of_nat_numeral)
      then show ?thesis by (simp add: algebra_simps)
    qed
    have "digits_val a b (nat_digits_acc (Suc f) n acc) = digits_val (a * 10 ^ Suc k + int n) True acc" for a b
      using k[of a b] digit[of "a * 10 ^ k + int (n div 10)" True] False by (simp only: v nat_digits_acc.simps Let_def if_False)
    then show ?thesis by blast
  qed
qed simp

lemma nat_digits_digits: "list_all is_digit acc \<Longrightarrow> list_all is_digit (nat_digits_acc f n acc)"
  using digit_char(1) by (induction f arbitrary: n acc) (auto simp: Let_def simp del: mod_less)

lemma str_of_nat_val: "digits_val 0 b (str_of_nat n) = Some (int n)"
  using nat_digits_val[of n "Suc n" "[]"] by (auto simp: str_of_nat_def)

lemma str_of_nat_digits: "list_all is_digit (str_of_nat n)" "str_of_nat n \<noteq> []"
  using nat_digits_digits[of "[]"] str_of_nat_val[of False n] by (auto simp: str_of_nat_def simp del: nat_digits_acc.simps)

lemma digit_not_space: "is_digit c \<Longrightarrow> \<not> is_space c \<and> c \<noteq> CHR ''-'' \<and> c \<noteq> CHR ''+''"
  by (auto simp: is_digit_def is_space_def Let_def)

lemma int_of_str_of_int: "int_of_str (str_of_int i) = Some i"
proof -
  define n where "n = str_of_nat (nat \<bar>i\<bar>)"
  have n: "list_all is_digit n" "n \<noteq> []" "\<And>b. digits_val 0 b n = Some \<bar>i\<bar>"
    using str_of_nat_digits str_of_nat_val by (simp_all add: n_def)
  have ends: "is_digit (hd n)" "is_digit (last n)" using n(1,2) by (simp_all add: list_all_iff)
  have s: "str_of_int i = (if i < 0 then CHR ''-'' # n else n)" by (auto simp: str_of_int_def n_def)
  have "trimmed n" "trimmed (CHR ''-'' # n)"
    using ends n(2) digit_not_space by (auto simp: trimmed_def is_space_def)
  moreover have "signed n = (1, n)"
    using ends(1) n(2) digit_not_space by (cases n) (auto simp: signed_def)
  ultimately show ?thesis using n(3) by (auto simp: s int_of_str_def strip_trimmed signed_def)
qed

subsection \<open>Splitting what was joined\<close>

lemma split_on_plain: "c \<notin> set w \<Longrightarrow> split_on c w = [w]"
  by (induction w) auto

lemma split_on_append: "c \<notin> set w \<Longrightarrow> split_on c (w @ c # r) = w # split_on c r"
  by (induction w) auto

lemma join_Cons: "join sep (w # v # ws) = w @ sep @ join sep (v # ws)"
  by (simp add: join_def)

lemma split_on_join: "ws \<noteq> [] \<Longrightarrow> \<forall>w \<in> set ws. c \<notin> set w \<Longrightarrow> split_on c (join [c] ws) = ws"
proof (induction ws rule: induct_list012)
  case (2 w)
  then show ?case by (simp add: join_def split_on_plain)
next
  case (3 w v ws)
  then show ?case by (simp add: join_Cons split_on_append)
qed simp

lemma join_Nil_iff: "(\<And>w. w \<in> set ws \<Longrightarrow> w \<noteq> []) \<Longrightarrow> join sep ws = [] \<longleftrightarrow> ws = []"
  by (cases ws) (auto simp: join_def)

lemma dedup_first_distinct: "distinct xs \<Longrightarrow> set xs \<inter> set seen = {} \<Longrightarrow> dedup_first seen xs = xs"
  by (induction xs arbitrary: seen) auto

end
