(* ===== verification/Json.thy ===== *)
theory Json
  imports Prelude
begin

text \<open>
  What the sources use of Python's \<open>json.loads\<close>: a recursive-descent reader of JSON texts into
  \<open>pyval\<close>. \<open>None\<close> stands for the \<open>JSONDecodeError\<close>. The guard \<open>length r < length s\<close> is always
  true of the remainders the readers return; it is there so that termination is plain.
  The extensions \<open>NaN\<close> and \<open>Infinity\<close> and characters beyond ASCII are not read.
\<close>

definition json_space :: "char \<Rightarrow> bool" where
  "json_space c = (c = CHR '' '' \<or> c = CHR 0x09 \<or> c = CHR 0x0A \<or> c = CHR 0x0D)"

definition skip_space :: "string \<Rightarrow> string" where
  "skip_space s = dropWhile json_space s"

definition take_digits :: "string \<Rightarrow> string \<times> string" where
  "take_digits s = (takeWhile is_digit s, dropWhile is_digit s)"

definition hex_val :: "char \<Rightarrow> nat option" where
  "hex_val c = (let n = of_char c :: nat in
     if 48 \<le> n \<and> n \<le> 57 then Some (n - 48)
     else if 65 \<le> n \<and> n \<le> 70 then Some (n - 55)
     else if 97 \<le> n \<and> n \<le> 102 then Some (n - 87)
     else None)"

fun hex4 :: "string \<Rightarrow> (char \<times> string) option" where
  "hex4 (a # b # c # d # r) =
     (case (hex_val a, hex_val b, hex_val c, hex_val d) of
        (Some w, Some x, Some y, Some z) \<Rightarrow>
          (let n = ((w * 16 + x) * 16 + y) * 16 + z in if n < 128 then Some (char_of n, r) else None)
      | _ \<Rightarrow> None)"
| "hex4 _ = None"

definition simple_escape :: "char \<Rightarrow> char option" where
  "simple_escape c =
     (if c = CHR 0x22 \<or> c = CHR 0x5C \<or> c = CHR ''/'' then Some c
      else if c = CHR ''b'' then Some (CHR 0x08)
      else if c = CHR ''f'' then Some (CHR 0x0C)
      else if c = CHR ''n'' then Some (CHR 0x0A)
      else if c = CHR ''r'' then Some (CHR 0x0D)
      else if c = CHR ''t'' then Some (CHR 0x09)
      else None)"

text \<open>The characters of a string literal after its opening quote.\<close>

fun json_chars :: "nat \<Rightarrow> string \<Rightarrow> (string \<times> string) option" where
  "json_chars 0 s = None"
| "json_chars (Suc n) [] = None"
| "json_chars (Suc n) (c # s) =
     (if c = CHR 0x22 then Some ([], s)
      else if c = CHR 0x5C then
        (case s of
           [] \<Rightarrow> None
         | e # r \<Rightarrow>
             (case (if e = CHR ''u'' then hex4 r else map_option (\<lambda>x. (x, r)) (simple_escape e)) of
                None \<Rightarrow> None
              | Some (x, r') \<Rightarrow> map_option (\<lambda>(w, t). (x # w, t)) (json_chars n r')))
      else if (of_char c :: nat) < 32 then None
      else map_option (\<lambda>(w, t). (c # w, t)) (json_chars n s))"

definition json_string :: "string \<Rightarrow> (string \<times> string) option" where
  "json_string s = json_chars (Suc (length s)) s"

definition json_number :: "string \<Rightarrow> (pyval \<times> string) option" where
  "json_number s =
     (let (sg, r0) = (if s \<noteq> [] \<and> hd s = CHR ''-'' then (-1, tl s) else (1, s));
          (ip, r1) = take_digits r0;
          (fp, r2) = (if r1 \<noteq> [] \<and> hd r1 = CHR ''.'' \<and> fst (take_digits (tl r1)) \<noteq> []
                      then take_digits (tl r1) else ([], r1));
          (esg, e0) = (if r2 \<noteq> [] \<and> (hd r2 = CHR ''e'' \<or> hd r2 = CHR ''E'') then signed (tl r2) else (1, []));
          (ep, r3) = take_digits e0
      in if ip = [] \<or> (1 < length ip \<and> hd ip = CHR ''0'') then None
         else if fp = [] \<and> ep = [] then
           map_option (\<lambda>n. (PInt (sg * n), r2)) (digits_val 0 False ip)
         else
           (case (mantissa_of (ip @ (if fp = [] then [] else CHR ''.'' # fp)),
                  if ep = [] then Some 0 else digits_val 0 False ep) of
              (Some q, Some e) \<Rightarrow>
                Some (PFloat (of_int sg * q * pow10 (esg * e)), if ep = [] then r2 else r3)
            | _ \<Rightarrow> None))"

text \<open>A later member with the same key replaces the value and keeps the first position.\<close>

definition add_member :: "string \<Rightarrow> pyval \<Rightarrow> pyval \<Rightarrow> pyval" where
  "add_member k v d = (case d of
      PDict kvs \<Rightarrow> (case dget kvs k of None \<Rightarrow> PDict ((k, v) # kvs) | Some w \<Rightarrow> PDict ((k, w) # dpop kvs k))
    | _ \<Rightarrow> d)"

definition add_element :: "pyval \<Rightarrow> pyval \<Rightarrow> pyval" where
  "add_element v l = (case l of PList xs \<Rightarrow> PList (v # xs) | _ \<Rightarrow> l)"

datatype jmode = JValue | JElements | JMembers

function json_parse :: "jmode \<Rightarrow> string \<Rightarrow> (pyval \<times> string) option" where
  "json_parse JValue s =
     (case skip_space s of
        [] \<Rightarrow> None
      | c # r \<Rightarrow>
          if length r < length s then
            (if c = CHR ''['' then
               (case skip_space r of [] \<Rightarrow> None
                | d # r' \<Rightarrow> if d = CHR '']'' then Some (PList [], r') else json_parse JElements r)
             else if c = CHR ''{'' then
               (case skip_space r of [] \<Rightarrow> None
                | d # r' \<Rightarrow> if d = CHR ''}'' then Some (PDict [], r') else json_parse JMembers r)
             else if c = CHR 0x22 then map_option (\<lambda>(w, t). (PStr w, t)) (json_string r)
             else if starts_with ''true'' (c # r) then Some (PBool True, drop 3 r)
             else if starts_with ''false'' (c # r) then Some (PBool False, drop 4 r)
             else if starts_with ''null'' (c # r) then Some (PNone, drop 3 r)
             else json_number (c # r))
          else None)"
| "json_parse JElements s =
     (case json_parse JValue s of
        None \<Rightarrow> None
      | Some (v, r) \<Rightarrow>
          (case skip_space r of
             [] \<Rightarrow> None
           | d # r' \<Rightarrow>
               if d = CHR '']'' then Some (PList [v], r')
               else if d = CHR '','' \<and> length r' < length s then
                 map_option (\<lambda>(l, t). (add_element v l, t)) (json_parse JElements r')
               else None))"
| "json_parse JMembers s =
     (case skip_space s of
        [] \<Rightarrow> None
      | q # s1 \<Rightarrow>
          if q \<noteq> CHR 0x22 then None
          else (case json_string s1 of
             None \<Rightarrow> None
           | Some (k, s2) \<Rightarrow>
               (case skip_space s2 of
                  [] \<Rightarrow> None
                | c # s3 \<Rightarrow>
                    if c \<noteq> CHR '':'' \<or> \<not> length s3 < length s then None
                    else (case json_parse JValue s3 of
                       None \<Rightarrow> None
                     | Some (v, r) \<Rightarrow>
                         (case skip_space r of
                            [] \<Rightarrow> None
                          | d # r' \<Rightarrow>
                              if d = CHR ''}'' then Some (PDict [(k, v)], r')
                              else if d = CHR '','' \<and> length r' < length s then
                                map_option (\<lambda>(m, t). (add_member k v m, t)) (json_parse JMembers r')
                              else None)))))"
  by pat_completeness auto
termination
  by (relation "measure (\<lambda>(m, s). 2 * length s + (if m = JValue then 0 else 1))") auto

declare json_parse.simps [simp del]

definition json_loads :: "string \<Rightarrow> pyval option" where
  "json_loads s = (case json_parse JValue s of
      Some (v, r) \<Rightarrow> if skip_space r = [] then Some v else None
    | None \<Rightarrow> None)"

end
