(* ===== verification/Agent_Base.thy ===== *)
theory Agent_Base
  imports Json
begin

text \<open>
  The configuration constants, the health record, the counters and the parsers of the agent
  (deploy/agent/agent.py). A record \<open>env\<close> gives what one collection cycle reads from the
  host: the texts of files under /proc and /sys, the outputs of commands, resolved paths.
\<close>

section \<open>Readings of the host\<close>

text \<open>
  \<open>file_text p\<close> is \<open>None\<close> when reading raises; \<open>command args\<close> is \<open>Inl\<close> of the exception's
  text or \<open>Inr\<close> of the standard output. \<open>block_dev\<close> and \<open>mount_dev\<close> are \<open>os.stat\<close>'s device
  numbers, \<open>statvfs_of\<close> the block size, blocks, available and free blocks of \<open>os.statvfs\<close>.
\<close>

record env =
  file_text :: "string \<Rightarrow> string option"
  path_exists :: "string \<Rightarrow> bool"
  command :: "string list \<Rightarrow> string + string"
  real_path :: "string \<Rightarrow> string"
  dir_names :: "string \<Rightarrow> string list option"
  block_dev :: "string \<Rightarrow> (int \<times> int) option"
  mount_dev :: "string \<Rightarrow> (int \<times> int) option"
  statvfs_of :: "string \<Rightarrow> (int \<times> int \<times> int \<times> int) option"
  cpu_count_of :: int
  now_ts :: int

definition run_cmd :: "env \<Rightarrow> string list \<Rightarrow> string + string" where
  "run_cmd e args = (case command e args of Inl m \<Rightarrow> Inl m | Inr out \<Rightarrow> Inr (strip out))"

definition read_text :: "env \<Rightarrow> string \<Rightarrow> string \<Rightarrow> string" where
  "read_text e path dflt = (case file_text e path of None \<Rightarrow> dflt | Some t \<Rightarrow> strip t)"

definition read_counter :: "env \<Rightarrow> string \<Rightarrow> int" where
  "read_counter e path = (case file_text e path of None \<Rightarrow> 0
     | Some t \<Rightarrow> (case int_of_str (strip t) of None \<Rightarrow> 0 | Some i \<Rightarrow> i))"

definition str_safe_int :: "string \<Rightarrow> int \<Rightarrow> int" where
  "str_safe_int s d = safe_int (PStr s) d"

definition str_safe_float :: "string \<Rightarrow> rat \<Rightarrow> rat" where
  "str_safe_float s d = safe_float (PStr s) d"

section \<open>Configuration from the process environment\<close>

record config =
  c_api :: string
  c_token :: string
  c_node :: string
  c_collect_vm_net :: bool
  c_collect_vm_perf :: bool
  c_collect_node_host :: bool
  c_collect_physical_net :: bool
  c_bridge_roles :: string
  c_required_bridge_roles :: string
  c_dry_run :: bool
  c_sample_seconds :: int
  c_push_seconds :: int
  c_max_load :: rat
  c_skip_heavy :: bool
  c_pps_warn :: rat
  c_mbps_warn :: rat
  c_stale_iface_seconds :: int
  c_quiet :: bool
  c_http_gzip :: bool
  c_http_gzip_min_bytes :: int

type_synonym environ = "string \<Rightarrow> string option"

definition environ_get :: "environ \<Rightarrow> string \<Rightarrow> string \<Rightarrow> string" where
  "environ_get en k d = (case en k of None \<Rightarrow> d | Some v \<Rightarrow> v)"

definition environ_or :: "environ \<Rightarrow> string \<Rightarrow> string \<Rightarrow> string" where
  "environ_or en k v = (case en k of Some x \<Rightarrow> if x = [] then v else x | None \<Rightarrow> v)"

text \<open>
  The module constants; \<open>None\<close> is the \<open>ValueError\<close> of \<open>int()\<close> or \<open>float()\<close> on a malformed
  variable, with which the import of the module fails. \<open>nodename\<close> is \<open>os.uname().nodename\<close>.
  The file paths and the subprocess time-outs are not part of the record.
\<close>

definition load_config :: "environ \<Rightarrow> string \<Rightarrow> config option" where
  "load_config en nodename =
     (let flag = (\<lambda>k d. environ_get en k d = ''1'') in
      case (int_of_str (environ_or en ''VIRTINFRA_AGENT_SAMPLE_SECONDS'' (environ_get en ''BW_AGENT_SAMPLE_SECONDS'' ''15'')),
            int_of_str (environ_or en ''VIRTINFRA_AGENT_PUSH_SECONDS'' (environ_get en ''BW_AGENT_PUSH_SECONDS'' ''300'')),
            float_of_str (environ_get en ''BW_AGENT_MAX_LOAD'' ''160''),
            float_of_str (environ_get en ''BW_AGENT_PPS_WARN'' ''200000''),
            float_of_str (environ_get en ''BW_AGENT_MBPS_WARN'' ''800''),
            int_of_str (environ_get en ''BW_AGENT_STALE_IFACE_SECONDS'' ''600''),
            int_of_str (environ_get en ''BW_AGENT_HTTP_GZIP_MIN_BYTES'' ''1024'')) of
        (Some sample, Some push, Some load, Some pps, Some mbps, Some stale, Some gz) \<Rightarrow>
          Some \<lparr>
            c_api = strip (environ_or en ''VIRTINFRA_AGENT_API'' (environ_get en ''BW_AGENT_API'' [])),
            c_token = strip (environ_or en ''VIRTINFRA_AGENT_TOKEN'' (environ_get en ''BW_AGENT_TOKEN'' [])),
            c_node = strip (environ_or en ''VIRTINFRA_AGENT_NODE'' (environ_or en ''BW_AGENT_NODE'' nodename)),
            c_collect_vm_net = flag ''BW_AGENT_COLLECT_VM_NET'' ''1'',
            c_collect_vm_perf = flag ''BW_AGENT_COLLECT_VM_PERF'' ''1'',
            c_collect_node_host = flag ''BW_AGENT_COLLECT_NODE_HOST'' ''1'',
            c_collect_physical_net = flag ''BW_AGENT_COLLECT_PHYSICAL_NET'' ''1'',
            c_bridge_roles = environ_get en ''BW_AGENT_BRIDGE_ROLES'' ''public:br0,private:br1'',
            c_required_bridge_roles = environ_get en ''BW_AGENT_REQUIRED_BRIDGE_ROLES'' [],
            c_dry_run = flag ''BW_AGENT_DRY_RUN'' ''0'',
            c_sample_seconds = max 5 sample,
            c_push_seconds = max 60 push,
            c_max_load = load,
            c_skip_heavy = flag ''BW_AGENT_SKIP_HEAVY_ON_OVERLOAD'' ''0'',
            c_pps_warn = max 0 pps,
            c_mbps_warn = max 0 mbps,
            c_stale_iface_seconds = max 120 stale,
            c_quiet = flag ''BW_AGENT_QUIET'' ''0'',
            c_http_gzip = flag ''BW_AGENT_HTTP_GZIP'' ''1'',
            c_http_gzip_min_bytes = max 0 gz\<rparr>
      | _ \<Rightarrow> None)"

definition config_ok :: "config \<Rightarrow> bool" where
  "config_ok cf = (5 \<le> c_sample_seconds cf \<and> 60 \<le> c_push_seconds cf \<and> 0 \<le> c_pps_warn cf
     \<and> 0 \<le> c_mbps_warn cf \<and> 120 \<le> c_stale_iface_seconds cf \<and> 0 \<le> c_http_gzip_min_bytes cf)"

lemma load_config_ok: "load_config en nn = Some cf \<Longrightarrow> config_ok cf"
  by (auto simp: load_config_def config_ok_def Let_def split: option.splits)

section \<open>Health notes\<close>

record health =
  h_errors :: "string list"
  h_notes :: "string list"

definition append_health_item :: "string list \<Rightarrow> string \<Rightarrow> string list" where
  "append_health_item items message =
     (let m = take 300 message in if m \<notin> set items \<and> length items < 50 then items @ [m] else items)"

definition add_error :: "health \<Rightarrow> string \<Rightarrow> health" where
  "add_error h m = h\<lparr>h_errors := append_health_item (h_errors h) m\<rparr>"

definition add_note :: "health \<Rightarrow> string \<Rightarrow> health" where
  "add_note h m = h\<lparr>h_notes := append_health_item (h_notes h) m\<rparr>"

definition empty_health :: health where
  "empty_health = \<lparr>h_errors = [], h_notes = []\<rparr>"

definition items_ok :: "string list \<Rightarrow> bool" where
  "items_ok xs = (distinct xs \<and> length xs \<le> 50 \<and> list_all (\<lambda>m. length m \<le> 300) xs)"

definition health_ok :: "health \<Rightarrow> bool" where
  "health_ok h = (items_ok (h_errors h) \<and> items_ok (h_notes h))"

lemma append_health_item_ok: "items_ok xs \<Longrightarrow> items_ok (append_health_item xs m)"
  by (auto simp: items_ok_def append_health_item_def Let_def)

lemma health_ok_add [simp, intro]:
  "health_ok h \<Longrightarrow> health_ok (add_error h m)"
  "health_ok h \<Longrightarrow> health_ok (add_note h m)"
  "health_ok empty_health"
  by (auto simp: health_ok_def add_error_def add_note_def empty_health_def intro: append_health_item_ok)
    (auto simp: items_ok_def)

section \<open>Counters\<close>

text \<open>\<open>delta_counter(new, old)\<close>: a counter that went backwards was reset and contributes nothing.\<close>

definition delta_counter :: "pyval \<Rightarrow> pyval \<Rightarrow> int" where
  "delta_counter new old =
     (let n = safe_int new 0; o' = safe_int old n in if n < o' then 0 else n - o')"

lemma delta_counter_nonneg [simp]: "0 \<le> delta_counter a b"
  by (simp add: delta_counter_def Let_def)

lemma delta_counter_ints [simp, py_simps]: "delta_counter (PInt a) (PInt b) = max 0 (a - b)"
  by (simp add: delta_counter_def Let_def)

record counters =
  rx :: int
  tx :: int
  rx_packets :: int
  tx_packets :: int
  rx_drop :: int
  tx_drop :: int
  rx_error :: int
  tx_error :: int

definition counters_dict :: "counters \<Rightarrow> pyval dict" where
  "counters_dict c = [(''rx'', PInt (rx c)), (''tx'', PInt (tx c)),
     (''rx_packets'', PInt (rx_packets c)), (''tx_packets'', PInt (tx_packets c)),
     (''rx_drop'', PInt (rx_drop c)), (''tx_drop'', PInt (tx_drop c)),
     (''rx_error'', PInt (rx_error c)), (''tx_error'', PInt (tx_error c))]"

text \<open>The eight deltas of a reading against the stored entry: \<open>old.get(k, counters[k])\<close>.\<close>

definition delta_vs :: "int \<Rightarrow> pyval dict \<Rightarrow> string \<Rightarrow> int" where
  "delta_vs new old k = delta_counter (PInt new) (dget_or old k (PInt new))"

definition counter_deltas :: "counters \<Rightarrow> pyval dict \<Rightarrow> counters" where
  "counter_deltas c old = \<lparr>
     rx = delta_vs (rx c) old ''rx'', tx = delta_vs (tx c) old ''tx'',
     rx_packets = delta_vs (rx_packets c) old ''rx_packets'', tx_packets = delta_vs (tx_packets c) old ''tx_packets'',
     rx_drop = delta_vs (rx_drop c) old ''rx_drop'', tx_drop = delta_vs (tx_drop c) old ''tx_drop'',
     rx_error = delta_vs (rx_error c) old ''rx_error'', tx_error = delta_vs (tx_error c) old ''tx_error''\<rparr>"

lemma delta_vs_nonneg [simp]: "0 \<le> delta_vs n d k"
  by (simp add: delta_vs_def)

lemma delta_vs_Nil [simp]: "delta_vs n [] k = 0"
  by (simp add: delta_vs_def dget_or_def)

lemma counter_deltas_stored [simp]:
  "rx (counter_deltas c (counters_dict c0)) = max 0 (rx c - rx c0)"
  "tx (counter_deltas c (counters_dict c0)) = max 0 (tx c - tx c0)"
  "rx_packets (counter_deltas c (counters_dict c0)) = max 0 (rx_packets c - rx_packets c0)"
  "tx_packets (counter_deltas c (counters_dict c0)) = max 0 (tx_packets c - tx_packets c0)"
  "rx_drop (counter_deltas c (counters_dict c0)) = max 0 (rx_drop c - rx_drop c0)"
  "tx_drop (counter_deltas c (counters_dict c0)) = max 0 (tx_drop c - tx_drop c0)"
  "rx_error (counter_deltas c (counters_dict c0)) = max 0 (rx_error c - rx_error c0)"
  "tx_error (counter_deltas c (counters_dict c0)) = max 0 (tx_error c - tx_error c0)"
  by (simp_all add: counter_deltas_def counters_dict_def delta_vs_def dget_or_def)

definition collect_interface_counters :: "env \<Rightarrow> string \<Rightarrow> counters option" where
  "collect_interface_counters e iface =
     (let base = ''/sys/class/net/'' @ iface @ ''/statistics'' in
      if \<not> path_exists e base then None
      else Some \<lparr>
        rx = read_counter e (base @ ''/rx_bytes''), tx = read_counter e (base @ ''/tx_bytes''),
        rx_packets = read_counter e (base @ ''/rx_packets''), tx_packets = read_counter e (base @ ''/tx_packets''),
        rx_drop = read_counter e (base @ ''/rx_dropped''), tx_drop = read_counter e (base @ ''/tx_dropped''),
        rx_error = read_counter e (base @ ''/rx_errors''), tx_error = read_counter e (base @ ''/tx_errors'')\<rparr>)"

section \<open>Bridge roles\<close>

definition parse_bridge_item :: "string \<Rightarrow> (string \<times> string) option" where
  "parse_bridge_item item0 =
     (let item = strip item0 in
      if item = [] then None
      else if CHR '':'' \<in> set item \<or> CHR ''='' \<in> set item then
        (let (role, bridge) = split1 (if CHR '':'' \<in> set item then CHR '':'' else CHR ''='') item;
             r = lower (strip role); b = strip bridge in
         if r \<noteq> [] \<and> b \<noteq> [] then Some (r, b) else None)
      else None)"

definition parse_bridge_roles :: "string \<Rightarrow> (string \<times> string) list" where
  "parse_bridge_roles v =
     (let roles = List.map_filter parse_bridge_item (split_on CHR '','' v) in
      if roles = [] then [(''public'', ''br0''), (''private'', ''br1'')] else roles)"

definition parse_required_bridge_roles :: "string \<Rightarrow> string list" where
  "parse_required_bridge_roles v =
     map (\<lambda>item. lower (strip item))
       (filter (\<lambda>item. strip item \<noteq> [])
         (split_on CHR '','' (map (\<lambda>c. if c = CHR '';'' then CHR '','' else c) v)))"

definition bridge_role_is_required :: "config \<Rightarrow> string \<Rightarrow> bool" where
  "bridge_role_is_required cf role = (lower (strip role) \<in> set (parse_required_bridge_roles (c_required_bridge_roles cf)))"

definition record_bridge_unavailable :: "config \<Rightarrow> health \<Rightarrow> string \<Rightarrow> string \<Rightarrow> string \<Rightarrow> health" where
  "record_bridge_unavailable cf h role0 bridge0 status0 =
     (let role = lower (strip role0); bridge = strip bridge0;
          status = lower (strip (str_or status0 ''not_configured'')) in
      if bridge_role_is_required cf role
      then add_error h (''required bridge unavailable role='' @ role @ '' bridge='' @ bridge @ '' status='' @ status)
      else add_note h (''optional bridge omitted role='' @ role @ '' bridge='' @ bridge @ '' status='' @ status))"

lemma parse_bridge_item_Some:
  "parse_bridge_item s = Some (r, b) \<Longrightarrow> r \<noteq> [] \<and> b \<noteq> [] \<and> lower r = r"
  by (auto simp: parse_bridge_item_def Let_def split: if_splits prod.splits)

lemma parse_bridge_roles_ok:
  "parse_bridge_roles v \<noteq> [] \<and> (\<forall>(r, b) \<in> set (parse_bridge_roles v). r \<noteq> [] \<and> b \<noteq> [] \<and> lower r = r)"
proof -
  have "lower ''public'' = ''public''" "lower ''private'' = ''private''"
    by (simp_all add: lower_def lower_char_def)
  moreover have "r \<noteq> [] \<and> b \<noteq> [] \<and> lower r = r"
    if "(r, b) \<in> set (List.map_filter parse_bridge_item xs)" for r b xs
    using that parse_bridge_item_Some by (auto simp: List.map_filter_def) (metis option.sel)+
  ultimately show ?thesis
    unfolding parse_bridge_roles_def Let_def by auto
qed

lemma record_bridge_health [simp, intro]:
  "health_ok h \<Longrightarrow> health_ok (record_bridge_unavailable cf h r b s)"
  by (simp add: record_bridge_unavailable_def Let_def)


section \<open>Properties\<close>

definition sample_config :: config where
  "sample_config = \<lparr>c_api = ''http://monitor/push'', c_token = ''secret'', c_node = ''node1'',
     c_collect_vm_net = True, c_collect_vm_perf = True, c_collect_node_host = True, c_collect_physical_net = True,
     c_bridge_roles = ''public:br0,private:br1'', c_required_bridge_roles = [], c_dry_run = False,
     c_sample_seconds = 15, c_push_seconds = 300, c_max_load = 160, c_skip_heavy = False, c_pps_warn = 200000,
     c_mbps_warn = 800, c_stale_iface_seconds = 600, c_quiet = False, c_http_gzip = True, c_http_gzip_min_bytes = 1024\<rparr>"

definition sample_environ :: environ where
  "sample_environ k = (if k = ''BW_AGENT_API'' then Some ''http://monitor/push'' else if k = ''VIRTINFRA_AGENT_TOKEN'' then Some '' secret ''
     else if k = ''BW_AGENT_SAMPLE_SECONDS'' then Some ''15'' else if k = ''BW_AGENT_STALE_IFACE_SECONDS'' then Some ''600'' else None)"

lemma sample_config_ok [simp]: "config_ok sample_config"
  by (simp add: config_ok_def sample_config_def)

lemma sample_config_fields [simp]: "c_sample_seconds sample_config = 15" "c_push_seconds sample_config = 300"
  "c_stale_iface_seconds sample_config = 600" "\<not> c_dry_run sample_config" "c_node sample_config = ''node1''"
  by (simp_all add: sample_config_def)

text \<open>Whatever the environment holds, a configuration that loads keeps the bounds the rest of the
  agent relies on: at least 5 seconds between samples and 60 between pushes, no negative threshold.\<close>

theorem configuration_bounded:
  assumes "load_config en nodename = Some cf"
  shows "5 \<le> c_sample_seconds cf \<and> 60 \<le> c_push_seconds cf \<and> 120 \<le> c_stale_iface_seconds cf
    \<and> 0 \<le> c_pps_warn cf \<and> 0 \<le> c_mbps_warn cf \<and> 0 \<le> c_http_gzip_min_bytes cf"
  using load_config_ok[OF assms] by (simp add: config_ok_def)

theorem configuration_bounded_witness:
  "load_config sample_environ ''node1'' = Some sample_config \<and> 5 \<le> c_sample_seconds sample_config"
proof -
  have "load_config sample_environ ''node1'' = Some sample_config" by code_simp
  then show ?thesis using configuration_bounded by blast
qed

end
