(* ===== verification/Agent_Parse.thy ===== *)
theory Agent_Parse
  imports Agent_Base
begin

text \<open>
  The agent's parsers of host texts: addresses of the bridges, the list of domains and their
  interfaces, the statistics of \<open>virsh domstats\<close>, /proc/net/dev, /proc/loadavg, /proc/meminfo,
  /proc/stat and /proc/uptime. The lemmas state that the parsers never raise, what they skip, and
  that \<open>split_domstats_blocks\<close> reads back the blocks \<open>virsh\<close> prints.
\<close>

section \<open>Addresses of a bridge\<close>

text \<open>
  What the code uses of Python's \<open>ipaddress\<close> for the addresses of family inet: the dotted quad,
  without leading zeros, and the three tests on it.
\<close>

definition octet_of :: "string \<Rightarrow> int option" where
  "octet_of s = (if s \<noteq> [] \<and> length s \<le> 3 \<and> list_all is_digit s \<and> (hd s \<noteq> CHR ''0'' \<or> length s = 1)
     then (case digits_val 0 False s of Some n \<Rightarrow> if n \<le> 255 then Some n else None | None \<Rightarrow> None)
     else None)"

definition ip_address :: "string \<Rightarrow> (int \<times> int \<times> int \<times> int) option" where
  "ip_address s = (case map octet_of (split_on CHR ''.'' s) of
      [Some a, Some b, Some c, Some d] \<Rightarrow> Some (a, b, c, d) | _ \<Rightarrow> None)"

fun ip_rejected :: "int \<times> int \<times> int \<times> int \<Rightarrow> bool" where
  "ip_rejected (a, b, c, d) =
     (a = 127 \<or> (a = 0 \<and> b = 0 \<and> c = 0 \<and> d = 0) \<or> (224 \<le> a \<and> a \<le> 239))"

record addr =
  a_cidr :: string
  a_scope :: string
  a_dynamic :: bool
  a_secondary :: bool

record ip_info =
  ipv4 :: "string list"
  primary_ipv4 :: string

definition list_items :: "pyval \<Rightarrow> pyval list" where
  "list_items v = (case v of PList xs \<Rightarrow> xs | _ \<Rightarrow> [])"

definition item_flags :: "pyval dict \<Rightarrow> string list" where
  "item_flags item = map (\<lambda>f. lower (py_str f)) (list_items (get_none item ''flags''))"

definition addr_of_item :: "pyval dict \<Rightarrow> addr option" where
  "addr_of_item item =
     (let local = strip (py_str (py_or (get_none item ''local'') (PStr []))); flags = item_flags item in
      if lower (py_str (py_or (get_none item ''family'') (PStr []))) \<noteq> ''inet'' then None
      else if local = [] then None
      else (case ip_address local of
              None \<Rightarrow> None
            | Some ip \<Rightarrow>
                if ''tentative'' \<in> set flags \<or> ''dadfailed'' \<in> set flags then None
                else if ip_rejected ip then None
                else Some \<lparr>a_cidr = local @ ''/'' @ str_of_int (safe_int (get_none item ''prefixlen'') 32),
                           a_scope = py_str (py_or (get_none item ''scope'') (PStr [])),
                           a_dynamic = (''dynamic'' \<in> set flags),
                           a_secondary = (''secondary'' \<in> set flags)\<rparr>))"

definition link_items :: "pyval \<Rightarrow> pyval dict list" where
  "link_items link = (case link of
      PDict d \<Rightarrow> map as_dict (filter is_dict (list_items (get_none d ''addr_info''))) | _ \<Rightarrow> [])"

fun keep_new_cidr :: "string list \<Rightarrow> addr list \<Rightarrow> addr list" where
  "keep_new_cidr seen [] = []"
| "keep_new_cidr seen (a # as) =
     (if a_cidr a \<in> set seen then keep_new_cidr seen as else a # keep_new_cidr (a_cidr a # seen) as)"

definition scope_rank :: "string \<Rightarrow> nat" where
  "scope_rank s = (if s = ''global'' then 0 else if s = ''site'' then 1 else if s = ''link'' then 2
     else if s = ''host'' then 3 else 9)"

definition addr_key :: "addr \<Rightarrow> nat \<times> nat \<times> nat \<times> string" where
  "addr_key a = (scope_rank (a_scope a), (if a_secondary a then 1 else 0), (if a_dynamic a then 1 else 0), a_cidr a)"

definition ip_addresses_of :: "pyval \<Rightarrow> addr list" where
  "ip_addresses_of payload =
     (let links = (case payload of PDict d \<Rightarrow> [PDict d] | PList xs \<Rightarrow> xs | _ \<Rightarrow> []) in
      sort_key addr_key (keep_new_cidr [] (List.map_filter addr_of_item (concat (map link_items links)))))"

definition parse_ip_addr_json :: "string \<Rightarrow> ip_info" where
  "parse_ip_addr_json text = (case json_loads (str_or text ''[]'') of
      None \<Rightarrow> \<lparr>ipv4 = [], primary_ipv4 = []\<rparr>
    | Some payload \<Rightarrow>
        (let addrs = map a_cidr (ip_addresses_of payload) in
         \<lparr>ipv4 = addrs, primary_ipv4 = (case addrs of [] \<Rightarrow> [] | a # _ \<Rightarrow> a)\<rparr>))"

lemma set_keep_new_cidr: "set (keep_new_cidr seen as) \<subseteq> set as"
  by (induction as arbitrary: seen) auto

lemma cidrs_keep_new:
  "set (map a_cidr (keep_new_cidr seen as)) = set (map a_cidr as) - set seen"
  by (induction as arbitrary: seen) auto

lemma distinct_keep_new: "distinct (map a_cidr (keep_new_cidr seen as))"
proof (induction as arbitrary: seen)
  case (Cons a as)
  then show ?case using cidrs_keep_new[of "a_cidr a # seen" as] by auto
qed simp

lemma distinct_map_sort_key: "distinct (map f xs) \<Longrightarrow> distinct (map f (sort_key k xs))"
  by (simp add: distinct_map)

lemma ip_addresses_sorted: "sorted (map addr_key (ip_addresses_of p))"
  by (simp add: ip_addresses_of_def Let_def)

lemma ip_addresses_distinct: "distinct (map a_cidr (ip_addresses_of p))"
  unfolding ip_addresses_of_def Let_def by (rule distinct_map_sort_key) (rule distinct_keep_new)

section \<open>Metadata of an interface and the bridge addresses\<close>

record iface_meta =
  operstate :: string
  carrier :: int
  speed_mbps :: int
  mtu :: int
  address :: string

definition iface_metadata :: "env \<Rightarrow> string \<Rightarrow> iface_meta" where
  "iface_metadata e iface =
     (let base = ''/sys/class/net/'' @ iface in
      \<lparr>operstate = read_text e (base @ ''/operstate'') ''-'',
       carrier = str_safe_int (read_text e (base @ ''/carrier'') ''0'') 0,
       speed_mbps = str_safe_int (read_text e (base @ ''/speed'') ''0'') 0,
       mtu = str_safe_int (read_text e (base @ ''/mtu'') ''0'') 0,
       address = read_text e (base @ ''/address'') []\<rparr>)"

record bridge_row =
  br_role :: string
  br_bridge :: string
  br_ipv4 :: "string list"
  br_primary :: string
  br_meta :: iface_meta

fun collect_bridges :: "config \<Rightarrow> env \<Rightarrow> (string \<times> string) list \<Rightarrow> health \<Rightarrow> bridge_row list \<times> health" where
  "collect_bridges cf e [] h = ([], h)"
| "collect_bridges cf e ((role, bridge) # rest) h =
     (if \<not> path_exists e (''/sys/class/net/'' @ bridge)
      then collect_bridges cf e rest (record_bridge_unavailable cf h role bridge ''not_configured'')
      else
        (let (info, h1) = (case run_cmd e [''ip'', ''-j'', ''-4'', ''address'', ''show'', ''dev'', bridge] of
                 Inr raw \<Rightarrow> (parse_ip_addr_json raw, h)
               | Inl exc \<Rightarrow> (\<lparr>ipv4 = [], primary_ipv4 = []\<rparr>,
                   add_error h (''cannot read bridge IPv4 for '' @ role @ '':'' @ bridge @ '': '' @ exc)));
             (rows, h2) = collect_bridges cf e rest h1 in
         (\<lparr>br_role = role, br_bridge = bridge, br_ipv4 = ipv4 info, br_primary = primary_ipv4 info,
           br_meta = iface_metadata e bridge\<rparr> # rows, h2)))"

definition collect_bridge_addresses :: "config \<Rightarrow> env \<Rightarrow> health \<Rightarrow> bridge_row list \<times> health" where
  "collect_bridge_addresses cf e h = collect_bridges cf e (parse_bridge_roles (c_bridge_roles cf)) h"

lemma collect_bridges_health: "health_ok h \<Longrightarrow> health_ok (snd (collect_bridges cf e rs h))"
  by (induction cf e rs h rule: collect_bridges.induct) (auto split: prod.splits sum.splits)

section \<open>Domains and their interfaces\<close>

text \<open>The list of running domains, and whether the inventory is complete.\<close>

definition get_vm_names :: "env \<Rightarrow> health \<Rightarrow> (string list \<times> bool) \<times> health" where
  "get_vm_names e h = (case run_cmd e [''virsh'', ''list'', ''--name''] of
      Inr out \<Rightarrow> ((filter (\<lambda>x. x \<noteq> []) (map strip (splitlines out)), True), h)
    | Inl exc \<Rightarrow> (([], False), add_error h (''virsh list failed: '' @ exc)))"

record nic =
  n_iface :: string
  n_bridge :: string
  n_mac :: string

definition domif_row :: "string \<Rightarrow> nic option" where
  "domif_row line = (case words_ws line of
      a # b # c # d # e # r \<Rightarrow>
        if a = ''Interface'' \<or> starts_with ''-'' a then None
        else Some \<lparr>n_iface = a, n_bridge = c, n_mac = e\<rparr>
    | _ \<Rightarrow> None)"

definition parse_domiflist :: "env \<Rightarrow> string \<Rightarrow> health \<Rightarrow> nic list \<times> health" where
  "parse_domiflist e vm h = (case run_cmd e [''virsh'', ''domiflist'', vm] of
      Inl exc \<Rightarrow> ([], add_error h (''domiflist failed for '' @ vm @ '': '' @ exc))
    | Inr out \<Rightarrow> (List.map_filter domif_row (splitlines out), h))"

lemma parse_domiflist_health: "health_ok h \<Longrightarrow> health_ok (snd (parse_domiflist e vm h))"
  by (auto simp: parse_domiflist_def split: sum.splits)

lemma get_vm_names_health: "health_ok h \<Longrightarrow> health_ok (snd (get_vm_names e h))"
  by (auto simp: get_vm_names_def split: sum.splits)

section \<open>virsh domstats\<close>

fun str_remove :: "string \<Rightarrow> nat \<Rightarrow> string \<Rightarrow> string" where
  "str_remove p k [] = []"
| "str_remove p (Suc k) (c # s) = str_remove p k s"
| "str_remove p 0 (c # s) =
     (if starts_with p (c # s) then str_remove p (length p - 1) s else c # str_remove p 0 s)"

definition domain_of_line :: "string \<Rightarrow> string" where
  "domain_of_line line =
     (let q = CHR 0x27 in
      if q \<in> set line then takeWhile (\<lambda>c. c \<noteq> q) (snd (split1 q line))
      else strip (str_remove ''Domain:'' 0 line))"

type_synonym domstats = "string dict"

fun domstats_loop :: "string list \<Rightarrow> string option \<Rightarrow> domstats \<Rightarrow> (string \<times> domstats) list" where
  "domstats_loop [] cur stats = (case cur of None \<Rightarrow> [] | Some d \<Rightarrow> [(d, stats)])"
| "domstats_loop (raw # rest) cur stats =
     (let line = strip raw in
      if line = [] then domstats_loop rest cur stats
      else if starts_with ''Domain:'' line then
        (case cur of None \<Rightarrow> [] | Some d \<Rightarrow> [(d, stats)]) @ domstats_loop rest (Some (domain_of_line line)) []
      else (case cur of
              None \<Rightarrow> domstats_loop rest cur stats
            | Some d \<Rightarrow>
                if CHR ''='' \<in> set line then
                  (let (k, v) = split1 CHR ''='' line in domstats_loop rest cur (dset stats (strip k) (strip v)))
                else domstats_loop rest cur stats))"

definition split_domstats_blocks :: "string \<Rightarrow> (string \<times> domstats) list" where
  "split_domstats_blocks text = domstats_loop (splitlines text) None []"

definition stat_text :: "domstats \<Rightarrow> string \<Rightarrow> pyval" where
  "stat_text d k = (case dget d k of None \<Rightarrow> PNone | Some s \<Rightarrow> PStr s)"

subsection \<open>Reading back what virsh prints\<close>

text \<open>The blocks as \<open>virsh domstats\<close> prints them: a quoted name, indented pairs, an empty line.\<close>

definition stat_line :: "string \<times> string \<Rightarrow> string" where
  "stat_line kv = ''  '' @ fst kv @ ''='' @ snd kv"

definition block_lines :: "string \<times> domstats \<Rightarrow> string list" where
  "block_lines b = (''Domain: '' @ [CHR 0x27] @ fst b @ [CHR 0x27]) # map stat_line (snd b) @ [[]]"

definition stat_ok :: "string \<times> string \<Rightarrow> bool" where
  "stat_ok kv = (trimmed (fst kv) \<and> trimmed (snd kv) \<and> CHR ''='' \<notin> set (fst kv)
     \<and> no_breaks (fst kv) \<and> no_breaks (snd kv) \<and> fst kv \<noteq> [] \<and> \<not> starts_with ''Domain:'' (fst kv))"

definition block_ok :: "string \<times> domstats \<Rightarrow> bool" where
  "block_ok b = (CHR 0x27 \<notin> set (fst b) \<and> no_breaks (fst b) \<and> list_all stat_ok (snd b)
     \<and> distinct (map fst (snd b)))"

lemma split1_append: "c \<notin> set a \<Longrightarrow> split1 c (a @ c # b) = (a, b)"
  by (induction a) (auto simp: split1_def)

lemma strip_stat_line: "stat_ok kv \<Longrightarrow> strip (stat_line kv) = fst kv @ ''='' @ snd kv"
  unfolding stat_line_def
  by (rule strip_spaces) (auto simp: is_space_def stat_ok_def trimmed_def)

lemma starts_with_colon_free:
  "starts_with p (a @ c # b) \<Longrightarrow> c \<notin> set p \<Longrightarrow> starts_with p a"
  by (auto simp: starts_with_iff append_eq_append_conv2 Cons_eq_append_conv)

lemma strip_domain_line:
  "strip (''Domain: '' @ [CHR 0x27] @ d @ [CHR 0x27]) = ''Domain: '' @ [CHR 0x27] @ d @ [CHR 0x27]"
  by (rule strip_trimmed) (simp add: trimmed_def is_space_def)

lemma domain_of_line_quoted:
  "CHR 0x27 \<notin> set d \<Longrightarrow> domain_of_line (''Domain: '' @ [CHR 0x27] @ d @ [CHR 0x27]) = d"
  by (simp add: domain_of_line_def split1_def takeWhile_tail) (induction d, auto)

lemma domstats_loop_stats:
  "list_all stat_ok st \<Longrightarrow> distinct (map fst (acc @ st)) \<Longrightarrow>
   domstats_loop (map stat_line st @ [] # rest) (Some d) acc = domstats_loop rest (Some d) (acc @ st)"
proof (induction st arbitrary: acc)
  case Nil
  then show ?case by (simp add: strip_def rstrip_by_def lstrip_def)
next
  case (Cons kv st)
  obtain k v where kv: "kv = (k, v)" by (cases kv)
  with Cons.prems have ok: "stat_ok (k, v)" and fresh: "k \<notin> set (map fst acc)" by auto
  have "\<not> starts_with ''Domain:'' (k @ ''='' @ v)"
    using ok starts_with_colon_free[of "''Domain:''" k "CHR ''=''" v] by (auto simp: stat_ok_def)
  moreover have "split1 CHR ''='' (k @ ''='' @ v) = (k, v)"
    using ok split1_append[of "CHR ''=''" k v] by (simp add: stat_ok_def)
  moreover have "strip (stat_line (k, v)) = k @ ''='' @ v" using strip_stat_line[OF ok] by simp
  ultimately have "domstats_loop (map stat_line (kv # st) @ [] # rest) (Some d) acc
      = domstats_loop (map stat_line st @ [] # rest) (Some d) (dset acc k v)"
    using ok by (simp add: kv stat_ok_def strip_trimmed)
  also have "dset acc k v = acc @ [kv]" using fresh kv by (simp add: dset_fresh)
  also have "domstats_loop (map stat_line st @ [] # rest) (Some d) (acc @ [kv])
      = domstats_loop rest (Some d) ((acc @ [kv]) @ st)"
    using Cons.prems by (intro Cons.IH) auto
  finally show ?case by simp
qed

lemma domstats_loop_blocks:
  "list_all block_ok bs \<Longrightarrow>
   domstats_loop (concat (map block_lines bs)) cur acc = (case cur of None \<Rightarrow> [] | Some d \<Rightarrow> [(d, acc)]) @ bs"
proof (induction bs arbitrary: cur acc)
  case (Cons b bs)
  obtain d st where b: "b = (d, st)" by (cases b)
  have dl: "starts_with ''Domain:'' (''Domain: '' @ [CHR 0x27] @ d @ [CHR 0x27])" by simp
  have "domstats_loop (concat (map block_lines (b # bs))) cur acc
      = (case cur of None \<Rightarrow> [] | Some d \<Rightarrow> [(d, acc)])
        @ domstats_loop (map stat_line st @ [] # concat (map block_lines bs)) (Some d) []"
    using Cons.prems strip_domain_line[of d] domain_of_line_quoted[of d]
    by (simp add: b block_lines_def block_ok_def)
  also have "domstats_loop (map stat_line st @ [] # concat (map block_lines bs)) (Some d) []
      = domstats_loop (concat (map block_lines bs)) (Some d) st"
    using Cons.prems domstats_loop_stats[of st "[]"] by (simp add: b block_ok_def)
  also have "\<dots> = (d, st) # bs" using Cons.IH Cons.prems by simp
  finally show ?case by (simp add: b)
qed (simp split: option.split)

lemma block_lines_no_breaks: "block_ok b \<Longrightarrow> list_all no_breaks (block_lines b)"
  by (auto simp: block_ok_def block_lines_def no_breaks_def is_linebreak_def stat_line_def stat_ok_def list_all_iff)

lemma split_domstats_render:
  assumes "list_all block_ok bs"
  shows "split_domstats_blocks (lf_lines (concat (map block_lines bs))) = bs"
proof -
  have "list_all no_breaks (concat (map block_lines bs))"
    using assms block_lines_no_breaks unfolding list_all_iff by fastforce
  then show ?thesis
    using assms by (simp add: split_domstats_blocks_def splitlines_lf_lines domstats_loop_blocks)
qed

section \<open>/proc\<close>

definition parse_proc_net_row :: "string \<Rightarrow> (string \<times> counters) option" where
  "parse_proc_net_row raw =
     (if CHR '':'' \<notin> set raw then None
      else (let (name, values) = split1 CHR '':'' raw; iface = strip name; f = words_ws values in
        if iface = [] \<or> length f < 16 then None
        else Some (iface, \<lparr>
          rx = str_safe_int (f ! 0) 0, tx = str_safe_int (f ! 8) 0,
          rx_packets = str_safe_int (f ! 1) 0, tx_packets = str_safe_int (f ! 9) 0,
          rx_drop = str_safe_int (f ! 3) 0, tx_drop = str_safe_int (f ! 11) 0,
          rx_error = str_safe_int (f ! 2) 0, tx_error = str_safe_int (f ! 10) 0\<rparr>)))"

definition parse_proc_net_dev :: "string \<Rightarrow> counters dict" where
  "parse_proc_net_dev text =
     fold (\<lambda>raw rows. case parse_proc_net_row raw of None \<Rightarrow> rows | Some (i, c) \<Rightarrow> dset rows i c)
       (splitlines text) []"

definition parse_loadavg :: "env \<Rightarrow> rat \<times> rat \<times> rat" where
  "parse_loadavg e = (case file_text e ''/proc/loadavg'' of
      None \<Rightarrow> (0, 0, 0)
    | Some t \<Rightarrow> (case words_ws t of
        a # b # c # _ \<Rightarrow> (str_safe_float a 0, str_safe_float b 0, str_safe_float c 0)
      | _ \<Rightarrow> (0, 0, 0)))"

text \<open>A line without a value raises and ends the loop with what was read so far.\<close>

fun meminfo_loop :: "string list \<Rightarrow> int dict \<Rightarrow> int dict" where
  "meminfo_loop [] vals = vals"
| "meminfo_loop (line # rest) vals =
     (if CHR '':'' \<notin> set line then meminfo_loop rest vals
      else (let (k, r) = split1 CHR '':'' line in
        (case words_ws (strip r) of
           [] \<Rightarrow> vals
         | w # _ \<Rightarrow> meminfo_loop rest (dset vals k (str_safe_int w 0 * 1024)))))"

definition parse_meminfo :: "env \<Rightarrow> int \<times> int \<times> int \<times> int \<times> int" where
  "parse_meminfo e =
     (let vals = (case file_text e ''/proc/meminfo'' of None \<Rightarrow> [] | Some t \<Rightarrow> meminfo_loop (splitlines t) []);
          mem_total = dget_or vals ''MemTotal'' 0;
          mem_available = dget_or vals ''MemAvailable'' 0;
          swap_total = dget_or vals ''SwapTotal'' 0;
          swap_free = dget_or vals ''SwapFree'' 0 in
      (mem_total, mem_available, (if mem_total \<noteq> 0 then max 0 (mem_total - mem_available) else 0),
       swap_total, (if swap_total \<noteq> 0 then max 0 (swap_total - swap_free) else 0)))"

definition parse_proc_stat_cpu :: "env \<Rightarrow> int \<times> int" where
  "parse_proc_stat_cpu e = (case file_text e ''/proc/stat'' of
      None \<Rightarrow> (0, 0)
    | Some t \<Rightarrow> (case splitlines t of
        [] \<Rightarrow> (0, 0)
      | l # _ \<Rightarrow>
          (let nums = map (\<lambda>x. str_safe_int x 0) (tl (words_ws l)) in
           if length nums < 4 then (0, 0)
           else (sum_list nums, nums ! 3 + (if 4 < length nums then nums ! 4 else 0)))))"

definition parse_uptime_seconds :: "env \<Rightarrow> int" where
  "parse_uptime_seconds e = (case file_text e ''/proc/uptime'' of
      None \<Rightarrow> 0
    | Some t \<Rightarrow> (case words_ws t of
        [] \<Rightarrow> 0 | w # _ \<Rightarrow> (case float_of_str w of None \<Rightarrow> 0 | Some q \<Rightarrow> trunc q)))"

lemma distinct_parse_proc_net_dev: "distinct (map fst (parse_proc_net_dev t))"
proof -
  have "distinct (map fst (fold (\<lambda>raw rows. case parse_proc_net_row raw of None \<Rightarrow> rows | Some (i, c) \<Rightarrow> dset rows i c) ls d))"
    if "distinct (map fst d)" for ls and d :: "counters dict"
    using that by (induction ls arbitrary: d) (auto split: option.splits)
  then show ?thesis by (simp add: parse_proc_net_dev_def)
qed


section \<open>Properties\<close>

text \<open>Parsing the output of virsh domstats gives back the blocks it was printed from, each domain
  with its own statistics in their order.\<close>

theorem domstats_roundtrip:
  assumes "list_all block_ok bs"
  shows "split_domstats_blocks (lf_lines (concat (map block_lines bs))) = bs"
  by (rule split_domstats_render[OF assms])

definition sample_blocks :: "(string \<times> domstats) list" where
  "sample_blocks = [(''vm-a'', [(''vcpu.current'', ''2''), (''block.0.path'', ''/data/a=b.img'')]), (''vm-b'', [])]"

theorem domstats_roundtrip_witness:
  "split_domstats_blocks (lf_lines (concat (map block_lines sample_blocks))) = sample_blocks"
  by (rule domstats_roundtrip) code_simp

text \<open>The addresses of a bridge come out in a fixed order (scope, secondary, dynamic, text) and
  without repetition, and the primary one is the first.\<close>

theorem addresses_ordered:
  "sorted (map addr_key (ip_addresses_of p)) \<and> distinct (map a_cidr (ip_addresses_of p))
   \<and> (case json_loads (str_or t ''[]'') of
        Some v \<Rightarrow> ipv4 (parse_ip_addr_json t) = map a_cidr (ip_addresses_of v)
          \<and> primary_ipv4 (parse_ip_addr_json t) = (case ipv4 (parse_ip_addr_json t) of [] \<Rightarrow> [] | a # _ \<Rightarrow> a)
      | None \<Rightarrow> ipv4 (parse_ip_addr_json t) = [] \<and> primary_ipv4 (parse_ip_addr_json t) = [])"
  by (simp add: ip_addresses_sorted ip_addresses_distinct parse_ip_addr_json_def Let_def split: option.split list.split)

end
