(* ===== verification/Agent_Storage.thy ===== *)
theory Agent_Storage
  imports Agent_Parse
begin

text \<open>
  The storage inventory of the agent (deploy/agent/agent.py): the rows of \<open>df\<close> and \<open>findmnt\<close>,
  their merge, the removal of bind aliases (one mount root per filesystem), swap rows, the block
  device behind a mount, and the longest-prefix map from image paths to mounts. The lemmas show
  that the removal keeps exactly the best-ranked mount of each filesystem, whatever the order in
  which the mounts are enumerated.
\<close>

section \<open>Rows\<close>

record fs_row =
  f_device :: string
  f_maj_min :: string
  f_fstype :: string
  f_mount :: string
  f_size :: int
  f_used :: int
  f_avail :: int
  f_use_percent :: rat
  f_fsroot :: string
  f_submount :: bool

definition rstrip_slash :: "string \<Rightarrow> string" where
  "rstrip_slash s = rstrip_by (\<lambda>c. c = CHR ''/'') s"

definition filesystem_mount_allowed :: "string \<Rightarrow> bool" where
  "filesystem_mount_allowed m0 =
     (let m = strip m0 in
      \<not> (m = [] \<or> m = ''-'') \<and>
      \<not> (starts_with ''/run'' m \<or> starts_with ''/sys'' m \<or> starts_with ''/proc'' m \<or> starts_with ''/dev'' m))"

definition maj_min_text :: "int \<times> int \<Rightarrow> string" where
  "maj_min_text d = str_of_int (fst d) @ '':'' @ str_of_int (snd d)"

definition device_maj_min :: "env \<Rightarrow> string \<Rightarrow> string" where
  "device_maj_min e device = (case block_dev e device of
      Some d \<Rightarrow> if d = (0, 0) then [] else maj_min_text d | None \<Rightarrow> [])"

definition mount_maj_min :: "env \<Rightarrow> string \<Rightarrow> string" where
  "mount_maj_min e mount = (case mount_dev e mount of Some d \<Rightarrow> maj_min_text d | None \<Rightarrow> [])"

definition percent_used :: "int \<Rightarrow> int \<Rightarrow> rat" where
  "percent_used used sz = (if 0 < sz then of_int used * 100 / of_int sz else 0)"

definition statvfs_capacity :: "env \<Rightarrow> string \<Rightarrow> int \<times> int \<times> int \<times> rat" where
  "statvfs_capacity e mount = (case statvfs_of e mount of
      None \<Rightarrow> (0, 0, 0, 0)
    | Some (unit, blocks, bavail, bfree) \<Rightarrow>
        (let sz = max 0 (unit * blocks); avail = max 0 (unit * bavail); free = max 0 (unit * bfree);
             used = max 0 (sz - free) in (sz, used, avail, percent_used used sz)))"

section \<open>Swap\<close>

fun swap_rows :: "env \<Rightarrow> nat \<Rightarrow> string list \<Rightarrow> fs_row list" where
  "swap_rows e i [] = []"
| "swap_rows e i (raw # rest) =
     (case words_ws raw of
        source # swap_type # size_kib # used_kib # _ \<Rightarrow>
          (let sz = max 0 (str_safe_int size_kib 0) * 1024;
               used = max 0 (str_safe_int used_kib 0) * 1024 in
           \<lparr>f_device = source, f_maj_min = (if swap_type = ''partition'' then device_maj_min e source else []),
            f_fstype = ''swap'', f_mount = (if i = 1 then ''SWAP'' else ''SWAP '' @ str_of_int (int i)),
            f_size = sz, f_used = used, f_avail = max 0 (sz - used),
            f_use_percent = percent_used used sz, f_fsroot = ''/'', f_submount = False\<rparr>
           # swap_rows e (Suc i) rest)
      | _ \<Rightarrow> swap_rows e (Suc i) rest)"

definition collect_swap_filesystems :: "env \<Rightarrow> fs_row list" where
  "collect_swap_filesystems e =
     (case file_text e ''/proc/swaps'' of None \<Rightarrow> [] | Some t \<Rightarrow> swap_rows e 1 (tl (splitlines t)))"

section \<open>df and findmnt\<close>

definition df_row :: "env \<Rightarrow> string \<Rightarrow> fs_row option" where
  "df_row e raw = (case split_ws_max 6 raw of
      [device, fstype, size_s, used_s, avail_s, pct_s, mount0] \<Rightarrow>
        (let mount = strip mount0 in
         if \<not> filesystem_mount_allowed mount then None
         else Some \<lparr>f_device = strip device, f_maj_min = mount_maj_min e mount, f_fstype = strip fstype,
            f_mount = mount, f_size = max 0 (str_safe_int size_s 0), f_used = max 0 (str_safe_int used_s 0),
            f_avail = max 0 (str_safe_int avail_s 0),
            f_use_percent = max 0 (str_safe_float (rstrip_by (\<lambda>c. c = CHR 0x25) pct_s) 0),
            f_fsroot = ''/'', f_submount = False\<rparr>)
    | _ \<Rightarrow> None)"

definition df_command :: "string list" where
  "df_command = [''df'', ''-P'', ''-T'', ''-B1'', ''-x'', ''tmpfs'', ''-x'', ''devtmpfs'',
     ''-x'', ''squashfs'', ''-x'', ''overlay'']"

definition collect_df_filesystems :: "env \<Rightarrow> fs_row dict" where
  "collect_df_filesystems e = (case run_cmd e df_command of
      Inl _ \<Rightarrow> []
    | Inr out \<Rightarrow> fold (\<lambda>raw d. case df_row e raw of None \<Rightarrow> d | Some r \<Rightarrow> dset d (f_mount r) r)
        (tl (splitlines out)) [])"

text \<open>Every item of the findmnt tree, children after their parent.\<close>

fun walk_findmnt_item :: "pyval \<Rightarrow> pyval dict list"
  and walk_findmnt_rows :: "pyval \<Rightarrow> pyval dict list" where
  "walk_findmnt_item (PDict d) =
     d # concat (map (\<lambda>(k, v). if k = ''children'' then walk_findmnt_rows v else []) d)"
| "walk_findmnt_item v = []"
| "walk_findmnt_rows (PList xs) = concat (map walk_findmnt_item xs)"
| "walk_findmnt_rows v = []"

record mount_meta =
  m_device :: string
  m_maj_min :: string
  m_fstype :: string
  m_mount :: string
  m_fsroot :: string
  m_submount :: bool

definition ignored_fs :: "string list" where
  "ignored_fs = [''tmpfs'', ''devtmpfs'', ''squashfs'', ''overlay'', ''tracefs'', ''debugfs'',
     ''securityfs'', ''pstore'', ''efivarfs'', ''cgroup'', ''cgroup2'', ''proc'', ''sysfs'']"

definition text_or :: "pyval dict \<Rightarrow> string \<Rightarrow> string \<Rightarrow> string" where
  "text_or d k dflt = strip (py_str (py_or (get_none d k) (PStr dflt)))"

definition findmnt_row :: "pyval dict \<Rightarrow> mount_meta option" where
  "findmnt_row item =
     (let mount = text_or item ''target'' []; source = text_or item ''source'' [];
          fstype = text_or item ''fstype'' []; fsroot = str_or (text_or item ''fsroot'' ''/'') ''/'';
          lb = CHR 0x5B in
      if \<not> filesystem_mount_allowed mount then None
      else if fstype \<in> set ignored_fs then None
      else Some \<lparr>m_device = (if lb \<in> set source then fst (split1 lb source) else source),
        m_maj_min = strip (py_str (py_or (get_none item ''maj:min'') (py_or (get_none item ''maj_min'') (PStr [])))),
        m_fstype = fstype, m_mount = mount, m_fsroot = fsroot,
        m_submount = (fsroot \<noteq> ''/'' \<or> (lb \<in> set source \<and> ends_with [CHR 0x5D] source))\<rparr>)"

definition findmnt_commands :: "string list list" where
  "findmnt_commands = [
     [''findmnt'', ''--list'', ''--json'', ''--real'', ''--output'', ''SOURCE,FSTYPE,TARGET,MAJ:MIN,FSROOT''],
     [''findmnt'', ''--json'', ''--real'', ''--output'', ''SOURCE,FSTYPE,TARGET,MAJ:MIN,FSROOT''],
     [''findmnt'', ''--list'', ''--json'', ''--real'', ''--output'', ''SOURCE,FSTYPE,TARGET,MAJ:MIN''],
     [''findmnt'', ''--json'', ''--real'', ''--output'', ''SOURCE,FSTYPE,TARGET,MAJ:MIN'']]"

text \<open>The first command whose output is JSON and gives at least one row.\<close>

fun findmnt_try :: "env \<Rightarrow> string list list \<Rightarrow> mount_meta dict" where
  "findmnt_try e [] = []"
| "findmnt_try e (args # rest) = (case run_cmd e args of
      Inl _ \<Rightarrow> findmnt_try e rest
    | Inr out \<Rightarrow> (case json_loads (str_or out ''{}'') of
        None \<Rightarrow> findmnt_try e rest
      | Some payload \<Rightarrow>
          (let result = fold (\<lambda>item d. case findmnt_row item of None \<Rightarrow> d | Some m \<Rightarrow> dset d (m_mount m) m)
                 (walk_findmnt_rows (get_none (as_dict payload) ''filesystems'')) [] in
           if result \<noteq> [] then result else findmnt_try e rest)))"

definition collect_findmnt_metadata :: "env \<Rightarrow> mount_meta dict" where
  "collect_findmnt_metadata e = findmnt_try e findmnt_commands"

section \<open>One root per filesystem\<close>

definition filesystem_identity :: "env \<Rightarrow> fs_row \<Rightarrow> string" where
  "filesystem_identity e row =
     (let mm = strip (f_maj_min row); dev0 = strip (f_device row); lb = CHR 0x5B;
          dev1 = (if lb \<in> set dev0 then fst (split1 lb dev0) else dev0);
          dev = (if starts_with ''/dev/'' dev1 then real_path e dev1 else dev1) in
      if mm \<noteq> [] then ''maj:'' @ mm
      else if dev \<noteq> [] then ''dev:'' @ dev else ''mount:'' @ f_mount row)"

definition normalize_mount :: "fs_row \<Rightarrow> fs_row" where
  "normalize_mount row = row\<lparr>f_mount := str_or (rstrip_slash (f_mount row)) ''/''\<rparr>"

type_synonym mount_rank = "nat \<times> nat \<times> nat \<times> string"

definition rank_of :: "fs_row \<Rightarrow> mount_rank" where
  "rank_of row = (let m = f_mount row in
     ((if m = ''/'' then 0 else 1), count_list m (CHR ''/''), length m, m))"

definition eligible :: "fs_row \<Rightarrow> bool" where
  "eligible row = (filesystem_mount_allowed (f_mount row) \<and> \<not> f_submount row)"

definition keep_best :: "env \<Rightarrow> fs_row \<Rightarrow> fs_row dict \<Rightarrow> fs_row dict" where
  "keep_best e row chosen =
     (let key = filesystem_identity e row in
      (case dget chosen key of
         None \<Rightarrow> dset chosen key row
       | Some old \<Rightarrow> if rank_of row < rank_of old then dset chosen key row else chosen))"

definition choose_row :: "env \<Rightarrow> fs_row \<Rightarrow> fs_row dict \<Rightarrow> fs_row dict" where
  "choose_row e row0 chosen =
     (let row = normalize_mount row0 in if \<not> eligible row then chosen else keep_best e row chosen)"

definition mount_order :: "fs_row \<Rightarrow> nat \<times> nat \<times> string" where
  "mount_order row = ((if f_mount row = ''/'' then 0 else 1), length (f_mount row), f_mount row)"

definition dedupe_filesystem_roots :: "env \<Rightarrow> fs_row list \<Rightarrow> fs_row list" where
  "dedupe_filesystem_roots e rows = sort_key mount_order (map snd (fold (choose_row e) rows []))"

text \<open>
  The merge of both sources. \<open>mounts\<close> is the enumeration of the set of all mount points, whose
  order Python does not fix.
\<close>

definition merge_fs_row :: "env \<Rightarrow> fs_row dict \<Rightarrow> mount_meta dict \<Rightarrow> string \<Rightarrow> fs_row" where
  "merge_fs_row e df fm mount =
     (let meta = dget fm mount;
          pick = (\<lambda>sel v. case meta of None \<Rightarrow> v | Some m \<Rightarrow> if sel m = [] then v else sel m);
          sub = (\<lambda>v. case meta of None \<Rightarrow> v | Some m \<Rightarrow> m_submount m);
          base = (case dget df mount of
             Some r \<Rightarrow> r
           | None \<Rightarrow> (let (sz, used, avail, pct) = statvfs_capacity e mount in
               \<lparr>f_device = [], f_maj_min = mount_maj_min e mount, f_fstype = [], f_mount = mount,
                f_size = sz, f_used = used, f_avail = avail, f_use_percent = pct,
                f_fsroot = ''/'', f_submount = False\<rparr>)) in
      base\<lparr>f_device := pick m_device (f_device base), f_maj_min := pick m_maj_min (f_maj_min base),
        f_fstype := pick m_fstype (f_fstype base), f_fsroot := pick m_fsroot (f_fsroot base),
        f_submount := sub (f_submount base), f_mount := mount\<rparr>)"

definition mount_points :: "env \<Rightarrow> string list" where
  "mount_points e = remdups (map fst (collect_df_filesystems e) @ map fst (collect_findmnt_metadata e))"

definition collect_filesystems :: "env \<Rightarrow> string list \<Rightarrow> fs_row list" where
  "collect_filesystems e mounts =
     dedupe_filesystem_roots e
       (map (merge_fs_row e (collect_df_filesystems e) (collect_findmnt_metadata e)) mounts)"

section \<open>Block devices\<close>

text \<open>\<open>os.path.basename\<close>.\<close>

definition basename :: "string \<Rightarrow> string" where
  "basename p = rev (takeWhile (\<lambda>c. c \<noteq> CHR ''/'') (rev p))"

definition block_stat_path :: "string \<Rightarrow> string" where
  "block_stat_path name = ''/sys/class/block/'' @ name @ ''/stat''"

definition device_to_block_name :: "env \<Rightarrow> string \<Rightarrow> string \<Rightarrow> string option" where
  "device_to_block_name e device0 maj_min0 =
     (let mm = strip maj_min0; link = ''/sys/dev/block/'' @ mm; mm_name = basename (real_path e link);
          d0 = strip device0; lb = CHR 0x5B;
          d = (if lb \<in> set d0 \<and> ends_with [CHR 0x5D] d0 then fst (split1 lb d0) else d0) in
      if mm \<noteq> [] \<and> path_exists e link \<and> path_exists e (block_stat_path mm_name) then Some mm_name
      else if d0 = [] then None
      else if \<not> starts_with ''/dev/'' d then None
      else if path_exists e (block_stat_path (basename (real_path e d))) then Some (basename (real_path e d))
      else if path_exists e (block_stat_path (basename d)) then Some (basename d)
      else None)"

record block_stats =
  b_read_ios :: int
  b_read_bytes :: int
  b_read_ms :: int
  b_write_ios :: int
  b_write_bytes :: int
  b_write_ms :: int
  b_io_in_progress :: int
  b_io_ms :: int
  b_weighted_io_ms :: int

definition read_block_stats :: "env \<Rightarrow> string \<Rightarrow> block_stats option" where
  "read_block_stats e name = (case file_text e (block_stat_path name) of
      None \<Rightarrow> None
    | Some t \<Rightarrow>
        (let p = words_ws t; n = (\<lambda>i. str_safe_int (p ! i) 0) in
         if length p < 11 then None
         else Some \<lparr>b_read_ios = n 0, b_read_bytes = n 2 * 512, b_read_ms = n 3, b_write_ios = n 4,
           b_write_bytes = n 6 * 512, b_write_ms = n 7, b_io_in_progress = n 8, b_io_ms = n 9,
           b_weighted_io_ms = n 10\<rparr>))"

definition md_raid_level :: "env \<Rightarrow> string \<Rightarrow> string" where
  "md_raid_level e name = read_text e (''/sys/class/block/'' @ name @ ''/md/level'') []"

section \<open>The mount of an image path\<close>

record mount_item =
  mi_mount :: string
  mi_device :: string
  mi_block :: string
  mi_fstype :: string
  mi_size :: int
  mi_used :: int
  mi_avail :: int
  mi_use_percent :: rat

definition mount_item_of :: "env \<Rightarrow> fs_row \<Rightarrow> mount_item" where
  "mount_item_of e fs = \<lparr>mi_mount = str_or (rstrip_slash (f_mount fs)) ''/'', mi_device = f_device fs,
     mi_block = (case device_to_block_name e (f_device fs) (f_maj_min fs) of None \<Rightarrow> [] | Some b \<Rightarrow> b),
     mi_fstype = f_fstype fs, mi_size = f_size fs, mi_used = f_used fs, mi_avail = f_avail fs,
     mi_use_percent = f_use_percent fs\<rparr>"

text \<open>\<open>sort(key=len, reverse=True)\<close> keeps the order of rows of equal length.\<close>

definition parse_mount_inventory :: "env \<Rightarrow> fs_row list \<Rightarrow> mount_item list" where
  "parse_mount_inventory e rows =
     sort_key (\<lambda>m. - int (length (mi_mount m))) (map (mount_item_of e) rows)"

definition mount_matches :: "string \<Rightarrow> mount_item \<Rightarrow> bool" where
  "mount_matches source item =
     (let mount = str_or (mi_mount item) ''/'' in
      if mount = ''/'' then starts_with ''/'' source
      else source = mount \<or> starts_with (mount @ ''/'') source)"

definition map_source_to_mount :: "env \<Rightarrow> string \<Rightarrow> mount_item list \<Rightarrow> mount_item option" where
  "map_source_to_mount e source0 mounts =
     (let source = (if source0 = [] then [] else real_path e source0) in
      if source = [] then None else find (mount_matches source) mounts)"


section \<open>The best row per key\<close>

text \<open>
  A loop that keeps, per key, the row of the least rank, replacing only on a strictly smaller one.
  The contract is the effect of one step on the lookup.
\<close>

locale keyed_minimum =
  fixes step :: "'r \<Rightarrow> 'r dict \<Rightarrow> 'r dict" and key :: "'r \<Rightarrow> string" and rank :: "'r \<Rightarrow> 'o::linorder"
  assumes step_get: "dget (step r d) k = (if k = key r
      then (case dget d k of None \<Rightarrow> Some r | Some old \<Rightarrow> if rank r < rank old then Some r else Some old)
      else dget d k)"
    and step_distinct: "distinct (map fst d) \<Longrightarrow> distinct (map fst (step r d))"
begin

lemma fold_distinct: "distinct (map fst d) \<Longrightarrow> distinct (map fst (fold step rs d))"
  by (induction rs arbitrary: d) (auto intro: step_distinct)

lemma fold_keyed:
  "(\<And>k r. dget d k = Some r \<Longrightarrow> key r = k) \<Longrightarrow> dget (fold step rs d) k = Some r \<Longrightarrow> key r = k"
proof (induction rs arbitrary: d)
  case (Cons x rs)
  have "key r' = k'" if "dget (step x d) k' = Some r'" for k' r'
    using that Cons.prems(1) by (auto simp: step_get split: option.splits if_splits)
  then show ?case using Cons.IH[of "step x d"] Cons.prems(2) by simp
qed simp

lemma fold_from: "dget (fold step rs d) k = Some r \<Longrightarrow> r \<in> set rs \<or> dget d k = Some r"
proof (induction rs arbitrary: d)
  case (Cons x rs)
  then have "r \<in> set rs \<or> dget (step x d) k = Some r" by simp
  then show ?case by (auto simp: step_get split: option.splits if_splits)
qed simp

lemma fold_keeps: "dget d k = Some r0 \<Longrightarrow> \<exists>r. dget (fold step rs d) k = Some r \<and> rank r \<le> rank r0"
proof (induction rs arbitrary: d r0)
  case (Cons x rs)
  have "\<exists>r1. dget (step x d) k = Some r1 \<and> rank r1 \<le> rank r0"
    using Cons.prems by (auto simp: step_get)
  then obtain r1 where r1: "dget (step x d) k = Some r1" "rank r1 \<le> rank r0" by blast
  obtain r where "dget (fold step rs (step x d)) k = Some r" "rank r \<le> rank r1"
    using Cons.IH[OF r1(1)] by blast
  with r1(2) show ?case by auto
qed simp

lemma fold_covers: "x \<in> set rs \<Longrightarrow> \<exists>r. dget (fold step rs d) (key x) = Some r \<and> rank r \<le> rank x"
proof (induction rs arbitrary: d)
  case (Cons y rs)
  show ?case
  proof (cases "x = y")
    case True
    have "\<exists>r1. dget (step x d) (key x) = Some r1 \<and> rank r1 \<le> rank x"
      by (auto simp: step_get not_less split: option.split)
    then obtain r1 where r1: "dget (step x d) (key x) = Some r1" "rank r1 \<le> rank x" by blast
    obtain r where "dget (fold step rs (step x d)) (key x) = Some r" "rank r \<le> rank r1"
      using fold_keeps[OF r1(1)] by blast
    with r1(2) True show ?thesis by auto
  next
    case False
    then show ?thesis using Cons by simp
  qed
qed simp

text \<open>From an empty dictionary the result is the minimum of each key's rows.\<close>

lemma fold_minimum:
  assumes "dget (fold step rs []) k = Some r"
  shows "r \<in> set rs" "key r = k" "x \<in> set rs \<Longrightarrow> key x = k \<Longrightarrow> rank r \<le> rank x"
proof -
  show "r \<in> set rs" using fold_from[OF assms] by simp
  show kr: "key r = k" using fold_keyed[OF _ assms] by simp
  assume "x \<in> set rs" "key x = k"
  then obtain r' where "dget (fold step rs []) k = Some r'" "rank r' \<le> rank x"
    using fold_covers[of x rs "[]"] by auto
  with assms show "rank r \<le> rank x" by simp
qed

text \<open>Where ranks tell the rows apart, the chosen rows do not depend on their order.\<close>

lemma fold_order_free:
  assumes "inj_on rank (set rs)" "set rs = set ss"
  shows "dget (fold step rs []) k = dget (fold step ss []) k"
proof -
  have half: "dget (fold step ss []) k = Some r"
    if r: "dget (fold step rs []) k = Some r" and st: "set rs = set ss" and inj: "inj_on rank (set rs)" for rs ss r
  proof -
    note m = fold_minimum[OF r]
    obtain r' where r': "dget (fold step ss []) k = Some r'" "rank r' \<le> rank r"
      using fold_covers[of r ss "[]"] m(1,2) st by auto
    then have "r' \<in> set rs" "key r' = k" using fold_minimum(1,2)[OF r'(1)] st by auto
    then have "rank r \<le> rank r'" by (rule m(3))
    then have "r = r'" using inj \<open>r' \<in> set rs\<close> m(1) r'(2) by (auto dest: inj_onD)
    then show ?thesis using r' by simp
  qed
  show ?thesis
  proof (cases "dget (fold step rs []) k")
    case (Some r)
    then show ?thesis using half[OF Some assms(2,1)] by simp
  next
    case None
    then show ?thesis using half[of ss _ rs] assms by (cases "dget (fold step ss []) k") auto
  qed
qed

end

interpretation fs_best: keyed_minimum "keep_best e" "filesystem_identity e" rank_of for e
  by unfold_locales (auto simp: keep_best_def Let_def split: option.split)

definition candidate_roots :: "fs_row list \<Rightarrow> fs_row list" where
  "candidate_roots rows = filter eligible (map normalize_mount rows)"

lemma fold_choose_row: "fold (choose_row e) rows d = fold (keep_best e) (candidate_roots rows) d"
  by (induction rows arbitrary: d) (auto simp: candidate_roots_def choose_row_def Let_def)

definition chosen_roots :: "env \<Rightarrow> fs_row list \<Rightarrow> fs_row dict" where
  "chosen_roots e rows = fold (keep_best e) (candidate_roots rows) []"

lemma dedupe_eq: "dedupe_filesystem_roots e rows = sort_key mount_order (map snd (chosen_roots e rows))"
  by (simp add: dedupe_filesystem_roots_def chosen_roots_def fold_choose_row)

lemma distinct_chosen: "distinct (map fst (chosen_roots e rows))"
  unfolding chosen_roots_def by (rule fs_best.fold_distinct) simp

lemma in_dedupe: "r \<in> set (dedupe_filesystem_roots e rows) \<longleftrightarrow> (\<exists>k. dget (chosen_roots e rows) k = Some r)"
  using dget_eq_Some_iff[OF distinct_chosen, of e rows] by (force simp: dedupe_eq)

lemma dedupe_identity: "dget (chosen_roots e rows) k = Some r \<Longrightarrow> filesystem_identity e r = k"
  unfolding chosen_roots_def by (rule fs_best.fold_minimum(2))

lemma dedupe_minimal:
  assumes "r \<in> set (dedupe_filesystem_roots e rows)"
  shows "r \<in> set (candidate_roots rows)"
    and "x \<in> set (candidate_roots rows) \<Longrightarrow> filesystem_identity e x = filesystem_identity e r \<Longrightarrow> rank_of r \<le> rank_of x"
proof -
  obtain k where k: "dget (chosen_roots e rows) k = Some r" using assms in_dedupe by blast
  note m = fs_best.fold_minimum[OF k[unfolded chosen_roots_def]]
  show "r \<in> set (candidate_roots rows)" by (rule m(1))
  show "x \<in> set (candidate_roots rows) \<Longrightarrow> filesystem_identity e x = filesystem_identity e r \<Longrightarrow> rank_of r \<le> rank_of x"
    using m(2,3) by simp
qed

lemma dedupe_covers:
  assumes "x \<in> set (candidate_roots rows)"
  shows "\<exists>r \<in> set (dedupe_filesystem_roots e rows). filesystem_identity e r = filesystem_identity e x"
proof -
  obtain r where r: "dget (chosen_roots e rows) (filesystem_identity e x) = Some r"
    using fs_best.fold_covers[OF assms, of e "[]"] unfolding chosen_roots_def by blast
  then show ?thesis using dedupe_identity[OF r] in_dedupe by blast
qed

lemma dedupe_distinct: "distinct (map (filesystem_identity e) (dedupe_filesystem_roots e rows))"
proof -
  have "map (filesystem_identity e) (map snd (chosen_roots e rows)) = map fst (chosen_roots e rows)"
  proof -
    have "filesystem_identity e (snd p) = fst p" if "p \<in> set (chosen_roots e rows)" for p
      using that dedupe_identity[of e rows "fst p" "snd p"] dget_eq_Some_iff[OF distinct_chosen, of e rows] by simp
    then show ?thesis by simp
  qed
  then have "distinct (map (filesystem_identity e) (map snd (chosen_roots e rows)))"
    using distinct_chosen[of e rows] by (simp only:)
  then show ?thesis unfolding dedupe_eq by (rule distinct_map_sort_key)
qed

lemma rank_mount: "rank_of r = rank_of s \<Longrightarrow> f_mount r = f_mount s"
  by (simp add: rank_of_def Let_def)

lemma dedupe_order_free:
  assumes "inj_on f_mount (set (candidate_roots rows))" "set (candidate_roots rows) = set (candidate_roots rows')"
  shows "dedupe_filesystem_roots e rows = dedupe_filesystem_roots e rows'"
proof -
  have "inj_on rank_of (set (candidate_roots rows))"
    by (rule inj_onI) (rule inj_onD[OF assms(1) rank_mount])
  then have "dget (chosen_roots e rows) k = dget (chosen_roots e rows') k" for k
    unfolding chosen_roots_def by (rule fs_best.fold_order_free) (rule assms(2))
  then have st: "set (dedupe_filesystem_roots e rows) = set (dedupe_filesystem_roots e rows')"
    by (auto simp: in_dedupe)
  have sub: "set (dedupe_filesystem_roots e rows) \<subseteq> set (candidate_roots rows)"
    using dedupe_minimal(1) by blast
  have inj: "inj_on mount_order (set (dedupe_filesystem_roots e rows))"
    using inj_on_subset[OF assms(1) sub] by (auto simp: inj_on_def mount_order_def)
  have vals: "set (map snd (chosen_roots e rs)) = set (dedupe_filesystem_roots e rs)" for rs
    by (simp add: dedupe_eq)
  have d: "distinct (map snd (chosen_roots e rs))" for rs
    using dedupe_distinct[of e rs] unfolding dedupe_eq by (simp add: distinct_map)
  show ?thesis
    unfolding dedupe_eq using inj st
    by (intro sorted_perm_unique d) (simp_all only: vals)
qed

section \<open>The longest mount wins\<close>

lemma find_sorted_best:
  "sorted (map f xs) \<Longrightarrow> find P xs = Some x \<Longrightarrow> x \<in> set xs \<and> P x \<and> (\<forall>y \<in> set xs. P y \<longrightarrow> f x \<le> f y)"
  by (induction xs) (auto split: if_splits)

lemma map_source_longest:
  assumes "map_source_to_mount e source (parse_mount_inventory e rows) = Some m"
  shows "mount_matches (real_path e source) m"
    and "m \<in> mount_item_of e ` set rows"
    and "n \<in> mount_item_of e ` set rows \<Longrightarrow> mount_matches (real_path e source) n
         \<Longrightarrow> length (mi_mount n) \<le> length (mi_mount m)"
proof -
  have f: "find (mount_matches (real_path e source)) (parse_mount_inventory e rows) = Some m"
    using assms by (auto simp: map_source_to_mount_def Let_def split: if_splits)
  have s: "sorted (map (\<lambda>m. - int (length (mi_mount m))) (parse_mount_inventory e rows))"
    by (simp add: parse_mount_inventory_def)
  note b = find_sorted_best[OF s f]
  show "mount_matches (real_path e source) m" "m \<in> mount_item_of e ` set rows"
    using b by (auto simp: parse_mount_inventory_def)
  show "n \<in> mount_item_of e ` set rows \<Longrightarrow> mount_matches (real_path e source) n
         \<Longrightarrow> length (mi_mount n) \<le> length (mi_mount m)"
    using b by (auto simp: parse_mount_inventory_def)
qed


section \<open>Properties\<close>

text \<open>The inventory lists one root per filesystem and misses none: the identities of the rows are
  distinct, they are exactly the identities of the mounts that may be listed, every row is the
  best-ranked mount of its filesystem, and the rows are in the order of the display.\<close>

theorem one_root_per_filesystem:
  "distinct (map (filesystem_identity e) (dedupe_filesystem_roots e rows))
   \<and> filesystem_identity e ` set (dedupe_filesystem_roots e rows) = filesystem_identity e ` set (candidate_roots rows)
   \<and> list_all (\<lambda>r. r \<in> set (candidate_roots rows)
       \<and> rank_of r = Min (rank_of ` {x \<in> set (candidate_roots rows). filesystem_identity e x = filesystem_identity e r}))
       (dedupe_filesystem_roots e rows)
   \<and> sorted (map mount_order (dedupe_filesystem_roots e rows))"
proof (intro conjI)
  let ?D = "dedupe_filesystem_roots e rows" and ?C = "candidate_roots rows"
  show "distinct (map (filesystem_identity e) ?D)" by (rule dedupe_distinct)
  show "filesystem_identity e ` set ?D = filesystem_identity e ` set ?C"
  proof
    show "filesystem_identity e ` set ?D \<subseteq> filesystem_identity e ` set ?C" using dedupe_minimal(1) by blast
    show "filesystem_identity e ` set ?C \<subseteq> filesystem_identity e ` set ?D"
    proof
      fix k assume "k \<in> filesystem_identity e ` set ?C"
      then obtain x where x: "x \<in> set ?C" "k = filesystem_identity e x" by blast
      from dedupe_covers[OF x(1)] show "k \<in> filesystem_identity e ` set ?D" using x(2) by (metis image_eqI)
    qed
  qed
  show "list_all (\<lambda>r. r \<in> set ?C \<and> rank_of r = Min (rank_of ` {x \<in> set ?C. filesystem_identity e x = filesystem_identity e r})) ?D"
    unfolding list_all_iff
  proof
    fix r assume r: "r \<in> set ?D"
    have "Min (rank_of ` {x \<in> set ?C. filesystem_identity e x = filesystem_identity e r}) = rank_of r"
      by (rule Min_eqI) (use dedupe_minimal[OF r] in auto)
    then show "r \<in> set ?C \<and> rank_of r = Min (rank_of ` {x \<in> set ?C. filesystem_identity e x = filesystem_identity e r})"
      using dedupe_minimal(1)[OF r] by simp
  qed
  show "sorted (map mount_order ?D)" by (simp add: dedupe_filesystem_roots_def)
qed

text \<open>The inventory does not depend on the order in which the mounts are enumerated, nor on
  mounts listed twice.\<close>

theorem enumeration_order_free:
  assumes "inj_on f_mount (set (candidate_roots rows))" "set (candidate_roots rows) = set (candidate_roots rows')"
  shows "dedupe_filesystem_roots e rows = dedupe_filesystem_roots e rows'"
  by (rule dedupe_order_free[OF assms])

definition sample_fs :: "string \<Rightarrow> string \<Rightarrow> fs_row" where
  "sample_fs dev mount = \<lparr>f_device = dev, f_maj_min = [], f_fstype = ''ext4'', f_mount = mount, f_size = 10, f_used = 4,
     f_avail = 6, f_use_percent = 40, f_fsroot = ''/'', f_submount = False\<rparr>"

definition sample_env :: env where
  "sample_env = \<lparr>file_text = (\<lambda>p. None), path_exists = (\<lambda>p. False), command = (\<lambda>a. Inl ''missing''), real_path = (\<lambda>p. p),
     dir_names = (\<lambda>p. None), block_dev = (\<lambda>p. None), mount_dev = (\<lambda>p. None), statvfs_of = (\<lambda>p. None), cpu_count_of = 8,
     now_ts = 1200\<rparr>"

definition sample_mounts :: "fs_row list" where
  "sample_mounts = [sample_fs ''pool'' ''/data/copy/'', sample_fs ''root'' ''/'', sample_fs ''pool'' ''/data'']"

theorem enumeration_order_free_witness:
  "dedupe_filesystem_roots sample_env sample_mounts = dedupe_filesystem_roots sample_env (rev sample_mounts @ sample_mounts)
   \<and> map f_mount (dedupe_filesystem_roots sample_env sample_mounts) = [''/'', ''/data'']"
proof -
  have c: "candidate_roots sample_mounts = [sample_fs ''pool'' ''/data/copy'', sample_fs ''root'' ''/'', sample_fs ''pool'' ''/data'']"
    "candidate_roots (rev sample_mounts @ sample_mounts) = [sample_fs ''pool'' ''/data'', sample_fs ''root'' ''/'', sample_fs ''pool'' ''/data/copy'',
       sample_fs ''pool'' ''/data/copy'', sample_fs ''root'' ''/'', sample_fs ''pool'' ''/data'']"
    by code_simp+
  have "dedupe_filesystem_roots sample_env sample_mounts = dedupe_filesystem_roots sample_env (rev sample_mounts @ sample_mounts)"
    by (rule enumeration_order_free) (auto simp: c sample_fs_def)
  moreover have "map f_mount (dedupe_filesystem_roots sample_env sample_mounts) = [''/'', ''/data'']" by code_simp
  ultimately show ?thesis by blast
qed

text \<open>The image of a disk is charged to the longest mount that contains its path.\<close>

theorem longest_mount_wins:
  assumes "map_source_to_mount e source (parse_mount_inventory e rows) = Some m"
  shows "mount_matches (real_path e source) m \<and> m \<in> mount_item_of e ` set rows
    \<and> length (mi_mount m) = Max ((length \<circ> mi_mount) ` {n \<in> mount_item_of e ` set rows. mount_matches (real_path e source) n})"
  using map_source_longest[OF assms] by (intro conjI Max_eqI[symmetric]) auto

theorem longest_mount_wins_witness:
  "map_option mi_mount (map_source_to_mount sample_env ''/data/vm/disk.img'' (parse_mount_inventory sample_env sample_mounts)) = Some ''/data''
   \<and> mount_matches ''/data/vm/disk.img'' (mount_item_of sample_env (sample_fs ''pool'' ''/data''))"
proof -
  have m: "map_source_to_mount sample_env ''/data/vm/disk.img'' (parse_mount_inventory sample_env sample_mounts)
      = Some (mount_item_of sample_env (sample_fs ''pool'' ''/data''))" by code_simp
  have "real_path sample_env ''/data/vm/disk.img'' = ''/data/vm/disk.img''" by (simp add: sample_env_def)
  moreover have "mi_mount (mount_item_of sample_env (sample_fs ''pool'' ''/data'')) = ''/data''" by code_simp
  ultimately show ?thesis using longest_mount_wins[OF m] m by simp
qed

end
