(* ===== verification/Agent_Window.thy ===== *)
theory Agent_Window
  imports Agent_Parse
begin

text \<open>
  Network windows of the agent: the quality of a sampled window, the merge of two interface
  summaries and of two windows. A window is the JSON object the agent keeps in runtime.json, so
  the merge reads it with \<open>safe_int\<close> and \<open>safe_float\<close> as the code does. The lemmas state that
  sums are conserved, peaks are maxima and the quality is recomputed from the merged counts.
\<close>

section \<open>Quality\<close>

datatype quality = No_Data | Good | Degraded | Poor

fun quality_text :: "quality \<Rightarrow> string" where
  "quality_text No_Data = ''NO_DATA''"
| "quality_text Good = ''GOOD''"
| "quality_text Degraded = ''DEGRADED''"
| "quality_text Poor = ''POOR''"

definition clean_quality :: "pyval \<Rightarrow> quality" where
  "clean_quality v =
     (let t = upper (strip (py_str (py_or v (PStr ''NO_DATA'')))) in
      if t = ''GOOD'' then Good else if t = ''DEGRADED'' then Degraded else if t = ''POOR'' then Poor else No_Data)"

fun rank_of_quality :: "quality \<Rightarrow> nat" where
  "rank_of_quality No_Data = 0"
| "rank_of_quality Good = 1"
| "rank_of_quality Degraded = 2"
| "rank_of_quality Poor = 3"

definition quality_rank :: "pyval \<Rightarrow> nat" where
  "quality_rank v = rank_of_quality (clean_quality v)"

text \<open>The rank orders the qualities; \<open>Poor\<close> is the worst.\<close>

instantiation quality :: linorder
begin

definition less_eq_quality :: "quality \<Rightarrow> quality \<Rightarrow> bool" where
  "less_eq_quality a b = (rank_of_quality a \<le> rank_of_quality b)"

definition less_quality :: "quality \<Rightarrow> quality \<Rightarrow> bool" where
  "less_quality a b = (rank_of_quality a < rank_of_quality b)"

instance
proof
  fix x y z :: quality
  show "(x < y) = (x \<le> y \<and> \<not> y \<le> x)" by (auto simp: less_eq_quality_def less_quality_def)
  show "x \<le> x" by (simp add: less_eq_quality_def)
  show "x \<le> y \<Longrightarrow> y \<le> z \<Longrightarrow> x \<le> z" by (simp add: less_eq_quality_def)
  show "x \<le> y \<Longrightarrow> y \<le> x \<Longrightarrow> x = y" by (cases x; cases y; simp add: less_eq_quality_def)
  show "x \<le> y \<or> y \<le> x" by (auto simp: less_eq_quality_def)
qed

end

definition quality_of_ratio :: "rat \<Rightarrow> rat \<Rightarrow> rat \<Rightarrow> quality" where
  "quality_of_ratio step ratio max_gap =
     (if ratio \<ge> 9 / 10 \<and> max_gap \<le> step * (7 / 4) then Good
      else if ratio \<ge> 7 / 10 \<and> max_gap \<le> step * 3 then Degraded
      else Poor)"

definition quality_from_counts :: "config \<Rightarrow> pyval \<Rightarrow> pyval \<Rightarrow> pyval \<Rightarrow> quality" where
  "quality_from_counts cf actual0 expected0 max_gap0 =
     (let actual = max 0 (safe_int actual0 0); expected = max 0 (safe_int expected0 0);
          max_gap = max 0 (safe_float max_gap0 0) in
      if actual \<le> 0 \<or> expected \<le> 0 then No_Data
      else quality_of_ratio (of_int (c_sample_seconds cf)) (of_int actual / of_int expected) max_gap)"

lemma clean_quality_text [simp]: "clean_quality (PStr (quality_text q)) = q"
  by (cases q) (simp_all add: clean_quality_def py_or_def truthy_def strip_def rstrip_by_def lstrip_def
    upper_def upper_char_def is_space_def)

text \<open>Fewer samples, more expected ones or a wider gap never improve the quality.\<close>

lemma quality_of_ratio_antitone:
  "r' \<le> r \<Longrightarrow> g \<le> g' \<Longrightarrow> 0 \<le> step \<Longrightarrow> quality_of_ratio step r g \<le> quality_of_ratio step r' g'"
  by (auto simp: quality_of_ratio_def less_eq_quality_def)

lemma quality_antitone:
  assumes "0 < a'" "a' \<le> a" "0 < x" "x \<le> x'" "0 \<le> g" "g \<le> g'" "0 \<le> c_sample_seconds cf"
  shows "quality_from_counts cf (PInt a) (PInt x) (PFloat g) \<le> quality_from_counts cf (PInt a') (PInt x') (PFloat g')"
proof -
  have "(of_int a' / of_int x' :: rat) \<le> of_int a / of_int x"
    using assms by (intro frac_le) auto
  then show ?thesis
    using assms by (auto simp: quality_from_counts_def Let_def intro!: quality_of_ratio_antitone)
qed

section \<open>Merging two interface summaries\<close>

definition additive_keys :: "string list" where
  "additive_keys = [''rx_bytes_sampled'', ''tx_bytes_sampled'', ''rx_packets_sampled'', ''tx_packets_sampled'',
     ''rx_drop_sampled'', ''tx_drop_sampled'', ''rx_error_sampled'', ''tx_error_sampled'',
     ''sample_count'', ''sample_expected'', ''seconds_over_pps'', ''seconds_over_mbps'',
     ''seconds_over_rx_pps'', ''seconds_over_tx_pps'', ''seconds_over_rx_mbps'', ''seconds_over_tx_mbps'']"

definition peak_keys :: "string list" where
  "peak_keys = [''rx_mbps_peak'', ''tx_mbps_peak'', ''total_mbps_peak'', ''rx_pps_peak'', ''tx_pps_peak'',
     ''total_pps_peak'', ''sample_max_gap_seconds'']"

definition num :: "pyval dict \<Rightarrow> string \<Rightarrow> rat" where
  "num d k = safe_float (get_none d k) 0"

definition combine_keys :: "(rat \<Rightarrow> rat \<Rightarrow> rat) \<Rightarrow> string list \<Rightarrow> pyval dict \<Rightarrow> pyval dict \<Rightarrow> pyval dict" where
  "combine_keys f ks src dst = fold (\<lambda>k d. dset d k (PFloat (f (num d k) (num src k)))) ks dst"

definition first_seen_of :: "rat \<Rightarrow> rat \<Rightarrow> pyval" where
  "first_seen_of a b = (case filter (\<lambda>x. 0 < x) [a, b] of [] \<Rightarrow> PInt 0 | x # xs \<Rightarrow> PFloat (fold min xs x))"

definition merge_iface_summary :: "config \<Rightarrow> pyval \<Rightarrow> pyval \<Rightarrow> pyval" where
  "merge_iface_summary cf dst0 src0 =
     (let dst = as_dict dst0 in
      (case src0 of
         PDict src \<Rightarrow>
           (let d1 = combine_keys (+) additive_keys src dst;
                d2 = combine_keys max peak_keys src d1;
                d3 = dset d2 ''first_seen'' (first_seen_of (num d2 ''first_seen'') (num src ''first_seen''));
                d4 = dset d3 ''last_seen'' (PFloat (max (num d3 ''last_seen'') (num src ''last_seen'')));
                q = quality_from_counts cf (get_none d4 ''sample_count'') (get_none d4 ''sample_expected'')
                      (get_none d4 ''sample_max_gap_seconds'')
            in PDict (dset d4 ''sample_quality'' (PStr (quality_text q))))
       | _ \<Rightarrow> PDict dst))"

lemma num_Nil [simp]: "num [] k = 0"
  by (simp add: num_def)

lemma num_dset [simp]: "num (dset d k v) k' = (if k = k' then safe_float v 0 else num d k')"
  by (simp add: num_def)

lemma num_combine_keys:
  "distinct ks \<Longrightarrow> num (combine_keys f ks src dst) k = (if k \<in> set ks then f (num dst k) (num src k) else num dst k)"
  unfolding combine_keys_def by (induction ks arbitrary: dst) auto

lemma distinct_keys [simp]: "distinct additive_keys" "distinct peak_keys"
  by (simp_all add: additive_keys_def peak_keys_def)

lemma key_classes:
  "k \<in> set additive_keys \<Longrightarrow> k \<notin> set peak_keys \<and> k \<noteq> ''first_seen'' \<and> k \<noteq> ''last_seen'' \<and> k \<noteq> ''sample_quality''"
  "k \<in> set peak_keys \<Longrightarrow> k \<notin> set additive_keys \<and> k \<noteq> ''first_seen'' \<and> k \<noteq> ''last_seen'' \<and> k \<noteq> ''sample_quality''"
  by (auto simp: additive_keys_def peak_keys_def)

definition summary_num :: "pyval \<Rightarrow> string \<Rightarrow> rat" where
  "summary_num v k = num (as_dict v) k"

lemma as_dict_simps [simp]: "as_dict (PDict d) = d" "as_dict PNone = []"
  by (simp_all add: as_dict_def)

lemma num_merge_dicts:
  "k \<noteq> ''first_seen'' \<Longrightarrow> k \<noteq> ''last_seen'' \<Longrightarrow> k \<noteq> ''sample_quality'' \<Longrightarrow>
   summary_num (merge_iface_summary cf d (PDict src)) k =
     num (combine_keys max peak_keys src (combine_keys (+) additive_keys src (as_dict d))) k"
  by (simp add: merge_iface_summary_def summary_num_def Let_def)

lemma merge_iface_summary_other:
  "\<not> is_dict s \<Longrightarrow> merge_iface_summary cf d s = PDict (as_dict d) \<and> as_dict s = []"
  by (cases s) (simp_all add: merge_iface_summary_def is_dict_def as_dict_def Let_def)

lemma is_dict_cases: "is_dict s \<Longrightarrow> \<exists>src. s = PDict src"
  by (cases s) (simp_all add: is_dict_def)

lemma summary_num_add:
  assumes "k \<in> set additive_keys"
  shows "summary_num (merge_iface_summary cf d s) k = summary_num d k + summary_num s k"
proof (cases "is_dict s")
  case True
  then obtain src where "s = PDict src" using is_dict_cases by blast
  then show ?thesis
    using key_classes(1)[OF assms] assms num_merge_dicts[of k cf d src]
    by (simp add: num_combine_keys summary_num_def)
next
  case False
  then show ?thesis using merge_iface_summary_other[OF False, of cf d] by (simp add: summary_num_def)
qed

lemma summary_num_peak:
  assumes "k \<in> set peak_keys" "0 \<le> summary_num d k"
  shows "summary_num (merge_iface_summary cf d s) k = max (summary_num d k) (summary_num s k)"
proof (cases "is_dict s")
  case True
  then obtain src where "s = PDict src" using is_dict_cases by blast
  then show ?thesis
    using key_classes(2)[OF assms(1)] assms num_merge_dicts[of k cf d src]
    by (simp add: num_combine_keys summary_num_def)
next
  case False
  then show ?thesis
    using merge_iface_summary_other[OF False, of cf d] assms by (simp add: summary_num_def)
qed

lemmas summary_num_merge = summary_num_add summary_num_peak

lemma merge_iface_summary_dict: "\<exists>m. merge_iface_summary cf d s = PDict m"
  by (cases s) (auto simp: merge_iface_summary_def Let_def)

section \<open>Merging two windows\<close>

definition empty_network_window :: "pyval dict" where
  "empty_network_window = [(''started_at'', PInt 0), (''ended_at'', PInt 0), (''ifaces'', PDict []),
     (''scan_count'', PInt 0), (''scan_max_ms'', PFloat 0)]"

definition int_of :: "pyval dict \<Rightarrow> string \<Rightarrow> int" where
  "int_of d k = safe_int (get_none d k) 0"

definition window_ifaces :: "pyval dict \<Rightarrow> pyval dict" where
  "window_ifaces w = as_dict (py_or (get_none w ''ifaces'') (PDict []))"

definition merge_into :: "config \<Rightarrow> pyval dict \<Rightarrow> pyval dict \<Rightarrow> pyval dict" where
  "merge_into cf src res =
     fold (\<lambda>(iface, summary) r. dset r iface (merge_iface_summary cf (dget_or r iface (PDict [])) summary)) src res"

definition merge_network_windows :: "config \<Rightarrow> pyval \<Rightarrow> pyval \<Rightarrow> pyval dict" where
  "merge_network_windows cf left0 right0 =
     (let left = as_dict left0; right = as_dict right0;
          starts = filter (\<lambda>x. 0 < x) [int_of left ''started_at'', int_of right ''started_at''] in
      [(''started_at'', PInt (case starts of [] \<Rightarrow> 0 | x # xs \<Rightarrow> fold min xs x)),
       (''ended_at'', PInt (max (int_of left ''ended_at'') (int_of right ''ended_at''))),
       (''ifaces'', PDict (merge_into cf (window_ifaces right) (merge_into cf (window_ifaces left) []))),
       (''scan_count'', PInt (int_of left ''scan_count'' + int_of right ''scan_count'')),
       (''scan_max_ms'', PFloat (max (num left ''scan_max_ms'') (num right ''scan_max_ms'')))])"

text \<open>The value of a key for an interface; an interface that is not there counts as zero.\<close>

definition iface_num :: "pyval dict \<Rightarrow> string \<Rightarrow> string \<Rightarrow> rat" where
  "iface_num w iface k = summary_num (dget_or (window_ifaces w) iface (PDict [])) k"

definition window_ok :: "pyval dict \<Rightarrow> bool" where
  "window_ok w = distinct (map fst (window_ifaces w))"

lemma merge_into_get:
  "distinct (map fst src) \<Longrightarrow>
   dget (merge_into cf src res) i =
     (case dget src i of None \<Rightarrow> dget res i | Some s \<Rightarrow> Some (merge_iface_summary cf (dget_or res i (PDict [])) s))"
proof (induction src arbitrary: res)
  case (Cons p src)
  obtain j s where p: "p = (j, s)" by (cases p)
  with Cons.prems have fresh: "dget src j = None" and d: "distinct (map fst src)"
    by (auto simp: dget_None_iff)
  show ?case
    using Cons.IH[OF d] fresh by (auto simp: merge_into_def p dget_or_def split: option.split)
qed (simp add: merge_into_def)

lemma distinct_merge_into: "distinct (map fst res) \<Longrightarrow> distinct (map fst (merge_into cf src res))"
  unfolding merge_into_def by (induction src arbitrary: res) auto

lemma window_ifaces_merge [simp]:
  "window_ifaces (merge_network_windows cf (PDict l) (PDict r))
     = merge_into cf (window_ifaces r) (merge_into cf (window_ifaces l) [])"
  by (auto simp: merge_network_windows_def window_ifaces_def Let_def py_or_def truthy_def)

lemma window_ok_merge: "window_ok (merge_network_windows cf (PDict l) (PDict r))"
  by (simp add: window_ok_def distinct_merge_into)

lemma window_ok_empty [simp]: "window_ok empty_network_window"
  by (simp add: window_ok_def window_ifaces_def empty_network_window_def py_or_def)

lemma iface_num_empty [simp]: "iface_num empty_network_window i k = 0"
  by (simp add: iface_num_def summary_num_def window_ifaces_def empty_network_window_def py_or_def dget_or_def)

lemma iface_num_merge_additive:
  assumes "window_ok l" "window_ok r" "k \<in> set additive_keys"
  shows "iface_num (merge_network_windows cf (PDict l) (PDict r)) i k = iface_num l i k + iface_num r i k"
  using assms
  by (auto simp: iface_num_def window_ok_def dget_or_def merge_into_get distinct_merge_into
      summary_num_merge summary_num_def[of "PDict []"] split: option.split)

lemma iface_num_merge_peak:
  assumes "window_ok l" "window_ok r" "k \<in> set peak_keys" "0 \<le> iface_num l i k" "0 \<le> iface_num r i k"
  shows "iface_num (merge_network_windows cf (PDict l) (PDict r)) i k = max (iface_num l i k) (iface_num r i k)"
  using assms
  by (auto simp: iface_num_def window_ok_def dget_or_def merge_into_get distinct_merge_into
      summary_num_merge summary_num_def[of "PDict []"] split: option.splits)

section \<open>An accumulator interface for windows carried over failed pushes\<close>

text \<open>
  A client that keeps merging windows into a carry relies on three laws only: the merge keeps the
  well-formedness, adds the readings, and the empty window reads zero.
\<close>

locale carry_store =
  fixes merge :: "'w \<Rightarrow> 'w \<Rightarrow> 'w" and zero :: 'w and ok :: "'w \<Rightarrow> bool" and reading :: "'w \<Rightarrow> 'k \<Rightarrow> rat"
    and tracked :: "'k set"
  assumes ok_zero: "ok zero"
    and ok_merge: "ok a \<Longrightarrow> ok b \<Longrightarrow> ok (merge a b)"
    and reading_zero: "k \<in> tracked \<Longrightarrow> reading zero k = 0"
    and reading_merge: "ok a \<Longrightarrow> ok b \<Longrightarrow> k \<in> tracked \<Longrightarrow> reading (merge a b) k = reading a k + reading b k"
begin

lemma ok_carried: "ok c \<Longrightarrow> list_all ok ws \<Longrightarrow> ok (foldl merge c ws)"
  by (induction ws arbitrary: c) (auto intro: ok_merge)

lemma reading_carried:
  "ok c \<Longrightarrow> list_all ok ws \<Longrightarrow> k \<in> tracked \<Longrightarrow>
   reading (foldl merge c ws) k = reading c k + (\<Sum>w\<leftarrow>ws. reading w k)"
  by (induction ws arbitrary: c) (auto simp: reading_merge ok_merge)

lemma reading_from_zero:
  "list_all ok ws \<Longrightarrow> k \<in> tracked \<Longrightarrow> reading (foldl merge zero ws) k = (\<Sum>w\<leftarrow>ws. reading w k)"
  using reading_carried[OF ok_zero] by (simp add: reading_zero)

end

interpretation net_carry: carry_store
  "\<lambda>a b. merge_network_windows cf (PDict a) (PDict b)" empty_network_window window_ok
  "\<lambda>w (i, k). iface_num w i k" "{(i, k). k \<in> set additive_keys}" for cf
  by unfold_locales (auto simp: window_ok_merge iface_num_merge_additive)


section \<open>Properties\<close>

text \<open>Windows that could not be delivered are carried without loss: for every interface each counter
  of the carried window is the sum of the counters of the windows that went into it.\<close>

theorem carried_windows_add_up:
  assumes "list_all window_ok ws" "k \<in> set additive_keys"
  shows "iface_num (foldl (\<lambda>a b. merge_network_windows cf (PDict a) (PDict b)) empty_network_window ws) i k
    = (\<Sum>w\<leftarrow>ws. iface_num w i k)"
  using net_carry.reading_from_zero[OF assms(1), of "(i, k)" cf] assms(2) by simp

definition sample_window :: "int \<Rightarrow> pyval dict" where
  "sample_window b = [(''ifaces'', PDict [(''vnet0'', PDict [(''rx_bytes_sampled'', PInt b), (''rx_pps_peak'', PInt b)])])]"

theorem carried_windows_add_up_witness:
  "iface_num (foldl (\<lambda>a b. merge_network_windows sample_config (PDict a) (PDict b)) empty_network_window
     [sample_window 100, sample_window 50, sample_window 7]) ''vnet0'' ''rx_bytes_sampled'' = 157"
proof -
  have w: "list_all window_ok [sample_window 100, sample_window 50, sample_window 7]" by code_simp
  have k: "''rx_bytes_sampled'' \<in> set additive_keys" by code_simp
  have n: "iface_num (sample_window 100) ''vnet0'' ''rx_bytes_sampled'' = 100" "iface_num (sample_window 50) ''vnet0'' ''rx_bytes_sampled'' = 50"
    "iface_num (sample_window 7) ''vnet0'' ''rx_bytes_sampled'' = 7" by code_simp+
  show ?thesis using carried_windows_add_up[OF w k, of sample_config "''vnet0''"] by (simp add: n)
qed

text \<open>Fewer samples, more expected samples or a longer gap never make the quality of a window better.\<close>

theorem quality_never_improves:
  assumes "0 < a'" "a' \<le> a" "0 < x" "x \<le> x'" "0 \<le> g" "g \<le> g'" "config_ok cf"
  shows "quality_from_counts cf (PInt a) (PInt x) (PFloat g) \<le> quality_from_counts cf (PInt a') (PInt x') (PFloat g')"
  by (rule quality_antitone) (use assms in \<open>simp_all add: config_ok_def\<close>)

theorem quality_never_improves_witness:
  "quality_from_counts sample_config (PInt 20) (PInt 20) (PFloat 16) = Good
   \<and> quality_from_counts sample_config (PInt 15) (PInt 20) (PFloat 40) = Degraded
   \<and> quality_from_counts sample_config (PInt 20) (PInt 20) (PFloat 16) \<le> quality_from_counts sample_config (PInt 15) (PInt 20) (PFloat 40)"
proof -
  have "quality_from_counts sample_config (PInt 20) (PInt 20) (PFloat 16) \<le> quality_from_counts sample_config (PInt 15) (PInt 20) (PFloat 40)"
    by (rule quality_never_improves) simp_all
  moreover have "quality_from_counts sample_config (PInt 20) (PInt 20) (PFloat 16) = Good"
    "quality_from_counts sample_config (PInt 15) (PInt 20) (PFloat 40) = Degraded"
    by (simp_all add: quality_from_counts_def quality_of_ratio_def)
  ultimately show ?thesis by simp
qed

end
