(* ===== verification/Agent_Sampler.thy ===== *)
theory Agent_Sampler
  imports Agent_Window
begin

text \<open>
  The bounded in-memory sampler (class \<open>NetworkSampler\<close> of deploy/agent/agent.py), its loop's
  deadlines and the wall-clock boundary of the pushes. The clock readings of one scan are
  arguments: the monotonic time at its start and end and the wall time. The lemmas give the
  invariant of the sampler (tracked interfaces are fresh, active ones are tracked, the records
  are consistent) and say what a sequence of scans accumulates.
\<close>

section \<open>State\<close>

record last_entry =
  le_counters :: counters
  le_mono :: rat
  le_wall :: rat
  le_seen :: rat

record srec =
  rx_bytes_sampled :: int
  tx_bytes_sampled :: int
  rx_packets_sampled :: int
  tx_packets_sampled :: int
  rx_drop_sampled :: int
  tx_drop_sampled :: int
  rx_error_sampled :: int
  tx_error_sampled :: int
  rx_mbps_peak :: rat
  tx_mbps_peak :: rat
  total_mbps_peak :: rat
  rx_pps_peak :: rat
  tx_pps_peak :: rat
  total_pps_peak :: rat
  sample_count :: int
  sample_max_gap_seconds :: rat
  seconds_over_pps :: rat
  seconds_over_mbps :: rat
  seconds_over_rx_pps :: rat
  seconds_over_tx_pps :: rat
  seconds_over_rx_mbps :: rat
  seconds_over_tx_mbps :: rat
  first_seen :: rat
  last_seen :: rat

record sampler =
  s_last :: "last_entry dict"
  s_active :: "srec dict"
  s_known :: "string list"
  s_window_mono :: rat
  s_window_wall :: int
  s_scan_count :: int
  s_scan_max_ms :: rat

definition new_sampler :: "rat \<Rightarrow> rat \<Rightarrow> sampler" where
  "new_sampler now_mono now_wall = \<lparr>s_last = [], s_active = [], s_known = [], s_window_mono = now_mono,
     s_window_wall = trunc now_wall, s_scan_count = 0, s_scan_max_ms = 0\<rparr>"

definition update_known_ifaces :: "string list \<Rightarrow> sampler \<Rightarrow> sampler" where
  "update_known_ifaces keys s = s\<lparr>s_known := filter (\<lambda>x. x \<noteq> []) keys\<rparr>"

definition vm_iface_prefixes :: "string list" where
  "vm_iface_prefixes = [''vnet'', ''tap'', ''tun'', ''fwln'', ''fwpr'', ''qvb'', ''qvo'', ''qbr'']"

definition is_vm_iface_name :: "string \<Rightarrow> bool" where
  "is_vm_iface_name iface =
     (let l = lower iface in isdigit l \<or> list_ex (\<lambda>p. starts_with p l) vm_iface_prefixes)"

definition candidate :: "sampler \<Rightarrow> string \<Rightarrow> bool" where
  "candidate s iface = (iface \<in> set (s_known s) \<or> is_vm_iface_name iface)"

section \<open>One scan\<close>

definition empty_srec :: "rat \<Rightarrow> rat \<Rightarrow> srec" where
  "empty_srec first now_wall = \<lparr>
     rx_bytes_sampled = 0, tx_bytes_sampled = 0, rx_packets_sampled = 0, tx_packets_sampled = 0,
     rx_drop_sampled = 0, tx_drop_sampled = 0, rx_error_sampled = 0, tx_error_sampled = 0,
     rx_mbps_peak = 0, tx_mbps_peak = 0, total_mbps_peak = 0,
     rx_pps_peak = 0, tx_pps_peak = 0, total_pps_peak = 0,
     sample_count = 0, sample_max_gap_seconds = 0,
     seconds_over_pps = 0, seconds_over_mbps = 0, seconds_over_rx_pps = 0, seconds_over_tx_pps = 0,
     seconds_over_rx_mbps = 0, seconds_over_tx_mbps = 0, first_seen = first, last_seen = now_wall\<rparr>"

definition sample_deltas :: "counters \<Rightarrow> counters \<Rightarrow> counters" where
  "sample_deltas cur prev = counter_deltas cur (counters_dict prev)"

definition over :: "rat \<Rightarrow> rat \<Rightarrow> rat \<Rightarrow> rat \<Rightarrow> rat" where
  "over warn value elapsed acc = (if warn \<le> value \<and> 0 < warn then acc + elapsed else acc)"

definition update_srec :: "rat \<Rightarrow> rat \<Rightarrow> rat \<Rightarrow> counters \<Rightarrow> rat \<Rightarrow> srec \<Rightarrow> srec" where
  "update_srec pps_warn mbps_warn elapsed d now_wall r =
     (let rx_mbps = of_int (rx d) * 8 / elapsed / 1000000;
          tx_mbps = of_int (tx d) * 8 / elapsed / 1000000;
          rx_pps = of_int (rx_packets d) / elapsed;
          tx_pps = of_int (tx_packets d) / elapsed in
      \<lparr>rx_bytes_sampled = rx_bytes_sampled r + rx d,
       tx_bytes_sampled = tx_bytes_sampled r + tx d,
       rx_packets_sampled = rx_packets_sampled r + rx_packets d,
       tx_packets_sampled = tx_packets_sampled r + tx_packets d,
       rx_drop_sampled = rx_drop_sampled r + rx_drop d,
       tx_drop_sampled = tx_drop_sampled r + tx_drop d,
       rx_error_sampled = rx_error_sampled r + rx_error d,
       tx_error_sampled = tx_error_sampled r + tx_error d,
       rx_mbps_peak = max (rx_mbps_peak r) rx_mbps,
       tx_mbps_peak = max (tx_mbps_peak r) tx_mbps,
       total_mbps_peak = max (total_mbps_peak r) (rx_mbps + tx_mbps),
       rx_pps_peak = max (rx_pps_peak r) rx_pps,
       tx_pps_peak = max (tx_pps_peak r) tx_pps,
       total_pps_peak = max (total_pps_peak r) (rx_pps + tx_pps),
       sample_count = sample_count r + 1,
       sample_max_gap_seconds = max (sample_max_gap_seconds r) elapsed,
       seconds_over_pps = over pps_warn (max rx_pps tx_pps) elapsed (seconds_over_pps r),
       seconds_over_mbps = over mbps_warn (max rx_mbps tx_mbps) elapsed (seconds_over_mbps r),
       seconds_over_rx_pps = over pps_warn rx_pps elapsed (seconds_over_rx_pps r),
       seconds_over_tx_pps = over pps_warn tx_pps elapsed (seconds_over_tx_pps r),
       seconds_over_rx_mbps = over mbps_warn rx_mbps elapsed (seconds_over_rx_mbps r),
       seconds_over_tx_mbps = over mbps_warn tx_mbps elapsed (seconds_over_tx_mbps r),
       first_seen = first_seen r, last_seen = now_wall\<rparr>)"

definition sample_iface :: "config \<Rightarrow> rat \<Rightarrow> rat \<Rightarrow> rat \<Rightarrow> string \<times> counters \<Rightarrow> sampler \<Rightarrow> sampler" where
  "sample_iface cf pps_warn now_mono now_wall ic s =
     (let (iface, current) = ic in
      if \<not> candidate s iface then s
      else
        (let s1 = (case dget (s_last s) iface of
             None \<Rightarrow> s
           | Some p \<Rightarrow>
               (let elapsed = now_mono - le_mono p in
                if elapsed \<ge> 1 then
                  (let r = dget_or (s_active s) iface (empty_srec (le_wall p) now_wall);
                       r' = update_srec pps_warn (c_mbps_warn cf) elapsed (sample_deltas current (le_counters p)) now_wall r
                   in s\<lparr>s_active := dset (s_active s) iface r'\<rparr>)
                else s))
         in s1\<lparr>s_last := dset (s_last s1) iface
               \<lparr>le_counters = current, le_mono = now_mono, le_wall = now_wall, le_seen = now_mono\<rparr>\<rparr>))"

definition fresh :: "config \<Rightarrow> rat \<Rightarrow> last_entry \<Rightarrow> bool" where
  "fresh cf now_mono p = (now_mono - le_seen p \<le> of_int (c_stale_iface_seconds cf))"

definition drop_stale :: "config \<Rightarrow> rat \<Rightarrow> sampler \<Rightarrow> sampler" where
  "drop_stale cf now_mono s =
     (let stale = map fst (filter (\<lambda>(i, p). \<not> fresh cf now_mono p) (s_last s)) in
      s\<lparr>s_last := filter (\<lambda>(i, p). i \<notin> set stale) (s_last s),
        s_active := filter (\<lambda>(i, r). i \<notin> set stale) (s_active s)\<rparr>)"

text \<open>One scan: the text of /proc/net/dev, its start and end on the monotonic clock, the wall time.\<close>

record scan =
  sc_text :: "string option"
  sc_mono :: rat
  sc_wall :: rat
  sc_end :: rat

definition sample :: "config \<Rightarrow> rat \<Rightarrow> scan \<Rightarrow> sampler \<Rightarrow> bool \<times> sampler" where
  "sample cf pps_warn sc s = (case sc_text sc of
      None \<Rightarrow> (False, s)
    | Some text \<Rightarrow>
        (let s1 = fold (sample_iface cf pps_warn (sc_mono sc) (sc_wall sc)) (parse_proc_net_dev text)
                    (s\<lparr>s_scan_count := s_scan_count s + 1\<rparr>);
             s2 = drop_stale cf (sc_mono sc) s1;
             scan_ms = (sc_end sc - sc_mono sc) * 1000 in
         (True, s2\<lparr>s_scan_max_ms := max (s_scan_max_ms s2) scan_ms\<rparr>)))"

section \<open>Rotation\<close>

definition srec_dict :: "srec \<Rightarrow> pyval dict" where
  "srec_dict r = [
     (''rx_bytes_sampled'', PInt (rx_bytes_sampled r)), (''tx_bytes_sampled'', PInt (tx_bytes_sampled r)),
     (''rx_packets_sampled'', PInt (rx_packets_sampled r)), (''tx_packets_sampled'', PInt (tx_packets_sampled r)),
     (''rx_drop_sampled'', PInt (rx_drop_sampled r)), (''tx_drop_sampled'', PInt (tx_drop_sampled r)),
     (''rx_error_sampled'', PInt (rx_error_sampled r)), (''tx_error_sampled'', PInt (tx_error_sampled r)),
     (''rx_mbps_peak'', PFloat (rx_mbps_peak r)), (''tx_mbps_peak'', PFloat (tx_mbps_peak r)),
     (''total_mbps_peak'', PFloat (total_mbps_peak r)),
     (''rx_pps_peak'', PFloat (rx_pps_peak r)), (''tx_pps_peak'', PFloat (tx_pps_peak r)),
     (''total_pps_peak'', PFloat (total_pps_peak r)),
     (''sample_count'', PInt (sample_count r)),
     (''sample_max_gap_seconds'', PFloat (sample_max_gap_seconds r)),
     (''seconds_over_pps'', PFloat (seconds_over_pps r)), (''seconds_over_mbps'', PFloat (seconds_over_mbps r)),
     (''seconds_over_rx_pps'', PFloat (seconds_over_rx_pps r)), (''seconds_over_tx_pps'', PFloat (seconds_over_tx_pps r)),
     (''seconds_over_rx_mbps'', PFloat (seconds_over_rx_mbps r)), (''seconds_over_tx_mbps'', PFloat (seconds_over_tx_mbps r)),
     (''first_seen'', PFloat (first_seen r)), (''last_seen'', PFloat (last_seen r))]"

definition rotate_item :: "config \<Rightarrow> rat \<Rightarrow> rat \<Rightarrow> int \<Rightarrow> srec \<Rightarrow> pyval dict" where
  "rotate_item cf window_mono now_mono now_wall r =
     (let first_mono = max window_mono (now_mono - max 0 (of_int now_wall - first_seen r));
          effective = max 0 (now_mono - first_mono);
          expected = (if effective \<ge> 1 then max 1 (round_even (effective / of_int (c_sample_seconds cf))) else 1);
          q = quality_from_counts cf (PInt (sample_count r)) (PInt expected) (PFloat (sample_max_gap_seconds r)) in
      srec_dict r @ [(''sample_expected'', PInt expected), (''sample_quality'', PStr (quality_text q))])"

definition rotate_window :: "config \<Rightarrow> rat \<Rightarrow> rat \<Rightarrow> sampler \<Rightarrow> pyval dict \<times> sampler" where
  "rotate_window cf now_mono wall s =
     (let now_wall = trunc wall in
      ([(''started_at'', PInt (s_window_wall s)), (''ended_at'', PInt now_wall),
        (''ifaces'', PDict (map (\<lambda>(i, r). (i, PDict (rotate_item cf (s_window_mono s) now_mono now_wall r))) (s_active s))),
        (''scan_count'', PInt (s_scan_count s)), (''scan_max_ms'', PFloat (round_dec 3 (s_scan_max_ms s)))],
       s\<lparr>s_active := [], s_window_mono := now_mono, s_window_wall := now_wall,
         s_scan_count := 0, s_scan_max_ms := 0\<rparr>))"

text \<open>\<open>rotate()\<close>: one near-boundary scan, then the window at the clock readings that follow it.\<close>

definition rotate :: "config \<Rightarrow> rat \<Rightarrow> scan \<Rightarrow> rat \<Rightarrow> rat \<Rightarrow> sampler \<Rightarrow> pyval dict \<times> sampler" where
  "rotate cf pps_warn sc now_mono wall s = rotate_window cf now_mono wall (snd (sample cf pps_warn sc s))"

record sampler_health =
  sh_sample_seconds :: int
  sh_tracked :: nat
  sh_active :: nat
  sh_scan_count :: int
  sh_scan_max_ms :: rat

definition sampler_health_of :: "config \<Rightarrow> sampler \<Rightarrow> sampler_health" where
  "sampler_health_of cf s = \<lparr>sh_sample_seconds = c_sample_seconds cf, sh_tracked = length (s_last s),
     sh_active = length (s_active s), sh_scan_count = s_scan_count s,
     sh_scan_max_ms = round_dec 3 (s_scan_max_ms s)\<rparr>"

section \<open>Deadlines\<close>

text \<open>The deadline after a scan that ended at \<open>now\<close>: no burst of catch-up scans.\<close>

definition next_deadline :: "config \<Rightarrow> rat \<Rightarrow> rat \<Rightarrow> rat" where
  "next_deadline cf deadline now =
     (let d = deadline + of_int (c_sample_seconds cf) in
      if d < now then now + of_int (c_sample_seconds cf) else d)"

definition next_wall_boundary :: "config \<Rightarrow> rat \<Rightarrow> int" where
  "next_wall_boundary cf now = (trunc now div c_push_seconds cf + 1) * c_push_seconds cf"

definition advance_boundary :: "config \<Rightarrow> int \<Rightarrow> rat \<Rightarrow> int" where
  "advance_boundary cf boundary now =
     (let b = boundary + c_push_seconds cf in if of_int b \<le> now then next_wall_boundary cf now else b)"

lemma next_deadline_bounds:
  assumes "config_ok cf"
  shows "now \<le> next_deadline cf d now" and "d + of_int (c_sample_seconds cf) \<le> next_deadline cf d now"
    and "next_deadline cf d now \<le> max (d + of_int (c_sample_seconds cf)) (now + of_int (c_sample_seconds cf))"
  using assms by (auto simp: next_deadline_def Let_def config_ok_def)

lemma next_wall_boundary_bounds:
  assumes "config_ok cf" "0 \<le> now"
  shows "now < of_int (next_wall_boundary cf now)"
    and "of_int (next_wall_boundary cf now) \<le> now + of_int (c_push_seconds cf)"
    and "c_push_seconds cf dvd next_wall_boundary cf now"
proof -
  let ?p = "c_push_seconds cf"
  have p: "0 < ?p" using assms(1) by (simp add: config_ok_def)
  have t: "trunc now = \<lfloor>now\<rfloor>" using assms(2) by (simp add: trunc_def)
  have eq: "next_wall_boundary cf now = \<lfloor>now\<rfloor> - \<lfloor>now\<rfloor> mod ?p + ?p"
    by (simp add: next_wall_boundary_def t algebra_simps minus_mod_eq_mult_div)
  have m: "0 \<le> \<lfloor>now\<rfloor> mod ?p" "\<lfloor>now\<rfloor> mod ?p < ?p" using p by simp_all
  then have "\<lfloor>now\<rfloor> + 1 \<le> next_wall_boundary cf now" unfolding eq by linarith
  then have "of_int (\<lfloor>now\<rfloor> + 1) \<le> (of_int (next_wall_boundary cf now) :: rat)" by (simp only: of_int_le_iff)
  then show "now < of_int (next_wall_boundary cf now)" by linarith
  have "next_wall_boundary cf now \<le> \<lfloor>now\<rfloor> + ?p" unfolding eq using m by linarith
  then have "(of_int (next_wall_boundary cf now) :: rat) \<le> of_int (\<lfloor>now\<rfloor> + ?p)" by (simp only: of_int_le_iff)
  then show "of_int (next_wall_boundary cf now) \<le> now + of_int ?p" by simp linarith
  show "?p dvd next_wall_boundary cf now" by (simp add: next_wall_boundary_def)
qed

lemma advance_boundary_ok:
  assumes "config_ok cf" "0 \<le> now" "c_push_seconds cf dvd b"
  shows "now < of_int (advance_boundary cf b now)" "c_push_seconds cf dvd advance_boundary cf b now"
    and "b < advance_boundary cf b now"
proof -
  have p: "0 < c_push_seconds cf" using assms(1) by (simp add: config_ok_def)
  note nb = next_wall_boundary_bounds[OF assms(1,2)]
  show "now < of_int (advance_boundary cf b now)" "c_push_seconds cf dvd advance_boundary cf b now"
    using nb assms(3) by (auto simp: advance_boundary_def Let_def)
  have "b < next_wall_boundary cf now" if "of_int (b + c_push_seconds cf) \<le> now"
  proof -
    have "(of_int b :: rat) < of_int (next_wall_boundary cf now)"
      using that nb(1) p by (simp add: le_less_trans)
    then show ?thesis by simp
  qed
  then show "b < advance_boundary cf b now"
    using p by (auto simp: advance_boundary_def Let_def)
qed


section \<open>Consistency of the records\<close>

definition srec_ok :: "srec \<Rightarrow> bool" where
  "srec_ok r = (0 \<le> rx_bytes_sampled r \<and> 0 \<le> tx_bytes_sampled r \<and> 0 \<le> sample_count r
     \<and> 0 \<le> sample_max_gap_seconds r \<and> 0 \<le> rx_pps_peak r \<and> 0 \<le> tx_pps_peak r
     \<and> rx_pps_peak r \<le> total_pps_peak r \<and> tx_pps_peak r \<le> total_pps_peak r
     \<and> total_pps_peak r \<le> rx_pps_peak r + tx_pps_peak r
     \<and> 0 \<le> seconds_over_rx_pps r \<and> 0 \<le> seconds_over_tx_pps r
     \<and> seconds_over_rx_pps r \<le> seconds_over_pps r \<and> seconds_over_tx_pps r \<le> seconds_over_pps r
     \<and> seconds_over_pps r \<le> seconds_over_rx_pps r + seconds_over_tx_pps r
     \<and> seconds_over_pps r \<le> of_int (sample_count r) * sample_max_gap_seconds r)"

lemma srec_ok_empty [simp]: "srec_ok (empty_srec f w)"
  by (simp add: srec_ok_def empty_srec_def)

lemma over_bounds:
  assumes "0 < e" "acc \<le> n * g" "0 \<le> n" "0 \<le> g"
  shows "over w v e acc \<le> (n + 1) * max g e"
proof -
  have "n * g \<le> n * max g e" using assms by (intro mult_left_mono) auto
  moreover have "0 \<le> max g e" "e \<le> max g e" using assms by auto
  ultimately show ?thesis using assms(2) by (auto simp: over_def algebra_simps)
qed

lemma deltas_nonneg [simp]: "0 \<le> rx (sample_deltas a b)" "0 \<le> tx (sample_deltas a b)"
  "0 \<le> rx_packets (sample_deltas a b)" "0 \<le> tx_packets (sample_deltas a b)"
  by (simp_all add: sample_deltas_def)

lemma peaks_step:
  fixes a b p q t :: rat
  assumes "0 \<le> a" "0 \<le> b" "p \<le> t" "q \<le> t" "t \<le> p + q"
  shows "max p a \<le> max t (a + b)" "max q b \<le> max t (a + b)" "max t (a + b) \<le> max p a + max q b"
  using assms by (auto simp: max_def)

lemma over_step:
  assumes "0 \<le> e" "0 \<le> x" "x \<le> z" "y \<le> z" "z \<le> x + y" "0 \<le> y"
  shows "0 \<le> over w a e x \<and> 0 \<le> over w b e y \<and> over w a e x \<le> over w (max a b) e z
    \<and> over w b e y \<le> over w (max a b) e z \<and> over w (max a b) e z \<le> over w a e x + over w b e y"
  using assms by (auto simp: over_def max_def)

lemma update_srec_ok:
  assumes ok: "srec_ok r" and e: "1 \<le> e"
    and d: "0 \<le> rx d" "0 \<le> tx d" "0 \<le> rx_packets d" "0 \<le> tx_packets d"
  shows "srec_ok (update_srec pw mw e d w r)"
proof -
  define a b where "a = (of_int (rx_packets d) / e :: rat)" and "b = (of_int (tx_packets d) / e :: rat)"
  have nn: "0 \<le> a" "0 \<le> b" using e d by (simp_all add: a_def b_def)
  have o: "over pw (max a b) e (seconds_over_pps r) \<le> (of_int (sample_count r) + 1) * max (sample_max_gap_seconds r) e"
    using e ok by (intro over_bounds) (auto simp: srec_ok_def)
  have ps: "max (rx_pps_peak r) a \<le> max (total_pps_peak r) (a + b)" "max (tx_pps_peak r) b \<le> max (total_pps_peak r) (a + b)"
    "max (total_pps_peak r) (a + b) \<le> max (rx_pps_peak r) a + max (tx_pps_peak r) b"
    using ok nn peaks_step[of a b "rx_pps_peak r" "total_pps_peak r" "tx_pps_peak r"] by (simp_all add: srec_ok_def)
  have os: "0 \<le> over pw a e (seconds_over_rx_pps r)" "0 \<le> over pw b e (seconds_over_tx_pps r)"
    "over pw a e (seconds_over_rx_pps r) \<le> over pw (max a b) e (seconds_over_pps r)"
    "over pw b e (seconds_over_tx_pps r) \<le> over pw (max a b) e (seconds_over_pps r)"
    "over pw (max a b) e (seconds_over_pps r) \<le> over pw a e (seconds_over_rx_pps r) + over pw b e (seconds_over_tx_pps r)"
    using ok e over_step[of e "seconds_over_rx_pps r" "seconds_over_pps r" "seconds_over_tx_pps r" pw a b]
    by (simp_all add: srec_ok_def)
  have basic: "0 \<le> max (rx_pps_peak r) a" "0 \<le> max (tx_pps_peak r) b" "0 \<le> max (sample_max_gap_seconds r) e"
    "0 \<le> rx_bytes_sampled r + rx d" "0 \<le> tx_bytes_sampled r + tx d" "0 \<le> sample_count r + 1"
    using ok d nn by (auto simp: srec_ok_def max_def)
  let ?u = "update_srec pw mw e d w r"
  have fields: "rx_bytes_sampled ?u = rx_bytes_sampled r + rx d" "tx_bytes_sampled ?u = tx_bytes_sampled r + tx d"
    "sample_count ?u = sample_count r + 1" "sample_max_gap_seconds ?u = max (sample_max_gap_seconds r) e"
    "rx_pps_peak ?u = max (rx_pps_peak r) a" "tx_pps_peak ?u = max (tx_pps_peak r) b"
    "total_pps_peak ?u = max (total_pps_peak r) (a + b)"
    "seconds_over_pps ?u = over pw (max a b) e (seconds_over_pps r)"
    "seconds_over_rx_pps ?u = over pw a e (seconds_over_rx_pps r)"
    "seconds_over_tx_pps ?u = over pw b e (seconds_over_tx_pps r)"
    by (simp_all add: update_srec_def Let_def a_def b_def)
  show ?thesis
    unfolding srec_ok_def fields of_int_add of_int_1 using o ps os basic by blast
qed

section \<open>The invariant of the sampler\<close>

definition sampler_ok :: "sampler \<Rightarrow> bool" where
  "sampler_ok s = (distinct (map fst (s_last s)) \<and> distinct (map fst (s_active s))
     \<and> set (map fst (s_active s)) \<subseteq> set (map fst (s_last s))
     \<and> (\<forall>(i, r) \<in> set (s_active s). srec_ok r))"

lemma set_dset_values: "\<forall>(i, r) \<in> set d. P r \<Longrightarrow> P v \<Longrightarrow> \<forall>(i, r) \<in> set (dset d k v). P r"
  unfolding dset_def by (induction d) auto

lemma dget_or_values: "\<forall>(i, r) \<in> set d. P r \<Longrightarrow> P v \<Longrightarrow> P (dget_or d k v)"
  by (induction d) (auto simp: dget_or_def)

lemma fst_set_dset [simp]: "fst ` set (dset d k v) = insert k (fst ` set d)"
  using keys_dset[of d k v] by simp

lemma sampler_ok_last: "sampler_ok s \<Longrightarrow> sampler_ok (s\<lparr>s_last := dset (s_last s) i e\<rparr>)"
  by (auto simp: sampler_ok_def)

lemma sampler_ok_active:
  assumes "sampler_ok s" "dget (s_last s) i = Some p" "srec_ok r"
  shows "sampler_ok (s\<lparr>s_active := dset (s_active s) i r\<rparr>)"
proof -
  have "\<forall>(i, r) \<in> set (dset (s_active s) i r). srec_ok r"
    using assms by (intro set_dset_values) (auto simp: sampler_ok_def)
  moreover have "i \<in> fst ` set (s_last s)"
    using assms(2) dget_None_iff[of "s_last s" i] by auto
  ultimately show ?thesis using assms(1) by (simp add: sampler_ok_def)
qed

lemma sample_iface_ok:
  assumes ok: "sampler_ok s"
  shows "sampler_ok (sample_iface cf pw m w (i, c) s)"
proof (cases "candidate s i")
  case True
  show ?thesis
  proof (cases "dget (s_last s) i")
    case None
    then show ?thesis using True sampler_ok_last[OF ok] by (simp add: sample_iface_def)
  next
    case (Some p)
    let ?r = "update_srec pw (c_mbps_warn cf) (m - le_mono p) (sample_deltas c (le_counters p)) w
                (dget_or (s_active s) i (empty_srec (le_wall p) w))"
    have "srec_ok (dget_or (s_active s) i (empty_srec (le_wall p) w))"
      using ok by (intro dget_or_values[where P = srec_ok]) (simp_all add: sampler_ok_def)
    then have "sampler_ok (s\<lparr>s_active := dset (s_active s) i ?r\<rparr>)" if "1 \<le> m - le_mono p"
      using that by (intro sampler_ok_active[OF ok Some] update_srec_ok) auto
    from sampler_ok_last[OF this] show ?thesis
      using True Some sampler_ok_last[OF ok] by (auto simp: sample_iface_def Let_def)
  qed
qed (simp add: sample_iface_def ok)

lemma fold_sample_iface_ok: "sampler_ok s \<Longrightarrow> sampler_ok (fold (sample_iface cf pw m w) ics s)"
  by (induction ics arbitrary: s) (auto intro!: sample_iface_ok)

lemma distinct_map_filter: "distinct (map f xs) \<Longrightarrow> distinct (map f (filter P xs))"
  by (induction xs) auto

lemma drop_stale_ok:
  assumes "sampler_ok s"
  shows "sampler_ok (drop_stale cf m s)"
proof -
  define S where "S = set (map fst (filter (\<lambda>(i, p). \<not> fresh cf m p) (s_last s)))"
  have eq: "drop_stale cf m s = s\<lparr>s_last := filter (\<lambda>(i, p). i \<notin> S) (s_last s),
      s_active := filter (\<lambda>(i, r). i \<notin> S) (s_active s)\<rparr>"
    by (simp add: drop_stale_def S_def Let_def)
  have "fst ` set (filter (\<lambda>(i, r). i \<notin> S) (s_active s)) \<subseteq> fst ` set (filter (\<lambda>(i, p). i \<notin> S) (s_last s))"
  proof
    fix i assume "i \<in> fst ` set (filter (\<lambda>(i, r). i \<notin> S) (s_active s))"
    then have "i \<notin> S" "i \<in> fst ` set (s_active s)" by auto
    then have "i \<in> fst ` set (s_last s)" using assms by (auto simp: sampler_ok_def)
    with \<open>i \<notin> S\<close> show "i \<in> fst ` set (filter (\<lambda>(i, p). i \<notin> S) (s_last s))" by force
  qed
  then show ?thesis using assms unfolding eq by (auto simp: sampler_ok_def distinct_map_filter)
qed

lemma drop_stale_fresh: "(i, p) \<in> set (s_last (drop_stale cf m s)) \<Longrightarrow> fresh cf m p"
  by (force simp: drop_stale_def Let_def)

lemma sampler_ok_fields [simp]:
  "sampler_ok (s\<lparr>s_scan_count := n\<rparr>) = sampler_ok s" "sampler_ok (s\<lparr>s_scan_max_ms := q\<rparr>) = sampler_ok s"
  "sampler_ok (s\<lparr>s_known := ks\<rparr>) = sampler_ok s"
  by (simp_all add: sampler_ok_def)

lemma sample_ok: "sampler_ok s \<Longrightarrow> sampler_ok (snd (sample cf pw sc s))"
  by (auto simp: sample_def Let_def intro!: drop_stale_ok fold_sample_iface_ok split: option.split)

lemma sample_fresh:
  "fst (sample cf pw sc s) \<Longrightarrow> (i, p) \<in> set (s_last (snd (sample cf pw sc s))) \<Longrightarrow> fresh cf (sc_mono sc) p"
  by (auto simp: sample_def Let_def dest: drop_stale_fresh split: option.splits)

lemma new_sampler_ok: "sampler_ok (new_sampler m w)"
  by (simp add: sampler_ok_def new_sampler_def)

lemma rotate_ok: "sampler_ok s \<Longrightarrow> sampler_ok (snd (rotate cf pw sc m w s))"
  using sample_ok[of s cf pw sc] by (auto simp: rotate_def rotate_window_def Let_def sampler_ok_def)

section \<open>What a sequence of scans accumulates\<close>

lemma sample_iface_other:
  "fst ic \<noteq> i \<Longrightarrow> dget (s_last (sample_iface cf pw m w ic s)) i = dget (s_last s) i
     \<and> dget (s_active (sample_iface cf pw m w ic s)) i = dget (s_active s) i"
  by (cases ic) (auto simp: sample_iface_def Let_def split: option.split)

lemma sample_iface_known [simp]: "s_known (sample_iface cf pw m w ic s) = s_known s"
  by (cases ic) (auto simp: sample_iface_def Let_def split: option.split)

lemma candidate_known: "s_known s = s_known t \<Longrightarrow> candidate s = candidate t"
  by (rule ext) (simp add: candidate_def)

lemma fold_sample_iface_known [simp]: "s_known (fold (sample_iface cf pw m w) ics s) = s_known s"
  by (induction ics arbitrary: s) auto

lemma fold_sample_iface_other:
  "i \<notin> set (map fst ics) \<Longrightarrow> dget (s_last (fold (sample_iface cf pw m w) ics s)) i = dget (s_last s) i
     \<and> dget (s_active (fold (sample_iface cf pw m w) ics s)) i = dget (s_active s) i"
  by (induction ics arbitrary: s) (auto simp: sample_iface_other)

lemma fold_sample_iface_at:
  assumes "distinct (map fst ics)" "dget ics i = Some c"
  shows "\<exists>t. s_known t = s_known s \<and> dget (s_last t) i = dget (s_last s) i \<and> dget (s_active t) i = dget (s_active s) i
    \<and> dget (s_last (fold (sample_iface cf pw m w) ics s)) i = dget (s_last (sample_iface cf pw m w (i, c) t)) i
    \<and> dget (s_active (fold (sample_iface cf pw m w) ics s)) i = dget (s_active (sample_iface cf pw m w (i, c) t)) i"
  using assms
proof (induction ics arbitrary: s)
  case (Cons p ics)
  show ?case
  proof (cases "fst p = i")
    case True
    then have p: "p = (i, c)" using Cons.prems by (cases p) simp
    have "i \<notin> set (map fst ics)" using Cons.prems(1) p by simp
    then show ?thesis using fold_sample_iface_other[of i ics cf pw m w "sample_iface cf pw m w p s"] p
      by (intro exI[of _ s]) simp
  next
    case False
    then have "\<exists>t. s_known t = s_known (sample_iface cf pw m w p s)
      \<and> dget (s_last t) i = dget (s_last (sample_iface cf pw m w p s)) i
      \<and> dget (s_active t) i = dget (s_active (sample_iface cf pw m w p s)) i
      \<and> dget (s_last (fold (sample_iface cf pw m w) ics (sample_iface cf pw m w p s))) i = dget (s_last (sample_iface cf pw m w (i, c) t)) i
      \<and> dget (s_active (fold (sample_iface cf pw m w) ics (sample_iface cf pw m w p s))) i = dget (s_active (sample_iface cf pw m w (i, c) t)) i"
      using Cons.prems by (intro Cons.IH) auto
    then show ?thesis using False by (auto simp: sample_iface_other)
  qed
qed simp

lemma dget_filter_keys: "dget (filter (\<lambda>(i, p). i \<notin> S) d) i = (if i \<in> S then None else dget d i)"
  by (induction d) (auto split: if_splits)

lemma drop_stale_at:
  assumes "dget (s_last s) i = Some p" "fresh cf m p" "distinct (map fst (s_last s))"
  shows "dget (s_last (drop_stale cf m s)) i = Some p" "dget (s_active (drop_stale cf m s)) i = dget (s_active s) i"
proof -
  have "i \<notin> set (map fst (filter (\<lambda>(i, p). \<not> fresh cf m p) (s_last s)))"
    using assms by (auto simp: dget_eq_Some_iff dest: eq_key_imp_eq_value)
  then show "dget (s_last (drop_stale cf m s)) i = Some p" "dget (s_active (drop_stale cf m s)) i = dget (s_active s) i"
    using assms(1) by (simp_all add: drop_stale_def Let_def dget_filter_keys)
qed

lemma sample_at:
  assumes "sampler_ok s" "config_ok cf" "candidate s i"
    and "sc_text sc = Some t" "dget (parse_proc_net_dev t) i = Some c"
  shows "dget (s_last (snd (sample cf pw sc s))) i
      = Some \<lparr>le_counters = c, le_mono = sc_mono sc, le_wall = sc_wall sc, le_seen = sc_mono sc\<rparr>"
    and "dget (s_active (snd (sample cf pw sc s))) i = (case dget (s_last s) i of
       None \<Rightarrow> dget (s_active s) i
     | Some p \<Rightarrow> if 1 \<le> sc_mono sc - le_mono p
         then Some (update_srec pw (c_mbps_warn cf) (sc_mono sc - le_mono p) (sample_deltas c (le_counters p)) (sc_wall sc)
                (dget_or (s_active s) i (empty_srec (le_wall p) (sc_wall sc))))
         else dget (s_active s) i)"
    and "s_known (snd (sample cf pw sc s)) = s_known s"
proof -
  let ?s0 = "s\<lparr>s_scan_count := s_scan_count s + 1\<rparr>"
  let ?f = "fold (sample_iface cf pw (sc_mono sc) (sc_wall sc)) (parse_proc_net_dev t) ?s0"
  let ?e = "\<lparr>le_counters = c, le_mono = sc_mono sc, le_wall = sc_wall sc, le_seen = sc_mono sc\<rparr>"
  obtain u where u: "s_known u = s_known ?s0" "dget (s_last u) i = dget (s_last ?s0) i"
    "dget (s_active u) i = dget (s_active ?s0) i"
    "dget (s_last ?f) i = dget (s_last (sample_iface cf pw (sc_mono sc) (sc_wall sc) (i, c) u)) i"
    "dget (s_active ?f) i = dget (s_active (sample_iface cf pw (sc_mono sc) (sc_wall sc) (i, c) u)) i"
    using fold_sample_iface_at[OF distinct_parse_proc_net_dev assms(5)] by blast
  have cand: "candidate u i" using assms(3) u(1) candidate_known[of u s] by simp
  have last: "dget (s_last ?f) i = Some ?e"
    using u cand by (simp add: sample_iface_def Let_def split: option.split)
  have ok: "sampler_ok ?f" using assms(1) by (intro fold_sample_iface_ok) simp
  have fr: "fresh cf (sc_mono sc) ?e" using assms(2) by (simp add: fresh_def config_ok_def)
  note ds = drop_stale_at[OF last fr] ok[unfolded sampler_ok_def]
  show "dget (s_last (snd (sample cf pw sc s))) i = Some ?e"
    using ds assms(4) by (simp add: sample_def Let_def)
  show "s_known (snd (sample cf pw sc s)) = s_known s"
    using assms(4) by (simp add: sample_def Let_def drop_stale_def)
  show "dget (s_active (snd (sample cf pw sc s))) i = (case dget (s_last s) i of
       None \<Rightarrow> dget (s_active s) i
     | Some p \<Rightarrow> if 1 \<le> sc_mono sc - le_mono p
         then Some (update_srec pw (c_mbps_warn cf) (sc_mono sc - le_mono p) (sample_deltas c (le_counters p)) (sc_wall sc)
                (dget_or (s_active s) i (empty_srec (le_wall p) (sc_wall sc))))
         else dget (s_active s) i)"
    using ds assms(4) u cand
    by (auto simp: sample_def Let_def sample_iface_def dget_or_def split: option.splits)
qed

definition sampled :: "(srec \<Rightarrow> int) \<Rightarrow> sampler \<Rightarrow> string \<Rightarrow> int" where
  "sampled f s i = (case dget (s_active s) i of None \<Rightarrow> 0 | Some r \<Rightarrow> f r)"

lemma update_srec_sums [simp]:
  "rx_bytes_sampled (update_srec pw mw e d w r) = rx_bytes_sampled r + rx d"
  "tx_bytes_sampled (update_srec pw mw e d w r) = tx_bytes_sampled r + tx d"
  by (simp_all add: update_srec_def Let_def)

lemma empty_srec_sums [simp]: "rx_bytes_sampled (empty_srec f w) = 0" "tx_bytes_sampled (empty_srec f w) = 0"
  by (simp_all add: empty_srec_def)

fun run_scans :: "config \<Rightarrow> rat \<Rightarrow> scan list \<Rightarrow> sampler \<Rightarrow> sampler" where
  "run_scans cf pw [] s = s"
| "run_scans cf pw (sc # scs) s = run_scans cf pw scs (snd (sample cf pw sc s))"

text \<open>The scans see interface \<open>i\<close> at least a second apart with counters that never go back.\<close>

fun steady :: "string \<Rightarrow> counters \<Rightarrow> rat \<Rightarrow> scan list \<Rightarrow> bool" where
  "steady i c m [] = True"
| "steady i c m (sc # scs) = (case sc_text sc of None \<Rightarrow> False
     | Some t \<Rightarrow> (case dget (parse_proc_net_dev t) i of None \<Rightarrow> False
         | Some c' \<Rightarrow> m + 1 \<le> sc_mono sc \<and> rx c \<le> rx c' \<and> tx c \<le> tx c' \<and> steady i c' (sc_mono sc) scs))"

fun last_reading :: "string \<Rightarrow> counters \<Rightarrow> scan list \<Rightarrow> counters" where
  "last_reading i c [] = c"
| "last_reading i c (sc # scs) = (case sc_text sc of None \<Rightarrow> last_reading i c scs
     | Some t \<Rightarrow> (case dget (parse_proc_net_dev t) i of None \<Rightarrow> last_reading i c scs
         | Some c' \<Rightarrow> last_reading i c' scs))"

lemma run_scans_exact:
  assumes "config_ok cf" "sampler_ok s" "candidate s i" "dget (s_last s) i = Some p"
    and "steady i (le_counters p) (le_mono p) scs"
  shows "sampled rx_bytes_sampled (run_scans cf pw scs s) i
       = sampled rx_bytes_sampled s i + (rx (last_reading i (le_counters p) scs) - rx (le_counters p))
     \<and> sampled tx_bytes_sampled (run_scans cf pw scs s) i
       = sampled tx_bytes_sampled s i + (tx (last_reading i (le_counters p) scs) - tx (le_counters p))"
  using assms
proof (induction scs arbitrary: s p)
  case (Cons sc scs)
  then obtain t c where t: "sc_text sc = Some t" and c: "dget (parse_proc_net_dev t) i = Some c"
    and gap: "1 \<le> sc_mono sc - le_mono p" and up: "rx (le_counters p) \<le> rx c" "tx (le_counters p) \<le> tx c"
    and rest: "steady i c (sc_mono sc) scs"
    by (auto split: option.splits)
  let ?s' = "snd (sample cf pw sc s)"
  let ?p' = "\<lparr>le_counters = c, le_mono = sc_mono sc, le_wall = sc_wall sc, le_seen = sc_mono sc\<rparr>"
  note at = sample_at[OF Cons.prems(2,1,3) t c, of pw]
  have "candidate ?s' i" using candidate_known[OF at(3)] Cons.prems(3) by simp
  with at(1) rest have IH:
    "sampled rx_bytes_sampled (run_scans cf pw scs ?s') i = sampled rx_bytes_sampled ?s' i + (rx (last_reading i c scs) - rx c)
   \<and> sampled tx_bytes_sampled (run_scans cf pw scs ?s') i = sampled tx_bytes_sampled ?s' i + (tx (last_reading i c scs) - tx c)"
    using Cons.IH[of ?s' ?p'] sample_ok[OF Cons.prems(2)] Cons.prems(1) by simp
  have "sampled rx_bytes_sampled ?s' i = sampled rx_bytes_sampled s i + (rx c - rx (le_counters p))"
    "sampled tx_bytes_sampled ?s' i = sampled tx_bytes_sampled s i + (tx c - tx (le_counters p))"
    using at(2) Cons.prems(4) gap up
    by (simp_all add: sampled_def sample_deltas_def dget_or_def split: option.split)
  then show ?case using IH t c by simp
qed simp

lemma close_scan_skips:
  assumes "config_ok cf" "sampler_ok s" "candidate s i" "dget (s_last s) i = Some p"
    and "sc_text sc = Some t" "dget (parse_proc_net_dev t) i = Some c" "sc_mono sc - le_mono p < 1"
  shows "sampled rx_bytes_sampled (snd (sample cf pw sc s)) i = sampled rx_bytes_sampled s i
    \<and> map_option le_counters (dget (s_last (snd (sample cf pw sc s))) i) = Some c"
  using sample_at[OF assms(2,1,3,5,6), of pw] assms(4,7) by (simp add: sampled_def)


section \<open>Properties\<close>

text \<open>C40. While an interface is read at least a second apart and its counters do not fall, the bytes
  sampled for it are exactly the growth of its counters over the scans.\<close>

theorem sampled_bytes_exact:
  assumes "config_ok cf" "sampler_ok s" "candidate s i" "dget (s_last s) i = Some p"
    and "steady i (le_counters p) (le_mono p) scs"
  shows "sampled rx_bytes_sampled (run_scans cf pw scs s) i
       = sampled rx_bytes_sampled s i + (rx (last_reading i (le_counters p) scs) - rx (le_counters p))
     \<and> sampled tx_bytes_sampled (run_scans cf pw scs s) i
       = sampled tx_bytes_sampled s i + (tx (last_reading i (le_counters p) scs) - tx (le_counters p))"
  by (rule run_scans_exact[OF assms])

definition sample_line :: "string \<Rightarrow> string" where
  "sample_line n = ''vnet0: '' @ n @ '' 3 0 0 0 0 0 0 7 2 0 0 0 0 0 0''"

definition sample_scan :: "string \<Rightarrow> rat \<Rightarrow> scan" where
  "sample_scan n m = \<lparr>sc_text = Some (sample_line n), sc_mono = m, sc_wall = 1000 + m, sc_end = m\<rparr>"

definition sample_baseline :: sampler where
  "sample_baseline = snd (sample sample_config 200000 (sample_scan ''100'' 0) (new_sampler 0 1000))"

lemma sample_line_words:
  "words_ws '' 100 3 0 0 0 0 0 0 7 2 0 0 0 0 0 0'' = [''100'', ''3'', ''0'', ''0'', ''0'', ''0'', ''0'', ''0'', ''7'', ''2'', ''0'', ''0'', ''0'', ''0'', ''0'', ''0'']"
  "words_ws '' 150 3 0 0 0 0 0 0 7 2 0 0 0 0 0 0'' = [''150'', ''3'', ''0'', ''0'', ''0'', ''0'', ''0'', ''0'', ''7'', ''2'', ''0'', ''0'', ''0'', ''0'', ''0'', ''0'']"
  "words_ws '' 175 3 0 0 0 0 0 0 7 2 0 0 0 0 0 0'' = [''175'', ''3'', ''0'', ''0'', ''0'', ''0'', ''0'', ''0'', ''7'', ''2'', ''0'', ''0'', ''0'', ''0'', ''0'', ''0'']"
  by (simp_all add: words_ws.simps lstrip_def is_space_def Let_def)

lemma sample_ints:
  "str_safe_int ''100'' 0 = 100" "str_safe_int ''150'' 0 = 150" "str_safe_int ''175'' 0 = 175"
  "str_safe_int ''3'' 0 = 3" "str_safe_int ''7'' 0 = 7" "str_safe_int ''2'' 0 = 2" "str_safe_int ''0'' 0 = 0"
  by code_simp+

lemma sample_line_split: "splitlines (sample_line ''100'') = [sample_line ''100'']" "splitlines (sample_line ''150'') = [sample_line ''150'']"
  "splitlines (sample_line ''175'') = [sample_line ''175'']" "strip ''vnet0'' = ''vnet0''"
  by code_simp+

lemma sample_line_row:
  "CHR '':'' \<in> set (sample_line n)"
  "split1 CHR '':'' (sample_line n) = (''vnet0'', CHR '' '' # n @ '' 3 0 0 0 0 0 0 7 2 0 0 0 0 0 0'')"
  by (simp_all add: sample_line_def split1_def)

lemma sample_lines:
  "dget (parse_proc_net_dev (sample_line ''100'')) ''vnet0'' = Some \<lparr>rx = 100, tx = 7, rx_packets = 3, tx_packets = 2, rx_drop = 0, tx_drop = 0, rx_error = 0, tx_error = 0\<rparr>"
  "dget (parse_proc_net_dev (sample_line ''150'')) ''vnet0'' = Some \<lparr>rx = 150, tx = 7, rx_packets = 3, tx_packets = 2, rx_drop = 0, tx_drop = 0, rx_error = 0, tx_error = 0\<rparr>"
  "dget (parse_proc_net_dev (sample_line ''175'')) ''vnet0'' = Some \<lparr>rx = 175, tx = 7, rx_packets = 3, tx_packets = 2, rx_drop = 0, tx_drop = 0, rx_error = 0, tx_error = 0\<rparr>"
  by (simp_all only: parse_proc_net_dev_def sample_line_split fold_simps parse_proc_net_row_def sample_line_row Let_def)
     (simp_all add: sample_line_split sample_line_words sample_ints)

lemma sample_candidate: "candidate s ''vnet0''"
  unfolding candidate_def by (rule disjI2) code_simp

lemma sample_baseline_last: "dget (s_last sample_baseline) ''vnet0'' = Some \<lparr>le_counters =
    \<lparr>rx = 100, tx = 7, rx_packets = 3, tx_packets = 2, rx_drop = 0, tx_drop = 0, rx_error = 0, tx_error = 0\<rparr>, le_mono = 0, le_wall = 1000, le_seen = 0\<rparr>"
  "dget (s_active sample_baseline) ''vnet0'' = None" "sampler_ok sample_baseline"
proof -
  have ok: "sampler_ok (new_sampler 0 1000)" by (rule new_sampler_ok)
  note at = sample_at[OF ok sample_config_ok sample_candidate, of "sample_scan ''100'' 0" "sample_line ''100''", OF _ sample_lines(1)]
  show "dget (s_last sample_baseline) ''vnet0'' = Some \<lparr>le_counters =
    \<lparr>rx = 100, tx = 7, rx_packets = 3, tx_packets = 2, rx_drop = 0, tx_drop = 0, rx_error = 0, tx_error = 0\<rparr>, le_mono = 0, le_wall = 1000, le_seen = 0\<rparr>"
    "dget (s_active sample_baseline) ''vnet0'' = None"
    using at unfolding sample_baseline_def by (simp_all add: sample_scan_def new_sampler_def)
  show "sampler_ok sample_baseline" unfolding sample_baseline_def by (rule sample_ok[OF ok])
qed

theorem sampled_bytes_exact_witness:
  "sampled rx_bytes_sampled (run_scans sample_config 200000 [sample_scan ''150'' 15, sample_scan ''175'' 30] sample_baseline) ''vnet0'' = 75"
proof -
  have st: "steady ''vnet0'' (le_counters \<lparr>le_counters = \<lparr>rx = 100, tx = 7, rx_packets = 3, tx_packets = 2, rx_drop = 0, tx_drop = 0, rx_error = 0, tx_error = 0\<rparr>, le_mono = 0, le_wall = 1000, le_seen = 0\<rparr>)
      (le_mono \<lparr>le_counters = \<lparr>rx = 100, tx = 7, rx_packets = 3, tx_packets = 2, rx_drop = 0, tx_drop = 0, rx_error = 0, tx_error = 0\<rparr>, le_mono = 0, le_wall = 1000, le_seen = 0\<rparr>)
      [sample_scan ''150'' 15, sample_scan ''175'' 30]"
    by (simp add: sample_scan_def sample_lines)
  show ?thesis
    using sampled_bytes_exact[OF sample_config_ok sample_baseline_last(3) sample_candidate sample_baseline_last(1) st, of 200000]
    by (simp add: sample_scan_def sample_lines sampled_def sample_baseline_last(2))
qed

text \<open>A scan less than a second after the last reading of an interface counts nothing and still
  moves the baseline, so the bytes between the two readings are never sampled.\<close>

theorem close_scan_loses_bytes:
  assumes "config_ok cf" "sampler_ok s" "candidate s i" "dget (s_last s) i = Some p"
    and "sc_text sc = Some t" "dget (parse_proc_net_dev t) i = Some c" "sc_mono sc - le_mono p < 1"
  shows "sampled rx_bytes_sampled (snd (sample cf pw sc s)) i = sampled rx_bytes_sampled s i
    \<and> map_option le_counters (dget (s_last (snd (sample cf pw sc s))) i) = Some c"
  by (rule close_scan_skips[OF assms])

theorem close_scan_loses_bytes_witness:
  "sampled rx_bytes_sampled (snd (sample sample_config 200000 (sample_scan ''150'' (1/2)) sample_baseline)) ''vnet0'' = 0
   \<and> map_option (\<lambda>p. rx (le_counters p)) (dget (s_last (snd (sample sample_config 200000 (sample_scan ''150'' (1/2)) sample_baseline))) ''vnet0'') = Some 150"
proof -
  have t: "sc_text (sample_scan ''150'' (1/2)) = Some (sample_line ''150'')" by (simp add: sample_scan_def)
  have c: "sc_mono (sample_scan ''150'' (1/2)) - le_mono \<lparr>le_counters =
    \<lparr>rx = 100, tx = 7, rx_packets = 3, tx_packets = 2, rx_drop = 0, tx_drop = 0, rx_error = 0, tx_error = 0\<rparr>, le_mono = 0, le_wall = 1000, le_seen = 0\<rparr> < 1"
    by (simp add: sample_scan_def)
  show ?thesis
    using close_scan_loses_bytes[OF sample_config_ok sample_baseline_last(3) sample_candidate sample_baseline_last(1) t sample_lines(2) c, of 200000]
    by (auto simp: sampled_def sample_baseline_last(2))
qed

text \<open>The sampler stays bounded and consistent: after a scan that read the counters every tracked
  interface was seen within the time limit and a record exists only for a tracked interface; in every
  record the peaks and the seconds over the thresholds agree with one another.\<close>

theorem sampler_bounded:
  assumes "sampler_ok s"
  shows "sampler_ok (snd (sample cf pw sc s)) \<and> sampler_ok (snd (rotate cf pw sc m w s))
    \<and> (fst (sample cf pw sc s) \<longrightarrow> (\<forall>(i, p) \<in> set (s_last (snd (sample cf pw sc s))). fresh cf (sc_mono sc) p))"
  using sample_ok[OF assms] rotate_ok[OF assms] sample_fresh by blast

theorem sampler_bounded_witness:
  "sampler_ok (snd (sample sample_config 200000 (sample_scan ''150'' 15) sample_baseline))
   \<and> fst (sample sample_config 200000 (sample_scan ''150'' 15) sample_baseline)
   \<and> sampler_ok (snd (rotate sample_config 200000 (sample_scan ''150'' 15) 15 1015 sample_baseline))"
  using sampler_bounded[OF sample_baseline_last(3), of sample_config 200000 "sample_scan ''150'' 15" 15 1015]
  by (simp add: sample_def sample_scan_def Let_def)

text \<open>The sampling loop never falls into a burst: the next deadline is not in the past, at least one
  period after the last one, and no later than one period from now or from the last deadline.\<close>

theorem no_catch_up_burst:
  assumes "config_ok cf"
  shows "now \<le> next_deadline cf d now \<and> d + of_int (c_sample_seconds cf) \<le> next_deadline cf d now
    \<and> next_deadline cf d now \<le> max (d + of_int (c_sample_seconds cf)) (now + of_int (c_sample_seconds cf))"
  using next_deadline_bounds[OF assms] by blast

theorem no_catch_up_burst_witness:
  "next_deadline sample_config 15 100 = 115 \<and> 100 \<le> next_deadline sample_config 15 100"
  using no_catch_up_burst[OF sample_config_ok, of 100 15] by (simp add: next_deadline_def)

text \<open>Pushes are aligned to the wall clock: the next boundary is a multiple of the push interval,
  later than now and later than the boundary that was just served.\<close>

theorem boundaries_aligned:
  assumes "config_ok cf" "0 \<le> now" "c_push_seconds cf dvd b"
  shows "c_push_seconds cf dvd next_wall_boundary cf now \<and> now < of_int (next_wall_boundary cf now)
    \<and> of_int (next_wall_boundary cf now) \<le> now + of_int (c_push_seconds cf)
    \<and> c_push_seconds cf dvd advance_boundary cf b now \<and> now < of_int (advance_boundary cf b now) \<and> b < advance_boundary cf b now"
  using next_wall_boundary_bounds[OF assms(1,2)] advance_boundary_ok[OF assms] by blast

theorem boundaries_aligned_witness:
  "next_wall_boundary sample_config 1000 = 1200 \<and> advance_boundary sample_config 600 1000 = 1200 \<and> 600 < advance_boundary sample_config 600 1000"
  using boundaries_aligned[OF sample_config_ok, of 1000 600]
  by (simp add: next_wall_boundary_def advance_boundary_def trunc_def)

end
