(* ===== verification/Agent_Collect.thy ===== *)
theory Agent_Collect
  imports Agent_Storage Agent_Sampler
begin

text \<open>
  One collection cycle of the agent (deploy/agent/agent.py): the traffic of the domains'
  interfaces, their CPU, memory and disks, the host, the uplinks of the bridges, the completion of
  the rows with the sampled window, the removal of old entries and \<open>collect_cycle_payload\<close>. The
  state is the JSON object of state.json; its entries are objects, as the agent writes them. The
  wall-clock timings of the health report are not modelled.
\<close>

type_synonym state = "pyval dict"

definition entry :: "state \<Rightarrow> string \<Rightarrow> pyval dict" where
  "entry st k = as_dict (dget_or st k (PDict []))"

section \<open>Traffic of the interfaces\<close>

record net_row =
  nr_vm :: string
  nr_iface :: string
  nr_bridge :: string
  nr_mac :: string
  nr_delta :: counters

definition net_key :: "string \<Rightarrow> string \<Rightarrow> string" where
  "net_key vm iface = ''net:'' @ vm @ '':'' @ iface"

text \<open>An entry under the key of older agents is used when there is none under the new one.\<close>

definition old_net_entry :: "state \<Rightarrow> string \<Rightarrow> string \<Rightarrow> pyval dict" where
  "old_net_entry st vm iface =
     (case get_none st (net_key vm iface) of
        PNone \<Rightarrow> entry st (vm @ '':'' @ iface)
      | v \<Rightarrow> as_dict v)"

definition net_nic :: "env \<Rightarrow> string \<Rightarrow> nic \<Rightarrow> net_row list \<times> state \<Rightarrow> net_row list \<times> state" where
  "net_nic e vm n rs = (let (rows, st) = rs in
     (case collect_interface_counters e (n_iface n) of
        None \<Rightarrow> (rows, st)
      | Some c \<Rightarrow>
          (rows @ [\<lparr>nr_vm = vm, nr_iface = n_iface n, nr_bridge = n_bridge n, nr_mac = n_mac n,
                    nr_delta = counter_deltas c (old_net_entry st vm (n_iface n))\<rparr>],
           dset st (net_key vm (n_iface n)) (PDict (counters_dict c)))))"

fun net_vms :: "env \<Rightarrow> string list \<Rightarrow> net_row list \<times> state \<Rightarrow> health \<Rightarrow> (net_row list \<times> state) \<times> health" where
  "net_vms e [] rs h = (rs, h)"
| "net_vms e (vm # vms) rs h =
     (let (nics, h1) = parse_domiflist e vm h in net_vms e vms (fold (net_nic e vm) nics rs) h1)"

definition collect_network :: "env \<Rightarrow> string list \<Rightarrow> state \<Rightarrow> health \<Rightarrow> (net_row list \<times> state) \<times> health" where
  "collect_network e vms st h = net_vms e vms ([], st) h"

record iface_meta_entry =
  im_vm :: string
  im_bridge :: string
  im_mac :: string

definition build_iface_map :: "net_row list \<Rightarrow> iface_meta_entry dict" where
  "build_iface_map rows = fold (\<lambda>r m.
     let iface = strip (nr_iface r); vm = strip (nr_vm r) in
     if iface = [] \<or> vm = [] then m
     else dset m iface \<lparr>im_vm = vm, im_bridge = str_or (nr_bridge r) ''-'', im_mac = nr_mac r\<rparr>) rows []"

definition mapped_nic :: "env \<Rightarrow> string \<times> iface_meta_entry \<Rightarrow> net_row list \<times> state \<Rightarrow> net_row list \<times> state" where
  "mapped_nic e im rs = (let (iface, meta) = im; (rows, st) = rs; vm = strip (im_vm meta) in
     if vm = [] then (rows, st)
     else (case collect_interface_counters e iface of
        None \<Rightarrow> (rows, st)
      | Some c \<Rightarrow>
          (rows @ [\<lparr>nr_vm = vm, nr_iface = iface, nr_bridge = str_or (im_bridge meta) ''-'', nr_mac = im_mac meta,
                    nr_delta = counter_deltas c (entry st (net_key vm iface))\<rparr>],
           dset st (net_key vm iface) (PDict (counters_dict c)))))"

definition collect_network_from_mapping :: "env \<Rightarrow> iface_meta_entry dict \<Rightarrow> state \<Rightarrow> net_row list \<times> state" where
  "collect_network_from_mapping e m st = fold (mapped_nic e) (sort_key fst m) ([], st)"

section \<open>CPU, memory and disks of the domains\<close>

definition cloud_images :: "string list" where
  "cloud_images = [''cloud-drive.img'', ''config-drive.img'', ''cloudinit.img'', ''seed.img'', ''cidata.img'']"

definition classify_vm_disk :: "string \<Rightarrow> string \<Rightarrow> string" where
  "classify_vm_disk target0 source0 =
     (let source = strip source0; target = strip target0; filename = lower (basename source) in
      if source = [] then ''auxiliary''
      else if filename \<in> set cloud_images then ''auxiliary''
      else if contains ''/vf-data/server/'' source \<and> ends_with ''.img'' filename then ''auxiliary''
      else if ends_with ''.iso'' filename
           \<or> ((starts_with ''sd'' target \<or> starts_with ''hd'' target) \<and> contains ''cloud-drive'' filename)
        then ''auxiliary''
      else ''customer'')"

record vm_disk =
  d_index :: int
  d_target :: string
  d_source :: string
  d_role :: string
  d_place :: "mount_item option"
  d_capacity :: int
  d_allocation :: int
  d_physical :: int
  d_read :: int
  d_write :: int
  d_read_reqs :: int
  d_write_reqs :: int
  d_interval :: int

record vm_row =
  v_uuid :: string
  v_vcpu :: int
  v_cpu_core_percent :: rat
  v_cpu_normalized_percent :: rat
  v_ram_current :: int
  v_ram_maximum :: int
  v_ram_rss :: int
  v_ram_available :: int
  v_ram_unused :: int
  v_ram_usable :: int
  v_disk_read :: int
  v_disk_write :: int
  v_disk_read_reqs :: int
  v_disk_write_reqs :: int
  v_disk_count :: nat
  v_disks :: "vm_disk list"

definition stat_int :: "domstats \<Rightarrow> string \<Rightarrow> int" where
  "stat_int d k = safe_int (stat_text d k) 0"

definition block_indexes :: "domstats \<Rightarrow> string list" where
  "block_indexes stats =
     sort_key (\<lambda>s. str_safe_int s 0)
       (remdups (List.map_filter (\<lambda>kv.
          let p = split_on CHR ''.'' (fst kv) in
          if starts_with ''block.'' (fst kv) \<and> 3 \<le> length p \<and> isdigit (p ! 1) then Some (p ! 1) else None) stats))"

text \<open>One block device: its item and the counters to store under its identity.\<close>

definition vm_block :: "env \<Rightarrow> mount_item list \<Rightarrow> domstats \<Rightarrow> pyval dict \<Rightarrow> int \<Rightarrow> string
    \<Rightarrow> vm_disk \<times> string \<times> pyval" where
  "vm_block e mounts stats old_disks interval idx =
     (let prefix = ''block.'' @ idx;
          txt = (\<lambda>k. case dget stats (prefix @ k) of None \<Rightarrow> [] | Some s \<Rightarrow> strip s);
          target = txt ''.name''; source = txt ''.path'';
          rb = stat_int stats (prefix @ ''.rd.bytes''); wb = stat_int stats (prefix @ ''.wr.bytes'');
          rr = stat_int stats (prefix @ ''.rd.reqs''); wr = stat_int stats (prefix @ ''.wr.reqs'');
          identity = target @ ''|'' @ source;
          old = as_dict (dget_or old_disks identity (PDict [])) in
      (\<lparr>d_index = str_safe_int idx 0, d_target = target, d_source = source,
        d_role = classify_vm_disk target source,
        d_place = map_source_to_mount e source mounts,
        d_capacity = stat_int stats (prefix @ ''.capacity''),
        d_allocation = stat_int stats (prefix @ ''.allocation''),
        d_physical = stat_int stats (prefix @ ''.physical''),
        d_read = delta_vs rb old ''read_bytes'', d_write = delta_vs wb old ''write_bytes'',
        d_read_reqs = delta_vs rr old ''read_reqs'', d_write_reqs = delta_vs wr old ''write_reqs'',
        d_interval = interval\<rparr>,
       identity,
       PDict [(''read_bytes'', PInt rb), (''write_bytes'', PInt wb), (''read_reqs'', PInt rr), (''write_reqs'', PInt wr)]))"

definition is_customer :: "vm_disk \<Rightarrow> bool" where
  "is_customer d = (d_role d = ''customer'')"

definition customer_sum :: "(vm_disk \<Rightarrow> int) \<Rightarrow> vm_disk list \<Rightarrow> int" where
  "customer_sum f ds = sum_list (map f (filter is_customer ds))"

definition vm_perf_row :: "env \<Rightarrow> mount_item list \<Rightarrow> string \<times> domstats \<Rightarrow> state \<Rightarrow> vm_row \<times> state" where
  "vm_perf_row e mounts block st =
     (let (uuid, stats) = block;
          times = filter (\<lambda>kv. starts_with ''vcpu.'' (fst kv) \<and> ends_with ''.time'' (fst kv)) stats;
          vcpu_time = sum_list (map (\<lambda>kv. str_safe_int (snd kv) 0) times);
          vcpu0 = stat_int stats ''vcpu.current'';
          vcpu = (if vcpu0 \<le> 0 then int (length times) else vcpu0);
          key = ''perf:'' @ uuid;
          old = entry st key;
          old_time = safe_int (get_none old ''time'') (now_ts e);
          interval = max 1 (now_ts e - old_time);
          cpu_delta = delta_vs vcpu_time old ''vcpu_time_ns'';
          core = max 0 (of_int cpu_delta / of_int interval / 1000000000 * 100) :: rat;
          norm = (if 0 < vcpu then max 0 (min 100 (core / of_int vcpu)) else 0);
          old_disks = as_dict (py_or (get_none old ''disks'') (PDict []));
          blocks = map (vm_block e mounts stats old_disks interval) (block_indexes stats);
          disks = map fst blocks in
      (\<lparr>v_uuid = uuid, v_vcpu = vcpu, v_cpu_core_percent = round_dec 2 core,
        v_cpu_normalized_percent = round_dec 2 norm,
        v_ram_current = stat_int stats ''balloon.current'', v_ram_maximum = stat_int stats ''balloon.maximum'',
        v_ram_rss = stat_int stats ''balloon.rss'', v_ram_available = stat_int stats ''balloon.available'',
        v_ram_unused = stat_int stats ''balloon.unused'', v_ram_usable = stat_int stats ''balloon.usable'',
        v_disk_read = customer_sum d_read disks, v_disk_write = customer_sum d_write disks,
        v_disk_read_reqs = customer_sum d_read_reqs disks, v_disk_write_reqs = customer_sum d_write_reqs disks,
        v_disk_count = length (filter is_customer disks), v_disks = disks\<rparr>,
       dset st key (PDict [(''time'', PInt (now_ts e)), (''vcpu_time_ns'', PInt vcpu_time),
         (''disks'', PDict (fold (\<lambda>b d. dset d (fst (snd b)) (snd (snd b))) blocks []))])))"

fun vm_perf_rows :: "env \<Rightarrow> mount_item list \<Rightarrow> (string \<times> domstats) list \<Rightarrow> state \<Rightarrow> vm_row list \<times> state" where
  "vm_perf_rows e mounts [] st = ([], st)"
| "vm_perf_rows e mounts (b # bs) st =
     (let (r, st1) = vm_perf_row e mounts b st; (rs, st2) = vm_perf_rows e mounts bs st1 in (r # rs, st2))"

definition domstats_command :: "string list" where
  "domstats_command = [''virsh'', ''domstats'', ''--list-active'', ''--vcpu'', ''--balloon'', ''--block'']"

definition collect_vm_perf :: "env \<Rightarrow> state \<Rightarrow> health \<Rightarrow> (vm_row list \<times> state) \<times> health" where
  "collect_vm_perf e st h = (case run_cmd e domstats_command of
      Inl exc \<Rightarrow> (([], st), add_error h (''virsh domstats failed: '' @ exc))
    | Inr out \<Rightarrow>
        (vm_perf_rows e (parse_mount_inventory e (collect_filesystems e (mount_points e)))
           (split_domstats_blocks out) st, h))"

section \<open>The host\<close>

record block_delta =
  bd_read :: int
  bd_write :: int
  bd_read_ios :: int
  bd_write_ios :: int
  bd_io_ms :: int
  bd_weighted :: int

definition no_delta :: block_delta where
  "no_delta = \<lparr>bd_read = 0, bd_write = 0, bd_read_ios = 0, bd_write_ios = 0, bd_io_ms = 0, bd_weighted = 0\<rparr>"

definition block_key :: "string \<Rightarrow> string" where
  "block_key b = ''host:block:'' @ b"

definition block_stats_dict :: "block_stats \<Rightarrow> int \<Rightarrow> pyval dict" where
  "block_stats_dict s now = [(''read_ios'', PInt (b_read_ios s)), (''read_bytes'', PInt (b_read_bytes s)),
     (''read_ms'', PInt (b_read_ms s)), (''write_ios'', PInt (b_write_ios s)), (''write_bytes'', PInt (b_write_bytes s)),
     (''write_ms'', PInt (b_write_ms s)), (''io_in_progress'', PInt (b_io_in_progress s)), (''io_ms'', PInt (b_io_ms s)),
     (''weighted_io_ms'', PInt (b_weighted_io_ms s)), (''time'', PInt now)]"

definition read_block_delta :: "env \<Rightarrow> string \<Rightarrow> state \<Rightarrow> block_delta \<times> state" where
  "read_block_delta e block st = (case read_block_stats e block of
      None \<Rightarrow> (no_delta, st)
    | Some c \<Rightarrow>
        (let old = entry st (block_key block) in
         (\<lparr>bd_read = delta_vs (b_read_bytes c) old ''read_bytes'', bd_write = delta_vs (b_write_bytes c) old ''write_bytes'',
           bd_read_ios = delta_vs (b_read_ios c) old ''read_ios'', bd_write_ios = delta_vs (b_write_ios c) old ''write_ios'',
           bd_io_ms = delta_vs (b_io_ms c) old ''io_ms'', bd_weighted = delta_vs (b_weighted_io_ms c) old ''weighted_io_ms''\<rparr>,
          dset st (block_key block) (PDict (block_stats_dict c (now_ts e))))))"

record storage_row =
  s_fs :: fs_row
  s_block :: string
  s_raid :: string
  s_delta :: block_delta
  s_read_bps :: rat
  s_write_bps :: rat
  s_read_iops :: rat
  s_write_iops :: rat
  s_util_percent :: rat

definition per_second :: "int \<Rightarrow> int \<Rightarrow> rat" where
  "per_second x interval = (if 0 < interval then of_int x / of_int interval else 0)"

definition storage_row_of :: "env \<Rightarrow> int \<Rightarrow> fs_row \<Rightarrow> string \<Rightarrow> block_delta \<Rightarrow> storage_row" where
  "storage_row_of e interval fs block d = \<lparr>s_fs = fs, s_block = block,
     s_raid = (if block \<noteq> [] then md_raid_level e block else []), s_delta = d,
     s_read_bps = per_second (bd_read d) interval, s_write_bps = per_second (bd_write d) interval,
     s_read_iops = per_second (bd_read_ios d) interval, s_write_iops = per_second (bd_write_ios d) interval,
     s_util_percent = (if 0 < interval then min 100 (of_int (bd_io_ms d) / of_int (interval * 10)) else 0)\<rparr>"

text \<open>
  The loop over the file systems: \<open>block_samples\<close> caches the deltas of a block that was read, so
  its keys are also the blocks counted in the node totals.
\<close>

fun storage_loop :: "env \<Rightarrow> int \<Rightarrow> fs_row list \<Rightarrow> block_delta dict \<Rightarrow> state
    \<Rightarrow> storage_row list \<times> block_delta dict \<times> state" where
  "storage_loop e interval [] samples st = ([], samples, st)"
| "storage_loop e interval (fs # rest) samples st =
     (let block = (case device_to_block_name e (f_device fs) (f_maj_min fs) of None \<Rightarrow> [] | Some b \<Rightarrow> b);
          (d, samples1, st1) =
            (if block = [] then (no_delta, samples, st)
             else (case dget samples block of
                 Some d \<Rightarrow> (d, samples, st)
               | None \<Rightarrow> (let (d, st') = read_block_delta e block st in (d, dset samples block d, st'))));
          (rows, samples2, st2) = storage_loop e interval rest samples1 st1 in
      (storage_row_of e interval fs block d # rows, samples2, st2))"

definition samples_total :: "(block_delta \<Rightarrow> int) \<Rightarrow> block_delta dict \<Rightarrow> int" where
  "samples_total f samples = sum_list (map (\<lambda>p. f (snd p)) samples)"

record node_host =
  h_load :: "rat \<times> rat \<times> rat"
  h_cpu_count :: int
  h_cpu_percent :: rat
  h_mem :: "int \<times> int \<times> int \<times> int \<times> int"
  h_disk_read :: int
  h_disk_write :: int
  h_disk_read_ios :: int
  h_disk_write_ios :: int
  h_disk_read_bps :: rat
  h_disk_write_bps :: rat
  h_uptime :: int
  h_filesystems :: "fs_row list"
  h_storage :: "storage_row list"

definition host_cpu_percent :: "int \<Rightarrow> int \<Rightarrow> rat" where
  "host_cpu_percent delta_total delta_idle =
     (if 0 < delta_total
      then max 0 (min 100 (of_int (delta_total - delta_idle) / of_int delta_total * 100)) else 0)"

definition collect_node_host :: "env \<Rightarrow> state \<Rightarrow> int \<Rightarrow> node_host \<times> state" where
  "collect_node_host e st interval =
     (let (l1, l5, l15) = parse_loadavg e;
          (cpu_total, cpu_idle) = parse_proc_stat_cpu e;
          old = entry st ''host:cpu'';
          delta_total = delta_counter (PInt cpu_total) (PInt (safe_int (get_none old ''total'') cpu_total));
          delta_idle = delta_counter (PInt cpu_idle) (PInt (safe_int (get_none old ''idle'') cpu_idle));
          st1 = dset st ''host:cpu'' (PDict [(''total'', PInt cpu_total), (''idle'', PInt cpu_idle), (''time'', PInt (now_ts e))]);
          filesystems = collect_filesystems e (mount_points e) @ collect_swap_filesystems e;
          (rows, samples, st2) = storage_loop e interval filesystems [] st1;
          tr = samples_total bd_read samples; tw = samples_total bd_write samples in
      (\<lparr>h_load = (round_dec 2 l1, round_dec 2 l5, round_dec 2 l15), h_cpu_count = cpu_count_of e,
        h_cpu_percent = round_dec 2 (host_cpu_percent delta_total delta_idle), h_mem = parse_meminfo e,
        h_disk_read = tr, h_disk_write = tw,
        h_disk_read_ios = samples_total bd_read_ios samples, h_disk_write_ios = samples_total bd_write_ios samples,
        h_disk_read_bps = round_dec 2 (per_second tr interval), h_disk_write_bps = round_dec 2 (per_second tw interval),
        h_uptime = parse_uptime_seconds e, h_filesystems = filesystems, h_storage = rows\<rparr>, st2))"

end
