(* ===== verification/Agent_Cycle.thy ===== *)
theory Agent_Cycle
  imports Agent_Collect
begin

text \<open>
  The rest of one cycle of the agent (deploy/agent/agent.py): the uplinks of the bridges, the rows
  completed with the sampled window, the removal of entries of interfaces and domains that are
  gone, and \<open>collect_cycle_payload\<close> itself. The lemmas say which entries of the state each
  step may touch, and that the deltas a payload reports for an interface are exactly the growth
  of its counters since the state the cycle started from.
\<close>

section \<open>Uplinks of the bridges\<close>

definition vm_like_prefixes :: "string list" where
  "vm_like_prefixes = [''vnet'', ''tap'', ''tun'', ''veth'', ''virbr'', ''fwbr'', ''fwpr'', ''fwln'', ''qvb'', ''qvo'', ''qbr'']"

definition is_bridge_member_candidate_uplink :: "env \<Rightarrow> string \<Rightarrow> bool" where
  "is_bridge_member_candidate_uplink e iface =
     (let l = lower iface; base = ''/sys/class/net/'' @ iface in
      if iface = [] \<or> isdigit iface then False
      else if list_ex (\<lambda>p. starts_with p l) vm_like_prefixes then False
      else if \<not> path_exists e base then False
      else if path_exists e (base @ ''/device'') then True
      else if path_exists e (''/proc/net/bonding/'' @ iface) then True
      else if path_exists e (base @ ''/bonding'') then True
      else if path_exists e (''/proc/net/vlan/'' @ iface) then True
      else (case dir_names e base of
          None \<Rightarrow> False
        | Some names \<Rightarrow> list_ex (starts_with ''lower_'') names
            \<and> \<not> list_ex (\<lambda>p. starts_with p l) [''docker'', ''br-'', ''cni'', ''flannel'']))"

definition bridge_member_ifaces :: "env \<Rightarrow> string \<Rightarrow> string list" where
  "bridge_member_ifaces e bridge =
     (let brif = ''/sys/class/net/'' @ bridge @ ''/brif'' in
      if \<not> path_exists e brif then []
      else (case dir_names e brif of None \<Rightarrow> [] | Some names \<Rightarrow> sort names))"

record phys_row =
  p_role :: string
  p_bridge :: string
  p_iface :: string
  p_interval :: int
  p_delta :: counters
  p_counters :: counters
  p_meta :: iface_meta
  p_bridge_ipv4 :: "string list"
  p_bridge_primary :: string

definition phys_key :: "string \<Rightarrow> string \<Rightarrow> string \<Rightarrow> string" where
  "phys_key role bridge iface = ''physnet:'' @ role @ '':'' @ bridge @ '':'' @ iface"

text \<open>The last row of a role and bridge, as the dictionary \<open>address_map\<close> keeps it.\<close>

definition bridge_addresses_of :: "bridge_row list \<Rightarrow> string \<Rightarrow> string \<Rightarrow> string list \<times> string" where
  "bridge_addresses_of rows role bridge =
     (case find (\<lambda>r. lower (br_role r) = role \<and> br_bridge r = bridge) (rev rows) of
        None \<Rightarrow> ([], []) | Some r \<Rightarrow> (br_ipv4 r, br_primary r))"

fun phys_uplinks :: "env \<Rightarrow> int \<Rightarrow> bridge_row list \<Rightarrow> string \<Rightarrow> string \<Rightarrow> string list \<Rightarrow> state \<Rightarrow> health
    \<Rightarrow> (phys_row list \<times> state) \<times> health" where
  "phys_uplinks e interval addrs role bridge [] st h = (([], st), h)"
| "phys_uplinks e interval addrs role bridge (iface # rest) st h =
     (case collect_interface_counters e iface of
        None \<Rightarrow> phys_uplinks e interval addrs role bridge rest st
            (add_error h (''cannot read counters for physical iface '' @ role @ '':'' @ bridge @ '':'' @ iface))
      | Some c \<Rightarrow>
          (let key = phys_key role bridge iface; (ips, prim) = bridge_addresses_of addrs role bridge;
               row = \<lparr>p_role = role, p_bridge = bridge, p_iface = iface, p_interval = interval,
                 p_delta = counter_deltas c (entry st key), p_counters = c, p_meta = iface_metadata e iface,
                 p_bridge_ipv4 = ips, p_bridge_primary = prim\<rparr>;
               ((rows, st2), h2) = phys_uplinks e interval addrs role bridge rest
                 (dset st key (PDict (counters_dict c))) h in
           ((row # rows, st2), h2)))"

fun phys_roles :: "config \<Rightarrow> env \<Rightarrow> int \<Rightarrow> bridge_row list \<Rightarrow> (string \<times> string) list \<Rightarrow> state \<Rightarrow> health
    \<Rightarrow> (phys_row list \<times> state) \<times> health" where
  "phys_roles cf e interval addrs [] st h = (([], st), h)"
| "phys_roles cf e interval addrs ((role, bridge) # rest) st h =
     (let members = bridge_member_ifaces e bridge;
          uplinks = filter (is_bridge_member_candidate_uplink e) members in
      if members = [] then
        phys_roles cf e interval addrs rest st (record_bridge_unavailable cf h role bridge
          (if path_exists e (''/sys/class/net/'' @ bridge) then ''no_members'' else ''not_configured''))
      else if uplinks = [] then
        phys_roles cf e interval addrs rest st (record_bridge_unavailable cf h role bridge ''no_uplink'')
      else
        (let ((rows, st1), h1) = phys_uplinks e interval addrs role bridge uplinks st h;
             ((rows2, st2), h2) = phys_roles cf e interval addrs rest st1 h1 in
         ((rows @ rows2, st2), h2)))"

definition collect_physical_network :: "config \<Rightarrow> env \<Rightarrow> state \<Rightarrow> int \<Rightarrow> health \<Rightarrow> bridge_row list
    \<Rightarrow> (phys_row list \<times> state) \<times> health" where
  "collect_physical_network cf e st interval h addrs =
     phys_roles cf e interval addrs (parse_bridge_roles (c_bridge_roles cf)) st h"

section \<open>Rows completed with the sampled window\<close>

record hydrated_row = net_row +
  hy_interval :: int
  hy_rx_mbps_peak :: rat
  hy_tx_mbps_peak :: rat
  hy_total_mbps_peak :: rat
  hy_rx_pps_peak :: rat
  hy_tx_pps_peak :: rat
  hy_total_pps_peak :: rat
  hy_rx_packet_size :: rat
  hy_tx_packet_size :: rat
  hy_sample_count :: int
  hy_sample_expected :: int
  hy_max_gap :: rat
  hy_quality :: quality
  hy_pps_warn :: rat
  hy_seconds_over_pps :: int
  hy_seconds_over_mbps :: int
  hy_seconds_over_rx_pps :: int
  hy_seconds_over_tx_pps :: int
  hy_seconds_over_rx_mbps :: int
  hy_seconds_over_tx_mbps :: int

definition iface_summary :: "pyval dict \<Rightarrow> string \<Rightarrow> pyval dict" where
  "iface_summary window iface = as_dict (get_none (window_ifaces window) iface)"

definition avg_mbps :: "int \<Rightarrow> int \<Rightarrow> rat" where
  "avg_mbps delta interval = of_int (max 0 delta) * 8 / of_int interval / 1000000"

definition avg_pps :: "int \<Rightarrow> int \<Rightarrow> rat" where
  "avg_pps delta interval = of_int (max 0 delta) / of_int interval"

definition hydrate_row :: "rat \<Rightarrow> int \<Rightarrow> pyval dict \<Rightarrow> net_row \<Rightarrow> hydrated_row" where
  "hydrate_row pps_warn interval window row =
     (let s = iface_summary window (nr_iface row); d = nr_delta row;
          rx_mbps = avg_mbps (rx d) interval; tx_mbps = avg_mbps (tx d) interval;
          rx_pps = avg_pps (rx_packets d) interval; tx_pps = avg_pps (tx_packets d) interval;
          size_avg = (\<lambda>b p. if 0 < p then round_dec 2 (of_int (max 0 b) / of_int p) else 0);
          seconds = (\<lambda>k. round_even (max 0 (num s k))) in
      \<lparr>nr_vm = nr_vm row, nr_iface = nr_iface row, nr_bridge = nr_bridge row, nr_mac = nr_mac row,
       nr_delta = d, hy_interval = interval,
       hy_rx_mbps_peak = round_dec 3 (max rx_mbps (num s ''rx_mbps_peak'')),
       hy_tx_mbps_peak = round_dec 3 (max tx_mbps (num s ''tx_mbps_peak'')),
       hy_total_mbps_peak = round_dec 3 (max (rx_mbps + tx_mbps) (num s ''total_mbps_peak'')),
       hy_rx_pps_peak = round_dec 3 (max rx_pps (num s ''rx_pps_peak'')),
       hy_tx_pps_peak = round_dec 3 (max tx_pps (num s ''tx_pps_peak'')),
       hy_total_pps_peak = round_dec 3 (max (rx_pps + tx_pps) (num s ''total_pps_peak'')),
       hy_rx_packet_size = size_avg (rx d) (rx_packets d), hy_tx_packet_size = size_avg (tx d) (tx_packets d),
       hy_sample_count = max 0 (int_of s ''sample_count''), hy_sample_expected = max 0 (int_of s ''sample_expected''),
       hy_max_gap = round_dec 3 (max 0 (num s ''sample_max_gap_seconds'')),
       hy_quality = clean_quality (get_none s ''sample_quality''), hy_pps_warn = round_dec 3 pps_warn,
       hy_seconds_over_pps = seconds ''seconds_over_pps'', hy_seconds_over_mbps = seconds ''seconds_over_mbps'',
       hy_seconds_over_rx_pps = seconds ''seconds_over_rx_pps'', hy_seconds_over_tx_pps = seconds ''seconds_over_tx_pps'',
       hy_seconds_over_rx_mbps = seconds ''seconds_over_rx_mbps'', hy_seconds_over_tx_mbps = seconds ''seconds_over_tx_mbps''\<rparr>)"

definition hydrate_network_rows :: "rat \<Rightarrow> net_row list \<Rightarrow> pyval dict \<Rightarrow> int \<Rightarrow> hydrated_row list" where
  "hydrate_network_rows pps_warn rows window interval = map (hydrate_row pps_warn (max 1 interval) window) rows"

section \<open>Dropping the entries of what is gone\<close>

definition prunable :: "string list \<Rightarrow> string list \<Rightarrow> string \<Rightarrow> bool" where
  "prunable net_keys vm_uuids key =
     (if starts_with ''net:'' key \<and> key \<notin> set net_keys then True
      else starts_with ''perf:'' key \<and> snd (split1 CHR '':'' key) \<notin> set vm_uuids)"

definition prune_metric_state :: "state \<Rightarrow> string list \<Rightarrow> string list \<Rightarrow> bool \<Rightarrow> state" where
  "prune_metric_state st net_keys vm_uuids full =
     (if \<not> full then st else filter (\<lambda>(k, v). \<not> prunable net_keys vm_uuids k) st)"

section \<open>The payload of a cycle\<close>

record payload =
  pl_node :: string
  pl_time :: int
  pl_interval :: int
  pl_interfaces :: "hydrated_row list"
  pl_vms :: "vm_row list"
  pl_node_host :: "node_host option"
  pl_vm_inventory :: "string list"
  pl_inventory_complete :: bool
  pl_physical :: "phys_row list"
  pl_bridges :: "bridge_row list"
  pl_health :: health
  pl_load_high :: bool
  pl_heavy_skipped :: bool

definition cycle_interval :: "config \<Rightarrow> state \<Rightarrow> int \<Rightarrow> int" where
  "cycle_interval cf st now =
     (let last = safe_int (get_none st ''_last_payload_time'') 0;
          interval = (if 0 < last then now - last else c_push_seconds cf) in
      if interval \<le> 0 then c_push_seconds cf else interval)"

record inventory =
  iv_names :: "string list"
  iv_complete :: bool
  iv_rows :: "net_row list"
  iv_vms :: "vm_row list"
  iv_state :: state
  iv_map :: "iface_meta_entry dict"
  iv_health :: health

text \<open>The branch under explicit load shedding: only the known interfaces are read.\<close>

definition light_inventory :: "config \<Rightarrow> env \<Rightarrow> iface_meta_entry dict \<Rightarrow> state \<Rightarrow> health \<Rightarrow> inventory" where
  "light_inventory cf e m st h =
     (let (rows, st1) = (if c_collect_vm_net cf then collect_network_from_mapping e m st else ([], st)) in
      \<lparr>iv_names = sort (remdups (filter (\<lambda>v. v \<noteq> []) (map (\<lambda>p. im_vm (snd p)) m))), iv_complete = False,
       iv_rows = rows, iv_vms = [], iv_state = st1, iv_map = m, iv_health = h\<rparr>)"

definition full_inventory :: "config \<Rightarrow> env \<Rightarrow> iface_meta_entry dict \<Rightarrow> state \<Rightarrow> health \<Rightarrow> inventory" where
  "full_inventory cf e m st h =
     (let ((names, full), h1) = get_vm_names e h;
          ((rows, st1), h2) = (if c_collect_vm_net cf then collect_network e names st h1 else (([], st), h1));
          ((vms, st2), h3) = (if c_collect_vm_perf cf then collect_vm_perf e st1 h2 else (([], st1), h2));
          new_map = build_iface_map rows;
          st3 = prune_metric_state st2 (map (\<lambda>r. net_key (nr_vm r) (nr_iface r)) rows) names full in
      \<lparr>iv_names = names, iv_complete = full, iv_rows = rows, iv_vms = vms, iv_state = st3,
       iv_map = (if new_map \<noteq> [] \<or> full then new_map else m), iv_health = h3\<rparr>)"

text \<open>
  \<open>load_note\<close> is the text of the note for a high load; its number formatting is left to the
  caller. The result is the payload, the state to commit once it is delivered, and the new map.
\<close>

definition collect_cycle_payload :: "config \<Rightarrow> rat \<Rightarrow> string \<Rightarrow> env \<Rightarrow> state \<Rightarrow> iface_meta_entry dict
    \<Rightarrow> pyval dict \<Rightarrow> (payload \<times> state) \<times> iface_meta_entry dict" where
  "collect_cycle_payload cf pps_warn load_note e committed m window =
     (let now = now_ts e; interval = cycle_interval cf committed now;
          (load1, l5, l15) = parse_loadavg e;
          load_high = (0 < c_max_load cf \<and> c_max_load cf < load1);
          skipped = (load_high \<and> c_skip_heavy cf);
          h0 = (if load_high then add_note empty_health load_note else empty_health);
          iv = (if skipped then light_inventory cf e m committed h0 else full_inventory cf e m committed h0);
          rows = hydrate_network_rows pps_warn (iv_rows iv) window interval;
          (host, st1) = (if c_collect_node_host cf
             then (let (nh, s) = collect_node_host e (iv_state iv) interval in (Some nh, s)) else (None, iv_state iv));
          (bridges, h1) = collect_bridge_addresses cf e (iv_health iv);
          ((phys, st2), h2) = (if c_collect_physical_net cf
             then collect_physical_network cf e st1 interval h1 bridges else (([], st1), h1));
          st3 = dset st2 ''_last_payload_time'' (PInt now) in
      ((\<lparr>pl_node = c_node cf, pl_time = now, pl_interval = interval, pl_interfaces = rows, pl_vms = iv_vms iv,
         pl_node_host = host, pl_vm_inventory = iv_names iv, pl_inventory_complete = iv_complete iv,
         pl_physical = phys, pl_bridges = bridges, pl_health = h2, pl_load_high = load_high,
         pl_heavy_skipped = skipped\<rparr>, st3), iv_map iv))"


section \<open>Which entries a step touches\<close>

text \<open>\<open>st'\<close> keeps every key of \<open>st\<close> and differs from it at most at keys that satisfy \<open>P\<close>.\<close>

definition extends :: "(string \<Rightarrow> bool) \<Rightarrow> state \<Rightarrow> state \<Rightarrow> bool" where
  "extends P st st' = (\<forall>k. (dget st k \<noteq> None \<longrightarrow> dget st' k \<noteq> None) \<and> (\<not> P k \<longrightarrow> dget st' k = dget st k))"

lemma extends_refl [simp]: "extends P st st"
  by (simp add: extends_def)

lemma extends_trans: "extends P a b \<Longrightarrow> extends P b c \<Longrightarrow> extends P a c"
  by (auto simp: extends_def)

lemma extends_mono: "extends P a b \<Longrightarrow> (\<And>k. P k \<Longrightarrow> Q k) \<Longrightarrow> extends Q a b"
  by (auto simp: extends_def)

lemma extends_dset: "P k \<Longrightarrow> extends P st (dset st k v)"
  by (auto simp: extends_def)

lemma extends_step: "P k \<Longrightarrow> extends P (dset st k v) c \<Longrightarrow> extends P st c"
  by (rule extends_trans[OF extends_dset])

definition has_prefix :: "string \<Rightarrow> string \<Rightarrow> bool" where
  "has_prefix p k = starts_with p k"

lemma net_nic_extends: "extends (has_prefix ''net:'') st (snd (net_nic e vm n (rows, st)))"
  by (auto simp: net_nic_def has_prefix_def net_key_def intro!: extends_dset split: option.split)

lemma fold_net_nic_extends: "extends (has_prefix ''net:'') st (snd (fold (net_nic e vm) ns (rows, st)))"
proof (induction ns arbitrary: rows st)
  case (Cons n ns)
  obtain rows1 st1 where one: "net_nic e vm n (rows, st) = (rows1, st1)" by (cases "net_nic e vm n (rows, st)")
  have "extends (has_prefix ''net:'') st st1" using net_nic_extends[of st e vm n rows] by (simp add: one)
  then show ?case using Cons.IH[of st1 rows1] by (auto simp: one intro: extends_trans)
qed simp

lemma net_vms_extends: "extends (has_prefix ''net:'') st (snd (fst (net_vms e vms (rows, st) h)))"
proof (induction vms arbitrary: rows st h)
  case (Cons vm vms)
  obtain nics h1 where nics: "parse_domiflist e vm h = (nics, h1)" by (cases "parse_domiflist e vm h")
  obtain rows1 st1 where one: "fold (net_nic e vm) nics (rows, st) = (rows1, st1)"
    by (cases "fold (net_nic e vm) nics (rows, st)")
  have "extends (has_prefix ''net:'') st st1" using fold_net_nic_extends[of st e vm nics rows] by (simp add: one)
  then show ?case using Cons.IH[of st1 rows1 h1] by (auto simp: nics one intro: extends_trans)
qed simp

lemma mapped_extends: "extends (has_prefix ''net:'') st (snd (fold (mapped_nic e) ms (rows, st)))"
proof (induction ms arbitrary: rows st)
  case (Cons m ms)
  obtain rows1 st1 where one: "mapped_nic e m (rows, st) = (rows1, st1)" by (cases "mapped_nic e m (rows, st)")
  have "extends (has_prefix ''net:'') st (snd (mapped_nic e m (rows, st)))"
    by (cases m) (auto simp: mapped_nic_def Let_def has_prefix_def net_key_def intro!: extends_dset split: option.split)
  then show ?case using Cons.IH[of st1 rows1] by (auto simp: one intro: extends_trans)
qed simp

lemma vm_perf_row_extends: "extends (has_prefix ''perf:'') st (snd (vm_perf_row e mounts b st))"
  by (cases b) (auto simp: vm_perf_row_def Let_def has_prefix_def intro!: extends_dset)

lemma vm_perf_rows_extends: "extends (has_prefix ''perf:'') st (snd (vm_perf_rows e mounts bs st))"
proof (induction bs arbitrary: st)
  case (Cons b bs)
  obtain r st1 where one: "vm_perf_row e mounts b st = (r, st1)" by (cases "vm_perf_row e mounts b st")
  have "extends (has_prefix ''perf:'') st st1" using vm_perf_row_extends[of st e mounts b] by (simp add: one)
  then show ?case using Cons.IH[of st1] by (auto simp: one split: prod.split intro: extends_trans)
qed simp

lemma collect_vm_perf_extends: "extends (has_prefix ''perf:'') st (snd (fst (collect_vm_perf e st h)))"
  using vm_perf_rows_extends by (auto simp: collect_vm_perf_def split: sum.split)

lemma read_block_extends: "extends (has_prefix ''host:'') st (snd (read_block_delta e b st))"
  by (auto simp: read_block_delta_def Let_def has_prefix_def block_key_def intro!: extends_dset split: option.split)

lemma storage_loop_extends: "extends (has_prefix ''host:'') st (snd (snd (storage_loop e iv fss samples st)))"
proof (induction fss arbitrary: samples st)
  case (Cons fs fss)
  define block where "block = (case device_to_block_name e (f_device fs) (f_maj_min fs) of None \<Rightarrow> [] | Some b \<Rightarrow> b)"
  show ?case
  proof (cases "block = [] \<or> dget samples block \<noteq> None")
    case True
    then show ?thesis using Cons.IH by (auto simp: Let_def case_prod_beta block_def[symmetric])
  next
    case False
    obtain d st1 where r: "read_block_delta e block st = (d, st1)" by (cases "read_block_delta e block st")
    have "extends (has_prefix ''host:'') st st1" using read_block_extends[of st e block] by (simp add: r)
    from extends_trans[OF this Cons.IH[of st1 "dset samples block d"]] show ?thesis
      using False r by (simp add: Let_def case_prod_beta block_def[symmetric])
  qed
qed simp

lemma collect_node_host_extends: "extends (has_prefix ''host:'') st (snd (collect_node_host e st iv))"
proof -
  have "has_prefix ''host:'' ''host:cpu''" by (simp add: has_prefix_def)
  then have step: "extends (has_prefix ''host:'') st (snd (snd (storage_loop e iv fss [] (dset st ''host:cpu'' v))))" for fss v
    using storage_loop_extends by (rule extends_step)
  show ?thesis
    unfolding collect_node_host_def Let_def using step by (simp split: prod.split) (metis snd_conv)
qed

lemma phys_uplinks_extends:
  "extends (has_prefix ''physnet:'') st (snd (fst (phys_uplinks e iv addrs role bridge ifs st h)))"
proof (induction ifs arbitrary: st h)
  case (Cons i ifs)
  have P: "has_prefix ''physnet:'' (phys_key role bridge i)" by (simp add: has_prefix_def phys_key_def)
  show ?case
  proof (cases "collect_interface_counters e i")
    case None
    then show ?thesis using Cons.IH by simp
  next
    case (Some c)
    then show ?thesis
      using extends_step[OF P Cons.IH[of "dset st (phys_key role bridge i) (PDict (counters_dict c))" h]]
      by (simp add: Let_def split: prod.splits) (metis fst_conv snd_conv)
  qed
qed simp

lemma phys_roles_extends:
  "extends (has_prefix ''physnet:'') st (snd (fst (phys_roles cf e iv addrs rs st h)))"
proof (induction rs arbitrary: st h)
  case (Cons rb rs)
  obtain role bridge where rb: "rb = (role, bridge)" by (cases rb)
  have "extends (has_prefix ''physnet:'') st (snd (fst (phys_roles cf e iv addrs rs
      (snd (fst (phys_uplinks e iv addrs role bridge ups st h))) h1)))" for ups h1
    by (rule extends_trans[OF phys_uplinks_extends Cons.IH])
  then show ?case using Cons.IH by (simp add: rb Let_def case_prod_beta)
qed simp


section \<open>The deltas of one interface\<close>

definition rows_of :: "string \<Rightarrow> string \<Rightarrow> 'z net_row_scheme list \<Rightarrow> 'z net_row_scheme list" where
  "rows_of vm iface rows = filter (\<lambda>r. nr_vm r = vm \<and> nr_iface r = iface) rows"

definition delta_sum :: "(counters \<Rightarrow> int) \<Rightarrow> string \<Rightarrow> string \<Rightarrow> 'z net_row_scheme list \<Rightarrow> int" where
  "delta_sum f vm iface rows = sum_list (map (\<lambda>r. f (nr_delta r)) (rows_of vm iface rows))"

definition counter_field :: "(counters \<Rightarrow> int) \<Rightarrow> bool" where
  "counter_field f = (\<forall>c c'. f (counter_deltas c (counters_dict c')) = max 0 (f c - f c'))"

lemma counter_fields [simp]: "counter_field rx" "counter_field tx" "counter_field rx_packets"
  "counter_field tx_packets" "counter_field rx_drop" "counter_field tx_drop" "counter_field rx_error" "counter_field tx_error"
  by (simp_all add: counter_field_def)

text \<open>Linux accepts no interface name with a colon.\<close>

definition plain_ifaces :: "env \<Rightarrow> bool" where
  "plain_ifaces e = (\<forall>i. collect_interface_counters e i \<noteq> None \<longrightarrow> CHR '':'' \<notin> set i)"

lemma net_key_inj:
  assumes "net_key v i = net_key w j" "CHR '':'' \<notin> set i" "CHR '':'' \<notin> set j"
  shows "v = w \<and> i = j"
proof -
  have "split1 CHR '':'' (rev i @ CHR '':'' # rev v) = split1 CHR '':'' (rev j @ CHR '':'' # rev w)"
    using assms(1) by (simp add: net_key_def) (metis append_Cons append_assoc rev.simps(2) rev_append self_append_conv2)
  then show ?thesis using assms(2,3) by (simp add: split1_append)
qed

definition tracks :: "env \<Rightarrow> (counters \<Rightarrow> int) \<Rightarrow> string \<Rightarrow> string \<Rightarrow> counters \<Rightarrow> net_row list \<times> state \<Rightarrow> bool" where
  "tracks e f vm iface c0 rs = (let (rows, st) = rs; v = get_none st (net_key vm iface) in
     (if rows_of vm iface rows = [] then v = PDict (counters_dict c0)
      else (\<exists>c. collect_interface_counters e iface = Some c \<and> v = PDict (counters_dict c)
        \<and> delta_sum f vm iface rows = max 0 (f c - f c0))))"

lemma tracks_push:
  assumes t: "tracks e f vm iface c0 (rows, st)" and f: "counter_field f" and pl: "plain_ifaces e"
    and c: "collect_interface_counters e i = Some c" and iface: "CHR '':'' \<notin> set iface"
    and old: "(v, i) = (vm, iface) \<Longrightarrow> old = as_dict (get_none st (net_key vm iface))"
  shows "tracks e f vm iface c0 (rows @ [\<lparr>nr_vm = v, nr_iface = i, nr_bridge = b, nr_mac = m, nr_delta = counter_deltas c old\<rparr>],
      dset st (net_key v i) (PDict (counters_dict c)))"
proof (cases "(v, i) = (vm, iface)")
  case True
  then have o: "old = as_dict (get_none st (net_key vm iface))" by (rule old)
  show ?thesis
  proof (cases "rows_of vm iface rows = []")
    case True
    then have "get_none st (net_key vm iface) = PDict (counters_dict c0)" using t by (simp add: tracks_def)
    then show ?thesis using \<open>(v, i) = (vm, iface)\<close> True c f o
      by (simp add: tracks_def rows_of_def delta_sum_def counter_field_def)
  next
    case False
    then have "get_none st (net_key vm iface) = PDict (counters_dict c)"
      "delta_sum f vm iface rows = max 0 (f c - f c0)"
      using t c \<open>(v, i) = (vm, iface)\<close> by (auto simp: tracks_def)
    then show ?thesis using \<open>(v, i) = (vm, iface)\<close> False c f o
      by (simp add: tracks_def rows_of_def delta_sum_def counter_field_def)
  qed
next
  case False
  have "CHR '':'' \<notin> set i" using pl c by (simp add: plain_ifaces_def)
  then have "net_key v i \<noteq> net_key vm iface" using False iface net_key_inj by blast
  moreover have "rows_of vm iface (rows @ [\<lparr>nr_vm = v, nr_iface = i, nr_bridge = b, nr_mac = m,
      nr_delta = counter_deltas c old\<rparr>]) = rows_of vm iface rows"
    using False by (auto simp: rows_of_def)
  ultimately show ?thesis using t by (auto simp: tracks_def delta_sum_def Let_def split: if_splits)
qed

lemma tracks_stored: "tracks e f vm iface c0 (rows, st) \<Longrightarrow> \<exists>c. get_none st (net_key vm iface) = PDict (counters_dict c)"
  by (auto simp: tracks_def Let_def split: if_splits)

lemma tracks_net_nic:
  assumes "tracks e f vm iface c0 rs" "counter_field f" "plain_ifaces e" "CHR '':'' \<notin> set iface"
  shows "tracks e f vm iface c0 (net_nic e v n rs)"
proof -
  obtain rows st where rs: "rs = (rows, st)" by (cases rs)
  obtain c' where c': "get_none st (net_key vm iface) = PDict (counters_dict c')"
    using tracks_stored assms(1) rs by blast
  show ?thesis
  proof (cases "collect_interface_counters e (n_iface n)")
    case None
    then show ?thesis using assms(1) by (simp add: net_nic_def rs)
  next
    case (Some c)
    have "tracks e f vm iface c0 (rows @ [\<lparr>nr_vm = v, nr_iface = n_iface n, nr_bridge = n_bridge n, nr_mac = n_mac n,
        nr_delta = counter_deltas c (old_net_entry st v (n_iface n))\<rparr>],
        dset st (net_key v (n_iface n)) (PDict (counters_dict c)))"
      using assms c' by (intro tracks_push[OF _ assms(2,3) Some assms(4)]) (auto simp: rs old_net_entry_def)
    then show ?thesis using Some by (simp add: net_nic_def rs)
  qed
qed

lemma tracks_fold_net_nic:
  "tracks e f vm iface c0 rs \<Longrightarrow> counter_field f \<Longrightarrow> plain_ifaces e \<Longrightarrow> CHR '':'' \<notin> set iface \<Longrightarrow>
   tracks e f vm iface c0 (fold (net_nic e v) ns rs)"
  by (induction ns arbitrary: rs) (simp_all add: tracks_net_nic)

lemma tracks_net_vms:
  "tracks e f vm iface c0 rs \<Longrightarrow> counter_field f \<Longrightarrow> plain_ifaces e \<Longrightarrow> CHR '':'' \<notin> set iface \<Longrightarrow>
   tracks e f vm iface c0 (fst (net_vms e vms rs h))"
  by (induction vms arbitrary: rs h) (simp_all add: case_prod_beta tracks_fold_net_nic)

lemma tracks_mapped:
  assumes "tracks e f vm iface c0 rs" "counter_field f" "plain_ifaces e" "CHR '':'' \<notin> set iface"
  shows "tracks e f vm iface c0 (fold (mapped_nic e) ms rs)"
  using assms(1)
proof (induction ms arbitrary: rs)
  case (Cons m ms)
  obtain i meta where m: "m = (i, meta)" by (cases m)
  obtain rows st where rs: "rs = (rows, st)" by (cases rs)
  obtain c' where c': "get_none st (net_key vm iface) = PDict (counters_dict c')"
    using tracks_stored Cons.prems rs by blast
  have "tracks e f vm iface c0 (mapped_nic e m rs)"
  proof (cases "strip (im_vm meta) = [] \<or> collect_interface_counters e i = None")
    case True
    then show ?thesis using Cons.prems by (auto simp: mapped_nic_def m rs Let_def)
  next
    case False
    then obtain c where c: "collect_interface_counters e i = Some c" by auto
    have "tracks e f vm iface c0 (rows @ [\<lparr>nr_vm = strip (im_vm meta), nr_iface = i,
        nr_bridge = str_or (im_bridge meta) ''-'', nr_mac = im_mac meta,
        nr_delta = counter_deltas c (entry st (net_key (strip (im_vm meta)) i))\<rparr>],
        dset st (net_key (strip (im_vm meta)) i) (PDict (counters_dict c)))"
      using Cons.prems c' by (intro tracks_push[OF _ assms(2,3) c assms(4)])
        (auto simp: rs entry_def get_none_def dget_or_def split: option.splits)
    then show ?thesis using False c by (simp add: mapped_nic_def m rs Let_def)
  qed
  then show ?case using Cons.IH by simp
qed simp

section \<open>Inventory and cycle\<close>

lemma net_key_prefix: "starts_with ''net:'' (net_key vm iface)"
  by (simp add: net_key_def)

lemma extends_get_none: "extends P st st' \<Longrightarrow> \<not> P k \<Longrightarrow> get_none st' k = get_none st k"
  by (simp add: extends_def get_none_def dget_or_def)

lemma not_other_prefix:
  "\<not> has_prefix ''perf:'' (net_key vm i)" "\<not> has_prefix ''host:'' (net_key vm i)" "\<not> has_prefix ''physnet:'' (net_key vm i)"
  by (simp_all add: has_prefix_def net_key_def)

lemma dget_filter_keep: "P k \<Longrightarrow> dget (filter (\<lambda>(k, v). P k) d) k = dget d k"
  by (induction d) auto

lemma get_none_filter_keep: "P k \<Longrightarrow> get_none (filter (\<lambda>(k, v). P k) d) k = get_none d k"
  by (simp add: get_none_def dget_or_def dget_filter_keep)

definition inventory_of :: "config \<Rightarrow> env \<Rightarrow> bool \<Rightarrow> iface_meta_entry dict \<Rightarrow> state \<Rightarrow> health \<Rightarrow> inventory" where
  "inventory_of cf e skipped m st h = (if skipped then light_inventory cf e m st h else full_inventory cf e m st h)"

lemma tracks_start:
  "get_none st (net_key vm iface) = PDict (counters_dict c0) \<Longrightarrow> tracks e f vm iface c0 ([], st)"
  by (simp add: tracks_def rows_of_def)

lemma tracks_weaken: "get_none st' (net_key vm iface) = get_none st (net_key vm iface) \<Longrightarrow>
   tracks e f vm iface c0 (rows, st) \<Longrightarrow> tracks e f vm iface c0 (rows, st')"
  by (simp add: tracks_def Let_def)

lemma inventory_tracks:
  assumes st: "get_none st (net_key vm iface) = PDict (counters_dict c0)"
    and f: "counter_field f" and pl: "plain_ifaces e" and ic: "CHR '':'' \<notin> set iface"
    and iv: "iv = inventory_of cf e skipped m st h" and row: "rows_of vm iface (iv_rows iv) \<noteq> []"
  shows "\<exists>c. collect_interface_counters e iface = Some c
      \<and> get_none (iv_state iv) (net_key vm iface) = PDict (counters_dict c)
      \<and> delta_sum f vm iface (iv_rows iv) = max 0 (f c - f c0)"
proof -
  have "tracks e f vm iface c0 (iv_rows iv, iv_state iv)"
  proof (cases skipped)
    case True
    then show ?thesis
      using tracks_mapped[OF tracks_start[OF st] f pl ic] tracks_start[OF st]
      by (simp add: iv inventory_of_def light_inventory_def case_prod_beta collect_network_from_mapping_def)
  next
    case False
    obtain names full h1 where names: "get_vm_names e h = ((names, full), h1)" by (metis prod.exhaust)
    obtain rows st1 h2 where net: "(if c_collect_vm_net cf then collect_network e names st h1 else (([], st), h1)) = ((rows, st1), h2)"
      by (metis prod.exhaust)
    obtain vms st2 h3 where perf: "(if c_collect_vm_perf cf then collect_vm_perf e st1 h2 else (([], st1), h2)) = ((vms, st2), h3)"
      by (metis prod.exhaust)
    have ivs: "iv_rows iv = rows" "iv_state iv = prune_metric_state st2 (map (\<lambda>r. net_key (nr_vm r) (nr_iface r)) rows) names full"
      using False names net perf by (simp_all add: iv inventory_of_def full_inventory_def Let_def)
    have t1: "tracks e f vm iface c0 (rows, st1)"
      using tracks_net_vms[OF tracks_start[OF st] f pl ic, of names h1] tracks_start[OF st] net
      by (auto simp: collect_network_def split: if_splits)
    have "extends (has_prefix ''perf:'') st1 st2"
      using perf collect_vm_perf_extends[of st1 e h2] by (auto split: if_splits)
    then have same: "get_none st2 (net_key vm iface) = get_none st1 (net_key vm iface)"
      using not_other_prefix extends_get_none by blast
    have act: "net_key vm iface \<in> set (map (\<lambda>r. net_key (nr_vm r) (nr_iface r)) rows)"
    proof -
      obtain r where "r \<in> set (rows_of vm iface rows)"
        using row unfolding ivs(1) by (cases "rows_of vm iface rows") auto
      then show ?thesis by (auto simp: rows_of_def)
    qed
    then have "\<not> prunable (map (\<lambda>r. net_key (nr_vm r) (nr_iface r)) rows) names (net_key vm iface)"
      by (auto simp: prunable_def net_key_def)
    then have "get_none (iv_state iv) (net_key vm iface) = get_none st2 (net_key vm iface)"
      unfolding ivs(2) prune_metric_state_def by (simp add: get_none_filter_keep[of "\<lambda>k. \<not> prunable _ _ k"])
    then have eq: "get_none (iv_state iv) (net_key vm iface) = get_none st1 (net_key vm iface)"
      using same by (rule trans)
    show ?thesis unfolding ivs(1) by (rule tracks_weaken[OF eq t1])
  qed
  then show ?thesis using row by (simp add: tracks_def)
qed


section \<open>What a cycle reports and keeps\<close>

lemma hydrate_keeps [simp]:
  "nr_vm (hydrate_row w i win r) = nr_vm r" "nr_iface (hydrate_row w i win r) = nr_iface r"
  "nr_delta (hydrate_row w i win r) = nr_delta r"
  by (simp_all add: hydrate_row_def Let_def)

lemma hydrate_rows_of: "rows_of vm iface (hydrate_network_rows w rows win i)
    = hydrate_network_rows w (rows_of vm iface rows) win i"
  by (simp add: rows_of_def hydrate_network_rows_def filter_map o_def)

lemma hydrate_delta_sum: "delta_sum f vm iface (hydrate_network_rows w rows win i) = delta_sum f vm iface rows"
  by (simp add: delta_sum_def hydrate_rows_of) (simp add: hydrate_network_rows_def o_def)

lemma hydrate_rows_nil [simp]: "hydrate_network_rows w rows win i = [] \<longleftrightarrow> rows = []"
  by (simp add: hydrate_network_rows_def)

lemma collect_physical_extends:
  "extends (has_prefix ''physnet:'') st (snd (fst (collect_physical_network cf e st i h a)))"
  unfolding collect_physical_network_def by (rule phys_roles_extends)

definition cycle_inventory :: "config \<Rightarrow> string \<Rightarrow> env \<Rightarrow> state \<Rightarrow> iface_meta_entry dict \<Rightarrow> inventory" where
  "cycle_inventory cf note e st m =
     (let (load1, l5, l15) = parse_loadavg e; high = (0 < c_max_load cf \<and> c_max_load cf < load1) in
      inventory_of cf e (high \<and> c_skip_heavy cf) m st (if high then add_note empty_health note else empty_health))"

definition after_inventory :: "string \<Rightarrow> bool" where
  "after_inventory k = (has_prefix ''host:'' k \<or> has_prefix ''physnet:'' k \<or> k = ''_last_payload_time'')"

lemma cycle_parts:
  assumes "collect_cycle_payload cf w note e st m win = ((p, st'), m')"
  shows "pl_interfaces p = hydrate_network_rows w (iv_rows (cycle_inventory cf note e st m)) win (cycle_interval cf st (now_ts e))"
    and "extends after_inventory (iv_state (cycle_inventory cf note e st m)) st'"
    and "pl_inventory_complete p = iv_complete (cycle_inventory cf note e st m)"
    and "pl_time p = now_ts e" and "pl_interval p = cycle_interval cf st (now_ts e)"
    and "get_none st' ''_last_payload_time'' = PInt (now_ts e)"
proof -
  let ?iv = "cycle_inventory cf note e st m"
  define high where "high = (let (load1, l5, l15) = parse_loadavg e in 0 < c_max_load cf \<and> c_max_load cf < load1)"
  have iv: "?iv = (if high \<and> c_skip_heavy cf
      then light_inventory cf e m st (if high then add_note empty_health note else empty_health)
      else full_inventory cf e m st (if high then add_note empty_health note else empty_health))"
    by (simp add: cycle_inventory_def inventory_of_def high_def case_prod_beta Let_def)
  define hs where "hs = (if c_collect_node_host cf
      then (let (nh, s) = collect_node_host e (iv_state ?iv) (cycle_interval cf st (now_ts e)) in (Some nh, s)) else (None, iv_state ?iv))"
  define br where "br = collect_bridge_addresses cf e (iv_health ?iv)"
  define ph where "ph = (if c_collect_physical_net cf
      then collect_physical_network cf e (snd hs) (cycle_interval cf st (now_ts e)) (snd br) (fst br) else (([], snd hs), snd br))"
  have res: "p = \<lparr>pl_node = c_node cf, pl_time = now_ts e, pl_interval = cycle_interval cf st (now_ts e),
         pl_interfaces = hydrate_network_rows w (iv_rows ?iv) win (cycle_interval cf st (now_ts e)), pl_vms = iv_vms ?iv,
         pl_node_host = fst hs, pl_vm_inventory = iv_names ?iv, pl_inventory_complete = iv_complete ?iv,
         pl_physical = fst (fst ph), pl_bridges = fst br, pl_health = snd ph, pl_load_high = high,
         pl_heavy_skipped = (high \<and> c_skip_heavy cf)\<rparr>"
    "st' = dset (snd (fst ph)) ''_last_payload_time'' (PInt (now_ts e))"
    using assms unfolding collect_cycle_payload_def Let_def case_prod_beta high_def[unfolded Let_def case_prod_beta, symmetric]
      iv[symmetric] hs_def[unfolded Let_def case_prod_beta, symmetric] br_def[symmetric] ph_def[symmetric] by auto
  show "pl_interfaces p = hydrate_network_rows w (iv_rows ?iv) win (cycle_interval cf st (now_ts e))"
    "pl_inventory_complete p = iv_complete ?iv" "pl_time p = now_ts e" "pl_interval p = cycle_interval cf st (now_ts e)"
    by (simp_all add: res(1))
  show "get_none st' ''_last_payload_time'' = PInt (now_ts e)"
    by (simp add: res(2) get_none_def dget_or_def)
  have "extends (has_prefix ''host:'') (iv_state ?iv) (snd hs)"
    using collect_node_host_extends[of "iv_state ?iv" e] by (simp add: hs_def case_prod_beta Let_def)
  then have 1: "extends after_inventory (iv_state ?iv) (snd hs)"
    by (rule extends_mono) (simp add: after_inventory_def)
  have "extends (has_prefix ''physnet:'') (snd hs) (snd (fst ph))"
    using collect_physical_extends by (simp add: ph_def)
  then have 2: "extends after_inventory (snd hs) (snd (fst ph))"
    by (rule extends_mono) (simp add: after_inventory_def)
  have 3: "extends after_inventory (snd (fst ph)) st'"
    unfolding res(2) by (rule extends_dset) (simp add: after_inventory_def)
  show "extends after_inventory (iv_state ?iv) st'"
    using 1 2 3 by (blast intro: extends_trans)
qed

lemma net_key_not_after: "\<not> after_inventory (net_key vm iface)"
  by (simp add: after_inventory_def has_prefix_def net_key_def)

lemma cycle_tracks:
  assumes st: "get_none st (net_key vm iface) = PDict (counters_dict c0)"
    and f: "counter_field f" and pl: "plain_ifaces e" and ic: "CHR '':'' \<notin> set iface"
    and res: "collect_cycle_payload cf w note e st m win = ((p, st'), m')"
    and row: "rows_of vm iface (pl_interfaces p) \<noteq> []"
  shows "\<exists>c. collect_interface_counters e iface = Some c
      \<and> get_none st' (net_key vm iface) = PDict (counters_dict c)
      \<and> delta_sum f vm iface (pl_interfaces p) = max 0 (f c - f c0)"
proof -
  let ?iv = "cycle_inventory cf note e st m"
  obtain sk h where iv: "?iv = inventory_of cf e sk m st h"
    by (simp add: cycle_inventory_def case_prod_beta Let_def)
  have "rows_of vm iface (iv_rows ?iv) \<noteq> []"
    using row by (simp add: cycle_parts(1)[OF res] hydrate_rows_of)
  from inventory_tracks[OF st f pl ic iv this]
  show ?thesis
    by (simp add: cycle_parts(1)[OF res] hydrate_delta_sum extends_get_none[OF cycle_parts(2)[OF res] net_key_not_after])
qed

text \<open>An inventory that is not known to be complete removes nothing.\<close>

definition collectors :: "string \<Rightarrow> bool" where
  "collectors k = (has_prefix ''net:'' k \<or> has_prefix ''perf:'' k)"

lemma net_extends_collectors: "extends (has_prefix ''net:'') a b \<Longrightarrow> extends collectors a b"
  by (erule extends_mono) (simp add: collectors_def)

lemma perf_extends_collectors: "extends (has_prefix ''perf:'') a b \<Longrightarrow> extends collectors a b"
  by (erule extends_mono) (simp add: collectors_def)

lemma inventory_incomplete_extends:
  assumes "\<not> iv_complete (inventory_of cf e sk m st h)"
  shows "extends collectors st (iv_state (inventory_of cf e sk m st h))"
proof (cases sk)
  case True
  then show ?thesis
    using mapped_extends[of st e _ "[]"]
    by (auto simp: inventory_of_def light_inventory_def collect_network_from_mapping_def case_prod_beta intro: net_extends_collectors)
next
  case False
  obtain names full h1 where names: "get_vm_names e h = ((names, full), h1)" by (metis prod.exhaust)
  obtain rows st1 h2 where net: "(if c_collect_vm_net cf then collect_network e names st h1 else (([], st), h1)) = ((rows, st1), h2)"
    by (metis prod.exhaust)
  obtain vms st2 h3 where perf: "(if c_collect_vm_perf cf then collect_vm_perf e st1 h2 else (([], st1), h2)) = ((vms, st2), h3)"
    by (metis prod.exhaust)
  have iv: "iv_state (inventory_of cf e sk m st h) = (if full then iv_state (inventory_of cf e sk m st h) else st2)"
      "iv_complete (inventory_of cf e sk m st h) = full"
    using False names net perf by (simp_all add: inventory_of_def full_inventory_def Let_def prune_metric_state_def)
  have "extends (has_prefix ''net:'') st st1"
    using net net_vms_extends[of st e names "[]" h1] by (auto simp: collect_network_def split: if_splits)
  moreover have "extends (has_prefix ''perf:'') st1 st2"
    using perf collect_vm_perf_extends[of st1 e h2] by (auto split: if_splits)
  ultimately have "extends collectors st st2"
    using net_extends_collectors perf_extends_collectors extends_trans by blast
  then show ?thesis using iv assms by simp
qed

lemma cycle_incomplete_extends:
  assumes res: "collect_cycle_payload cf w note e st m win = ((p, st'), m')"
    and inc: "\<not> pl_inventory_complete p"
  shows "dget st k \<noteq> None \<Longrightarrow> dget st' k \<noteq> None"
proof -
  let ?iv = "cycle_inventory cf note e st m"
  obtain sk h where iv: "?iv = inventory_of cf e sk m st h"
    by (simp add: cycle_inventory_def case_prod_beta Let_def)
  have "extends collectors st (iv_state ?iv)"
    using inc cycle_parts(3)[OF res] inventory_incomplete_extends unfolding iv by simp
  then show "dget st k \<noteq> None \<Longrightarrow> dget st' k \<noteq> None"
    using cycle_parts(2)[OF res] by (simp add: extends_def)
qed


section \<open>A cycle on a loaded node\<close>

text \<open>A node under load shedding with one known interface, on which the properties are tried.\<close>

definition light_config :: config where
  "light_config = sample_config\<lparr>c_collect_node_host := False, c_collect_physical_net := False, c_skip_heavy := True, c_max_load := 5\<rparr>"

definition sample_node :: "string \<Rightarrow> int \<Rightarrow> env" where
  "sample_node rx_text t = sample_env\<lparr>
     file_text := (\<lambda>p. Some (if p = ''/proc/loadavg'' then ''9 9 9'' else if p = ''/sys/class/net/vnet0/statistics/rx_bytes'' then rx_text else ''0'')),
     path_exists := (\<lambda>p. p = ''/sys/class/net/'' @ ''vnet0'' @ ''/statistics''), now_ts := t\<rparr>"

definition sample_counters :: "int \<Rightarrow> counters" where
  "sample_counters n = \<lparr>rx = n, tx = 0, rx_packets = 0, tx_packets = 0, rx_drop = 0, tx_drop = 0, rx_error = 0, tx_error = 0\<rparr>"

definition sample_map :: "iface_meta_entry dict" where
  "sample_map = [(''vnet0'', \<lparr>im_vm = ''vm-a'', im_bridge = ''br0'', im_mac = []\<rparr>)]"

definition sample_state :: "int \<Rightarrow> state" where
  "sample_state n = [(''net:vm-a:vnet0'', PDict (counters_dict (sample_counters n)))]"

lemma sample_path: "''/sys/class/net/'' @ i @ ''/statistics'' = ''/sys/class/net/'' @ ''vnet0'' @ ''/statistics'' \<longleftrightarrow> i = ''vnet0''"
  by (simp only: same_append_eq append_same_eq)

lemma sample_plain: "plain_ifaces (sample_node n t)"
  by (simp add: plain_ifaces_def collect_interface_counters_def sample_node_def Let_def sample_path del: append.simps)

lemma light_config_fields [simp]: "\<not> c_dry_run light_config" "c_node light_config = ''node1''" "config_ok light_config"
  "c_http_gzip light_config = True" "c_push_seconds light_config = 300"
  by (simp_all add: light_config_def sample_config_def config_ok_def)

lemma sample_digits: "str_safe_float ''9'' 0 = 9" "int_of_str (strip ''100'') = Some 100" "int_of_str (strip ''250'') = Some 250"
  "int_of_str (strip ''400'') = Some 400" "int_of_str (strip ''0'') = Some 0" "strip ''vm-a'' = ''vm-a''"
  by code_simp+

lemma sample_load: "parse_loadavg (sample_node n t) = (9, 9, 9)"
  by (simp add: parse_loadavg_def sample_node_def words_ws.simps lstrip_def is_space_def Let_def sample_digits)

lemma sample_reading: "int_of_str (strip n) = Some k \<Longrightarrow>
    collect_interface_counters (sample_node n t) ''vnet0'' = Some (sample_counters k)"
  by (simp add: collect_interface_counters_def sample_node_def read_counter_def Let_def sample_digits sample_counters_def)

lemma sample_mapping:
  assumes "int_of_str (strip n) = Some k"
  shows "collect_network_from_mapping (sample_node n t) sample_map st =
    ([\<lparr>nr_vm = ''vm-a'', nr_iface = ''vnet0'', nr_bridge = ''br0'', nr_mac = [],
       nr_delta = counter_deltas (sample_counters k) (entry st (net_key ''vm-a'' ''vnet0''))\<rparr>],
     dset st (net_key ''vm-a'' ''vnet0'') (PDict (counters_dict (sample_counters k))))"
  using assms
  by (simp add: collect_network_from_mapping_def sample_map_def mapped_nic_def sample_reading sample_digits str_or_def Let_def)

lemma sample_cycle:
  assumes "int_of_str (strip n) = Some k" "collect_cycle_payload light_config w note (sample_node n t) st sample_map win = ((p, st'), m')"
  shows "pl_interfaces p = hydrate_network_rows w [\<lparr>nr_vm = ''vm-a'', nr_iface = ''vnet0'', nr_bridge = ''br0'', nr_mac = [],
       nr_delta = counter_deltas (sample_counters k) (entry st (net_key ''vm-a'' ''vnet0''))\<rparr>] win (cycle_interval light_config st t)"
    and "\<not> pl_inventory_complete p" and "pl_time p = t" and "pl_node p = ''node1''" and "m' = sample_map"
    and "st' = dset (dset st (net_key ''vm-a'' ''vnet0'') (PDict (counters_dict (sample_counters k)))) ''_last_payload_time'' (PInt t)"
proof -
  have t: "now_ts (sample_node n t) = t" by (simp add: sample_node_def)
  have c: "c_max_load light_config = 5" "c_skip_heavy light_config" "\<not> c_collect_node_host light_config"
    "\<not> c_collect_physical_net light_config" "c_collect_vm_net light_config"
    by (simp_all add: light_config_def sample_config_def)
  note defs = collect_cycle_payload_def light_inventory_def sample_load sample_mapping[OF assms(1)] Let_def case_prod_beta t c
  show "pl_interfaces p = hydrate_network_rows w [\<lparr>nr_vm = ''vm-a'', nr_iface = ''vnet0'', nr_bridge = ''br0'', nr_mac = [],
       nr_delta = counter_deltas (sample_counters k) (entry st (net_key ''vm-a'' ''vnet0''))\<rparr>] win (cycle_interval light_config st t)"
    "\<not> pl_inventory_complete p" "pl_time p = t" "pl_node p = ''node1''" "m' = sample_map"
    "st' = dset (dset st (net_key ''vm-a'' ''vnet0'') (PDict (counters_dict (sample_counters k)))) ''_last_payload_time'' (PInt t)"
    using assms(2) by (auto simp: defs)
qed

section \<open>Properties\<close>

text \<open>C7. What a payload reports for an interface is the growth of its counters since the state the
  cycle started from, and the state to commit with the payload holds exactly the counters that were
  read; a counter that went backwards contributes nothing. An interface listed twice in a cycle is
  not counted twice.\<close>

theorem payload_reports_growth:
  assumes "get_none st (net_key vm iface) = PDict (counters_dict c0)" "counter_field f" "plain_ifaces e" "CHR '':'' \<notin> set iface"
    and "collect_cycle_payload cf w note e st m win = ((p, st'), m')" "rows_of vm iface (pl_interfaces p) \<noteq> []"
  shows "\<exists>c. collect_interface_counters e iface = Some c
      \<and> get_none st' (net_key vm iface) = PDict (counters_dict c)
      \<and> delta_sum f vm iface (pl_interfaces p) = max 0 (f c - f c0)"
  by (rule cycle_tracks[OF assms])

theorem payload_reports_growth_witness:
  "let ((p, st'), m') = collect_cycle_payload light_config 200000 [] (sample_node ''250'' 1500) (sample_state 100) sample_map [] in
     delta_sum rx ''vm-a'' ''vnet0'' (pl_interfaces p) = 150
     \<and> get_none st' ''net:vm-a:vnet0'' = PDict (counters_dict (sample_counters 250))"
proof -
  obtain p st' m' where res: "collect_cycle_payload light_config 200000 [] (sample_node ''250'' 1500) (sample_state 100) sample_map [] = ((p, st'), m')"
    by (metis prod.exhaust)
  have k: "net_key ''vm-a'' ''vnet0'' = ''net:vm-a:vnet0''" by (simp add: net_key_def)
  have st: "get_none (sample_state 100) (net_key ''vm-a'' ''vnet0'') = PDict (counters_dict (sample_counters 100))"
    by (simp add: k sample_state_def get_none_def dget_or_def)
  have row: "rows_of ''vm-a'' ''vnet0'' (pl_interfaces p) \<noteq> []"
    by (simp add: sample_cycle(1)[OF sample_digits(3) res] rows_of_def hydrate_network_rows_def hydrate_row_def Let_def)
  have "\<exists>c. collect_interface_counters (sample_node ''250'' 1500) ''vnet0'' = Some c
      \<and> get_none st' (net_key ''vm-a'' ''vnet0'') = PDict (counters_dict c)
      \<and> delta_sum rx ''vm-a'' ''vnet0'' (pl_interfaces p) = max 0 (rx c - rx (sample_counters 100))"
    by (rule payload_reports_growth[OF st _ sample_plain _ res row]) simp_all
  then show ?thesis
    by (simp add: res k sample_reading[OF sample_digits(3)] sample_counters_def)
qed

text \<open>A cycle whose inventory is not known to be complete (virsh failed, or load shedding) removes
  no entry of the state: no baseline of a domain that was merely not listed is lost.\<close>

theorem incomplete_cycle_removes_nothing:
  assumes "collect_cycle_payload cf w note e st m win = ((p, st'), m')" "\<not> pl_inventory_complete p" "dget st k \<noteq> None"
  shows "dget st' k \<noteq> None"
  by (rule cycle_incomplete_extends[OF assms])

theorem incomplete_cycle_removes_nothing_witness:
  "dget (snd (fst (collect_cycle_payload light_config 200000 [] (sample_node ''250'' 1500)
     ((''net:vm-z:vnet9'', PDict []) # sample_state 100) sample_map []))) ''net:vm-z:vnet9'' \<noteq> None"
proof -
  let ?st = "(''net:vm-z:vnet9'', PDict []) # sample_state 100"
  obtain p st' m' where res: "collect_cycle_payload light_config 200000 [] (sample_node ''250'' 1500) ?st sample_map [] = ((p, st'), m')"
    by (metis prod.exhaust)
  have "dget ?st ''net:vm-z:vnet9'' \<noteq> None" by simp
  from incomplete_cycle_removes_nothing[OF res sample_cycle(2)[OF sample_digits(3) res] this]
  show ?thesis by (simp add: res)
qed

end
