(* ===== verification/Agent_Delivery.thy ===== *)
theory Agent_Delivery
  imports Agent_Cycle Agent_Sampler Json
begin

text \<open>
  How the agent (deploy/agent/agent.py) delivers its payloads: the runtime file with the carried
  network window and the one pending payload, the answer of the monitor that sets the packet
  threshold, the HTTP request with its uncompressed second try, and the push cycle.
  The two files the agent keeps are components of its state, so that a crash is the loss of the
  other components. What a request brings back is an argument.
\<close>

section \<open>The files of the agent\<close>

text \<open>
  \<open>Malformed_Pending\<close> is an object of the file without a payload or without the state to commit.
  \<open>Pending p st t\<close> holds the payload, the state to commit once it is delivered and its time.
\<close>

datatype pending_slot = No_Pending | Malformed_Pending | Pending payload state int

record runtime =
  rt_carry :: "pyval dict"
  rt_map :: "iface_meta_entry dict"
  rt_pending :: pending_slot
  rt_config :: pyval

text \<open>An entry of the map that is no object counts for nothing but its name.\<close>

definition map_entry_of :: "pyval \<Rightarrow> iface_meta_entry" where
  "map_entry_of v = (let d = as_dict v; s = (\<lambda>k dflt. py_str (py_or (get_none d k) (PStr dflt))) in
     \<lparr>im_vm = s ''vm_uuid'' [], im_bridge = s ''bridge'' ''-'', im_mac = s ''mac'' []\<rparr>)"

definition pending_of :: "(pyval dict \<Rightarrow> payload) \<Rightarrow> pyval \<Rightarrow> pending_slot" where
  "pending_of decode v = (case v of
      PDict d \<Rightarrow> (case (get_none d ''payload'', get_none d ''state_after'') of
          (PDict p, PDict st) \<Rightarrow> Pending (decode p) st (safe_int (get_none d ''created_at'') 0)
        | _ \<Rightarrow> Malformed_Pending)
    | _ \<Rightarrow> No_Pending)"

text \<open>
  \<open>load_runtime\<close> takes the parsed file, or nothing when it cannot be read. \<open>decode\<close> reads the
  object of a stored payload back into the record that stands for it.
\<close>

definition load_runtime :: "(pyval dict \<Rightarrow> payload) \<Rightarrow> pyval option \<Rightarrow> runtime" where
  "load_runtime decode file =
     (let data = (case file of Some (PDict d) \<Rightarrow> d | _ \<Rightarrow> []);
          carry = get_none data ''carry''; m = get_none data ''iface_map'' in
      \<lparr>rt_carry = (if is_dict carry then as_dict carry else empty_network_window),
       rt_map = (if is_dict m then map (\<lambda>(k, v). (k, map_entry_of v)) (as_dict m) else []),
       rt_pending = pending_of decode (get_none data ''pending''),
       rt_config = get_none data ''monitor_config''\<rparr>)"

text \<open>\<open>load_state\<close>: the parsed state file, or the empty state.\<close>

definition load_state :: "pyval option \<Rightarrow> state" where
  "load_state file = (case file of Some v \<Rightarrow> as_dict v | None \<Rightarrow> [])"

section \<open>The agent\<close>

record agent =
  ag_rt :: runtime
  ag_warn :: rat
  ag_stop :: bool
  ag_disk_rt :: runtime
  ag_disk_st :: state

definition save_runtime :: "agent \<Rightarrow> agent" where
  "save_runtime a = a\<lparr>ag_disk_rt := ag_rt a\<rparr>"

definition save_state :: "state \<Rightarrow> agent \<Rightarrow> agent" where
  "save_state st a = a\<lparr>ag_disk_st := st\<rparr>"

section \<open>What the monitor answers\<close>

text \<open>
  \<open>apply_monitor_config\<close> at the time \<open>now\<close>: whether a configuration was taken, and the agent.
\<close>

definition apply_monitor_config :: "int \<Rightarrow> string \<Rightarrow> agent \<Rightarrow> bool \<times> agent" where
  "apply_monitor_config now response_text a =
     (case json_loads (str_or response_text ''{}'') of
        Some (PDict p) \<Rightarrow>
          (case get_none p ''agent_config'' of
             PDict cfg \<Rightarrow>
               (let pps_warn = max 0 (safe_float (get_none cfg ''pps_warn'') (ag_warn a));
                    revision = max 0 (safe_int (get_none cfg ''revision'') 0);
                    enabled = truthy (dget_or cfg ''network_enabled'' (PBool (0 < pps_warn)));
                    config = PDict [(''pps_warn'', PFloat pps_warn), (''revision'', PInt revision),
                      (''network_enabled'', PBool enabled), (''received_at'', PInt now)] in
                (True, save_runtime (a\<lparr>ag_warn := pps_warn, ag_rt := (ag_rt a)\<lparr>rt_config := config\<rparr>\<rparr>)))
           | _ \<Rightarrow> (False, a))
      | _ \<Rightarrow> (False, a))"

definition restore_monitor_config :: "agent \<Rightarrow> agent" where
  "restore_monitor_config a = (case rt_config (ag_rt a) of
      PDict cfg \<Rightarrow> a\<lparr>ag_warn := max 0 (safe_float (get_none cfg ''pps_warn'') (ag_warn a))\<rparr>
    | _ \<Rightarrow> a)"

section \<open>HTTP\<close>

datatype body = Plain string | Gzip string

record request =
  rq_body :: body
  rq_token :: string
  rq_user_agent :: string

text \<open>\<open>Http_Error\<close> is a response with an error status, \<open>No_Answer\<close> any other failure.\<close>

datatype net_error = Http_Error int string | No_Answer string

definition encode_http_payload :: "config \<Rightarrow> bool \<Rightarrow> string \<Rightarrow> body" where
  "encode_http_payload cf allow_gzip raw =
     (if allow_gzip \<and> c_http_gzip cf \<and> c_http_gzip_min_bytes cf \<le> int (length raw) then Gzip raw else Plain raw)"

definition is_gzip :: "body \<Rightarrow> bool" where
  "is_gzip b = (case b of Gzip _ \<Rightarrow> True | Plain _ \<Rightarrow> False)"

text \<open>
  \<open>post_json_payload\<close> with the encoded payload: \<open>urlopen\<close> is the exchange of one request, over a
  state \<open>'s\<close> of the other side.
\<close>

definition post_json_payload :: "config \<Rightarrow> (request \<Rightarrow> 's \<Rightarrow> (net_error + string) \<times> 's) \<Rightarrow> string \<Rightarrow> string \<Rightarrow> 's
    \<Rightarrow> (net_error + string) \<times> 's" where
  "post_json_payload cf urlopen user_agent raw s =
     (let data = encode_http_payload cf True raw;
          send = (\<lambda>b s. urlopen \<lparr>rq_body = b, rq_token = c_token cf, rq_user_agent = user_agent\<rparr> s) in
      case send data s of
        (Inr text, s1) \<Rightarrow> (Inr text, s1)
      | (Inl (Http_Error code detail), s1) \<Rightarrow>
          (if is_gzip data \<and> code \<in> {400, 415} then send (encode_http_payload cf False raw) s1
           else (Inl (Http_Error code detail), s1))
      | (Inl exc, s1) \<Rightarrow> (Inl exc, s1))"

definition post_payload :: "config \<Rightarrow> (request \<Rightarrow> 's \<Rightarrow> (net_error + string) \<times> 's) \<Rightarrow> string \<Rightarrow> 's
    \<Rightarrow> (net_error + string) \<times> 's" where
  "post_payload cf urlopen raw s = post_json_payload cf urlopen ''VirtInfra-Agent/15'' raw s"

section \<open>The push cycle\<close>

text \<open>
  \<open>send_pending\<close> is given what posting the pending payload brings (\<open>Inl\<close> an exception). Its
  result is the exception or the state to commit, if there is one.
\<close>

definition send_pending :: "int \<Rightarrow> net_error + string \<Rightarrow> agent \<Rightarrow> (net_error + state option) \<times> agent" where
  "send_pending now reply a = (case rt_pending (ag_rt a) of
      No_Pending \<Rightarrow> (Inr None, a)
    | Malformed_Pending \<Rightarrow> (Inr None, save_runtime (a\<lparr>ag_rt := (ag_rt a)\<lparr>rt_pending := No_Pending\<rparr>\<rparr>))
    | Pending p st t \<Rightarrow> (case reply of
          Inl exc \<Rightarrow> (Inl exc, a)
        | Inr text \<Rightarrow>
            (let a1 = save_state st (snd (apply_monitor_config now text a)) in
             (Inr (Some st), save_runtime (a1\<lparr>ag_rt := (ag_rt a1)\<lparr>rt_pending := No_Pending\<rparr>\<rparr>)))))"

text \<open>
  One cycle of \<open>run_push_cycle\<close>, in three parts: carry the frozen window, retry, push. \<open>frozen\<close>
  is what the sampler's rotation returns; \<open>r1\<close> and \<open>r2\<close> are what the two posts bring.
\<close>

definition carry_window :: "config \<Rightarrow> pyval dict \<Rightarrow> agent \<Rightarrow> agent" where
  "carry_window cf frozen a =
     save_runtime (a\<lparr>ag_rt := (ag_rt a)\<lparr>rt_carry := merge_network_windows cf (PDict (rt_carry (ag_rt a))) (PDict frozen)\<rparr>\<rparr>)"

definition retry_pending :: "int \<Rightarrow> net_error + string \<Rightarrow> state \<Rightarrow> agent \<Rightarrow> (state + state) \<times> agent" where
  "retry_pending now r1 committed a =
     (if rt_pending (ag_rt a) = No_Pending then (Inr committed, a)
      else (case send_pending now r1 a of
          (Inl exc, a1) \<Rightarrow> (Inl committed, a1)
        | (Inr None, a1) \<Rightarrow> (Inr committed, a1)
        | (Inr (Some st), a1) \<Rightarrow> (Inr st, a1)))"

definition store_pending :: "payload \<Rightarrow> state \<Rightarrow> iface_meta_entry dict \<Rightarrow> int \<Rightarrow> agent \<Rightarrow> agent" where
  "store_pending p st' m created a =
     save_runtime (a\<lparr>ag_rt := (ag_rt a)\<lparr>rt_map := m, rt_pending := Pending p st' created,
       rt_carry := empty_network_window\<rparr>\<rparr>)"

definition push_current :: "config \<Rightarrow> string \<Rightarrow> env \<Rightarrow> int \<Rightarrow> net_error + string \<Rightarrow> state \<Rightarrow> agent \<Rightarrow> state \<times> agent" where
  "push_current cf note e now r2 committed a =
     (let ((p, st'), m') = collect_cycle_payload cf (ag_warn a) note e committed (rt_map (ag_rt a)) (rt_carry (ag_rt a)) in
      if c_dry_run cf then (committed, a\<lparr>ag_stop := True, ag_rt := (ag_rt a)\<lparr>rt_map := m'\<rparr>\<rparr>)
      else (case send_pending now r2 (store_pending p st' m' now a) of
          (Inr (Some st), a1) \<Rightarrow> (st, a1)
        | (_, a1) \<Rightarrow> (committed, a1)))"

definition run_push_cycle :: "config \<Rightarrow> string \<Rightarrow> env \<Rightarrow> int \<Rightarrow> pyval dict \<Rightarrow> net_error + string \<Rightarrow> net_error + string
    \<Rightarrow> state \<Rightarrow> agent \<Rightarrow> state \<times> agent" where
  "run_push_cycle cf note e now frozen r1 r2 committed a =
     (case retry_pending now r1 committed (carry_window cf frozen a) of
        (Inl st, a1) \<Rightarrow> (st, a1)
      | (Inr st, a1) \<Rightarrow> push_current cf note e now r2 st a1)"

text \<open>The end of \<open>main\<close>: the window of a graceful stop is kept.\<close>

definition stop_agent :: "config \<Rightarrow> pyval dict \<Rightarrow> agent \<Rightarrow> agent" where
  "stop_agent cf frozen a = carry_window cf frozen a"

text \<open>The start of \<open>main\<close>, from the two files as they were last written.\<close>

definition start_agent :: "config \<Rightarrow> runtime \<Rightarrow> state \<Rightarrow> agent \<times> state" where
  "start_agent cf disk_rt disk_st =
     (restore_monitor_config \<lparr>ag_rt = disk_rt, ag_warn = c_pps_warn cf, ag_stop = False,
        ag_disk_rt = disk_rt, ag_disk_st = disk_st\<rparr>, disk_st)"

definition valid_start :: "config \<Rightarrow> (unit + unit)" where
  "valid_start cf =
     (if \<not> c_dry_run cf \<and> (\<not> (starts_with ''http://'' (c_api cf) \<or> starts_with ''https://'' (c_api cf)) \<or> c_token cf = [])
      then Inl () else Inr ())"


section \<open>What the files hold\<close>

definition synced :: "agent \<Rightarrow> bool" where
  "synced a = (ag_disk_rt a = ag_rt a)"

lemma apply_monitor_config_frame [simp]:
  "rt_pending (ag_rt (snd (apply_monitor_config now text a))) = rt_pending (ag_rt a)"
  "rt_carry (ag_rt (snd (apply_monitor_config now text a))) = rt_carry (ag_rt a)"
  "rt_map (ag_rt (snd (apply_monitor_config now text a))) = rt_map (ag_rt a)"
  "ag_disk_st (snd (apply_monitor_config now text a)) = ag_disk_st a"
  "ag_stop (snd (apply_monitor_config now text a)) = ag_stop a"
  by (simp_all add: apply_monitor_config_def save_runtime_def Let_def split: option.split pyval.split)

lemma apply_monitor_config_synced: "synced a \<Longrightarrow> synced (snd (apply_monitor_config now text a))"
  by (simp add: apply_monitor_config_def save_runtime_def synced_def Let_def split: option.split pyval.split)

lemma apply_monitor_config_warn:
  "0 \<le> ag_warn a \<Longrightarrow> 0 \<le> ag_warn (snd (apply_monitor_config now text a))"
  by (simp add: apply_monitor_config_def save_runtime_def Let_def split: option.split pyval.split)

lemma save_simps [simp]:
  "ag_rt (save_runtime a) = ag_rt a" "ag_disk_rt (save_runtime a) = ag_rt a" "ag_disk_st (save_runtime a) = ag_disk_st a"
  "ag_rt (save_state st a) = ag_rt a" "ag_disk_rt (save_state st a) = ag_disk_rt a" "ag_disk_st (save_state st a) = st"
  "ag_warn (save_runtime a) = ag_warn a" "ag_warn (save_state st a) = ag_warn a"
  "ag_stop (save_runtime a) = ag_stop a" "ag_stop (save_state st a) = ag_stop a"
  "synced (save_runtime a)"
  by (simp_all add: save_runtime_def save_state_def synced_def)

lemma carry_window_fields [simp]:
  "rt_pending (ag_rt (carry_window cf fr a)) = rt_pending (ag_rt a)" "rt_map (ag_rt (carry_window cf fr a)) = rt_map (ag_rt a)"
  "rt_carry (ag_rt (carry_window cf fr a)) = merge_network_windows cf (PDict (rt_carry (ag_rt a))) (PDict fr)"
  "ag_disk_st (carry_window cf fr a) = ag_disk_st a" "ag_warn (carry_window cf fr a) = ag_warn a"
  "synced (carry_window cf fr a)" "ag_stop (carry_window cf fr a) = ag_stop a"
  by (simp_all add: carry_window_def)

lemma store_pending_fields [simp]:
  "rt_pending (ag_rt (store_pending p st m t a)) = Pending p st t" "rt_map (ag_rt (store_pending p st m t a)) = m"
  "rt_carry (ag_rt (store_pending p st m t a)) = empty_network_window"
  "ag_disk_st (store_pending p st m t a) = ag_disk_st a" "synced (store_pending p st m t a)"
  by (simp_all add: store_pending_def)

lemma send_pending_failed: "rt_pending (ag_rt a) = Pending p st t \<Longrightarrow> send_pending now (Inl exc) a = (Inl exc, a)"
  by (simp add: send_pending_def)

lemma send_pending_done:
  assumes "rt_pending (ag_rt a) = Pending p st t"
  shows "fst (send_pending now (Inr text) a) = Inr (Some st)"
    and "rt_pending (ag_rt (snd (send_pending now (Inr text) a))) = No_Pending"
    and "ag_disk_st (snd (send_pending now (Inr text) a)) = st"
    and "synced (snd (send_pending now (Inr text) a))"
    and "rt_carry (ag_rt (snd (send_pending now (Inr text) a))) = rt_carry (ag_rt a)"
    and "rt_map (ag_rt (snd (send_pending now (Inr text) a))) = rt_map (ag_rt a)"
  using assms by (simp_all add: send_pending_def Let_def)

lemma start_agent_fields [simp]:
  "ag_rt (fst (start_agent cf rt st)) = rt" "ag_disk_rt (fst (start_agent cf rt st)) = rt"
  "ag_disk_st (fst (start_agent cf rt st)) = st" "snd (start_agent cf rt st) = st" "synced (fst (start_agent cf rt st))"
  by (simp_all add: start_agent_def restore_monitor_config_def synced_def split: pyval.split)

section \<open>The outcomes of a cycle\<close>

lemma cycle_retry_fails:
  assumes "rt_pending (ag_rt a) = Pending p st t"
  shows "run_push_cycle cf note e now frozen (Inl exc) r2 committed a = (committed, carry_window cf frozen a)"
  using assms by (simp add: run_push_cycle_def retry_pending_def send_pending_failed[of "carry_window cf frozen a" p st t])

lemma cycle_push_fails:
  assumes "rt_pending (ag_rt a) = No_Pending" "\<not> c_dry_run cf"
    and "collect_cycle_payload cf (ag_warn a) note e committed (rt_map (ag_rt a)) (rt_carry (ag_rt (carry_window cf frozen a))) = ((p, st'), m')"
  shows "run_push_cycle cf note e now frozen r1 (Inl exc) committed a
    = (committed, store_pending p st' m' now (carry_window cf frozen a))"
  using assms by (simp add: run_push_cycle_def retry_pending_def push_current_def send_pending_failed[of _ p st' now])

lemma cycle_push_done:
  assumes "rt_pending (ag_rt a) = No_Pending" "\<not> c_dry_run cf"
    and "collect_cycle_payload cf (ag_warn a) note e committed (rt_map (ag_rt a)) (rt_carry (ag_rt (carry_window cf frozen a))) = ((p, st'), m')"
  shows "run_push_cycle cf note e now frozen r1 (Inr text) committed a
    = (st', snd (send_pending now (Inr text) (store_pending p st' m' now (carry_window cf frozen a))))"
proof -
  let ?a = "store_pending p st' m' now (carry_window cf frozen a)"
  have "fst (send_pending now (Inr text) ?a) = Inr (Some st')" by (rule send_pending_done(1)) simp
  then obtain a1 where "send_pending now (Inr text) ?a = (Inr (Some st'), a1)"
    by (metis prod.collapse)
  then show ?thesis
    using assms by (simp add: run_push_cycle_def retry_pending_def push_current_def)
qed

section \<open>The second, uncompressed try\<close>

lemma post_plain_after_gzip:
  assumes "encode_http_payload cf True raw = Gzip raw"
    and "urlopen \<lparr>rq_body = Gzip raw, rq_token = c_token cf, rq_user_agent = ua\<rparr> s = (Inl (Http_Error code detail), s1)"
    and "code \<in> {400, 415}"
  shows "post_json_payload cf urlopen ua raw s = urlopen \<lparr>rq_body = Plain raw, rq_token = c_token cf, rq_user_agent = ua\<rparr> s1"
  using assms by (simp add: post_json_payload_def is_gzip_def Let_def) (simp add: encode_http_payload_def)

lemma post_no_second_try:
  assumes "\<not> (is_gzip (encode_http_payload cf True raw) \<and> (\<exists>code detail s'. code \<in> {400, 415} \<and>
      urlopen \<lparr>rq_body = encode_http_payload cf True raw, rq_token = c_token cf, rq_user_agent = ua\<rparr> s = (Inl (Http_Error code detail), s')))"
  shows "post_json_payload cf urlopen ua raw s
    = urlopen \<lparr>rq_body = encode_http_payload cf True raw, rq_token = c_token cf, rq_user_agent = ua\<rparr> s"
  using assms
  by (auto simp: post_json_payload_def Let_def split: prod.split sum.split net_error.split)

lemma runtime_loaded:
  "rt_pending (load_runtime decode None) = No_Pending \<and> window_ok (rt_carry (load_runtime decode None))"
  by (simp add: load_runtime_def pending_of_def is_dict_def)


section \<open>Properties\<close>

text \<open>C6. Nothing measured is dropped when a push fails. A failed retry keeps the pending payload and adds
  the frozen window to the carried one; a failed push leaves the new payload pending together with the
  state to commit; in both cases the committed state and the state file are as before and the runtime
  file holds what the agent holds.\<close>

theorem failed_push_keeps_everything:
  assumes "\<not> c_dry_run cf"
    and "collect_cycle_payload cf (ag_warn a) nt e committed (rt_map (ag_rt a))
           (merge_network_windows cf (PDict (rt_carry (ag_rt a))) (PDict frozen)) = ((p, st'), m')"
  shows "run_push_cycle cf nt e now frozen (Inl exc) (Inl exc2) committed a
    = (committed, case rt_pending (ag_rt a) of
        Pending _ _ _ \<Rightarrow> carry_window cf frozen a
      | No_Pending \<Rightarrow> store_pending p st' m' now (carry_window cf frozen a)
      | Malformed_Pending \<Rightarrow> store_pending p st' m' now (save_runtime ((carry_window cf frozen a)
          \<lparr>ag_rt := (ag_rt (carry_window cf frozen a))\<lparr>rt_pending := No_Pending\<rparr>\<rparr>)))
    \<and> ag_disk_st (snd (run_push_cycle cf nt e now frozen (Inl exc) (Inl exc2) committed a)) = ag_disk_st a
    \<and> synced (snd (run_push_cycle cf nt e now frozen (Inl exc) (Inl exc2) committed a))"
proof (cases "rt_pending (ag_rt a)")
  case No_Pending
  then show ?thesis using assms cycle_push_fails[of a cf nt e committed frozen p st' m' now "Inl exc" exc2] by simp
next
  case Malformed_Pending
  let ?c = "carry_window cf frozen a"
  let ?a = "save_runtime (?c\<lparr>ag_rt := (ag_rt ?c)\<lparr>rt_pending := No_Pending\<rparr>\<rparr>)"
  have r: "retry_pending now (Inl exc) committed ?c = (Inr committed, ?a)"
    using Malformed_Pending by (simp add: retry_pending_def send_pending_def)
  have w: "ag_warn ?a = ag_warn a" "rt_map (ag_rt ?a) = rt_map (ag_rt a)"
    "rt_carry (ag_rt ?a) = merge_network_windows cf (PDict (rt_carry (ag_rt a))) (PDict frozen)" by simp_all
  have "push_current cf nt e now (Inl exc2) committed ?a = (committed, store_pending p st' m' now ?a)"
    using assms by (simp add: push_current_def send_pending_failed[of _ p st' now])
  then have run: "run_push_cycle cf nt e now frozen (Inl exc) (Inl exc2) committed a = (committed, store_pending p st' m' now ?a)"
    unfolding run_push_cycle_def r by simp
  show ?thesis unfolding run using Malformed_Pending by simp
next
  case (Pending q st t)
  then show ?thesis using cycle_retry_fails[OF Pending, of cf nt e now frozen exc "Inl exc2" committed] by simp
qed

definition sample_agent :: agent where
  "sample_agent = fst (start_agent light_config \<lparr>rt_carry = empty_network_window, rt_map = sample_map, rt_pending = No_Pending, rt_config = PNone\<rparr>
     (sample_state 100))"

lemma sample_agent_fields [simp]: "rt_pending (ag_rt sample_agent) = No_Pending" "rt_map (ag_rt sample_agent) = sample_map"
  "rt_carry (ag_rt sample_agent) = empty_network_window" "ag_disk_st sample_agent = sample_state 100" "synced sample_agent"
  by (simp_all add: sample_agent_def)

theorem failed_push_keeps_everything_witness:
  "\<exists>p st'. rt_pending (ag_rt (snd (run_push_cycle light_config [] (sample_node ''250'' 1500) 1501 [] (Inl (No_Answer [])) (Inl (No_Answer []))
       (sample_state 100) sample_agent))) = Pending p st' 1501
     \<and> pl_time p = 1500 \<and> get_none st' ''net:vm-a:vnet0'' = PDict (counters_dict (sample_counters 250))"
proof -
  obtain p st' m' where res: "collect_cycle_payload light_config (ag_warn sample_agent) [] (sample_node ''250'' 1500) (sample_state 100)
      (rt_map (ag_rt sample_agent)) (merge_network_windows light_config (PDict (rt_carry (ag_rt sample_agent))) (PDict [])) = ((p, st'), m')"
    by (metis prod.exhaust)
  note c = res[unfolded sample_agent_fields(2)]
  from failed_push_keeps_everything[OF light_config_fields(1) res, of 1501 "No_Answer []" "No_Answer []"]
  have "rt_pending (ag_rt (snd (run_push_cycle light_config [] (sample_node ''250'' 1500) 1501 [] (Inl (No_Answer [])) (Inl (No_Answer []))
       (sample_state 100) sample_agent))) = Pending p st' 1501" by simp
  moreover have "pl_time p = 1500" by (rule sample_cycle(3)[OF sample_digits(3) c])
  moreover have "get_none st' ''net:vm-a:vnet0'' = PDict (counters_dict (sample_counters 250))"
    by (simp add: sample_cycle(6)[OF sample_digits(3) c] net_key_def)
  ultimately show ?thesis by blast
qed

text \<open>A delivered payload takes its state with it: when the answer to a push arrives, the state the
  payload was collected with is committed, written to the state file, and no payload is pending.\<close>

theorem delivered_push_commits:
  assumes "rt_pending (ag_rt a) = No_Pending" "\<not> c_dry_run cf"
    and "collect_cycle_payload cf (ag_warn a) nt e committed (rt_map (ag_rt a)) (rt_carry (ag_rt (carry_window cf frozen a))) = ((p, st'), m')"
  shows "fst (run_push_cycle cf nt e now frozen r1 (Inr answer) committed a) = st'
    \<and> ag_disk_st (snd (run_push_cycle cf nt e now frozen r1 (Inr answer) committed a)) = st'
    \<and> rt_pending (ag_rt (snd (run_push_cycle cf nt e now frozen r1 (Inr answer) committed a))) = No_Pending
    \<and> rt_carry (ag_rt (snd (run_push_cycle cf nt e now frozen r1 (Inr answer) committed a))) = empty_network_window
    \<and> synced (snd (run_push_cycle cf nt e now frozen r1 (Inr answer) committed a))"
proof -
  have s: "rt_pending (ag_rt (store_pending p st' m' now (carry_window cf frozen a))) = Pending p st' now" by simp
  show ?thesis
    unfolding cycle_push_done[OF assms] using send_pending_done[OF s, of now answer] by simp
qed

theorem delivered_push_commits_witness:
  "get_none (fst (run_push_cycle light_config [] (sample_node ''250'' 1500) 1501 [] (Inr []) (Inr ''{}'') (sample_state 100) sample_agent))
      ''net:vm-a:vnet0'' = PDict (counters_dict (sample_counters 250))
   \<and> rt_pending (ag_rt (snd (run_push_cycle light_config [] (sample_node ''250'' 1500) 1501 [] (Inr []) (Inr ''{}'') (sample_state 100) sample_agent)))
      = No_Pending"
proof -
  obtain p st' m' where res: "collect_cycle_payload light_config (ag_warn sample_agent) [] (sample_node ''250'' 1500) (sample_state 100)
      (rt_map (ag_rt sample_agent)) (rt_carry (ag_rt (carry_window light_config [] sample_agent))) = ((p, st'), m')"
    by (metis prod.exhaust)
  note c = res[unfolded sample_agent_fields(2)]
  have "get_none st' ''net:vm-a:vnet0'' = PDict (counters_dict (sample_counters 250))"
    by (simp add: sample_cycle(6)[OF sample_digits(3) c] net_key_def)
  then show ?thesis
    using delivered_push_commits[OF sample_agent_fields(1) light_config_fields(1) res, of 1501 "Inr []" "''{}''"] by simp
qed

text \<open>A monitor that does not understand compression is asked once more without it: after a 400 or
  415 to a compressed request exactly one second request is made, with the plain text, and its outcome
  is the outcome; the two requests are the only ones.\<close>

theorem plain_after_refused_gzip:
  assumes "c_http_gzip cf" "c_http_gzip_min_bytes cf \<le> int (length raw)"
    and "urlopen \<lparr>rq_body = Gzip raw, rq_token = c_token cf, rq_user_agent = ''VirtInfra-Agent/15''\<rparr> s = (r, s1)"
  shows "post_payload cf urlopen raw s
    = (case r of
         Inl (Http_Error code detail) \<Rightarrow>
           (if code = 400 \<or> code = 415
            then urlopen \<lparr>rq_body = Plain raw, rq_token = c_token cf, rq_user_agent = ''VirtInfra-Agent/15''\<rparr> s1 else (r, s1))
       | _ \<Rightarrow> (r, s1))"
  using assms
  by (auto simp: post_payload_def post_json_payload_def encode_http_payload_def is_gzip_def Let_def
      split: sum.split net_error.split)

definition old_monitor :: "request \<Rightarrow> request list \<Rightarrow> (net_error + string) \<times> request list" where
  "old_monitor r seen = (if is_gzip (rq_body r) then Inl (Http_Error 415 ''unsupported'') else Inr ''{}'', seen @ [r])"

theorem plain_after_refused_gzip_witness:
  "let (r, seen) = post_payload (sample_config\<lparr>c_http_gzip_min_bytes := 2\<rparr>) old_monitor ''{}'' [] in
     r = Inr ''{}'' \<and> map rq_body seen = [Gzip ''{}'', Plain ''{}'']"
proof -
  let ?cf = "sample_config\<lparr>c_http_gzip_min_bytes := 2\<rparr>"
  let ?g = "\<lparr>rq_body = Gzip ''{}'', rq_token = c_token ?cf, rq_user_agent = ''VirtInfra-Agent/15''\<rparr>"
  have u: "old_monitor ?g [] = (Inl (Http_Error 415 ''unsupported''), [?g])"
    by (simp add: old_monitor_def is_gzip_def)
  have "c_http_gzip ?cf" by (simp add: sample_config_def)
  from plain_after_refused_gzip[of ?cf "''{}''" old_monitor "[]", OF this _ u]
  show ?thesis by (simp add: old_monitor_def is_gzip_def)
qed

end
