(* ===== verification/Server_Base.thy ===== *)
theory Server_Base
  imports Json
begin

text \<open>
  What the server side shares: the statements of SQL the code uses (insert with a conflict clause,
  grouping, integer division and rounding) over tables kept as lists of rows, and the time grid
  of the monitor (app/runtime_layers/02_common_formatting_inventory.py and 10_ingest_push.py):
  five-minute buckets, local hours and local days.
\<close>

section \<open>SQL\<close>

text \<open>INSERT ... ON CONFLICT(key) DO UPDATE: \<open>merge\<close> combines the stored row with the new one.\<close>

fun upsert :: "('r \<Rightarrow> 'k) \<Rightarrow> ('r \<Rightarrow> 'r \<Rightarrow> 'r) \<Rightarrow> 'r \<Rightarrow> 'r list \<Rightarrow> 'r list" where
  "upsert key merge new [] = [new]"
| "upsert key merge new (r # rs) = (if key r = key new then merge r new # rs else r # upsert key merge new rs)"

definition row_of :: "('r \<Rightarrow> 'k) \<Rightarrow> 'k \<Rightarrow> 'r list \<Rightarrow> 'r option" where
  "row_of key k rows = find (\<lambda>r. key r = k) rows"

text \<open>INSERT OR IGNORE: the row count and the table.\<close>

definition insert_or_ignore :: "('r \<Rightarrow> 'k) \<Rightarrow> 'r \<Rightarrow> 'r list \<Rightarrow> nat \<times> 'r list" where
  "insert_or_ignore key new rows = (if row_of key (key new) rows = None then (1, rows @ [new]) else (0, rows))"

text \<open>GROUP BY \<open>key\<close> with the aggregates \<open>agg\<close>.\<close>

definition group_rows :: "('r \<Rightarrow> 'k) \<Rightarrow> ('k \<Rightarrow> 'r list \<Rightarrow> 'g) \<Rightarrow> 'r list \<Rightarrow> 'g list" where
  "group_rows key agg rows = map (\<lambda>k. agg k (filter (\<lambda>r. key r = k) rows)) (remdups (map key rows))"

definition sql_div :: "int \<Rightarrow> int \<Rightarrow> int" where
  "sql_div a b = sgn a * sgn b * (\<bar>a\<bar> div \<bar>b\<bar>)"

text \<open>ROUND of a numeric: half away from zero.\<close>

definition sql_round :: "rat \<Rightarrow> int" where
  "sql_round q = (if q < 0 then - \<lfloor>1 / 2 - q\<rfloor> else \<lfloor>q + 1 / 2\<rfloor>)"

lemma sql_div_nonneg [simp]: "0 \<le> a \<Longrightarrow> 0 < b \<Longrightarrow> sql_div a b = a div b"
  by (cases "a = 0") (simp_all add: sql_div_def)

lemma sql_round_0 [simp]: "sql_round 0 = 0"
  by (simp add: sql_round_def) linarith

lemma row_of_Nil [simp]: "row_of key k [] = None"
  by (simp add: row_of_def)

lemma row_of_Cons [simp]: "row_of key k (r # rs) = (if key r = k then Some r else row_of key k rs)"
  by (simp add: row_of_def)

lemma row_of_append: "row_of key k (xs @ ys) = (case row_of key k xs of None \<Rightarrow> row_of key k ys | Some r \<Rightarrow> Some r)"
  by (induction xs) simp_all

lemma row_of_key: "row_of key k rows = Some r \<Longrightarrow> key r = k \<and> r \<in> set rows"
  by (induction rows) (auto split: if_splits)

lemma row_of_None_iff: "row_of key k rows = None \<longleftrightarrow> k \<notin> key ` set rows"
  by (induction rows) auto

lemma row_of_distinct: "distinct (map key rows) \<Longrightarrow> r \<in> set rows \<Longrightarrow> row_of key (key r) rows = Some r"
  by (induction rows) auto

definition keeps_key :: "('r \<Rightarrow> 'k) \<Rightarrow> ('r \<Rightarrow> 'r \<Rightarrow> 'r) \<Rightarrow> bool" where
  "keeps_key key merge = (\<forall>r new. key r = key new \<longrightarrow> key (merge r new) = key r)"

lemma row_of_upsert:
  assumes "keeps_key key merge"
  shows "row_of key k (upsert key merge new rows) =
    (if k = key new then Some (case row_of key k rows of None \<Rightarrow> new | Some r \<Rightarrow> merge r new) else row_of key k rows)"
  using assms by (induction rows) (auto simp: keeps_key_def)

lemma upsert_keys:
  assumes "keeps_key key merge"
  shows "key ` set (upsert key merge new rows) = insert (key new) (key ` set rows)"
  using assms by (induction rows) (auto simp: keeps_key_def)

lemma distinct_upsert:
  assumes "keeps_key key merge" "distinct (map key rows)"
  shows "distinct (map key (upsert key merge new rows))"
  using assms(2)
proof (induction rows)
  case (Cons r rs)
  have "key r \<noteq> key new \<Longrightarrow> key r \<notin> key ` set (upsert key merge new rs)"
    using Cons.prems upsert_keys[of key merge new rs, OF assms(1)] by auto
  then show ?case using Cons assms(1) by (auto simp: keeps_key_def simp del: upsert.simps(1))
qed simp

lemma upsert_all:
  assumes "\<And>r. r \<in> set rows \<Longrightarrow> P r" "P new" "\<And>r. P r \<Longrightarrow> key r = key new \<Longrightarrow> P (merge r new)" "x \<in> set (upsert key merge new rows)"
  shows "P x"
  using assms(1,4)
proof (induction rows)
  case (Cons r rs)
  then show ?case using assms(3) by (cases "key r = key new") auto
qed (use assms(2) in simp)

lemma insert_or_ignore_twice:
  "insert_or_ignore key new (snd (insert_or_ignore key new rows)) = (0, snd (insert_or_ignore key new rows))"
  by (simp add: insert_or_ignore_def row_of_append split: option.splits)

lemma insert_or_ignore_key: "row_of key (key new) (snd (insert_or_ignore key new rows)) \<noteq> None"
  by (simp add: insert_or_ignore_def row_of_append split: option.splits)

lemma distinct_insert_or_ignore:
  "distinct (map key rows) \<Longrightarrow> distinct (map key (snd (insert_or_ignore key new rows)))"
  by (auto simp: insert_or_ignore_def row_of_None_iff)

lemma group_rows_keys: "(\<And>k rs. gkey (agg k rs) = k) \<Longrightarrow> map gkey (group_rows key agg rows) = remdups (map key rows)"
  by (simp add: group_rows_def o_def)

lemma row_of_group:
  assumes "\<And>k rs. gkey (agg k rs) = k"
  shows "row_of gkey k (group_rows key agg rows)
    = (if k \<in> key ` set rows then Some (agg k (filter (\<lambda>r. key r = k) rows)) else None)"
proof -
  have "row_of gkey k (map (\<lambda>k. agg k (F k)) ks) = (if k \<in> set ks then Some (agg k (F k)) else None)" for ks F
    using assms by (induction ks) auto
  then show ?thesis by (simp add: group_rows_def)
qed

text \<open>Folding the rows of distinct keys into a table changes every key at most once.\<close>

lemma row_of_fold_upsert:
  assumes "keeps_key key merge" "distinct (map key news)"
  shows "row_of key k (fold (upsert key merge) news rows) =
    (case row_of key k news of None \<Rightarrow> row_of key k rows
     | Some new \<Rightarrow> Some (case row_of key k rows of None \<Rightarrow> new | Some r \<Rightarrow> merge r new))"
  using assms(2)
proof (induction news arbitrary: rows)
  case (Cons n ns)
  have "key n \<notin> key ` set ns" using Cons.prems by auto
  then have "row_of key (key n) ns = None" by (simp add: row_of_None_iff)
  then show ?case using Cons by (auto simp: row_of_upsert[OF assms(1)] split: option.splits)
qed simp

lemma distinct_fold_upsert:
  assumes "keeps_key key merge" "distinct (map key rows)"
  shows "distinct (map key (fold (upsert key merge) news rows))"
  using assms(2) by (induction news arbitrary: rows) (simp_all add: distinct_upsert[OF assms(1)])

section \<open>The time grid\<close>

definition CACHE_BUCKET_SECONDS :: int where
  "CACHE_BUCKET_SECONDS = 300"

definition bucket_for :: "int \<Rightarrow> int" where
  "bucket_for ts = (ts div CACHE_BUCKET_SECONDS) * CACHE_BUCKET_SECONDS"

text \<open>\<open>tz\<close> is RETENTION_TZ_OFFSET_SECONDS.\<close>

definition local_hour_start :: "int \<Rightarrow> int \<Rightarrow> int" where
  "local_hour_start tz ts = ((ts + tz) div 3600) * 3600 - tz"

definition local_day_start :: "int \<Rightarrow> int \<Rightarrow> int" where
  "local_day_start tz ts = ((ts + tz) div 86400) * 86400 - tz"

text \<open>Slot start, hour, day and slot number of a push: the five minutes that have just ended.\<close>

definition slot_coordinates :: "int \<Rightarrow> int \<Rightarrow> int \<times> int \<times> int \<times> int" where
  "slot_coordinates tz data_time =
     (let slot_start = bucket_for data_time - CACHE_BUCKET_SECONDS;
          hour_start = local_hour_start tz slot_start;
          day_start = local_day_start tz slot_start;
          slot_no = max 0 (min 11 ((slot_start - hour_start) div CACHE_BUCKET_SECONDS)) in
      (slot_start, hour_start, day_start, slot_no))"

lemma bucket_for_bounds: "bucket_for ts \<le> ts \<and> ts < bucket_for ts + 300"
  by (simp add: bucket_for_def CACHE_BUCKET_SECONDS_def) linarith

lemma bucket_for_dvd [simp]: "300 dvd bucket_for ts"
  by (simp add: bucket_for_def CACHE_BUCKET_SECONDS_def)

lemma hour_bounds: "local_hour_start tz ts \<le> ts \<and> ts < local_hour_start tz ts + 3600"
  by (simp add: local_hour_start_def) linarith

lemma day_bounds: "local_day_start tz ts \<le> ts \<and> ts < local_day_start tz ts + 86400"
  by (simp add: local_day_start_def) linarith

lemma div_mult_eq_iff: "0 < (n::int) \<Longrightarrow> n dvd b \<Longrightarrow> (x div n) * n = b \<longleftrightarrow> b \<le> x \<and> x < b + n"
proof
  assume "0 < n" "n dvd b" and b: "b \<le> x \<and> x < b + n"
  then obtain k where k: "b = n * k" by (auto elim: dvdE)
  have "x div n = k"
    using b \<open>0 < n\<close> by (intro div_pos_pos_trivial[THEN trans] int_div_pos_eq[of x n k "x - b"]) (auto simp: k)
  then show "(x div n) * n = b" by (simp add: k)
next
  assume n: "0 < n" and "(x div n) * n = b"
  then have "x = b + x mod n" by (metis div_mult_mod_eq)
  moreover have "0 \<le> x mod n" "x mod n < n" using n by simp_all
  ultimately show "b \<le> x \<and> x < b + n" by linarith
qed

definition hour_aligned :: "int \<Rightarrow> int \<Rightarrow> bool" where
  "hour_aligned tz t = (3600 dvd t + tz)"

definition day_aligned :: "int \<Rightarrow> int \<Rightarrow> bool" where
  "day_aligned tz t = (86400 dvd t + tz)"

lemma hour_aligned_start [simp]: "hour_aligned tz (local_hour_start tz ts)"
  by (simp add: hour_aligned_def local_hour_start_def)

lemma day_aligned_start [simp]: "day_aligned tz (local_day_start tz ts)"
  by (simp add: day_aligned_def local_day_start_def)

lemma day_is_hour: "day_aligned tz t \<Longrightarrow> hour_aligned tz t"
  unfolding day_aligned_def hour_aligned_def by (rule dvd_trans[of _ 86400]) simp_all

lemma hour_start_iff: "hour_aligned tz h \<Longrightarrow> local_hour_start tz t = h \<longleftrightarrow> h \<le> t \<and> t < h + 3600"
  using div_mult_eq_iff[of 3600 "h + tz" "t + tz"] by (auto simp: hour_aligned_def local_hour_start_def)

lemma day_start_iff: "day_aligned tz d \<Longrightarrow> local_day_start tz t = d \<longleftrightarrow> d \<le> t \<and> t < d + 86400"
  using div_mult_eq_iff[of 86400 "d + tz" "t + tz"] by (auto simp: day_aligned_def local_day_start_def)

text \<open>An aligned bound can be compared with the start of the hour or day instead of the time.\<close>

lemma aligned_le_floor: "0 < (n::int) \<Longrightarrow> n dvd b \<Longrightarrow> b \<le> (x div n) * n \<longleftrightarrow> b \<le> x"
proof
  assume n: "0 < n" "n dvd b" and "b \<le> x"
  then obtain k where k: "b = n * k" by (auto elim: dvdE)
  have "k \<le> x div n" using \<open>b \<le> x\<close> n(1) k by (metis int_div_le_self linorder_not_less nonzero_mult_div_cancel_left zdiv_mono1 less_irrefl)
  then show "b \<le> (x div n) * n" using n(1) k by (simp add: mult.commute)
next
  assume n: "0 < n" and "b \<le> (x div n) * n"
  moreover have "(x div n) * n \<le> x" using n by (metis div_mult_mod_eq le_add_same_cancel1 pos_mod_sign)
  ultimately show "b \<le> x" by linarith
qed

lemma hour_start_ge: "hour_aligned tz b \<Longrightarrow> b \<le> local_hour_start tz t \<longleftrightarrow> b \<le> t"
  using aligned_le_floor[of 3600 "b + tz" "t + tz"] by (auto simp: hour_aligned_def local_hour_start_def)

lemma hour_start_less: "hour_aligned tz b \<Longrightarrow> local_hour_start tz t < b \<longleftrightarrow> t < b"
  using hour_start_ge[of tz b t] by linarith

lemma day_start_ge: "day_aligned tz b \<Longrightarrow> b \<le> local_day_start tz t \<longleftrightarrow> b \<le> t"
  using aligned_le_floor[of 86400 "b + tz" "t + tz"] by (auto simp: day_aligned_def local_day_start_def)

lemma day_start_less: "day_aligned tz b \<Longrightarrow> local_day_start tz t < b \<longleftrightarrow> t < b"
  using day_start_ge[of tz b t] by linarith

lemma bucket_ge: "300 dvd b \<Longrightarrow> b \<le> bucket_for t \<longleftrightarrow> b \<le> t"
  using aligned_le_floor[of 300 b t] by (simp add: bucket_for_def CACHE_BUCKET_SECONDS_def)

lemma slot_div: "0 \<le> d \<Longrightarrow> d < 3600 \<Longrightarrow> 0 \<le> d div 300 \<and> d div 300 \<le> 11" for d :: int
  by linarith

lemma slot_coordinates_ok:
  assumes "slot_coordinates tz t = (s, h, d, n)"
  shows "s = bucket_for t - 300" "h = local_hour_start tz s" "d = local_day_start tz s"
    "n = (s - h) div 300" "0 \<le> n" "n \<le> 11" "h + 300 * n \<le> s" "s < h + 300 * n + 300"
proof -
  have e: "s = bucket_for t - 300" "h = local_hour_start tz s" "d = local_day_start tz s"
    "n = max 0 (min 11 ((s - h) div 300))"
    using assms by (auto simp: slot_coordinates_def Let_def CACHE_BUCKET_SECONDS_def)
  show "s = bucket_for t - 300" "h = local_hour_start tz s" "d = local_day_start tz s"
    by (fact e)+
  have "0 \<le> s - h" "s - h < 3600" using hour_bounds[of tz s] by (simp_all add: e(2))
  then have q: "0 \<le> (s - h) div 300" "(s - h) div 300 \<le> 11" by simp_all
  then show n: "n = (s - h) div 300" "0 \<le> n" "n \<le> 11"
    by (simp_all add: e(4))
  show "h + 300 * n \<le> s" "s < h + 300 * n + 300" using n(1) by linarith+
qed

end
