(* ===== verification/Push_Ingest.thy ===== *)
theory Push_Ingest
  imports Server_Base Agent_Base
begin

text \<open>
  The monitor's side of a push: the request body (\<open>read_agent_json_request\<close> of
  app/runtime_layers/00_bootstrap_database.py), the admission of \<open>push\<close>
  (app/runtime_layers/10_ingest_push.py) with the receipts that recognise a repeated payload, the
  recorded outages (04_charts_vm.py), and the interface rows with their merge into the hourly and
  daily consumption tables (37_native_copy_ingest.py). Each statement works inside one
  transaction, so a push is one step of the database.
\<close>

section \<open>The request\<close>

text \<open>
  \<open>gunzip\<close> is the decompression of the standard library: nothing for an invalid stream. The limit
  is \<open>MAX_UNCOMPRESSED_PUSH_BYTES\<close>.
\<close>

definition read_agent_json_request :: "(string \<Rightarrow> string option) \<Rightarrow> int \<Rightarrow> string \<Rightarrow> string \<Rightarrow> string + pyval dict" where
  "read_agent_json_request gunzip limit content_encoding raw =
     (let encoding = lower (strip content_encoding) in
      if raw = [] then Inr []
      else if encoding \<notin> {[], ''identity'', ''gzip''} then Inl ''unsupported content encoding''
      else (case (if encoding = ''gzip'' then gunzip raw else Some raw) of
          None \<Rightarrow> Inl ''invalid gzip payload''
        | Some decoded \<Rightarrow>
            if limit < int (length decoded) then Inl ''uncompressed payload too large''
            else (case json_loads decoded of
                None \<Rightarrow> Inl ''invalid json payload''
              | Some (PDict d) \<Rightarrow> Inr d
              | Some _ \<Rightarrow> Inl ''payload is not a JSON object'')))"

record settings =
  sg_tokens :: "string list"
  sg_max_future :: int
  sg_accept_after :: int
  sg_status_seconds :: int
  sg_tz :: int
  sg_warn_pps :: rat
  sg_crit_pps :: rat
  sg_warn_mbps :: rat
  sg_crit_mbps :: rat
  sg_abuse_pps :: rat

text \<open>The tokens of \<open>_v5057_agent_tokens\<close>: the current one and the legacy list, without blanks.\<close>

definition agent_tokens :: "string \<Rightarrow> string \<Rightarrow> string list" where
  "agent_tokens token legacy =
     dedup_first [] (filter (\<lambda>v. v \<noteq> []) (strip token # words_ws (map (\<lambda>c. if c = CHR '','' then CHR '' '' else c) legacy)))"

definition valid_agent_token :: "settings \<Rightarrow> string \<Rightarrow> bool" where
  "valid_agent_token sg value = list_ex (\<lambda>expected. value = expected) (sg_tokens sg)"

section \<open>The tables\<close>

record receipt =
  rc_node :: string
  rc_time :: int
  rc_bucket :: int
  rc_received :: int

record missed_event =
  me_node :: string
  me_last_good :: int
  me_missed_from :: int
  me_recovered :: int
  me_cycles :: int
  me_gap :: int

record snapshot =
  sn_node :: string
  sn_bucket :: int
  sn_push_time :: int
  sn_last_push :: int
  sn_vm_count :: int
  sn_iface_count :: int
  sn_complete :: bool
  sn_tier :: string

record node_row =
  nd_node :: string
  nd_first_seen :: int
  nd_last_push :: int
  nd_status :: string
  nd_hidden_at :: "int option"
  nd_deleted_at :: "int option"

text \<open>
  One row of a consumption table: its hour or day, the eight totals, the number of samples. The
  hourly rows have the twelve packed slots of five minutes, the mask of the slots with a sample
  and the version of that packing (rows from before it have none).
\<close>

record usage_row =
  us_start :: int
  us_node :: string
  us_vm :: string
  us_bridge :: string
  us_total :: counters
  us_samples :: int
  us_last :: int

record hourly_row = usage_row +
  hr_rx_slots :: "int list"
  hr_tx_slots :: "int list"
  hr_mask :: "int set"
  hr_version :: "int option"

record monitor =
  db_receipts :: "receipt list"
  db_missed :: "missed_event list"
  db_snapshots :: "snapshot list"
  db_nodes :: "node_row list"
  db_hourly :: "hourly_row list"
  db_daily :: "usage_row list"

definition empty_monitor :: monitor where
  "empty_monitor = \<lparr>db_receipts = [], db_missed = [], db_snapshots = [], db_nodes = [], db_hourly = [], db_daily = []\<rparr>"

definition receipt_key :: "receipt \<Rightarrow> string \<times> int" where
  "receipt_key r = (rc_node r, rc_time r)"

definition usage_key :: "'z usage_row_scheme \<Rightarrow> int \<times> string \<times> string \<times> string" where
  "usage_key r = (us_start r, us_node r, us_vm r, us_bridge r)"

section \<open>Outages, snapshots and the inventory\<close>

definition missed_cycles_for_gap :: "settings \<Rightarrow> int \<Rightarrow> int \<Rightarrow> int" where
  "missed_cycles_for_gap sg previous current =
     (if previous \<le> 0 \<or> current \<le> previous then 0
      else max 0 ((current - previous - sg_status_seconds sg) div sg_status_seconds sg))"

definition record_recovered_miss_event :: "settings \<Rightarrow> string \<Rightarrow> int \<Rightarrow> int \<Rightarrow> missed_event list \<Rightarrow> missed_event list" where
  "record_recovered_miss_event sg node previous current evs =
     (let cycles = missed_cycles_for_gap sg previous current in
      if cycles \<le> 0 then evs
      else snd (insert_or_ignore (\<lambda>e. (me_node e, me_last_good e, me_recovered e))
        \<lparr>me_node = node, me_last_good = previous, me_missed_from = previous + sg_status_seconds sg,
         me_recovered = current, me_cycles = cycles, me_gap = current - previous\<rparr> evs))"

definition merge_snapshot :: "snapshot \<Rightarrow> snapshot \<Rightarrow> snapshot" where
  "merge_snapshot old new = old\<lparr>sn_push_time := max (sn_push_time old) (sn_push_time new),
     sn_last_push := max (sn_last_push old) (sn_last_push new), sn_vm_count := sn_vm_count new,
     sn_iface_count := sn_iface_count new, sn_complete := (sn_complete old \<or> sn_complete new), sn_tier := ''raw''\<rparr>"

definition merge_node :: "node_row \<Rightarrow> node_row \<Rightarrow> node_row" where
  "merge_node old new = old\<lparr>nd_last_push := max (nd_last_push old) (nd_last_push new),
     nd_status := (if nd_status old = ''hidden'' then ''hidden'' else ''active''),
     nd_hidden_at := (if nd_status old = ''hidden'' then nd_hidden_at old else None), nd_deleted_at := None\<rparr>"

text \<open>The distinct machines a payload names, in its interfaces, machines or inventory.\<close>

definition snapshot_uuid :: "pyval \<Rightarrow> string" where
  "snapshot_uuid item = strip (py_str (case item of
      PDict d \<Rightarrow> py_or (py_or (get_none d ''vm_uuid'') (get_none d ''uuid'')) (PStr [])
    | v \<Rightarrow> py_or v (PStr [])))"

definition snapshot_vm_uuids :: "pyval list \<Rightarrow> string list" where
  "snapshot_vm_uuids items = remdups (filter (\<lambda>u. u \<noteq> [] \<and> u \<noteq> ''-'') (map snapshot_uuid items))"

section \<open>The interface rows\<close>

definition py_list :: "pyval \<Rightarrow> pyval list option" where
  "py_list v = (case v of PList xs \<Rightarrow> Some xs | _ \<Rightarrow> None)"

definition clean_network_sample_quality :: "pyval \<Rightarrow> string" where
  "clean_network_sample_quality v = (let q = upper (strip (py_str (py_or v (PStr ''LEGACY'')))) in
     if q \<in> {''GOOD'', ''DEGRADED'', ''POOR'', ''NO_DATA'', ''LEGACY''} then q else ''LEGACY'')"

definition network_sample_quality_rank :: "string \<Rightarrow> int" where
  "network_sample_quality_rank v = (let q = clean_network_sample_quality (PStr v) in
     if q = ''POOR'' then 3 else if q = ''DEGRADED'' then 2 else if q = ''GOOD'' then 1 else 0)"

definition normalize_mac_address :: "pyval \<Rightarrow> string" where
  "normalize_mac_address v =
     (let compact = filter (\<lambda>c. c \<in> set ''0123456789abcdef'') (lower (strip (py_str (py_or v (PStr []))))) in
      if length compact \<noteq> 12 then []
      else join '':'' (map (\<lambda>pos. take 2 (drop (2 * pos) compact)) [0..<6]))"

record stage_row =
  sr_ord :: nat
  sr_hour :: int
  sr_day :: int
  sr_bucket :: int
  sr_node :: string
  sr_bridge :: string
  sr_iface :: string
  sr_vm :: string
  sr_mac :: string
  sr_last_push :: int
  sr_interval :: int
  sr_delta :: counters
  sr_rx_mbps :: rat
  sr_tx_mbps :: rat
  sr_rx_pps :: rat
  sr_tx_pps :: rat
  sr_rx_mbps_peak :: rat
  sr_tx_mbps_peak :: rat
  sr_rx_pps_peak :: rat
  sr_tx_pps_peak :: rat
  sr_rx_packet_size :: rat
  sr_tx_packet_size :: rat
  sr_sample_count :: int
  sr_sample_expected :: int
  sr_max_gap :: rat
  sr_over_pps :: int
  sr_over_mbps :: int
  sr_over_rx_pps :: int
  sr_over_tx_pps :: int
  sr_quality :: string
  sr_quality_rank :: int
  sr_alert_level :: string
  sr_alert_flags :: string

definition natural :: "pyval dict \<Rightarrow> string \<Rightarrow> int" where
  "natural d k = max 0 (safe_int (get_none d k) 0)"

definition text_or :: "pyval dict \<Rightarrow> string \<Rightarrow> string \<Rightarrow> string" where
  "text_or d k dflt = py_str (py_or (get_none d k) (PStr dflt))"

definition item_counters :: "pyval dict \<Rightarrow> counters" where
  "item_counters d = \<lparr>rx = natural d ''rx_delta'', tx = natural d ''tx_delta'',
     rx_packets = natural d ''rx_packets_delta'', tx_packets = natural d ''tx_packets_delta'',
     rx_drop = natural d ''rx_drop_delta'', tx_drop = natural d ''tx_drop_delta'',
     rx_error = natural d ''rx_error_delta'', tx_error = natural d ''tx_error_delta''\<rparr>"

text \<open>The flags of a peak: critical before high, a threshold of zero is off.\<close>

definition peak_flags :: "string \<Rightarrow> rat \<Rightarrow> rat \<Rightarrow> rat \<Rightarrow> string list" where
  "peak_flags name peak crit warn =
     (if crit \<le> peak \<and> 0 < crit then [name @ ''_PEAK_CRITICAL'']
      else if warn \<le> peak \<and> 0 < warn then [name @ ''_PEAK_HIGH''] else [])"

definition stage_row_for :: "settings \<Rightarrow> string \<Rightarrow> int \<Rightarrow> int \<Rightarrow> int \<Rightarrow> nat \<Rightarrow> string \<Rightarrow> pyval dict \<Rightarrow> stage_row" where
  "stage_row_for sg node data_time bucket interval ordinal vm d =
     (let (slot_start, hour, day, slot) = slot_coordinates (sg_tz sg) data_time;
          sec = max 1 (min 86400 (safe_int (get_none d ''interval_seconds'') interval));
          c = item_counters d;
          rx_mbps = of_int (rx c) * 8 / of_int sec / 1000000; tx_mbps = of_int (tx c) * 8 / of_int sec / 1000000;
          rx_pps = of_int (rx_packets c) / of_int sec; tx_pps = of_int (tx_packets c) / of_int sec;
          peak = (\<lambda>avg k. max avg (safe_float (get_none d k) 0));
          rx_mbps_peak = peak rx_mbps ''rx_mbps_peak''; tx_mbps_peak = peak tx_mbps ''tx_mbps_peak'';
          rx_pps_peak = peak rx_pps ''rx_pps_peak''; tx_pps_peak = peak tx_pps ''tx_pps_peak'';
          quality = clean_network_sample_quality (get_none d ''network_sample_quality'');
          over_rx0 = natural d ''seconds_over_rx_pps''; over_tx0 = natural d ''seconds_over_tx_pps'';
          combined = natural d ''seconds_over_pps'';
          guess = (over_rx0 = 0 \<and> over_tx0 = 0 \<and> combined \<noteq> 0);
          over_rx = (if guess \<and> sg_abuse_pps sg \<le> max rx_pps rx_pps_peak then combined else over_rx0);
          over_tx = (if guess \<and> sg_abuse_pps sg \<le> max tx_pps tx_pps_peak then combined else over_tx0);
          flags = peak_flags ''PPS'' (max rx_pps_peak tx_pps_peak) (sg_crit_pps sg) (sg_warn_pps sg)
            @ peak_flags ''MBPS'' (max rx_mbps_peak tx_mbps_peak) (sg_crit_mbps sg) (sg_warn_mbps sg)
            @ (if quality = ''POOR'' then [''SAMPLE_POOR''] else []) in
      \<lparr>sr_ord = ordinal, sr_hour = hour, sr_day = day, sr_bucket = bucket, sr_node = node,
        sr_bridge = text_or d ''bridge'' ''-'', sr_iface = text_or d ''iface'' ''-'', sr_vm = vm,
        sr_mac = normalize_mac_address (get_none d ''mac''), sr_last_push = data_time, sr_interval = sec,
        sr_delta = c, sr_rx_mbps = rx_mbps, sr_tx_mbps = tx_mbps, sr_rx_pps = rx_pps, sr_tx_pps = tx_pps,
        sr_rx_mbps_peak = rx_mbps_peak, sr_tx_mbps_peak = tx_mbps_peak,
        sr_rx_pps_peak = rx_pps_peak, sr_tx_pps_peak = tx_pps_peak,
        sr_rx_packet_size = max 0 (safe_float (get_none d ''rx_packet_size_avg'') 0),
        sr_tx_packet_size = max 0 (safe_float (get_none d ''tx_packet_size_avg'') 0),
        sr_sample_count = natural d ''network_sample_count'', sr_sample_expected = natural d ''network_sample_expected'',
        sr_max_gap = max 0 (safe_float (get_none d ''network_sample_max_gap_seconds'') 0),
        sr_over_pps = combined, sr_over_mbps = natural d ''seconds_over_mbps'',
        sr_over_rx_pps = over_rx, sr_over_tx_pps = over_tx, sr_quality = quality,
        sr_quality_rank = network_sample_quality_rank quality,
        sr_alert_level = (if flags \<noteq> [] then ''warn'' else ''ok''), sr_alert_flags = join '','' flags\<rparr>)"

definition stage_row_of :: "settings \<Rightarrow> string \<Rightarrow> int \<Rightarrow> int \<Rightarrow> int \<Rightarrow> nat \<Rightarrow> pyval \<Rightarrow> stage_row option" where
  "stage_row_of sg node data_time bucket interval ordinal item = (case item of
      PDict d \<Rightarrow>
        (let vm = strip (text_or d ''vm_uuid'' []) in
         if vm = [] \<or> vm = ''-'' then None
         else Some (stage_row_for sg node data_time bucket interval ordinal vm d))
    | _ \<Rightarrow> None)"

definition iface_rows :: "settings \<Rightarrow> string \<Rightarrow> int \<Rightarrow> int \<Rightarrow> int \<Rightarrow> pyval list \<Rightarrow> stage_row list" where
  "iface_rows sg node data_time bucket interval items =
     List.map_filter (\<lambda>(i, item). stage_row_of sg node data_time bucket interval i item) (enumerate 0 items)"

section \<open>The merge into the consumption tables\<close>

definition counters_sum :: "counters \<Rightarrow> counters \<Rightarrow> counters" where
  "counters_sum a b = \<lparr>rx = rx a + rx b, tx = tx a + tx b, rx_packets = rx_packets a + rx_packets b,
     tx_packets = tx_packets a + tx_packets b, rx_drop = rx_drop a + rx_drop b, tx_drop = tx_drop a + tx_drop b,
     rx_error = rx_error a + rx_error b, tx_error = tx_error a + tx_error b\<rparr>"

definition counters_zero :: counters where
  "counters_zero = \<lparr>rx = 0, tx = 0, rx_packets = 0, tx_packets = 0, rx_drop = 0, tx_drop = 0, rx_error = 0, tx_error = 0\<rparr>"

definition sum_deltas :: "stage_row list \<Rightarrow> counters" where
  "sum_deltas rows = foldr (\<lambda>r. counters_sum (sr_delta r)) rows counters_zero"

definition maximum :: "int list \<Rightarrow> int" where
  "maximum xs = (case xs of [] \<Rightarrow> 0 | x # r \<Rightarrow> fold max r x)"

text \<open>The aggregates of one group; \<open>COUNT(DISTINCT last_push)\<close> and the two maxima as in the query.\<close>

definition usage_group :: "int \<times> string \<times> string \<times> string \<Rightarrow> stage_row list \<Rightarrow> usage_row" where
  "usage_group k rows = (let (start, node, vm, bridge) = k in
     \<lparr>us_start = start, us_node = node, us_vm = vm, us_bridge = bridge, us_total = sum_deltas rows,
      us_samples = int (length (remdups (map sr_last_push rows))), us_last = maximum (map sr_last_push rows)\<rparr>)"

definition one_slot :: "int \<Rightarrow> int \<Rightarrow> int list" where
  "one_slot slot value = map (\<lambda>i. if int i = slot then value else 0) [0..<12]"

definition hourly_group :: "int \<times> string \<times> string \<times> string \<Rightarrow> stage_row list \<Rightarrow> hourly_row" where
  "hourly_group k rows =
     (let u = usage_group k rows;
          slot = min 11 (max 0 (sql_div (maximum (map sr_bucket rows) - 300 - fst k) 300)) in
      \<lparr>us_start = us_start u, us_node = us_node u, us_vm = us_vm u, us_bridge = us_bridge u, us_total = us_total u,
       us_samples = us_samples u, us_last = us_last u, hr_rx_slots = one_slot slot (rx (us_total u)),
       hr_tx_slots = one_slot slot (tx (us_total u)), hr_mask = {slot}, hr_version = Some 2\<rparr>)"

text \<open>An array element that is not there reads as zero.\<close>

definition slot_at :: "int list \<Rightarrow> nat \<Rightarrow> int" where
  "slot_at xs i = (if i < length xs then xs ! i else 0)"

definition add_slots :: "int list \<Rightarrow> int list \<Rightarrow> int list" where
  "add_slots xs ys = map (\<lambda>i. slot_at xs i + slot_at ys i) [0..<12]"

definition is_packed :: "hourly_row \<Rightarrow> bool" where
  "is_packed r = (case hr_version r of None \<Rightarrow> False | Some v \<Rightarrow> 2 \<le> v)"

definition merge_usage :: "'z usage_row_scheme \<Rightarrow> 'z usage_row_scheme \<Rightarrow> 'z usage_row_scheme" where
  "merge_usage old new = old\<lparr>us_total := counters_sum (us_total old) (us_total new),
     us_samples := us_samples old + us_samples new, us_last := max (us_last old) (us_last new)\<rparr>"

definition merge_hourly :: "hourly_row \<Rightarrow> hourly_row \<Rightarrow> hourly_row" where
  "merge_hourly old new = (merge_usage old new)
     \<lparr>hr_rx_slots := (if is_packed old then add_slots (hr_rx_slots old) (hr_rx_slots new) else hr_rx_slots new),
      hr_tx_slots := (if is_packed old then add_slots (hr_tx_slots old) (hr_tx_slots new) else hr_tx_slots new),
      hr_mask := (if is_packed old then hr_mask old \<union> hr_mask new else hr_mask new), hr_version := Some 2\<rparr>"

definition hour_key :: "stage_row \<Rightarrow> int \<times> string \<times> string \<times> string" where
  "hour_key r = (sr_hour r, sr_node r, sr_vm r, sr_bridge r)"

definition day_key :: "stage_row \<Rightarrow> int \<times> string \<times> string \<times> string" where
  "day_key r = (sr_day r, sr_node r, sr_vm r, sr_bridge r)"

definition merge_hourly_batch :: "stage_row list \<Rightarrow> hourly_row list \<Rightarrow> hourly_row list" where
  "merge_hourly_batch rows tbl = fold (upsert usage_key merge_hourly) (group_rows hour_key hourly_group rows) tbl"

definition merge_daily_batch :: "stage_row list \<Rightarrow> usage_row list \<Rightarrow> usage_row list" where
  "merge_daily_batch rows tbl = fold (upsert usage_key merge_usage) (group_rows day_key usage_group rows) tbl"

section \<open>A push\<close>

datatype push_reply =
    Unauthorized
  | Bad_Payload string
  | Future_Payload
  | Ignored
  | Duplicate int
  | Accepted nat

definition clean_interval :: "pyval dict \<Rightarrow> int" where
  "clean_interval data = max 1 (min 3600 (safe_int (get_none data ''interval'') CACHE_BUCKET_SECONDS))"

definition push_time :: "int \<Rightarrow> pyval dict \<Rightarrow> int" where
  "push_time received_now data = safe_int (get_none data ''time'') received_now"

definition push_node :: "pyval dict \<Rightarrow> string" where
  "push_node data = strip (text_or data ''node'' [])"

text \<open>The transaction of an accepted payload.\<close>

definition ingest :: "settings \<Rightarrow> string \<Rightarrow> int \<Rightarrow> pyval dict \<Rightarrow> pyval list \<Rightarrow> monitor \<Rightarrow> monitor" where
  "ingest sg node data_time data interfaces db =
     (let bucket = bucket_for data_time;
          vms = (case get_none data ''vms'' of PList xs \<Rightarrow> xs | _ \<Rightarrow> []);
          inventory = (case py_or (get_none data ''vm_inventory'') (PList []) of PList xs \<Rightarrow> xs | _ \<Rightarrow> []);
          full = (get_none data ''inventory_complete'' = PBool True);
          previous = (case row_of nd_node node (db_nodes db) of None \<Rightarrow> 0 | Some r \<Rightarrow> nd_last_push r);
          rows = iface_rows sg node data_time bucket (clean_interval data) interfaces in
      db\<lparr>db_missed := (if previous \<noteq> 0 \<and> previous < data_time
            then record_recovered_miss_event sg node previous data_time (db_missed db) else db_missed db),
         db_snapshots := upsert (\<lambda>s. (sn_node s, sn_bucket s)) merge_snapshot
            \<lparr>sn_node = node, sn_bucket = bucket, sn_push_time = data_time, sn_last_push = data_time,
             sn_vm_count = int (length (snapshot_vm_uuids (interfaces @ vms @ inventory))),
             sn_iface_count = int (length interfaces), sn_complete = full, sn_tier = ''raw''\<rparr> (db_snapshots db),
         db_nodes := upsert nd_node merge_node
            \<lparr>nd_node = node, nd_first_seen = data_time, nd_last_push = data_time, nd_status = ''active'',
             nd_hidden_at = None, nd_deleted_at = None\<rparr> (db_nodes db),
         db_hourly := merge_hourly_batch rows (db_hourly db),
         db_daily := merge_daily_batch rows (db_daily db)\<rparr>)"

definition push :: "settings \<Rightarrow> int \<Rightarrow> string \<Rightarrow> string + pyval dict \<Rightarrow> monitor \<Rightarrow> push_reply \<times> monitor" where
  "push sg received_now token request db =
     (if \<not> valid_agent_token sg token then (Unauthorized, db)
      else (case request of
          Inl detail \<Rightarrow> (Bad_Payload detail, db)
        | Inr data \<Rightarrow>
            (let data_time = push_time received_now data; node = push_node data in
             if received_now + sg_max_future sg < data_time then (Future_Payload, db)
             else if node = [] then (Bad_Payload ''node is required'', db)
             else if sg_accept_after sg \<noteq> 0 \<and> data_time < sg_accept_after sg then (Ignored, db)
             else (case py_list (py_or (get_none data ''interfaces'') (PList [])) of
                 None \<Rightarrow> (Bad_Payload ''interfaces must be a list'', db)
               | Some interfaces \<Rightarrow>
                   (let (count, receipts) = insert_or_ignore receipt_key
                          \<lparr>rc_node = node, rc_time = data_time, rc_bucket = bucket_for data_time, rc_received = received_now\<rparr>
                          (db_receipts db) in
                    if count = 0 then (Duplicate (bucket_for data_time), db)
                    else (Accepted (length interfaces),
                          ingest sg node data_time data interfaces (db\<lparr>db_receipts := receipts\<rparr>)))))))"

text \<open>The receipts a retention run deletes.\<close>

definition delete_receipts :: "int \<Rightarrow> monitor \<Rightarrow> monitor" where
  "delete_receipts cutoff db = db\<lparr>db_receipts := filter (\<lambda>r. \<not> rc_received r < cutoff) (db_receipts db)\<rparr>"


section \<open>Admission\<close>

lemma push_unchanged: "push sg now token request db = (reply, db') \<Longrightarrow> (\<And>n. reply \<noteq> Accepted n) \<Longrightarrow> db' = db"
  by (auto simp: push_def Let_def case_prod_beta split: if_splits sum.splits option.splits)

lemma ingest_receipts [simp]: "db_receipts (ingest sg node t data items db) = db_receipts db"
  by (simp add: ingest_def Let_def)

lemma push_accepted:
  assumes "push sg now token (Inr data) db = (Accepted n, db')"
  shows "valid_agent_token sg token" "push_node data \<noteq> []" "push_time now data \<le> now + sg_max_future sg"
    "sg_accept_after sg = 0 \<or> sg_accept_after sg \<le> push_time now data"
    "row_of receipt_key (push_node data, push_time now data) (db_receipts db) = None"
    "row_of receipt_key (push_node data, push_time now data) (db_receipts db') \<noteq> None"
    "\<exists>items. py_list (py_or (get_none data ''interfaces'') (PList [])) = Some items \<and> n = length items
      \<and> db' = ingest sg (push_node data) (push_time now data) data items (db\<lparr>db_receipts := db_receipts db @
          [\<lparr>rc_node = push_node data, rc_time = push_time now data, rc_bucket = bucket_for (push_time now data), rc_received = now\<rparr>]\<rparr>)"
  using assms
  by (auto simp: push_def Let_def case_prod_beta insert_or_ignore_def receipt_key_def row_of_append
      split: if_splits sum.splits option.splits)

lemma push_again:
  assumes "push sg now token (Inr data) db = (Accepted n, db')"
    and "push_time now data = push_time now' data" "push_time now' data \<le> now' + sg_max_future sg"
  shows "push sg now' token (Inr data) db' = (Duplicate (bucket_for (push_time now data)), db')"
  using push_accepted[OF assms(1)] assms(2,3)
  by (auto simp: push_def Let_def insert_or_ignore_def receipt_key_def split: option.splits)

definition receipts_ok :: "monitor \<Rightarrow> bool" where
  "receipts_ok db = distinct (map receipt_key (db_receipts db))"

lemma push_receipts_ok: "receipts_ok db \<Longrightarrow> push sg now token request db = (reply, db') \<Longrightarrow> receipts_ok db'"
proof (cases "\<exists>n. reply = Accepted n")
  case True
  assume ok: "receipts_ok db" and p: "push sg now token request db = (reply, db')"
  from True p obtain data n where "request = Inr data" "reply = Accepted n"
    by (cases request) (auto simp: push_def split: if_splits)
  then show ?thesis
    using push_accepted[of sg now token data db n db'] p ok
    by (auto simp: receipts_ok_def receipt_key_def row_of_None_iff)
next
  case False
  assume "receipts_ok db" "push sg now token request db = (reply, db')"
  then show ?thesis using push_unchanged[of sg now token request db reply db'] False by auto
qed

section \<open>Totals of the consumption tables\<close>

definition sum_field :: "(counters \<Rightarrow> int) \<Rightarrow> bool" where
  "sum_field f = (f counters_zero = 0 \<and> (\<forall>a b. f (counters_sum a b) = f a + f b))"

lemma sum_fields [simp]: "sum_field rx" "sum_field tx" "sum_field rx_packets" "sum_field tx_packets"
  "sum_field rx_drop" "sum_field tx_drop" "sum_field rx_error" "sum_field tx_error"
  by (simp_all add: sum_field_def counters_sum_def counters_zero_def)

lemma sum_field_deltas: "sum_field f \<Longrightarrow> f (sum_deltas rows) = (\<Sum>r\<leftarrow>rows. f (sr_delta r))"
  by (induction rows) (simp_all add: sum_deltas_def sum_field_def)

definition total_at :: "(counters \<Rightarrow> int) \<Rightarrow> int \<times> string \<times> string \<times> string \<Rightarrow> 'z usage_row_scheme list \<Rightarrow> int" where
  "total_at f k tbl = (case row_of usage_key k tbl of None \<Rightarrow> 0 | Some r \<Rightarrow> f (us_total r))"

definition slots_at :: "(hourly_row \<Rightarrow> int list) \<Rightarrow> int \<times> string \<times> string \<times> string \<Rightarrow> nat \<Rightarrow> hourly_row list \<Rightarrow> int" where
  "slots_at g k i tbl = (case row_of usage_key k tbl of None \<Rightarrow> 0 | Some r \<Rightarrow> slot_at (g r) i)"

lemma keeps_usage [simp]: "keeps_key usage_key merge_usage" "keeps_key usage_key merge_hourly"
  by (simp_all add: keeps_key_def usage_key_def merge_usage_def merge_hourly_def)

lemma group_keys [simp]: "usage_key (usage_group k rows) = k" "usage_key (hourly_group k rows) = k"
  by (cases k; simp add: usage_key_def usage_group_def hourly_group_def Let_def)+

lemma distinct_groups: "distinct (map usage_key (group_rows hour_key hourly_group rows))"
  "distinct (map usage_key (group_rows day_key usage_group rows))"
  by (simp_all add: group_rows_keys)

lemma group_total: "us_total (usage_group k rows) = sum_deltas rows" "us_total (hourly_group k rows) = sum_deltas rows"
  by (cases k; simp add: usage_group_def hourly_group_def Let_def)+

lemma merge_total: "sum_field f \<Longrightarrow> f (us_total (merge_usage a b)) = f (us_total a) + f (us_total b)"
  "sum_field f \<Longrightarrow> f (us_total (merge_hourly p q)) = f (us_total p) + f (us_total q)"
  by (simp_all add: merge_usage_def merge_hourly_def sum_field_def)

lemma filter_key_Nil: "k \<notin> key ` set rows \<Longrightarrow> filter (\<lambda>r. key r = k) rows = []"
  by (auto simp: filter_empty_conv)

lemma total_at_hourly:
  assumes "sum_field f"
  shows "total_at f k (merge_hourly_batch rows tbl)
    = total_at f k tbl + (\<Sum>r\<leftarrow>filter (\<lambda>r. hour_key r = k) rows. f (sr_delta r))"
  using assms filter_key_Nil[of k hour_key rows]
  by (auto simp: total_at_def merge_hourly_batch_def row_of_fold_upsert[OF keeps_usage(2) distinct_groups(1)]
      row_of_group[of usage_key hourly_group, OF group_keys(2)] merge_total group_total sum_field_deltas
      simp del: set_map split: option.splits)

lemma total_at_daily:
  assumes "sum_field f"
  shows "total_at f k (merge_daily_batch rows tbl)
    = total_at f k tbl + (\<Sum>r\<leftarrow>filter (\<lambda>r. day_key r = k) rows. f (sr_delta r))"
  using assms filter_key_Nil[of k day_key rows]
  by (auto simp: total_at_def merge_daily_batch_def row_of_fold_upsert[OF keeps_usage(1) distinct_groups(2)]
      row_of_group[of usage_key usage_group, OF group_keys(1)] merge_total group_total sum_field_deltas
      simp del: set_map split: option.splits)

section \<open>Packed slots\<close>

definition slot_start_of :: "stage_row \<Rightarrow> int" where
  "slot_start_of r = sr_bucket r - 300"

definition stage_ok :: "int \<Rightarrow> stage_row \<Rightarrow> bool" where
  "stage_ok tz r = (sr_hour r = local_hour_start tz (slot_start_of r) \<and> sr_day r = local_day_start tz (slot_start_of r)
     \<and> 300 dvd sr_bucket r)"

definition slot_no_of :: "stage_row \<Rightarrow> int" where
  "slot_no_of r = (slot_start_of r - sr_hour r) div 300"

lemma stage_ok_slot: "stage_ok tz r \<Longrightarrow> 0 \<le> slot_start_of r - sr_hour r \<and> 0 \<le> slot_no_of r \<and> slot_no_of r \<le> 11"
proof -
  assume "stage_ok tz r"
  then have h: "sr_hour r = local_hour_start tz (slot_start_of r)" by (simp add: stage_ok_def)
  have "0 \<le> slot_start_of r - sr_hour r" "slot_start_of r - sr_hour r < 3600"
    using hour_bounds[of tz "slot_start_of r"] by (simp_all add: h)
  then show ?thesis unfolding slot_no_of_def using slot_div by blast
qed

lemma maximum_const: "xs \<noteq> [] \<Longrightarrow> set xs \<subseteq> {c} \<Longrightarrow> maximum xs = c"
proof -
  have "set r \<subseteq> {c} \<Longrightarrow> fold max r c = c" for r
    by (induction r) simp_all
  then show "xs \<noteq> [] \<Longrightarrow> set xs \<subseteq> {c} \<Longrightarrow> maximum xs = c"
    by (cases xs) (simp_all add: maximum_def)
qed

definition packed_ok :: "hourly_row \<Rightarrow> bool" where
  "packed_ok r = (hr_version r = Some 2 \<and> length (hr_rx_slots r) = 12 \<and> length (hr_tx_slots r) = 12
     \<and> rx (us_total r) = sum_list (hr_rx_slots r) \<and> tx (us_total r) = sum_list (hr_tx_slots r)
     \<and> hr_mask r \<subseteq> {0..11})"

lemma one_slot_length [simp]: "length (one_slot s v) = 12"
  by (simp add: one_slot_def)

lemma slot_at_one [simp]: "i < 12 \<Longrightarrow> slot_at (one_slot s v) i = (if int i = s then v else 0)"
  by (simp add: slot_at_def one_slot_def)

lemma add_slots_length [simp]: "length (add_slots a b) = 12"
  by (simp add: add_slots_def)

lemma slot_at_add [simp]: "i < 12 \<Longrightarrow> slot_at (add_slots a b) i = slot_at a i + slot_at b i"
  by (simp add: slot_at_def[of "add_slots a b"]) (simp add: add_slots_def)

lemma sum_slot_at: "length xs = 12 \<Longrightarrow> sum_list xs = (\<Sum>i<12. slot_at xs i)"
  by (simp add: slot_at_def sum_list_sum_nth atLeast0LessThan)

lemma sum_one_slot: "0 \<le> s \<Longrightarrow> s \<le> 11 \<Longrightarrow> sum_list (one_slot s v) = v"
  by (elim nonneg_int_cases) (simp add: sum_slot_at sum.delta')

lemma sum_add_slots: "length a = 12 \<Longrightarrow> length b = 12 \<Longrightarrow> sum_list (add_slots a b) = sum_list a + sum_list b"
  by (simp add: sum_slot_at sum.distrib)

lemma hourly_group_fields:
  "hr_version (hourly_group k rows) = Some 2"
  "hr_mask (hourly_group k rows) = {min 11 (max 0 (sql_div (maximum (map sr_bucket rows) - 300 - fst k) 300))}"
  "hr_rx_slots (hourly_group k rows) = one_slot (min 11 (max 0 (sql_div (maximum (map sr_bucket rows) - 300 - fst k) 300))) (rx (sum_deltas rows))"
  "hr_tx_slots (hourly_group k rows) = one_slot (min 11 (max 0 (sql_div (maximum (map sr_bucket rows) - 300 - fst k) 300))) (tx (sum_deltas rows))"
  by (cases k; simp add: hourly_group_def usage_group_def Let_def)+

lemma packed_group: "packed_ok (hourly_group k rows)"
  by (simp add: packed_ok_def hourly_group_fields group_total sum_one_slot)

lemma packed_merge: "packed_ok a \<Longrightarrow> packed_ok b \<Longrightarrow> packed_ok (merge_hourly a b)"
  by (simp add: packed_ok_def merge_hourly_def merge_usage_def is_packed_def sum_add_slots counters_sum_def)

lemma packed_batch:
  assumes "\<And>r. r \<in> set tbl \<Longrightarrow> packed_ok r" "r \<in> set (merge_hourly_batch rows tbl)"
  shows "packed_ok r"
proof -
  have "(\<And>r. r \<in> set tbl \<Longrightarrow> packed_ok r) \<Longrightarrow> (\<And>r. r \<in> set news \<Longrightarrow> packed_ok r) \<Longrightarrow>
      (\<And>r. r \<in> set (fold (upsert usage_key merge_hourly) news tbl) \<Longrightarrow> packed_ok r)" for news tbl
  proof (induction news arbitrary: tbl)
    case (Cons n ns)
    have "r \<in> set (upsert usage_key merge_hourly n tbl) \<Longrightarrow> packed_ok r" for r
      using upsert_all[of tbl packed_ok n usage_key merge_hourly r] Cons.prems packed_merge by auto
    then show ?case using Cons.IH[of "upsert usage_key merge_hourly n tbl"] Cons.prems by auto
  qed simp
  moreover have "r \<in> set (group_rows hour_key hourly_group rows) \<Longrightarrow> packed_ok r" for r
    by (auto simp: group_rows_def packed_group)
  ultimately show ?thesis using assms unfolding merge_hourly_batch_def by blast
qed


section \<open>The tables are exactly what was accepted\<close>

text \<open>A batch: the rows of one payload, which share their bucket.\<close>

definition batch_ok :: "int \<Rightarrow> stage_row list \<Rightarrow> bool" where
  "batch_ok tz rows = ((\<forall>r \<in> set rows. stage_ok tz r) \<and> (\<forall>r \<in> set rows. \<forall>q \<in> set rows. sr_bucket r = sr_bucket q))"

lemma slots_at_hourly:
  assumes "batch_ok tz rows" "\<And>r. r \<in> set tbl \<Longrightarrow> packed_ok r" "i < 12"
  shows "slots_at hr_rx_slots k i (merge_hourly_batch rows tbl)
      = slots_at hr_rx_slots k i tbl + (\<Sum>r\<leftarrow>filter (\<lambda>r. hour_key r = k \<and> slot_no_of r = int i) rows. rx (sr_delta r))"
    and "slots_at hr_tx_slots k i (merge_hourly_batch rows tbl)
      = slots_at hr_tx_slots k i tbl + (\<Sum>r\<leftarrow>filter (\<lambda>r. hour_key r = k \<and> slot_no_of r = int i) rows. tx (sr_delta r))"
proof -
  let ?G = "filter (\<lambda>r. hour_key r = k) rows"
  define s where "s = min 11 (max 0 (sql_div (maximum (map sr_bucket ?G) - 300 - fst k) 300))"
  have slot: "slot_no_of r = s" if "r \<in> set ?G" for r
  proof -
    have "set (map sr_bucket ?G) \<subseteq> {sr_bucket r}" using assms(1) that by (auto simp: batch_ok_def)
    moreover have "map sr_bucket ?G \<noteq> []" using that by (metis empty_iff empty_set map_is_Nil_conv)
    ultimately have m: "maximum (map sr_bucket ?G) = sr_bucket r" using maximum_const by blast
    have "stage_ok tz r" "fst k = sr_hour r" using assms(1) that by (auto simp: batch_ok_def hour_key_def)
    then show ?thesis using stage_ok_slot[of tz r] by (simp add: s_def m slot_no_of_def slot_start_of_def)
  qed
  have split: "filter (\<lambda>r. hour_key r = k \<and> slot_no_of r = int i) rows = (if int i = s then ?G else [])"
  proof -
    have "filter (\<lambda>r. hour_key r = k \<and> slot_no_of r = int i) rows = filter (\<lambda>r. slot_no_of r = int i) ?G"
      by (auto intro: filter_cong)
    also have "\<dots> = filter (\<lambda>r. s = int i) ?G" by (intro filter_cong refl) (simp add: slot)
    finally show ?thesis by auto
  qed
  have none: "k \<notin> hour_key ` set rows \<Longrightarrow> ?G = []" by (rule filter_key_Nil)
  have old: "row_of usage_key k tbl = Some r \<Longrightarrow> is_packed r" for r
    using assms(2) row_of_key[of usage_key k tbl r] by (simp add: packed_ok_def is_packed_def)
  note defs = slots_at_def merge_hourly_batch_def row_of_fold_upsert[OF keeps_usage(2) distinct_groups(1)]
    row_of_group[of usage_key hourly_group, OF group_keys(2)] hourly_group_fields s_def[symmetric] split
  show "slots_at hr_rx_slots k i (merge_hourly_batch rows tbl)
      = slots_at hr_rx_slots k i tbl + (\<Sum>r\<leftarrow>filter (\<lambda>r. hour_key r = k \<and> slot_no_of r = int i) rows. rx (sr_delta r))"
    using assms(3) none old
    by (auto simp: defs merge_hourly_def sum_field_deltas simp del: set_map split: option.splits)
  show "slots_at hr_tx_slots k i (merge_hourly_batch rows tbl)
      = slots_at hr_tx_slots k i tbl + (\<Sum>r\<leftarrow>filter (\<lambda>r. hour_key r = k \<and> slot_no_of r = int i) rows. tx (sr_delta r))"
    using assms(3) none old
    by (auto simp: defs merge_hourly_def sum_field_deltas simp del: set_map split: option.splits)
qed

text \<open>\<open>accounts tz E db\<close>: the consumption tables of \<open>db\<close> hold exactly the stage rows \<open>E\<close>.\<close>

definition accounts :: "int \<Rightarrow> stage_row list \<Rightarrow> monitor \<Rightarrow> bool" where
  "accounts tz E db \<longleftrightarrow>
     (\<forall>r \<in> set E. stage_ok tz r)
   \<and> (\<forall>r \<in> set (db_hourly db). packed_ok r \<and> hour_aligned tz (us_start r))
   \<and> distinct (map usage_key (db_hourly db)) \<and> distinct (map usage_key (db_daily db))
   \<and> (\<forall>r \<in> set (db_daily db). day_aligned tz (us_start r))
   \<and> (\<forall>f k. sum_field f \<longrightarrow> total_at f k (db_hourly db) = (\<Sum>r\<leftarrow>filter (\<lambda>r. hour_key r = k) E. f (sr_delta r)))
   \<and> (\<forall>f k. sum_field f \<longrightarrow> total_at f k (db_daily db) = (\<Sum>r\<leftarrow>filter (\<lambda>r. day_key r = k) E. f (sr_delta r)))
   \<and> (\<forall>k i. i < 12 \<longrightarrow> slots_at hr_rx_slots k i (db_hourly db)
        = (\<Sum>r\<leftarrow>filter (\<lambda>r. hour_key r = k \<and> slot_no_of r = int i) E. rx (sr_delta r)))
   \<and> (\<forall>k i. i < 12 \<longrightarrow> slots_at hr_tx_slots k i (db_hourly db)
        = (\<Sum>r\<leftarrow>filter (\<lambda>r. hour_key r = k \<and> slot_no_of r = int i) E. tx (sr_delta r)))"

lemma accounts_empty: "accounts tz [] empty_monitor"
  by (simp add: accounts_def empty_monitor_def total_at_def slots_at_def)

lemma fold_upsert_start:
  assumes "\<And>r. r \<in> set tbl \<Longrightarrow> P (us_start r)" "\<And>r. r \<in> set news \<Longrightarrow> P (us_start r)"
    "\<And>a b. us_start (merge a b) = us_start a"
  shows "r \<in> set (fold (upsert usage_key merge) news tbl) \<Longrightarrow> P (us_start r)"
  using assms(1,2)
proof (induction news arbitrary: tbl)
  case (Cons n ns)
  have "q \<in> set (upsert usage_key merge n tbl) \<Longrightarrow> P (us_start q)" for q
    using upsert_all[of tbl "\<lambda>r. P (us_start r)" n usage_key merge q] Cons.prems assms(3) by auto
  then show ?case using Cons by auto
qed simp

lemma group_start_key: "us_start (hourly_group k rows) = fst k" "us_start (usage_group k rows) = fst k"
  by (simp_all add: hourly_group_def usage_group_def Let_def case_prod_beta)

lemma group_start:
  "r \<in> set (group_rows hour_key hourly_group rows) \<Longrightarrow> \<exists>q \<in> set rows. us_start r = sr_hour q"
  "u \<in> set (group_rows day_key usage_group rows) \<Longrightarrow> \<exists>q \<in> set rows. us_start u = sr_day q"
  by (auto simp: group_rows_def group_start_key) (auto simp: hour_key_def day_key_def)

lemma group_aligned:
  assumes "\<forall>r \<in> set rows. stage_ok tz r"
  shows "r \<in> set (group_rows hour_key hourly_group rows) \<Longrightarrow> hour_aligned tz (us_start r)"
    "u \<in> set (group_rows day_key usage_group rows) \<Longrightarrow> day_aligned tz (us_start u)"
  using assms by (auto dest!: group_start simp: stage_ok_def)

lemma merge_start [simp]: "us_start (merge_hourly a b) = us_start a" "us_start (merge_usage p q) = us_start p"
  by (simp_all add: merge_hourly_def merge_usage_def)

lemma accounts_batch:
  assumes "accounts tz E db" "batch_ok tz rows"
    and h: "db_hourly db' = merge_hourly_batch rows (db_hourly db)" and d: "db_daily db' = merge_daily_batch rows (db_daily db)"
  shows "accounts tz (E @ rows) db'"
proof -
  note a = assms(1)[unfolded accounts_def]
  have rows: "\<forall>r \<in> set rows. stage_ok tz r" using assms(2) by (simp add: batch_ok_def)
  have p: "\<forall>r \<in> set (db_hourly db'). packed_ok r" using packed_batch[of "db_hourly db"] a by (auto simp: h)
  have sh: "\<forall>r \<in> set (db_hourly db'). hour_aligned tz (us_start r)"
    using fold_upsert_start[of "db_hourly db" "hour_aligned tz", OF _ group_aligned(1)[OF rows] merge_start(1)] a
    by (auto simp: h merge_hourly_batch_def)
  have sd: "\<forall>r \<in> set (db_daily db'). day_aligned tz (us_start r)"
    using fold_upsert_start[of "db_daily db" "day_aligned tz", OF _ group_aligned(2)[OF rows] merge_start(2)] a
    by (auto simp: d merge_daily_batch_def)
  have dk: "distinct (map usage_key (db_hourly db'))" "distinct (map usage_key (db_daily db'))"
    using a by (simp_all add: h d merge_hourly_batch_def merge_daily_batch_def distinct_fold_upsert)
  have pk: "r \<in> set (db_hourly db) \<Longrightarrow> packed_ok r" for r
    using a by blast
  have slots: "i < 12 \<Longrightarrow> slots_at hr_rx_slots k i (db_hourly db') = slots_at hr_rx_slots k i (db_hourly db)
        + (\<Sum>r\<leftarrow>filter (\<lambda>r. hour_key r = k \<and> slot_no_of r = int i) rows. rx (sr_delta r))"
    "i < 12 \<Longrightarrow> slots_at hr_tx_slots k i (db_hourly db') = slots_at hr_tx_slots k i (db_hourly db)
        + (\<Sum>r\<leftarrow>filter (\<lambda>r. hour_key r = k \<and> slot_no_of r = int i) rows. tx (sr_delta r))" for i k
    unfolding h by (rule slots_at_hourly[OF assms(2) pk], assumption+)+
  show ?thesis
    unfolding accounts_def using a rows p sh sd dk slots
    by (simp add: h d total_at_hourly total_at_daily ball_Un)
qed

lemma stage_row_for_fields:
  "sr_hour (stage_row_for sg node t b i n vm d) = fst (snd (slot_coordinates (sg_tz sg) t))"
  "sr_day (stage_row_for sg node t b i n vm d) = fst (snd (snd (slot_coordinates (sg_tz sg) t)))"
  "sr_bucket (stage_row_for sg node t b i n vm d) = b" "sr_node (stage_row_for sg node t b i n vm d) = node"
  "sr_last_push (stage_row_for sg node t b i n vm d) = t" "sr_vm (stage_row_for sg node t b i n vm d) = vm"
  "sr_bridge (stage_row_for sg node t b i n vm d) = text_or d ''bridge'' ''-''"
  "sr_delta (stage_row_for sg node t b i n vm d) = item_counters d"
  by (simp_all only: stage_row_for_def Let_def case_prod_beta stage_row.select_convs)

lemma stage_row_of_Some:
  "stage_row_of sg node t b i n item = Some r \<Longrightarrow> \<exists>vm d. r = stage_row_for sg node t b i n vm d"
  by (auto simp: stage_row_of_def Let_def split: pyval.splits if_splits)

lemma stage_row_of_fields:
  assumes "stage_row_of sg node t b i n item = Some r" "b = bucket_for t"
  shows "stage_ok (sg_tz sg) r" "sr_bucket r = b" "sr_node r = node" "sr_last_push r = t"
proof -
  obtain vm d where r: "r = stage_row_for sg node t b i n vm d" using stage_row_of_Some[OF assms(1)] by blast
  obtain s h dd no where c: "slot_coordinates (sg_tz sg) t = (s, h, dd, no)" by (metis prod.exhaust)
  show "sr_bucket r = b" "sr_node r = node" "sr_last_push r = t" by (simp_all add: r stage_row_for_fields)
  show "stage_ok (sg_tz sg) r"
    using slot_coordinates_ok[OF c] assms(2) by (simp add: r stage_row_for_fields c stage_ok_def slot_start_of_def)
qed

lemma iface_rows_ok:
  "batch_ok (sg_tz sg) (iface_rows sg node t (bucket_for t) i items)"
  "r \<in> set (iface_rows sg node t (bucket_for t) i items) \<Longrightarrow>
     sr_node r = node \<and> sr_bucket r = bucket_for t \<and> sr_last_push r = t"
  using stage_row_of_fields[OF _ refl]
  by (auto simp: iface_rows_def batch_ok_def map_filter_def)

lemma ingest_accounts:
  assumes "accounts (sg_tz sg) E db"
  shows "accounts (sg_tz sg) (E @ iface_rows sg node t (bucket_for t) (clean_interval data) items) (ingest sg node t data items db)"
  using assms by (intro accounts_batch[OF _ iface_rows_ok(1)]) (simp_all add: ingest_def Let_def)

lemma accounts_cong: "db_hourly db' = db_hourly db \<Longrightarrow> db_daily db' = db_daily db \<Longrightarrow> accounts tz E db \<Longrightarrow> accounts tz E db'"
  by (simp add: accounts_def)

text \<open>The rows a payload brings into the tables, and the pushes of a history with their rows.\<close>

definition payload_rows :: "settings \<Rightarrow> int \<Rightarrow> pyval dict \<Rightarrow> stage_row list" where
  "payload_rows sg now data = (case py_list (py_or (get_none data ''interfaces'') (PList [])) of
      None \<Rightarrow> []
    | Some items \<Rightarrow> iface_rows sg (push_node data) (push_time now data) (bucket_for (push_time now data))
        (clean_interval data) items)"

definition accepted_rows :: "settings \<Rightarrow> int \<Rightarrow> string + pyval dict \<Rightarrow> push_reply \<Rightarrow> stage_row list" where
  "accepted_rows sg now request reply = (case (request, reply) of
      (Inr data, Accepted n) \<Rightarrow> payload_rows sg now data | _ \<Rightarrow> [])"

lemma push_accounts:
  assumes "accounts (sg_tz sg) E db" "push sg now token request db = (reply, db')"
  shows "accounts (sg_tz sg) (E @ accepted_rows sg now request reply) db'"
proof (cases "\<exists>n data. reply = Accepted n \<and> request = Inr data")
  case True
  then obtain n data where r: "reply = Accepted n" "request = Inr data" by blast
  from push_accepted(7)[OF assms(2)[unfolded r]] obtain items receipts where
    i: "py_list (py_or (get_none data ''interfaces'') (PList [])) = Some items"
      "db' = ingest sg (push_node data) (push_time now data) data items (db\<lparr>db_receipts := receipts\<rparr>)" by blast
  have "accounts (sg_tz sg) E (db\<lparr>db_receipts := receipts\<rparr>)" using assms(1) by (rule accounts_cong[rotated 2]) simp_all
  then show ?thesis using ingest_accounts by (simp add: r accepted_rows_def payload_rows_def i)
next
  case False
  have "\<not> (\<exists>n. reply = Accepted n)"
  proof
    assume "\<exists>n. reply = Accepted n"
    then show False using False assms(2) by (cases request) (auto simp: push_def split: if_splits)
  qed
  then have "db' = db" "accepted_rows sg now request reply = []"
    using push_unchanged[OF assms(2)] by (auto simp: accepted_rows_def split: sum.split push_reply.split)
  then show ?thesis using assms(1) by simp
qed

text \<open>A history of pushes: times of reception, tokens and requests.\<close>

fun pushes :: "settings \<Rightarrow> (int \<times> string \<times> (string + pyval dict)) list \<Rightarrow> monitor \<Rightarrow> stage_row list \<times> monitor" where
  "pushes sg [] db = ([], db)"
| "pushes sg ((now, token, request) # rest) db =
     (let (reply, db1) = push sg now token request db; (rows, db2) = pushes sg rest db1 in
      (accepted_rows sg now request reply @ rows, db2))"

lemma pushes_accounts:
  "accounts (sg_tz sg) E db \<Longrightarrow> pushes sg hist db = (rows, db') \<Longrightarrow> accounts (sg_tz sg) (E @ rows) db'"
proof (induction hist arbitrary: E db rows db')
  case (Cons p hist)
  obtain now token request where p: "p = (now, token, request)" by (cases p)
  obtain reply db1 where one: "push sg now token request db = (reply, db1)" by (metis prod.exhaust)
  obtain rs db2 where two: "pushes sg hist db1 = (rs, db2)" by (metis prod.exhaust)
  have "accounts (sg_tz sg) ((E @ accepted_rows sg now request reply) @ rs) db2"
    using Cons.IH[OF push_accounts[OF Cons.prems(1) one] two] .
  then show ?case using Cons.prems(2) by (simp add: p one two)
qed simp


section \<open>Properties\<close>

text \<open>A payload is stored at most once: after it was accepted, the same payload sent again with any
  valid clock is answered as a duplicate and changes nothing, and a push that is not accepted for
  whatever reason changes nothing either.\<close>

theorem repeated_push_changes_nothing:
  assumes "push sg now token (Inr data) db = (Accepted n, db')"
    and "push_time now data = push_time now' data" "push_time now' data \<le> now' + sg_max_future sg"
  shows "push sg now' token (Inr data) db' = (Duplicate (bucket_for (push_time now data)), db')
    \<and> row_of receipt_key (push_node data, push_time now data) (db_receipts db) = None"
  using push_again[OF assms] push_accepted(5)[OF assms(1)] by simp

definition sample_settings :: settings where
  "sample_settings = \<lparr>sg_tokens = [''secret''], sg_max_future = 300, sg_accept_after = 0, sg_status_seconds = 300, sg_tz = 25200,
     sg_warn_pps = 0, sg_crit_pps = 0, sg_warn_mbps = 0, sg_crit_mbps = 0, sg_abuse_pps = 0\<rparr>"

definition sample_push :: "pyval dict" where
  "sample_push = [(''node'', PStr ''node1''), (''time'', PInt 1200),
     (''interfaces'', PList [PDict [(''vm_uuid'', PStr ''vm-a''), (''iface'', PStr ''vnet0''), (''bridge'', PStr ''br0''),
        (''rx_delta'', PInt 150), (''tx_delta'', PInt 20)]])]"

lemma sample_names: "strip ''node1'' = ''node1''" "strip ''vm-a'' = ''vm-a''" by code_simp+

lemma sample_push_fields: "push_time t sample_push = 1200" "push_node sample_push = ''node1''"
  "py_list (py_or (get_none sample_push ''interfaces'') (PList [])) = Some [PDict [(''vm_uuid'', PStr ''vm-a''), (''iface'', PStr ''vnet0''),
     (''bridge'', PStr ''br0''), (''rx_delta'', PInt 150), (''tx_delta'', PInt 20)]]"
  by (simp_all add: push_time_def push_node_def text_or_def sample_push_def py_or_def truthy_def sample_names py_list_def)

lemma sample_accepted:
  assumes "row_of receipt_key (''node1'', 1200) (db_receipts db) = None" "900 \<le> now"
  shows "\<exists>db'. push sample_settings now ''secret'' (Inr sample_push) db = (Accepted 1, db')"
  using assms
  by (simp add: push_def sample_push_fields valid_agent_token_def insert_or_ignore_def receipt_key_def Let_def)
     (simp add: sample_settings_def)

theorem repeated_push_changes_nothing_witness:
  "\<exists>db. push sample_settings 1201 ''secret'' (Inr sample_push) empty_monitor = (Accepted 1, db)
     \<and> push sample_settings 1260 ''secret'' (Inr sample_push) db = (Duplicate 1200, db)"
proof -
  obtain db where a: "push sample_settings 1201 ''secret'' (Inr sample_push) empty_monitor = (Accepted 1, db)"
    using sample_accepted[of empty_monitor 1201] by (auto simp: empty_monitor_def)
  from repeated_push_changes_nothing[OF a, of 1260]
  have "push sample_settings 1260 ''secret'' (Inr sample_push) db = (Duplicate 1200, db)"
    by (simp add: sample_push_fields sample_settings_def bucket_for_def CACHE_BUCKET_SECONDS_def)
  then show ?thesis using a by blast
qed

lemma pushes_receipts_ok: "receipts_ok db0 \<Longrightarrow> pushes sg h db0 = (rs, db') \<Longrightarrow> receipts_ok db'"
proof (induction h arbitrary: db0 rs)
  case (Cons q h)
  obtain now token request where q: "q = (now, token, request)" by (cases q)
  obtain reply db1 where one: "push sg now token request db0 = (reply, db1)" by (metis prod.exhaust)
  obtain rs1 where two: "pushes sg h db1 = (rs1, db')"
    using Cons.prems(2) by (cases "pushes sg h db1") (simp add: q one)
  show ?case using Cons.IH[OF push_receipts_ok[OF Cons.prems(1) one] two] .
qed simp

text \<open>C2. The consumption tables account for the accepted payloads exactly: after any history of pushes
  the hourly and daily totals and the twelve five-minute slots of every machine are the sums of the
  deltas of the accepted rows of that hour, day and slot; no key is stored twice and neither is a
  receipt.\<close>

theorem tables_account_for_pushes:
  "let (rows, db) = pushes sg hist empty_monitor in
     total_at rx k (db_hourly db) = (\<Sum>r\<leftarrow>filter (\<lambda>r. hour_key r = k) rows. rx (sr_delta r))
   \<and> total_at tx k (db_hourly db) = (\<Sum>r\<leftarrow>filter (\<lambda>r. hour_key r = k) rows. tx (sr_delta r))
   \<and> total_at rx k (db_daily db) = (\<Sum>r\<leftarrow>filter (\<lambda>r. day_key r = k) rows. rx (sr_delta r))
   \<and> total_at tx k (db_daily db) = (\<Sum>r\<leftarrow>filter (\<lambda>r. day_key r = k) rows. tx (sr_delta r))
   \<and> map (\<lambda>i. slots_at hr_rx_slots k i (db_hourly db)) [0..<12]
       = map (\<lambda>i. \<Sum>r\<leftarrow>filter (\<lambda>r. hour_key r = k \<and> slot_no_of r = int i) rows. rx (sr_delta r)) [0..<12]
   \<and> map (\<lambda>i. slots_at hr_tx_slots k i (db_hourly db)) [0..<12]
       = map (\<lambda>i. \<Sum>r\<leftarrow>filter (\<lambda>r. hour_key r = k \<and> slot_no_of r = int i) rows. tx (sr_delta r)) [0..<12]
   \<and> distinct (map usage_key (db_hourly db)) \<and> distinct (map usage_key (db_daily db)) \<and> distinct (map receipt_key (db_receipts db))"
proof -
  obtain rows db where p: "pushes sg hist empty_monitor = (rows, db)" by (metis prod.exhaust)
  have acc: "accounts (sg_tz sg) rows db" using pushes_accounts[OF accounts_empty p] by simp
  have "receipts_ok db" by (rule pushes_receipts_ok[OF _ p]) (simp add: receipts_ok_def empty_monitor_def)
  then show ?thesis using acc by (cases k) (simp add: p accounts_def receipts_ok_def)
qed

text \<open>C5. The receipts are the only memory of what was accepted: once a retention run has deleted the
  receipt of a payload, the same payload is accepted again and its traffic is counted twice.\<close>

theorem late_retry_counted_twice:
  assumes "push sg now token (Inr data) db = (Accepted n, db')" "now < cutoff" "accounts (sg_tz sg) E db" "receipts_ok db"
    and "push_time now data = push_time now' data" "push_time now' data \<le> now' + sg_max_future sg"
  shows "\<exists>db''. push sg now' token (Inr data) (delete_receipts cutoff db') = (Accepted n, db'')
    \<and> accounts (sg_tz sg) (E @ payload_rows sg now data @ payload_rows sg now data) db''"
proof -
  note a = push_accepted[OF assms(1)]
  let ?k = "(push_node data, push_time now data)"
  obtain items where i: "py_list (py_or (get_none data ''interfaces'') (PList [])) = Some items" "n = length items"
    and db': "db_receipts db' = db_receipts db @ [\<lparr>rc_node = push_node data, rc_time = push_time now data,
        rc_bucket = bucket_for (push_time now data), rc_received = now\<rparr>]"
    using a(7) by auto
  have gone: "row_of receipt_key ?k (db_receipts (delete_receipts cutoff db')) = None"
    using a(5) assms(2) by (auto simp: row_of_None_iff delete_receipts_def db')
  then have "\<exists>db''. push sg now' token (Inr data) (delete_receipts cutoff db') = (Accepted n, db'')"
    using a(1-4) i assms(5,6)
    by (auto simp: push_def insert_or_ignore_def receipt_key_def Let_def)
  then obtain db'' where again: "push sg now' token (Inr data) (delete_receipts cutoff db') = (Accepted n, db'')" ..
  have "accounts (sg_tz sg) (E @ payload_rows sg now data) db'"
    using push_accounts[OF assms(3,1)] by (simp add: accepted_rows_def)
  then have "accounts (sg_tz sg) (E @ payload_rows sg now data) (delete_receipts cutoff db')"
    by (rule accounts_cong[rotated 2]) (simp_all add: delete_receipts_def)
  from push_accounts[OF this again]
  have "accounts (sg_tz sg) ((E @ payload_rows sg now data) @ payload_rows sg now' data) db''"
    by (simp add: accepted_rows_def)
  moreover have "payload_rows sg now' data = payload_rows sg now data" using assms(5) by (simp add: payload_rows_def split: option.split)
  ultimately show ?thesis using again by auto
qed

theorem late_retry_counted_twice_witness:
  "\<exists>db' db''. push sample_settings 1201 ''secret'' (Inr sample_push) empty_monitor = (Accepted 1, db')
     \<and> push sample_settings 99999 ''secret'' (Inr sample_push) (delete_receipts 50000 db') = (Accepted 1, db'')
     \<and> total_at rx (0, ''node1'', ''vm-a'', ''br0'') (db_hourly db'') = 300"
proof -
  obtain db' where a: "push sample_settings 1201 ''secret'' (Inr sample_push) empty_monitor = (Accepted 1, db')"
    using sample_accepted[of empty_monitor 1201] by (auto simp: empty_monitor_def)
  have r: "receipts_ok empty_monitor" by (simp add: receipts_ok_def empty_monitor_def)
  from late_retry_counted_twice[OF a _ accounts_empty r, of 50000 99999]
  obtain db'' where b: "push sample_settings 99999 ''secret'' (Inr sample_push) (delete_receipts 50000 db') = (Accepted 1, db'')"
    and acc: "accounts (sg_tz sample_settings) (payload_rows sample_settings 1201 sample_push @ payload_rows sample_settings 1201 sample_push) db''"
    by (auto simp: sample_push_fields sample_settings_def)
  have rows: "map (\<lambda>r. (hour_key r, rx (sr_delta r))) (payload_rows sample_settings 1201 sample_push) = [((0, ''node1'', ''vm-a'', ''br0''), 150)]"
    by (simp only: payload_rows_def sample_push_fields option.case)
       (simp add: iface_rows_def stage_row_of_def text_or_def py_or_def truthy_def sample_names
      map_filter_simps hour_key_def stage_row_for_fields item_counters_def natural_def sample_settings_def slot_coordinates_def
      local_hour_start_def bucket_for_def CACHE_BUCKET_SECONDS_def Let_def)
  have sum: "(\<Sum>r\<leftarrow>filter (\<lambda>r. hour_key r = k) rs. rx (sr_delta r)) = (\<Sum>(h, v)\<leftarrow>map (\<lambda>r. (hour_key r, rx (sr_delta r))) rs. if h = k then v else 0)"
    for k rs by (induction rs) simp_all
  have "total_at rx (0, ''node1'', ''vm-a'', ''br0'') (db_hourly db'') = 300"
    using acc unfolding accounts_def by (simp add: sum rows del: map_map)
  then show ?thesis using a b by blast
qed

end
