(* ===== verification/Slot_Window.thy ===== *)
theory Slot_Window
  imports Push_Ingest
begin

text \<open>
  The rolling consumption window of the machines
  (app/runtime_layers/47_vm_5m_slot_rolling_window.py, with the daily branch of
  40_consumption_cleanup_r4.py): a window is cut into whole days, whole hours and at most two
  partial hours read from the packed slots. A query is a list of branches; running a branch
  gives its rows. The lemmas show that the branches tile the window, and that over tables filled
  by pushes the query adds up exactly the accepted deltas of the window.
\<close>

section \<open>The boundaries\<close>

definition normalized_range :: "int \<Rightarrow> int \<Rightarrow> int \<times> int" where
  "normalized_range start stop =
     (let duration = max CACHE_BUCKET_SECONDS (stop - start);
          normalized_end = (stop div CACHE_BUCKET_SECONDS) * CACHE_BUCKET_SECONDS in
      (normalized_end - duration, normalized_end))"

definition ceil_hour :: "int \<Rightarrow> int \<Rightarrow> int" where
  "ceil_hour tz ts = (let base = local_hour_start tz ts in if ts = base then base else base + 3600)"

definition slot_bounds :: "int \<Rightarrow> int \<Rightarrow> int \<Rightarrow> int \<times> int" where
  "slot_bounds hour_start start stop =
     (let first = max 0 (min 12 ((start - hour_start) div CACHE_BUCKET_SECONDS)) in
      (first, max first (min 12 ((stop - hour_start) div CACHE_BUCKET_SECONDS))))"

section \<open>Branches\<close>

text \<open>
  \<open>Edge hour first past cap node\<close> reads the slots \<open>first\<close> to \<open>past\<close> (excluded) of an hour; the
  others read the totals of the hours or days from the first bound to the second (excluded). An
  empty node selects every node.
\<close>

datatype branch =
    Edge int int int int string
  | Hourly int int string
  | Daily int int string

record window_row =
  wr_node :: string
  wr_vm :: string
  wr_bridge :: string
  wr_rx :: int
  wr_tx :: int
  wr_samples :: int
  wr_last :: int

definition selects :: "string \<Rightarrow> string \<Rightarrow> bool" where
  "selects selected node = (selected = [] \<or> node = selected)"

definition slot_sum :: "(hourly_row \<Rightarrow> int list) \<Rightarrow> int \<Rightarrow> int \<Rightarrow> hourly_row \<Rightarrow> int" where
  "slot_sum slots first past r =
     (\<Sum>i\<leftarrow>[nat first..<nat past]. if is_packed r then slot_at (slots r) i else 0)"

definition has_slot :: "hourly_row \<Rightarrow> nat \<Rightarrow> bool" where
  "has_slot r i = (is_packed r \<and> int i \<in> hr_mask r)"

definition mask_count :: "int \<Rightarrow> int \<Rightarrow> hourly_row \<Rightarrow> int" where
  "mask_count first past r = (\<Sum>i\<leftarrow>[nat first..<nat past]. if has_slot r i then 1 else 0)"

definition latest_slot :: "int \<Rightarrow> int \<Rightarrow> int \<Rightarrow> hourly_row \<Rightarrow> int" where
  "latest_slot hour_start first past r =
     maximum (map (\<lambda>i. if has_slot r i then hour_start + (int i + 1) * CACHE_BUCKET_SECONDS else 0) [nat first..<nat past])"

text \<open>
  The share of an hour that no slot accounts for (rows from before the packing), spread over the
  slots that are not known.
\<close>

definition residual :: "int \<Rightarrow> int \<Rightarrow> int \<Rightarrow> int \<Rightarrow> int \<Rightarrow> int" where
  "residual bytes packed slot_count selected_known packed_known =
     (if 12 \<le> packed_known then 0
      else sql_round (of_int (max (bytes - packed) 0) * of_int (max (slot_count - selected_known) 0)
             / of_int (max (12 - packed_known) 1)))"

definition edge_row :: "int \<Rightarrow> int \<Rightarrow> int \<Rightarrow> int \<Rightarrow> hourly_row \<Rightarrow> window_row" where
  "edge_row hour_start first past cap r =
     (let slot_count = max 0 (past - first);
          selected_known = mask_count first past r; packed_known = mask_count 0 12 r;
          value = (\<lambda>slots bytes. slot_sum slots first past r
             + residual bytes (slot_sum slots 0 12 r) slot_count selected_known packed_known) in
      \<lparr>wr_node = us_node r, wr_vm = us_vm r, wr_bridge = us_bridge r,
       wr_rx = value hr_rx_slots (rx (us_total r)), wr_tx = value hr_tx_slots (tx (us_total r)),
       wr_samples = min slot_count (selected_known + (if 12 \<le> packed_known then 0
          else min (max (min 12 (us_samples r) - packed_known) 0) (max (slot_count - selected_known) 0))),
       wr_last = max (latest_slot hour_start first past r)
          (if selected_known < slot_count \<and> packed_known < us_samples r then min (us_last r) cap else 0)\<rparr>)"

definition hourly_window_row :: "hourly_row \<Rightarrow> window_row" where
  "hourly_window_row r =
     \<lparr>wr_node = us_node r, wr_vm = us_vm r, wr_bridge = us_bridge r, wr_rx = rx (us_total r), wr_tx = tx (us_total r),
      wr_samples = max (if is_packed r \<and> hr_mask r \<noteq> {} then mask_count 0 12 r else 0) (min 12 (us_samples r)),
      wr_last = us_last r\<rparr>"

definition daily_window_row :: "usage_row \<Rightarrow> window_row" where
  "daily_window_row r =
     \<lparr>wr_node = us_node r, wr_vm = us_vm r, wr_bridge = us_bridge r, wr_rx = rx (us_total r), wr_tx = tx (us_total r),
      wr_samples = us_samples r, wr_last = us_last r\<rparr>"

fun run_branch :: "monitor \<Rightarrow> branch \<Rightarrow> window_row list" where
  "run_branch db (Edge hour first past cap node) =
     map (edge_row hour first past cap) (filter (\<lambda>r. us_start r = hour \<and> selects node (us_node r)) (db_hourly db))"
| "run_branch db (Hourly lo hi node) =
     map hourly_window_row (filter (\<lambda>r. lo \<le> us_start r \<and> us_start r < hi \<and> selects node (us_node r)) (db_hourly db))"
| "run_branch db (Daily lo hi node) =
     map daily_window_row (filter (\<lambda>r. lo \<le> us_start r \<and> us_start r < hi \<and> selects node (us_node r)) (db_daily db))"

text \<open>The error of an edge that leaves its hour is a value; no branch is the empty list.\<close>

definition vm_edge_branch :: "int \<Rightarrow> int \<Rightarrow> int \<Rightarrow> string \<Rightarrow> string + branch list" where
  "vm_edge_branch tz start stop node =
     (if stop \<le> start then Inr []
      else
        (let hour_start = local_hour_start tz start in
         if local_hour_start tz (max start (stop - 1)) \<noteq> hour_start
         then Inl ''VM slot edge must stay within one local hour''
         else (let (first, past) = slot_bounds hour_start start stop in
               Inr [Edge hour_start first past (max start (stop - 1)) node])))"

definition vm_hourly_branch :: "int \<Rightarrow> int \<Rightarrow> string \<Rightarrow> branch list" where
  "vm_hourly_branch start stop node = (if stop \<le> start then [] else [Hourly start stop node])"

definition vm_daily_branch :: "int \<Rightarrow> int \<Rightarrow> string \<Rightarrow> branch list" where
  "vm_daily_branch start stop node = (if stop \<le> start then [] else [Daily start stop node])"

definition append_branches :: "string + branch list \<Rightarrow> string + branch list \<Rightarrow> string + branch list" where
  "append_branches a b = (case a of Inl e \<Rightarrow> Inl e | Inr xs \<Rightarrow> (case b of Inl e \<Rightarrow> Inl e | Inr ys \<Rightarrow> Inr (xs @ ys)))"

function add_edge_parts :: "int \<Rightarrow> int \<Rightarrow> int \<Rightarrow> string \<Rightarrow> string + branch list" where
  "add_edge_parts tz cursor stop node =
     (if cursor < stop then
        (let part_end = min stop (local_hour_start tz cursor + 3600) in
         append_branches (vm_edge_branch tz cursor part_end node) (add_edge_parts tz part_end stop node))
      else Inr [])"
  by pat_completeness auto
termination
proof (relation "measure (\<lambda>(tz, cursor, stop, node). nat (stop - cursor))")
  fix tz cursor stop x :: int and node :: string
  assume "cursor < stop" "x = min stop (local_hour_start tz cursor + 3600)"
  then show "((tz, x, stop, node), tz, cursor, stop, node) \<in> measure (\<lambda>(tz, cursor, stop, node). nat (stop - cursor))"
    using hour_bounds[of tz cursor] by auto
qed simp

declare add_edge_parts.simps [simp del]

definition add_complete_middle :: "int \<Rightarrow> int \<Rightarrow> int \<Rightarrow> string \<Rightarrow> branch list" where
  "add_complete_middle tz start stop node =
     (if stop \<le> start then []
      else
        (let first_day = local_day_start tz start;
             full_day_start = (if start = first_day then first_day else first_day + 86400);
             full_day_end = local_day_start tz stop in
         if full_day_start < full_day_end then
           (if start < full_day_start then vm_hourly_branch start full_day_start node else [])
           @ vm_daily_branch full_day_start full_day_end node
           @ (if full_day_end < stop then vm_hourly_branch full_day_end stop node else [])
         else vm_hourly_branch start stop node))"

definition vm_source :: "int \<Rightarrow> int \<Rightarrow> int \<Rightarrow> string \<Rightarrow> string + branch list" where
  "vm_source tz start0 stop0 node =
     (let (start, stop) = normalized_range start0 stop0 in
      if stop \<le> start then Inr []
      else
        (let first_full_hour = ceil_hour tz start; last_full_hour = local_hour_start tz stop in
         if last_full_hour \<le> first_full_hour then add_edge_parts tz start stop node
         else append_branches
           (if start < first_full_hour then add_edge_parts tz start first_full_hour node else Inr [])
           (append_branches (Inr (add_complete_middle tz first_full_hour last_full_hour node))
             (if last_full_hour < stop then add_edge_parts tz last_full_hour stop node else Inr []))))"

section \<open>The branches tile the window\<close>

fun tiles :: "int \<Rightarrow> int \<Rightarrow> (int \<times> int) list \<Rightarrow> bool" where
  "tiles a b [] = (a = b)"
| "tiles a b (i # is) = (fst i = a \<and> a \<le> snd i \<and> tiles (snd i) b is)"

lemma tiles_append: "tiles a b xs \<Longrightarrow> tiles b c ys \<Longrightarrow> tiles a c (xs @ ys)"
  by (induction xs arbitrary: a) auto

lemma tiles_le: "tiles a b xs \<Longrightarrow> a \<le> b"
  by (induction xs arbitrary: a) force+

text \<open>What an interval sums: nothing over an empty interval, and additive over adjacent ones.\<close>

locale interval_sum =
  fixes amount :: "int \<Rightarrow> int \<Rightarrow> int"
  assumes empty: "amount a a = 0"
    and adjacent: "a \<le> b \<Longrightarrow> b \<le> c \<Longrightarrow> amount a c = amount a b + amount b c"
begin

lemma tiled: "tiles a b is \<Longrightarrow> (\<Sum>i\<leftarrow>is. amount (fst i) (snd i)) = amount a b"
proof (induction "is" arbitrary: a)
  case (Cons i "is")
  then have "a \<le> snd i" "snd i \<le> b" using tiles_le by auto
  then show ?case using Cons adjacent[of a "snd i" b] by simp
qed (simp add: empty)

end

fun span :: "branch \<Rightarrow> int \<times> int" where
  "span (Edge hour first past cap node) = (hour + 300 * first, hour + 300 * past)"
| "span (Hourly lo hi node) = (lo, hi)"
| "span (Daily lo hi node) = (lo, hi)"

fun branch_ok :: "int \<Rightarrow> string \<Rightarrow> branch \<Rightarrow> bool" where
  "branch_ok tz sel (Edge hour first past cap node) =
     (hour_aligned tz hour \<and> 0 \<le> first \<and> first \<le> past \<and> past \<le> 12 \<and> node = sel)"
| "branch_ok tz sel (Hourly lo hi node) = (hour_aligned tz lo \<and> hour_aligned tz hi \<and> node = sel)"
| "branch_ok tz sel (Daily lo hi node) = (day_aligned tz lo \<and> day_aligned tz hi \<and> node = sel)"

text \<open>A part of a query that covers an interval without an error.\<close>

definition covers :: "int \<Rightarrow> string \<Rightarrow> int \<Rightarrow> int \<Rightarrow> string + branch list \<Rightarrow> bool" where
  "covers tz sel a b q = (\<exists>bs. q = Inr bs \<and> tiles a b (map span bs) \<and> list_all (branch_ok tz sel) bs)"

lemma covers_append: "covers tz sel a b p \<Longrightarrow> covers tz sel b c q \<Longrightarrow> covers tz sel a c (append_branches p q)"
  by (auto simp: covers_def append_branches_def tiles_append)

lemma covers_Nil [simp]: "covers tz sel a a (Inr [])"
  by (simp add: covers_def)

lemma covers_hourly: "hour_aligned tz a \<Longrightarrow> hour_aligned tz b \<Longrightarrow> a \<le> b \<Longrightarrow> covers tz sel a b (Inr (vm_hourly_branch a b sel))"
  by (simp add: covers_def vm_hourly_branch_def)

lemma covers_daily: "day_aligned tz a \<Longrightarrow> day_aligned tz b \<Longrightarrow> a \<le> b \<Longrightarrow> covers tz sel a b (Inr (vm_daily_branch a b sel))"
  by (simp add: covers_def vm_daily_branch_def)

lemma covers_append_lists: "covers tz sel a b (Inr xs) \<Longrightarrow> covers tz sel b c (Inr ys) \<Longrightarrow> covers tz sel a c (Inr (xs @ ys))"
  using covers_append[of tz sel a b "Inr xs" c "Inr ys"] by (simp add: append_branches_def)

lemma hour_aligned_300: "300 dvd tz \<Longrightarrow> hour_aligned tz h \<Longrightarrow> 300 dvd h"
proof -
  assume tz: "300 dvd tz" and "hour_aligned tz h"
  then have "3600 dvd h + tz" by (simp add: hour_aligned_def)
  then have "300 dvd h + tz" by (rule dvd_trans[rotated]) simp
  then show "300 dvd h" using tz by (simp add: dvd_add_left_iff)
qed

lemma day_next: "day_aligned tz d \<Longrightarrow> day_aligned tz (d + 86400)"
  using dvd_add[of 86400 "d + tz" 86400] by (simp add: day_aligned_def algebra_simps)

lemma hour_next: "hour_aligned tz d \<Longrightarrow> hour_aligned tz (d + 3600)"
  using dvd_add[of 3600 "d + tz" 3600] by (simp add: hour_aligned_def algebra_simps)

lemma aligned_fixpoint: "a = local_hour_start tz a \<Longrightarrow> hour_aligned tz a" "a = local_day_start tz a \<Longrightarrow> day_aligned tz a"
  by (metis hour_aligned_start) (metis day_aligned_start)

lemma clamp_id: "0 \<le> q \<Longrightarrow> q \<le> r \<Longrightarrow> r \<le> 12 \<Longrightarrow> max 0 (min 12 q) = q \<and> max q (min 12 r) = r"
  for q r :: int by simp

lemma slot_bounds_in_hour:
  assumes "300 dvd h" "h \<le> a" "a < b" "b \<le> h + 3600" "300 dvd b" "slot_bounds h a b = (first, past)"
  shows "h + 300 * first = bucket_for a" "h + 300 * past = b" "0 \<le> first" "first \<le> past" "past \<le> 12"
proof -
  obtain k where k: "h = 300 * k" using assms(1) by (auto elim: dvdE)
  obtain m where m: "b = 300 * m" using assms(5) by (auto elim: dvdE)
  have f: "first = max 0 (min 12 ((a - h) div 300))" "past = max first (min 12 ((b - h) div 300))"
    using assms(6) by (auto simp: slot_bounds_def Let_def CACHE_BUCKET_SECONDS_def)
  have q: "(a - h) div 300 = a div 300 - k" "(b - h) div 300 = m - k"
    unfolding k m by linarith+
  have c: "0 \<le> a div 300 - k" "a div 300 - k \<le> m - k" "m - k \<le> 12"
    using assms(2-4) unfolding k m by linarith+
  have e: "first = a div 300 - k" "past = m - k"
    using clamp_id[OF c] f unfolding q by simp_all
  have b: "0 \<le> first" "first \<le> past" "past \<le> 12"
    using c unfolding e by simp_all
  show "h + 300 * first = bucket_for a" "h + 300 * past = b"
    unfolding e bucket_for_def CACHE_BUCKET_SECONDS_def by (simp_all add: k m)
  show "0 \<le> first" "first \<le> past" "past \<le> 12" by (fact b)+
qed

lemma covers_edge:
  assumes "300 dvd tz" "a < b" "b \<le> local_hour_start tz a + 3600" "300 dvd b"
  shows "covers tz sel (bucket_for a) b (vm_edge_branch tz a b sel)"
proof -
  let ?h = "local_hour_start tz a"
  have in_hour: "local_hour_start tz (max a (b - 1)) = ?h"
    using hour_bounds[of tz a] assms(2,3) by (subst hour_start_iff) auto
  obtain first past where sb: "slot_bounds ?h a b = (first, past)" by (metis prod.exhaust)
  note s = slot_bounds_in_hour[OF hour_aligned_300[OF assms(1) hour_aligned_start] _ assms(2-4) sb]
  have "?h \<le> a" using hour_bounds[of tz a] by simp
  with s assms(2) in_hour show ?thesis
    by (simp add: covers_def vm_edge_branch_def sb)
qed

lemma bucket_for_aligned: "300 dvd a \<Longrightarrow> bucket_for a = a"
  by (auto simp: bucket_for_def CACHE_BUCKET_SECONDS_def elim: dvdE)

lemma covers_edge_parts:
  assumes "300 dvd tz" "300 dvd stop" "cursor \<le> stop"
  shows "covers tz sel (bucket_for cursor) stop (add_edge_parts tz cursor stop sel)"
  using assms
proof (induction tz cursor stop sel rule: add_edge_parts.induct)
  case (1 tz cursor stop sel)
  show ?case
  proof (cases "cursor < stop")
    case True
    let ?p = "min stop (local_hour_start tz cursor + 3600)"
    have p: "cursor < ?p" "300 dvd ?p" "?p \<le> stop"
      using True hour_bounds[of tz cursor] "1.prems"(1,2)
        hour_aligned_300[OF "1.prems"(1) hour_next[OF hour_aligned_start[of tz cursor]]]
      by (auto simp: min_def)
    have "covers tz sel (bucket_for cursor) ?p (vm_edge_branch tz cursor ?p sel)"
      using p "1.prems"(1) by (intro covers_edge) auto
    moreover have "covers tz sel ?p stop (add_edge_parts tz ?p stop sel)"
      using "1.IH"[OF True refl] "1.prems" p bucket_for_aligned[OF p(2)] by simp
    ultimately show ?thesis
      using True by (subst add_edge_parts.simps) (simp add: Let_def covers_append)
  next
    case False
    then have "cursor = stop" using "1.prems"(3) by simp
    then show ?thesis using "1.prems"(2) by (subst add_edge_parts.simps) (simp add: bucket_for_aligned)
  qed
qed

lemma covers_middle:
  assumes "hour_aligned tz a" "hour_aligned tz b" "a \<le> b"
  shows "covers tz sel a b (Inr (add_complete_middle tz a b sel))"
proof (cases "b \<le> a")
  case True
  then show ?thesis using assms(3) by (simp add: add_complete_middle_def)
next
  case False
  define d where "d = (if a = local_day_start tz a then local_day_start tz a else local_day_start tz a + 86400)"
  let ?e = "local_day_start tz b"
  have d: "day_aligned tz d" "a \<le> d" using day_bounds[of tz a] by (auto simp: d_def day_next intro: aligned_fixpoint)
  have e: "?e \<le> b" using day_bounds[of tz b] by simp
  show ?thesis
  proof (cases "d < ?e")
    case True
    have "covers tz sel a d (Inr (if a < d then vm_hourly_branch a d sel else []))"
      using d assms(1) by (auto intro: covers_hourly day_is_hour)
    moreover have "covers tz sel d ?e (Inr (vm_daily_branch d ?e sel))"
      using d(1) True by (auto intro: covers_daily)
    moreover have "covers tz sel ?e b (Inr (if ?e < b then vm_hourly_branch ?e b sel else []))"
      using e assms(2) covers_hourly[OF day_is_hour[OF day_aligned_start[of tz b]], of b] by auto
    ultimately have "covers tz sel a b (Inr ((if a < d then vm_hourly_branch a d sel else [])
        @ vm_daily_branch d ?e sel @ (if ?e < b then vm_hourly_branch ?e b sel else [])))"
      by (intro covers_append_lists)
    then show ?thesis using False True by (auto simp: add_complete_middle_def d_def[symmetric] Let_def split: if_splits)
  next
    case F: False
    then show ?thesis
      using False assms covers_hourly by (simp add: add_complete_middle_def d_def[symmetric] Let_def)
  qed
qed

lemma normalized_range_ok:
  "normalized_range s e = (a, b) \<Longrightarrow> a < b \<and> 300 dvd b \<and> b \<le> e \<and> e < b + 300 \<and> (300 \<le> e - s \<longrightarrow> b - a = e - s)"
  by (auto simp: normalized_range_def Let_def CACHE_BUCKET_SECONDS_def)

lemma vm_source_covers:
  assumes "300 dvd tz" "normalized_range s e = (a, b)"
  shows "covers tz sel (bucket_for a) b (vm_source tz s e sel)"
proof -
  have r: "a < b" "300 dvd b" using normalized_range_ok[OF assms(2)] by auto
  let ?f = "ceil_hour tz a" and ?l = "local_hour_start tz b"
  have f: "hour_aligned tz ?f" "a \<le> ?f" using hour_bounds[of tz a] by (auto simp: ceil_hour_def Let_def hour_next intro: aligned_fixpoint)
  have l: "hour_aligned tz ?l" "?l \<le> b" using hour_bounds[of tz b] by simp_all
  show ?thesis
  proof (cases "?l \<le> ?f")
    case True
    then show ?thesis using r assms covers_edge_parts[OF assms(1) r(2)] by (simp add: vm_source_def Let_def)
  next
    case False
    have "covers tz sel (bucket_for a) ?f (if a < ?f then add_edge_parts tz a ?f sel else Inr [])"
      using f covers_edge_parts[OF assms(1) hour_aligned_300[OF assms(1) f(1)] f(2)] bucket_for_aligned[OF hour_aligned_300[OF assms(1) f(1)]]
      by auto
    moreover have "covers tz sel ?f ?l (Inr (add_complete_middle tz ?f ?l sel))"
      using False f(1) l(1) by (intro covers_middle) auto
    moreover have "covers tz sel ?l b (if ?l < b then add_edge_parts tz ?l b sel else Inr [])"
      using l covers_edge_parts[OF assms(1) r(2) l(2)] bucket_for_aligned[OF hour_aligned_300[OF assms(1) l(1)]]
      by auto
    ultimately show ?thesis
      using False r assms(2) by (simp add: vm_source_def Let_def covers_append)
  qed
qed


section \<open>What a query adds up\<close>

definition place :: "'z usage_row_scheme \<Rightarrow> string \<times> string \<times> string" where
  "place r = (us_node r, us_vm r, us_bridge r)"

definition stage_place :: "stage_row \<Rightarrow> string \<times> string \<times> string" where
  "stage_place r = (sr_node r, sr_vm r, sr_bridge r)"

definition window_place :: "window_row \<Rightarrow> string \<times> string \<times> string" where
  "window_place r = (wr_node r, wr_vm r, wr_bridge r)"

definition moved :: "(counters \<Rightarrow> int) \<Rightarrow> stage_row list \<Rightarrow> string \<times> string \<times> string \<Rightarrow> int \<Rightarrow> int \<Rightarrow> int" where
  "moved f E x a b = (\<Sum>r\<leftarrow>filter (\<lambda>r. stage_place r = x \<and> a \<le> slot_start_of r \<and> slot_start_of r < b) E. f (sr_delta r))"

lemma sum_filter_split:
  fixes g :: "'r \<Rightarrow> int"
  assumes "\<And>r. P r \<longleftrightarrow> Q r \<or> R r" "\<And>r. \<not> (Q r \<and> R r)"
  shows "(\<Sum>r\<leftarrow>filter P E. g r) = (\<Sum>r\<leftarrow>filter Q E. g r) + (\<Sum>r\<leftarrow>filter R E. g r)"
proof (induction E)
  case (Cons r E)
  then show ?case using assms[of r] by auto
qed simp

interpretation traffic: interval_sum "moved f E x" for f E x
proof
  show "moved f E x a a = 0" for a
    by (induction E) (auto simp: moved_def)
  show "a \<le> b \<Longrightarrow> b \<le> c \<Longrightarrow> moved f E x a c = moved f E x a b + moved f E x b c" for a b c
    unfolding moved_def by (rule sum_filter_split) auto
qed

text \<open>The rows of a place with a start in a set of hours: table against stage rows.\<close>

lemma sum_by_key:
  fixes g :: "'r \<Rightarrow> int"
  assumes "finite H" "k ` set xs \<subseteq> H"
  shows "(\<Sum>r\<leftarrow>xs. g r) = (\<Sum>h\<in>H. \<Sum>r\<leftarrow>filter (\<lambda>r. k r = h) xs. g r)"
  using assms(2)
proof (induction xs)
  case (Cons r xs)
  have "(\<Sum>h\<in>H. \<Sum>q\<leftarrow>filter (\<lambda>r. k r = h) (r # xs). g q)
      = (\<Sum>h\<in>H. (if h = k r then g r else 0) + (\<Sum>q\<leftarrow>filter (\<lambda>r. k r = h) xs. g q))"
    by (intro sum.cong refl) auto
  also have "\<dots> = g r + (\<Sum>h\<in>H. \<Sum>q\<leftarrow>filter (\<lambda>r. k r = h) xs. g q)"
    using Cons.prems assms(1) by (simp add: sum.distrib)
  finally show ?case using Cons by simp
qed simp

lemma filter_unique_key:
  "distinct (map usage_key tbl) \<Longrightarrow>
   (\<Sum>r\<leftarrow>filter (\<lambda>r. usage_key r = k) tbl. f (us_total r)) = (total_at f k tbl :: int)"
proof (induction tbl)
  case (Cons r tbl)
  show ?case
  proof (cases "usage_key r = k")
    case True
    have "usage_key r \<notin> usage_key ` set tbl" using Cons.prems by simp
    then have "k \<notin> usage_key ` set tbl" using True by simp
    from filter_key_Nil[OF this] have "(\<Sum>r\<leftarrow>filter (\<lambda>r. usage_key r = k) tbl. f (us_total r)) = 0" by (simp only: list.map sum_list.Nil)
    then show ?thesis by (simp add: total_at_def True)
  next
    case False
    have "distinct (map usage_key tbl)" using Cons.prems by simp
    from Cons.IH[OF this] show ?thesis using False by (simp add: total_at_def)
  qed
qed (simp add: total_at_def)

lemma table_against_stage:
  assumes d: "distinct (map usage_key tbl)"
    and t: "\<And>k. total_at f k tbl = (\<Sum>r\<leftarrow>filter (\<lambda>r. key r = k) E. f (sr_delta r))"
    and key: "\<And>r. key r = (start r, stage_place r)"
  shows "(\<Sum>r\<leftarrow>filter (\<lambda>r. P (us_start r) \<and> place r = x) tbl. f (us_total r))
    = (\<Sum>r\<leftarrow>filter (\<lambda>r. P (start r) \<and> stage_place r = x) E. f (sr_delta r))"
proof -
  let ?T = "filter (\<lambda>r. P (us_start r) \<and> place r = x) tbl" and ?S = "filter (\<lambda>r. P (start r) \<and> stage_place r = x) E"
  define H where "H = {h \<in> us_start ` set tbl \<union> start ` set E. P h}"
  have H: "finite H" "us_start ` set ?T \<subseteq> H" "start ` set ?S \<subseteq> H" by (auto simp: H_def)
  have "(\<Sum>r\<leftarrow>filter (\<lambda>r. us_start r = h) ?T. f (us_total r)) = (\<Sum>r\<leftarrow>filter (\<lambda>r. start r = h) ?S. f (sr_delta r))"
    if "h \<in> H" for h
  proof -
    have P: "P h" using that by (simp add: H_def)
    have "filter (\<lambda>r. us_start r = h) ?T = filter (\<lambda>r. usage_key r = (h, x)) tbl"
      using P by (auto simp: usage_key_def place_def intro!: filter_cong)
    moreover have "filter (\<lambda>r. start r = h) ?S = filter (\<lambda>r. key r = (h, x)) E"
      using P by (auto simp: key intro!: filter_cong)
    ultimately show ?thesis using filter_unique_key[OF d, of f "(h, x)"] t by simp
  qed
  then show ?thesis
    using sum_by_key[OF H(1,2), of "\<lambda>r. f (us_total r)"] sum_by_key[OF H(1,3), of "\<lambda>r. f (sr_delta r)"] by simp
qed

lemma selects_place: "window_place r = x \<Longrightarrow> selects sel (wr_node r) = selects sel (fst x)"
  by (auto simp: window_place_def)

definition read_rows :: "(window_row \<Rightarrow> int) \<Rightarrow> string \<times> string \<times> string \<Rightarrow> window_row list \<Rightarrow> int" where
  "read_rows g x rows = (\<Sum>r\<leftarrow>filter (\<lambda>r. window_place r = x) rows. g r)"

lemma read_rows_append: "read_rows g x (a @ b) = read_rows g x a + read_rows g x b"
  by (simp add: read_rows_def)

lemma read_rows_map:
  assumes "\<And>r. window_place (h r) = place r" "\<And>r. r \<in> set tbl \<Longrightarrow> P (us_start r) \<Longrightarrow> g (h r) = v r"
  shows "read_rows g x (map h (filter (\<lambda>r. P (us_start r) \<and> selects sel (us_node r)) tbl))
    = (if selects sel (fst x) then (\<Sum>r\<leftarrow>filter (\<lambda>r. P (us_start r) \<and> place r = x) tbl. v r) else 0)"
  using assms(2)
proof (induction tbl)
  case (Cons r tbl)
  have "place r = x \<Longrightarrow> us_node r = fst x" by (auto simp: place_def)
  then show ?case using Cons by (auto simp: read_rows_def assms(1))
qed (simp add: read_rows_def)

lemma row_places [simp]: "window_place (edge_row h a b c r) = place r" "window_place (hourly_window_row r) = place r"
  "window_place (daily_window_row u) = place u"
  by (simp_all add: window_place_def place_def edge_row_def hourly_window_row_def daily_window_row_def Let_def)

lemma residual_exact [simp]: "residual t t n a b = 0"
  by (simp add: residual_def)

lemma slot_sum_all: "packed_ok r \<Longrightarrow> slot_sum hr_rx_slots 0 12 r = rx (us_total r) \<and> slot_sum hr_tx_slots 0 12 r = tx (us_total r)"
  by (simp add: packed_ok_def slot_sum_def is_packed_def sum_slot_at interv_sum_list_conv_sum_set_nat atLeast0LessThan)

lemma edge_row_exact:
  assumes "packed_ok r"
  shows "wr_rx (edge_row h a b c r) = slot_sum hr_rx_slots a b r" "wr_tx (edge_row h a b c r) = slot_sum hr_tx_slots a b r"
  using slot_sum_all[OF assms] by (simp_all add: edge_row_def Let_def)

lemma filter_start_key:
  fixes v :: "'a usage_row_scheme \<Rightarrow> int"
  assumes "distinct (map usage_key tbl)"
  shows "(\<Sum>r\<leftarrow>filter (\<lambda>r. us_start r = h \<and> place r = x) tbl. v r)
    = (case row_of usage_key (h, x) tbl of None \<Rightarrow> 0 | Some r \<Rightarrow> v r)"
  using assms
proof (induction tbl)
  case (Cons r tbl)
  have eq: "us_start q = h \<and> place q = x \<longleftrightarrow> usage_key q = (h, x)" for q :: "'a usage_row_scheme"
    by (auto simp: usage_key_def place_def)
  have "usage_key r \<notin> usage_key ` set tbl" using Cons.prems by simp
  then show ?case using Cons filter_key_Nil[of "(h, x)" usage_key tbl] by (auto simp: eq)
qed simp

lemma stage_in_slot:
  assumes "300 dvd tz" "stage_ok tz r" "0 \<le> i" "i \<le> 11" "hour_aligned tz h"
  shows "h + 300 * i \<le> slot_start_of r \<and> slot_start_of r < h + 300 * (i + 1) \<longleftrightarrow> sr_hour r = h \<and> slot_no_of r = i"
proof -
  have hr: "sr_hour r = local_hour_start tz (slot_start_of r)" using assms(2) by (simp add: stage_ok_def)
  have iff: "sr_hour r = h \<longleftrightarrow> h \<le> slot_start_of r \<and> slot_start_of r < h + 3600"
    unfolding hr using hour_start_iff[OF assms(5)] .
  have "sr_hour r = h \<Longrightarrow> slot_no_of r = i \<longleftrightarrow> h + 300 * i \<le> slot_start_of r \<and> slot_start_of r < h + 300 * (i + 1)"
    unfolding slot_no_of_def by (simp add: algebra_simps) linarith
  moreover have "h + 300 * i \<le> slot_start_of r \<and> slot_start_of r < h + 300 * (i + 1) \<Longrightarrow> sr_hour r = h"
    unfolding iff using assms(3,4) by auto
  ultimately show ?thesis by blast
qed


lemma moved_slots:
  assumes "300 dvd tz" "\<forall>r \<in> set E. stage_ok tz r" "hour_aligned tz h" "a \<le> b" "b \<le> 12"
  shows "(\<Sum>i\<leftarrow>[a..<b]. \<Sum>r\<leftarrow>filter (\<lambda>r. hour_key r = (h, x) \<and> slot_no_of r = int i) E. f (sr_delta r))
    = moved f E x (h + 300 * int a) (h + 300 * int b)"
  using assms(4,5)
proof (induction rule: dec_induct)
  case base
  then show ?case using traffic.empty by simp
next
  case (step n)
  have "(\<Sum>r\<leftarrow>filter (\<lambda>r. hour_key r = (h, x) \<and> slot_no_of r = int n) E. f (sr_delta r))
      = moved f E x (h + 300 * int n) (h + 300 * (int n + 1))"
  proof -
    have "filter (\<lambda>r. hour_key r = (h, x) \<and> slot_no_of r = int n) E
      = filter (\<lambda>r. stage_place r = x \<and> h + 300 * int n \<le> slot_start_of r \<and> slot_start_of r < h + 300 * (int n + 1)) E"
    proof (rule filter_cong[OF refl])
      fix r assume "r \<in> set E"
      then have "stage_ok tz r" using assms(2) by blast
      from stage_in_slot[OF assms(1) this _ _ assms(3), of "int n"] step
      show "(hour_key r = (h, x) \<and> slot_no_of r = int n) \<longleftrightarrow>
          (stage_place r = x \<and> h + 300 * int n \<le> slot_start_of r \<and> slot_start_of r < h + 300 * (int n + 1))"
        by (auto simp: hour_key_def stage_place_def)
    qed
    then show ?thesis by (simp add: moved_def)
  qed
  moreover have "moved f E x (h + 300 * int a) (h + 300 * int (Suc n))
      = moved f E x (h + 300 * int a) (h + 300 * int n) + moved f E x (h + 300 * int n) (h + 300 * (int n + 1))"
    using step traffic.adjacent[of "h + 300 * int a" "h + 300 * int n" "h + 300 * int (Suc n)"] by (simp add: add.commute)
  ultimately show ?case using step by (simp del: filter.simps)
qed

lemma edge_reads:
  assumes acc: "accounts tz E db" and tz: "300 dvd tz" and ok: "branch_ok tz sel (Edge h a b c sel)"
  shows "read_rows wr_rx x (run_branch db (Edge h a b c sel)) = (if selects sel (fst x) then moved rx E x (h + 300 * a) (h + 300 * b) else 0)"
    and "read_rows wr_tx x (run_branch db (Edge h a b c sel)) = (if selects sel (fst x) then moved tx E x (h + 300 * a) (h + 300 * b) else 0)"
proof -
  have ab: "0 \<le> a" "a \<le> b" "b \<le> 12" and h: "hour_aligned tz h" using ok by auto
  note A = acc[unfolded accounts_def]
  have packed: "\<And>r. r \<in> set (db_hourly db) \<Longrightarrow> packed_ok r" using A by blast
  have sum: "(\<Sum>r\<leftarrow>filter (\<lambda>r. us_start r = h \<and> place r = x) (db_hourly db). slot_sum g a b r)
      = (\<Sum>i\<leftarrow>[nat a..<nat b]. slots_at g (h, x) i (db_hourly db))" for g
  proof (cases "row_of usage_key (h, x) (db_hourly db)")
    case None
    then show ?thesis using A by (subst filter_start_key) (auto simp: slots_at_def)
  next
    case (Some r)
    then have "is_packed r" using packed row_of_key[of usage_key "(h, x)" "db_hourly db" r] by (simp add: packed_ok_def is_packed_def)
    then show ?thesis using A Some by (subst filter_start_key) (auto simp: slots_at_def slot_sum_def)
  qed
  have stage: "\<forall>r \<in> set E. stage_ok tz r" using A by blast
  have sl: "i < 12 \<Longrightarrow> slots_at hr_rx_slots k i (db_hourly db) = (\<Sum>r\<leftarrow>filter (\<lambda>r. hour_key r = k \<and> slot_no_of r = int i) E. rx (sr_delta r))"
    "i < 12 \<Longrightarrow> slots_at hr_tx_slots k i (db_hourly db) = (\<Sum>r\<leftarrow>filter (\<lambda>r. hour_key r = k \<and> slot_no_of r = int i) E. tx (sr_delta r))" for k i
    using A by blast+
  have n: "nat a \<le> nat b" "nat b \<le> 12" "int (nat a) = a" "int (nat b) = b" using ab by auto
  have m: "map (\<lambda>i. slots_at hr_rx_slots (h, x) i (db_hourly db)) [nat a..<nat b]
        = map (\<lambda>i. \<Sum>r\<leftarrow>filter (\<lambda>r. hour_key r = (h, x) \<and> slot_no_of r = int i) E. rx (sr_delta r)) [nat a..<nat b]"
      "map (\<lambda>i. slots_at hr_tx_slots (h, x) i (db_hourly db)) [nat a..<nat b]
        = map (\<lambda>i. \<Sum>r\<leftarrow>filter (\<lambda>r. hour_key r = (h, x) \<and> slot_no_of r = int i) E. tx (sr_delta r)) [nat a..<nat b]"
    by (rule map_cong[OF refl], rule sl, use n in simp)+
  note slots = moved_slots[OF tz stage h n(1,2), where x = x, unfolded n(3,4)]
  show "read_rows wr_rx x (run_branch db (Edge h a b c sel)) = (if selects sel (fst x) then moved rx E x (h + 300 * a) (h + 300 * b) else 0)"
    using read_rows_map[of "edge_row h a b c" "db_hourly db" "\<lambda>s. s = h" wr_rx "slot_sum hr_rx_slots a b" x sel]
    by (simp add: edge_row_exact packed sum m slots)
  show "read_rows wr_tx x (run_branch db (Edge h a b c sel)) = (if selects sel (fst x) then moved tx E x (h + 300 * a) (h + 300 * b) else 0)"
    using read_rows_map[of "edge_row h a b c" "db_hourly db" "\<lambda>s. s = h" wr_tx "slot_sum hr_tx_slots a b" x sel]
    by (simp add: edge_row_exact packed sum m slots)
qed

lemma total_reads:
  assumes acc: "accounts tz E db" and f: "sum_field f"
  shows "hour_aligned tz a \<Longrightarrow> hour_aligned tz b \<Longrightarrow>
      (\<Sum>r\<leftarrow>filter (\<lambda>r. (a \<le> us_start r \<and> us_start r < b) \<and> place r = x) (db_hourly db). f (us_total r)) = moved f E x a b"
    and "day_aligned tz a \<Longrightarrow> day_aligned tz b \<Longrightarrow>
      (\<Sum>r\<leftarrow>filter (\<lambda>r. (a \<le> us_start r \<and> us_start r < b) \<and> place r = x) (db_daily db). f (us_total r)) = moved f E x a b"
proof -
  note A = acc[unfolded accounts_def]
  have ok: "r \<in> set E \<Longrightarrow> sr_hour r = local_hour_start tz (slot_start_of r) \<and> sr_day r = local_day_start tz (slot_start_of r)" for r
    using A by (simp add: stage_ok_def)
  have tot: "total_at f k (db_hourly db) = (\<Sum>r\<leftarrow>filter (\<lambda>r. hour_key r = k) E. f (sr_delta r))"
      "total_at f k (db_daily db) = (\<Sum>r\<leftarrow>filter (\<lambda>r. day_key r = k) E. f (sr_delta r))" for k
    using A f by blast+
  show "(\<Sum>r\<leftarrow>filter (\<lambda>r. (a \<le> us_start r \<and> us_start r < b) \<and> place r = x) (db_hourly db). f (us_total r)) = moved f E x a b"
    if "hour_aligned tz a" "hour_aligned tz b"
  proof -
    have "filter (\<lambda>r. (a \<le> sr_hour r \<and> sr_hour r < b) \<and> stage_place r = x) E
        = filter (\<lambda>r. stage_place r = x \<and> a \<le> slot_start_of r \<and> slot_start_of r < b) E"
      using that by (intro filter_cong refl) (auto simp: ok hour_start_ge hour_start_less)
    then show ?thesis
      using table_against_stage[of "db_hourly db" f hour_key E sr_hour "\<lambda>s. a \<le> s \<and> s < b" x] A tot(1)
      by (simp add: moved_def hour_key_def stage_place_def)
  qed
  show "(\<Sum>r\<leftarrow>filter (\<lambda>r. (a \<le> us_start r \<and> us_start r < b) \<and> place r = x) (db_daily db). f (us_total r)) = moved f E x a b"
    if "day_aligned tz a" "day_aligned tz b"
  proof -
    have "filter (\<lambda>r. (a \<le> sr_day r \<and> sr_day r < b) \<and> stage_place r = x) E
        = filter (\<lambda>r. stage_place r = x \<and> a \<le> slot_start_of r \<and> slot_start_of r < b) E"
      using that by (intro filter_cong refl) (auto simp: ok day_start_ge day_start_less)
    then show ?thesis
      using table_against_stage[of "db_daily db" f day_key E sr_day "\<lambda>s. a \<le> s \<and> s < b" x] A tot(2)
      by (simp add: moved_def day_key_def stage_place_def)
  qed
qed


lemma branch_reads:
  assumes acc: "accounts tz E db" and tz: "300 dvd tz" and ok: "branch_ok tz sel b"
  shows "read_rows wr_rx x (run_branch db b) = (if selects sel (fst x) then moved rx E x (fst (span b)) (snd (span b)) else 0)"
    and "read_rows wr_tx x (run_branch db b) = (if selects sel (fst x) then moved tx E x (fst (span b)) (snd (span b)) else 0)"
proof -
  have "read_rows wr_rx x (run_branch db b) = (if selects sel (fst x) then moved rx E x (fst (span b)) (snd (span b)) else 0)
      \<and> read_rows wr_tx x (run_branch db b) = (if selects sel (fst x) then moved tx E x (fst (span b)) (snd (span b)) else 0)"
  proof (cases b)
    case (Edge h p q c node)
    then show ?thesis using edge_reads[OF acc tz, of sel h p q c x] ok by auto
  next
    case (Hourly lo hi node)
    have "wr_rx (hourly_window_row r) = rx (us_total r)" "wr_tx (hourly_window_row r) = tx (us_total r)" for r
      by (simp_all add: hourly_window_row_def)
    then show ?thesis
      using ok total_reads(1)[OF acc, of rx lo hi x] total_reads(1)[OF acc, of tx lo hi x]
        read_rows_map[of hourly_window_row "db_hourly db" "\<lambda>s. lo \<le> s \<and> s < hi" wr_rx "\<lambda>r. rx (us_total r)" x sel]
        read_rows_map[of hourly_window_row "db_hourly db" "\<lambda>s. lo \<le> s \<and> s < hi" wr_tx "\<lambda>r. tx (us_total r)" x sel]
      by (simp add: Hourly)
  next
    case (Daily lo hi node)
    have "wr_rx (daily_window_row r) = rx (us_total r)" "wr_tx (daily_window_row r) = tx (us_total r)" for r
      by (simp_all add: daily_window_row_def)
    then show ?thesis
      using ok total_reads(2)[OF acc, of rx lo hi x] total_reads(2)[OF acc, of tx lo hi x]
        read_rows_map[of daily_window_row "db_daily db" "\<lambda>s. lo \<le> s \<and> s < hi" wr_rx "\<lambda>r. rx (us_total r)" x sel]
        read_rows_map[of daily_window_row "db_daily db" "\<lambda>s. lo \<le> s \<and> s < hi" wr_tx "\<lambda>r. tx (us_total r)" x sel]
      by (simp add: Daily)
  qed
  then show "read_rows wr_rx x (run_branch db b) = (if selects sel (fst x) then moved rx E x (fst (span b)) (snd (span b)) else 0)"
    "read_rows wr_tx x (run_branch db b) = (if selects sel (fst x) then moved tx E x (fst (span b)) (snd (span b)) else 0)" by auto
qed

text \<open>The rows of a query.\<close>

definition run_query :: "monitor \<Rightarrow> string + branch list \<Rightarrow> string + window_row list" where
  "run_query db q = (case q of Inl e \<Rightarrow> Inl e | Inr bs \<Rightarrow> Inr (concat (map (run_branch db) bs)))"

lemma query_reads:
  assumes acc: "accounts tz E db" and tz: "300 dvd tz" and cov: "covers tz sel a b q"
  shows "\<exists>rows. run_query db q = Inr rows
    \<and> read_rows wr_rx x rows = (if selects sel (fst x) then moved rx E x a b else 0)
    \<and> read_rows wr_tx x rows = (if selects sel (fst x) then moved tx E x a b else 0)"
proof -
  obtain bs where q: "q = Inr bs" and t: "tiles a b (map span bs)" and ok: "list_all (branch_ok tz sel) bs"
    using cov by (auto simp: covers_def)
  have sums: "read_rows wr_rx x (concat (map (run_branch db) bs)) = (\<Sum>b\<leftarrow>bs. read_rows wr_rx x (run_branch db b))"
    "read_rows wr_tx x (concat (map (run_branch db) bs)) = (\<Sum>b\<leftarrow>bs. read_rows wr_tx x (run_branch db b))"
    by (induction bs) (simp_all add: read_rows_append, simp_all add: read_rows_def)
  have parts: "(\<Sum>b\<leftarrow>bs. read_rows wr_rx x (run_branch db b)) = (if selects sel (fst x) then (\<Sum>i\<leftarrow>map span bs. moved rx E x (fst i) (snd i)) else 0)"
    "(\<Sum>b\<leftarrow>bs. read_rows wr_tx x (run_branch db b)) = (if selects sel (fst x) then (\<Sum>i\<leftarrow>map span bs. moved tx E x (fst i) (snd i)) else 0)"
    using ok by (induction bs) (auto simp: branch_reads[OF acc tz])
  show ?thesis
    by (simp add: run_query_def q sums parts traffic.tiled[OF t] del: map_map)
qed

lemma window_reads:
  assumes "accounts tz E db" "300 dvd tz" "normalized_range s e = (a, b)"
  shows "\<exists>rows. run_query db (vm_source tz s e sel) = Inr rows
    \<and> read_rows wr_rx x rows = (if selects sel (fst x) then moved rx E x (bucket_for a) b else 0)
    \<and> read_rows wr_tx x rows = (if selects sel (fst x) then moved tx E x (bucket_for a) b else 0)"
  using query_reads[OF assms(1,2) vm_source_covers[OF assms(2,3)]] .


section \<open>Properties\<close>

text \<open>A window is cut without gaps and without overlaps: the branches of the query, partial hours
  first and last with whole hours and whole local days between, follow one another from the first
  slot of the window to its end, each within the bounds its kind of row can answer; no window makes
  the query fail.\<close>

theorem window_is_tiled:
  assumes "300 dvd tz" "normalized_range s e = (a, b)"
  shows "(\<exists>bs. vm_source tz s e sel = Inr bs \<and> tiles (bucket_for a) b (map span bs) \<and> list_all (branch_ok tz sel) bs)
    \<and> a < b \<and> 300 dvd b \<and> b \<le> e \<and> e < b + 300"
  using vm_source_covers[OF assms, of sel] normalized_range_ok[OF assms(2)] by (auto simp: covers_def)

theorem window_is_tiled_witness:
  "vm_source 25200 600 180300 ''node1'' = Inr [Edge 0 2 12 3599 ''node1'', Hourly 3600 61200 ''node1'', Daily 61200 147600 ''node1'',
      Hourly 147600 180000 ''node1'', Edge 180000 0 1 180299 ''node1'']
   \<and> tiles 600 180300 [(600, 3600), (3600, 61200), (61200, 147600), (147600, 180000), (180000, 180300)]"
proof -
  have n: "normalized_range 600 180300 = (600, 180300)" by code_simp
  have v: "vm_source 25200 600 180300 ''node1'' = Inr [Edge 0 2 12 3599 ''node1'', Hourly 3600 61200 ''node1'', Daily 61200 147600 ''node1'',
      Hourly 147600 180000 ''node1'', Edge 180000 0 1 180299 ''node1'']" by code_simp
  have "bucket_for 600 = 600" by code_simp
  then show ?thesis using window_is_tiled[OF _ n, of 25200 "''node1''"] v by auto
qed

text \<open>C3. The window of a machine adds up what was pushed: after any history of pushes the query of a
  window returns rows, and for every machine on a selected node they add up to exactly the deltas of
  the accepted rows whose five-minute slot lies in the window.\<close>

theorem window_adds_up_pushes:
  assumes "300 dvd sg_tz sg" "pushes sg hist empty_monitor = (E, db)" "normalized_range s e = (a, b)"
  shows "\<exists>rows. run_query db (vm_source (sg_tz sg) s e sel) = Inr rows
    \<and> read_rows wr_rx x rows = (if selects sel (fst x) then moved rx E x (bucket_for a) b else 0)
    \<and> read_rows wr_tx x rows = (if selects sel (fst x) then moved tx E x (bucket_for a) b else 0)"
proof -
  have "accounts (sg_tz sg) E db" using pushes_accounts[OF accounts_empty assms(2)] by simp
  from window_reads[OF this assms(1,3)] show ?thesis .
qed

definition sample_item :: "pyval dict" where
  "sample_item = [(''vm_uuid'', PStr ''vm-a''), (''iface'', PStr ''vnet0''), (''bridge'', PStr ''br0''), (''rx_delta'', PInt 150), (''tx_delta'', PInt 20)]"

lemma sample_item_fields: "strip (text_or sample_item ''vm_uuid'' []) = ''vm-a''" "rx (item_counters sample_item) = 150"
    "text_or sample_item ''bridge'' ''-'' = ''br0''"
  by (simp_all add: sample_item_def text_or_def py_or_def truthy_def sample_names item_counters_def natural_def)

lemma sample_payload_rows:
  "payload_rows sample_settings now sample_push = [stage_row_for sample_settings ''node1'' 1200 1200 (clean_interval sample_push) 0 ''vm-a'' sample_item]"
  unfolding payload_rows_def sample_push_fields sample_item_def[symmetric]
  by (simp add: iface_rows_def stage_row_of_def sample_item_fields map_filter_simps bucket_for_def CACHE_BUCKET_SECONDS_def)

theorem window_adds_up_pushes_witness:
  "\<exists>rows. run_query (snd (pushes sample_settings [(1201, ''secret'', Inr sample_push)] empty_monitor))
       (vm_source 25200 600 1200 []) = Inr rows \<and> read_rows wr_rx (''node1'', ''vm-a'', ''br0'') rows = 150"
proof -
  obtain db where p: "push sample_settings 1201 ''secret'' (Inr sample_push) empty_monitor = (Accepted 1, db)"
    using sample_accepted[of empty_monitor 1201] by (auto simp: empty_monitor_def)
  let ?E = "payload_rows sample_settings 1201 sample_push"
  have ps: "pushes sample_settings [(1201, ''secret'', Inr sample_push)] empty_monitor = (?E, db)"
    by (simp add: p accepted_rows_def)
  have n: "normalized_range 600 1200 = (600, 1200)" by code_simp
  have m: "moved rx ?E (''node1'', ''vm-a'', ''br0'') 600 1200 = 150"
    by (simp add: sample_payload_rows sample_item_fields moved_def stage_place_def stage_row_for_fields slot_start_of_def)
  have b: "bucket_for 600 = 600" by code_simp
  have t: "sg_tz sample_settings = 25200" by (simp add: sample_settings_def)
  from window_adds_up_pushes[OF _ ps n, of "[]" "(''node1'', ''vm-a'', ''br0'')"]
  show ?thesis unfolding ps snd_conv by (auto simp: t b m selects_def)
qed

end
