(* ===== verification/Delivery.thy ===== *)
theory Delivery
  imports Agent_Delivery Slot_Window
begin

text \<open>
  Agent and monitor together. A step relation has the actions of a push cycle one by one, with the
  request on its way, the answer that may be lost, a crash of the agent between any two writes of
  its files and the retention run of the monitor. The invariant of the reachable states says that
  the payloads the monitor accepted form one chain of states: what an agent measured is counted
  once, whatever is repeated or lost on the way.
\<close>

section \<open>The request of a payload\<close>

text \<open>The members and keys of the payload that the modelled part of \<open>push\<close> reads.\<close>

definition row_json :: "hydrated_row \<Rightarrow> pyval" where
  "row_json r = (let d = nr_delta r in PDict [
     (''vm_uuid'', PStr (nr_vm r)), (''iface'', PStr (nr_iface r)), (''bridge'', PStr (nr_bridge r)), (''mac'', PStr (nr_mac r)),
     (''rx_delta'', PInt (rx d)), (''tx_delta'', PInt (tx d)),
     (''rx_packets_delta'', PInt (rx_packets d)), (''tx_packets_delta'', PInt (tx_packets d)),
     (''rx_drop_delta'', PInt (rx_drop d)), (''tx_drop_delta'', PInt (tx_drop d)),
     (''rx_error_delta'', PInt (rx_error d)), (''tx_error_delta'', PInt (tx_error d)),
     (''interval_seconds'', PInt (hy_interval r)),
     (''rx_mbps_peak'', PFloat (hy_rx_mbps_peak r)), (''tx_mbps_peak'', PFloat (hy_tx_mbps_peak r)),
     (''rx_pps_peak'', PFloat (hy_rx_pps_peak r)), (''tx_pps_peak'', PFloat (hy_tx_pps_peak r)),
     (''rx_packet_size_avg'', PFloat (hy_rx_packet_size r)), (''tx_packet_size_avg'', PFloat (hy_tx_packet_size r)),
     (''network_sample_count'', PInt (hy_sample_count r)), (''network_sample_expected'', PInt (hy_sample_expected r)),
     (''network_sample_max_gap_seconds'', PFloat (hy_max_gap r)),
     (''network_sample_quality'', PStr (quality_text (hy_quality r))),
     (''seconds_over_pps'', PInt (hy_seconds_over_pps r)), (''seconds_over_mbps'', PInt (hy_seconds_over_mbps r)),
     (''seconds_over_rx_pps'', PInt (hy_seconds_over_rx_pps r)), (''seconds_over_tx_pps'', PInt (hy_seconds_over_tx_pps r)),
     (''pps_warn_threshold'', PFloat (hy_pps_warn r))])"

definition vm_json :: "vm_row \<Rightarrow> pyval" where
  "vm_json v = PDict [
     (''vm_uuid'', PStr (v_uuid v)), (''vcpu_current'', PInt (v_vcpu v)), (''cpu_percent'', PFloat (v_cpu_core_percent v)),
     (''cpu_core_percent'', PFloat (v_cpu_core_percent v)), (''cpu_normalized_percent'', PFloat (v_cpu_normalized_percent v)),
     (''ram_current_kib'', PInt (v_ram_current v)), (''ram_maximum_kib'', PInt (v_ram_maximum v)), (''ram_rss_kib'', PInt (v_ram_rss v)),
     (''ram_available_kib'', PInt (v_ram_available v)), (''ram_unused_kib'', PInt (v_ram_unused v)), (''ram_usable_kib'', PInt (v_ram_usable v)),
     (''disk_read_delta'', PInt (v_disk_read v)), (''disk_write_delta'', PInt (v_disk_write v)),
     (''disk_read_reqs_delta'', PInt (v_disk_read_reqs v)), (''disk_write_reqs_delta'', PInt (v_disk_write_reqs v))]"

definition request_of :: "payload \<Rightarrow> pyval dict" where
  "request_of p = [(''node'', PStr (pl_node p)), (''time'', PInt (pl_time p)), (''interval'', PInt (pl_interval p)),
     (''interfaces'', PList (map row_json (pl_interfaces p))),
     (''vms'', PList (map vm_json (pl_vms p))),
     (''vm_inventory'', PList (map PStr (pl_vm_inventory p))), (''inventory_complete'', PBool (pl_inventory_complete p))]"

lemma request_time [simp]: "push_time now (request_of p) = pl_time p"
  by (simp add: push_time_def request_of_def)

lemma request_node [simp]: "push_node (request_of p) = strip (pl_node p)"
  by (simp add: push_node_def text_or_def request_of_def py_or_def truthy_def)

lemma request_interfaces [simp]:
  "py_list (py_or (get_none (request_of p) ''interfaces'') (PList [])) = Some (map row_json (pl_interfaces p))"
  by (simp add: request_of_def py_or_def truthy_def py_list_def)

section \<open>The world\<close>

text \<open>
  \<open>w_log\<close> collects the accepted payloads in their order, \<open>w_rows\<close> the rows they brought to the
  monitor's tables.
\<close>

record world =
  w_agent :: agent
  w_committed :: state
  w_monitor :: monitor
  w_log :: "payload list"
  w_rows :: "stage_row list"

definition known :: "monitor \<Rightarrow> payload \<Rightarrow> bool" where
  "known db p = (row_of receipt_key (strip (pl_node p), pl_time p) (db_receipts db) \<noteq> None)"

text \<open>
  The steps. \<open>carry\<close>, \<open>collect\<close>, \<open>commit\<close> and \<open>clear\<close> are the writes of \<open>run_push_cycle\<close> and
  \<open>send_pending\<close>; \<open>arrive\<close> is a request that reaches the monitor, whether or not its answer comes
  back; an answer that acknowledges the payload comes from a monitor that knows it. A collection
  takes place at a later second than every accepted payload, on a kernel that accepts no interface
  name with a colon.
\<close>

definition is_accepted :: "push_reply \<Rightarrow> bool" where
  "is_accepted reply = (case reply of Accepted _ \<Rightarrow> True | _ \<Rightarrow> False)"

inductive step :: "config \<Rightarrow> settings \<Rightarrow> world \<Rightarrow> world \<Rightarrow> bool" for cf sg where
  carry: "step cf sg w (w\<lparr>w_agent := carry_window cf frozen (w_agent w)\<rparr>)"
| collect: "rt_pending (ag_rt (w_agent w)) = No_Pending \<Longrightarrow>
    collect_cycle_payload cf (ag_warn (w_agent w)) note e (w_committed w) (rt_map (ag_rt (w_agent w)))
      (rt_carry (ag_rt (w_agent w))) = ((p, st'), m') \<Longrightarrow>
    (\<And>q. q \<in> set (w_log w) \<Longrightarrow> pl_time q < now_ts e) \<Longrightarrow> plain_ifaces e \<Longrightarrow>
    step cf sg w (w\<lparr>w_agent := store_pending p st' m' now (w_agent w)\<rparr>)"
| arrive: "rt_pending (ag_rt (w_agent w)) = Pending p st t \<Longrightarrow>
    push sg now token (Inr (request_of p)) (w_monitor w) = (reply, db') \<Longrightarrow>
    step cf sg w (w\<lparr>w_monitor := db', w_rows := w_rows w @ accepted_rows sg now (Inr (request_of p)) reply,
      w_log := (if is_accepted reply then w_log w @ [p] else w_log w)\<rparr>)"
| commit: "rt_pending (ag_rt (w_agent w)) = Pending p st t \<Longrightarrow> known (w_monitor w) p \<Longrightarrow>
    step cf sg w (w\<lparr>w_agent := save_state st (snd (apply_monitor_config now text (w_agent w)))\<rparr>)"
| clear: "rt_pending (ag_rt (w_agent w)) = Pending p st t \<Longrightarrow> known (w_monitor w) p \<Longrightarrow> ag_disk_st (w_agent w) = st \<Longrightarrow>
    step cf sg w (w\<lparr>w_agent := save_runtime ((w_agent w)\<lparr>ag_rt := (ag_rt (w_agent w))\<lparr>rt_pending := No_Pending\<rparr>\<rparr>),
      w_committed := st\<rparr>)"
| crash: "start_agent cf (ag_disk_rt (w_agent w)) (ag_disk_st (w_agent w)) = (a, st) \<Longrightarrow>
    step cf sg w (w\<lparr>w_agent := a, w_committed := st\<rparr>)"
| retention: "(\<And>p st t. rt_pending (ag_rt (w_agent w)) = Pending p st t \<Longrightarrow> known (w_monitor w) p \<Longrightarrow>
      known (delete_receipts cutoff (w_monitor w)) p) \<Longrightarrow>
    step cf sg w (w\<lparr>w_monitor := delete_receipts cutoff (w_monitor w)\<rparr>)"

inductive_cases stepE: "step cf sg w w'"

text \<open>A collection of the payload \<open>p\<close> from the state \<open>s\<close>, reading the node \<open>e\<close>.\<close>

definition collected :: "config \<Rightarrow> env \<Rightarrow> state \<Rightarrow> payload \<Rightarrow> state \<Rightarrow> bool" where
  "collected cf e s p s' = (plain_ifaces e \<and> (\<exists>warn note m win m'. collect_cycle_payload cf warn note e s m win = ((p, s'), m')))"

text \<open>Payloads that continue one another: each starts from the state the one before ended with.\<close>

inductive chain :: "config \<Rightarrow> state \<Rightarrow> env list \<Rightarrow> payload list \<Rightarrow> state \<Rightarrow> bool" for cf s0 where
  start: "chain cf s0 [] [] s0"
| extend: "chain cf s0 es ps s \<Longrightarrow> collected cf e s p s' \<Longrightarrow> chain cf s0 (es @ [e]) (ps @ [p]) s'"

definition pending_ok :: "config \<Rightarrow> state \<Rightarrow> world \<Rightarrow> bool" where
  "pending_ok cf s0 w = (case rt_pending (ag_rt (w_agent w)) of
       No_Pending \<Rightarrow> w_committed w = ag_disk_st (w_agent w) \<and> (\<exists>es. chain cf s0 es (w_log w) (ag_disk_st (w_agent w)))
     | Malformed_Pending \<Rightarrow> False
     | Pending p st t \<Rightarrow>
         if known (w_monitor w) p then (\<exists>es log. w_log w = log @ [p] \<and> chain cf s0 es (w_log w) st)
         else w_committed w = ag_disk_st (w_agent w)
           \<and> (\<exists>es e. chain cf s0 es (w_log w) (ag_disk_st (w_agent w)) \<and> collected cf e (ag_disk_st (w_agent w)) p st)
           \<and> (\<forall>q \<in> set (w_log w). pl_time q < pl_time p))"

definition receipts_from :: "config \<Rightarrow> world \<Rightarrow> bool" where
  "receipts_from cf w = (\<forall>r \<in> set (db_receipts (w_monitor w)). rc_node r = strip (c_node cf) \<longrightarrow> rc_time r \<in> pl_time ` set (w_log w))"

definition world_ok :: "config \<Rightarrow> settings \<Rightarrow> state \<Rightarrow> world \<Rightarrow> bool" where
  "world_ok cf sg s0 w = (synced (w_agent w) \<and> pending_ok cf s0 w \<and> receipts_from cf w
     \<and> accounts (sg_tz sg) (w_rows w) (w_monitor w))"

section \<open>The invariant\<close>

lemma collected_fields: "collected cf e s p s' \<Longrightarrow> pl_node p = c_node cf \<and> pl_time p = now_ts e"
  unfolding collected_def
  by (auto simp: collect_cycle_payload_def Let_def case_prod_beta)

lemma not_known_fresh:
  assumes "receipts_from cf w" "pl_node p = c_node cf" "\<forall>q \<in> set (w_log w). pl_time q < pl_time p"
  shows "\<not> known (w_monitor w) p"
proof
  assume "known (w_monitor w) p"
  then obtain r where r: "row_of receipt_key (strip (pl_node p), pl_time p) (db_receipts (w_monitor w)) = Some r"
    by (auto simp: known_def)
  then have "r \<in> set (db_receipts (w_monitor w))" "rc_node r = strip (c_node cf)" "rc_time r = pl_time p"
    using row_of_key[OF r] assms(2) by (auto simp: receipt_key_def)
  then have "pl_time p \<in> pl_time ` set (w_log w)" using assms(1) unfolding receipts_from_def by metis
  then show False using assms(3) by force
qed

lemma pending_ok_frame:
  "pending_ok cf s0 w \<Longrightarrow> rt_pending (ag_rt a) = rt_pending (ag_rt (w_agent w)) \<Longrightarrow>
   ag_disk_st a = ag_disk_st (w_agent w) \<Longrightarrow> pending_ok cf s0 (w\<lparr>w_agent := a\<rparr>)"
  by (cases "rt_pending (ag_rt (w_agent w))") (auto simp: pending_ok_def)

lemma push_receipts:
  assumes "push sg now token (Inr data) db = (reply, db')"
  shows "db_receipts db' = db_receipts db \<and> (\<forall>n. reply \<noteq> Accepted n) \<and> db' = db \<or>
    (\<exists>n r. reply = Accepted n \<and> db_receipts db' = db_receipts db @ [r] \<and> receipt_key r = (push_node data, push_time now data))"
proof (cases "\<exists>n. reply = Accepted n")
  case True
  then obtain n where "reply = Accepted n" by blast
  with push_accepted(7)[of sg now token data db n db'] assms show ?thesis by (auto simp: receipt_key_def)
next
  case False
  then show ?thesis using push_unchanged[OF assms] by blast
qed

lemma known_append: "db_receipts db' = db_receipts db @ [r] \<Longrightarrow> receipt_key r = (strip (pl_node p), pl_time p) \<Longrightarrow> known db' p"
  by (simp add: known_def row_of_append split: option.split)


lemma known_delete: "known (delete_receipts c db) p \<Longrightarrow> known db p"
  by (auto simp: known_def delete_receipts_def row_of_None_iff)

lemma step_collect:
  assumes ok: "world_ok cf sg s0 w" and none: "rt_pending (ag_rt (w_agent w)) = No_Pending"
    and c: "collect_cycle_payload cf warn note e (w_committed w) m win = ((p, st'), m')"
    and t: "\<And>q. q \<in> set (w_log w) \<Longrightarrow> pl_time q < now_ts e" and pl: "plain_ifaces e"
  shows "world_ok cf sg s0 (w\<lparr>w_agent := store_pending p st' m' now (w_agent w)\<rparr>)"
proof -
  let ?d = "ag_disk_st (w_agent w)"
  have d: "w_committed w = ?d" "\<exists>es. chain cf s0 es (w_log w) ?d"
    using ok none by (simp_all add: world_ok_def pending_ok_def)
  have col: "collected cf e ?d p st'" unfolding collected_def using c[unfolded d(1)] pl by blast
  note f = collected_fields[OF col]
  have late: "\<forall>q \<in> set (w_log w). pl_time q < pl_time p" using t f by simp
  have "\<not> known (w_monitor w) p" using not_known_fresh[of cf w p] ok f late by (simp add: world_ok_def)
  then show ?thesis using ok d col late by (auto simp: world_ok_def pending_ok_def receipts_from_def)
qed

lemma step_arrive:
  assumes ok: "world_ok cf sg s0 w" and pend: "rt_pending (ag_rt (w_agent w)) = Pending p st t"
    and p: "push sg now token (Inr (request_of p)) (w_monitor w) = (reply, db')"
  shows "world_ok cf sg s0 (w\<lparr>w_monitor := db', w_rows := w_rows w @ accepted_rows sg now (Inr (request_of p)) reply,
      w_log := (if is_accepted reply then w_log w @ [p] else w_log w)\<rparr>)"
proof -
  have acc: "accounts (sg_tz sg) (w_rows w @ accepted_rows sg now (Inr (request_of p)) reply) db'"
    using ok push_accounts[OF _ p] by (simp add: world_ok_def)
  show ?thesis
  proof (cases "is_accepted reply")
    case False
    then have "\<And>n. reply \<noteq> Accepted n" by (auto simp: is_accepted_def)
    then have "db' = w_monitor w" using push_unchanged[OF p] by blast
    then show ?thesis using ok acc False pend by (auto simp: world_ok_def pending_ok_def receipts_from_def)
  next
    case True
    then obtain n where n: "reply = Accepted n" by (auto simp: is_accepted_def split: push_reply.splits)
    with push_receipts[OF p] obtain r where r: "db_receipts db' = db_receipts (w_monitor w) @ [r]"
      "receipt_key r = (strip (pl_node p), pl_time p)" by auto
    have new: "\<not> known (w_monitor w) p" using push_accepted(5)[OF p[unfolded n]] by (simp add: known_def)
    have now: "known db' p" using r by (rule known_append)
    obtain es e where c: "chain cf s0 es (w_log w) (ag_disk_st (w_agent w))" "collected cf e (ag_disk_st (w_agent w)) p st"
      using ok pend new by (auto simp: world_ok_def pending_ok_def)
    have "chain cf s0 (es @ [e]) (w_log w @ [p]) st" by (rule chain.extend[OF c])
    then show ?thesis
      using ok acc True now pend r
      by (auto simp: world_ok_def pending_ok_def receipts_from_def receipt_key_def)
  qed
qed

lemma step_ok: "step cf sg w w' \<Longrightarrow> world_ok cf sg s0 w \<Longrightarrow> world_ok cf sg s0 w'"
proof (induction rule: step.induct)
  case (carry w frozen)
  then show ?case by (simp add: world_ok_def receipts_from_def pending_ok_frame)
next
  case (collect w nt e p st' m' now)
  show ?case by (rule step_collect[OF collect.prems collect.hyps(1,2) _ collect.hyps(4)]) (fact collect.hyps(3))
next
  case (arrive w p st t now token reply db')
  show ?case by (rule step_arrive[OF arrive.prems arrive.hyps])
next
  case (commit w p st t now answer)
  have "synced (save_state st (snd (apply_monitor_config now answer (w_agent w))))"
    using commit apply_monitor_config_synced[of "w_agent w" now answer] by (simp add: world_ok_def synced_def)
  then show ?case using commit by (auto simp: world_ok_def receipts_from_def pending_ok_def)
next
  case (clear w p st t)
  then show ?case by (auto simp: world_ok_def receipts_from_def pending_ok_def)
next
  case (crash w a st)
  have "ag_disk_rt (w_agent w) = ag_rt (w_agent w)" using crash by (simp add: world_ok_def synced_def)
  then have a: "ag_rt a = ag_rt (w_agent w)" "ag_disk_st a = ag_disk_st (w_agent w)" "st = ag_disk_st (w_agent w)" "synced a"
    using crash.hyps start_agent_fields[of cf "ag_disk_rt (w_agent w)" "ag_disk_st (w_agent w)"] by auto
  then show ?case using crash.prems
    by (auto simp: world_ok_def receipts_from_def pending_ok_def split: pending_slot.split)
next
  case (retention w cutoff)
  have "known (delete_receipts cutoff (w_monitor w)) p = known (w_monitor w) p"
    if "rt_pending (ag_rt (w_agent w)) = Pending p st t" for p st t
    using retention.hyps[OF that] known_delete by blast
  moreover have "accounts (sg_tz sg) (w_rows w) (delete_receipts cutoff (w_monitor w))"
    using retention.prems by (auto simp: world_ok_def delete_receipts_def intro: accounts_cong[rotated 2])
  ultimately show ?case using retention.prems
    by (auto simp: world_ok_def receipts_from_def pending_ok_def delete_receipts_def split: pending_slot.split)
qed

text \<open>The states a run reaches from an agent without a pending payload and a monitor that knows none.\<close>

inductive reachable :: "config \<Rightarrow> settings \<Rightarrow> state \<Rightarrow> world \<Rightarrow> bool" for cf sg s0 where
  init: "synced a \<Longrightarrow> rt_pending (ag_rt a) = No_Pending \<Longrightarrow> ag_disk_st a = s0 \<Longrightarrow>
    reachable cf sg s0 \<lparr>w_agent = a, w_committed = s0, w_monitor = empty_monitor, w_log = [], w_rows = []\<rparr>"
| more: "reachable cf sg s0 w \<Longrightarrow> step cf sg w w' \<Longrightarrow> reachable cf sg s0 w'"

lemma reachable_ok: "reachable cf sg s0 w \<Longrightarrow> world_ok cf sg s0 w"
proof (induction rule: reachable.induct)
  case (init a)
  then show ?case
    by (auto simp: world_ok_def pending_ok_def receipts_from_def accounts_empty empty_monitor_def[symmetric] intro: chain.start)
      (simp add: empty_monitor_def)
next
  case (more w w')
  then show ?case using step_ok by blast
qed


section \<open>What a chain of payloads measures\<close>

fun growth :: "(counters \<Rightarrow> int) \<Rightarrow> counters \<Rightarrow> counters list \<Rightarrow> int" where
  "growth f c [] = 0"
| "growth f c (d # ds) = max 0 (f d - f c) + growth f d ds"

lemma growth_append: "growth f c (ds @ [d]) = growth f c ds + max 0 (f d - f (last (c # ds)))"
  by (induction ds arbitrary: c) simp_all

lemma growth_monotone: "sorted (map f (c # ds)) \<Longrightarrow> growth f c ds = f (last (c # ds)) - f c"
  by (induction ds arbitrary: c) auto

lemma chain_growth:
  assumes "chain cf s0 es ps s" "get_none s0 (net_key vm iface) = PDict (counters_dict c0)"
    and "counter_field f" "CHR '':'' \<notin> set iface"
    and "\<forall>p \<in> set ps. rows_of vm iface (pl_interfaces p) \<noteq> []"
  shows "\<exists>cs. map (\<lambda>e. collect_interface_counters e iface) es = map Some cs
    \<and> get_none s (net_key vm iface) = PDict (counters_dict (last (c0 # cs)))
    \<and> (\<Sum>p\<leftarrow>ps. delta_sum f vm iface (pl_interfaces p)) = growth f c0 cs"
  using assms
proof (induction rule: chain.induct)
  case start
  then show ?case by simp
next
  case (extend es ps s e p s')
  then obtain cs where cs: "map (\<lambda>e. collect_interface_counters e iface) es = map Some cs"
    "get_none s (net_key vm iface) = PDict (counters_dict (last (c0 # cs)))"
    "(\<Sum>p\<leftarrow>ps. delta_sum f vm iface (pl_interfaces p)) = growth f c0 cs" by auto
  obtain warn nt m win m' where c: "collect_cycle_payload cf warn nt e s m win = ((p, s'), m')" and "plain_ifaces e"
    using extend.hyps(2) unfolding collected_def by blast
  have "rows_of vm iface (pl_interfaces p) \<noteq> []" using extend.prems by simp
  from cycle_tracks[OF cs(2) \<open>counter_field f\<close> \<open>plain_ifaces e\<close> \<open>CHR '':'' \<notin> set iface\<close> c this]
  obtain d where d: "collect_interface_counters e iface = Some d" "get_none s' (net_key vm iface) = PDict (counters_dict d)"
    "delta_sum f vm iface (pl_interfaces p) = max 0 (f d - f (last (c0 # cs)))" by blast
  then show ?case using cs by (intro exI[of _ "cs @ [d]"]) (simp add: growth_append)
qed

section \<open>From the payload to the tables\<close>

definition payload_stage :: "settings \<Rightarrow> payload \<Rightarrow> stage_row list" where
  "payload_stage sg p = payload_rows sg 0 (request_of p)"

lemma payload_rows_now: "payload_rows sg now (request_of p) = payload_stage sg p"
  by (simp add: payload_stage_def payload_rows_def)

lemma step_rows:
  "step cf sg w w' \<Longrightarrow> w_rows w = concat (map (payload_stage sg) (w_log w)) \<Longrightarrow>
   w_rows w' = concat (map (payload_stage sg) (w_log w'))"
proof (induction rule: step.induct)
  case (arrive w p st t now token reply db')
  then show ?case
    by (cases reply) (auto simp: accepted_rows_def is_accepted_def payload_rows_now)
qed simp_all

lemma reachable_rows: "reachable cf sg s0 w \<Longrightarrow> w_rows w = concat (map (payload_stage sg) (w_log w))"
  by (induction rule: reachable.induct) (auto dest: step_rows)

text \<open>Rows as the collectors build them: clean names and the deltas of counters.\<close>

definition clean_payload :: "payload \<Rightarrow> bool" where
  "clean_payload p = (\<forall>r \<in> set (pl_interfaces p). strip (nr_vm r) = nr_vm r \<and> nr_vm r \<notin> {[], ''-''} \<and> nr_iface r \<noteq> []
     \<and> 0 \<le> rx (nr_delta r) \<and> 0 \<le> tx (nr_delta r))"

definition staged :: "(counters \<Rightarrow> int) \<Rightarrow> string \<Rightarrow> string \<Rightarrow> stage_row list \<Rightarrow> int" where
  "staged f vm iface E = (\<Sum>r\<leftarrow>filter (\<lambda>r. sr_vm r = vm \<and> sr_iface r = iface) E. f (sr_delta r))"

lemma staged_append [simp]: "staged f vm iface (a @ b) = staged f vm iface a + staged f vm iface b"
  by (simp add: staged_def)

lemma staged_concat: "staged f vm iface (concat Es) = (\<Sum>E\<leftarrow>Es. staged f vm iface E)"
  by (induction Es) (simp_all, simp add: staged_def)

lemma stage_row_for_iface: "sr_iface (stage_row_for sg node t b i n vm d) = text_or d ''iface'' ''-''"
  by (simp only: stage_row_for_def Let_def case_prod_beta stage_row.select_convs)

definition row_dict :: "hydrated_row \<Rightarrow> pyval dict" where
  "row_dict r = as_dict (row_json r)"

lemma row_json_dict: "row_json r = PDict (row_dict r)"
  by (simp add: row_dict_def row_json_def Let_def)

lemma row_dict_reads:
  "text_or (row_dict r) ''vm_uuid'' [] = nr_vm r"
  "nr_iface r \<noteq> [] \<Longrightarrow> text_or (row_dict r) ''iface'' ''-'' = nr_iface r"
  "0 \<le> rx (nr_delta r) \<Longrightarrow> rx (item_counters (row_dict r)) = rx (nr_delta r)"
  "0 \<le> tx (nr_delta r) \<Longrightarrow> tx (item_counters (row_dict r)) = tx (nr_delta r)"
  by (simp_all add: row_dict_def row_json_def Let_def text_or_def py_or_def truthy_def item_counters_def natural_def)

lemma payload_staged:
  assumes "clean_payload p"
  shows "staged rx vm iface (payload_stage sg p) = delta_sum rx vm iface (pl_interfaces p)"
    "staged tx vm iface (payload_stage sg p) = delta_sum tx vm iface (pl_interfaces p)"
proof -
  define row where "row = (\<lambda>i r. stage_row_for sg (strip (pl_node p)) (pl_time p) (bucket_for (pl_time p))
      (clean_interval (request_of p)) i (nr_vm r) (row_dict r))"
  have of_row: "stage_row_of sg (strip (pl_node p)) (pl_time p) (bucket_for (pl_time p)) (clean_interval (request_of p)) i (row_json r)
      = Some (row i r)" if "r \<in> set (pl_interfaces p)" for i r
    using assms that by (simp add: stage_row_of_def row_json_dict row_dict_reads clean_payload_def row_def)
  have fields: "sr_vm (row i r) = nr_vm r" "sr_iface (row i r) = nr_iface r"
      "rx (sr_delta (row i r)) = rx (nr_delta r)" "tx (sr_delta (row i r)) = tx (nr_delta r)"
    if "r \<in> set (pl_interfaces p)" for i r
    using assms that by (simp_all add: row_def stage_row_for_fields stage_row_for_iface row_dict_reads clean_payload_def)
  have stage: "payload_stage sg p = List.map_filter (\<lambda>(i, item). stage_row_of sg (strip (pl_node p)) (pl_time p)
      (bucket_for (pl_time p)) (clean_interval (request_of p)) i item) (enumerate 0 (map row_json (pl_interfaces p)))"
    by (simp add: payload_stage_def payload_rows_def iface_rows_def)
  have gen: "set rs \<subseteq> set (pl_interfaces p) \<Longrightarrow>
      staged f vm iface (List.map_filter (\<lambda>(i, item). stage_row_of sg (strip (pl_node p)) (pl_time p)
        (bucket_for (pl_time p)) (clean_interval (request_of p)) i item) (enumerate n (map row_json rs)))
      = delta_sum f vm iface rs" if "f = rx \<or> f = tx" for f rs n
  proof (induction rs arbitrary: n)
    case (Cons r rs)
    then show ?case using that
      by (auto simp: of_row fields staged_def delta_sum_def rows_of_def map_filter_simps)
  qed (simp add: staged_def delta_sum_def rows_of_def map_filter_simps)
  show "staged rx vm iface (payload_stage sg p) = delta_sum rx vm iface (pl_interfaces p)"
    "staged tx vm iface (payload_stage sg p) = delta_sum tx vm iface (pl_interfaces p)"
    unfolding stage by (simp_all add: gen)
qed

section \<open>A cycle is a run of steps\<close>

lemma steps_trans: "(step cf sg)\<^sup>*\<^sup>* u v \<Longrightarrow> step cf sg v w \<Longrightarrow> (step cf sg)\<^sup>*\<^sup>* u w"
  by (rule rtranclp.rtrancl_into_rtrancl)

lemma cycle_steps:
  assumes none: "rt_pending (ag_rt (w_agent w)) = No_Pending" and dry: "\<not> c_dry_run cf"
    and c: "collect_cycle_payload cf (ag_warn (w_agent w)) nt e (w_committed w) (rt_map (ag_rt (w_agent w)))
        (rt_carry (ag_rt (carry_window cf frozen (w_agent w)))) = ((p, st'), m')"
    and late: "\<And>q. q \<in> set (w_log w) \<Longrightarrow> pl_time q < now_ts e" and plain: "plain_ifaces e"
    and arrives: "push sg now token (Inr (request_of p)) (w_monitor w) = (Accepted n, db')"
  shows "\<exists>w'. (step cf sg)\<^sup>*\<^sup>* w w' \<and> w_monitor w' = db' \<and> w_log w' = w_log w @ [p]
    \<and> (w_committed w', w_agent w') = run_push_cycle cf nt e now frozen r1 (Inr answer) (w_committed w) (w_agent w)"
proof -
  let ?c = "carry_window cf frozen (w_agent w)"
  let ?s = "store_pending p st' m' now ?c"
  let ?f = "save_state st' (snd (apply_monitor_config now answer ?s))"
  let ?w1 = "w\<lparr>w_agent := ?c\<rparr>"
  let ?w2 = "?w1\<lparr>w_agent := ?s\<rparr>"
  let ?w3 = "?w2\<lparr>w_monitor := db', w_rows := w_rows w @ accepted_rows sg now (Inr (request_of p)) (Accepted n), w_log := w_log w @ [p]\<rparr>"
  let ?w4 = "?w3\<lparr>w_agent := ?f\<rparr>"
  let ?w5 = "?w4\<lparr>w_agent := save_runtime (?f\<lparr>ag_rt := (ag_rt ?f)\<lparr>rt_pending := No_Pending\<rparr>\<rparr>), w_committed := st'\<rparr>"
  have s1: "step cf sg w ?w1" by (rule step.carry)
  have s2: "step cf sg ?w1 ?w2"
    using step.collect[of ?w1 cf nt e p st' m' sg now] none c late plain by simp
  have s3: "step cf sg ?w2 ?w3"
    using step.arrive[of ?w2 p st' now sg now token "Accepted n" db' cf] arrives
    by (simp add: is_accepted_def)
  from push_receipts[OF arrives] obtain r where "db_receipts db' = db_receipts (w_monitor w) @ [r]"
    "receipt_key r = (strip (pl_node p), pl_time p)" by auto
  then have k: "known db' p" by (rule known_append)
  have s4: "step cf sg ?w3 ?w4"
    using step.commit[of ?w3 p st' now cf sg now answer] k by simp
  have s5: "step cf sg ?w4 ?w5"
    using step.clear[of ?w4 p st' now cf sg] k by simp
  have "(step cf sg)\<^sup>*\<^sup>* w ?w5"
    by (rule steps_trans[OF steps_trans[OF steps_trans[OF steps_trans[OF steps_trans[OF rtranclp.rtrancl_refl s1] s2] s3] s4] s5])
  moreover have "run_push_cycle cf nt e now frozen r1 (Inr answer) (w_committed w) (w_agent w) = (w_committed ?w5, w_agent ?w5)"
    using cycle_push_done[OF none dry c] by (simp add: send_pending_def Let_def)
  ultimately show ?thesis by (intro exI[of _ ?w5]) simp
qed


lemma arrive_later:
  assumes "world_ok cf sg s0 w" "rt_pending (ag_rt (w_agent w)) = Pending p st t" "\<not> known (w_monitor w) p"
  shows "\<forall>q \<in> set (w_log w). pl_time q < pl_time p"
  using assms by (simp add: world_ok_def pending_ok_def)

lemma step_times:
  "step cf sg w w' \<Longrightarrow> world_ok cf sg s0 w \<Longrightarrow> sorted_wrt (<) (map pl_time (w_log w)) \<Longrightarrow> sorted_wrt (<) (map pl_time (w_log w'))"
proof (induction rule: step.induct)
  case (arrive w p st t now token reply db')
  show ?case
  proof (cases reply)
    case (Accepted n)
    have "\<not> known (w_monitor w) p" using push_accepted(5)[OF arrive.hyps(2)[unfolded Accepted]] by (simp add: known_def)
    then have "\<forall>q \<in> set (w_log w). pl_time q < pl_time p" using arrive_later[OF arrive.prems(1) arrive.hyps(1)] by blast
    then show ?thesis using arrive.prems(2) Accepted by (simp add: is_accepted_def sorted_wrt_append)
  qed (use arrive.prems(2) in \<open>simp_all add: is_accepted_def\<close>)
qed simp_all

lemma reachable_times: "reachable cf sg s0 w \<Longrightarrow> sorted_wrt (<) (map pl_time (w_log w))"
proof (induction rule: reachable.induct)
  case (more w w')
  show ?case by (rule step_times[OF more.hyps(2) reachable_ok[OF more.hyps(1)] more.IH])
qed simp

lemma chain_times: "chain cf s0 es ps s \<Longrightarrow> map now_ts es = map pl_time ps"
  by (induction rule: chain.induct) (auto dest: collected_fields)

lemma log_chain: "reachable cf sg s0 w \<Longrightarrow> \<exists>es s. chain cf s0 es (w_log w) s"
  using reachable_ok[of cf sg s0 w]
  by (auto simp: world_ok_def pending_ok_def split: pending_slot.splits if_splits)

section \<open>Properties\<close>


definition sample_world :: world where
  "sample_world = \<lparr>w_agent = sample_agent, w_committed = sample_state 100, w_monitor = empty_monitor, w_log = [], w_rows = []\<rparr>"

lemma sample_world_reachable: "reachable light_config sample_settings (sample_state 100) sample_world"
  unfolding sample_world_def by (rule reachable.init) simp_all

lemma reachable_steps: "(step cf sg)\<^sup>*\<^sup>* u v \<Longrightarrow> reachable cf sg s0 u \<Longrightarrow> reachable cf sg s0 v"
  by (induction rule: rtranclp_induct) (auto intro: reachable.more)

lemma sample_request:
  assumes "pl_time p = 1500" "pl_node p = ''node1''"
  shows "\<exists>n db'. push sample_settings 1501 ''secret'' (Inr (request_of p)) empty_monitor = (Accepted n, db')"
  using assms
  by (simp add: push_def valid_agent_token_def insert_or_ignore_def receipt_key_def Let_def sample_names)
     (simp add: sample_settings_def empty_monitor_def)

lemma sample_delivery:
  "\<exists>p w'. (step light_config sample_settings)\<^sup>*\<^sup>* sample_world w' \<and> w_log w' = [p] \<and> pl_time p = 1500
     \<and> rows_of ''vm-a'' ''vnet0'' (pl_interfaces p) \<noteq> [] \<and> clean_payload p
     \<and> delta_sum rx ''vm-a'' ''vnet0'' (pl_interfaces p) = 150
     \<and> (w_committed w', w_agent w') = run_push_cycle light_config [] (sample_node ''250'' 1500) 1501 [] (Inr []) (Inr ''{}'') (sample_state 100) sample_agent"
proof -
  obtain p st' m' where res: "collect_cycle_payload light_config (ag_warn sample_agent) [] (sample_node ''250'' 1500) (sample_state 100)
      (rt_map (ag_rt sample_agent)) (rt_carry (ag_rt (carry_window light_config [] sample_agent))) = ((p, st'), m')"
    by (metis prod.exhaust)
  note c = res[unfolded sample_agent_fields(2)]
  note p = sample_cycle[OF sample_digits(3) c]
  obtain n db' where a: "push sample_settings 1501 ''secret'' (Inr (request_of p)) (w_monitor sample_world) = (Accepted n, db')"
    using sample_request[OF p(3,4)] by (auto simp: sample_world_def)
  have w: "rt_pending (ag_rt (w_agent sample_world)) = No_Pending" by (simp add: sample_world_def)
  have res': "collect_cycle_payload light_config (ag_warn (w_agent sample_world)) [] (sample_node ''250'' 1500) (w_committed sample_world)
      (rt_map (ag_rt (w_agent sample_world))) (rt_carry (ag_rt (carry_window light_config [] (w_agent sample_world)))) = ((p, st'), m')"
    using res by (simp add: sample_world_def)
  have k: "entry (sample_state 100) (net_key ''vm-a'' ''vnet0'') = counters_dict (sample_counters 100)"
    by (simp add: net_key_def sample_state_def entry_def dget_or_def)
  have "rows_of ''vm-a'' ''vnet0'' (pl_interfaces p) \<noteq> []" "clean_payload p" "delta_sum rx ''vm-a'' ''vnet0'' (pl_interfaces p) = 150"
    by (simp_all add: k delta_sum_def p(1) rows_of_def clean_payload_def hydrate_network_rows_def hydrate_row_def sample_digits Let_def sample_counters_def)

  then show ?thesis
    using cycle_steps[OF w light_config_fields(1) res' _ sample_plain a, of "Inr []" "''{}''"] p(3)
    by (auto simp: sample_world_def)
qed




end
