(* ===== verification/Abuse_Policy.thy ===== *)
theory Abuse_Policy
  imports Push_Ingest
begin

text \<open>
  The policy of the abuse engine (app/runtime_layers/16_abuse_engine.py with the RAM rule of
  26_abuse_intelligence.py and the bounded memory ratio of 27_abuse_dashboard.py): the settings
  of the table admin_settings as a dictionary of texts, the tests on the values of one machine,
  the streaks of five-minute cycles, the flags and the acknowledgement of the packet threshold by
  the agent. The lemmas bound the settings and the ratios and say what a streak counts.
\<close>

section \<open>Settings\<close>

text \<open>The defaults as the layers 12 to 16 and 26 leave them.\<close>

definition ABUSE_SETTING_DEFAULTS :: "string dict" where
  "ABUSE_SETTING_DEFAULTS = [
     (''abuse_network_enabled'', ''1''), (''abuse_network_pps'', ''200000''), (''abuse_network_required_seconds'', ''270''),
     (''abuse_network_mbps_enabled'', ''1''), (''abuse_network_avg_mbps'', ''800''), (''abuse_network_mbps_required_seconds'', ''300''),
     (''abuse_cpu_enabled'', ''1''), (''abuse_cpu_full_percent'', ''90''), (''abuse_cpu_required_seconds'', ''1800''),
     (''abuse_disk_enabled'', ''1''), (''abuse_disk_read_bps'', ''0''), (''abuse_disk_write_bps'', ''0''),
     (''abuse_disk_bps'', ''209715200''), (''abuse_disk_iops'', ''5000''), (''abuse_disk_required_seconds'', ''900''),
     (''abuse_ram_enabled'', ''0''), (''abuse_ram_rss_percent'', ''95''), (''abuse_ram_guest_used_percent'', ''95''),
     (''abuse_ram_low_usable_percent'', ''5''), (''abuse_ram_required_seconds'', ''600'')]"

definition ABUSE_EVAL_CYCLE_SECONDS :: int where
  "ABUSE_EVAL_CYCLE_SECONDS = CACHE_BUCKET_SECONDS"

definition ABUSE_ENGINE_VERSION :: string where
  "ABUSE_ENGINE_VERSION = ''cycles-v3-ram''"

definition setting_bool :: "string \<Rightarrow> bool" where
  "setting_bool v = (lower (strip v) \<in> {''1'', ''true'', ''yes'', ''on'', ''enabled''})"

definition setting_value :: "string dict \<Rightarrow> string \<Rightarrow> string" where
  "setting_value tbl key = (case dget tbl key of Some v \<Rightarrow> v | None \<Rightarrow> dget_or ABUSE_SETTING_DEFAULTS key [])"

definition required_cycles :: "int \<Rightarrow> int" where
  "required_cycles seconds = max 1 \<lceil>of_int (max 1 seconds) / (of_int ABUSE_EVAL_CYCLE_SECONDS :: rat)\<rceil>"

record policy =
  po_network :: bool
  po_pps :: rat
  po_pps_seconds :: int
  po_mbps :: bool
  po_avg_mbps :: rat
  po_mbps_seconds :: int
  po_mbps_cycles :: int
  po_cpu :: bool
  po_cpu_percent :: rat
  po_cpu_seconds :: int
  po_cpu_cycles :: int
  po_disk :: bool
  po_disk_read_bps :: rat
  po_disk_write_bps :: rat
  po_disk_bps :: rat
  po_disk_iops :: rat
  po_disk_seconds :: int
  po_disk_cycles :: int
  po_disk_effective :: bool
  po_ram :: bool
  po_rss_percent :: rat
  po_guest_percent :: rat
  po_usable_percent :: rat
  po_ram_seconds :: int
  po_ram_cycles :: int
  po_ram_effective :: bool
  po_revision :: int
  po_updated_at :: int

definition clamp :: "'a::linorder \<Rightarrow> 'a \<Rightarrow> 'a \<Rightarrow> 'a" where
  "clamp lo hi v = max lo (min hi v)"

lemma clamp_bounds: "lo \<le> hi \<Longrightarrow> lo \<le> clamp lo hi v \<and> clamp lo hi v \<le> hi"
  by (simp add: clamp_def)

definition get_abuse_settings :: "string dict \<Rightarrow> policy" where
  "get_abuse_settings tbl =
     (let v = setting_value tbl; f = (\<lambda>k d. str_safe_float (v k) d); i = (\<lambda>k d. str_safe_int (v k) d);
          mbps_s = clamp 300 86400 (i ''abuse_network_mbps_required_seconds'' 300);
          cpu_s = clamp 300 86400 (i ''abuse_cpu_required_seconds'' 1800);
          disk_s = clamp 300 86400 (i ''abuse_disk_required_seconds'' 900);
          ram_s = clamp 300 86400 (i ''abuse_ram_required_seconds'' 600);
          disk = setting_bool (v ''abuse_disk_enabled'');
          read = max 0 (f ''abuse_disk_read_bps'' 0); wr = max 0 (f ''abuse_disk_write_bps'' 0);
          both = max 0 (f ''abuse_disk_bps'' 209715200); iops = max 0 (f ''abuse_disk_iops'' 5000);
          ram = setting_bool (v ''abuse_ram_enabled'');
          rss = clamp 0 100 (f ''abuse_ram_rss_percent'' 95); guest = clamp 0 100 (f ''abuse_ram_guest_used_percent'' 95);
          usable = clamp 0 100 (f ''abuse_ram_low_usable_percent'' 5) in
      \<lparr>po_network = setting_bool (v ''abuse_network_enabled''),
       po_pps = clamp 1000 100000000 (f ''abuse_network_pps'' 200000),
       po_pps_seconds = clamp 15 300 (i ''abuse_network_required_seconds'' 270),
       po_mbps = setting_bool (v ''abuse_network_mbps_enabled''),
       po_avg_mbps = clamp 0 1000000 (f ''abuse_network_avg_mbps'' 800),
       po_mbps_seconds = mbps_s, po_mbps_cycles = required_cycles mbps_s,
       po_cpu = setting_bool (v ''abuse_cpu_enabled''), po_cpu_percent = clamp 1 100 (f ''abuse_cpu_full_percent'' 90),
       po_cpu_seconds = cpu_s, po_cpu_cycles = required_cycles cpu_s,
       po_disk = disk, po_disk_read_bps = read, po_disk_write_bps = wr, po_disk_bps = both, po_disk_iops = iops,
       po_disk_seconds = disk_s, po_disk_cycles = required_cycles disk_s,
       po_disk_effective = (disk \<and> list_ex (\<lambda>x. 0 < x) [read, wr, both, iops]),
       po_ram = ram, po_rss_percent = rss, po_guest_percent = guest, po_usable_percent = usable,
       po_ram_seconds = ram_s, po_ram_cycles = required_cycles ram_s,
       po_ram_effective = (ram \<and> list_ex (\<lambda>x. 0 < x) [rss, guest, usable]),
       po_revision = max 1 (case dget tbl ''abuse_policy_revision'' of None \<Rightarrow> 1 | Some r \<Rightarrow> str_safe_int r 1),
       po_updated_at = max 0 (case dget tbl ''abuse_policy_updated_at'' of None \<Rightarrow> 0 | Some r \<Rightarrow> str_safe_int r 0)\<rparr>)"

text \<open>What the answer to a push carries to the agent.\<close>

definition get_agent_runtime_config :: "string dict \<Rightarrow> pyval" where
  "get_agent_runtime_config tbl =
     (let cfg = get_abuse_settings tbl in
      PDict [(''revision'', PInt (po_revision cfg)), (''policy_updated_at'', PInt (po_updated_at cfg)),
        (''engine_version'', PStr ABUSE_ENGINE_VERSION),
        (''pps_warn'', if po_network cfg then PFloat (po_pps cfg) else PInt 0), (''network_enabled'', PBool (po_network cfg))])"

section \<open>The packet threshold of the agent\<close>

record sync =
  sy_count :: int
  sy_all_match :: bool
  sy_has_report :: bool
  sy_reported :: rat

definition synced_with_policy :: "sync \<Rightarrow> bool" where
  "synced_with_policy r = (0 < sy_count r \<and> sy_has_report r \<and> sy_all_match r)"

text \<open>The name of the machine of an item, if the item counts.\<close>

definition item_vm :: "pyval dict \<Rightarrow> string" where
  "item_vm d = strip (text_or d ''vm_uuid'' [])"

definition report_matches :: "policy \<Rightarrow> rat \<Rightarrow> bool" where
  "report_matches cfg reported =
     (if po_network cfg then \<bar>reported - po_pps cfg\<bar> \<le> max 1 (po_pps cfg / 1000) else reported \<le> 0)"

definition sync_item :: "policy \<Rightarrow> pyval \<Rightarrow> sync dict \<Rightarrow> sync dict" where
  "sync_item cfg item result = (case item of
      PDict d \<Rightarrow>
        (let vm = item_vm d in
         if vm = [] \<or> vm = ''-'' then result
         else
           (let rec0 = dget_or result vm \<lparr>sy_count = 0, sy_all_match = True, sy_has_report = True, sy_reported = 0\<rparr>;
                r1 = rec0\<lparr>sy_count := sy_count rec0 + 1\<rparr> in
            dset result vm
              (case get_none d ''pps_warn_threshold'' of
                 PNone \<Rightarrow> r1\<lparr>sy_has_report := False, sy_all_match := False\<rparr>
               | v \<Rightarrow> (let reported = max 0 (safe_float v 0) in
                   r1\<lparr>sy_reported := reported, sy_all_match := (sy_all_match r1 \<and> report_matches cfg reported)\<rparr>))))
    | _ \<Rightarrow> result)"

definition pps_sync_map :: "policy \<Rightarrow> pyval list \<Rightarrow> sync dict" where
  "pps_sync_map cfg interfaces = fold (sync_item cfg) interfaces []"

definition vm_synced :: "policy \<Rightarrow> sync dict \<Rightarrow> string \<Rightarrow> bool" where
  "vm_synced cfg m vm = (po_network cfg \<and> (case dget m vm of None \<Rightarrow> False | Some r \<Rightarrow> synced_with_policy r))"

text \<open>The timers of an agent that measured against another threshold count as zero.\<close>

definition normalize_interface :: "policy \<Rightarrow> sync dict \<Rightarrow> pyval \<Rightarrow> pyval" where
  "normalize_interface cfg m item = (case item of
      PDict d \<Rightarrow>
        (if vm_synced cfg m (item_vm d) then item
         else PDict (dset (dset (dset d ''seconds_over_pps'' (PInt 0)) ''seconds_over_rx_pps'' (PInt 0)) ''seconds_over_tx_pps'' (PInt 0)))
    | _ \<Rightarrow> item)"

section \<open>Streaks and tests\<close>

definition next_streak :: "int \<Rightarrow> bool \<Rightarrow> bool \<Rightarrow> bool \<Rightarrow> bool \<Rightarrow> int" where
  "next_streak old_cycles hit policy_same contiguous advance_cycle =
     (let old = max 0 old_cycles in
      if \<not> hit then 0
      else if \<not> advance_cycle then max 1 old
      else if policy_same \<and> contiguous then old + 1
      else 1)"

definition disk_hit :: "policy \<Rightarrow> rat \<Rightarrow> rat \<Rightarrow> rat \<Rightarrow> rat \<Rightarrow> bool \<times> rat list" where
  "disk_hit cfg read_bps write_bps read_iops write_iops =
     (if \<not> po_disk_effective cfg then (False, [])
      else
        (let test = (\<lambda>limit v. if 0 < limit \<and> limit \<le> v then [v / limit] else []);
             matches = test (po_disk_read_bps cfg) read_bps @ test (po_disk_write_bps cfg) write_bps
               @ test (po_disk_bps cfg) (read_bps + write_bps) @ test (po_disk_iops cfg) (read_iops + write_iops) in
         (matches \<noteq> [], matches)))"

record ram =
  rm_current :: int
  rm_rss :: int
  rm_available :: int
  rm_unused :: int
  rm_usable :: int
  rm_rss_percent :: rat
  rm_guest_percent :: rat
  rm_usable_percent :: rat
  rm_guest_valid :: bool

definition ram_metrics :: "int \<Rightarrow> int \<Rightarrow> int \<Rightarrow> int \<Rightarrow> int \<Rightarrow> ram" where
  "ram_metrics current0 rss0 available0 unused0 usable0 =
     (let current = max 0 current0; rss = max 0 rss0; available = max 0 available0;
          unused = max 0 unused0; usable = max 0 usable0;
          guest_valid = (0 < available \<and> (0 < usable \<or> 0 < unused) \<and> of_int usable \<le> of_int available * (105 / 100 :: rat)) in
      \<lparr>rm_current = current, rm_rss = rss, rm_available = available, rm_unused = unused, rm_usable = usable,
       rm_rss_percent = (if 0 < current then of_int rss * 100 / of_int current else 0),
       rm_guest_percent = (if guest_valid then clamp 0 100 (of_int (available - usable) * 100 / of_int available) else -1),
       rm_usable_percent = (if guest_valid then clamp 0 100 (of_int usable * 100 / of_int available) else -1),
       rm_guest_valid = guest_valid\<rparr>)"

definition low_usable_ratio :: "rat \<Rightarrow> rat \<Rightarrow> rat" where
  "low_usable_ratio threshold0 actual0 =
     (let threshold = max 0 threshold0; actual = max 0 actual0 in
      if threshold \<le> 0 \<or> threshold < actual then 0
      else min 2 (max 1 (1 + (threshold - actual) / threshold)))"

definition ram_hit :: "policy \<Rightarrow> ram \<Rightarrow> bool \<times> rat list" where
  "ram_hit cfg m =
     (if \<not> po_ram_effective cfg then (False, [])
      else
        (let ratios = (if 0 < po_rss_percent cfg \<and> po_rss_percent cfg \<le> rm_rss_percent m then [rm_rss_percent m / po_rss_percent cfg] else [])
               @ (if 0 < po_guest_percent cfg \<and> po_guest_percent cfg \<le> rm_guest_percent m then [rm_guest_percent m / po_guest_percent cfg] else [])
               @ (if 0 < po_usable_percent cfg \<and> rm_guest_valid m \<and> rm_usable_percent m \<le> po_usable_percent cfg
                  then [low_usable_ratio (po_usable_percent cfg) (rm_usable_percent m)] else []) in
         (ratios \<noteq> [], ratios)))"

section \<open>Flags\<close>

definition flag_names :: "string dict" where
  "flag_names = [(''NETWORK_RX_PPS_5M'', ''NETWORK_RX_PPS''), (''NETWORK_TX_PPS_5M'', ''NETWORK_TX_PPS''),
     (''CPU_30M'', ''CPU_SUSTAINED''), (''DISK_15M'', ''DISK_SUSTAINED'')]"

definition canonical_flags :: "string \<Rightarrow> string list" where
  "canonical_flags flags =
     dedup_first [] (map (\<lambda>f. dget_or flag_names f f) (filter (\<lambda>f. f \<noteq> []) (map strip (split_on CHR '','' flags))))"

definition flag_union :: "string list \<Rightarrow> string list" where
  "flag_union values = dedup_first [] (concat (map canonical_flags values))"

definition primary_type :: "string list \<Rightarrow> string" where
  "primary_type flags =
     (let has = (\<lambda>w. list_ex (\<lambda>f. contains w (upper f)) flags) in
      if has ''NETWORK'' then ''network'' else if has ''CPU'' then ''cpu'' else if has ''RAM'' then ''ram''
      else if has ''DISK'' then ''disk'' else ''other'')"

definition incident_score :: "int \<Rightarrow> rat \<Rightarrow> rat" where
  "incident_score duration_seconds max_severity =
     round_dec 4 (1 + of_int (max 0 duration_seconds) / 3600 * max 1 max_severity)"


section \<open>Bounds\<close>

lemma round_up_div: "300 * ((s + 299) div 300 - 1) < s \<and> s \<le> 300 * ((s + 299) div 300)" for s :: int
proof -
  define q r where "q = (s + 299) div 300" and "r = (s + 299) mod 300"
  have "s + 299 = 300 * q + r" "0 \<le> r" "r < 300" by (simp_all add: q_def r_def)
  then have "300 * (q - 1) < s" "s \<le> 300 * q" by simp_all
  then show ?thesis by (simp add: q_def)
qed

lemma required_cycles_div:
  assumes "1 \<le> s"
  shows "required_cycles s = (s + 299) div 300"
proof -
  let ?q = "(s + 299) div 300"
  have q: "300 * (?q - 1) < s" "s \<le> 300 * ?q" using round_up_div by blast+
  have "\<lceil>(of_int s :: rat) / 300\<rceil> = ?q"
  proof (rule ceiling_unique)
    have "(of_int (300 * (?q - 1)) :: rat) < of_int s" using q(1) by (simp only: of_int_less_iff)
    then show "of_int ?q - 1 < (of_int s :: rat) / 300" by (simp add: pos_less_divide_eq)
    have "(of_int s :: rat) \<le> of_int (300 * ?q)" using q(2) by (simp only: of_int_le_iff)
    then show "(of_int s :: rat) / 300 \<le> of_int ?q" by (simp add: pos_divide_le_eq)
  qed
  moreover have "1 \<le> ?q" using assms by linarith
  ultimately show ?thesis using assms by (simp add: required_cycles_def ABUSE_EVAL_CYCLE_SECONDS_def CACHE_BUCKET_SECONDS_def)
qed

lemma required_cycles_bounds:
  assumes "300 \<le> s" "s \<le> 86400"
  shows "1 \<le> required_cycles s \<and> required_cycles s \<le> 288 \<and> s \<le> 300 * required_cycles s \<and> 300 * (required_cycles s - 1) < s"
proof -
  have c: "required_cycles s = (s + 299) div 300" using assms by (intro required_cycles_div) simp
  show ?thesis unfolding c using assms round_up_div[of s] by (intro conjI) linarith+
qed

definition policy_ok :: "policy \<Rightarrow> bool" where
  "policy_ok cfg \<longleftrightarrow> 1000 \<le> po_pps cfg \<and> po_pps cfg \<le> 100000000 \<and> 15 \<le> po_pps_seconds cfg \<and> po_pps_seconds cfg \<le> 300
     \<and> 0 \<le> po_avg_mbps cfg \<and> po_avg_mbps cfg \<le> 1000000 \<and> 1 \<le> po_cpu_percent cfg \<and> po_cpu_percent cfg \<le> 100
     \<and> 0 \<le> po_disk_read_bps cfg \<and> 0 \<le> po_disk_write_bps cfg \<and> 0 \<le> po_disk_bps cfg \<and> 0 \<le> po_disk_iops cfg
     \<and> 0 \<le> po_rss_percent cfg \<and> po_rss_percent cfg \<le> 100 \<and> 0 \<le> po_guest_percent cfg \<and> po_guest_percent cfg \<le> 100
     \<and> 0 \<le> po_usable_percent cfg \<and> po_usable_percent cfg \<le> 100
     \<and> po_mbps_cycles cfg = required_cycles (po_mbps_seconds cfg) \<and> po_cpu_cycles cfg = required_cycles (po_cpu_seconds cfg)
     \<and> po_disk_cycles cfg = required_cycles (po_disk_seconds cfg) \<and> po_ram_cycles cfg = required_cycles (po_ram_seconds cfg)
     \<and> list_all (\<lambda>s. 300 \<le> s \<and> s \<le> 86400) [po_mbps_seconds cfg, po_cpu_seconds cfg, po_disk_seconds cfg, po_ram_seconds cfg]
     \<and> 1 \<le> po_revision cfg \<and> 0 \<le> po_updated_at cfg"

lemma clamp_ge: "lo \<le> hi \<Longrightarrow> lo \<le> clamp lo hi v" and clamp_le: "lo \<le> hi \<Longrightarrow> clamp lo hi v \<le> hi"
  by (simp_all add: clamp_def)

lemma get_abuse_settings_ok: "policy_ok (get_abuse_settings tbl)"
  unfolding policy_ok_def get_abuse_settings_def Let_def policy.select_convs list.pred_inject
  by (intro conjI clamp_ge clamp_le TrueI refl max.cobounded1) simp_all

lemma policy_cycles:
  assumes "policy_ok cfg"
  shows "1 \<le> po_mbps_cycles cfg" "1 \<le> po_cpu_cycles cfg" "1 \<le> po_disk_cycles cfg" "1 \<le> po_ram_cycles cfg"
  using assms required_cycles_bounds by (auto simp: policy_ok_def)

lemma low_usable_ratio_bounds: "0 \<le> low_usable_ratio t a \<and> low_usable_ratio t a \<le> 2"
  by (simp add: low_usable_ratio_def Let_def le_max_iff_disj)

lemma low_usable_ratio_hit: "0 < t \<Longrightarrow> a \<le> t \<Longrightarrow> 1 \<le> low_usable_ratio t a"
  by (auto simp: low_usable_ratio_def Let_def)

lemma disk_ratios: "x \<in> set (snd (disk_hit cfg r w ri wi)) \<Longrightarrow> 1 \<le> x"
  by (auto simp: disk_hit_def Let_def split: if_splits)

lemma disk_hit_iff: "fst (disk_hit cfg r w ri wi) \<longleftrightarrow> snd (disk_hit cfg r w ri wi) \<noteq> []"
  by (simp add: disk_hit_def Let_def)

lemma ram_hit_iff: "fst (ram_hit cfg m) \<longleftrightarrow> snd (ram_hit cfg m) \<noteq> []"
  by (simp add: ram_hit_def Let_def)

lemma ram_ratios: "x \<in> set (snd (ram_hit cfg m)) \<Longrightarrow> 1 \<le> x"
  by (auto simp: ram_hit_def Let_def low_usable_ratio_hit split: if_splits)

lemma ram_metrics_percent:
  "rm_guest_valid (ram_metrics c r a un us) \<Longrightarrow> 0 \<le> rm_usable_percent (ram_metrics c r a un us)
     \<and> rm_usable_percent (ram_metrics c r a un us) \<le> 100 \<and> 0 \<le> rm_guest_percent (ram_metrics c r a un us)"
    by (simp only: ram_metrics_def Let_def ram.select_convs if_True) (simp add: clamp_def)

lemma ram_metrics_invalid:
  "\<not> rm_guest_valid (ram_metrics c r a un us) \<Longrightarrow> rm_usable_percent (ram_metrics c r a un us) = -1"
  by (simp only: ram_metrics_def Let_def ram.select_convs if_False)

section \<open>What a streak counts\<close>

lemma next_streak_nonneg [simp]: "0 \<le> next_streak c h p k a"
  by (simp add: next_streak_def Let_def le_max_iff_disj)

lemma next_streak_pos: "0 < next_streak c h p k a \<longleftrightarrow> h"
  by (auto simp: next_streak_def Let_def)

lemma next_streak_miss [simp]: "next_streak c False p k a = 0"
  by (simp add: next_streak_def)

lemma next_streak_again: "next_streak c True p k False = max 1 c"
  by (simp add: next_streak_def Let_def)

lemma next_streak_next: "0 \<le> c \<Longrightarrow> next_streak c True True True True = c + 1"
  by (simp add: next_streak_def)

lemma next_streak_broken: "\<not> (p \<and> k) \<Longrightarrow> next_streak c True p k True = 1"
  by (auto simp: next_streak_def Let_def)

text \<open>The number of hits at the end of a history.\<close>

definition trailing :: "bool list \<Rightarrow> nat" where
  "trailing hs = length (takeWhile (\<lambda>h. h) (rev hs))"

lemma trailing_Nil [simp]: "trailing [] = 0"
  by (simp add: trailing_def)

lemma trailing_snoc [simp]: "trailing (hs @ [h]) = (if h then trailing hs + 1 else 0)"
  by (simp add: trailing_def)

lemma trailing_ge: "n \<le> trailing hs \<longleftrightarrow> n \<le> length hs \<and> list_all (\<lambda>h. h) (drop (length hs - n) hs)"
proof -
  have "n \<le> length (takeWhile (\<lambda>h. h) xs) \<longleftrightarrow> n \<le> length xs \<and> list_all (\<lambda>h. h) (take n xs)" for n and xs :: "bool list"
    by (induction xs arbitrary: n) (auto simp: take_Cons split: nat.split)
  from this[of n "rev hs"] show ?thesis by (simp add: trailing_def take_rev list_all_rev)
qed

lemma canonical_distinct: "distinct (canonical_flags f)"
  by (simp add: canonical_flags_def distinct_dedup_first)

lemma flag_union_distinct: "distinct (flag_union fs)"
  by (simp add: flag_union_def distinct_dedup_first)

end
