(* ===== verification/Abuse_Engine.thy ===== *)
theory Abuse_Engine
  imports Vm_Current
begin

text \<open>
  The abuse engine: the evaluation of the current rows of a node after a push
  (\<open>_v5050_refresh_fast_current_state\<close> of app/runtime_layers/36_batched_ingest.py), the events and the
  incidents they open and close (26_abuse_intelligence.py) and the policy change that starts a new
  epoch (16_abuse_engine.py). The streak columns in seconds are always 300 times those in cycles
  and are left out, as are the texts of the details and the copy of the thresholds in an event.
\<close>

section \<open>Tables\<close>

record measures =
  ms_rx_pps :: rat
  ms_tx_pps :: rat
  ms_rx_peak_pps :: rat
  ms_tx_peak_pps :: rat
  ms_over_rx :: int
  ms_over_tx :: int
  ms_rx_mbps :: rat
  ms_tx_mbps :: rat
  ms_cpu_full :: rat
  ms_cpu_core :: rat
  ms_vcpu :: int
  ms_disk_read :: rat
  ms_disk_write :: rat
  ms_read_iops :: rat
  ms_write_iops :: rat
  ms_ram_current :: int
  ms_ram_rss :: int
  ms_ram_available :: int
  ms_ram_usable :: int
  ms_rss_percent :: rat
  ms_guest_percent :: rat
  ms_usable_percent :: rat

record streaks =
  st_cpu :: int
  st_disk :: int
  st_ram :: int
  st_rx_mbps :: int
  st_tx_mbps :: int

record abuse_row =
  as_node :: string
  as_vm :: string
  as_last_seen :: int
  as_abuse :: bool
  as_since :: "int option"
  as_flags :: string
  as_severity :: rat
  as_rx_hit :: bool
  as_tx_hit :: bool
  as_rx_mbps_hit :: bool
  as_tx_mbps_hit :: bool
  as_streaks :: streaks
  as_measures :: measures
  as_synced :: bool
  as_reported :: rat
  as_revision :: int
  as_applied_at :: int
  as_bucket :: int
  as_engine :: string

record abuse_event =
  ev_time :: int
  ev_type :: string
  ev_node :: string
  ev_vm :: string
  ev_flags :: string
  ev_severity :: rat
  ev_measures :: measures
  ev_streaks :: streaks
  ev_revision :: int
  ev_engine :: string

record incident =
  in_id :: int
  in_node :: string
  in_vm :: string
  in_started :: int
  in_ended :: "int option"
  in_duration :: int
  in_severity :: rat
  in_score :: rat
  in_flags :: string
  in_type :: string
  in_count :: int
  in_last :: int
  in_open :: bool
  in_revision :: int
  in_engine :: string

record policy_version =
  pv_revision :: int
  pv_changed_at :: int
  pv_changed_by :: string
  pv_action :: string
  pv_policy :: policy

record abuse_db =
  ad_settings :: "string dict"
  ad_current :: "fast_row list"
  ad_state :: "abuse_row list"
  ad_events :: "abuse_event list"
  ad_incidents :: "incident list"
  ad_next_id :: int
  ad_versions :: "policy_version list"

definition abuse_key :: "abuse_row \<Rightarrow> string \<times> string" where
  "abuse_key r = (as_node r, as_vm r)"

definition event_key :: "abuse_event \<Rightarrow> string \<times> string \<times> int \<times> string \<times> string" where
  "event_key e = (ev_node e, ev_vm e, ev_time e, ev_type e, ev_flags e)"

section \<open>Incidents\<close>

definition open_of :: "string \<Rightarrow> string \<Rightarrow> incident \<Rightarrow> bool" where
  "open_of node vm i = (in_open i \<and> in_node i = node \<and> in_vm i = vm)"

text \<open>The open incident with the largest id.\<close>

definition open_row :: "string \<Rightarrow> string \<Rightarrow> incident list \<Rightarrow> incident option" where
  "open_row node vm rows = select_first (\<lambda>i. - in_id i) (open_of node vm) rows"

definition close_row :: "int \<Rightarrow> rat \<Rightarrow> string \<Rightarrow> int \<Rightarrow> incident \<Rightarrow> incident" where
  "close_row ended_at max_severity flags increment i =
     (let severity = max (in_severity i) max_severity; merged = flag_union [in_flags i, flags];
          duration = max 0 (ended_at - in_started i) in
      i\<lparr>in_ended := Some ended_at, in_duration := duration, in_severity := severity,
        in_score := incident_score duration severity, in_flags := join '','' merged, in_type := primary_type merged,
        in_count := max 1 (in_count i + increment), in_last := ended_at, in_open := False\<rparr>)"

definition close_incident :: "int \<Rightarrow> int \<Rightarrow> rat \<Rightarrow> string \<Rightarrow> int \<Rightarrow> incident list \<Rightarrow> incident list" where
  "close_incident incident_id ended_at max_severity flags increment rows =
     map (\<lambda>i. if in_id i = incident_id then close_row ended_at max_severity flags increment i else i) rows"

definition add_incident :: "incident \<Rightarrow> abuse_db \<Rightarrow> abuse_db" where
  "add_incident i db = db\<lparr>ad_incidents := ad_incidents db @ [i\<lparr>in_id := ad_next_id db\<rparr>], ad_next_id := ad_next_id db + 1\<rparr>"

definition apply_incident_event :: "string \<Rightarrow> abuse_row \<Rightarrow> int \<Rightarrow> string \<Rightarrow> rat \<Rightarrow> int \<Rightarrow> abuse_db \<Rightarrow> abuse_db" where
  "apply_incident_event event_type state t flags severity0 revision db =
     (let node = as_node state; vm = as_vm state; severity = max 0 severity0;
          flags_list = flag_union [flags]; flags_text = join '','' flags_list;
          opened = open_row node vm (ad_incidents db);
          since = max 0 (case as_since state of None \<Rightarrow> t | Some s \<Rightarrow> s); started_at = (if since = 0 then t else since);
          new = (\<lambda>started ended duration score is_open.
            \<lparr>in_id = 0, in_node = node, in_vm = vm, in_started = started, in_ended = ended, in_duration = duration,
             in_severity = severity, in_score = score, in_flags = flags_text, in_type = primary_type flags_list,
             in_count = 1, in_last = t, in_open = is_open, in_revision = revision, in_engine = ABUSE_ENGINE_VERSION\<rparr>) in
      if node = [] \<or> vm = [] then db
      else if event_type = ''started'' then
        add_incident (new t None 0 0 True)
          (case opened of None \<Rightarrow> db
           | Some o' \<Rightarrow> db\<lparr>ad_incidents := close_incident (in_id o') t severity flags_text 0 (ad_incidents db)\<rparr>)
      else if event_type = ''recovered'' then
        (case opened of
           Some o' \<Rightarrow> db\<lparr>ad_incidents := close_incident (in_id o') t severity flags_text 1 (ad_incidents db)\<rparr>
         | None \<Rightarrow> (let duration = max 0 (t - started_at) in
             add_incident (new started_at (Some t) duration (incident_score duration severity) False) db))
      else
        (case opened of
           None \<Rightarrow> add_incident (new started_at None 0 0 True) db
         | Some o' \<Rightarrow>
             (let merged = flag_union [in_flags o', flags_text] in
              db\<lparr>ad_incidents := map (\<lambda>i. if in_id i = in_id o'
                 then i\<lparr>in_severity := max (in_severity o') severity, in_flags := join '','' merged, in_type := primary_type merged,
                        in_count := max 1 (in_count o' + 1), in_last := t, in_revision := revision, in_engine := ABUSE_ENGINE_VERSION\<rparr>
                 else i) (ad_incidents db)\<rparr>)))"

section \<open>Events\<close>

text \<open>An event that is already stored is ignored, and then leaves the incidents alone.\<close>

definition insert_abuse_event :: "string \<Rightarrow> abuse_row \<Rightarrow> int \<Rightarrow> string \<Rightarrow> rat \<Rightarrow> abuse_db \<Rightarrow> abuse_db" where
  "insert_abuse_event event_type state t flags severity db =
     (let (count, evs) = insert_or_ignore event_key
        \<lparr>ev_time = t, ev_type = event_type, ev_node = as_node state, ev_vm = as_vm state, ev_flags = flags, ev_severity = severity,
         ev_measures = as_measures state, ev_streaks = as_streaks state, ev_revision = as_revision state, ev_engine = ABUSE_ENGINE_VERSION\<rparr>
        (ad_events db) in
      if count = 0 then db
      else apply_incident_event event_type state t flags severity (as_revision state) (db\<lparr>ad_events := evs\<rparr>))"

section \<open>The evaluation of a machine\<close>

definition policy_same :: "policy \<Rightarrow> abuse_row option \<Rightarrow> bool" where
  "policy_same cfg old = (case old of None \<Rightarrow> False | Some r \<Rightarrow> as_revision r = po_revision cfg \<and> as_engine r = ABUSE_ENGINE_VERSION)"

definition no_streaks :: streaks where
  "no_streaks = \<lparr>st_cpu = 0, st_disk = 0, st_ram = 0, st_rx_mbps = 0, st_tx_mbps = 0\<rparr>"

definition old_streaks :: "abuse_row option \<Rightarrow> streaks" where
  "old_streaks old = (case old of None \<Rightarrow> no_streaks | Some r \<Rightarrow> as_streaks r)"

definition old_bucket :: "abuse_row option \<Rightarrow> int" where
  "old_bucket old = (case old of None \<Rightarrow> 0 | Some r \<Rightarrow> as_bucket r)"

text \<open>Which of the sustained rules the current row meets.\<close>

definition mbps_now :: "policy \<Rightarrow> rat \<Rightarrow> bool" where
  "mbps_now cfg v = (po_mbps cfg \<and> 0 < po_avg_mbps cfg \<and> po_avg_mbps cfg \<le> v)"

definition cpu_now :: "policy \<Rightarrow> fast_row \<Rightarrow> bool" where
  "cpu_now cfg c = (po_cpu cfg \<and> po_cpu_percent cfg \<le> fa_cpu_full c)"

definition row_disk_hit :: "policy \<Rightarrow> fast_row \<Rightarrow> bool \<times> rat list" where
  "row_disk_hit cfg c = disk_hit cfg (fa_disk_read c) (fa_disk_write c) (fa_read_iops c) (fa_write_iops c)"

definition row_ram :: "fast_row \<Rightarrow> ram" where
  "row_ram c = ram_metrics (fa_ram_current c) (fa_ram_rss c) (fa_ram_available c) (fa_ram_unused c) (fa_ram_usable c)"

definition next_streaks :: "policy \<Rightarrow> int \<Rightarrow> abuse_row option \<Rightarrow> fast_row \<Rightarrow> streaks" where
  "next_streaks cfg bucket old c =
     (let s = old_streaks old; ob = old_bucket old;
          nxt = (\<lambda>cycles hit. next_streak cycles hit (policy_same cfg old) (ob \<noteq> 0 \<and> bucket - ob = ABUSE_EVAL_CYCLE_SECONDS) (ob \<noteq> bucket)) in
      \<lparr>st_cpu = nxt (st_cpu s) (cpu_now cfg c), st_disk = nxt (st_disk s) (fst (row_disk_hit cfg c)),
       st_ram = nxt (st_ram s) (fst (ram_hit cfg (row_ram c))),
       st_rx_mbps = nxt (st_rx_mbps s) (mbps_now cfg (fa_rx_mbps c)), st_tx_mbps = nxt (st_tx_mbps s) (mbps_now cfg (fa_tx_mbps c))\<rparr>)"

text \<open>The flags of the rules that are active, with the severity of each.\<close>

definition active_rules :: "policy \<Rightarrow> bool \<Rightarrow> streaks \<Rightarrow> fast_row \<Rightarrow> (string \<times> rat) list" where
  "active_rules cfg pps_synced s c =
     (let flag = (\<lambda>active name severity. if active then [(name, severity)] else []) in
      flag (pps_synced \<and> po_pps_seconds cfg \<le> fa_over_rx c) ''NETWORK_RX_PPS'' (max 1 (fa_rx_pps c / max (po_pps cfg) 1))
      @ flag (pps_synced \<and> po_pps_seconds cfg \<le> fa_over_tx c) ''NETWORK_TX_PPS'' (max 1 (fa_tx_pps c / max (po_pps cfg) 1))
      @ flag (mbps_now cfg (fa_rx_mbps c) \<and> po_mbps_cycles cfg \<le> st_rx_mbps s) ''NETWORK_RX_AVG_MBPS''
          (max 1 (fa_rx_mbps c / max (po_avg_mbps cfg) (1 / 1000)))
      @ flag (mbps_now cfg (fa_tx_mbps c) \<and> po_mbps_cycles cfg \<le> st_tx_mbps s) ''NETWORK_TX_AVG_MBPS''
          (max 1 (fa_tx_mbps c / max (po_avg_mbps cfg) (1 / 1000)))
      @ flag (cpu_now cfg c \<and> po_cpu_cycles cfg \<le> st_cpu s) ''CPU_SUSTAINED'' (max 1 (fa_cpu_full c / max (po_cpu_percent cfg) (1 / 1000)))
      @ flag (fst (ram_hit cfg (row_ram c)) \<and> po_ram_cycles cfg \<le> st_ram s) ''RAM_SUSTAINED'' (Max (set (1 # snd (ram_hit cfg (row_ram c)))))
      @ flag (fst (row_disk_hit cfg c) \<and> po_disk_cycles cfg \<le> st_disk s) ''DISK_SUSTAINED'' (Max (set (1 # snd (row_disk_hit cfg c)))))"

definition measures_of :: "bool \<Rightarrow> fast_row \<Rightarrow> measures" where
  "measures_of pps_synced c =
     (let m = row_ram c in
      \<lparr>ms_rx_pps = fa_rx_pps c, ms_tx_pps = fa_tx_pps c, ms_rx_peak_pps = fa_rx_peak_pps c, ms_tx_peak_pps = fa_tx_peak_pps c,
       ms_over_rx = (if pps_synced then fa_over_rx c else 0), ms_over_tx = (if pps_synced then fa_over_tx c else 0),
       ms_rx_mbps = fa_rx_mbps c, ms_tx_mbps = fa_tx_mbps c, ms_cpu_full = fa_cpu_full c, ms_cpu_core = fa_cpu_core c,
       ms_vcpu = fa_vcpu c, ms_disk_read = fa_disk_read c, ms_disk_write = fa_disk_write c, ms_read_iops = fa_read_iops c,
       ms_write_iops = fa_write_iops c, ms_ram_current = rm_current m, ms_ram_rss = rm_rss m, ms_ram_available = rm_available m,
       ms_ram_usable = rm_usable m, ms_rss_percent = rm_rss_percent m, ms_guest_percent = rm_guest_percent m,
       ms_usable_percent = rm_usable_percent m\<rparr>)"

definition evaluate :: "policy \<Rightarrow> string \<Rightarrow> int \<Rightarrow> sync dict \<Rightarrow> abuse_row option \<Rightarrow> fast_row \<Rightarrow> abuse_row" where
  "evaluate cfg node t sync old c =
     (let bucket = bucket_for t; same = policy_same cfg old; pps_synced = vm_synced cfg sync (fa_vm c);
          s = next_streaks cfg bucket old c; rules = active_rules cfg pps_synced s c; flags = map fst rules;
          active = (flags \<noteq> []);
          old_active = (same \<and> (case old of None \<Rightarrow> False | Some r \<Rightarrow> as_abuse r));
          old_since = (case old of None \<Rightarrow> 0 | Some r \<Rightarrow> (case as_since r of None \<Rightarrow> 0 | Some x \<Rightarrow> x));
          since = (if active \<and> old_active \<and> old_since \<noteq> 0 then old_since else if active then t else 0) in
      \<lparr>as_node = node, as_vm = fa_vm c, as_last_seen = fa_last_seen c, as_abuse = active,
       as_since = (if since = 0 then None else Some since), as_flags = join '','' flags,
       as_severity = (if rules = [] then 0 else Max (set (map snd rules))),
       as_rx_hit = (pps_synced \<and> po_pps_seconds cfg \<le> fa_over_rx c), as_tx_hit = (pps_synced \<and> po_pps_seconds cfg \<le> fa_over_tx c),
       as_rx_mbps_hit = (mbps_now cfg (fa_rx_mbps c) \<and> po_mbps_cycles cfg \<le> st_rx_mbps s),
       as_tx_mbps_hit = (mbps_now cfg (fa_tx_mbps c) \<and> po_mbps_cycles cfg \<le> st_tx_mbps s),
       as_streaks = s, as_measures = measures_of pps_synced c, as_synced = pps_synced,
       as_reported = (case dget sync (fa_vm c) of None \<Rightarrow> 0 | Some r \<Rightarrow> sy_reported r),
       as_revision = po_revision cfg, as_applied_at = (if same then (case old of None \<Rightarrow> t | Some r \<Rightarrow> as_applied_at r) else t),
       as_bucket = bucket, as_engine = ABUSE_ENGINE_VERSION\<rparr>)"

section \<open>The events of a push\<close>

definition is_active :: "policy \<Rightarrow> abuse_row option \<Rightarrow> bool" where
  "is_active cfg old = (case old of None \<Rightarrow> False | Some r \<Rightarrow> as_abuse r \<and> policy_same cfg old)"

definition canonical_text :: "abuse_row option \<Rightarrow> string" where
  "canonical_text old = (case old of None \<Rightarrow> [] | Some r \<Rightarrow> join '','' (canonical_flags (as_flags r)))"

definition transition :: "policy \<Rightarrow> int \<Rightarrow> string \<Rightarrow> string \<Rightarrow> abuse_row option \<Rightarrow> abuse_row option \<Rightarrow> abuse_db \<Rightarrow> abuse_db" where
  "transition cfg t node vm old new db =
     (let was = is_active cfg old; old_flags = canonical_text old; new_flags = canonical_text new in
      case new of
        Some n \<Rightarrow>
          (if as_abuse n \<and> \<not> was then insert_abuse_event ''started'' n t (as_flags n) (as_severity n) db
           else if as_abuse n \<and> was \<and> new_flags \<noteq> old_flags then insert_abuse_event ''updated'' n t (as_flags n) (as_severity n) db
           else if was \<and> \<not> as_abuse n then
             (case old of None \<Rightarrow> db | Some o' \<Rightarrow> insert_abuse_event ''recovered''
                (n\<lparr>as_node := node, as_vm := vm, as_since := Some (case as_since o' of None \<Rightarrow> t | Some s \<Rightarrow> s)\<rparr>)
                t old_flags (as_severity o') db)
           else db)
      | None \<Rightarrow>
          (if was then
             (case old of None \<Rightarrow> db | Some o' \<Rightarrow> insert_abuse_event ''recovered''
                (o'\<lparr>as_node := node, as_vm := vm, as_since := Some (case as_since o' of None \<Rightarrow> t | Some s \<Rightarrow> s)\<rparr>)
                t old_flags (as_severity o') db)
           else db))"

text \<open>
  \<open>_v5050_refresh_fast_current_state\<close>; \<open>irows\<close> and \<open>vrows\<close> are the rows of the push that the
  stage tables hold.
\<close>

definition state_vms :: "string \<Rightarrow> abuse_row list \<Rightarrow> string list" where
  "state_vms node rows = map as_vm (filter (\<lambda>r. as_node r = node) rows)"

definition next_current ::
  "policy \<Rightarrow> string \<Rightarrow> int \<Rightarrow> int \<Rightarrow> pyval list \<Rightarrow> stage_row list \<Rightarrow> vm_stage list \<Rightarrow> bool \<Rightarrow> fast_row list \<Rightarrow> fast_row list" where
  "next_current cfg node t interval interfaces irows vrows whole current =
     delete_older fa_node fa_last_seen node t whole
       (write_current node t interval irows vrows
         (map (normalize_interface cfg (pps_sync_map cfg interfaces)) interfaces) current)"

definition evaluated :: "policy \<Rightarrow> string \<Rightarrow> int \<Rightarrow> sync dict \<Rightarrow> abuse_row list \<Rightarrow> fast_row list \<Rightarrow> abuse_row list" where
  "evaluated cfg node t sync prior current =
     map (\<lambda>c. evaluate cfg node t sync (row_of abuse_key (node, fa_vm c) prior) c)
       (filter (\<lambda>c. fa_node c = node \<and> fa_last_seen c = t) current)"

definition next_state :: "policy \<Rightarrow> string \<Rightarrow> int \<Rightarrow> sync dict \<Rightarrow> bool \<Rightarrow> fast_row list \<Rightarrow> abuse_row list \<Rightarrow> abuse_row list" where
  "next_state cfg node t sync whole current prior =
     fold (upsert abuse_key (keep_newer as_last_seen)) (evaluated cfg node t sync prior current)
       (delete_older as_node as_last_seen node t whole prior)"

definition refresh_fast_current_state ::
  "string \<Rightarrow> int \<Rightarrow> int \<Rightarrow> pyval list \<Rightarrow> stage_row list \<Rightarrow> vm_stage list \<Rightarrow> bool \<Rightarrow> abuse_db \<Rightarrow> abuse_db" where
  "refresh_fast_current_state node t interval interfaces irows vrows whole db =
     (let cfg = get_abuse_settings (ad_settings db); prior = ad_state db;
          current = next_current cfg node t interval interfaces irows vrows whole (ad_current db);
          after = next_state cfg node t (pps_sync_map cfg interfaces) whole current prior in
      fold (\<lambda>vm. transition cfg t node vm (row_of abuse_key (node, vm) prior) (row_of abuse_key (node, vm) after))
        (sort (remdups (state_vms node prior @ state_vms node after)))
        (db\<lparr>ad_current := current, ad_state := after\<rparr>))"

section \<open>A change of the policy\<close>

definition reset_row :: "int \<Rightarrow> int \<Rightarrow> abuse_row \<Rightarrow> abuse_row" where
  "reset_row revision changed_at r =
     r\<lparr>as_abuse := False, as_since := None, as_flags := [], as_severity := 0, as_rx_hit := False, as_tx_hit := False,
       as_rx_mbps_hit := False, as_tx_mbps_hit := False, as_streaks := no_streaks,
       as_measures := (as_measures r)\<lparr>ms_over_rx := 0, ms_over_tx := 0, ms_rss_percent := 0, ms_guest_percent := -1, ms_usable_percent := -1\<rparr>,
       as_synced := False, as_reported := 0, as_revision := revision, as_applied_at := changed_at, as_bucket := 0,
       as_engine := ABUSE_ENGINE_VERSION\<rparr>"

definition reset_current_state_for_policy :: "int \<Rightarrow> int \<Rightarrow> abuse_db \<Rightarrow> abuse_db" where
  "reset_current_state_for_policy revision changed_at db =
     db\<lparr>ad_incidents := fold (\<lambda>i rows. close_incident (in_id i) changed_at 0 [] 0 rows) (filter in_open (ad_incidents db)) (ad_incidents db),
        ad_state := map (reset_row revision changed_at) (ad_state db)\<rparr>"

definition save_policy :: "int \<Rightarrow> string dict \<Rightarrow> string \<Rightarrow> string \<Rightarrow> abuse_db \<Rightarrow> abuse_db" where
  "save_policy now values actor action db =
     (let old = (case dget (ad_settings db) ''abuse_policy_revision'' of None \<Rightarrow> 0 | Some r \<Rightarrow> str_safe_int r 0);
          revision = max 1 (old + 1);
          tbl = dset (dset (fold (\<lambda>(k, v) d. dset d k v) values (ad_settings db))
             ''abuse_policy_revision'' (str_of_int revision)) ''abuse_policy_updated_at'' (str_of_int now);
          db1 = reset_current_state_for_policy revision now (db\<lparr>ad_settings := tbl\<rparr>) in
      db1\<lparr>ad_versions := ad_versions db1 @ [\<lparr>pv_revision = revision, pv_changed_at = now, pv_changed_by = str_or actor ''admin'',
        pv_action = str_or action ''save'', pv_policy = get_abuse_settings tbl\<rparr>]\<rparr>)"


section \<open>Incidents\<close>

text \<open>How many incidents of a machine are open, and whether its state row is active.\<close>

definition opens :: "abuse_db \<Rightarrow> string \<Rightarrow> string \<Rightarrow> nat" where
  "opens db node vm = length (filter (open_of node vm) (ad_incidents db))"

definition abusing :: "abuse_row option \<Rightarrow> bool" where
  "abusing old = (case old of None \<Rightarrow> False | Some r \<Rightarrow> as_abuse r)"

text \<open>A closed incident lasted from its beginning to its end; an open one has no end yet.\<close>

definition incident_ok :: "incident \<Rightarrow> bool" where
  "incident_ok i = (0 \<le> in_severity i \<and> 1 \<le> in_count i
     \<and> (if in_open i then in_ended i = None \<and> in_duration i = 0
        else case in_ended i of None \<Rightarrow> False
          | Some e \<Rightarrow> in_duration i = max 0 (e - in_started i) \<and> in_score i = incident_score (in_duration i) (in_severity i)))"

definition ids_ok :: "abuse_db \<Rightarrow> bool" where
  "ids_ok db = (distinct (map in_id (ad_incidents db)) \<and> list_all (\<lambda>i. in_id i < ad_next_id db) (ad_incidents db)
     \<and> list_all incident_ok (ad_incidents db))"

text \<open>An update of the row with an id, in a table with distinct ids.\<close>

lemma map_at_id:
  assumes "distinct (map in_id (xs @ i # ys))"
  shows "map (\<lambda>j. if in_id j = in_id i then f j else j) (xs @ i # ys) = xs @ f i # ys"
proof -
  have "in_id j \<noteq> in_id i" if "j \<in> set xs \<union> set ys" for j using that assms by (force simp: image_iff)
  then show ?thesis by (simp add: map_idI)
qed

lemma filter_at_id:
  assumes "distinct (map in_id rows)" "i \<in> set rows"
  shows "length (filter P (map (\<lambda>j. if in_id j = in_id i then f j else j) rows)) + of_bool (P i)
    = length (filter P rows) + of_bool (P (f i))"
proof -
  obtain xs ys where "rows = xs @ i # ys" using split_list[OF assms(2)] by blast
  then show ?thesis using map_at_id[of xs i ys f] assms(1) by simp
qed

lemma open_row_Some: "open_row node vm rows = Some i \<Longrightarrow> i \<in> set rows \<and> open_of node vm i"
  using select_first_Some[of "\<lambda>i. - in_id i" "open_of node vm" rows i] by (simp add: open_row_def)

lemma open_row_None: "open_row node vm rows = None \<longleftrightarrow> filter (open_of node vm) rows = []"
  by (simp add: open_row_def select_first_None filter_empty_conv)

lemma close_row_simps [simp]:
  "in_id (close_row t s f n i) = in_id i" "in_node (close_row t s f n i) = in_node i"
  "in_vm (close_row t s f n i) = in_vm i" "\<not> in_open (close_row t s f n i)"
  by (simp_all add: close_row_def Let_def)

lemma opens_settings [simp]: "opens (db\<lparr>ad_events := e\<rparr>) = opens db" "opens (db\<lparr>ad_state := s, ad_current := c\<rparr>) = opens db"
  "opens (db\<lparr>ad_current := c, ad_state := s\<rparr>) = opens db"
  by (simp_all add: opens_def fun_eq_iff)

lemma ids_settings [simp]: "ids_ok (db\<lparr>ad_events := e\<rparr>) = ids_ok db" "ids_ok (db\<lparr>ad_current := c, ad_state := s\<rparr>) = ids_ok db"
  by (simp_all add: ids_ok_def)

text \<open>The three updates of the table: add a row, change an open row, close it.\<close>

lemma close_row_ok: "incident_ok i \<Longrightarrow> incident_ok (close_row t s f n i)"
  by (auto simp: incident_ok_def close_row_def Let_def le_max_iff_disj)

lemma incident_ok_id [simp]: "incident_ok (i\<lparr>in_id := k\<rparr>) = incident_ok i"
  by (cases "in_ended i") (simp_all add: incident_ok_def)

lemma add_incident_ok:
  assumes "ids_ok db" "incident_ok i"
  shows "ids_ok (add_incident i db)"
    "opens (add_incident i db) n v = opens db n v + of_bool (in_open i \<and> in_node i = n \<and> in_vm i = v)"
  using assms by (auto simp: ids_ok_def add_incident_def opens_def open_of_def list_all_iff)

lemma update_incident_ok:
  assumes "ids_ok db" "i \<in> set (ad_incidents db)" "in_open i" "\<And>j. in_id (f j) = in_id j"
    and "incident_ok i \<Longrightarrow> incident_ok (f i)"
    and "\<And>j. in_node (f j) = in_node j" "\<And>j. in_vm (f j) = in_vm j"
    and "db' = db\<lparr>ad_incidents := map (\<lambda>j. if in_id j = in_id i then f j else j) (ad_incidents db)\<rparr>"
  shows "ids_ok db'"
    "opens db' n v + of_bool (in_node i = n \<and> in_vm i = v \<and> \<not> in_open (f i)) = opens db n v"
proof -
  define rows where "rows = map (\<lambda>j. if in_id j = in_id i then f j else j) (ad_incidents db)"
  have "j = i" if "j \<in> set (ad_incidents db)" "in_id j = in_id i" for j
    using assms(1,2) that by (auto simp: ids_ok_def distinct_map inj_on_def)
  then have "map in_id rows = map in_id (ad_incidents db)" "list_all (\<lambda>j. in_id j < ad_next_id db) rows" "list_all incident_ok rows"
    using assms(1,4,5) by (auto simp: rows_def ids_ok_def list_all_iff)
  then show "ids_ok db'" using assms(1) unfolding ids_ok_def assms(8) rows_def[symmetric] by simp
  show "opens db' n v + of_bool (in_node i = n \<and> in_vm i = v \<and> \<not> in_open (f i)) = opens db n v"
    using filter_at_id[of "ad_incidents db" i "open_of n v" f] assms(1,2,3)
    by (auto simp: opens_def ids_ok_def open_of_def assms(6-8) split: if_splits)
qed

lemma close_incident_ok:
  assumes "ids_ok db" "open_row node vm (ad_incidents db) = Some i"
    and "db' = db\<lparr>ad_incidents := close_incident (in_id i) t s f n (ad_incidents db)\<rparr>"
  shows "ids_ok db'" "opens db' n' v' + of_bool (n' = node \<and> v' = vm) = opens db n' v'"
  using open_row_Some[OF assms(2)] update_incident_ok(1)[where f = "close_row t s f n", OF assms(1), of i db']
    update_incident_ok(2)[where f = "close_row t s f n", OF assms(1), of i db' n' v'] assms(3)
  by (auto simp: close_incident_def open_of_def close_row_ok)

lemma apply_incident_event_ok:
  assumes ok: "ids_ok db" "opens db node vm \<le> 1" "as_node state = node" "as_vm state = vm" "node \<noteq> []" "vm \<noteq> []"
    and db': "db' = apply_incident_event kind state t flags severity revision db"
  shows "ids_ok db'"
    "opens db' n v = (if n = node \<and> v = vm then (if kind = ''recovered'' then 0 else 1) else opens db n v)"
proof -
  let ?o = "open_row node vm (ad_incidents db)"
  have none: "opens db node vm = 0" if "?o = None" using that by (simp add: opens_def open_row_None)
  have some: "opens db node vm = 1" if "?o = Some i" for i
    using that ok(2) open_row_Some[OF that] filter_empty_conv[of "open_of node vm" "ad_incidents db"]
    by (cases "opens db node vm") (auto simp: opens_def)
  consider (start) "kind = ''started''" | (recover) "kind = ''recovered''" | (other) "kind \<noteq> ''started''" "kind \<noteq> ''recovered''" by blast
  then show "ids_ok db'"
    "opens db' n v = (if n = node \<and> v = vm then (if kind = ''recovered'' then 0 else 1) else opens db n v)"
  proof (atomize (full), cases)
    case start
    show "ids_ok db' \<and> opens db' n v = (if n = node \<and> v = vm then (if kind = ''recovered'' then 0 else 1) else opens db n v)"
    proof (cases ?o)
      case None
      then show ?thesis using start ok none add_incident_ok[OF ok(1)] by (auto simp: db' incident_ok_def apply_incident_event_def Let_def)
    next
      case (Some i)
      let ?c = "db\<lparr>ad_incidents := close_incident (in_id i) t (max 0 severity) (join '','' (flag_union [flags])) 0 (ad_incidents db)\<rparr>"
      note c = close_incident_ok[OF ok(1) Some refl, of t "max 0 severity" "join '','' (flag_union [flags])" 0]
      show ?thesis using start ok some[OF Some] Some add_incident_ok[OF c(1)] c(2)[of n v]
        by (auto simp: db' incident_ok_def apply_incident_event_def Let_def)
    qed
  next
    case recover
    show "ids_ok db' \<and> opens db' n v = (if n = node \<and> v = vm then (if kind = ''recovered'' then 0 else 1) else opens db n v)"
    proof (cases ?o)
      case None
      then show ?thesis using recover ok none add_incident_ok[OF ok(1)] by (simp add: db' incident_ok_def apply_incident_event_def Let_def)
    next
      case (Some i)
      note c = close_incident_ok[OF ok(1) Some refl, of t "max 0 severity" "join '','' (flag_union [flags])" 1]
      show ?thesis using recover ok some[OF Some] Some c(1) c(2)[of n v]
        by (auto simp: db' apply_incident_event_def Let_def)
    qed
  next
    case other
    show "ids_ok db' \<and> opens db' n v = (if n = node \<and> v = vm then (if kind = ''recovered'' then 0 else 1) else opens db n v)"
    proof (cases ?o)
      case None
      then show ?thesis using other ok none add_incident_ok[OF ok(1)] by (auto simp: db' incident_ok_def apply_incident_event_def Let_def)
    next
      case (Some i)
      then have d: "db' = db\<lparr>ad_incidents := map (\<lambda>j. if in_id j = in_id i then
           j\<lparr>in_severity := max (in_severity i) (max 0 severity), in_flags := join '','' (flag_union [in_flags i, join '','' (flag_union [flags])]),
             in_type := primary_type (flag_union [in_flags i, join '','' (flag_union [flags])]),
             in_count := max 1 (in_count i + 1), in_last := t, in_revision := revision, in_engine := ABUSE_ENGINE_VERSION\<rparr> else j)
           (ad_incidents db)\<rparr>"
        using other ok by (simp add: db' apply_incident_event_def Let_def)
      have i: "i \<in> set (ad_incidents db)" "in_open i" using open_row_Some[OF Some] by (simp_all add: open_of_def)
      note u = update_incident_ok[OF ok(1) i _ _ _ _ d]
      show ?thesis using other some[OF Some] u(1) u(2)[of n v] i(2) by (auto simp: incident_ok_def)
    qed
  qed
qed


section \<open>One step per key\<close>

text \<open>
  A loop over distinct keys whose step for a key needs that the key is ready, reaches a goal for
  it, leaves what is seen of the other keys and keeps them ready.
\<close>

locale keyed_steps =
  fixes step :: "'k \<Rightarrow> 'd \<Rightarrow> 'd" and ready :: "'k \<Rightarrow> 'd \<Rightarrow> bool" and good :: "'d \<Rightarrow> bool"
    and seen :: "'k \<Rightarrow> 'd \<Rightarrow> 'v" and goal :: "'k \<Rightarrow> 'v"
  assumes step_good: "good d \<Longrightarrow> ready k d \<Longrightarrow> good (step k d)"
    and step_goal: "good d \<Longrightarrow> ready k d \<Longrightarrow> seen k (step k d) = goal k"
    and step_other: "good d \<Longrightarrow> ready k d \<Longrightarrow> j \<noteq> k \<Longrightarrow> seen j (step k d) = seen j d"
    and step_ready: "good d \<Longrightarrow> ready k d \<Longrightarrow> ready j d \<Longrightarrow> j \<noteq> k \<Longrightarrow> ready j (step k d)"
begin

lemma fold_steps:
  assumes "good d" "distinct ks" "\<And>k. k \<in> set ks \<Longrightarrow> ready k d"
  shows "good (fold step ks d) \<and> (\<forall>j. seen j (fold step ks d) = (if j \<in> set ks then goal j else seen j d))"
  using assms
proof (induction ks arbitrary: d)
  case (Cons k ks)
  have k: "ready k d" "k \<notin> set ks" using Cons.prems by auto
  have "ready j (step k d)" if "j \<in> set ks" for j
    using that k Cons.prems by (intro step_ready) auto
  then have "good (fold step ks (step k d)) \<and> (\<forall>j. seen j (fold step ks (step k d)) = (if j \<in> set ks then goal j else seen j (step k d)))"
    using Cons.IH[of "step k d"] Cons.prems k step_good by simp
  then show ?case using k Cons.prems(1) step_goal[OF Cons.prems(1) k(1)] step_other[OF Cons.prems(1) k(1)] by auto
qed simp

end

section \<open>The events of a push\<close>

text \<open>All rows of the state follow the policy in force, as the reset of a policy change leaves them.\<close>

definition rows_current :: "policy \<Rightarrow> abuse_row list \<Rightarrow> bool" where
  "rows_current cfg rows = (distinct (map abuse_key rows)
     \<and> list_all (\<lambda>r. as_revision r = po_revision cfg \<and> as_engine r = ABUSE_ENGINE_VERSION \<and> as_vm r \<noteq> []) rows)"

lemma rows_currentD:
  "rows_current cfg rows \<Longrightarrow> row_of abuse_key k rows = Some r \<Longrightarrow>
     policy_same cfg (Some r) \<and> as_node r = fst k \<and> as_vm r = snd k \<and> snd k \<noteq> []"
  using row_of_key[of abuse_key k rows r]
  by (auto simp: rows_current_def list_all_iff policy_same_def abuse_key_def)

lemma is_active_current: "rows_current cfg rows \<Longrightarrow> is_active cfg (row_of abuse_key k rows) = abusing (row_of abuse_key k rows)"
  using rows_currentD[of cfg rows k] by (cases "row_of abuse_key k rows") (auto simp: is_active_def abusing_def)

lemma insert_abuse_event_ok:
  assumes "ids_ok db" "opens db node vm \<le> 1" "as_node state = node" "as_vm state = vm" "node \<noteq> []" "vm \<noteq> []"
    and fresh: "\<forall>e \<in> set (ad_events db). \<not> (ev_node e = node \<and> ev_vm e = vm \<and> ev_time e = t)"
    and db': "db' = insert_abuse_event kind state t flags severity db"
  shows "ids_ok db'"
    "opens db' n v = (if n = node \<and> v = vm then (if kind = ''recovered'' then 0 else 1) else opens db n v)"
    "e \<in> set (ad_events db') \<Longrightarrow> e \<in> set (ad_events db) \<or> ev_node e = node \<and> ev_vm e = vm \<and> ev_time e = t"
    "ad_state db' = ad_state db" "ad_settings db' = ad_settings db" "ad_current db' = ad_current db"
proof -
  let ?e = "\<lparr>ev_time = t, ev_type = kind, ev_node = as_node state, ev_vm = as_vm state, ev_flags = flags, ev_severity = severity,
         ev_measures = as_measures state, ev_streaks = as_streaks state, ev_revision = as_revision state, ev_engine = ABUSE_ENGINE_VERSION\<rparr>"
  have "row_of event_key (event_key ?e) (ad_events db) = None"
    using fresh assms(3,4) by (auto simp: row_of_None_iff event_key_def)
  then have d: "db' = apply_incident_event kind state t flags severity (as_revision state) (db\<lparr>ad_events := ad_events db @ [?e]\<rparr>)"
    by (simp add: db' insert_abuse_event_def Let_def insert_or_ignore_def)
  have s: "ids_ok (db\<lparr>ad_events := ad_events db @ [?e]\<rparr>)" "opens (db\<lparr>ad_events := ad_events db @ [?e]\<rparr>) node vm \<le> 1"
    using assms(1,2) by simp_all
  note a = apply_incident_event_ok[OF s assms(3-6) d]
  show "ids_ok db'" by (rule a(1))
  show "opens db' n v = (if n = node \<and> v = vm then (if kind = ''recovered'' then 0 else 1) else opens db n v)"
    using a(2)[of n v] by simp
  have f: "ad_events (apply_incident_event k st t' fl sv rv x) = ad_events x"
    "ad_state (apply_incident_event k st t' fl sv rv x) = ad_state x" "ad_settings (apply_incident_event k st t' fl sv rv x) = ad_settings x"
    "ad_current (apply_incident_event k st t' fl sv rv x) = ad_current x" for k st t' fl sv rv x
    by (simp_all add: apply_incident_event_def Let_def add_incident_def split: option.split)
  show "e \<in> set (ad_events db') \<Longrightarrow> e \<in> set (ad_events db) \<or> ev_node e = node \<and> ev_vm e = vm \<and> ev_time e = t"
    using assms(3,4) by (auto simp: d f)
  show "ad_state db' = ad_state db" "ad_settings db' = ad_settings db" "ad_current db' = ad_current db" by (simp_all add: d f)
qed

text \<open>The transition of one machine between the rows before and after.\<close>

definition event_ready :: "policy \<Rightarrow> int \<Rightarrow> string \<Rightarrow> abuse_row list \<Rightarrow> abuse_row list \<Rightarrow> string \<Rightarrow> abuse_db \<Rightarrow> bool" where
  "event_ready cfg t node prior after vm db \<longleftrightarrow> node \<noteq> [] \<and> rows_current cfg prior \<and> rows_current cfg after
     \<and> opens db node vm = of_bool (abusing (row_of abuse_key (node, vm) prior))
     \<and> (\<forall>e \<in> set (ad_events db). \<not> (ev_node e = node \<and> ev_vm e = vm \<and> ev_time e = t))"

lemma transition_ok:
  assumes ids: "ids_ok db" and rdy: "event_ready cfg t node prior after vm db"
    and db': "db' = transition cfg t node vm (row_of abuse_key (node, vm) prior) (row_of abuse_key (node, vm) after) db"
  shows "ids_ok db' \<and> opens db' n v = (if n = node \<and> v = vm then of_bool (abusing (row_of abuse_key (node, vm) after)) else opens db n v)
    \<and> (\<forall>e \<in> set (ad_events db'). e \<in> set (ad_events db) \<or> ev_node e = node \<and> ev_vm e = vm \<and> ev_time e = t)
    \<and> ad_state db' = ad_state db \<and> ad_settings db' = ad_settings db \<and> ad_current db' = ad_current db"
proof -
  let ?old = "row_of abuse_key (node, vm) prior" and ?new = "row_of abuse_key (node, vm) after"
  have r: "rows_current cfg prior" "rows_current cfg after" "node \<noteq> []" "opens db node vm = of_bool (abusing ?old)" "opens db node vm \<le> 1"
    "\<forall>e \<in> set (ad_events db). \<not> (ev_node e = node \<and> ev_vm e = vm \<and> ev_time e = t)"
    using rdy by (simp_all add: event_ready_def)
  note act = is_active_current[OF r(1), of "(node, vm)"]
  note new = rows_currentD[OF r(2), of "(node, vm)", simplified] and old = rows_currentD[OF r(1), of "(node, vm)", simplified]
  have quiet: ?thesis if "db' = db" "abusing ?new = abusing ?old" using that ids r(4) by auto
  have put: ?thesis if "db' = insert_abuse_event kind st t fl sv db" "as_node st = node" "as_vm st = vm" "vm \<noteq> []"
    "abusing ?new \<longleftrightarrow> kind \<noteq> ''recovered''" for kind st fl sv
    using insert_abuse_event_ok[OF ids r(5) that(2,3) r(3) that(4) r(6) that(1)] that(5) by auto
  show ?thesis
  proof (cases ?new)
    case None
    show ?thesis
    proof (cases ?old)
      case None
      then show ?thesis using \<open>?new = None\<close> by (intro quiet) (simp_all add: db' transition_def is_active_def Let_def)
    next
      case (Some o')
      show ?thesis
      proof (cases "as_abuse o'")
        case True
        then have "is_active cfg ?old" using act Some by (simp add: abusing_def)
        then have "db' = insert_abuse_event ''recovered''
            (o'\<lparr>as_node := node, as_vm := vm, as_since := Some (case as_since o' of None \<Rightarrow> t | Some s \<Rightarrow> s)\<rparr>)
            t (canonical_text ?old) (as_severity o') db"
          using Some \<open>?new = None\<close> by (simp add: db' transition_def Let_def)
        then show ?thesis by (rule put) (use \<open>?new = None\<close> old[OF Some] in \<open>simp_all add: abusing_def\<close>)
      next
        case False
        then have "\<not> is_active cfg ?old" using act Some by (simp add: abusing_def)
        then show ?thesis using Some False \<open>?new = None\<close>
          by (intro quiet) (simp_all add: db' transition_def Let_def abusing_def)
      qed
    qed
  next
    case (Some n')
    note n' = new[OF Some]
    show ?thesis
    proof (cases "as_abuse n'")
      case True
      note flags = True
      show ?thesis
      proof (cases "is_active cfg ?old \<and> canonical_text ?new = canonical_text ?old")
        case True
        then show ?thesis using Some flags act
          by (intro quiet) (simp_all add: db' transition_def Let_def abusing_def)
      next
        case False
        then have "db' = insert_abuse_event (if is_active cfg ?old then ''updated'' else ''started'') n' t (as_flags n') (as_severity n') db"
          using Some flags by (auto simp: db' transition_def Let_def)
        then show ?thesis using Some flags n' by (intro put) (auto simp: abusing_def split: if_splits)
      qed
    next
      case False
      show ?thesis
      proof (cases "abusing ?old")
        case True
        then obtain o' where "?old = Some o'" by (cases ?old) (auto simp: abusing_def)
        then have "db' = insert_abuse_event ''recovered''
            (n'\<lparr>as_node := node, as_vm := vm, as_since := Some (case as_since o' of None \<Rightarrow> t | Some s \<Rightarrow> s)\<rparr>)
            t (canonical_text ?old) (as_severity o') db"
          using Some False True act by (simp add: db' transition_def Let_def)
        then show ?thesis by (rule put) (use Some False n' in \<open>simp_all add: abusing_def\<close>)
      next
        case old_idle: False
        then show ?thesis using Some False act
          by (intro quiet) (simp_all add: db' transition_def Let_def abusing_def)
      qed
    qed
  qed
qed

interpretation tr: keyed_steps
  "\<lambda>vm. transition cfg t node vm (row_of abuse_key (node, vm) prior) (row_of abuse_key (node, vm) after)"
  "event_ready cfg t node prior after" ids_ok "\<lambda>vm db. opens db node vm"
  "\<lambda>vm. of_bool (abusing (row_of abuse_key (node, vm) after))"
  for cfg t node prior after
proof (unfold_locales, goal_cases)
  case (1 d k) then show ?case using transition_ok[OF 1 refl] by blast
next
  case (2 d k) then show ?case using transition_ok[OF 2 refl, of node k] by simp
next
  case (3 d k j) then show ?case using transition_ok[OF 3(1,2) refl, of node j] by simp
next
  case (4 d k j)
  note t = transition_ok[OF 4(1,2) refl, of node j]
  show ?case unfolding event_ready_def
  proof (intro conjI)
    show "\<forall>e \<in> set (ad_events (transition cfg t node k (row_of abuse_key (node, k) prior) (row_of abuse_key (node, k) after) d)).
        \<not> (ev_node e = node \<and> ev_vm e = j \<and> ev_time e = t)"
      using t 4(3,4) unfolding event_ready_def by blast
  qed (use t 4(3,4) in \<open>simp_all add: event_ready_def\<close>)
qed


section \<open>The rows after a push\<close>

definition current_ok :: "fast_row list \<Rightarrow> bool" where
  "current_ok rows = (distinct (map fast_key rows) \<and> list_all (\<lambda>c. fa_vm c \<noteq> []) rows)"

lemma keeps_newer [simp]: "keeps_key key (keep_newer last_seen)"
  by (simp add: keeps_key_def keep_newer_def)

lemma fold_upsert_all:
  assumes "list_all P rows" "list_all P news" "\<And>r n. P r \<Longrightarrow> P n \<Longrightarrow> P (merge r n)"
  shows "list_all P (fold (upsert key merge) news rows)"
  using assms(1,2)
proof (induction news arbitrary: rows)
  case (Cons n ns)
  have "list_all P (upsert key merge n rows)"
    using Cons.prems assms(3) by (induction rows) auto
  then show ?case using Cons by simp
qed simp

lemma map_filter_all: "(\<And>x y. f x = Some y \<Longrightarrow> P y) \<Longrightarrow> list_all P (List.map_filter f xs)"
  by (auto simp: list_all_iff List.map_filter_def)

lemma vm_rows_named: "list_all (\<lambda>r. vs_vm r \<noteq> []) (vm_rows node t bucket interval items)"
  unfolding vm_rows_def
  by (rule map_filter_all) (auto simp: vm_stage_of_def Let_def case_prod_beta split: pyval.splits if_splits)

lemma stage_row_for_keys: "sr_vm (stage_row_for sg node t bucket interval i vm d) = vm"
  "sr_last_push (stage_row_for sg node t bucket interval i vm d) = t"
  by (simp_all only: stage_row_for_def Let_def case_prod_beta stage_row.select_convs)

lemma iface_rows_named: "list_all (\<lambda>r. sr_vm r \<noteq> [] \<and> sr_last_push r = t) (iface_rows sg node t bucket interval items)"
  unfolding iface_rows_def
  by (rule map_filter_all) (auto simp: stage_row_of_def stage_row_for_keys Let_def case_prod_beta split: pyval.splits if_splits)

lemma fast_row_for_key [simp]: "fa_node (fast_row_for node t interval irows vrows timers vm) = node"
  "fa_vm (fast_row_for node t interval irows vrows timers vm) = vm"
  by (simp_all only: fast_row_for_def Let_def case_prod_beta fast_row.select_convs)

lemma write_current_ok:
  assumes "current_ok rows" "list_all (\<lambda>r. sr_vm r \<noteq> []) irows" "list_all (\<lambda>r. vs_vm r \<noteq> []) vrows"
  shows "current_ok (write_current node t interval irows vrows interfaces rows)"
  unfolding current_ok_def write_current_def
proof (intro conjI)
  show "distinct (map fast_key (fold (upsert fast_key (keep_newer fa_last_seen))
      (map (fast_row_for node t (max 1 interval) irows vrows (sync_rows interfaces)) (staged_vms irows vrows)) rows))"
    using assms(1) by (intro distinct_fold_upsert) (simp_all add: current_ok_def)
  show "list_all (\<lambda>c. fa_vm c \<noteq> []) (fold (upsert fast_key (keep_newer fa_last_seen))
      (map (fast_row_for node t (max 1 interval) irows vrows (sync_rows interfaces)) (staged_vms irows vrows)) rows)"
  proof (rule fold_upsert_all)
    show "list_all (\<lambda>c. fa_vm c \<noteq> []) (map (fast_row_for node t (max 1 interval) irows vrows (sync_rows interfaces)) (staged_vms irows vrows))"
      using assms(2,3) by (auto simp: list_all_iff staged_vms_def)
  qed (use assms(1) in \<open>auto simp: current_ok_def keep_newer_def\<close>)
qed

lemma distinct_delete_older: "distinct (map key rows) \<Longrightarrow> distinct (map key (delete_older n l node t whole rows))"
  by (simp add: delete_older_def distinct_map_filter)

lemma delete_older_all: "list_all P rows \<Longrightarrow> list_all P (delete_older n l node t whole rows)"
  by (auto simp: delete_older_def list_all_iff)

lemma next_current_ok:
  assumes "current_ok rows" "list_all (\<lambda>r. sr_vm r \<noteq> []) irows" "list_all (\<lambda>r. vs_vm r \<noteq> []) vrows"
  shows "current_ok (next_current cfg node t interval interfaces irows vrows whole rows)"
  using write_current_ok[OF assms] distinct_delete_older delete_older_all
  unfolding current_ok_def next_current_def by blast

lemma evaluate_key [simp]: "as_node (evaluate cfg node t sync old c) = node" "as_vm (evaluate cfg node t sync old c) = fa_vm c"
  "as_last_seen (evaluate cfg node t sync old c) = fa_last_seen c" "as_revision (evaluate cfg node t sync old c) = po_revision cfg"
  "as_engine (evaluate cfg node t sync old c) = ABUSE_ENGINE_VERSION" "as_bucket (evaluate cfg node t sync old c) = bucket_for t"
  "as_streaks (evaluate cfg node t sync old c) = next_streaks cfg (bucket_for t) old c"
  by (simp_all add: evaluate_def Let_def)

lemma evaluated_keys:
  assumes "current_ok current"
  shows "distinct (map abuse_key (evaluated cfg node t sync prior current))"
proof -
  have "map abuse_key (evaluated cfg node t sync prior current) = map fast_key (filter (\<lambda>c. fa_node c = node \<and> fa_last_seen c = t) current)"
    by (simp add: evaluated_def abuse_key_def fast_key_def)
  then show ?thesis using assms by (simp add: current_ok_def distinct_map_filter)
qed

lemma next_state_ok:
  assumes "current_ok current" "rows_current cfg prior"
  shows "rows_current cfg (next_state cfg node t sync whole current prior)"
proof -
  let ?P = "\<lambda>r. as_revision r = po_revision cfg \<and> as_engine r = ABUSE_ENGINE_VERSION \<and> as_vm r \<noteq> []"
  have "list_all ?P (evaluated cfg node t sync prior current)"
    using assms(1) by (auto simp: evaluated_def list_all_iff current_ok_def)
  then have "list_all ?P (next_state cfg node t sync whole current prior)"
    using assms(2) unfolding next_state_def rows_current_def
    by (intro fold_upsert_all delete_older_all) (auto simp: keep_newer_def)
  moreover have "distinct (map abuse_key (next_state cfg node t sync whole current prior))"
    using assms(2) unfolding next_state_def rows_current_def
    by (intro distinct_fold_upsert distinct_delete_older) simp_all
  ultimately show ?thesis by (simp add: rows_current_def)
qed

text \<open>What the state holds for a machine after the push.\<close>

lemma row_of_filter:
  assumes "distinct (map key rows)"
  shows "row_of key k (filter P rows) = (case row_of key k rows of None \<Rightarrow> None | Some r \<Rightarrow> if P r then Some r else None)"
  using assms
proof (induction rows)
  case (Cons r rs)
  then have "key r \<notin> key ` set (filter P rs)" by auto
  then have "row_of key (key r) (filter P rs) = None" by (simp add: row_of_None_iff)
  then show ?case using Cons by (auto split: option.split)
qed simp

lemma row_of_older:
  assumes "rows_current cfg prior"
  shows "row_of abuse_key k (delete_older as_node as_last_seen node t whole prior)
    = (case row_of abuse_key k prior of None \<Rightarrow> None
       | Some r \<Rightarrow> if whole \<and> fst k = node \<and> as_last_seen r < t then None else Some r)"
  using assms row_of_filter[of abuse_key prior k] rows_currentD[OF assms, of k]
  by (auto simp: delete_older_def rows_current_def split: option.split)

lemma row_of_evaluated:
  assumes "current_ok current"
  shows "row_of abuse_key (node, vm) (evaluated cfg node t sync prior current)
    = (case row_of fast_key (node, vm) current of None \<Rightarrow> None
       | Some c \<Rightarrow> if fa_last_seen c = t then Some (evaluate cfg node t sync (row_of abuse_key (node, vm) prior) c) else None)"
proof -
  have "row_of abuse_key (node, vm) (map (\<lambda>c. evaluate cfg node t sync (row_of abuse_key (node, fa_vm c) prior) c) cs)
    = map_option (\<lambda>c. evaluate cfg node t sync (row_of abuse_key (node, vm) prior) c) (row_of fast_key (node, vm) cs)"
    if "list_all (\<lambda>c. fa_node c = node) cs" for cs
    using that by (induction cs) (auto simp: abuse_key_def fast_key_def)
  moreover have "list_all (\<lambda>c. fa_node c = node) (filter (\<lambda>c. fa_node c = node \<and> fa_last_seen c = t) current)"
    by (auto simp: list_all_iff)
  moreover have "row_of fast_key (node, vm) (filter (\<lambda>c. fa_node c = node \<and> fa_last_seen c = t) current)
    = (case row_of fast_key (node, vm) current of None \<Rightarrow> None | Some c \<Rightarrow> if fa_last_seen c = t then Some c else None)"
    using assms row_of_filter[of fast_key current "(node, vm)"] row_of_key[of fast_key "(node, vm)" current]
    by (auto simp: current_ok_def fast_key_def split: option.splits)
  ultimately show ?thesis by (auto simp: evaluated_def split: option.split)
qed

lemma row_of_next_state:
  assumes "current_ok current" "rows_current cfg prior"
  shows "row_of abuse_key (node, vm) (next_state cfg node t sync whole current prior)
    = (let kept = row_of abuse_key (node, vm) (delete_older as_node as_last_seen node t whole prior) in
       case row_of fast_key (node, vm) current of None \<Rightarrow> kept
       | Some c \<Rightarrow> if fa_last_seen c = t
           then Some (let new = evaluate cfg node t sync (row_of abuse_key (node, vm) prior) c in
             case kept of None \<Rightarrow> new | Some r \<Rightarrow> keep_newer as_last_seen r new)
           else kept)"
  unfolding next_state_def row_of_fold_upsert[OF keeps_newer evaluated_keys[OF assms(1)]] row_of_evaluated[OF assms(1)]
  by (auto simp: Let_def split: option.split)

lemma next_state_other:
  assumes "rows_current cfg prior" "current_ok current" "n \<noteq> node"
  shows "row_of abuse_key (n, v) (next_state cfg node t sync whole current prior) = row_of abuse_key (n, v) prior"
proof -
  have "row_of abuse_key (n, v) (evaluated cfg node t sync prior current) = None"
    using assms(3) by (auto simp: row_of_None_iff evaluated_def abuse_key_def)
  then show ?thesis
    unfolding next_state_def row_of_fold_upsert[OF keeps_newer evaluated_keys[OF assms(2)]]
    using row_of_older[OF assms(1), of "(n, v)"] assms(3) by (auto split: option.split)
qed


section \<open>The invariant\<close>

definition engine_ok :: "abuse_db \<Rightarrow> bool" where
  "engine_ok db \<longleftrightarrow> ids_ok db \<and> rows_current (get_abuse_settings (ad_settings db)) (ad_state db) \<and> current_ok (ad_current db)
     \<and> (\<forall>node vm. opens db node vm = of_bool (abusing (row_of abuse_key (node, vm) (ad_state db))))"

lemma state_vms_mem: "vm \<in> set (state_vms node rows) \<longleftrightarrow> row_of abuse_key (node, vm) rows \<noteq> None"
  by (auto simp: state_vms_def row_of_None_iff abuse_key_def image_iff)

lemma transitions_frame:
  "ids_ok db \<Longrightarrow> distinct vms \<Longrightarrow> (\<And>vm. vm \<in> set vms \<Longrightarrow> event_ready cfg t node prior after vm db) \<Longrightarrow>
   db' = fold (\<lambda>vm. transition cfg t node vm (row_of abuse_key (node, vm) prior) (row_of abuse_key (node, vm) after)) vms db \<Longrightarrow>
   (\<forall>n v. n \<noteq> node \<longrightarrow> opens db' n v = opens db n v)
   \<and> (\<forall>e \<in> set (ad_events db'). e \<in> set (ad_events db) \<or> ev_node e = node \<and> ev_time e = t)
   \<and> ad_state db' = ad_state db \<and> ad_settings db' = ad_settings db \<and> ad_current db' = ad_current db"
proof (induction vms arbitrary: db)
  case (Cons vm vms)
  let ?d = "transition cfg t node vm (row_of abuse_key (node, vm) prior) (row_of abuse_key (node, vm) after) db"
  note r = Cons.prems(3)[of vm, simplified]
  have rdy: "event_ready cfg t node prior after v ?d" if "v \<in> set vms" for v
    using that Cons.prems by (intro tr.step_ready) auto
  have "ids_ok ?d" using Cons.prems(1) r by (intro tr.step_good)
  then show ?case using Cons.IH[of ?d] Cons.prems(2,4) rdy transition_ok[OF Cons.prems(1) r refl] by fastforce
qed simp

lemma refresh_ok:
  assumes ok: "engine_ok db" and named: "node \<noteq> []" "list_all (\<lambda>r. sr_vm r \<noteq> []) irows" "list_all (\<lambda>r. vs_vm r \<noteq> []) vrows"
    and fresh: "\<forall>e \<in> set (ad_events db). \<not> (ev_node e = node \<and> ev_time e = t)"
    and db': "db' = refresh_fast_current_state node t interval interfaces irows vrows whole db"
    and cfg: "cfg = get_abuse_settings (ad_settings db)"
  shows "engine_ok db'" "ad_settings db' = ad_settings db"
    "ad_current db' = next_current cfg node t interval interfaces irows vrows whole (ad_current db)"
    "ad_state db' = next_state cfg node t (pps_sync_map cfg interfaces) whole (ad_current db') (ad_state db)"
    "\<forall>e \<in> set (ad_events db'). e \<in> set (ad_events db) \<or> ev_node e = node \<and> ev_time e = t"
proof -
  define current where "current = next_current cfg node t interval interfaces irows vrows whole (ad_current db)"
  define prior where "prior = ad_state db"
  define after where "after = next_state cfg node t (pps_sync_map cfg interfaces) whole current prior"
  define db1 where "db1 = db\<lparr>ad_current := current, ad_state := after\<rparr>"
  define vms where "vms = sort (remdups (state_vms node prior @ state_vms node after))"
  have d: "db' = fold (\<lambda>vm. transition cfg t node vm (row_of abuse_key (node, vm) prior) (row_of abuse_key (node, vm) after)) vms db1"
    by (simp add: db' refresh_fast_current_state_def Let_def cfg current_def prior_def after_def db1_def vms_def)
  have k: "ids_ok db" "rows_current cfg prior" "current_ok (ad_current db)"
    "\<And>n v. opens db n v = of_bool (abusing (row_of abuse_key (n, v) prior))"
    using ok by (simp_all add: engine_ok_def cfg prior_def)
  have cur: "current_ok current" unfolding current_def by (rule next_current_ok[OF k(3) named(2,3)])
  have aft: "rows_current cfg after" unfolding after_def by (rule next_state_ok[OF cur k(2)])
  have ids1: "ids_ok db1" and op1: "\<And>n v. opens db1 n v = opens db n v" and f1: "ad_state db1 = after" "ad_current db1 = current"
    "ad_settings db1 = ad_settings db" "ad_events db1 = ad_events db"
    using k(1) by (simp_all add: db1_def)
  have rdy: "event_ready cfg t node prior after vm db1" for vm
    using k(2) aft named(1) fresh by (auto simp: event_ready_def op1 k(4) f1)
  have dist: "distinct vms" by (simp add: vms_def)
  note frame = transitions_frame[OF ids1 dist rdy d]
  note steps = tr.fold_steps[where cfg = cfg and t = t and node = node and prior = prior and after = after, OF ids1 dist rdy, folded d]
  have ops: "opens db' n v = of_bool (abusing (row_of abuse_key (n, v) after))" for n v
  proof (cases "n = node")
    case True
    show ?thesis
    proof (cases "v \<in> set vms")
      case False
      then have "row_of abuse_key (node, v) prior = None" "row_of abuse_key (node, v) after = None"
        using state_vms_mem[of v node] by (auto simp: vms_def)
      then show ?thesis using steps False True by (simp add: op1 k(4))
    qed (use steps True in simp)
  next
    case False
    then have "row_of abuse_key (n, v) after = row_of abuse_key (n, v) prior"
      unfolding after_def by (rule next_state_other[OF k(2) cur])
    then show ?thesis using frame False by (simp add: op1 k(4))
  qed
  show "engine_ok db'" using steps frame ops aft cur by (simp add: engine_ok_def f1 cfg)
  show "ad_settings db' = ad_settings db" using frame by (simp add: f1)
  show c: "ad_current db' = next_current cfg node t interval interfaces irows vrows whole (ad_current db)"
    using frame by (simp add: f1 current_def)
  show "ad_state db' = next_state cfg node t (pps_sync_map cfg interfaces) whole (ad_current db') (ad_state db)"
    using frame by (simp add: f1 after_def c current_def[symmetric] prior_def)
  show "\<forall>e \<in> set (ad_events db'). e \<in> set (ad_events db) \<or> ev_node e = node \<and> ev_time e = t"
    using frame by (simp add: f1)
qed

section \<open>The reset of a policy change\<close>

lemma close_all:
  "fold (\<lambda>i rows. close_incident (in_id i) t s f n rows) is rows
     = map (\<lambda>j. fold (\<lambda>i j. if in_id j = in_id i then close_row t s f n j else j) is j) rows"
  by (induction "is" arbitrary: rows) (simp_all add: close_incident_def o_def)

lemma close_all_row:
  "in_id (fold (\<lambda>i j. if in_id j = in_id i then close_row t s f n j else j) is j) = in_id j
   \<and> (in_open (fold (\<lambda>i j. if in_id j = in_id i then close_row t s f n j else j) is j) \<longrightarrow> in_open j \<and> in_id j \<notin> in_id ` set is)"
proof (induction "is" arbitrary: j)
  case (Cons i "is")
  show ?case using Cons[of "close_row t s f n j"] Cons[of j] by (auto simp del: fold_simps simp: fold_Cons)
qed simp

lemma close_all_ok:
  "incident_ok j \<Longrightarrow> incident_ok (fold (\<lambda>i j. if in_id j = in_id i then close_row t s f n j else j) is j)"
  by (induction "is" arbitrary: j) (simp_all add: close_row_ok)

lemma revision_after_save:
  assumes "db' = save_policy now values actor action db"
  shows "po_revision (get_abuse_settings (ad_settings db')) = max 1 ((case dget (ad_settings db) ''abuse_policy_revision'' of
      None \<Rightarrow> 0 | Some r \<Rightarrow> str_safe_int r 0) + 1)"
proof -
  have "str_safe_int (str_of_int i) d = i" for i d by (simp add: str_safe_int_def safe_int_def int_of_str_of_int)
  then show ?thesis unfolding assms
    by (simp add: save_policy_def reset_current_state_for_policy_def get_abuse_settings_def Let_def)
qed

lemma save_policy_ok:
  assumes ok: "engine_ok db" and db': "db' = save_policy now values actor action db"
  shows "engine_ok db'" "\<And>n v. opens db' n v = 0" "ad_events db' = ad_events db"
    "list_all (\<lambda>r. \<not> as_abuse r \<and> as_streaks r = no_streaks \<and> as_bucket r = 0) (ad_state db')"
    "list_all (\<lambda>i. \<not> in_open i) (ad_incidents db')"
proof -
  define revision where "revision = max 1 ((case dget (ad_settings db) ''abuse_policy_revision'' of None \<Rightarrow> 0 | Some r \<Rightarrow> str_safe_int r 0) + 1)"
  define close where "close = (\<lambda>j. fold (\<lambda>i j. if in_id j = in_id i then close_row now 0 [] 0 j else j) (filter in_open (ad_incidents db)) j)"
  have st: "ad_state db' = map (reset_row revision now) (ad_state db)" "ad_incidents db' = map close (ad_incidents db)"
    "ad_events db' = ad_events db" "ad_current db' = ad_current db" "ad_next_id db' = ad_next_id db"
    by (simp_all add: db' save_policy_def reset_current_state_for_policy_def Let_def revision_def close_def close_all)
  have c: "in_id (close j) = in_id j" "j \<in> set (ad_incidents db) \<Longrightarrow> \<not> in_open (close j)"
    "incident_ok j \<Longrightarrow> incident_ok (close j)" for j
    using close_all_row[of now 0 "[]" 0 "filter in_open (ad_incidents db)" j]
      close_all_ok[of j now 0 "[]" 0 "filter in_open (ad_incidents db)"] by (auto simp: close_def)
  have keys: "map abuse_key (ad_state db') = map abuse_key (ad_state db)"
    by (simp add: st abuse_key_def reset_row_def)
  show inc: "list_all (\<lambda>i. \<not> in_open i) (ad_incidents db')" using c(2) by (simp add: st list_all_iff)
  then show op: "opens db' n v = 0" for n v by (auto simp: opens_def open_of_def list_all_iff filter_empty_conv)
  show rows: "list_all (\<lambda>r. \<not> as_abuse r \<and> as_streaks r = no_streaks \<and> as_bucket r = 0) (ad_state db')"
    by (auto simp: st list_all_iff reset_row_def)
  have idle: "\<not> abusing (row_of abuse_key k (ad_state db'))" for k
    using rows row_of_key[of abuse_key k "ad_state db'"] by (auto simp: abusing_def list_all_iff split: option.split)
  have "ids_ok db'" using ok c(1,3) by (auto simp: engine_ok_def ids_ok_def st list_all_iff o_def)
  moreover have "rows_current (get_abuse_settings (ad_settings db')) (ad_state db')"
    using ok keys revision_after_save[OF db']
    by (auto simp: engine_ok_def rows_current_def list_all_iff revision_def[symmetric]) (auto simp: st reset_row_def)
  ultimately show "engine_ok db'" using ok op idle by (simp add: engine_ok_def st)
  show "ad_events db' = ad_events db" by (rule st(3))
qed

end
