(* ===== verification/Abuse_System.thy ===== *)
theory Abuse_System
  imports Abuse_Engine
begin

text \<open>
  The monitor with the abuse engine: an accepted push writes the consumption tables and, when it
  carries the list of the machines, refreshes the abuse state in the same transaction
  (app/runtime_layers/10_ingest_push.py); the settings page saves a policy. The relation
  \<open>reached\<close> has the histories of pushes and policy changes from a fresh installation. The theorems say
  that a machine has one open incident exactly while its state row is active, that a new policy
  starts over, that a late payload leaves newer rows alone and how many cycles a sustained rule needs.
\<close>

section \<open>Pushes and policies\<close>

text \<open>The settings as \<open>_v4810_migrate_schema\<close> leaves them; \<open>legacy\<close> is the largest \<open>updated_at\<close> of the older keys.\<close>

definition migrate_settings :: "int \<Rightarrow> int \<Rightarrow> string dict \<Rightarrow> string dict" where
  "migrate_settings now legacy tbl =
     (let tbl1 = (case dget tbl ''abuse_policy_revision'' of
          None \<Rightarrow> dset tbl ''abuse_policy_revision'' (str_of_int (max 1 legacy)) | Some _ \<Rightarrow> tbl) in
      case dget tbl1 ''abuse_policy_updated_at'' of
        None \<Rightarrow> dset tbl1 ''abuse_policy_updated_at'' (str_of_int now) | Some _ \<Rightarrow> tbl1)"

definition empty_abuse :: "string dict \<Rightarrow> abuse_db" where
  "empty_abuse tbl = \<lparr>ad_settings = tbl, ad_current = [], ad_state = [], ad_events = [], ad_incidents = [],
     ad_next_id = 1, ad_versions = []\<rparr>"

text \<open>The part of an accepted push that follows the consumption tables.\<close>

definition abuse_push :: "settings \<Rightarrow> string \<Rightarrow> int \<Rightarrow> pyval dict \<Rightarrow> pyval list \<Rightarrow> abuse_db \<Rightarrow> abuse_db" where
  "abuse_push sg node t data interfaces db =
     (case get_none data ''vms'' of
        PList vms \<Rightarrow>
          (let interval = clean_interval data; bucket = bucket_for t in
           refresh_fast_current_state node t interval interfaces (iface_rows sg node t bucket interval interfaces)
             (vm_rows node t bucket interval vms) (get_none data ''inventory_complete'' = PBool True) db)
      | _ \<Rightarrow> db)"

definition monitor_push ::
  "settings \<Rightarrow> int \<Rightarrow> string \<Rightarrow> string + pyval dict \<Rightarrow> monitor \<times> abuse_db \<Rightarrow> push_reply \<times> monitor \<times> abuse_db" where
  "monitor_push sg received_now token request s =
     (let (db, adb) = s; (reply, db') = push sg received_now token request db in
      (reply, db', (case (request, reply) of
         (Inr data, Accepted n) \<Rightarrow>
           (case py_list (py_or (get_none data ''interfaces'') (PList [])) of
              None \<Rightarrow> adb
            | Some interfaces \<Rightarrow> abuse_push sg (push_node data) (push_time received_now data) data interfaces adb)
       | _ \<Rightarrow> adb)))"

inductive reached :: "settings \<Rightarrow> monitor \<times> abuse_db \<Rightarrow> bool" for sg where
  fresh: "reached sg (empty_monitor, empty_abuse (migrate_settings now legacy []))"
| a_push: "reached sg s \<Longrightarrow> monitor_push sg now token request s = (reply, s') \<Longrightarrow> reached sg s'"
| policy: "reached sg (db, adb) \<Longrightarrow> reached sg (db, save_policy now vals actor action adb)"

inductive_cases reachedE: "reached sg s"

section \<open>What a push does to the abuse tables\<close>

lemma monitor_push_cases:
  assumes "monitor_push sg now token request (db, adb) = (reply, db', adb')"
  obtains (skipped) "adb' = adb" "\<And>n. reply \<noteq> Accepted n" "db' = db"
  | (kept) data n where "request = Inr data" "push sg now token (Inr data) db = (Accepted n, db')" "adb' = adb"
  | (refreshed) data n interfaces vms where "request = Inr data" "reply = Accepted n" "push sg now token (Inr data) db = (Accepted n, db')"
      "py_list (py_or (get_none data ''interfaces'') (PList [])) = Some interfaces" "get_none data ''vms'' = PList vms"
      "adb' = refresh_fast_current_state (push_node data) (push_time now data) (clean_interval data) interfaces
         (iface_rows sg (push_node data) (push_time now data) (bucket_for (push_time now data)) (clean_interval data) interfaces)
         (vm_rows (push_node data) (push_time now data) (bucket_for (push_time now data)) (clean_interval data) vms)
         (get_none data ''inventory_complete'' = PBool True) adb"
proof (cases "\<exists>n. reply = Accepted n")
  case False
  have p: "push sg now token request db = (reply, db')"
    using assms by (simp add: monitor_push_def case_prod_beta Let_def prod_eq_iff)
  have "adb' = adb"
    using assms False by (auto simp: monitor_push_def case_prod_beta Let_def split: sum.splits push_reply.splits)
  then show thesis using skipped False push_unchanged[OF p] by blast
next
  case True
  then obtain n where n: "reply = Accepted n" by blast
  have p: "push sg now token request db = (Accepted n, db')"
    using assms n by (simp add: monitor_push_def case_prod_beta Let_def prod_eq_iff)
  then obtain data where d: "request = Inr data" by (cases request) (auto simp: push_def split: if_splits)
  note p' = p[unfolded d]
  from push_accepted(7)[OF p'] obtain interfaces where
    i: "py_list (py_or (get_none data ''interfaces'') (PList [])) = Some interfaces" by blast
  have a: "adb' = abuse_push sg (push_node data) (push_time now data) data interfaces adb"
    using assms p by (simp add: monitor_push_def d i Let_def)
  show thesis
  proof (cases "\<exists>vms. get_none data ''vms'' = PList vms")
    case True
    then obtain vms where "get_none data ''vms'' = PList vms" by blast
    then show thesis using refreshed[OF d n p' i] a by (simp add: abuse_push_def Let_def)
  next
    case False
    then have "adb' = adb" unfolding a abuse_push_def by (auto split: pyval.split)
    then show thesis by (rule kept[OF d p'])
  qed
qed

definition received :: "monitor \<Rightarrow> (string \<times> int) set" where
  "received db = receipt_key ` set (db_receipts db)"

lemma received_push: "push sg now token request db = (reply, db') \<Longrightarrow> received db \<subseteq> received db'"
  by (auto simp: push_def received_def insert_or_ignore_def Let_def case_prod_beta split: if_splits sum.splits option.splits)

text \<open>The events of a machine come from pushes the monitor has a receipt of.\<close>

definition system_ok :: "monitor \<times> abuse_db \<Rightarrow> bool" where
  "system_ok s \<longleftrightarrow> engine_ok (snd s) \<and> (\<forall>e \<in> set (ad_events (snd s)). (ev_node e, ev_time e) \<in> received (fst s))"

lemma engine_ok_empty: "engine_ok (empty_abuse tbl)"
  by (simp add: engine_ok_def empty_abuse_def ids_ok_def rows_current_def current_ok_def opens_def abusing_def)

lemma push_refresh_ok:
  assumes ok: "system_ok (db, adb)" and p: "push sg now token (Inr data) db = (Accepted n, db')"
    and r: "adb' = refresh_fast_current_state (push_node data) (push_time now data) interval interfaces
         (iface_rows sg (push_node data) (push_time now data) bucket interval interfaces)
         (vm_rows (push_node data) (push_time now data) bucket interval vms) whole adb"
    and cfg: "cfg = get_abuse_settings (ad_settings adb)"
  shows "system_ok (db', adb')" "ad_settings adb' = ad_settings adb"
    "ad_current adb' = next_current cfg (push_node data) (push_time now data) interval interfaces
      (iface_rows sg (push_node data) (push_time now data) bucket interval interfaces)
      (vm_rows (push_node data) (push_time now data) bucket interval vms) whole (ad_current adb)"
    "ad_state adb' = next_state cfg (push_node data) (push_time now data) (pps_sync_map cfg interfaces) whole (ad_current adb') (ad_state adb)"
proof -
  have e: "engine_ok adb" "\<forall>e \<in> set (ad_events adb). (ev_node e, ev_time e) \<in> received db" using ok by (simp_all add: system_ok_def)
  note a = push_accepted[OF p]
  have new: "(push_node data, push_time now data) \<notin> received db" "(push_node data, push_time now data) \<in> received db'"
    using a(5,6) by (simp_all add: row_of_None_iff received_def)
  have fresh: "\<forall>e \<in> set (ad_events adb). \<not> (ev_node e = push_node data \<and> ev_time e = push_time now data)"
    using e(2) new(1) by auto
  have named: "list_all (\<lambda>r. sr_vm r \<noteq> []) (iface_rows sg (push_node data) (push_time now data) bucket interval interfaces)"
    using iface_rows_named by (rule list.pred_mono_strong) simp
  note k = refresh_ok[OF e(1) a(2) named vm_rows_named fresh r cfg]
  show "system_ok (db', adb')" unfolding system_ok_def fst_conv snd_conv
  proof (intro conjI ballI)
    fix e assume "e \<in> set (ad_events adb')"
    then consider "e \<in> set (ad_events adb)" | "ev_node e = push_node data" "ev_time e = push_time now data" using k(5) by blast
    then show "(ev_node e, ev_time e) \<in> received db'" using e(2) new(2) received_push[OF p] by cases auto
  qed (rule k(1))
  show "ad_settings adb' = ad_settings adb" by (rule k(2))
  show "ad_current adb' = next_current cfg (push_node data) (push_time now data) interval interfaces
      (iface_rows sg (push_node data) (push_time now data) bucket interval interfaces)
      (vm_rows (push_node data) (push_time now data) bucket interval vms) whole (ad_current adb)" by (rule k(3))
  show "ad_state adb' = next_state cfg (push_node data) (push_time now data) (pps_sync_map cfg interfaces) whole (ad_current adb') (ad_state adb)"
    by (rule k(4))
qed

lemma monitor_push_ok:
  assumes "system_ok (db, adb)" "monitor_push sg now token request (db, adb) = (reply, db', adb')"
  shows "system_ok (db', adb')"
  using assms(2)
proof (cases rule: monitor_push_cases)
  case (kept data n)
  then show ?thesis using assms(1) received_push[OF kept(2)] by (auto simp: system_ok_def)
next
  case (refreshed data n interfaces vms)
  then show ?thesis using push_refresh_ok(1)[OF assms(1) refreshed(3,6) refl] by simp
qed (use assms(1) in simp)

lemma reached_ok: "reached sg s \<Longrightarrow> system_ok s"
proof (induction rule: reached.induct)
  case fresh
  show ?case using engine_ok_empty by (simp add: system_ok_def empty_abuse_def)
next
  case (a_push s now token request reply s')
  then show ?case using monitor_push_ok by (cases s, cases s') auto
next
  case (policy db adb now vals actor action)
  then show ?case using save_policy_ok[OF _ refl, of adb now vals actor action] by (simp add: system_ok_def)
qed



section \<open>The flags of a row\<close>

definition abuse_flags :: "string list" where
  "abuse_flags = [''NETWORK_RX_PPS'', ''NETWORK_TX_PPS'', ''NETWORK_RX_AVG_MBPS'', ''NETWORK_TX_AVG_MBPS'', ''CPU_SUSTAINED'',
     ''RAM_SUSTAINED'', ''DISK_SUSTAINED'']"

lemma abuse_flag_word:
  assumes "f \<in> set abuse_flags"
  shows "CHR '','' \<notin> set f" "strip f = f" "f \<noteq> []" "dget_or flag_names f f = f"
proof -
  have "list_all (\<lambda>f. CHR '','' \<notin> set f \<and> trimmed f \<and> f \<noteq> [] \<and> dget_or flag_names f f = f) abuse_flags"
    by (simp add: abuse_flags_def trimmed_def is_space_def Let_def dget_or_def flag_names_def)
  then show "CHR '','' \<notin> set f" "strip f = f" "f \<noteq> []" "dget_or flag_names f f = f"
    using assms by (simp_all add: list_all_iff strip_trimmed)
qed

definition flag_list :: "string list \<Rightarrow> string list \<Rightarrow> bool" where
  "flag_list fs names = (distinct fs \<and> set fs \<subseteq> set names)"

lemma flag_list_step:
  "flag_list fs names \<Longrightarrow> n \<notin> set names \<Longrightarrow> flag_list (map fst (if b then [(n, x)] else []) @ fs) (n # names)"
  by (auto simp: flag_list_def)

lemma flag_list_last: "flag_list (map fst (if b then [(n, x)] else [])) [n]"
  by (simp add: flag_list_def)

lemma rules_flags: "flag_list (map fst (active_rules cfg sy s c)) abuse_flags"
  unfolding active_rules_def Let_def abuse_flags_def map_append
  by (intro flag_list_step flag_list_last) simp_all

lemma canonical_flags_join:
  assumes "flag_list fs abuse_flags"
  shows "canonical_flags (join '','' fs) = fs"
proof (cases "fs = []")
  case False
  have w: "CHR '','' \<notin> set f \<and> strip f = f \<and> f \<noteq> [] \<and> dget_or flag_names f f = f" if "f \<in> set fs" for f
    using abuse_flag_word[of f] that assms by (auto simp: flag_list_def)
  then have "split_on CHR '','' (join '','' fs) = fs" using False by (intro split_on_join) auto
  moreover have "map strip fs = fs" "filter (\<lambda>f. f \<noteq> []) fs = fs" "map (\<lambda>f. dget_or flag_names f f) fs = fs"
    using w by (auto simp: map_idI filter_id_conv)
  ultimately show ?thesis using assms by (simp add: canonical_flags_def dedup_first_distinct flag_list_def)
qed (simp add: canonical_flags_def join_def strip_def rstrip_by_def lstrip_def)

lemma rules_severity: "(f, x) \<in> set (active_rules cfg sy s c) \<Longrightarrow> 1 \<le> x"
  by (auto simp: active_rules_def Let_def split: if_splits)

lemma evaluate_flags: "canonical_flags (as_flags (evaluate cfg node t sync old c))
    = map fst (active_rules cfg (vm_synced cfg sync (fa_vm c)) (next_streaks cfg (bucket_for t) old c) c)"
  by (simp add: evaluate_def Let_def canonical_flags_join rules_flags)

text \<open>A row says why it is active, and a row that is not has no flags, no severity and no beginning.\<close>

definition explained :: "abuse_row \<Rightarrow> bool" where
  "explained r = (as_abuse r = (as_flags r \<noteq> []) \<and> (if as_abuse r then 1 \<le> as_severity r else as_severity r = 0 \<and> as_since r = None))"

lemma evaluate_explained: "explained (evaluate cfg node t sync old c)"
proof -
  define rules where "rules = active_rules cfg (vm_synced cfg sync (fa_vm c)) (next_streaks cfg (bucket_for t) old c) c"
  have "join '','' (map fst rules) = [] \<longleftrightarrow> rules = []"
    using rules_flags[of cfg "vm_synced cfg sync (fa_vm c)" "next_streaks cfg (bucket_for t) old c" c] abuse_flag_word(3)
    by (subst join_Nil_iff) (auto simp: rules_def flag_list_def)
  moreover have "1 \<le> Max (set (map snd rules))" if "rules \<noteq> []"
  proof -
    have "Max (set (map snd rules)) \<in> set (map snd rules)" using that by (intro Max_in) auto
    then show ?thesis using rules_severity by (auto simp: rules_def)
  qed
  ultimately show ?thesis
    by (simp add: explained_def evaluate_def Let_def rules_def[symmetric])
qed

lemma next_state_explained: "list_all explained prior \<Longrightarrow> list_all explained (next_state cfg node t sync whole current prior)"
  unfolding next_state_def
  by (intro fold_upsert_all delete_older_all) (auto simp: evaluated_def list_all_iff evaluate_explained keep_newer_def)

lemma save_policy_explained: "list_all explained (ad_state (save_policy now vals actor action db))"
  by (simp add: save_policy_def reset_current_state_for_policy_def Let_def list_all_iff reset_row_def explained_def)

text \<open>C32. The abuse rows always explain themselves: in every reachable state a row is active exactly
  when it names the rules that made it so, an active row has a severity of at least one, and an
  inactive row has severity zero and no beginning.\<close>

theorem abuse_rows_explain_themselves:
  assumes "reached sg (db, adb)"
  shows "list_all (\<lambda>r. as_abuse r = (as_flags r \<noteq> []) \<and> (if as_abuse r then 1 \<le> as_severity r else as_severity r = 0 \<and> as_since r = None))
    (ad_state adb)"
proof -
  have "reached sg s \<Longrightarrow> list_all explained (ad_state (snd s))" for s
  proof (induction rule: reached.induct)
    case (fresh now legacy)
    show ?case by (simp add: empty_abuse_def)
  next
    case (a_push s now token request reply s')
    obtain db adb db' adb' where s: "s = (db, adb)" "s' = (db', adb')" by (cases s, cases s') auto
    note ok = reached_ok[OF a_push.hyps(1)[unfolded s(1)]]
    have "list_all explained (ad_state adb')" using a_push.hyps(2)[unfolded s]
    proof (cases rule: monitor_push_cases)
      case (refreshed data n interfaces vms)
      then show ?thesis using push_refresh_ok(4)[OF ok refreshed(3,6) refl] a_push.IH next_state_explained by (simp add: s)
    qed (use a_push.IH s in auto)
    then show ?case by (simp add: s)
  qed (simp add: save_policy_explained)
  from this[OF assms] show ?thesis by (simp add: list_all_iff explained_def)
qed


section \<open>A sample\<close>

text \<open>One machine whose packets were above the threshold for 285 seconds, in the first push of its node.\<close>

definition sample_busy_interfaces :: "pyval list" where
  "sample_busy_interfaces = [PDict [(''vm_uuid'', PStr ''vm-a''), (''iface'', PStr ''vnet0''), (''bridge'', PStr ''br0''),
     (''rx_delta'', PInt 150), (''tx_delta'', PInt 20), (''pps_warn_threshold'', PInt 200000), (''seconds_over_rx_pps'', PInt 285)]]"

definition sample_busy_vms :: "pyval list" where
  "sample_busy_vms = [PDict [(''vm_uuid'', PStr ''vm-a'')]]"

definition sample_busy :: "pyval dict" where
  "sample_busy = [(''node'', PStr ''node1''), (''time'', PInt 1200), (''interfaces'', PList sample_busy_interfaces),
     (''vms'', PList sample_busy_vms)]"

definition sample_fresh :: abuse_db where
  "sample_fresh = empty_abuse (migrate_settings 1000 0 [])"

definition sample_abuse :: "monitor \<times> abuse_db" where
  "sample_abuse = snd (monitor_push sample_settings 1201 ''secret'' (Inr sample_busy) (empty_monitor, sample_fresh))"

definition sample_policy :: policy where
  "sample_policy = get_abuse_settings (migrate_settings 1000 0 [])"

lemma sample_busy_fields:
  "push_node sample_busy = ''node1''" "push_time 1201 sample_busy = 1200" "clean_interval sample_busy = 300"
  "get_none sample_busy ''vms'' = PList sample_busy_vms" "get_none sample_busy ''inventory_complete'' = PNone"
  "py_list (py_or (get_none sample_busy ''interfaces'') (PList [])) = Some sample_busy_interfaces" "bucket_for 1200 = 1200"
  by code_simp+

lemma sample_busy_accepted: "fst (push sample_settings 1201 ''secret'' (Inr sample_busy) empty_monitor) = Accepted 1"
  by code_simp

lemma sample_abuse_push:
  "monitor_push sample_settings 1201 ''secret'' (Inr sample_busy) (empty_monitor, sample_fresh) = (Accepted 1, sample_abuse)"
  using sample_busy_accepted unfolding sample_abuse_def by (simp add: monitor_push_def Let_def case_prod_beta prod_eq_iff)

lemma sample_reached: "reached sample_settings (empty_monitor, sample_fresh)" "reached sample_settings sample_abuse"
proof -
  show r: "reached sample_settings (empty_monitor, sample_fresh)" unfolding sample_fresh_def by (rule reached.fresh)
  show "reached sample_settings sample_abuse" by (rule reached.a_push[OF r sample_abuse_push])
qed

definition sample_irows :: "stage_row list" where
  "sample_irows = iface_rows sample_settings ''node1'' 1200 1200 300 sample_busy_interfaces"

definition sample_vrows :: "vm_stage list" where
  "sample_vrows = vm_rows ''node1'' 1200 1200 300 sample_busy_vms"

definition sample_current :: "fast_row list" where
  "sample_current = next_current sample_policy ''node1'' 1200 300 sample_busy_interfaces sample_irows sample_vrows False []"

lemma sample_abuse_tables:
  "ad_current (snd sample_abuse) = sample_current"
  "ad_state (snd sample_abuse) = next_state sample_policy ''node1'' 1200 (pps_sync_map sample_policy sample_busy_interfaces) False sample_current []"
proof -
  obtain db' where p: "push sample_settings 1201 ''secret'' (Inr sample_busy) empty_monitor = (Accepted 1, db')"
    using sample_busy_accepted by (cases "push sample_settings 1201 ''secret'' (Inr sample_busy) empty_monitor") auto
  have a: "snd sample_abuse = refresh_fast_current_state ''node1'' 1200 300 sample_busy_interfaces sample_irows sample_vrows False sample_fresh"
    by (simp add: sample_abuse_def monitor_push_def p Let_def sample_busy_fields abuse_push_def sample_irows_def sample_vrows_def)
  have e: "ad_current sample_fresh = []" "ad_state sample_fresh = []" "get_abuse_settings (ad_settings sample_fresh) = sample_policy"
    by (simp_all add: sample_fresh_def empty_abuse_def sample_policy_def)
  note ok = reached_ok[OF sample_reached(1)]
  note r = push_refresh_ok[OF ok p, of "snd sample_abuse" 300 sample_busy_interfaces 1200 sample_busy_vms False sample_policy]
  show c: "ad_current (snd sample_abuse) = sample_current"
    using r(3) a e by (simp add: sample_busy_fields sample_irows_def sample_vrows_def sample_current_def)
  show "ad_state (snd sample_abuse) = next_state sample_policy ''node1'' 1200 (pps_sync_map sample_policy sample_busy_interfaces) False sample_current []"
    using r(4) a e c by (simp add: sample_busy_fields sample_irows_def sample_vrows_def)
qed

lemma sample_abuse_active: "abusing (row_of abuse_key (''node1'', ''vm-a'') (ad_state (snd sample_abuse)))"
proof -
  have "abusing (row_of abuse_key (''node1'', ''vm-a'')
      (next_state sample_policy ''node1'' 1200 (pps_sync_map sample_policy sample_busy_interfaces) False sample_current []))"
    by code_simp
  then show ?thesis by (simp add: sample_abuse_tables)
qed


theorem abuse_rows_explain_themselves_witness:
  "list_all (\<lambda>r. as_abuse r = (as_flags r \<noteq> []) \<and> (if as_abuse r then 1 \<le> as_severity r else as_severity r = 0 \<and> as_since r = None))
    (ad_state (snd sample_abuse))"
  using abuse_rows_explain_themselves[of sample_settings "fst sample_abuse" "snd sample_abuse"] sample_reached(2) by simp


section \<open>The revisions of the policy\<close>

text \<open>The stored revision is a number, and the versions table, whose key it is, has only smaller or equal ones, each once.\<close>

definition current_revision :: "abuse_db \<Rightarrow> int" where
  "current_revision adb = po_revision (get_abuse_settings (ad_settings adb))"

definition versions_ok :: "abuse_db \<Rightarrow> bool" where
  "versions_ok adb = (dget (ad_settings adb) ''abuse_policy_revision'' = Some (str_of_int (current_revision adb))
     \<and> distinct (map pv_revision (ad_versions adb)) \<and> list_all (\<lambda>v. pv_revision v \<le> current_revision adb) (ad_versions adb))"

lemma str_safe_int_of_int: "str_safe_int (str_of_int i) d = i"
  by (simp add: str_safe_int_def safe_int_def int_of_str_of_int)

lemma revision_pos: "1 \<le> current_revision adb"
  using get_abuse_settings_ok by (simp add: current_revision_def policy_ok_def)

lemma revision_stored: "dget (ad_settings adb) ''abuse_policy_revision'' = Some (str_of_int n) \<Longrightarrow> 1 \<le> n \<Longrightarrow> current_revision adb = n"
  by (simp add: current_revision_def get_abuse_settings_def Let_def str_safe_int_of_int)

lemma versions_ok_fresh: "versions_ok (empty_abuse (migrate_settings now legacy []))"
proof -
  let ?a = "empty_abuse (migrate_settings now legacy [])"
  have d: "dget (ad_settings ?a) ''abuse_policy_revision'' = Some (str_of_int (max 1 legacy))"
    by (simp add: empty_abuse_def migrate_settings_def Let_def)
  have "current_revision ?a = max 1 legacy" using revision_stored[OF d] by simp
  then show ?thesis using d by (simp add: versions_ok_def) (simp add: empty_abuse_def)
qed

lemma versions_ok_save:
  assumes "versions_ok adb" "adb' = save_policy now vals actor action adb"
  shows "versions_ok adb'" "current_revision adb' = current_revision adb + 1"
proof -
  have old: "str_safe_int (str_of_int (current_revision adb)) 0 = current_revision adb" by (rule str_safe_int_of_int)
  have d: "dget (ad_settings adb') ''abuse_policy_revision'' = Some (str_of_int (current_revision adb + 1))"
    using assms revision_pos[of adb]
    by (simp add: assms(2) save_policy_def reset_current_state_for_policy_def Let_def versions_ok_def old)
  then show r: "current_revision adb' = current_revision adb + 1" using revision_pos[of adb] by (intro revision_stored) auto
  have v: "map pv_revision (ad_versions adb') = map pv_revision (ad_versions adb) @ [current_revision adb + 1]"
    using assms(1) revision_pos[of adb]
    by (simp add: assms(2) save_policy_def reset_current_state_for_policy_def Let_def versions_ok_def old)
  have "list_all (\<lambda>x. x \<le> current_revision adb) (map pv_revision (ad_versions adb))" "distinct (map pv_revision (ad_versions adb))"
    using assms(1) by (simp_all add: versions_ok_def list_all_iff)
  then have "list_all (\<lambda>x. x \<le> current_revision adb') (map pv_revision (ad_versions adb'))" "distinct (map pv_revision (ad_versions adb'))"
    unfolding v r by (force simp: list_all_iff)+
  then show "versions_ok adb'" using d r by (simp add: versions_ok_def list_all_iff)
qed

lemma monitor_push_frame:
  assumes "system_ok (db, adb)" "monitor_push sg now token request (db, adb) = (reply, db', adb')"
  shows "ad_settings adb' = ad_settings adb"
  using assms(2)
proof (cases rule: monitor_push_cases)
  case (refreshed data n interfaces vms)
  then show ?thesis using push_refresh_ok(2)[OF assms(1) refreshed(3,6) refl] by simp
qed simp_all

lemma insert_abuse_event_versions [simp]: "ad_versions (insert_abuse_event k st t fl sv db) = ad_versions db"
  by (simp add: insert_abuse_event_def apply_incident_event_def Let_def add_incident_def case_prod_beta split: option.split)

lemma transition_versions [simp]: "ad_versions (transition cfg t node vm old new db) = ad_versions db"
  by (simp add: transition_def Let_def split: option.split)

lemma refresh_versions [simp]:
  "ad_versions (refresh_fast_current_state node t interval interfaces irows vrows whole db) = ad_versions db"
proof -
  have "ad_versions (fold (\<lambda>vm. transition cfg t node vm (o' vm) (n' vm)) vms d) = ad_versions d" for cfg o' n' vms d
    by (induction vms arbitrary: d) simp_all
  then show ?thesis by (simp add: refresh_fast_current_state_def Let_def)
qed

lemma reached_versions: "reached sg s \<Longrightarrow> versions_ok (snd s)"
proof (induction rule: reached.induct)
  case (fresh now legacy)
  show ?case using versions_ok_fresh by simp
next
  case (a_push s now token request reply s')
  obtain db adb db' adb' where s: "s = (db, adb)" "s' = (db', adb')" by (cases s, cases s') auto
  have "ad_settings adb' = ad_settings adb"
    using monitor_push_frame[OF reached_ok[OF a_push.hyps(1)[unfolded s(1)]]] a_push.hyps(2) s by blast
  moreover have "ad_versions adb' = ad_versions adb" using a_push.hyps(2)[unfolded s]
    by (cases rule: monitor_push_cases) simp_all
  ultimately show ?case using a_push.IH by (simp add: s versions_ok_def current_revision_def)
next
  case (policy db adb now vals actor action)
  then show ?case using versions_ok_save(1)[OF _ refl] by simp
qed

text \<open>Saving a policy starts over: from a reachable state the revision grows by one, its row in the
  versions table has a key no other row has, every incident is closed, and every machine keeps its
  abuse row, inactive, with all streaks at zero and no cycle evaluated under the new revision.\<close>

theorem new_policy_starts_over:
  assumes "reached sg (db, adb)"
  shows "current_revision (save_policy now vals actor action adb) = current_revision adb + 1
    \<and> distinct (map pv_revision (ad_versions (save_policy now vals actor action adb)))
    \<and> list_all (\<lambda>i. \<not> in_open i) (ad_incidents (save_policy now vals actor action adb))
    \<and> map abuse_key (ad_state (save_policy now vals actor action adb)) = map abuse_key (ad_state adb)
    \<and> list_all (\<lambda>r. \<not> as_abuse r \<and> as_streaks r = no_streaks \<and> as_bucket r = 0 \<and> as_revision r = current_revision adb + 1)
        (ad_state (save_policy now vals actor action adb))"
proof -
  let ?a = "save_policy now vals actor action adb"
  have v: "versions_ok adb" and ok: "engine_ok adb" using reached_versions[OF assms] reached_ok[OF assms] by (simp_all add: system_ok_def)
  note s = save_policy_ok[OF ok, of ?a now vals actor action, OF refl] and r = versions_ok_save[OF v, of ?a now vals actor action, OF refl]
  have "list_all (\<lambda>r. as_revision r = current_revision adb + 1) (ad_state ?a)"
    using s(1) r(2) by (auto simp: engine_ok_def rows_current_def list_all_iff current_revision_def)
  moreover have "map abuse_key (ad_state ?a) = map abuse_key (ad_state adb)"
    by (simp add: save_policy_def reset_current_state_for_policy_def Let_def abuse_key_def reset_row_def)
  ultimately show ?thesis using s(4,5) r by (auto simp: versions_ok_def list_all_iff)
qed

theorem new_policy_starts_over_witness:
  "list_all (\<lambda>i. \<not> in_open i) (ad_incidents (save_policy 1300 [(''abuse_cpu_full_percent'', ''80'')] ''admin'' ''save'' (snd sample_abuse)))
   \<and> opens (snd sample_abuse) ''node1'' ''vm-a'' \<noteq> 0"
proof -
  have r: "reached sample_settings (fst sample_abuse, snd sample_abuse)" using sample_reached(2) by simp
  have "opens (snd sample_abuse) ''node1'' ''vm-a'' \<noteq> 0"
    using reached_ok[OF r] sample_abuse_active by (simp add: system_ok_def engine_ok_def)
  then show ?thesis using new_policy_starts_over[OF r] by blast
qed

section \<open>Late payloads\<close>

text \<open>A late payload leaves newer rows alone: an abuse row that is newer than an accepted push, and
  so was evaluated from a later payload, is the same row afterwards, whatever the push says.\<close>

theorem late_push_keeps_newer_row:
  assumes "reached sg (db, adb)" "monitor_push sg now token (Inr data) (db, adb) = (reply, db', adb')"
    and "row_of abuse_key (node, vm) (ad_state adb) = Some r" "push_time now data < as_last_seen r"
  shows "row_of abuse_key (node, vm) (ad_state adb') = Some r"
  using assms(2)
proof (cases rule: monitor_push_cases)
  case (refreshed data' n interfaces vms)
  have d: "data' = data" using refreshed(1) by simp
  note ok = reached_ok[OF assms(1)]
  define cfg where "cfg = get_abuse_settings (ad_settings adb)"
  note k = push_refresh_ok[OF ok refreshed(3,6) cfg_def]
  have e: "rows_current cfg (ad_state adb)" "current_ok (ad_current adb')"
    using ok k(1) by (simp_all add: system_ok_def engine_ok_def cfg_def)
  show ?thesis
  proof (cases "push_node data = node")
    case True
    have "row_of abuse_key (node, vm) (delete_older as_node as_last_seen node (push_time now data) whole (ad_state adb)) = Some r" for whole
      using row_of_older[OF e(1), of "(node, vm)"] assms(3,4) by simp
    then show ?thesis
      unfolding k(4) using row_of_next_state[OF e(2,1), of node vm "push_time now data"] True assms(4)
      by (auto simp: d Let_def keep_newer_def split: option.split)
  next
    case False
    then show ?thesis unfolding k(4) using next_state_other[OF e(1,2), of node "push_node data" vm] assms(3) by (simp add: d)
  qed
qed (use assms(3) in simp_all)

text \<open>A second push of the node, from a time before the first.\<close>

definition sample_late :: "pyval dict" where
  "sample_late = [(''node'', PStr ''node1''), (''time'', PInt 900), (''interfaces'', PList []), (''vms'', PList sample_busy_vms),
     (''inventory_complete'', PBool True)]"

theorem late_push_keeps_newer_row_witness:
  "abusing (row_of abuse_key (''node1'', ''vm-a'')
     (ad_state (snd (snd (monitor_push sample_settings 1300 ''secret'' (Inr sample_late) sample_abuse)))))"
proof -
  have r: "reached sample_settings (fst sample_abuse, snd sample_abuse)" using sample_reached(2) by simp
  obtain reply db' adb' where p: "monitor_push sample_settings 1300 ''secret'' (Inr sample_late) (fst sample_abuse, snd sample_abuse) = (reply, db', adb')"
    by (cases "monitor_push sample_settings 1300 ''secret'' (Inr sample_late) (fst sample_abuse, snd sample_abuse)") auto
  have t: "push_time 1300 sample_late = 900" by code_simp
  have "(case row_of abuse_key (''node1'', ''vm-a'')
      (next_state sample_policy ''node1'' 1200 (pps_sync_map sample_policy sample_busy_interfaces) False sample_current [])
      of None \<Rightarrow> False | Some r \<Rightarrow> as_last_seen r = 1200 \<and> as_abuse r)"
    by code_simp
  then obtain row where row: "row_of abuse_key (''node1'', ''vm-a'') (ad_state (snd sample_abuse)) = Some row" "as_last_seen row = 1200" "as_abuse row"
    by (auto simp: sample_abuse_tables split: option.splits)
  show ?thesis using late_push_keeps_newer_row[OF r p row(1)] row p by (simp add: t abusing_def)
qed


text \<open>The incident rows stay consistent: in every reachable state a closed incident has an end, lasted
  from its beginning to its end (never less than zero) and has the score of that duration and its
  severity; an open one has no end and no duration; severities are not negative and every incident
  counts at least one event.\<close>

theorem incident_rows_consistent:
  assumes "reached sg (db, adb)"
  shows "list_all incident_ok (ad_incidents adb)"
  using reached_ok[OF assms] by (simp add: system_ok_def engine_ok_def ids_ok_def)

theorem incident_rows_consistent_witness:
  "list_all incident_ok (ad_incidents (snd sample_abuse)) \<and> ad_incidents (snd sample_abuse) \<noteq> []"
proof -
  have r: "reached sample_settings (fst sample_abuse, snd sample_abuse)" using sample_reached(2) by simp
  have "opens (snd sample_abuse) ''node1'' ''vm-a'' = 1"
    using reached_ok[OF r] sample_abuse_active by (simp add: system_ok_def engine_ok_def)
  then show ?thesis using incident_rows_consistent[OF r] by (auto simp: opens_def)
qed

section \<open>The sustained rules\<close>

text \<open>The five rules that need several cycles, with what each tests, counts and flags.\<close>

datatype sustained = Cpu_Rule | Ram_Rule | Disk_Rule | Rx_Mbps_Rule | Tx_Mbps_Rule

fun rule_hit :: "sustained \<Rightarrow> policy \<Rightarrow> fast_row \<Rightarrow> bool" where
  "rule_hit Cpu_Rule cfg c = cpu_now cfg c"
| "rule_hit Ram_Rule cfg c = fst (ram_hit cfg (row_ram c))"
| "rule_hit Disk_Rule cfg c = fst (row_disk_hit cfg c)"
| "rule_hit Rx_Mbps_Rule cfg c = mbps_now cfg (fa_rx_mbps c)"
| "rule_hit Tx_Mbps_Rule cfg c = mbps_now cfg (fa_tx_mbps c)"

fun rule_streak :: "sustained \<Rightarrow> streaks \<Rightarrow> int" where
  "rule_streak Cpu_Rule = st_cpu"
| "rule_streak Ram_Rule = st_ram"
| "rule_streak Disk_Rule = st_disk"
| "rule_streak Rx_Mbps_Rule = st_rx_mbps"
| "rule_streak Tx_Mbps_Rule = st_tx_mbps"

fun rule_cycles :: "sustained \<Rightarrow> policy \<Rightarrow> int" where
  "rule_cycles Cpu_Rule = po_cpu_cycles"
| "rule_cycles Ram_Rule = po_ram_cycles"
| "rule_cycles Disk_Rule = po_disk_cycles"
| "rule_cycles Rx_Mbps_Rule = po_mbps_cycles"
| "rule_cycles Tx_Mbps_Rule = po_mbps_cycles"

fun rule_flag :: "sustained \<Rightarrow> string" where
  "rule_flag Cpu_Rule = ''CPU_SUSTAINED''"
| "rule_flag Ram_Rule = ''RAM_SUSTAINED''"
| "rule_flag Disk_Rule = ''DISK_SUSTAINED''"
| "rule_flag Rx_Mbps_Rule = ''NETWORK_RX_AVG_MBPS''"
| "rule_flag Tx_Mbps_Rule = ''NETWORK_TX_AVG_MBPS''"

lemma rule_next_streak:
  "rule_streak k (next_streaks cfg b old c) = next_streak (rule_streak k (old_streaks old)) (rule_hit k cfg c) (policy_same cfg old)
     (old_bucket old \<noteq> 0 \<and> b - old_bucket old = 300) (old_bucket old \<noteq> b)"
  by (cases k) (simp_all add: next_streaks_def Let_def ABUSE_EVAL_CYCLE_SECONDS_def CACHE_BUCKET_SECONDS_def)

lemma rule_active: "rule_flag k \<in> set (map fst (active_rules cfg sy s c)) \<longleftrightarrow> rule_hit k cfg c \<and> rule_cycles k cfg \<le> rule_streak k s"
  by (cases k) (auto simp: active_rules_def Let_def)

text \<open>The rows of one machine in consecutive cycles, the first at \<open>t\<close>.\<close>

fun cycles :: "policy \<Rightarrow> string \<Rightarrow> int \<Rightarrow> abuse_row option \<Rightarrow> (sync dict \<times> fast_row) list \<Rightarrow> abuse_row option" where
  "cycles cfg node t old [] = old"
| "cycles cfg node t old ((sync, c) # rest) = cycles cfg node (t + 300) (Some (evaluate cfg node t sync old c)) rest"

lemma bucket_step: "bucket_for (t + 300 * n) = bucket_for t + 300 * n"
  by (simp add: bucket_for_def CACHE_BUCKET_SECONDS_def)

lemma cycles_snoc: "cycles cfg node t old (cs @ [(sync, c)]) =
    Some (evaluate cfg node (t + 300 * int (length cs)) sync (cycles cfg node t old cs) c)"
  by (induction cs arbitrary: t old) (auto simp: algebra_simps)

lemma cycles_streak:
  assumes "300 \<le> t" "cs \<noteq> []"
  shows "\<exists>r. cycles cfg node t None cs = Some r \<and> policy_same cfg (Some r) \<and> as_bucket r = bucket_for t + 300 * int (length cs - 1)
    \<and> rule_streak k (as_streaks r) = int (trailing (map (\<lambda>c. rule_hit k cfg (snd c)) cs))"
  using assms(2)
proof (induction cs rule: rev_induct)
  case (snoc x cs)
  obtain sync c where x: "x = (sync, c)" by (cases x)
  have b: "0 < bucket_for t" using bucket_for_bounds[of t] assms(1) bucket_for_dvd[of t] by (smt (verit) zdvd_imp_le)
  show ?case
  proof (cases "cs = []")
    case True
    have "rule_streak k no_streaks = 0" by (cases k) (simp_all add: no_streaks_def)
    then show ?thesis using b
      by (auto simp: x True policy_same_def rule_next_streak old_streaks_def old_bucket_def next_streak_def trailing_def)
  next
    case False
    then obtain r where r: "cycles cfg node t None cs = Some r" "policy_same cfg (Some r)"
      "as_bucket r = bucket_for t + 300 * int (length cs - 1)" "rule_streak k (as_streaks r) = int (trailing (map (\<lambda>c. rule_hit k cfg (snd c)) cs))"
      using snoc.IH by blast
    obtain m where m: "length cs = Suc m" using False by (cases cs) auto
    have step: "bucket_for (t + 300 * int (length cs)) - as_bucket r = 300" "as_bucket r \<noteq> bucket_for (t + 300 * int (length cs))" "as_bucket r \<noteq> 0"
      using r(3) b bucket_step[of t "int (length cs)"] m by simp_all
    show ?thesis
      unfolding x cycles_snoc r(1)
      by (intro exI conjI, rule refl)
        (use step r(2,4) in \<open>auto simp: policy_same_def rule_next_streak old_streaks_def old_bucket_def next_streak_def bucket_step\<close>)
  qed
qed simp

text \<open>C29. A sustained rule needs its full run of cycles: over consecutive five-minute cycles under one
  policy, the CPU, RAM, disk and bandwidth rules flag a machine exactly when the newest cycles, as
  many as the policy requires, all met the rule; one cycle that does not resets the count.\<close>

theorem sustained_rule_needs_full_run:
  assumes "300 \<le> t" "cs \<noteq> []"
  shows "\<exists>r. cycles (get_abuse_settings tbl) node t None cs = Some r
    \<and> (rule_flag k \<in> set (canonical_flags (as_flags r)) \<longleftrightarrow>
        (let n = nat (rule_cycles k (get_abuse_settings tbl)) in
         n \<le> length cs \<and> list_all (\<lambda>c. rule_hit k (get_abuse_settings tbl) (snd c)) (drop (length cs - n) cs)))"
proof -
  define cfg where "cfg = get_abuse_settings tbl"
  obtain cs' sync c where cs: "cs = cs' @ [(sync, c)]" using assms(2) by (metis rev_exhaust surj_pair)
  let ?hits = "map (\<lambda>c. rule_hit k cfg (snd c)) cs"
  obtain r where r: "cycles cfg node t None cs = Some r" "rule_streak k (as_streaks r) = int (trailing ?hits)"
    using cycles_streak[OF assms, of cfg node k] by blast
  define e where "e = t + 300 * int (length cs')"
  have ev: "r = evaluate cfg node e sync (cycles cfg node t None cs') c"
    using r(1) by (simp add: cs cycles_snoc e_def)
  have n: "1 \<le> rule_cycles k cfg" using policy_cycles[of cfg] get_abuse_settings_ok by (cases k) (simp_all add: cfg_def)
  have hit: "rule_hit k cfg c" if "1 \<le> trailing ?hits" using that by (simp add: cs split: if_splits)
  have "rule_flag k \<in> set (canonical_flags (as_flags r)) \<longleftrightarrow> rule_hit k cfg c \<and> rule_cycles k cfg \<le> int (trailing ?hits)"
    using r(2) unfolding ev evaluate_flags rule_active by simp
  also have "\<dots> \<longleftrightarrow> nat (rule_cycles k cfg) \<le> trailing ?hits" using hit n by auto
  also have "\<dots> \<longleftrightarrow> nat (rule_cycles k cfg) \<le> length cs \<and> list_all (\<lambda>c. rule_hit k cfg (snd c)) (drop (length cs - nat (rule_cycles k cfg)) cs)"
    by (simp add: trailing_ge drop_map list.pred_map comp_def)
  finally show ?thesis using r(1) unfolding cfg_def Let_def by blast
qed


text \<open>Six cycles of the sample machine at 95 percent, with the rule of half an hour at 90 percent.\<close>

definition busy_row :: fast_row where
  "busy_row = (hd sample_current)\<lparr>fa_cpu_full := 95\<rparr>"

definition busy_cycles :: "nat \<Rightarrow> (sync dict \<times> fast_row) list" where
  "busy_cycles n = replicate n ([], busy_row)"

lemma busy_policy: "po_cpu_cycles (get_abuse_settings []) = 6" "po_cpu (get_abuse_settings [])" "po_cpu_percent (get_abuse_settings []) = 90"
  by code_simp+

theorem sustained_rule_needs_full_run_witness:
  "(\<exists>r. cycles (get_abuse_settings []) ''node1'' 1200 None (busy_cycles 6) = Some r \<and> ''CPU_SUSTAINED'' \<in> set (canonical_flags (as_flags r)))
   \<and> (\<exists>r. cycles (get_abuse_settings []) ''node1'' 1200 None (busy_cycles 5) = Some r \<and> ''CPU_SUSTAINED'' \<notin> set (canonical_flags (as_flags r)))"
proof
  have hit: "rule_hit Cpu_Rule (get_abuse_settings []) busy_row"
    by (simp add: cpu_now_def busy_policy busy_row_def)
  have l: "(300::int) \<le> 1200" "busy_cycles 6 \<noteq> []" "busy_cycles 5 \<noteq> []" by (simp_all add: busy_cycles_def)
  show "\<exists>r. cycles (get_abuse_settings []) ''node1'' 1200 None (busy_cycles 6) = Some r \<and> ''CPU_SUSTAINED'' \<in> set (canonical_flags (as_flags r))"
    using sustained_rule_needs_full_run[OF l(1,2), of "[]" "''node1''" Cpu_Rule] hit by (simp add: busy_policy busy_cycles_def list_all_iff)
  show "\<exists>r. cycles (get_abuse_settings []) ''node1'' 1200 None (busy_cycles 5) = Some r \<and> ''CPU_SUSTAINED'' \<notin> set (canonical_flags (as_flags r))"
    using sustained_rule_needs_full_run[OF l(1,3), of "[]" "''node1''" Cpu_Rule] by (simp add: busy_policy busy_cycles_def)
qed

section \<open>The settings\<close>

text \<open>C33. The policy is always in bounds: whatever texts the table of settings holds, the thresholds and
  times of the policy lie in their ranges, and every sustained rule needs between one and 288 cycles,
  the fewest that cover its seconds.\<close>

theorem policy_always_in_bounds:
  "policy_ok (get_abuse_settings tbl) \<and> 1 \<le> rule_cycles k (get_abuse_settings tbl) \<and> rule_cycles k (get_abuse_settings tbl) \<le> 288
   \<and> 300 * (po_cpu_cycles (get_abuse_settings tbl) - 1) < po_cpu_seconds (get_abuse_settings tbl)
   \<and> po_cpu_seconds (get_abuse_settings tbl) \<le> 300 * po_cpu_cycles (get_abuse_settings tbl)"
proof -
  have ok: "policy_ok (get_abuse_settings tbl)" by (rule get_abuse_settings_ok)
  then have c: "1 \<le> rule_cycles k (get_abuse_settings tbl) \<and> rule_cycles k (get_abuse_settings tbl) \<le> 288"
    using required_cycles_bounds by (cases k) (auto simp: policy_ok_def)
  have "300 * (po_cpu_cycles (get_abuse_settings tbl) - 1) < po_cpu_seconds (get_abuse_settings tbl)
      \<and> po_cpu_seconds (get_abuse_settings tbl) \<le> 300 * po_cpu_cycles (get_abuse_settings tbl)"
    using ok required_cycles_bounds by (auto simp: policy_ok_def)
  then show ?thesis using ok c by blast
qed

end
