(* ===== verification/Policy_Sync.thy ===== *)
theory Policy_Sync
  imports Delivery Abuse_System
begin

text \<open>
  The packet threshold between monitor and agent: the answer to a push carries the policy
  (\<open>get_agent_runtime_config\<close>), the agent applies it (\<open>apply_monitor_config\<close>) and writes the
  threshold it uses into every interface row, and the engine trusts the packet timers of a machine
  only when all its rows report the threshold of the policy (\<open>_v4810_pps_sync_map\<close>). One theorem
  says that the threshold arrives, another that the report is also given for a window that was
  sampled before it arrived.
\<close>

section \<open>The report\<close>

lemma round_dec_close: "\<bar>round_dec n q - q\<bar> \<le> 1 / 10 ^ n"
proof -
  have f: "\<lfloor>x\<rfloor> \<le> round_even x \<and> round_even x \<le> \<lfloor>x\<rfloor> + 1" for x :: rat
    by (simp add: round_even_def Let_def)
  have r: "\<bar>of_int (round_even (q * 10 ^ n)) - q * 10 ^ n\<bar> \<le> 1"
    using f[of "q * 10 ^ n"] by linarith
  have "round_dec n q - q = (of_int (round_even (q * 10 ^ n)) - q * 10 ^ n) / 10 ^ n"
    by (simp add: round_dec_def field_simps)
  then show ?thesis using divide_right_mono[OF r, of "10 ^ n"] by (simp add: abs_divide)
qed

lemma rounded_threshold_matches:
  assumes "po_network cfg" "1000 \<le> po_pps cfg"
  shows "report_matches cfg (max 0 (round_dec 3 (po_pps cfg)))"
proof -
  have "0 \<le> round_dec 3 (po_pps cfg)" using assms(2) by (intro round_dec_nonneg) simp
  moreover have "\<bar>round_dec 3 (po_pps cfg) - po_pps cfg\<bar> \<le> 1 / 1000" using round_dec_close[of 3] by simp
  then have "\<bar>round_dec 3 (po_pps cfg) - po_pps cfg\<bar> \<le> max 1 (po_pps cfg / 1000)" by (simp add: le_max_iff_disj)
  ultimately show ?thesis using assms(1) by (simp add: report_matches_def max_absorb2)
qed

text \<open>When every item reports a matching threshold, every machine that has an item is in agreement.\<close>

definition reports_match :: "policy \<Rightarrow> pyval \<Rightarrow> bool" where
  "reports_match cfg item = (case item of
      PDict d \<Rightarrow> get_none d ''pps_warn_threshold'' \<noteq> PNone
        \<and> report_matches cfg (max 0 (safe_float (get_none d ''pps_warn_threshold'') 0))
    | _ \<Rightarrow> True)"

definition in_agreement :: "sync dict \<Rightarrow> bool" where
  "in_agreement m = (\<forall>vm r. dget m vm = Some r \<longrightarrow> synced_with_policy r)"

lemma in_agreement_dset:
  "in_agreement m \<Longrightarrow> 0 < sy_count r \<Longrightarrow> sy_has_report r \<Longrightarrow> sy_all_match r \<Longrightarrow> in_agreement (dset m vm r)"
  by (auto simp: in_agreement_def synced_with_policy_def)

lemma in_agreement_dget: "in_agreement m \<Longrightarrow> dget m vm = Some r \<Longrightarrow> synced_with_policy r"
  by (simp add: in_agreement_def)

lemma sync_item_step:
  assumes "in_agreement m" "reports_match cfg item"
  shows "in_agreement (sync_item cfg item m)"
    "dget m vm \<noteq> None \<Longrightarrow> dget (sync_item cfg item m) vm \<noteq> None"
    "item = PDict d \<Longrightarrow> item_vm d \<noteq> [] \<Longrightarrow> item_vm d \<noteq> ''-'' \<Longrightarrow> dget (sync_item cfg item m) (item_vm d) \<noteq> None"
proof -
  have old: "synced_with_policy r" if "dget m v = Some r" for v r using in_agreement_dget[OF assms(1) that] .
  have "in_agreement (sync_item cfg (PDict e) m)" if "reports_match cfg (PDict e)" for e
  proof (cases "dget m (item_vm e)")
    case None
    then show ?thesis using that assms(1)
      by (auto simp: sync_item_def Let_def dget_or_def reports_match_def split: pyval.split intro!: in_agreement_dset)
  next
    case (Some r)
    then show ?thesis using that assms(1) old[OF Some]
      by (auto simp: sync_item_def Let_def dget_or_def reports_match_def synced_with_policy_def split: pyval.split intro!: in_agreement_dset)
  qed
  then show "in_agreement (sync_item cfg item m)" using assms by (cases item) (auto simp: sync_item_def)
  show "dget m vm \<noteq> None \<Longrightarrow> dget (sync_item cfg item m) vm \<noteq> None" by (auto simp: sync_item_def Let_def split: pyval.split)
  show "item = PDict d \<Longrightarrow> item_vm d \<noteq> [] \<Longrightarrow> item_vm d \<noteq> ''-'' \<Longrightarrow> dget (sync_item cfg item m) (item_vm d) \<noteq> None"
    by (simp add: sync_item_def Let_def)
qed

lemma sync_fold:
  assumes "in_agreement m" "list_all (reports_match cfg) items"
  shows "in_agreement (fold (sync_item cfg) items m) \<and> (dget m vm \<noteq> None \<longrightarrow> dget (fold (sync_item cfg) items m) vm \<noteq> None)
    \<and> (PDict d \<in> set items \<longrightarrow> item_vm d \<noteq> [] \<longrightarrow> item_vm d \<noteq> ''-'' \<longrightarrow> dget (fold (sync_item cfg) items m) (item_vm d) \<noteq> None)"
  using assms
proof (induction items arbitrary: m vm)
  case (Cons item items)
  note s = sync_item_step[OF Cons.prems(1), of cfg item]
  show ?case using Cons.IH[OF s(1), of vm] Cons.IH[OF s(1), of "item_vm d"] s Cons.prems(2) by auto
qed simp

lemma pps_sync_map_synced:
  assumes "list_all (reports_match cfg) items" "po_network cfg" "PDict d \<in> set items" "item_vm d \<noteq> []" "item_vm d \<noteq> ''-''"
  shows "vm_synced cfg (pps_sync_map cfg items) (item_vm d)"
proof -
  have "in_agreement []" by (simp add: in_agreement_def)
  note f = sync_fold[OF this assms(1), of "item_vm d" d]
  then obtain r where "dget (pps_sync_map cfg items) (item_vm d) = Some r" "in_agreement (pps_sync_map cfg items)"
    using assms(3-5) by (auto simp: pps_sync_map_def)
  then show ?thesis using in_agreement_dget assms(2) by (auto simp: vm_synced_def)
qed

section \<open>The threshold arrives\<close>

lemma runtime_config_applied:
  assumes "json_loads (str_or text ''{}'') = Some (PDict ans)" "get_none ans ''agent_config'' = get_agent_runtime_config tbl"
    and "po_network (get_abuse_settings tbl)"
  shows "ag_warn (snd (apply_monitor_config now text a)) = po_pps (get_abuse_settings tbl)"
proof -
  have "0 \<le> po_pps (get_abuse_settings tbl)" using get_abuse_settings_ok[of tbl] by (simp add: policy_ok_def)
  then show ?thesis using assms
    by (simp add: apply_monitor_config_def get_agent_runtime_config_def Let_def save_runtime_def safe_float_def get_none_def dget_or_def)
qed

lemma payload_thresholds:
  assumes "collect_cycle_payload cf warn nt e committed m window = ((p, st'), m')" "r \<in> set (pl_interfaces p)"
  shows "hy_pps_warn r = round_dec 3 warn"
  using assms by (auto simp: collect_cycle_payload_def Let_def case_prod_beta hydrate_network_rows_def hydrate_row_def)

lemma row_json_reads: "row_json r = PDict (row_dict r)" "item_vm (row_dict r) = strip (nr_vm r)"
  "get_none (row_dict r) ''pps_warn_threshold'' = PFloat (hy_pps_warn r)"
  by (simp_all add: row_json_dict item_vm_def row_dict_reads) (simp add: row_dict_def row_json_def Let_def get_none_def dget_or_def)

text \<open>C30. A policy reaches the agent in one cycle: after the agent applied an answer with the packet policy
  of the monitor, every machine with an interface row in the next payload is in agreement with the
  policy, so that its packet timers count.\<close>

theorem policy_reaches_agent:
  assumes "json_loads (str_or text ''{}'') = Some (PDict ans)" "get_none ans ''agent_config'' = get_agent_runtime_config tbl"
    and "po_network (get_abuse_settings tbl)"
    and "collect_cycle_payload cf (ag_warn (snd (apply_monitor_config now text a))) nt e committed m window = ((p, st'), m')"
    and "r \<in> set (pl_interfaces p)" "strip (nr_vm r) \<noteq> []" "strip (nr_vm r) \<noteq> ''-''"
  shows "vm_synced (get_abuse_settings tbl) (pps_sync_map (get_abuse_settings tbl) (map row_json (pl_interfaces p))) (strip (nr_vm r))"
proof -
  let ?cfg = "get_abuse_settings tbl"
  have pps: "1000 \<le> po_pps ?cfg" using get_abuse_settings_ok[of tbl] by (simp add: policy_ok_def)
  have "hy_pps_warn q = round_dec 3 (po_pps ?cfg)" if "q \<in> set (pl_interfaces p)" for q
    using payload_thresholds[OF assms(4) that] runtime_config_applied[OF assms(1-3)] by simp
  then have "list_all (reports_match ?cfg) (map row_json (pl_interfaces p))"
    using rounded_threshold_matches[OF assms(3) pps]
    by (auto simp: list_all_iff reports_match_def row_json_reads safe_float_def)
  moreover have "PDict (row_dict r) \<in> set (map row_json (pl_interfaces p))" using assms(5) by (simp add: row_json_reads(1)) 
  ultimately show ?thesis
    using pps_sync_map_synced[of ?cfg "map row_json (pl_interfaces p)" "row_dict r"] assms(3,6,7) by (simp add: row_json_reads(2))
qed

definition sample_answer :: string where
  "sample_answer = ''{\"agent_config\":{\"revision\":1,\"policy_updated_at\":0,\"engine_version\":\"cycles-v3-ram\",\"pps_warn\":200000.0,\"network_enabled\":true}}''"

lemma sample_answer_parsed:
  "json_loads (str_or sample_answer ''{}'') = Some (PDict [(''agent_config'', get_agent_runtime_config [])])"
  by code_simp

lemma sample_answer_policy: "po_network (get_abuse_settings [])" "po_pps (get_abuse_settings []) = 200000"
  by code_simp+

theorem policy_reaches_agent_witness:
  "\<exists>p :: payload. pl_time p = 1500 \<and> pl_interfaces p \<noteq> []
     \<and> vm_synced (get_abuse_settings []) (pps_sync_map (get_abuse_settings []) (map row_json (pl_interfaces p))) ''vm-a''"
proof -
  let ?w = "ag_warn (snd (apply_monitor_config 1400 sample_answer sample_agent))"
  obtain p st' m' where c: "collect_cycle_payload light_config ?w [] (sample_node ''250'' 1500) (sample_state 100) sample_map [] = ((p, st'), m')"
    by (metis prod.exhaust)
  note p = sample_cycle[OF sample_digits(3) c]
  have "pl_interfaces p \<noteq> []" "nr_vm (hd (pl_interfaces p)) = ''vm-a''"
    by (simp_all add: p(1) hydrate_network_rows_def hydrate_row_def Let_def)
  moreover have "strip ''vm-a'' = ''vm-a''" by code_simp
  ultimately have r: "hd (pl_interfaces p) \<in> set (pl_interfaces p)" "strip (nr_vm (hd (pl_interfaces p))) = ''vm-a''" by simp_all
  have a: "get_none [(''agent_config'', get_agent_runtime_config [])] ''agent_config'' = get_agent_runtime_config []"
    by (simp add: get_none_def dget_or_def)
  have "vm_synced (get_abuse_settings []) (pps_sync_map (get_abuse_settings []) (map row_json (pl_interfaces p))) ''vm-a''"
    using policy_reaches_agent[OF sample_answer_parsed a sample_answer_policy(1) c r(1)] by (simp add: r(2))
  then show ?thesis using p(3) \<open>pl_interfaces p \<noteq> []\<close> by (intro exI[of _ p] conjI)
qed

section \<open>A report for an older window\<close>

text \<open>C31. The report can be about another threshold than the timers: when an agent with an undelivered
  payload retries it and the answer brings a new threshold, the payload it collects next carries the
  window that was frozen before the answer came, with timers counted against the old threshold, and
  reports the new threshold for it in every row.\<close>

theorem retried_answer_relabels_window:
  assumes "rt_pending (ag_rt a) = Pending p0 st0 t0" "\<not> c_dry_run cf"
    and "ag_warn (snd (apply_monitor_config now text (carry_window cf frozen a))) = new_warn"
  shows "\<exists>p st' rows. rt_pending (ag_rt (snd (run_push_cycle cf nt e now frozen (Inr text) (Inl exc) committed a))) = Pending p st' now
    \<and> pl_interfaces p = hydrate_network_rows new_warn rows
        (merge_network_windows cf (PDict (rt_carry (ag_rt a))) (PDict frozen)) (pl_interval p)
    \<and> map hy_pps_warn (pl_interfaces p) = map (\<lambda>_. round_dec 3 new_warn) rows"
proof -
  let ?c = "carry_window cf frozen a"
  define a1 where "a1 = snd (send_pending now (Inr text) ?c)"
  have s: "send_pending now (Inr text) ?c = (Inr (Some st0), a1)"
    using assms(1) by (simp add: send_pending_def a1_def Let_def)
  have f: "ag_warn a1 = new_warn" "rt_carry (ag_rt a1) = merge_network_windows cf (PDict (rt_carry (ag_rt a))) (PDict frozen)"
    using assms(1,3) by (simp_all add: a1_def send_pending_def Let_def)
  have r: "retry_pending now (Inr text) committed ?c = (Inr st0, a1)"
    using assms(1) s by (simp add: retry_pending_def)
  obtain p st' m' where c: "collect_cycle_payload cf (ag_warn a1) nt e st0 (rt_map (ag_rt a1)) (rt_carry (ag_rt a1)) = ((p, st'), m')"
    by (metis prod.exhaust)
  have run: "run_push_cycle cf nt e now frozen (Inr text) (Inl exc) committed a = (st0, store_pending p st' m' now a1)"
    using assms(2) by (simp add: run_push_cycle_def r push_current_def c send_pending_def)
  obtain rows where "pl_interfaces p = hydrate_network_rows new_warn rows (rt_carry (ag_rt a1)) (pl_interval p)"
    using c by (auto simp: collect_cycle_payload_def Let_def case_prod_beta f(1))
  moreover have "map hy_pps_warn (hydrate_network_rows w rs win i) = map (\<lambda>_. round_dec 3 w) rs" for w rs win i
    by (simp add: hydrate_network_rows_def hydrate_row_def Let_def)
  ultimately show ?thesis using run f(2) by auto
qed

theorem retried_answer_relabels_window_witness:
  "\<exists>a p st' (rows :: net_row list). ag_warn a = 1000 \<and> rt_pending (ag_rt (snd (run_push_cycle light_config [] (sample_node ''250'' 1500) 1501 []
        (Inr sample_answer) (Inl (No_Answer [])) (sample_state 100) a))) = Pending p st' 1501
     \<and> map hy_pps_warn (pl_interfaces p) = map (\<lambda>_. 200000) rows"
proof -
  obtain p0 st0 m0 where "collect_cycle_payload light_config 1000 [] (sample_node ''100'' 1200) (sample_state 100) sample_map [] = ((p0, st0), m0)"
    by (metis prod.exhaust)
  define a where "a = sample_agent\<lparr>ag_warn := 1000, ag_rt := (ag_rt sample_agent)\<lparr>rt_pending := Pending p0 st0 1201\<rparr>\<rparr>"
  have pend: "rt_pending (ag_rt a) = Pending p0 st0 1201" and w: "ag_warn a = 1000" by (simp_all add: a_def)
  have ans: "get_none [(''agent_config'', get_agent_runtime_config [])] ''agent_config'' = get_agent_runtime_config []"
    by (simp add: get_none_def dget_or_def)
  have new: "ag_warn (snd (apply_monitor_config 1501 sample_answer (carry_window light_config [] a))) = 200000"
    using runtime_config_applied[OF sample_answer_parsed ans sample_answer_policy(1)] sample_answer_policy(2) by simp
  have r: "round_dec 3 200000 = (200000 :: rat)" using round_dec_of_int[of 3 200000] by simp
  from retried_answer_relabels_window[OF pend light_config_fields(1) new, of "[]" "sample_node ''250'' 1500" "No_Answer []" "sample_state 100"]
  obtain p st' and rows :: "net_row list" where x: "rt_pending (ag_rt (snd (run_push_cycle light_config [] (sample_node ''250'' 1500) 1501 []
        (Inr sample_answer) (Inl (No_Answer [])) (sample_state 100) a))) = Pending p st' 1501"
     "map hy_pps_warn (pl_interfaces p) = map (\<lambda>_. round_dec 3 200000) rows" by blast
  show ?thesis using w x unfolding r by (intro exI[of _ a] exI[of _ p] exI[of _ st'] exI[of _ rows] conjI)
qed

end
