(* ===== verification/Accounts.thy ===== *)
theory Accounts
  imports Server_Base
begin

text \<open>
  Log-in, sessions, roles and the accounts of the dashboard (app/node_groups.py, over
  app/runtime_layers/01_auth_permissions.py and the hook of 07_page_shell_auth_hook.py). A session
  is the signed cookie of Flask: the server keeps no copy, so a browser may send any cookie it was
  ever given, which the relation \<open>served\<close> of Account_Safety allows. Password hashes, the HMAC and the
  random tokens are parameters. Of the audit log the address and the user agent are left out, of a
  page only its title and its error text are kept.
\<close>

section \<open>Accounts, sessions and requests\<close>

record account =
  ac_id :: int
  ac_name :: string
  ac_hash :: string
  ac_role :: string
  ac_active :: bool
  ac_created :: int
  ac_updated :: int
  ac_login :: "int option"

record log_entry =
  lg_time :: int
  lg_realm :: string
  lg_event :: string
  lg_name :: string
  lg_role :: string
  lg_path :: string
  lg_detail :: string

text \<open>The tables dashboard_users, with the next value of its id, admin_settings and account_logs.\<close>

record admin_db =
  us_users :: "account list"
  us_next :: int
  us_settings :: "string dict"
  us_logs :: "log_entry list"

text \<open>The preview of a reset of the whole application (see Admin_Maintenance), which a session may hold.\<close>

record preview =
  pw_nonce :: string
  pw_code :: string
  pw_not_before :: int
  pw_expires_at :: int
  pw_created_at :: int
  pw_table_count :: int
  pw_estimated_rows :: int
  pw_configuration :: bool
  pw_full :: bool

text \<open>The keys of a session; an absent name and an empty one read the same.\<close>

record session =
  se_dash :: bool
  se_admin :: bool
  se_id :: int
  se_user :: string
  se_role :: string
  se_admin_user :: string
  se_stamp :: string
  se_csrf :: "string option"
  se_preview :: "preview option"

definition no_session :: session where
  "no_session = \<lparr>se_dash = False, se_admin = False, se_id = 0, se_user = [], se_role = [], se_admin_user = [], se_stamp = [], se_csrf = None,
     se_preview = None\<rparr>"

text \<open>
  What the installation provides: the secret of the application, the HMAC, the password hash (of a
  salt and a password) and its check, the URLs, and the two environment variables of the
  administrator.
\<close>

record site =
  si_key :: string
  si_hmac :: "string \<Rightarrow> string \<Rightarrow> string"
  si_hash :: "string \<Rightarrow> string \<Rightarrow> string"
  si_check :: "string \<Rightarrow> string \<Rightarrow> bool"
  si_url :: "string \<Rightarrow> string"
  si_env_name :: string
  si_env_hash :: string

record request =
  rq_now :: int
  rq_salt :: string
  rq_token :: string
  rq_post :: bool
  rq_endpoint :: string
  rq_path :: string
  rq_query :: string
  rq_form :: "string dict"
  rq_args :: "string dict"

text \<open>\<open>Redirect_Note\<close> goes to a section of the operations page with a message, good or bad.\<close>

datatype response =
    Redirect_To string
  | Redirect_Url string
  | Redirect_Note string bool string
  | Login_First string string
  | Reply int string
  | Page string string
  | Server_Error

definition EVENT_RETENTION_DAYS :: int where
  "EVENT_RETENTION_DAYS = 7"

definition VALID_ROLES :: "string list" where
  "VALID_ROLES = [''viewer'', ''admin'', ''super_admin'']"

text \<open>\<open>request.form.get(key) or ''''\<close>\<close>

definition form :: "request \<Rightarrow> string \<Rightarrow> string" where
  "form rq k = dget_or (rq_form rq) k []"

definition full_path :: "request \<Rightarrow> string" where
  "full_path rq = (if rq_query rq \<noteq> [] then rq_path rq @ ''?'' @ rq_query rq else rq_path rq)"

section \<open>Roles and the table of accounts\<close>

definition clean_role :: "string \<Rightarrow> string" where
  "clean_role value = (let role = lower (strip (str_or value ''viewer'')) in if role \<in> set VALID_ROLES then role else ''viewer'')"

definition requested_role :: "string \<Rightarrow> string option" where
  "requested_role value = (let role = lower (strip value) in if role \<in> set VALID_ROLES then Some role else None)"

definition clean_username :: "string \<Rightarrow> string" where
  "clean_username value = strip value"

definition get_dashboard_user :: "string \<Rightarrow> admin_db \<Rightarrow> account option" where
  "get_dashboard_user username db =
     (let name = clean_username username in if name = [] then None else row_of ac_name name (us_users db))"

definition get_dashboard_user_by_id :: "int \<Rightarrow> admin_db \<Rightarrow> account option" where
  "get_dashboard_user_by_id user_id db = row_of ac_id user_id (us_users db)"

definition active_super_admin_count :: "int option \<Rightarrow> admin_db \<Rightarrow> nat" where
  "active_super_admin_count exclude db =
     length (filter (\<lambda>u. ac_role u = ''super_admin'' \<and> ac_active u \<and> exclude \<noteq> Some (ac_id u)) (us_users db))"

definition emergency_admin_needed :: "admin_db \<Rightarrow> bool" where
  "emergency_admin_needed db \<longleftrightarrow> active_super_admin_count None db = 0"

definition is_last_enabled_admin :: "int \<Rightarrow> admin_db \<Rightarrow> bool" where
  "is_last_enabled_admin user_id db = (case get_dashboard_user_by_id user_id db of
      None \<Rightarrow> False
    | Some u \<Rightarrow> clean_role (ac_role u) = ''super_admin'' \<and> ac_active u \<and> active_super_admin_count (Some user_id) db = 0)"

definition get_admin_username :: "site \<Rightarrow> admin_db \<Rightarrow> string" where
  "get_admin_username si db = dget_or (us_settings db) ''admin_username'' (str_or (si_env_name si) ''admin'')"

definition get_admin_password_hash :: "site \<Rightarrow> admin_db \<Rightarrow> string" where
  "get_admin_password_hash si db = dget_or (us_settings db) ''admin_password_hash'' (si_env_hash si)"

definition admin_is_configured :: "site \<Rightarrow> admin_db \<Rightarrow> bool" where
  "admin_is_configured si db \<longleftrightarrow> get_admin_password_hash si db \<noteq> []"

definition set_admin_setting :: "string \<Rightarrow> string \<Rightarrow> admin_db \<Rightarrow> admin_db" where
  "set_admin_setting k v db = db\<lparr>us_settings := dset (us_settings db) k v\<rparr>"

text \<open>A row the table gets, with the next id; the sequence moves on even when the row is not inserted.\<close>

definition new_account :: "admin_db \<Rightarrow> int \<Rightarrow> string \<Rightarrow> string \<Rightarrow> string \<Rightarrow> bool \<Rightarrow> account" where
  "new_account db t name hash role active = \<lparr>ac_id = us_next db, ac_name = name, ac_hash = hash, ac_role = role, ac_active = active,
     ac_created = t, ac_updated = t, ac_login = None\<rparr>"

definition insert_dashboard_user :: "site \<Rightarrow> request \<Rightarrow> string \<Rightarrow> string \<Rightarrow> string \<Rightarrow> admin_db \<Rightarrow> bool \<times> admin_db" where
  "insert_dashboard_user si rq username password role db =
     (let (count, users) = insert_or_ignore ac_name
        (new_account db (rq_now rq) username (si_hash si (rq_salt rq) password) role True) (us_users db) in
      (count = 1, db\<lparr>us_users := users, us_next := us_next db + 1\<rparr>))"

text \<open>None is the \<open>ValueError\<close> of an empty name.\<close>

definition upsert_dashboard_user :: "site \<Rightarrow> request \<Rightarrow> string \<Rightarrow> string \<Rightarrow> string \<Rightarrow> bool \<Rightarrow> admin_db \<Rightarrow> admin_db option" where
  "upsert_dashboard_user si rq username0 password role active db =
     (let username = clean_username username0 in
      if username = [] then None
      else Some (db\<lparr>us_users := upsert ac_name
          (\<lambda>old new. old\<lparr>ac_hash := ac_hash new, ac_role := ac_role new, ac_active := ac_active new, ac_updated := ac_updated new\<rparr>)
          (new_account db (rq_now rq) username (si_hash si (rq_salt rq) password) (clean_role role) active) (us_users db),
        us_next := us_next db + 1\<rparr>))"

definition update_user :: "int \<Rightarrow> (account \<Rightarrow> account) \<Rightarrow> admin_db \<Rightarrow> admin_db" where
  "update_user user_id f db = db\<lparr>us_users := update_where (\<lambda>u. ac_id u = user_id) f (us_users db)\<rparr>"

definition update_dashboard_user_login :: "request \<Rightarrow> int \<Rightarrow> admin_db \<Rightarrow> admin_db" where
  "update_dashboard_user_login rq user_id = update_user user_id (\<lambda>u. u\<lparr>ac_login := Some (rq_now rq), ac_updated := rq_now rq\<rparr>)"

definition bootstrap_dashboard_admin_from_settings :: "site \<Rightarrow> request \<Rightarrow> admin_db \<Rightarrow> admin_db" where
  "bootstrap_dashboard_admin_from_settings si rq db =
     (if us_users db \<noteq> [] \<or> get_admin_password_hash si db = [] then db
      else db\<lparr>us_users := snd (insert_or_ignore ac_name
             (new_account db (rq_now rq) (get_admin_username si db) (get_admin_password_hash si db) ''super_admin'' True) (us_users db)),
           us_next := us_next db + 1\<rparr>)"

definition set_admin_credentials :: "site \<Rightarrow> request \<Rightarrow> string \<Rightarrow> string \<Rightarrow> admin_db \<Rightarrow> admin_db option" where
  "set_admin_credentials si rq username0 password db =
     (let username = str_or (strip (str_or username0 ''admin'')) ''admin'' in
      upsert_dashboard_user si rq username password ''super_admin'' True
        (set_admin_setting ''admin_password_hash'' (si_hash si (rq_salt rq) password)
          (set_admin_setting ''admin_username'' username db)))"

text \<open>The end of \<open>ensure_schema\<close>: the administrators of older versions become super admins, once.\<close>

definition migrate_roles :: "int \<Rightarrow> admin_db \<Rightarrow> admin_db" where
  "migrate_roles now db = (case dget (us_settings db) ''node_groups_role_migration_v1'' of
      Some _ \<Rightarrow> db
    | None \<Rightarrow> (db\<lparr>us_users := update_where (\<lambda>u. ac_role u = ''admin'') (\<lambda>u. u\<lparr>ac_role := ''super_admin'', ac_updated := now\<rparr>) (us_users db),
         us_settings := dset (us_settings db) ''node_groups_role_migration_v1'' ''completed''\<rparr>))"

section \<open>Sessions\<close>

definition dashboard_username :: "session \<Rightarrow> string" where
  "dashboard_username se = str_or (se_user se) (se_admin_user se)"

definition actor_name :: "session \<Rightarrow> string" where
  "actor_name se = str_or (se_admin_user se) (se_user se)"

definition current_role :: "session \<Rightarrow> admin_db \<Rightarrow> string" where
  "current_role se db =
     (let username = actor_name se; fallback = clean_role (se_role se) in
      if username = [] then fallback
      else (case get_dashboard_user username db of Some u \<Rightarrow> clean_role (ac_role u) | None \<Rightarrow> fallback))"

definition is_super_admin :: "session \<Rightarrow> admin_db \<Rightarrow> bool" where
  "is_super_admin se db \<longleftrightarrow> current_role se db = ''super_admin''"

definition current_dashboard_user :: "session \<Rightarrow> admin_db \<Rightarrow> account option" where
  "current_dashboard_user se db =
     (let by_name = (if dashboard_username se = [] then None else get_dashboard_user (dashboard_username se) db) in
      if se_id se = 0 then by_name
      else (case get_dashboard_user_by_id (se_id se) db of Some u \<Rightarrow> Some u | None \<Rightarrow> by_name))"

definition current_dashboard_user_id :: "session \<Rightarrow> admin_db \<Rightarrow> int" where
  "current_dashboard_user_id se db = (case current_dashboard_user se db of None \<Rightarrow> 0 | Some u \<Rightarrow> ac_id u)"

text \<open>The text the stamp signs: id, name, hash, role and state of the account, separated by the character 31.\<close>

definition stamp_payload :: "account \<Rightarrow> string" where
  "stamp_payload u = join [CHR 0x1F] [str_of_int (ac_id u), ac_name u, ac_hash u, clean_role (ac_role u), if ac_active u then ''1'' else ''0'']"

definition user_auth_stamp :: "site \<Rightarrow> account option \<Rightarrow> string" where
  "user_auth_stamp si user = (case user of None \<Rightarrow> [] | Some u \<Rightarrow> si_hmac si (si_key si) (stamp_payload u))"

definition set_session_auth_stamp :: "site \<Rightarrow> account option \<Rightarrow> admin_db \<Rightarrow> session \<Rightarrow> session" where
  "set_session_auth_stamp si user db se =
     se\<lparr>se_stamp := user_auth_stamp si (case user of None \<Rightarrow> current_dashboard_user se db | Some u \<Rightarrow> Some u)\<rparr>"

text \<open>The answer and the session, which is cleared when the cookie is no longer good.\<close>

definition dashboard_allowed :: "site \<Rightarrow> admin_db \<Rightarrow> session \<Rightarrow> bool \<times> session" where
  "dashboard_allowed si db se =
     (if \<not> (se_dash se \<or> se_admin se) then (False, se)
      else (case current_dashboard_user se db of
          None \<Rightarrow> (False, no_session)
        | Some u \<Rightarrow> if \<not> ac_active u then (False, no_session)
            else if se_stamp se = [] \<or> se_stamp se \<noteq> user_auth_stamp si (Some u) then (False, no_session)
            else (True, se)))"

definition allowed :: "site \<Rightarrow> admin_db \<Rightarrow> session \<Rightarrow> bool" where
  "allowed si db se = fst (dashboard_allowed si db se)"

definition require_dashboard :: "site \<Rightarrow> request \<Rightarrow> admin_db \<Rightarrow> session \<Rightarrow> response option \<times> session" where
  "require_dashboard si rq db se =
     (let (ok, se1) = dashboard_allowed si db se in
      if ok then (None, se1)
      else if starts_with ''/api/'' (rq_path rq) \<or> rq_path rq = ''/summary'' then (Some (Reply 401 ''login_required''), se1)
      else if rq_post rq then (Some (Reply 401 ''Login required''), se1)
      else (Some (Login_First ''dashboard_login'' (full_path rq)), se1))"

definition admin_allowed :: "site \<Rightarrow> admin_db \<Rightarrow> session \<Rightarrow> bool \<times> session" where
  "admin_allowed si db se =
     (let (ok, se1) = dashboard_allowed si db se in
      if \<not> ok then (False, se1)
      else (case current_dashboard_user se1 db of
          None \<Rightarrow> (False, se1)
        | Some u \<Rightarrow> (ac_active u \<and> clean_role (ac_role u) \<in> {''admin'', ''super_admin''}, se1)))"

section \<open>The audit log\<close>

definition base_log :: "request \<Rightarrow> string \<Rightarrow> string \<Rightarrow> string \<Rightarrow> string \<Rightarrow> string \<Rightarrow> admin_db \<Rightarrow> admin_db" where
  "base_log rq event username realm role detail db =
     db\<lparr>us_logs := filter (\<lambda>l. \<not> lg_time l < rq_now rq - EVENT_RETENTION_DAYS * 86400)
       (us_logs db @ [\<lparr>lg_time = rq_now rq, lg_realm = take 32 (str_or realm ''dashboard''), lg_event = take 64 (str_or event ''event''),
         lg_name = take 128 username, lg_role = take 32 role, lg_path = take 255 (rq_path rq), lg_detail = take 500 detail\<rparr>])\<rparr>"

definition log_account_event ::
  "site \<Rightarrow> request \<Rightarrow> string \<Rightarrow> string \<Rightarrow> string \<Rightarrow> string \<Rightarrow> string \<Rightarrow> session \<times> admin_db \<Rightarrow> session \<times> admin_db" where
  "log_account_event si rq event username realm role detail s =
     (let (se, db) = s in
      if realm = ''admin'' \<and> actor_name se \<noteq> [] \<and> username = actor_name se
      then (let (ok, se1) = dashboard_allowed si db se in
            (se1, base_log rq event username realm (if ok then current_role se1 db else role) detail db))
      else (se, base_log rq event username realm role detail db))"

section \<open>The gate of the operations pages\<close>

definition ADMIN_ALLOWED_ENDPOINTS :: "string list" where
  "ADMIN_ALLOWED_ENDPOINTS =
    [''admin_page'', ''admin_abuse_page'',
     ''reset_all_abuse_data_v48129'', ''admin_abuse_settings'',
     ''clear_vm_abuse_data_v48128'', ''manage_vm_abuse_data_v48129'',
     ''clear_abuse_events'',
     ''admin_delete_vm'', ''admin_restore_vm'', ''admin_delete_node'', ''admin_restore_node'',
     ''admin_purge_node_vms'', ''admin_bulk_nodes'', ''admin_bulk_vms'',
     ''admin_database_maintenance'', ''admin_cancel_maintenance_v5057'',
     ''admin_change_password'', ''admin_logout'',
     ''admin_users_page'', ''admin_create_user'', ''admin_user_action'',
     ''admin_theme_manager'', ''admin_logs_page'', ''admin_system_health_page'',
     ''admin_api_system_health'', ''admin_bandwidth_consumption_action'',
     ''admin_node_groups_create'', ''admin_node_groups_update'',
     ''admin_node_groups_action'', ''admin_node_groups_assign'', ''admin_node_groups_bulk'']"

definition require_admin :: "site \<Rightarrow> request \<Rightarrow> session \<times> admin_db \<Rightarrow> response option \<times> session \<times> admin_db" where
  "require_admin si rq s =
     (let (se, db0) = s; db = bootstrap_dashboard_admin_from_settings si rq db0 in
      if emergency_admin_needed db then (Some (Reply 403 ''Forbidden: no enabled Super Admin exists''), se, db)
      else if \<not> admin_is_configured si db then
        (if us_users db = [] \<and> \<not> rq_post rq then (Some (Redirect_To ''admin_setup''), se, db)
         else (Some (Reply 403 ''Forbidden''), se, db))
      else (let (ok, se1) = admin_allowed si db se in
        if \<not> ok then
          (let (dashboard, se2) = dashboard_allowed si db se1 in
           if dashboard \<or> rq_post rq then (Some (Reply 403 ''Forbidden''), se2, db)
           else (Some (Login_First ''admin_login'' (full_path rq)), se2, db))
        else if current_role se1 db = ''admin'' \<and> rq_endpoint rq \<notin> set ADMIN_ALLOWED_ENDPOINTS
        then (Some (Reply 403 ''Forbidden''), se1, db)
        else if rq_post rq \<and> dget (rq_form rq) ''csrf_token'' \<noteq> se_csrf se1 then (Some (Reply 403 ''CSRF check failed''), se1, db)
        else (None, se1, db)))"

text \<open>A page that first asks \<open>require_admin\<close> and, when that does not answer, goes on.\<close>

definition guarded ::
  "site \<Rightarrow> request \<Rightarrow> (session \<times> admin_db \<Rightarrow> response \<times> session \<times> admin_db) \<Rightarrow> session \<times> admin_db \<Rightarrow> response \<times> session \<times> admin_db" where
  "guarded si rq view s = (case require_admin si rq s of (Some deny, s1) \<Rightarrow> (deny, s1) | (None, s1) \<Rightarrow> view s1)"

section \<open>Log-in and log-out\<close>

definition safe_next_url :: "site \<Rightarrow> string \<Rightarrow> string" where
  "safe_next_url si value0 =
     (let value = strip value0 in if starts_with ''/'' value \<and> \<not> starts_with ''//'' value then value else si_url si ''admin_page'')"

text \<open>\<open>args.get(''next'') or form.get(''next'') or url_for(...)\<close>\<close>

definition next_url :: "site \<Rightarrow> request \<Rightarrow> string \<Rightarrow> string" where
  "next_url si rq home = safe_next_url si (str_or (str_or (dget_or (rq_args rq) ''next'' []) (form rq ''next'')) (si_url si home))"

text \<open>The session of a log-in, without its stamp: the old one is cleared.\<close>

definition login_session :: "request \<Rightarrow> int \<Rightarrow> string \<Rightarrow> string \<Rightarrow> bool \<Rightarrow> session" where
  "login_session rq user_id username role admin =
     \<lparr>se_dash = True, se_admin = admin, se_id = user_id, se_user = username, se_role = role,
      se_admin_user = (if admin then username else []), se_stamp = [], se_csrf = Some (rq_token rq), se_preview = None\<rparr>"

text \<open>Then \<open>last_login\<close> is written and the stamp is that of the row as it is now.\<close>

definition begin_session :: "site \<Rightarrow> request \<Rightarrow> int \<Rightarrow> string \<Rightarrow> string \<Rightarrow> bool \<Rightarrow> admin_db \<Rightarrow> session \<times> admin_db" where
  "begin_session si rq user_id username role admin db =
     (let db1 = update_dashboard_user_login rq user_id db in
      (set_session_auth_stamp si (get_dashboard_user username db1) db1 (login_session rq user_id username role admin), db1))"

definition dashboard_login :: "site \<Rightarrow> request \<Rightarrow> session \<times> admin_db \<Rightarrow> response \<times> session \<times> admin_db" where
  "dashboard_login si rq s =
     (let (se0, db0) = s; goal = next_url si rq ''index''; (ok, se) = dashboard_allowed si db0 se0 in
      if ok then (Redirect_Url goal, se, db0)
      else (let db = bootstrap_dashboard_admin_from_settings si rq db0; username = clean_username (form rq ''username'') in
        if \<not> admin_is_configured si db \<and> us_users db = [] then (Redirect_To ''admin_setup'', se, db)
        else if \<not> rq_post rq then (Page ''Monitoring access'' [], se, db)
        else (case get_dashboard_user username db of
            None \<Rightarrow> (Page ''Monitoring access'' ''Invalid username or password.'',
               log_account_event si rq ''login_failed'' username ''dashboard'' [] ''unknown user'' (se, db))
          | Some u \<Rightarrow>
              (let role = clean_role (ac_role u) in
               if \<not> ac_active u then (Page ''Monitoring access'' ''This user is disabled.'',
                 log_account_event si rq ''login_failed'' (ac_name u) ''dashboard'' role ''disabled user'' (se, db))
               else if \<not> si_check si (ac_hash u) (form rq ''password'') then (Page ''Monitoring access'' ''Invalid username or password.'',
                 log_account_event si rq ''login_failed'' (ac_name u) ''dashboard'' role ''bad password'' (se, db))
               else (Redirect_Url goal,
                 log_account_event si rq ''login_success'' (ac_name u) ''dashboard'' role []
                   (begin_session si rq (ac_id u) (ac_name u) role (role \<in> {''admin'', ''super_admin''}) db))))))"

definition admin_login :: "site \<Rightarrow> request \<Rightarrow> session \<times> admin_db \<Rightarrow> response \<times> session \<times> admin_db" where
  "admin_login si rq s =
     (let (se0, db0) = s; goal = next_url si rq ''admin_page''; db = bootstrap_dashboard_admin_from_settings si rq db0 in
      if emergency_admin_needed db then (Reply 403 ''Forbidden: no enabled Super Admin exists'', se0, db)
      else (let (ok, se) = admin_allowed si db se0; username = strip (form rq ''username''); password = form rq ''password'' in
        if ok then (Redirect_Url goal, se, db)
        else if \<not> rq_post rq then (Page ''Administrator access'' [], se, db)
        else (case get_dashboard_user username db of
            Some u \<Rightarrow>
              (let role = clean_role (ac_role u) in
               if role \<notin> {''admin'', ''super_admin''} \<or> \<not> ac_active u
               then (Page ''Administrator access'' ''This user is disabled or does not have an administrator role.'',
                 log_account_event si rq ''login_failed'' username ''admin'' role ''admin user disabled or invalid'' (se, db))
               else if \<not> si_check si (ac_hash u) password then (Page ''Administrator access'' ''Invalid username or password.'',
                 log_account_event si rq ''login_failed'' username ''admin'' role ''bad password'' (se, db))
               else (Redirect_Url goal,
                 log_account_event si rq ''login_success'' (ac_name u) ''admin'' role []
                   (begin_session si rq (ac_id u) (ac_name u) role True db)))
          | None \<Rightarrow>
              (let legacy_hash = get_admin_password_hash si db;
                   refused = (\<lambda>s. (Page ''Administrator access'' ''Invalid username or password.'',
                     log_account_event si rq ''login_failed'' username ''admin'' [] ''unknown admin user'' s)) in
               if username = get_admin_username si db \<and> legacy_hash \<noteq> [] \<and> si_check si legacy_hash password
               then (case upsert_dashboard_user si rq username password ''super_admin'' True db of
                   None \<Rightarrow> (Server_Error, se, db)
                 | Some db1 \<Rightarrow> (case get_dashboard_user username db1 of
                       Some u \<Rightarrow> (Redirect_Url goal,
                         log_account_event si rq ''login_success'' username ''admin'' ''super_admin'' ''legacy admin converted''
                           (begin_session si rq (ac_id u) username ''super_admin'' True db1))
                     | None \<Rightarrow> refused (se, db1)))
               else refused (se, db)))))"

definition admin_setup :: "site \<Rightarrow> request \<Rightarrow> session \<times> admin_db \<Rightarrow> response \<times> session \<times> admin_db" where
  "admin_setup si rq s =
     (let (se, db0) = s; db = bootstrap_dashboard_admin_from_settings si rq db0 in
      if us_users db \<noteq> [] then
        (let (ok, se1) = admin_allowed si db se in
         (if ok then Redirect_To ''admin_page'' else Reply 403 ''Forbidden: initial setup is disabled after the first user is created.'', se1, db))
      else
        (let username = str_or (strip (str_or (form rq ''username'') ''admin'')) ''admin''; password = form rq ''password'' in
         if \<not> rq_post rq then (Page ''Initial Super Admin Setup'' [], se, db)
         else if length username < 3 then (Page ''Initial Super Admin Setup'' ''Username must be at least 3 characters.'', se, db)
         else if length password < 10 then (Page ''Initial Super Admin Setup'' ''Password must be at least 10 characters.'', se, db)
         else if password \<noteq> form rq ''confirm'' then (Page ''Initial Super Admin Setup'' ''Password confirmation does not match.'', se, db)
         else (case set_admin_credentials si rq username password db of
             None \<Rightarrow> (Server_Error, se, db)
           | Some db1 \<Rightarrow>
               (Redirect_To ''admin_page'',
                log_account_event si rq ''setup_admin'' username ''admin'' ''super_admin'' []
                  (case get_dashboard_user username db1 of
                     Some u \<Rightarrow> begin_session si rq (ac_id u) username ''super_admin'' True db1
                   | None \<Rightarrow> (login_session rq 0 username ''super_admin'' True, db1))))))"

definition dashboard_logout :: "site \<Rightarrow> request \<Rightarrow> session \<times> admin_db \<Rightarrow> response \<times> session \<times> admin_db" where
  "dashboard_logout si rq s =
     (let (se, db) = s; username = dashboard_username se in
      (Redirect_To ''dashboard_login'', no_session,
       if username = [] then db else snd (log_account_event si rq ''logout'' username ''dashboard'' (current_role se db) [] (se, db))))"

definition admin_logout :: "site \<Rightarrow> request \<Rightarrow> session \<times> admin_db \<Rightarrow> response \<times> session \<times> admin_db" where
  "admin_logout si rq s =
     (let (se, db) = s; username = str_or (se_admin_user se) (dashboard_username se) in
      (Redirect_To ''admin_login'', no_session,
       if username = [] then db else snd (log_account_event si rq ''logout'' username ''admin'' ''admin'' [] (se, db))))"

section \<open>The management of accounts\<close>

definition manageable_roles :: "session \<Rightarrow> admin_db \<Rightarrow> string list" where
  "manageable_roles se db = (if is_super_admin se db then [''viewer'', ''admin'', ''super_admin''] else [''viewer'', ''admin''])"

definition can_manage_user :: "session \<Rightarrow> admin_db \<Rightarrow> string \<Rightarrow> bool" where
  "can_manage_user se db target_role \<longleftrightarrow> is_super_admin se db \<or> clean_role target_role \<noteq> ''super_admin''"

text \<open>The accounts the users page lists.\<close>

definition listed_users :: "session \<Rightarrow> admin_db \<Rightarrow> account list" where
  "listed_users se db = filter (\<lambda>u. is_super_admin se db \<or> clean_role (ac_role u) \<noteq> ''super_admin'') (us_users db)"

definition admin_create_user :: "site \<Rightarrow> request \<Rightarrow> session \<times> admin_db \<Rightarrow> response \<times> session \<times> admin_db" where
  "admin_create_user si rq = guarded si rq (\<lambda>(se, db).
     (let username = clean_username (form rq ''username''); password = form rq ''password'' in
      case requested_role (form rq ''role'') of
        None \<Rightarrow> (Reply 400 ''Invalid role'', se, db)
      | Some role \<Rightarrow>
          (if role = ''super_admin'' \<and> \<not> is_super_admin se db then (Reply 403 ''Forbidden role assignment'', se, db)
           else if username = [] \<or> length username < 3 \<or> 128 < length username
           then (Reply 400 ''Username must be between 3 and 128 characters'', se, db)
           else if list_ex (\<lambda>c. of_char c < (32 :: nat)) username then (Reply 400 ''Username contains invalid control characters'', se, db)
           else if length password < 10 then (Reply 400 ''Password must be at least 10 characters'', se, db)
           else (let (inserted, db1) = insert_dashboard_user si rq username password role db in
             if \<not> inserted then (Reply 409 ''Username already exists'', se, db1)
             else (Redirect_To ''admin_users_page'',
               log_account_event si rq ''user_created'' username ''admin'' role
                 (''created_by='' @ str_or (se_admin_user se) (dashboard_username se) @ '';created_by_role='' @ current_role se db1) (se, db1))))))"

text \<open>
  An action on an account: what the checks decide on, and the write that follows. The checks and
  the write are separate transactions of the database.
\<close>

datatype user_write = Set_Status bool | Delete_User | Reset_Password string | Set_Role string

definition apply_user_write :: "request \<Rightarrow> int \<Rightarrow> user_write \<Rightarrow> admin_db \<Rightarrow> admin_db" where
  "apply_user_write rq user_id w db = (case w of
      Set_Status active \<Rightarrow> update_user user_id (\<lambda>u. u\<lparr>ac_active := active, ac_updated := rq_now rq\<rparr>) db
    | Delete_User \<Rightarrow> db\<lparr>us_users := filter (\<lambda>u. ac_id u \<noteq> user_id) (us_users db)\<rparr>
    | Reset_Password hash \<Rightarrow> update_user user_id (\<lambda>u. u\<lparr>ac_hash := hash, ac_updated := rq_now rq\<rparr>) db
    | Set_Role role \<Rightarrow> update_user user_id (\<lambda>u. u\<lparr>ac_role := role, ac_updated := rq_now rq\<rparr>) db)"

definition decide_user_action :: "site \<Rightarrow> request \<Rightarrow> session \<Rightarrow> admin_db \<Rightarrow> response + account \<times> user_write" where
  "decide_user_action si rq se db =
     (let user_id = safe_int (PStr (form rq ''user_id'')) 0; action = lower (strip (form rq ''action'')) in
      if user_id \<le> 0 then Inl (Reply 400 ''Missing user_id'')
      else (case get_dashboard_user_by_id user_id db of
          None \<Rightarrow> Inl (Reply 404 ''User not found'')
        | Some user \<Rightarrow>
            (let old_role = clean_role (ac_role user); is_self = (user_id = current_dashboard_user_id se db) in
             if \<not> can_manage_user se db old_role then Inl (Reply 404 ''User not found'')
             else if is_self \<and> action \<in> {''disable'', ''delete'', ''reset_password'', ''change_role''} then Inl (Reply 400 ''Safety block: own account'')
             else if action \<in> {''disable'', ''delete''} \<and> is_last_enabled_admin user_id db then Inl (Reply 400 ''Safety block: last enabled Super Admin'')
             else if action = ''disable'' then Inr (user, Set_Status False)
             else if action = ''enable'' then Inr (user, Set_Status True)
             else if action = ''delete'' then Inr (user, Delete_User)
             else if action = ''reset_password'' then
               (if length (form rq ''new_password'') < 10 then Inl (Reply 400 ''New password must be at least 10 characters'')
                else Inr (user, Reset_Password (si_hash si (rq_salt rq) (form rq ''new_password''))))
             else if action = ''change_role'' then
               (case requested_role (form rq ''role'') of
                  None \<Rightarrow> Inl (Reply 400 ''Invalid role'')
                | Some role \<Rightarrow>
                    (if role = ''super_admin'' \<and> \<not> is_super_admin se db then Inl (Reply 403 ''Forbidden role assignment'')
                     else if old_role = ''super_admin'' \<and> role \<noteq> ''super_admin'' \<and> ac_active user \<and> active_super_admin_count (Some user_id) db = 0
                     then Inl (Reply 400 ''Safety block: last enabled Super Admin'')
                     else Inr (user, Set_Role role)))
             else Inl (Reply 400 ''Invalid action''))))"

text \<open>The name of the event, its detail after the two names of the actor, and the role it is logged with.\<close>

definition write_event :: "account \<Rightarrow> user_write \<Rightarrow> string \<times> string \<times> string" where
  "write_event user w = (let old_role = clean_role (ac_role user) in case w of
      Set_Status active \<Rightarrow> (if active then ''user_enabled'' else ''user_disabled'', [], old_role)
    | Delete_User \<Rightarrow> (''user_deleted'', [], old_role)
    | Reset_Password _ \<Rightarrow> (''user_password_reset'', '';role_unchanged='' @ old_role, old_role)
    | Set_Role role \<Rightarrow> (''user_role_changed'', '';old_role='' @ old_role @ '';new_role='' @ role, role))"

definition admin_user_action :: "site \<Rightarrow> request \<Rightarrow> session \<times> admin_db \<Rightarrow> response \<times> session \<times> admin_db" where
  "admin_user_action si rq = guarded si rq (\<lambda>(se, db). case decide_user_action si rq se db of
      Inl reply \<Rightarrow> (reply, se, db)
    | Inr (user, w) \<Rightarrow>
        (let (event, detail, role) = write_event user w in
         (Redirect_To ''admin_users_page'',
          log_account_event si rq event (ac_name user) ''admin'' role
            (''changed_by='' @ str_or (se_admin_user se) (dashboard_username se) @ '';changed_by_role='' @ current_role se db @ detail)
            (se, apply_user_write rq (ac_id user) w db))))"

definition admin_change_password :: "site \<Rightarrow> request \<Rightarrow> session \<times> admin_db \<Rightarrow> response \<times> session \<times> admin_db" where
  "admin_change_password si rq = guarded si rq (\<lambda>(se, db). case current_dashboard_user se db of
      None \<Rightarrow> (Reply 403 ''Forbidden'', se, db)
    | Some u \<Rightarrow>
        (let title = ''Change Admin Password''; new_password = form rq ''new_password'' in
         if \<not> rq_post rq then (Page title [], se, db)
         else if \<not> si_check si (ac_hash u) (form rq ''current_password'') then (Page title ''Current password is incorrect.'', se, db)
         else if length new_password < 10 then (Page title ''New password must be at least 10 characters.'', se, db)
         else if new_password \<noteq> form rq ''confirm_password'' then (Page title ''Password confirmation does not match.'', se, db)
         else (let db1 = update_user (ac_id u) (\<lambda>u'. u'\<lparr>ac_hash := si_hash si (rq_salt rq) new_password, ac_role := clean_role (ac_role u),
                 ac_updated := rq_now rq\<rparr>) db;
               se1 = set_session_auth_stamp si (get_dashboard_user_by_id (ac_id u) db1) db1 se in
           (Page title [], log_account_event si rq ''password_changed'' (ac_name u) ''admin'' (clean_role (ac_role u)) [] (se1, db1)))))"

section \<open>A request\<close>

text \<open>The hook before every request: the pages of operations, and the public ones, have gates of their own.\<close>

definition public_endpoints :: "string list" where
  "public_endpoints = [''health'', ''virtinfra_livez'', ''virtinfra_healthz'', ''push'', ''push_bandwidth_consumption'', ''dashboard_login'',
     ''dashboard_logout'', ''admin_setup'', ''admin_login'', ''admin_logout'', ''static'']"

definition enforce_dashboard_login :: "site \<Rightarrow> request \<Rightarrow> admin_db \<Rightarrow> session \<Rightarrow> response option \<times> session" where
  "enforce_dashboard_login si rq db se =
     (let endpoint = rq_endpoint rq in
      if endpoint \<in> set public_endpoints then (None, se)
      else if starts_with ''/api/v1/'' (rq_path rq) \<or> starts_with ''api_v1_'' endpoint then (None, se)
      else if endpoint = ''admin_page'' \<or> starts_with ''admin_'' endpoint then (None, se)
      else require_dashboard si rq db se)"

text \<open>
  The views of log-in and accounts by their endpoint, two of which take only POST; any other
  page of the dashboard or of operations is read here, and changes nothing of these tables.
\<close>

definition view :: "site \<Rightarrow> request \<Rightarrow> session \<times> admin_db \<Rightarrow> response \<times> session \<times> admin_db" where
  "view si rq s =
     (let e = rq_endpoint rq in
      if e = ''dashboard_login'' then dashboard_login si rq s
      else if e = ''dashboard_logout'' then dashboard_logout si rq s
      else if e = ''admin_login'' then admin_login si rq s
      else if e = ''admin_logout'' then admin_logout si rq s
      else if e = ''admin_setup'' then admin_setup si rq s
      else if e = ''admin_create_user'' then (if rq_post rq then admin_create_user si rq s else (Reply 405 [], s))
      else if e = ''admin_user_action'' then (if rq_post rq then admin_user_action si rq s else (Reply 405 [], s))
      else if e = ''admin_change_password'' then admin_change_password si rq s
      else if starts_with ''admin_'' e then guarded si rq (\<lambda>s1. (Page e [], s1)) s
      else (Page e [], s))"

definition handle :: "site \<Rightarrow> request \<Rightarrow> session \<times> admin_db \<Rightarrow> response \<times> session \<times> admin_db" where
  "handle si rq s = (case enforce_dashboard_login si rq (snd s) (fst s) of
      (Some deny, se) \<Rightarrow> (deny, se, snd s)
    | (None, se) \<Rightarrow> view si rq (se, snd s))"

end
