(* ===== verification/Account_Safety.thy ===== *)
theory Account_Safety
  imports Accounts
begin

text \<open>
  What the requests of Accounts can do to the accounts, and which sessions are good. Every request
  has one of seven outcomes (\<open>outcome\<close>, \<open>outcome_handle\<close>); over the histories of requests with any
  cookie that was ever issued (\<open>serve\<close>, \<open>served\<close>) an enabled super admin remains, only a super
  admin changes super admins, a changed account ends its sessions, no session starts without a
  password and no administrator writes without the token of its session.
\<close>

section \<open>What a request can do\<close>

text \<open>The tables without the log.\<close>

definition core :: "admin_db \<Rightarrow> admin_db" where
  "core db = db\<lparr>us_logs := []\<rparr>"

lemma core_eq: "core a = core b \<longleftrightarrow> us_users a = us_users b \<and> us_next a = us_next b \<and> us_settings a = us_settings b"
  by (cases a; cases b) (simp add: core_def)

lemma core_log [simp]: "core (snd (log_account_event si rq e u r ro d s)) = core (snd s)"
  by (simp add: log_account_event_def base_log_def case_prod_beta Let_def core_def)

lemma allowed_session: "snd (dashboard_allowed si db se) = se \<or> snd (dashboard_allowed si db se) = no_session"
  by (auto simp: dashboard_allowed_def split: option.split)

lemma allowed_True: "dashboard_allowed si db se = (True, se1) \<Longrightarrow> se1 = se"
  by (auto simp: dashboard_allowed_def split: option.splits if_splits)

lemma admin_allowed_True: "admin_allowed si db se = (True, se1) \<Longrightarrow> se1 = se \<and> allowed si db se"
  by (auto simp: admin_allowed_def allowed_def case_prod_beta Let_def dest: allowed_True split: option.splits if_splits)
     (metis allowed_True prod.collapse)+

lemma admin_allowed_session: "snd (admin_allowed si db se) = se \<or> snd (admin_allowed si db se) = no_session"
  using allowed_session[of si db se] by (auto simp: admin_allowed_def case_prod_beta Let_def split: option.split)

lemma log_session: "fst (log_account_event si rq e u r ro d s) = fst s \<or> fst (log_account_event si rq e u r ro d s) = no_session"
  using allowed_session[of si "snd s" "fst s"] by (auto simp: log_account_event_def case_prod_beta Let_def)

abbreviation boot :: "site \<Rightarrow> request \<Rightarrow> admin_db \<Rightarrow> admin_db" where
  "boot \<equiv> bootstrap_dashboard_admin_from_settings"

abbreviation settled :: "session \<Rightarrow> session \<Rightarrow> bool" where
  "settled se se' \<equiv> se' = se \<or> se' = no_session"

text \<open>
  The ways a request can end, up to the log: nothing but a bootstrap happened, an account logged in
  with its password, the settings' administrator was converted, the first account was set up, an
  administrator created an account, wrote one or changed the own password.
\<close>

abbreviation begun :: "site \<Rightarrow> request \<Rightarrow> account \<Rightarrow> bool \<Rightarrow> admin_db \<Rightarrow> session \<times> admin_db \<Rightarrow> bool" where
  "begun si rq u admin db s \<equiv> (let b = begin_session si rq (ac_id u) (ac_name u) (clean_role (ac_role u)) admin db in
     settled (fst b) (fst s) \<and> core (snd s) = core (snd b))"

inductive outcome :: "site \<Rightarrow> request \<Rightarrow> session \<Rightarrow> admin_db \<Rightarrow> session \<times> admin_db \<Rightarrow> bool" for si rq se db where
  kept: "core (snd s) = core db \<or> core (snd s) = core (boot si rq db) \<Longrightarrow> settled se (fst s) \<Longrightarrow> outcome si rq se db s"
| entered: "get_dashboard_user (strip (form rq ''username'')) (boot si rq db) = Some u \<Longrightarrow> ac_active u \<Longrightarrow>
    si_check si (ac_hash u) (form rq ''password'') \<Longrightarrow> admin \<longrightarrow> clean_role (ac_role u) \<in> {''admin'', ''super_admin''} \<Longrightarrow>
    begun si rq u admin (boot si rq db) s \<Longrightarrow> rq_endpoint rq \<in> {''dashboard_login'', ''admin_login''} \<Longrightarrow> outcome si rq se db s"
| converted: "\<not> emergency_admin_needed (boot si rq db) \<Longrightarrow> rq_endpoint rq = ''admin_login'' \<Longrightarrow>
    strip (form rq ''username'') = get_admin_username si (boot si rq db) \<Longrightarrow>
    get_dashboard_user (strip (form rq ''username'')) (boot si rq db) = None \<Longrightarrow>
    si_check si (get_admin_password_hash si (boot si rq db)) (form rq ''password'') \<Longrightarrow>
    upsert_dashboard_user si rq (strip (form rq ''username'')) (form rq ''password'') ''super_admin'' True (boot si rq db) = Some db1 \<Longrightarrow>
    (case get_dashboard_user (strip (form rq ''username'')) db1 of Some u \<Rightarrow> begun si rq u True db1 s
     | None \<Rightarrow> core (snd s) = core db1 \<and> settled se (fst s)) \<Longrightarrow> outcome si rq se db s"
| founded: "us_users (boot si rq db) = [] \<Longrightarrow> rq_endpoint rq = ''admin_setup'' \<Longrightarrow>
    username = str_or (strip (str_or (form rq ''username'') ''admin'')) ''admin'' \<Longrightarrow>
    set_admin_credentials si rq username (form rq ''password'') (boot si rq db) = Some db1 \<Longrightarrow>
    get_dashboard_user username db1 = Some u \<Longrightarrow> begun si rq u True db1 s \<Longrightarrow> outcome si rq se db s"
| created: "require_admin si rq (se, db) = (None, se, boot si rq db) \<Longrightarrow> rq_post rq \<Longrightarrow> role \<in> set VALID_ROLES \<Longrightarrow>
    role = ''super_admin'' \<longrightarrow> is_super_admin se (boot si rq db) \<Longrightarrow>
    core (snd s) = core (snd (insert_dashboard_user si rq (strip (form rq ''username'')) (form rq ''password'') role (boot si rq db))) \<Longrightarrow>
    settled se (fst s) \<Longrightarrow> outcome si rq se db s"
| written: "require_admin si rq (se, db) = (None, se, boot si rq db) \<Longrightarrow> rq_post rq \<Longrightarrow> rq_endpoint rq = ''admin_user_action'' \<Longrightarrow>
    decide_user_action si rq se (boot si rq db) = Inr (u, w) \<Longrightarrow>
    core (snd s) = core (apply_user_write rq (ac_id u) w (boot si rq db)) \<Longrightarrow> settled se (fst s) \<Longrightarrow> outcome si rq se db s"
| changed: "require_admin si rq (se, db) = (None, se, boot si rq db) \<Longrightarrow> rq_post rq \<Longrightarrow> current_dashboard_user se (boot si rq db) = Some u \<Longrightarrow>
    si_check si (ac_hash u) (form rq ''current_password'') \<Longrightarrow>
    db1 = update_user (ac_id u) (\<lambda>u'. u'\<lparr>ac_hash := si_hash si (rq_salt rq) (form rq ''new_password''), ac_role := clean_role (ac_role u),
      ac_updated := rq_now rq\<rparr>) (boot si rq db) \<Longrightarrow>
    core (snd s) = core db1 \<Longrightarrow> settled (set_session_auth_stamp si (get_dashboard_user_by_id (ac_id u) db1) db1 se) (fst s) \<Longrightarrow>
    outcome si rq se db s"

lemma outcome_if:
  "(c \<Longrightarrow> outcome si rq se db (snd x)) \<Longrightarrow> (\<not> c \<Longrightarrow> outcome si rq se db (snd y)) \<Longrightarrow> outcome si rq se db (snd (if c then x else y))"
  by simp

lemma outcome_option:
  "(o' = None \<Longrightarrow> outcome si rq se db (snd x)) \<Longrightarrow> (\<And>u. o' = Some u \<Longrightarrow> outcome si rq se db (snd (f u))) \<Longrightarrow>
    outcome si rq se db (snd (case o' of None \<Rightarrow> x | Some u \<Rightarrow> f u))"
  by (cases o') simp_all

text \<open>An answer that is logged ends like the same answer without the line in the log.\<close>

lemma outcome_rest:
  assumes "settled se se1"
  shows "outcome si rq se db (snd (r, se1, db))" "outcome si rq se db (snd (r, se1, boot si rq db))"
    "outcome si rq se db (snd (r, log_account_event si rq e u ro d x (se1, db)))"
    "outcome si rq se db (snd (r, log_account_event si rq e u ro d x (se1, boot si rq db)))"
  using assms log_session[of si rq e u ro d x "(se1, db)"] log_session[of si rq e u ro d x "(se1, boot si rq db)"]
  by (auto intro!: kept)

lemma settled_refl: "settled se se"
  by simp

lemma begun_log:
  assumes "s = begin_session si rq (ac_id u) (ac_name u) (clean_role (ac_role u)) admin db"
  shows "begun si rq u admin db (log_account_event si rq e n ro d x s)"
  using log_session[of si rq e n ro d x s] by (auto simp: assms Let_def)

lemma require_admin_session:
  assumes "require_admin si rq (se, db) = (deny, se', db')"
  shows "settled se se'" "db' = boot si rq db" "deny = None \<Longrightarrow> se' = se"
proof -
  define b where "b = boot si rq db"
  obtain ok se1 where a: "admin_allowed si b se = (ok, se1)" by fastforce
  obtain da se2 where c: "dashboard_allowed si b se1 = (da, se2)" by fastforce
  have s: "settled se se1" "settled se1 se2" "ok \<Longrightarrow> se1 = se"
    using admin_allowed_session[of si b se] allowed_session[of si b se1] admin_allowed_True[of si b se] a c by auto
  note d = assms[unfolded require_admin_def Let_def prod.case, folded b_def, unfolded a c prod.case]
  have "(se' = se \<or> (ok \<and> se' = se1) \<or> (\<not> ok \<and> se' = se2 \<and> deny \<noteq> None)) \<and> db' = b"
    using d by (simp only: split: if_split_asm) auto
  then show "settled se se'" "db' = boot si rq db" "deny = None \<Longrightarrow> se' = se" using s by (auto simp: b_def)
qed

lemma outcome_guarded:
  assumes "require_admin si rq (se, db) = (None, se, boot si rq db) \<Longrightarrow> outcome si rq se db (snd (f (se, boot si rq db)))"
  shows "outcome si rq se db (snd (guarded si rq f (se, db)))"
proof (cases "require_admin si rq (se, db)")
  case (fields deny se1 db1)
  note k = require_admin_session[OF fields]
  show ?thesis
  proof (cases deny)
    case None then show ?thesis using k fields assms by (simp add: guarded_def)
  next
    case (Some x) then show ?thesis using k fields by (auto simp: guarded_def intro: kept)
  qed
qed

lemma outcome_dashboard_login: "rq_endpoint rq = ''dashboard_login'' \<Longrightarrow> outcome si rq se db (snd (dashboard_login si rq (se, db)))"
proof -
  assume e: "rq_endpoint rq = ''dashboard_login''"
  obtain ok se1 where a: "dashboard_allowed si db se = (ok, se1)" by fastforce
  have s1: "settled se se1" using allowed_session[of si db se] a by auto
  show ?thesis unfolding dashboard_login_def Let_def prod.case a clean_username_def
  proof (intro outcome_if outcome_option)
    fix u
    assume u: "get_dashboard_user (strip (form rq ''username'')) (boot si rq db) = Some u" "\<not> \<not> ac_active u" "\<not> \<not> si_check si (ac_hash u) (form rq ''password'')"
    show "outcome si rq se db (snd (Redirect_Url (next_url si rq ''index''), log_account_event si rq ''login_success'' (ac_name u) ''dashboard'' (clean_role (ac_role u)) []
        (begin_session si rq (ac_id u) (ac_name u) (clean_role (ac_role u)) (clean_role (ac_role u) \<in> {''admin'', ''super_admin''}) (boot si rq db))))"
      unfolding snd_conv by (rule entered[OF u(1) u(2)[unfolded not_not] u(3)[unfolded not_not] impI begun_log[OF refl]]) (simp_all add: e)
  qed (rule outcome_rest[OF s1])+
qed

lemma valid_role_clean: "role \<in> set VALID_ROLES \<Longrightarrow> clean_role role = role"
proof -
  have "list_all (\<lambda>r. clean_role r = r) VALID_ROLES" by code_simp
  then show "role \<in> set VALID_ROLES \<Longrightarrow> clean_role role = role" by (simp add: list_all_iff)
qed

lemma clean_role_valid: "clean_role x \<in> set VALID_ROLES"
proof -
  have "''viewer'' \<in> set VALID_ROLES" by (simp add: VALID_ROLES_def)
  then show ?thesis by (simp add: clean_role_def Let_def)
qed

lemma clean_super [simp]: "clean_role ''super_admin'' = ''super_admin''" "clean_role (clean_role x) = clean_role x"
  by (rule valid_role_clean, simp add: VALID_ROLES_def) (rule valid_role_clean[OF clean_role_valid])

text \<open>The row an upsert leaves under the name.\<close>

lemma upsert_user:
  assumes "upsert_dashboard_user si rq n p role active db = Some db1" "get_dashboard_user n db1 = Some u"
  shows "ac_name u = strip n" "ac_role u = clean_role role" "ac_active u = active" "ac_hash u = si_hash si (rq_salt rq) p"
proof -
  define new where "new = new_account db (rq_now rq) (strip n) (si_hash si (rq_salt rq) p) (clean_role role) active"
  have "row_of ac_name (ac_name new) (upsert ac_name
      (\<lambda>old new. old\<lparr>ac_hash := ac_hash new, ac_role := ac_role new, ac_active := ac_active new, ac_updated := ac_updated new\<rparr>) new (us_users db)) = Some u"
    using assms by (auto simp: upsert_dashboard_user_def get_dashboard_user_def clean_username_def Let_def new_def new_account_def split: if_splits)
  moreover have "ac_name u = ac_name new \<and> ac_role u = ac_role new \<and> ac_active u = ac_active new \<and> ac_hash u = ac_hash new"
    if "row_of ac_name (ac_name new) (upsert ac_name
      (\<lambda>old new. old\<lparr>ac_hash := ac_hash new, ac_role := ac_role new, ac_active := ac_active new, ac_updated := ac_updated new\<rparr>) new us) = Some u" for us
    using that by (induction us) (auto split: if_splits)
  ultimately show "ac_name u = strip n" "ac_role u = clean_role role" "ac_active u = active" "ac_hash u = si_hash si (rq_salt rq) p"
    by (auto simp: new_def new_account_def)
qed

lemma outcome_admin_login: "rq_endpoint rq = ''admin_login'' \<Longrightarrow> outcome si rq se db (snd (admin_login si rq (se, db)))"
proof -
  assume e: "rq_endpoint rq = ''admin_login''"
  define b where "b = boot si rq db"
  obtain ok se1 where a: "admin_allowed si b se = (ok, se1)" by fastforce
  have s1: "settled se se1" using admin_allowed_session[of si b se] a by auto
  show ?thesis unfolding admin_login_def Let_def prod.case b_def[symmetric] a
  proof (intro outcome_if outcome_option)
    fix u
    assume u: "get_dashboard_user (strip (form rq ''username'')) b = Some u"
      "\<not> (clean_role (ac_role u) \<notin> {''admin'', ''super_admin''} \<or> \<not> ac_active u)" "\<not> \<not> si_check si (ac_hash u) (form rq ''password'')"
    have r: "ac_active u" "True \<longrightarrow> clean_role (ac_role u) \<in> {''admin'', ''super_admin''}" using u(2) by blast+
    show "outcome si rq se db (snd (Redirect_Url (next_url si rq ''admin_page''), log_account_event si rq ''login_success'' (ac_name u) ''admin'' (clean_role (ac_role u)) []
        (begin_session si rq (ac_id u) (ac_name u) (clean_role (ac_role u)) True b)))"
      unfolding snd_conv by (rule entered[OF u(1)[unfolded b_def] r(1) u(3)[unfolded not_not] r(2), folded b_def, OF begun_log[OF refl]]) (simp_all add: e)
  next
    fix db1 u
    assume k: "\<not> emergency_admin_needed b" "get_dashboard_user (strip (form rq ''username'')) b = None"
      "strip (form rq ''username'') = get_admin_username si b \<and> get_admin_password_hash si b \<noteq> [] \<and> si_check si (get_admin_password_hash si b) (form rq ''password'')"
      "upsert_dashboard_user si rq (strip (form rq ''username'')) (form rq ''password'') ''super_admin'' True b = Some db1"
      "get_dashboard_user (strip (form rq ''username'')) db1 = Some u"
    have n: "ac_name u = strip (form rq ''username'')" "clean_role (ac_role u) = ''super_admin''"
      using upsert_user[OF k(4,5)] by (simp_all add: clean_super)
    show "outcome si rq se db (snd (Redirect_Url (next_url si rq ''admin_page''), log_account_event si rq ''login_success'' (strip (form rq ''username'')) ''admin'' ''super_admin''
        ''legacy admin converted'' (begin_session si rq (ac_id u) (strip (form rq ''username'')) ''super_admin'' True db1)))"
      unfolding snd_conv
      by (rule converted[OF k(1)[unfolded b_def] e k(3)[unfolded b_def, THEN conjunct1] k(2)[unfolded b_def]
          k(3)[unfolded b_def, THEN conjunct2, THEN conjunct2] k(4)[unfolded b_def]], unfold k(5) option.case)
        (rule begun_log, simp only: n)
  next
    fix db1
    assume k: "\<not> emergency_admin_needed b" "get_dashboard_user (strip (form rq ''username'')) b = None"
      "strip (form rq ''username'') = get_admin_username si b \<and> get_admin_password_hash si b \<noteq> [] \<and> si_check si (get_admin_password_hash si b) (form rq ''password'')"
      "upsert_dashboard_user si rq (strip (form rq ''username'')) (form rq ''password'') ''super_admin'' True b = Some db1"
      "get_dashboard_user (strip (form rq ''username'')) db1 = None"
    show "outcome si rq se db (snd (Page ''Administrator access'' ''Invalid username or password.'',
        log_account_event si rq ''login_failed'' (strip (form rq ''username'')) ''admin'' [] ''unknown admin user'' (se1, db1)))"
      unfolding snd_conv
      by (rule converted[OF k(1)[unfolded b_def] e k(3)[unfolded b_def, THEN conjunct1] k(2)[unfolded b_def]
          k(3)[unfolded b_def, THEN conjunct2, THEN conjunct2] k(4)[unfolded b_def]], unfold k(5) option.case)
        (use s1 log_session[of si rq "''login_failed''" "strip (form rq ''username'')" "''admin''" "[]" "''unknown admin user''" "(se1, db1)"] in auto)
  qed (unfold b_def, (rule outcome_rest[OF s1] outcome_rest[OF settled_refl])+)
qed

lemma upsert_found:
  assumes "upsert_dashboard_user si rq n p role active db = Some db1"
  shows "\<exists>u. get_dashboard_user n db1 = Some u"
proof -
  have "row_of ac_name (ac_name new) (upsert ac_name
      (\<lambda>old new. old\<lparr>ac_hash := ac_hash new, ac_role := ac_role new, ac_active := ac_active new, ac_updated := ac_updated new\<rparr>) new us) \<noteq> None"
    for us and new :: account by (induction us) auto
  from this[of "new_account db (rq_now rq) (strip n) (si_hash si (rq_salt rq) p) (clean_role role) active"]
  show ?thesis using assms
    by (auto simp: upsert_dashboard_user_def get_dashboard_user_def clean_username_def Let_def new_account_def split: if_splits)
qed

lemma strip_or: "str_or (strip (str_or n ''admin'')) ''admin'' \<noteq> []" "strip (str_or (strip (str_or n ''admin'')) ''admin'') = str_or (strip (str_or n ''admin'')) ''admin''"
  "m = str_or (strip (str_or n ''admin'')) ''admin'' \<Longrightarrow> str_or (strip (str_or m ''admin'')) ''admin'' = m"
proof -
  have a: "strip ''admin'' = ''admin''" by code_simp
  show "str_or (strip (str_or n ''admin'')) ''admin'' \<noteq> []" by (simp add: str_or_def)
  show b: "strip (str_or (strip (str_or n ''admin'')) ''admin'') = str_or (strip (str_or n ''admin'')) ''admin''"
    by (simp add: str_or_def a)
  show "m = str_or (strip (str_or n ''admin'')) ''admin'' \<Longrightarrow> str_or (strip (str_or m ''admin'')) ''admin'' = m"
    using b by (simp add: str_or_def split: if_splits)
qed

lemma outcome_admin_setup: "rq_endpoint rq = ''admin_setup'' \<Longrightarrow> outcome si rq se db (snd (admin_setup si rq (se, db)))"
proof -
  assume e: "rq_endpoint rq = ''admin_setup''"
  define b where "b = boot si rq db"
  define name where "name = str_or (strip (str_or (form rq ''username'') ''admin'')) ''admin''"
  obtain ok se1 where a: "admin_allowed si b se = (ok, se1)" by fastforce
  have s1: "settled se se1" using admin_allowed_session[of si b se] a by auto
  show ?thesis unfolding admin_setup_def Let_def prod.case b_def[symmetric] a name_def[symmetric]
  proof (intro outcome_if outcome_option)
    fix db1
    assume k: "\<not> us_users b \<noteq> []" "set_admin_credentials si rq name (form rq ''password'') b = Some db1"
    have up: "upsert_dashboard_user si rq name (form rq ''password'') ''super_admin'' True
        (set_admin_setting ''admin_password_hash'' (si_hash si (rq_salt rq) (form rq ''password'')) (set_admin_setting ''admin_username'' name b)) = Some db1"
      using k(2) strip_or(3)[OF name_def] by (simp only: set_admin_credentials_def Let_def)
    obtain u where u: "get_dashboard_user name db1 = Some u"
      using upsert_found[OF up] strip_or[of "form rq ''username''", folded name_def] by auto
    have n: "ac_name u = name" "clean_role (ac_role u) = ''super_admin''" using upsert_user[OF up u] strip_or(2) by (simp_all add: name_def)
    show "outcome si rq se db (snd (Redirect_To ''admin_page'', log_account_event si rq ''setup_admin'' name ''admin'' ''super_admin'' []
        (case get_dashboard_user name db1 of None \<Rightarrow> (login_session rq 0 name ''super_admin'' True, db1)
          | Some u \<Rightarrow> begin_session si rq (ac_id u) name ''super_admin'' True db1)))"
      unfolding snd_conv u option.case
      by (rule founded[OF k(1)[unfolded not_not b_def] e name_def k(2)[unfolded b_def] u], rule begun_log, simp only: n)
  qed (unfold b_def, (rule outcome_rest[OF s1] outcome_rest[OF settled_refl])+)
qed

lemma outcome_create: "rq_post rq \<Longrightarrow> outcome si rq se db (snd (admin_create_user si rq (se, db)))"
  unfolding admin_create_user_def clean_username_def Let_def
proof (rule outcome_guarded, unfold prod.case, intro outcome_if outcome_option)
  fix role
  let ?i = "insert_dashboard_user si rq (strip (form rq ''username'')) (form rq ''password'') role (boot si rq db)"
  assume k: "rq_post rq" "require_admin si rq (se, db) = (None, se, boot si rq db)" "requested_role (form rq ''role'') = Some role"
    "\<not> (role = ''super_admin'' \<and> \<not> is_super_admin se (boot si rq db))"
  have r: "role \<in> set VALID_ROLES" using k(3) by (simp add: requested_role_def Let_def split: if_splits)
  have q: "role = ''super_admin'' \<longrightarrow> is_super_admin se (boot si rq db)" using k(4) by blast
  obtain ins db1 where i: "?i = (ins, db1)" by fastforce
  note c = created[OF k(2,1) r q]
  show "outcome si rq se db (snd (case ?i of (inserted, db1) \<Rightarrow>
      if \<not> inserted then (Reply 409 ''Username already exists'', se, db1)
      else (Redirect_To ''admin_users_page'', log_account_event si rq ''user_created'' (strip (form rq ''username'')) ''admin'' role
        (''created_by='' @ str_or (se_admin_user se) (dashboard_username se) @ '';created_by_role='' @ current_role se db1) (se, db1))))"
    unfolding i prod.case
  proof (rule outcome_if, unfold snd_conv)
    show "outcome si rq se db (se, db1)" by (rule c) (simp_all add: i)
    show "outcome si rq se db (log_account_event si rq ''user_created'' (strip (form rq ''username'')) ''admin'' role
        (''created_by='' @ str_or (se_admin_user se) (dashboard_username se) @ '';created_by_role='' @ current_role se db1) (se, db1))"
      by (rule c) (use log_session[of si rq _ _ _ _ _ "(se, db1)"] in \<open>simp_all add: i\<close>)
  qed
qed (rule outcome_rest[OF settled_refl])+

lemma outcome_logout:
  "outcome si rq se db (snd (dashboard_logout si rq (se, db)))" "outcome si rq se db (snd (admin_logout si rq (se, db)))"
  by (auto simp: dashboard_logout_def admin_logout_def Let_def intro!: kept)

lemma outcome_user_action: "rq_post rq \<Longrightarrow> rq_endpoint rq = ''admin_user_action'' \<Longrightarrow> outcome si rq se db (snd (admin_user_action si rq (se, db)))"
  unfolding admin_user_action_def
proof (rule outcome_guarded, unfold prod.case)
  let ?b = "boot si rq db"
  assume k: "rq_post rq" "rq_endpoint rq = ''admin_user_action''" "require_admin si rq (se, db) = (None, se, ?b)"
  show "outcome si rq se db (snd (case decide_user_action si rq se ?b of Inl reply \<Rightarrow> (reply, se, ?b)
    | Inr (user, w) \<Rightarrow> (let (event, detail, role) = write_event user w in
         (Redirect_To ''admin_users_page'',
          log_account_event si rq event (ac_name user) ''admin'' role
            (''changed_by='' @ str_or (se_admin_user se) (dashboard_username se) @ '';changed_by_role='' @ current_role se ?b @ detail)
            (se, apply_user_write rq (ac_id user) w ?b)))))"
  proof (cases "decide_user_action si rq se ?b")
    case (Inl reply)
    then show ?thesis by (simp only: sum.case) (rule outcome_rest[OF settled_refl])
  next
    case (Inr p)
    obtain u w where p: "p = (u, w)" by fastforce
    obtain e d ro where w: "write_event u w = (e, d, ro)" by (metis prod_cases3)
    show ?thesis unfolding Inr p sum.case prod.case w Let_def snd_conv
    proof (rule written[OF k(3,1,2) Inr[unfolded p]])
      fix x y
      show "core (snd (log_account_event si rq e x ''admin'' ro y (se, apply_user_write rq (ac_id u) w ?b))) = core (apply_user_write rq (ac_id u) w ?b)"
        by simp
      show "settled se (fst (log_account_event si rq e x ''admin'' ro y (se, apply_user_write rq (ac_id u) w ?b)))"
        using log_session[of si rq e x "''admin''" ro y "(se, apply_user_write rq (ac_id u) w ?b)"] by simp
    qed
  qed
qed

lemma outcome_change_password: "outcome si rq se db (snd (admin_change_password si rq (se, db)))"
  unfolding admin_change_password_def Let_def
proof (rule outcome_guarded, unfold prod.case, intro outcome_if outcome_option)
  fix u :: account
  let ?b = "boot si rq db"
  let ?db1 = "update_user (ac_id u) (\<lambda>u'. u'\<lparr>ac_hash := si_hash si (rq_salt rq) (form rq ''new_password''), ac_role := clean_role (ac_role u),
      ac_updated := rq_now rq\<rparr>) ?b"
  let ?se1 = "set_session_auth_stamp si (get_dashboard_user_by_id (ac_id u) ?db1) ?db1 se"
  assume k: "require_admin si rq (se, db) = (None, se, ?b)" "current_dashboard_user se ?b = Some u" "\<not> \<not> rq_post rq"
    "\<not> \<not> si_check si (ac_hash u) (form rq ''current_password'')"
  show "outcome si rq se db (snd (Page ''Change Admin Password'' [], log_account_event si rq ''password_changed'' (ac_name u) ''admin'' (clean_role (ac_role u)) [] (?se1, ?db1)))"
    unfolding snd_conv
    by (rule changed[OF k(1) k(3)[unfolded not_not] k(2) k(4)[unfolded not_not] refl])
      (use log_session[of si rq _ _ _ _ _ "(?se1, ?db1)"] in \<open>simp_all only: core_log snd_conv fst_conv\<close>)
qed (rule outcome_rest[OF settled_refl])+

theorem outcome_view: "outcome si rq se db (snd (view si rq (se, db)))"
  unfolding view_def Let_def
  by (intro outcome_if outcome_dashboard_login outcome_admin_login outcome_admin_setup outcome_create outcome_user_action
      outcome_change_password outcome_guarded outcome_logout outcome_rest settled_refl; assumption?)

theorem outcome_handle: "outcome si rq se db (snd (handle si rq (se, db)))"
proof -
  obtain deny se1 where fields: "enforce_dashboard_login si rq db se = (deny, se1)" by fastforce
  have s: "settled se se1" "deny = None \<Longrightarrow> se1 = se"
    using fields allowed_session[of si db se] allowed_True[of si db se]
    by (auto simp: enforce_dashboard_login_def require_dashboard_def Let_def case_prod_beta prod_eq_iff split: if_splits)
  show ?thesis
  proof (cases deny)
    case None
    then show ?thesis using outcome_view s(2) fields by (simp add: handle_def)
  next
    case (Some d)
    show ?thesis by (rule kept) (use Some fields s(1) in \<open>simp_all add: handle_def\<close>)
  qed
qed


section \<open>The invariant of the accounts\<close>

definition accounts_ok :: "admin_db \<Rightarrow> bool" where
  "accounts_ok db \<longleftrightarrow> distinct (map ac_id (us_users db)) \<and> distinct (map ac_name (us_users db)) \<and> 1 \<le> us_next db
     \<and> (\<forall>u \<in> set (us_users db). 1 \<le> ac_id u \<and> ac_id u < us_next db \<and> ac_role u \<in> set VALID_ROLES)"

definition super :: "account \<Rightarrow> bool" where
  "super u \<longleftrightarrow> ac_role u = ''super_admin'' \<and> ac_active u"

definition has_super :: "admin_db \<Rightarrow> bool" where
  "has_super db \<longleftrightarrow> (\<exists>u \<in> set (us_users db). super u)"

text \<open>Rows keep their name, and an id is never used again.\<close>

definition extends :: "admin_db \<Rightarrow> admin_db \<Rightarrow> bool" where
  "extends db db' \<longleftrightarrow> us_next db \<le> us_next db'
     \<and> (\<forall>v \<in> set (us_users db'). us_next db \<le> ac_id v \<or> (\<exists>u \<in> set (us_users db). ac_id u = ac_id v \<and> ac_name u = ac_name v))"

definition grows :: "admin_db \<Rightarrow> admin_db \<Rightarrow> bool" where
  "grows db db' \<longleftrightarrow> accounts_ok db' \<and> extends db db'"

lemma accounts_extend_refl [simp]: "extends db db"
  by (auto simp: extends_def)

lemma accounts_extend_trans: "extends a b \<Longrightarrow> extends b c \<Longrightarrow> extends a c"
  unfolding extends_def by (smt (verit, best))

lemma grows_trans: "grows a b \<Longrightarrow> grows b c \<Longrightarrow> grows a c"
  by (auto simp: grows_def intro: accounts_extend_trans)

lemma core_simps [simp]: "us_users (core db) = us_users db" "us_next (core db) = us_next db" "us_settings (core db) = us_settings db"
  by (simp_all add: core_def)

lemma core_cong:
  assumes "core a = core b"
  shows "accounts_ok a = accounts_ok b" "has_super a = has_super b" "extends c a = extends c b" "us_users a = us_users b" "us_next a = us_next b"
    "us_settings a = us_settings b"
  using assms by (simp_all add: core_eq accounts_ok_def has_super_def extends_def)

lemma emergency_iff: "emergency_admin_needed db \<longleftrightarrow> \<not> has_super db"
  by (auto simp: emergency_admin_needed_def active_super_admin_count_def has_super_def super_def filter_empty_conv)

lemma count_without_iff: "active_super_admin_count (Some i) db = 0 \<longleftrightarrow> (\<forall>u \<in> set (us_users db). super u \<longrightarrow> ac_id u = i)"
  by (auto simp: active_super_admin_count_def super_def filter_empty_conv)

lemma role_clean: "accounts_ok db \<Longrightarrow> u \<in> set (us_users db) \<Longrightarrow> clean_role (ac_role u) = ac_role u"
  by (simp add: accounts_ok_def valid_role_clean)

text \<open>The writes of the table.\<close>

lemma update_user_simps [simp]:
  "us_next (update_user i f db) = us_next db" "us_settings (update_user i f db) = us_settings db"
  "us_users (update_user i f db) = map (\<lambda>u. if ac_id u = i then f u else u) (us_users db)"
  by (simp_all add: update_user_def update_where_def)

lemma grows_update:
  assumes "accounts_ok db" "\<And>u. ac_id (f u) = ac_id u \<and> ac_name (f u) = ac_name u"
    "\<And>u. u \<in> set (us_users db) \<Longrightarrow> ac_id u = i \<Longrightarrow> ac_role (f u) \<in> set VALID_ROLES"
  shows "grows db (update_user i f db)"
proof -
  have m: "map g (map (\<lambda>u. if ac_id u = i then f u else u) us) = map g us" if "\<And>u. g (f u) = g u" for g :: "account \<Rightarrow> 'a" and us
    using that by simp
  have "accounts_ok (update_user i f db)"
    unfolding accounts_ok_def update_user_simps m[of ac_id, OF conjunct1[OF assms(2)]] m[of ac_name, OF conjunct2[OF assms(2)]]
    using assms by (auto simp: accounts_ok_def)
  moreover have "extends db (update_user i f db)" using assms(2) by (auto simp: extends_def)
  ultimately show ?thesis by (simp add: grows_def)
qed

lemma grows_new:
  assumes "accounts_ok db" "role \<in> set VALID_ROLES" "name \<notin> ac_name ` set (us_users db)"
  shows "grows db (db\<lparr>us_users := us_users db @ [new_account db t name hash role active], us_next := us_next db + 1\<rparr>)"
  using assms by (force simp: grows_def accounts_ok_def extends_def new_account_def)

lemma grows_skip: "accounts_ok db \<Longrightarrow> grows db (db\<lparr>us_next := us_next db + 1\<rparr>)"
  by (force simp: grows_def accounts_ok_def extends_def)

lemma grows_delete: "accounts_ok db \<Longrightarrow> grows db (db\<lparr>us_users := filter P (us_users db)\<rparr>)"
  by (auto simp: grows_def accounts_ok_def extends_def distinct_map_filter)

lemma grows_settings: "accounts_ok db \<Longrightarrow> grows db (db\<lparr>us_settings := t\<rparr>)"
  by (auto simp: grows_def accounts_ok_def extends_def)

lemma grows_insert:
  assumes "accounts_ok db" "role \<in> set VALID_ROLES"
  shows "grows db (snd (insert_dashboard_user si rq n p role db))"
proof (cases "row_of ac_name n (us_users db)")
  case None
  then have "n \<notin> ac_name ` set (us_users db)" by (simp add: row_of_None_iff)
  from grows_new[OF assms this] show ?thesis
    using None by (simp add: insert_dashboard_user_def insert_or_ignore_def new_account_def)
next
  case (Some u)
  then show ?thesis using grows_skip[OF assms(1)] by (simp add: insert_dashboard_user_def insert_or_ignore_def new_account_def)
qed

lemma grows_boot: "accounts_ok db \<Longrightarrow> grows db (boot si rq db)"
  using grows_new[of db "''super_admin''" "get_admin_username si db"]
  by (auto simp: bootstrap_dashboard_admin_from_settings_def grows_def insert_or_ignore_def VALID_ROLES_def)

lemma upsert_fresh: "key new \<notin> key ` set rows \<Longrightarrow> upsert key m new rows = rows @ [new]"
  by (induction rows) auto

lemma grows_upsert_new:
  assumes "accounts_ok db" "get_dashboard_user n db = None" "upsert_dashboard_user si rq n p role active db = Some db1"
  shows "grows db db1"
proof -
  have n: "strip n \<noteq> []" "strip n \<notin> ac_name ` set (us_users db)"
    using assms(2,3) by (auto simp: upsert_dashboard_user_def get_dashboard_user_def clean_username_def Let_def row_of_None_iff split: if_splits)
  then show ?thesis
    using assms(3) grows_new[OF assms(1) clean_role_valid n(2)] upsert_fresh[of ac_name _ "us_users db"]
    by (auto simp: upsert_dashboard_user_def clean_username_def Let_def new_account_def)
qed


section \<open>Every request keeps the invariant\<close>

lemma begin_session_db: "snd (begin_session si rq i n r a db) = update_dashboard_user_login rq i db"
  by (simp add: begin_session_def Let_def)

lemma grows_login: "accounts_ok db \<Longrightarrow> grows db (update_dashboard_user_login rq i db)"
  unfolding update_dashboard_user_login_def by (rule grows_update) (auto simp: accounts_ok_def)

lemma has_super_update:
  assumes "has_super db" "\<And>u. u \<in> set (us_users db) \<Longrightarrow> ac_id u = i \<Longrightarrow> super u \<Longrightarrow> super (f u) \<or> (\<exists>v \<in> set (us_users db). super v \<and> ac_id v \<noteq> i)"
  shows "has_super (update_user i f db)"
proof -
  obtain u where u: "u \<in> set (us_users db)" "super u" using assms(1) by (auto simp: has_super_def)
  have "\<exists>v \<in> set (us_users db). super (if ac_id v = i then f v else v)"
  proof (cases "ac_id u = i")
    case True
    from assms(2)[OF u(1) True u(2)] consider "super (f u)" | v where "v \<in> set (us_users db)" "super v" "ac_id v \<noteq> i" by blast
    then show ?thesis using u True by cases auto
  next
    case False then show ?thesis using u by auto
  qed
  then show ?thesis unfolding has_super_def update_user_simps set_map by blast
qed

lemma has_super_login [simp]: "has_super (update_dashboard_user_login rq i db) = has_super db"
proof -
  have "super (if ac_id u = i then u\<lparr>ac_login := Some (rq_now rq), ac_updated := rq_now rq\<rparr> else u) = super u" for u
    by (simp add: super_def)
  then show ?thesis unfolding has_super_def update_dashboard_user_login_def update_user_simps set_map bex_simps by simp
qed

lemma boot_super: "us_users db = [] \<or> has_super db \<Longrightarrow> us_users (boot si rq db) = [] \<or> has_super (boot si rq db)"
  by (auto simp: bootstrap_dashboard_admin_from_settings_def has_super_def super_def insert_or_ignore_def new_account_def)

lemma boot_id: "us_users db \<noteq> [] \<Longrightarrow> boot si rq db = db"
  by (simp add: bootstrap_dashboard_admin_from_settings_def)

lemma get_user_mem: "get_dashboard_user n db = Some u \<Longrightarrow> u \<in> set (us_users db) \<and> ac_name u = strip n \<and> strip n \<noteq> []"
  by (auto simp: get_dashboard_user_def clean_username_def Let_def dest: row_of_key split: if_splits)

lemma get_id_mem: "get_dashboard_user_by_id i db = Some u \<Longrightarrow> u \<in> set (us_users db) \<and> ac_id u = i"
  by (auto simp: get_dashboard_user_by_id_def dest: row_of_key)

lemma require_admin_None:
  assumes "require_admin si rq (se, db) = (None, se, boot si rq db)"
  shows "has_super (boot si rq db)" "allowed si (boot si rq db) se"
    "\<exists>u. current_dashboard_user se (boot si rq db) = Some u \<and> ac_active u \<and> clean_role (ac_role u) \<in> {''admin'', ''super_admin''}"
    "rq_post rq \<Longrightarrow> dget (rq_form rq) ''csrf_token'' = se_csrf se"
    "current_role se (boot si rq db) = ''admin'' \<Longrightarrow> rq_endpoint rq \<in> set ADMIN_ALLOWED_ENDPOINTS"
proof -
  define b where "b = boot si rq db"
  obtain ok se1 where a: "admin_allowed si b se = (ok, se1)" by fastforce
  have d: "\<not> emergency_admin_needed b \<and> ok \<and> (current_role se1 b = ''admin'' \<longrightarrow> rq_endpoint rq \<in> set ADMIN_ALLOWED_ENDPOINTS)
      \<and> (rq_post rq \<longrightarrow> dget (rq_form rq) ''csrf_token'' = se_csrf se1)"
    using assms[unfolded require_admin_def Let_def prod.case, folded b_def, unfolded a prod.case]
    by (simp only: split: if_split_asm) (auto split: prod.splits if_splits)
  then have s: "se1 = se" "allowed si b se" using admin_allowed_True a by auto
  have "allowed si b se \<Longrightarrow> dashboard_allowed si b se = (True, se)" using allowed_True by (metis allowed_def prod.collapse)
  then have "\<exists>u. current_dashboard_user se b = Some u \<and> ac_active u \<and> clean_role (ac_role u) \<in> {''admin'', ''super_admin''}"
    using a d s by (auto simp: admin_allowed_def split: option.splits)
  then show "has_super (boot si rq db)" "allowed si (boot si rq db) se"
    "\<exists>u. current_dashboard_user se (boot si rq db) = Some u \<and> ac_active u \<and> clean_role (ac_role u) \<in> {''admin'', ''super_admin''}"
    "rq_post rq \<Longrightarrow> dget (rq_form rq) ''csrf_token'' = se_csrf se"
    "current_role se (boot si rq db) = ''admin'' \<Longrightarrow> rq_endpoint rq \<in> set ADMIN_ALLOWED_ENDPOINTS"
    using d s emergency_iff by (auto simp: b_def)
qed

text \<open>What the checks of a write have ensured.\<close>

definition checked :: "session \<Rightarrow> admin_db \<Rightarrow> account \<Rightarrow> user_write \<Rightarrow> bool" where
  "checked se db u w \<longleftrightarrow> get_dashboard_user_by_id (ac_id u) db = Some u \<and> can_manage_user se db (ac_role u)
     \<and> (case w of Set_Status active \<Rightarrow> active \<or> \<not> is_last_enabled_admin (ac_id u) db
        | Delete_User \<Rightarrow> \<not> is_last_enabled_admin (ac_id u) db
        | Reset_Password _ \<Rightarrow> True
        | Set_Role r \<Rightarrow> r \<in> set VALID_ROLES \<and> (r = ''super_admin'' \<longrightarrow> is_super_admin se db)
            \<and> (clean_role (ac_role u) = ''super_admin'' \<and> r \<noteq> ''super_admin'' \<and> ac_active u \<longrightarrow> active_super_admin_count (Some (ac_id u)) db \<noteq> 0))"

definition decided :: "session \<Rightarrow> admin_db \<Rightarrow> response + account \<times> user_write \<Rightarrow> bool" where
  "decided se db x \<longleftrightarrow> (\<forall>u w. x = Inr (u, w) \<longrightarrow> checked se db u w)"

lemma decided_if: "(c \<Longrightarrow> decided se db x) \<Longrightarrow> (\<not> c \<Longrightarrow> decided se db y) \<Longrightarrow> decided se db (if c then x else y)"
  by simp

lemma decided_option:
  "(o' = None \<Longrightarrow> decided se db x) \<Longrightarrow> (\<And>u. o' = Some u \<Longrightarrow> decided se db (f u)) \<Longrightarrow> decided se db (case o' of None \<Rightarrow> x | Some u \<Rightarrow> f u)"
  by (cases o') simp_all

lemma decided_Inl: "decided se db (Inl r)"
  by (simp add: decided_def)

lemma decided_Inr: "checked se db u w \<Longrightarrow> decided se db (Inr (u, w))"
  by (simp add: decided_def)

lemma requested_role_valid: "requested_role x = Some r \<Longrightarrow> r \<in> set VALID_ROLES"
  by (simp add: requested_role_def Let_def split: if_splits)

lemma decide_checked: "decided se db (decide_user_action si rq se db)"
  unfolding decide_user_action_def Let_def
proof (intro decided_if decided_option decided_Inl decided_Inr)
  fix u :: account
  define i where "i = safe_int (PStr (form rq ''user_id'')) 0"
  define action where "action = lower (strip (form rq ''action''))"
  assume "get_dashboard_user_by_id (safe_int (PStr (form rq ''user_id'')) 0) db = Some u" "\<not> \<not> can_manage_user se db (clean_role (ac_role u))"
  then have u: "get_dashboard_user_by_id i db = Some u" "ac_id u = i" "can_manage_user se db (ac_role u)"
    using get_id_mem[of i db u] by (auto simp: i_def can_manage_user_def)
  { assume "\<not> (lower (strip (form rq ''action'')) \<in> {''disable'', ''delete''} \<and> is_last_enabled_admin (safe_int (PStr (form rq ''user_id'')) 0) db)"
    then have l: "action \<in> {''disable'', ''delete''} \<Longrightarrow> \<not> is_last_enabled_admin i db" by (auto simp: action_def i_def)
    { assume "lower (strip (form rq ''action'')) = ''disable''"
      then show "checked se db u (Set_Status False)" using u l by (simp add: checked_def action_def) }
    { assume "lower (strip (form rq ''action'')) = ''enable''"
      show "checked se db u (Set_Status True)" using u by (simp add: checked_def) }
    { assume "lower (strip (form rq ''action'')) = ''delete''"
      then show "checked se db u Delete_User" using u l by (simp add: checked_def action_def) } }
  { show "checked se db u (Reset_Password (si_hash si (rq_salt rq) (form rq ''new_password'')))" using u by (simp add: checked_def) }
  fix role
  assume "requested_role (form rq ''role'') = Some role" "\<not> (role = ''super_admin'' \<and> \<not> is_super_admin se db)"
    "\<not> (clean_role (ac_role u) = ''super_admin'' \<and> role \<noteq> ''super_admin'' \<and> ac_active u \<and>
        active_super_admin_count (Some (safe_int (PStr (form rq ''user_id'')) 0)) db = 0)"
  then show "checked se db u (Set_Role role)"
    using u requested_role_valid by (auto simp: checked_def i_def)
qed

lemmas decide_write = decide_checked[unfolded decided_def, rule_format]

lemma grows_write:
  assumes "accounts_ok db" "decide_user_action si rq se db = Inr (u, w)"
  shows "grows db (apply_user_write rq (ac_id u) w db)"
  using assms(1) decide_write[OF assms(2)]
  by (cases w) (auto simp: apply_user_write_def checked_def accounts_ok_def intro!: grows_update grows_delete)

lemma super_write:
  assumes ok: "accounts_ok db" and sup: "has_super db" and d: "decide_user_action si rq se db = Inr (u, w)"
  shows "has_super (apply_user_write rq (ac_id u) w db)"
proof -
  note c = decide_write[OF d, unfolded checked_def]
  have u: "u \<in> set (us_users db)" using get_id_mem c by blast
  have one: "v = u" if "v \<in> set (us_users db)" "ac_id v = ac_id u" for v
    using ok u that by (metis accounts_ok_def distinct_map inj_onD)
  have other: "\<exists>v \<in> set (us_users db). super v \<and> ac_id v \<noteq> ac_id u" if "super u" "\<not> is_last_enabled_admin (ac_id u) db"
    using that c by (auto simp: is_last_enabled_admin_def super_def count_without_iff)
  show ?thesis
  proof (cases w)
    case (Set_Status active)
    show ?thesis unfolding Set_Status apply_user_write_def user_write.case
      by (rule has_super_update[OF sup]) (use c other one Set_Status in \<open>auto simp: super_def\<close>)
  next
    case Delete_User
    obtain v where v: "v \<in> set (us_users db)" "super v" using sup by (auto simp: has_super_def)
    show ?thesis using c other one v Delete_User by (cases "ac_id v = ac_id u") (auto simp: apply_user_write_def has_super_def)
  next
    case (Reset_Password h)
    show ?thesis unfolding Reset_Password apply_user_write_def user_write.case
      by (rule has_super_update[OF sup]) (simp add: super_def)
  next
    case (Set_Role r)
    have "super u \<Longrightarrow> r \<noteq> ''super_admin'' \<Longrightarrow> \<exists>v \<in> set (us_users db). super v \<and> ac_id v \<noteq> ac_id u"
      using c Set_Role role_clean[OF ok u] by (auto simp: super_def count_without_iff)
    then show ?thesis unfolding Set_Role apply_user_write_def user_write.case
      by (intro has_super_update[OF sup]) (use one in \<open>auto simp: super_def\<close>)
  qed
qed


lemma set_admin_setting_simps [simp]: "us_users (set_admin_setting k v db) = us_users db" "us_next (set_admin_setting k v db) = us_next db"
  "accounts_ok (set_admin_setting k v db) = accounts_ok db"
  by (simp_all add: set_admin_setting_def accounts_ok_def)

lemma get_user_settings [simp]: "get_dashboard_user n (set_admin_setting k v db) = get_dashboard_user n db"
  by (simp add: get_dashboard_user_def Let_def)

lemma founded_upsert:
  assumes "set_admin_credentials si rq username p db = Some db1" "username = str_or (strip (str_or n ''admin'')) ''admin''"
  shows "\<exists>db0. us_users db0 = us_users db \<and> us_next db0 = us_next db \<and> upsert_dashboard_user si rq username p ''super_admin'' True db0 = Some db1"
proof -
  have "upsert_dashboard_user si rq username p ''super_admin'' True
      (set_admin_setting ''admin_password_hash'' (si_hash si (rq_salt rq) p) (set_admin_setting ''admin_username'' username db)) = Some db1"
    using assms(1) strip_or(3)[OF assms(2)] by (simp only: set_admin_credentials_def Let_def)
  then show ?thesis
    by (intro exI[of _ "set_admin_setting ''admin_password_hash'' (si_hash si (rq_salt rq) p) (set_admin_setting ''admin_username'' username db)"]) simp
qed

lemma same_users_ok:
  assumes "us_users a = us_users b" "us_next a = us_next b"
  shows "accounts_ok a = accounts_ok b" "grows a c = grows b c" "get_dashboard_user n a = get_dashboard_user n b" "has_super a = has_super b"
  using assms by (simp_all add: accounts_ok_def grows_def extends_def get_dashboard_user_def has_super_def Let_def)

lemma grows_core: "core a = core b \<Longrightarrow> grows c b \<Longrightarrow> grows c a"
  unfolding grows_def by (blast dest: core_cong(1,3)[THEN iffD2])

lemma begun_db: "begun si rq u a db s \<Longrightarrow> core (snd s) = core (update_dashboard_user_login rq (ac_id u) db)"
  by (simp add: Let_def begin_session_db)

lemma outcome_grows:
  assumes ok: "accounts_ok db" and o: "outcome si rq se db s"
  shows "grows db (snd s)"
proof -
  have b: "grows db (boot si rq db)" "accounts_ok (boot si rq db)" using grows_boot[OF ok] by (auto simp: grows_def)
  have via: "grows db x" if "grows (boot si rq db) x" for x using b(1) that by (rule grows_trans)
  have login: "grows c (update_dashboard_user_login rq i x)" if "grows c x" for c x i
    using that grows_login[of x rq i] grows_trans by (auto simp: grows_def)
  from o show ?thesis
  proof cases
    case kept
    have "grows db db" using ok by (simp add: grows_def)
    then show ?thesis using kept(1) b(1) grows_core by blast
  next
    case (entered u admin)
    show ?thesis by (rule grows_core[OF begun_db[OF entered(5)]]) (rule login[OF b(1)])
  next
    case (converted db1)
    have g: "grows db db1" by (rule via[OF grows_upsert_new[OF b(2) converted(4,6)]])
    show ?thesis
    proof (cases "get_dashboard_user (strip (form rq ''username'')) db1")
      case None then show ?thesis using converted(7) grows_core[OF _ g, of "snd s"] by simp
    next
      case (Some u)
      show ?thesis by (rule grows_core[OF begun_db[OF converted(7)[unfolded Some option.case]]]) (rule login[OF g])
    qed
  next
    case (founded username db1 u)
    from founded_upsert[OF founded(4,3)] obtain db0 where
      z: "us_users db0 = us_users (boot si rq db)" "us_next db0 = us_next (boot si rq db)"
        "upsert_dashboard_user si rq username (form rq ''password'') ''super_admin'' True db0 = Some db1" by blast
    have n: "get_dashboard_user username db0 = None" using founded(1) z(1) by (simp add: get_dashboard_user_def Let_def)
    have "grows (boot si rq db) db1"
      using grows_upsert_new[OF _ n z(3)] same_users_ok(1,2)[OF z(1,2)] b(2) by simp
    then show ?thesis by (intro grows_core[OF begun_db[OF founded(6)]] login via)
  next
    case (created role)
    show ?thesis by (rule grows_core[OF created(5)]) (rule via[OF grows_insert[OF b(2) created(3)]])
  next
    case (written u w)
    show ?thesis by (rule grows_core[OF written(5)]) (rule via[OF grows_write[OF b(2) written(4)]])
  next
    case (changed u db1)
    have "grows (boot si rq db) db1" unfolding changed(5)
      by (rule grows_update[OF b(2)]) (simp_all add: clean_role_valid)
    then show ?thesis by (intro grows_core[OF changed(6)] via)
  qed
qed

lemma upsert_super:
  assumes "upsert_dashboard_user si rq n p ''super_admin'' True db = Some db1"
  shows "has_super db1"
proof -
  obtain u where u: "get_dashboard_user n db1 = Some u" using upsert_found[OF assms] by blast
  then show ?thesis using upsert_user[OF assms u] get_user_mem[OF u] by (auto simp: has_super_def super_def)
qed

lemma has_super_core: "core a = core b \<Longrightarrow> has_super a = has_super b"
  by (rule core_cong)

lemma outcome_alive:
  assumes ok: "accounts_ok db" and a: "us_users db = [] \<or> has_super db" and o: "outcome si rq se db s"
  shows "us_users (snd s) = [] \<or> has_super (snd s)"
proof -
  have b: "accounts_ok (boot si rq db)" using grows_boot[OF ok] by (auto simp: grows_def)
  note bs = boot_super[OF a, of si rq]
  from o show ?thesis
  proof cases
    case kept
    then have "us_users (snd s) = us_users db \<or> us_users (snd s) = us_users (boot si rq db)" using core_cong(4) by blast
    then show ?thesis using a bs by (auto simp: has_super_def)
  next
    case (entered u admin)
    have "us_users (boot si rq db) \<noteq> []" using entered(1) by (auto simp: get_dashboard_user_def Let_def split: if_splits)
    then show ?thesis using bs has_super_core[OF begun_db[OF entered(5)]] by simp
  next
    case (converted db1)
    note s = upsert_super[OF converted(6)]
    have "has_super (snd s)"
    proof (cases "get_dashboard_user (strip (form rq ''username'')) db1")
      case None then show ?thesis using converted(7) s has_super_core[of "snd s" db1] by simp
    next
      case (Some u)
      show ?thesis using s has_super_core[OF begun_db[OF converted(7)[unfolded Some option.case]]] by simp
    qed
    then show ?thesis by simp
  next
    case (founded username db1 u)
    from founded_upsert[OF founded(4,3)] upsert_super have "has_super db1" by blast
    then show ?thesis using has_super_core[OF begun_db[OF founded(6)]] by simp
  next
    case (created role)
    have "has_super (boot si rq db)" by (rule require_admin_None(1)[OF created(1)])
    then have "has_super (snd (insert_dashboard_user si rq (strip (form rq ''username'')) (form rq ''password'') role (boot si rq db)))"
      by (auto simp: insert_dashboard_user_def insert_or_ignore_def has_super_def)
    then show ?thesis using has_super_core[OF created(5)] by simp
  next
    case (written u w)
    show ?thesis using super_write[OF b require_admin_None(1)[OF written(1)] written(4)] has_super_core[OF written(5)] by simp
  next
    case (changed u db1)
    have "has_super db1" unfolding changed(5)
    proof (rule has_super_update[OF require_admin_None(1)[OF changed(1)]])
      fix v assume "v \<in> set (us_users (boot si rq db))" "ac_id v = ac_id u" "super v"
      moreover have "u \<in> set (us_users (boot si rq db))"
        using changed(3) get_id_mem get_user_mem by (auto simp: current_dashboard_user_def Let_def split: if_splits option.splits)
      ultimately have "v = u" using b by (metis accounts_ok_def distinct_map inj_onD)
      then show "super (v\<lparr>ac_hash := si_hash si (rq_salt rq) (form rq ''new_password''), ac_role := clean_role (ac_role u), ac_updated := rq_now rq\<rparr>)
          \<or> (\<exists>v \<in> set (us_users (boot si rq db)). super v \<and> ac_id v \<noteq> ac_id u)"
        using \<open>super v\<close> by (simp add: super_def)
    qed
    then show ?thesis using has_super_core[OF changed(6)] by simp
  qed
qed


section \<open>Sessions\<close>

text \<open>What holds of every cookie that was issued: its id, if it has one, is the account of its name, and it carries a token.\<close>

definition session_ok :: "admin_db \<Rightarrow> session \<Rightarrow> bool" where
  "session_ok db se \<longleftrightarrow> 0 \<le> se_id se \<and> se_id se < us_next db
     \<and> (\<forall>u \<in> set (us_users db). ac_id u = se_id se \<longrightarrow> ac_name u = se_user se)
     \<and> strip (se_user se) = se_user se \<and> (se_admin_user se = [] \<or> se_admin_user se = se_user se)
     \<and> (se_dash se \<or> se_admin se \<longrightarrow> se_user se \<noteq> [] \<and> se_csrf se \<noteq> None)"

lemma strip_Nil [simp]: "strip [] = []"
  by (simp add: strip_def lstrip_def rstrip_by_def)

lemma session_ok_none [simp]: "accounts_ok db \<Longrightarrow> session_ok db no_session"
  by (auto simp: session_ok_def no_session_def accounts_ok_def)

lemma session_ok_extends: "session_ok db se \<Longrightarrow> extends db db' \<Longrightarrow> session_ok db' se"
  by (fastforce simp: session_ok_def extends_def)

lemma session_ok_core: "core a = core b \<Longrightarrow> session_ok a se = session_ok b se"
  by (simp add: session_ok_def core_eq)

lemma session_ok_stamp [simp]: "session_ok db (set_session_auth_stamp si u db1 se) = session_ok db se"
  by (simp add: session_ok_def set_session_auth_stamp_def)

lemma session_ok_begin:
  assumes "accounts_ok db" "get_dashboard_user n db = Some u"
  shows "session_ok db (fst (begin_session si rq (ac_id u) (ac_name u) role admin db))"
proof -
  have u: "u \<in> set (us_users db)" "ac_name u = strip n" "strip n \<noteq> []" using get_user_mem[OF assms(2)] by auto
  have "ac_name v = ac_name u" if "v \<in> set (us_users db)" "ac_id v = ac_id u" for v
    using assms(1) u(1) that by (metis accounts_ok_def distinct_map inj_onD)
  moreover have "1 \<le> ac_id u" "ac_id u < us_next db" using assms(1) u(1) by (auto simp: accounts_ok_def)
  ultimately show ?thesis
    using u by (auto simp: begin_session_def Let_def) (auto simp: session_ok_def login_session_def)
qed

lemma row_of_mem: "distinct (map key rows) \<Longrightarrow> r \<in> set rows \<Longrightarrow> row_of key (key r) rows = Some r"
  by (induction rows) (auto simp: image_iff)

lemma one_by:
  assumes "accounts_ok db" "u \<in> set (us_users db)"
  shows "row_of ac_name (ac_name u) (us_users db) = Some u" "row_of ac_id (ac_id u) (us_users db) = Some u"
  using assms by (simp_all add: accounts_ok_def row_of_mem)

lemma current_user_mem:
  assumes "current_dashboard_user se db = Some u"
  shows "u \<in> set (us_users db)"
  using assms get_id_mem get_user_mem by (auto simp: current_dashboard_user_def Let_def split: if_splits option.splits)

text \<open>Both ways a session names its account agree.\<close>

lemma current_user_name:
  assumes "accounts_ok db" "session_ok db se" "current_dashboard_user se db = Some u"
  shows "ac_name u = se_user se" "se_user se \<noteq> [] \<Longrightarrow> current_role se db = ac_role u"
proof -
  have m: "u \<in> set (us_users db)" by (rule current_user_mem[OF assms(3)])
  show n: "ac_name u = se_user se"
  proof (cases "se_id se \<noteq> 0 \<and> get_dashboard_user_by_id (se_id se) db \<noteq> None")
    case True
    then have "get_dashboard_user_by_id (se_id se) db = Some u" using assms(3) by (auto simp: current_dashboard_user_def Let_def)
    then show ?thesis using get_id_mem assms(2) by (auto simp: session_ok_def)
  next
    case False
    then have "dashboard_username se \<noteq> [] \<and> get_dashboard_user (dashboard_username se) db = Some u"
      using assms(3) by (auto simp: current_dashboard_user_def Let_def split: if_splits)
    then show ?thesis using get_user_mem assms(2) by (auto simp: dashboard_username_def str_or_def session_ok_def split: if_splits)
  qed
  assume ne: "se_user se \<noteq> []"
  then have "actor_name se = ac_name u" using n assms(2) by (auto simp: actor_name_def str_or_def session_ok_def)
  moreover have "get_dashboard_user (ac_name u) db = Some u"
    using one_by(1)[OF assms(1) m] n ne assms(2) by (simp add: get_dashboard_user_def clean_username_def session_ok_def Let_def)
  ultimately show "current_role se db = ac_role u" using ne n role_clean[OF assms(1) m] by (simp add: current_role_def Let_def)
qed

lemma allowed_user:
  assumes "allowed si db se"
  obtains u where "current_dashboard_user se db = Some u" "ac_active u" "se_stamp se = user_auth_stamp si (Some u)" "se_dash se \<or> se_admin se"
  using assms by (auto simp: allowed_def dashboard_allowed_def split: if_splits option.splits)

lemma outcome_session:
  assumes ok: "accounts_ok db" and s: "session_ok db se" and o: "outcome si rq se db r"
  shows "session_ok (snd r) (fst r)"
proof -
  have b: "grows db (boot si rq db)" "accounts_ok (boot si rq db)" using grows_boot[OF ok] by (auto simp: grows_def)
  note g = outcome_grows[OF ok o]
  have rest: "session_ok (snd r) x" if "settled se x" for x
    using that s g session_ok_extends[of db se "snd r"] by (auto simp: grows_def)
  have new: "session_ok (snd r) (fst r)" if "accounts_ok db1" "get_dashboard_user n db1 = Some u" "begun si rq u a db1 r" for u a n db1
  proof -
    note k = session_ok_begin[OF that(1,2), of si rq "clean_role (ac_role u)" a]
    have "extends db1 (update_dashboard_user_login rq (ac_id u) db1)" using grows_login[OF that(1)] by (simp add: grows_def)
    then have "session_ok (snd r) (fst (begin_session si rq (ac_id u) (ac_name u) (clean_role (ac_role u)) a db1))"
      using session_ok_extends[OF k] session_ok_core[OF begun_db[OF that(3)]] by simp
    moreover have "accounts_ok (snd r)" using g by (simp add: grows_def)
    ultimately show ?thesis using that(3) by (auto simp: Let_def)
  qed
  from o show ?thesis
  proof cases
    case (entered u admin)
    show ?thesis by (rule new[OF b(2) entered(1,5)])
  next
    case (converted db1)
    have d: "accounts_ok db1" using grows_upsert_new[OF b(2) converted(4,6)] by (simp add: grows_def)
    show ?thesis
    proof (cases "get_dashboard_user (strip (form rq ''username'')) db1")
      case None then show ?thesis using converted(7) rest by simp
    next
      case (Some u) show ?thesis by (rule new[OF d Some converted(7)[unfolded Some option.case]])
    qed
  next
    case (founded username db1 u)
    from founded_upsert[OF founded(4,3)] obtain db0 where
      z: "us_users db0 = us_users (boot si rq db)" "us_next db0 = us_next (boot si rq db)"
        "upsert_dashboard_user si rq username (form rq ''password'') ''super_admin'' True db0 = Some db1" by blast
    have n: "get_dashboard_user username db0 = None" using founded(1) z(1) by (simp add: get_dashboard_user_def Let_def)
    have "accounts_ok db1" using grows_upsert_new[OF _ n z(3)] same_users_ok(1)[OF z(1,2)] b(2) by (simp add: grows_def)
    then show ?thesis by (rule new[OF _ founded(5,6)])
  next
    case (changed u db1)
    show ?thesis using changed(7) rest[OF disjI1[OF refl]] g by (auto simp: grows_def)
  qed (rule rest, assumption)+
qed

section \<open>Histories\<close>

text \<open>
  The server with every cookie it has issued: a request comes with one of them or with none, and
  the table starts empty or with the administrators of an older version.
\<close>

inductive serve :: "site \<Rightarrow> session list \<times> admin_db \<Rightarrow> session list \<times> admin_db \<Rightarrow> bool" for si where
  request: "se = no_session \<or> se \<in> set issued \<Longrightarrow> handle si rq (se, db) = (r, se', db') \<Longrightarrow> serve si (issued, db) (se' # issued, db')"

inductive served :: "site \<Rightarrow> session list \<times> admin_db \<Rightarrow> bool" for si where
  installed: "accounts_ok db \<Longrightarrow> dget (us_settings db) ''node_groups_role_migration_v1'' = None \<Longrightarrow>
    us_users db = [] \<or> (\<exists>u \<in> set (us_users db). ac_active u \<and> ac_role u \<noteq> ''viewer'') \<Longrightarrow> served si ([], migrate_roles now db)"
| serves: "served si s \<Longrightarrow> serve si s s' \<Longrightarrow> served si s'"

definition server_ok :: "session list \<times> admin_db \<Rightarrow> bool" where
  "server_ok s \<longleftrightarrow> accounts_ok (snd s) \<and> (us_users (snd s) = [] \<or> has_super (snd s)) \<and> list_all (session_ok (snd s)) (fst s)"

lemma serve_ok:
  assumes "server_ok s" "serve si s s'"
  shows "server_ok s'" "extends (snd s) (snd s')" "set (fst s) \<subseteq> set (fst s')"
proof -
  from assms(2) obtain se issued rq db r se' db' where
    e: "s = (issued, db)" "s' = (se' # issued, db')" "se = no_session \<or> se \<in> set issued" "handle si rq (se, db) = (r, se', db')"
    by cases blast
  have ok: "accounts_ok db" "us_users db = [] \<or> has_super db" "session_ok db se" "\<And>c. c \<in> set issued \<Longrightarrow> session_ok db c"
    using assms(1) e by (auto simp: server_ok_def list_all_iff)
  have o: "outcome si rq se db (se', db')" using outcome_handle[of si rq se db] e(4) by simp
  note g = outcome_grows[OF ok(1) o, unfolded snd_conv grows_def]
  show "server_ok s'" "extends (snd s) (snd s')" "set (fst s) \<subseteq> set (fst s')"
    using g outcome_alive[OF ok(1,2) o] outcome_session[OF ok(1,3) o] ok(4) session_ok_extends e(1,2)
    by (auto simp: server_ok_def list_all_iff)
qed

lemma migrate_ok:
  assumes "accounts_ok db" "dget (us_settings db) ''node_groups_role_migration_v1'' = None"
    "us_users db = [] \<or> (\<exists>u \<in> set (us_users db). ac_active u \<and> ac_role u \<noteq> ''viewer'')"
  shows "server_ok ([], migrate_roles now db)"
proof -
  let ?f = "\<lambda>u. if ac_role u = ''admin'' then u\<lparr>ac_role := ''super_admin'', ac_updated := now\<rparr> else u"
  have u: "us_users (migrate_roles now db) = map ?f (us_users db)" "us_next (migrate_roles now db) = us_next db"
    using assms(2) by (simp_all add: migrate_roles_def update_where_def)
  have f: "ac_id (?f u) = ac_id u" "ac_name (?f u) = ac_name u" "ac_role u \<in> set VALID_ROLES \<Longrightarrow> ac_role (?f u) \<in> set VALID_ROLES"
    "ac_role u \<in> set VALID_ROLES \<Longrightarrow> ac_active u \<Longrightarrow> ac_role u \<noteq> ''viewer'' \<Longrightarrow> super (?f u)" for u
    by (auto simp: VALID_ROLES_def super_def)
  have "accounts_ok (migrate_roles now db)"
    using assms(1) f(1-3) unfolding accounts_ok_def u map_map o_def set_map f(1,2) by (auto simp: f(1) VALID_ROLES_def)
  moreover have "us_users db = [] \<or> has_super (migrate_roles now db)"
    using assms(1,3) f(4) unfolding has_super_def u set_map accounts_ok_def by blast
  ultimately show ?thesis by (auto simp: server_ok_def u)
qed

lemma served_ok: "served si s \<Longrightarrow> server_ok s"
proof (induction rule: served.induct)
  case (installed db now) then show ?case by (rule migrate_ok)
next
  case (serves s s') then show ?case using serve_ok(1) by blast
qed

lemma serves_ok:
  assumes "(serve si)\<^sup>*\<^sup>* s s'" "server_ok s"
  shows "server_ok s' \<and> extends (snd s) (snd s') \<and> set (fst s) \<subseteq> set (fst s')"
  using assms by (induction rule: rtranclp_induct) (auto dest: serve_ok intro: accounts_extend_trans)

end
