(* ===== verification/Account_Claims.thy ===== *)
theory Account_Claims
  imports Account_Safety
begin

text \<open>
  The safety of accounts and sessions over the histories of requests, a run of an installation as
  example, and two ways around: the administrator of the settings comes back after the account was
  deleted, and two administrators who demote each other at the same time both succeed.
\<close>

section \<open>A run\<close>

text \<open>
  The first request sets up \<open>root\<close>, who creates \<open>boss\<close>; \<open>boss\<close> logs in and deletes \<open>root\<close>. The HMAC of
  the example is the identity, a hash is the salt and the password.
\<close>

definition sample_site :: site where
  "sample_site = \<lparr>si_key = ''k'', si_hmac = (\<lambda>key text. text), si_hash = (\<lambda>salt p. salt @ ''$'' @ p), si_check = (\<lambda>h p. ends_with (CHR ''$'' # p) h),
     si_url = (\<lambda>e. ''/'' @ e), si_env_name = ''admin'', si_env_hash = []\<rparr>"

definition post :: "string \<Rightarrow> string \<Rightarrow> string dict \<Rightarrow> request" where
  "post endpoint salt inputs = \<lparr>rq_now = 100, rq_salt = salt, rq_token = ''t'' @ salt, rq_post = True, rq_endpoint = endpoint, rq_path = ''/admin'',
     rq_query = [], rq_form = inputs, rq_args = []\<rparr>"

definition setup_request :: request where
  "setup_request = post ''admin_setup'' ''1'' [(''username'', ''root''), (''password'', ''correct-horse''), (''confirm'', ''correct-horse'')]"

definition create_request :: request where
  "create_request = post ''admin_create_user'' ''2''
     [(''username'', ''boss''), (''password'', ''battery-staple''), (''role'', ''super_admin''), (''csrf_token'', ''t1'')]"

definition boss_login :: request where
  "boss_login = post ''admin_login'' ''3'' [(''username'', ''boss''), (''password'', ''battery-staple'')]"

definition delete_root :: request where
  "delete_root = post ''admin_user_action'' ''4'' [(''user_id'', ''1''), (''action'', ''delete''), (''csrf_token'', ''t3'')]"

definition delete_boss :: request where
  "delete_boss = post ''admin_user_action'' ''4'' [(''user_id'', ''2''), (''action'', ''delete''), (''csrf_token'', ''t1'')]"

definition root_login :: request where
  "root_login = post ''admin_login'' ''5'' [(''username'', ''root''), (''password'', ''correct-horse'')]"

definition root_row :: account where
  "root_row = \<lparr>ac_id = 1, ac_name = ''root'', ac_hash = ''1$correct-horse'', ac_role = ''super_admin'', ac_active = True,
     ac_created = 100, ac_updated = 100, ac_login = Some 100\<rparr>"

definition boss_row :: "int option \<Rightarrow> account" where
  "boss_row login = \<lparr>ac_id = 2, ac_name = ''boss'', ac_hash = ''2$battery-staple'', ac_role = ''super_admin'', ac_active = True,
     ac_created = 100, ac_updated = 100, ac_login = login\<rparr>"

definition admin_cookie :: "account \<Rightarrow> string \<Rightarrow> session" where
  "admin_cookie u token = \<lparr>se_dash = True, se_admin = True, se_id = ac_id u, se_user = ac_name u, se_role = ac_role u, se_admin_user = ac_name u,
     se_stamp = stamp_payload u, se_csrf = Some token, se_preview = None\<rparr>"

definition root_cookie :: session where
  "root_cookie = admin_cookie root_row ''t1''"

definition boss_cookie :: session where
  "boss_cookie = admin_cookie (boss_row (Some 100)) ''t3''"

definition log_line :: "string \<Rightarrow> string \<Rightarrow> string \<Rightarrow> log_entry" where
  "log_line event username detail = \<lparr>lg_time = 100, lg_realm = ''admin'', lg_event = event, lg_name = username, lg_role = ''super_admin'',
     lg_path = ''/admin'', lg_detail = detail\<rparr>"

text \<open>The tables after so many of the requests.\<close>

definition tables :: "account list \<Rightarrow> int \<Rightarrow> log_entry list \<Rightarrow> admin_db" where
  "tables users nxt lines = \<lparr>us_users = users, us_next = nxt, us_settings = [(''node_groups_role_migration_v1'', ''completed''),
     (''admin_username'', ''root''), (''admin_password_hash'', ''1$correct-horse'')], us_logs = lines\<rparr>"

definition fresh_db :: admin_db where
  "fresh_db = migrate_roles 0 \<lparr>us_users = [], us_next = 1, us_settings = [], us_logs = []\<rparr>"

definition log_lines :: "log_entry list" where
  "log_lines = [log_line ''setup_admin'' ''root'' [], log_line ''user_created'' ''boss'' ''created_by=root;created_by_role=super_admin'',
     log_line ''login_success'' ''boss'' [], log_line ''user_deleted'' ''root'' ''changed_by=boss;changed_by_role=super_admin'']"

definition founded_db :: admin_db where
  "founded_db = tables [root_row] 2 (take 1 log_lines)"

definition created_db :: admin_db where
  "created_db = tables [root_row, boss_row None] 3 (take 2 log_lines)"

definition both_db :: admin_db where
  "both_db = tables [root_row, boss_row (Some 100)] 3 (take 3 log_lines)"

definition deleted_db :: admin_db where
  "deleted_db = tables [boss_row (Some 100)] 3 log_lines"

lemma sample_steps:
  "handle sample_site setup_request (no_session, fresh_db) = (Redirect_To ''admin_page'', root_cookie, founded_db)"
  "handle sample_site create_request (root_cookie, founded_db) = (Redirect_To ''admin_users_page'', root_cookie, created_db)"
  "handle sample_site boss_login (no_session, created_db) = (Redirect_Url ''/admin_page'', boss_cookie, both_db)"
  "handle sample_site delete_root (boss_cookie, both_db) = (Redirect_To ''admin_users_page'', boss_cookie, deleted_db)"
  by code_simp+

lemma sample_served:
  "served sample_site ([root_cookie], founded_db)" "served sample_site ([root_cookie, root_cookie], created_db)"
  "served sample_site ([boss_cookie, root_cookie, root_cookie], both_db)"
  "serve sample_site ([boss_cookie, root_cookie, root_cookie], both_db) ([boss_cookie, boss_cookie, root_cookie, root_cookie], deleted_db)"
  "served sample_site ([boss_cookie, boss_cookie, root_cookie, root_cookie], deleted_db)"
proof -
  have a: "served sample_site ([], fresh_db)"
    unfolding fresh_db_def by (rule installed) (simp_all add: accounts_ok_def)
  show b: "served sample_site ([root_cookie], founded_db)"
    by (rule serves[OF a request[OF disjI1[OF refl] sample_steps(1)]])
  show c: "served sample_site ([root_cookie, root_cookie], created_db)"
    by (rule serves[OF b request[OF _ sample_steps(2)]]) simp
  show d: "served sample_site ([boss_cookie, root_cookie, root_cookie], both_db)"
    by (rule serves[OF c request[OF disjI1[OF refl] sample_steps(3)]])
  show e: "serve sample_site ([boss_cookie, root_cookie, root_cookie], both_db) ([boss_cookie, boss_cookie, root_cookie, root_cookie], deleted_db)"
    by (rule request[OF _ sample_steps(4)]) simp
  show "served sample_site ([boss_cookie, boss_cookie, root_cookie, root_cookie], deleted_db)" by (rule serves[OF d e])
qed

section \<open>An enabled super admin remains\<close>

text \<open>C8. Once an installation has accounts, at least one enabled super admin remains: over every history of
log-ins, set-up, account management and password changes, one request at a time, the checks of the
writes never let the last one go.\<close>

theorem super_admin_always_remains:
  assumes "served si (issued, db)" "us_users db \<noteq> []"
  shows "\<exists>u \<in> set (us_users db). ac_role u = ''super_admin'' \<and> ac_active u"
  using served_ok[OF assms(1)] assms(2) by (auto simp: server_ok_def has_super_def super_def)

section \<open>Only super admins change super admins\<close>

definition super_accounts :: "admin_db \<Rightarrow> (int \<times> string \<times> string \<times> bool) list" where
  "super_accounts db = map (\<lambda>u. (ac_id u, ac_name u, ac_hash u, ac_active u)) (filter (\<lambda>u. ac_role u = ''super_admin'') (us_users db))"

lemma super_accounts_update:
  assumes "\<And>u. u \<in> set (us_users db) \<Longrightarrow> ac_id u = i \<Longrightarrow> (ac_role (f u) = ''super_admin'' \<longleftrightarrow> ac_role u = ''super_admin'')
    \<and> (ac_role u = ''super_admin'' \<longrightarrow> ac_id (f u) = ac_id u \<and> ac_name (f u) = ac_name u \<and> ac_hash (f u) = ac_hash u \<and> ac_active (f u) = ac_active u)"
  shows "super_accounts (update_user i f db) = super_accounts db"
proof -
  have k: "map g (filter P (map h us)) = map g (filter P us)" if "\<And>u. u \<in> set us \<Longrightarrow> P (h u) = P u \<and> (P u \<longrightarrow> g (h u) = g u)" for us P h and g :: "account \<Rightarrow> 'b"
    using that by (induction us) auto
  show ?thesis unfolding super_accounts_def update_user_simps by (rule k) (use assms in auto)
qed

lemma super_accounts_core: "core a = core b \<Longrightarrow> super_accounts a = super_accounts b"
  by (simp add: super_accounts_def core_eq)

lemma super_accounts_write:
  assumes ok: "accounts_ok db" and d: "decide_user_action si rq se db = Inr (u, w)" and n: "\<not> is_super_admin se db"
  shows "super_accounts (apply_user_write rq (ac_id u) w db) = super_accounts db"
proof -
  note c = decide_write[OF d, unfolded checked_def]
  have u: "u \<in> set (us_users db)" using get_id_mem c by blast
  have r: "ac_role v \<noteq> ''super_admin''" if "v \<in> set (us_users db)" "ac_id v = ac_id u" for v
  proof -
    have "v = u" using ok u that by (metis accounts_ok_def distinct_map inj_onD)
    then show ?thesis using c n role_clean[OF ok u] by (simp add: can_manage_user_def)
  qed
  have del: "super_accounts (db\<lparr>us_users := filter (\<lambda>v. ac_id v \<noteq> ac_id u) (us_users db)\<rparr>) = super_accounts db"
    unfolding super_accounts_def using r by (auto intro!: arg_cong[where f = "map _"] filter_cong)
  show ?thesis
  proof (cases w)
    case (Set_Role role)
    then show ?thesis using c n r unfolding apply_user_write_def by (auto intro!: super_accounts_update)
  qed (use r del in \<open>auto simp: apply_user_write_def intro!: super_accounts_update\<close>)
qed

text \<open>C9. A request leaves the super admin accounts (their names, password hashes and states) as they are,
unless its cookie is that of a super admin, or the administrator of the settings, who has no account,
logs in with the password of the settings.\<close>

theorem only_super_admins_change_super_admins:
  assumes run: "served si (issued, db)" "se = no_session \<or> se \<in> set issued" and users: "us_users db \<noteq> []"
    and h: "handle si rq (se, db) = (r, se', db')"
  shows "super_accounts db' = super_accounts db \<or> (allowed si db se \<and> current_role se db = ''super_admin'')
    \<or> (rq_endpoint rq = ''admin_login'' \<and> strip (form rq ''username'') = get_admin_username si db
        \<and> get_dashboard_user (strip (form rq ''username'')) db = None \<and> si_check si (get_admin_password_hash si db) (form rq ''password''))"
proof -
  have ok: "accounts_ok db" "session_ok db se" using served_ok[OF run(1)] run(2) by (auto simp: server_ok_def list_all_iff)
  note b = boot_id[OF users]
  have o: "outcome si rq se db (se', db')" using outcome_handle[of si rq se db] h by simp
  have super_user: "allowed si db se \<and> current_role se db = ''super_admin''"
    if "allowed si db se" "current_dashboard_user se db = Some u" "ac_role u = ''super_admin''" for u
    using current_user_name[OF ok that(2)] that ok(2) by (auto elim!: allowed_user simp: session_ok_def)
  from o show ?thesis
  proof cases
    case kept then show ?thesis using super_accounts_core[of db' db] b by simp
  next
    case (entered u admin)
    have "super_accounts (update_dashboard_user_login rq (ac_id u) db) = super_accounts db"
      unfolding update_dashboard_user_login_def by (rule super_accounts_update) simp
    then show ?thesis using super_accounts_core[OF begun_db[OF entered(5)]] b by simp
  next
    case (converted db1) then show ?thesis using b by simp
  next
    case (founded username db1 u) then show ?thesis using users b by simp
  next
    case (created role)
    note c = created[unfolded b]
    show ?thesis
    proof (cases "role = ''super_admin''")
      case True
      then show ?thesis using c(4) require_admin_None(2)[OF created(1), unfolded b] by (simp add: is_super_admin_def)
    next
      case False
      then have "super_accounts (snd (insert_dashboard_user si rq (strip (form rq ''username'')) (form rq ''password'') role db)) = super_accounts db"
        by (simp add: insert_dashboard_user_def insert_or_ignore_def super_accounts_def new_account_def)
      then show ?thesis using super_accounts_core[OF c(5)] by simp
    qed
  next
    case (written u w)
    note c = written[unfolded b]
    show ?thesis
      using super_accounts_write[OF ok(1) c(4)] super_accounts_core[OF c(5)] require_admin_None(2)[OF written(1), unfolded b]
      by (auto simp: is_super_admin_def)
  next
    case (changed u db1)
    note c = changed[unfolded b]
    show ?thesis
    proof (cases "ac_role u = ''super_admin''")
      case True then show ?thesis using super_user[OF _ c(3)] require_admin_None(2)[OF changed(1), unfolded b] by blast
    next
      case False
      have m: "u \<in> set (us_users db)" by (rule current_user_mem[OF c(3)])
      have "v = u" if "v \<in> set (us_users db)" "ac_id v = ac_id u" for v using ok(1) m that by (metis accounts_ok_def distinct_map inj_onD)
      then have "super_accounts db1 = super_accounts db" unfolding c(5)
        using False role_clean[OF ok(1) m] by (intro super_accounts_update) auto
      then show ?thesis using super_accounts_core[OF c(6)] by simp
    qed
  qed
qed


section \<open>A changed account ends its sessions\<close>

lemma digits_no_sep: "CHR 0x1F \<notin> set (str_of_int i)"
proof -
  have "\<not> is_digit (CHR 0x1F)" by (simp add: is_digit_def)
  then have "CHR 0x1F \<notin> set (str_of_nat n)" for n using str_of_nat_digits(1)[of n] by (auto simp: list_all_iff)
  then show ?thesis by (simp add: str_of_int_def)
qed

lemma role_no_sep: "CHR 0x1F \<notin> set (clean_role r)"
  using clean_role_valid[of r] by (auto simp: VALID_ROLES_def)

lemma state_no_sep: "CHR 0x1F \<notin> set (if b then ''1'' else ''0'')"
  by simp

lemma append_sep_left: "s \<notin> set xs \<Longrightarrow> s \<notin> set xs' \<Longrightarrow> xs @ s # ys = xs' @ s # ys' \<longleftrightarrow> xs = xs' \<and> ys = ys'"
proof (induction xs arbitrary: xs')
  case Nil then show ?case by (cases xs') auto
next
  case (Cons x xs) then show ?case by (cases xs') auto
qed

lemma append_sep_right: "s \<notin> set ys \<Longrightarrow> s \<notin> set ys' \<Longrightarrow> xs @ s # ys = xs' @ s # ys' \<longleftrightarrow> xs = xs' \<and> ys = ys'"
proof -
  assume "s \<notin> set ys" "s \<notin> set ys'"
  then have "rev ys @ s # rev xs = rev ys' @ s # rev xs' \<longleftrightarrow> rev ys = rev ys' \<and> rev xs = rev xs'"
    by (intro append_sep_left) simp_all
  moreover have "rev (xs @ s # ys) = rev ys @ s # rev xs" "rev (xs' @ s # ys') = rev ys' @ s # rev xs'" by simp_all
  ultimately show ?thesis by (metis rev_rev_ident)
qed

lemma payload_text: "stamp_payload u = str_of_int (ac_id u) @ CHR 0x1F # (ac_name u @ CHR 0x1F # ((ac_hash u @ CHR 0x1F # clean_role (ac_role u))
    @ CHR 0x1F # (if ac_active u then ''1'' else ''0'')))"
  by (simp add: stamp_payload_def join_def)

lemma payload_inj:
  assumes "stamp_payload u = stamp_payload v"
  shows "ac_id u = ac_id v" "ac_name u = ac_name v \<Longrightarrow> ac_hash u = ac_hash v \<and> clean_role (ac_role u) = clean_role (ac_role v) \<and> ac_active u = ac_active v"
proof -
  have i: "str_of_int (ac_id u) = str_of_int (ac_id v)"
    using assms[unfolded payload_text append_sep_left[OF digits_no_sep digits_no_sep]] by simp
  then show "ac_id u = ac_id v" using int_of_str_of_int by (metis option.inject)
  assume "ac_name u = ac_name v"
  then have "(ac_hash u @ CHR 0x1F # clean_role (ac_role u)) @ CHR 0x1F # (if ac_active u then ''1'' else ''0'')
      = (ac_hash v @ CHR 0x1F # clean_role (ac_role v)) @ CHR 0x1F # (if ac_active v then ''1'' else ''0'')"
    using assms i unfolding payload_text by simp
  then have "ac_hash u @ CHR 0x1F # clean_role (ac_role u) = ac_hash v @ CHR 0x1F # clean_role (ac_role v)"
      "(if ac_active u then ''1'' else ''0'') = (if ac_active v then ''1'' else ''0'')"
    unfolding append_sep_right[OF state_no_sep state_no_sep] by blast+
  then show "ac_hash u = ac_hash v \<and> clean_role (ac_role u) = clean_role (ac_role v) \<and> ac_active u = ac_active v"
    using append_sep_right[OF role_no_sep role_no_sep] by (auto split: if_splits)
qed


section \<open>No session without a password, no write without a token\<close>

lemma not_allowed_none [simp]: "\<not> allowed si db no_session"
  by (simp add: allowed_def dashboard_allowed_def no_session_def)

lemma current_user_core: "core a = core b \<Longrightarrow> current_dashboard_user se a = current_dashboard_user se b"
proof -
  assume "core a = core b"
  then have "us_users a = us_users b" by (simp add: core_eq)
  then show ?thesis unfolding current_dashboard_user_def get_dashboard_user_def get_dashboard_user_by_id_def Let_def by (rule ssubst) (rule refl)
qed

lemma allowed_core: "core a = core b \<Longrightarrow> allowed si a se = allowed si b se"
  unfolding allowed_def dashboard_allowed_def by (drule current_user_core[of a b se]) simp

text \<open>The session of a log-in is that of its account.\<close>

lemma begun_current:
  assumes "accounts_ok db" "get_dashboard_user n db = Some u"
  shows "current_dashboard_user (fst (begin_session si rq (ac_id u) (ac_name u) role a db)) (update_dashboard_user_login rq (ac_id u) db)
    = Some (u\<lparr>ac_login := Some (rq_now rq), ac_updated := rq_now rq\<rparr>)"
proof -
  let ?f = "\<lambda>v. if ac_id v = ac_id u then v\<lparr>ac_login := Some (rq_now rq), ac_updated := rq_now rq\<rparr> else v"
  have m: "u \<in> set (us_users db)" using get_user_mem[OF assms(2)] by simp
  have "row_of ac_id (ac_id u) (map ?f us) = map_option ?f (row_of ac_id (ac_id u) us)" for us :: "account list"
    by (induction us) auto
  then have "row_of ac_id (ac_id u) (map ?f (us_users db)) = Some (?f u)" using one_by(2)[OF assms(1) m] by simp
  moreover have "ac_id u \<noteq> 0" using assms(1) m by (auto simp: accounts_ok_def)
  moreover have "se_id (fst (begin_session si rq (ac_id u) (ac_name u) role a db)) = ac_id u"
    by (simp add: begin_session_def Let_def set_session_auth_stamp_def login_session_def)
  moreover have "us_users (update_dashboard_user_login rq (ac_id u) db) = map ?f (us_users db)"
    by (simp only: update_dashboard_user_login_def update_user_simps)
  ultimately show ?thesis
    unfolding current_dashboard_user_def get_dashboard_user_by_id_def Let_def by simp
qed

text \<open>C11. A request that turns a visitor into somebody logged in carried the password of an active account,
which is the account of the new session.\<close>

theorem session_needs_password:
  assumes run: "served si (issued, db)" "se = no_session \<or> se \<in> set issued" and users: "us_users db \<noteq> []"
    and check: "\<And>salt p. si_check si (si_hash si salt p) p"
    and h: "handle si rq (se, db) = (r, se', db')" and new: "\<not> allowed si db se" "allowed si db' se'"
  shows "\<exists>u. current_dashboard_user se' db' = Some u \<and> ac_active u \<and> si_check si (ac_hash u) (form rq ''password'')"
proof -
  have ok: "accounts_ok db" "session_ok db se" using served_ok[OF run(1)] run(2) by (auto simp: server_ok_def list_all_iff)
  note b = boot_id[OF users]
  have o: "outcome si rq se db (se', db')" using outcome_handle[of si rq se db] h by simp
  have begun: ?thesis if k: "accounts_ok db1" "get_dashboard_user n db1 = Some u" "ac_active u" "si_check si (ac_hash u) (form rq ''password'')"
      "begun si rq u a db1 (se', db')" for u a n db1
  proof -
    have s: "se' = fst (begin_session si rq (ac_id u) (ac_name u) (clean_role (ac_role u)) a db1)"
      using k(5) new(2) not_allowed_none by (auto simp: Let_def)
    show ?thesis using begun_current[OF k(1,2), of si rq "clean_role (ac_role u)" a] k(3,4) current_user_core[OF begun_db[OF k(5)]] s by simp
  qed
  have gate: ?thesis if "require_admin si rq (se, db) = (None, se, boot si rq db)"
    using require_admin_None(2)[OF that, unfolded b] new(1) by simp
  from o show ?thesis
  proof cases
    case kept
    then have "allowed si db' se' = allowed si db se \<or> se' = no_session" using b allowed_core[of db' db] by auto
    then show ?thesis using new not_allowed_none by auto
  next
    case (entered u admin) show ?thesis by (rule begun[OF ok(1) entered(1-3,5)[unfolded b]])
  next
    case (converted db1)
    note c = converted[unfolded b]
    have g: "accounts_ok db1" using grows_upsert_new[OF ok(1) c(4,6)] by (simp add: grows_def)
    obtain u where u: "get_dashboard_user (strip (form rq ''username'')) db1 = Some u" using upsert_found[OF c(6)] by blast
    show ?thesis
      by (rule begun[OF g u _ _ c(7)[unfolded u option.case]]) (simp_all add: upsert_user[OF c(6) u] check)
  next
    case (founded username db1 u) then show ?thesis using users b by simp
  qed (rule gate, assumption)+
qed



theorem super_admin_always_remains_witness:
  "\<exists>u \<in> set (us_users deleted_db). ac_role u = ''super_admin'' \<and> ac_active u"
  by (rule super_admin_always_remains[OF sample_served(5)]) (simp add: deleted_db_def tables_def)

lemma both_users: "us_users both_db = [root_row, boss_row (Some 100)]" "us_users deleted_db = [boss_row (Some 100)]"
    "us_users created_db \<noteq> []"
  by (simp_all add: both_db_def deleted_db_def created_db_def tables_def)

theorem only_super_admins_change_super_admins_witness:
  "super_accounts deleted_db = super_accounts both_db \<or> (allowed sample_site both_db boss_cookie \<and> current_role boss_cookie both_db = ''super_admin'')
    \<or> (rq_endpoint delete_root = ''admin_login'' \<and> strip (form delete_root ''username'') = get_admin_username sample_site both_db
        \<and> get_dashboard_user (strip (form delete_root ''username'')) both_db = None
        \<and> si_check sample_site (get_admin_password_hash sample_site both_db) (form delete_root ''password''))"
  by (rule only_super_admins_change_super_admins[OF sample_served(3) _ _ sample_steps(4)]) (simp_all add: both_users)

lemma sample_later:
  "(serve sample_site)\<^sup>*\<^sup>* ([boss_cookie, root_cookie, root_cookie], both_db) ([boss_cookie, boss_cookie, root_cookie, root_cookie], deleted_db)"
  using sample_served(4) by (rule r_into_rtranclp)


theorem session_needs_password_witness:
  "\<exists>u. current_dashboard_user boss_cookie both_db = Some u \<and> ac_active u \<and> si_check sample_site (ac_hash u) (form boss_login ''password'')"
proof (rule session_needs_password[OF sample_served(2) disjI1[OF refl] both_users(3) _ sample_steps(3)])
  show "\<And>salt p. si_check sample_site (si_hash sample_site salt p) p" by (simp add: sample_site_def ends_with_def starts_with_iff)
  show "allowed sample_site both_db boss_cookie" by code_simp
qed simp


section \<open>Two ways around\<close>

lemma begin_allowed:
  assumes "accounts_ok db" "get_dashboard_user n db = Some u" "ac_active u" "\<And>v. user_auth_stamp si (Some v) \<noteq> []"
  shows "allowed si (update_dashboard_user_login rq (ac_id u) db) (fst (begin_session si rq (ac_id u) (ac_name u) role a db))"
proof -
  let ?u = "u\<lparr>ac_login := Some (rq_now rq), ac_updated := rq_now rq\<rparr>"
  let ?db = "update_dashboard_user_login rq (ac_id u) db"
  have m: "u \<in> set (us_users db)" "strip (ac_name u) = ac_name u" "ac_name u \<noteq> []" using get_user_mem[OF assms(2)] by auto
  have g: "accounts_ok ?db" using grows_login[OF assms(1)] by (simp add: grows_def)
  have "?u \<in> set (us_users ?db)" using m(1) by (force simp: update_dashboard_user_login_def)
  then have "row_of ac_name (ac_name ?u) (us_users ?db) = Some ?u" using one_by(1)[OF g] by blast
  then have "get_dashboard_user (ac_name u) ?db = Some ?u" using m by (simp add: get_dashboard_user_def clean_username_def Let_def)
  then have "se_stamp (fst (begin_session si rq (ac_id u) (ac_name u) role a db)) = user_auth_stamp si (Some ?u)"
      "se_dash (fst (begin_session si rq (ac_id u) (ac_name u) role a db))"
    by (simp_all add: begin_session_def Let_def set_session_auth_stamp_def login_session_def)
  then show ?thesis
    using assms(3,4) unfolding allowed_def dashboard_allowed_def begun_current[OF assms(1,2)] option.case by simp
qed

lemma log_allowed: "allowed si (snd s) (fst s) \<Longrightarrow> fst (log_account_event si rq e u ro d x s) = fst s"
  using allowed_True[of si "snd s" "fst s"] unfolding allowed_def
  by (cases "dashboard_allowed si (snd s) (fst s)") (auto simp: log_account_event_def case_prod_beta Let_def)

text \<open>C13. Deleting the account of the first administrator does not keep him out: the name and the hash of the
set-up stay in the settings, and as no account has the name, the log-in page accepts the old password
and creates a new enabled super admin account for it.\<close>

theorem deleted_admin_returns:
  assumes ok: "accounts_ok db" "has_super db"
    and legacy: "get_admin_username si db = name" "get_admin_password_hash si db = h" "h \<noteq> []" "name \<noteq> []" "strip name = name"
    and gone: "name \<notin> ac_name ` set (us_users db)"
    and pw: "si_check si h password" and hmac: "\<And>v. user_auth_stamp si (Some v) \<noteq> []"
    and rq: "rq_endpoint rq = ''admin_login''" "rq_post rq" "form rq ''username'' = name" "form rq ''password'' = password"
    and run: "handle si rq (no_session, db) = (r, se', db')"
  shows "allowed si db' se' \<and> current_role se' db' = ''super_admin''"
proof -
  have users: "us_users db \<noteq> []" using ok(2) by (auto simp: has_super_def)
  note b = boot_id[OF users]
  have e: "emergency_admin_needed db = False" using ok(2) emergency_iff by simp
  have na: "admin_allowed si db no_session = (False, no_session)"
    by (simp add: admin_allowed_def dashboard_allowed_def no_session_def)
  have u0: "get_dashboard_user name db = None"
    using gone legacy(5) by (simp add: get_dashboard_user_def clean_username_def row_of_None_iff Let_def)
  obtain db1 where up: "upsert_dashboard_user si rq name password ''super_admin'' True db = Some db1"
    using legacy(4,5) by (simp add: upsert_dashboard_user_def clean_username_def Let_def)
  obtain u where u: "get_dashboard_user name db1 = Some u" using upsert_found[OF up] by blast
  note ur = upsert_user[OF up u]
  have g: "accounts_ok db1" using grows_upsert_new[OF ok(1) u0 up] by (simp add: grows_def)
  let ?b = "begin_session si rq (ac_id u) name ''super_admin'' True db1"
  have "rq_endpoint rq \<in> set public_endpoints" by (simp add: rq(1) public_endpoints_def)
  then have "handle si rq (no_session, db) = admin_login si rq (no_session, db)"
    by (simp add: handle_def enforce_dashboard_login_def view_def rq(1) Let_def)
  also have "\<dots> = (Redirect_Url (next_url si rq ''admin_page''),
      log_account_event si rq ''login_success'' name ''admin'' ''super_admin'' ''legacy admin converted'' ?b)"
    unfolding admin_login_def Let_def prod.case b na e rq(3,4) legacy(1,2,5) u0 option.case up u
    using rq(2) legacy(3) pw by simp
  finally have l: "(se', db') = log_account_event si rq ''login_success'' name ''admin'' ''super_admin'' ''legacy admin converted'' ?b"
    using run by simp
  have act: "ac_active u" using ur(3) by simp
  have n: "ac_name u = name" "ac_role u = ''super_admin''" using ur legacy(5) by simp_all
  have a: "allowed si (snd ?b) (fst ?b)"
    using begin_allowed[OF g u act hmac, of rq "''super_admin''" True] n by (simp add: begin_session_db)
  have s: "se' = fst ?b" using log_allowed[OF a] l by (metis fst_conv)
  have c: "core db' = core (snd ?b)" using core_log l by (metis snd_conv)
  have k: "current_dashboard_user se' db' = Some (u\<lparr>ac_login := Some (rq_now rq), ac_updated := rq_now rq\<rparr>)"
    using begun_current[OF g u, of si rq "''super_admin''" True] n current_user_core[OF c] by (simp add: s begin_session_db)
  have ok': "accounts_ok db'" using grows_login[OF g, of rq "ac_id u"] core_cong(1)[OF c] by (simp add: grows_def begin_session_db)
  have "session_ok (update_dashboard_user_login rq (ac_id u) db1) se'"
    using session_ok_begin[OF g u, of si rq "''super_admin''" True] n grows_login[OF g] session_ok_extends by (auto simp: s grows_def)
  then have "session_ok db' se'" using session_ok_core[OF c] by (simp add: begin_session_db)
  from current_user_name[OF ok' this k] have "current_role se' db' = ''super_admin''"
    using n legacy(4) by simp
  then show ?thesis using a s allowed_core[OF c] by simp
qed

theorem deleted_admin_returns_witness:
  "\<exists>r se' db'. handle sample_site root_login (no_session, deleted_db) = (r, se', db')
    \<and> allowed sample_site db' se' \<and> current_role se' db' = ''super_admin''"
proof -
  obtain r se' db' where h: "handle sample_site root_login (no_session, deleted_db) = (r, se', db')" by (metis prod_cases3)
  have ok: "accounts_ok deleted_db" "has_super deleted_db"
    using served_ok[OF sample_served(5)] by (simp_all add: server_ok_def both_users)
  have l: "get_admin_username sample_site deleted_db = ''root''" "get_admin_password_hash sample_site deleted_db = ''1$correct-horse''"
    "strip ''root'' = ''root''" "si_check sample_site ''1$correct-horse'' ''correct-horse''"
    "form root_login ''username'' = ''root''" "form root_login ''password'' = ''correct-horse''"
    by code_simp+
  have q: "rq_endpoint root_login = ''admin_login''" "rq_post root_login" by (simp_all add: root_login_def post_def)
  have n: "''root'' \<notin> ac_name ` set (us_users deleted_db)" by (simp add: both_users boss_row_def)
  have st: "user_auth_stamp sample_site (Some v) \<noteq> []" for v by (simp add: user_auth_stamp_def sample_site_def payload_text)
  from deleted_admin_returns[OF ok l(1,2) _ _ l(3) n l(4) st q l(5,6) h] h show ?thesis by blast
qed

text \<open>The checks and the write of an action on an account are separate transactions: when the only two
super admins delete or disable each other at the same time, both checks succeed, and after both writes
no enabled super admin is left.\<close>

theorem racing_writes_lose_super_admin:
  assumes "decide_user_action si rq1 se1 db = Inr (a, w1)" "decide_user_action si rq2 se2 db = Inr (b, w2)"
    and w: "w1 \<in> {Delete_User, Set_Status False}" "w2 \<in> {Delete_User, Set_Status False}"
    and two: "\<forall>u \<in> set (us_users db). ac_role u = ''super_admin'' \<and> ac_active u \<longrightarrow> u = a \<or> u = b"
  shows "\<not> (\<exists>u \<in> set (us_users (apply_user_write rq2 (ac_id b) w2 (apply_user_write rq1 (ac_id a) w1 db))). ac_role u = ''super_admin'' \<and> ac_active u)"
  using w two by (auto simp: apply_user_write_def split: if_splits)

theorem racing_writes_lose_super_admin_witness:
  "\<not> (\<exists>u \<in> set (us_users (apply_user_write delete_boss 2 Delete_User (apply_user_write delete_root 1 Delete_User both_db))).
     ac_role u = ''super_admin'' \<and> ac_active u)"
proof -
  have "decide_user_action sample_site delete_root boss_cookie both_db = Inr (root_row, Delete_User)"
    "decide_user_action sample_site delete_boss root_cookie both_db = Inr (boss_row (Some 100), Delete_User)"
    by code_simp+
  from racing_writes_lose_super_admin[OF this] show ?thesis by (simp add: both_users root_row_def boss_row_def)
qed

end
