(* ===== verification/Maint_Queue.thy ===== *)
theory Maint_Queue
  imports Json
begin

text \<open>
  The maintenance queue (app/maintenance_queue.py) and its dispatcher
  (app/maintenance_dispatch.py). The table of jobs is a list of rows with the next id; the times,
  the answers of systemd and the rows other transactions hold locked are arguments. The lemmas
  give the order of service and the exclusion of the jobs.
\<close>

section \<open>Jobs\<close>

datatype status = Queued | Starting | Running | Ok | Error | Cancelled

record job =
  jb_id :: int
  jb_created :: int
  jb_action :: string
  jb_params :: string
  jb_status :: status
  jb_by :: string
  jb_message :: string
  jb_unit :: string
  jb_started :: "int option"
  jb_heartbeat :: "int option"
  jb_finished :: "int option"
  jb_progress :: int
  jb_attempt :: int
  jb_cancel_requested :: bool

record queue =
  q_jobs :: "job list"
  q_next :: int

definition empty_queue :: queue where
  "empty_queue = \<lparr>q_jobs = [], q_next = 1\<rparr>"

definition ALLOWED_ACTIONS :: "string list" where
  "ALLOWED_ACTIONS = [''retention'', ''vacuum'', ''delete_history'', ''delete_compact'',
     ''clear_monitoring_data'', ''reset_app_data'',
     ''configuration_backup'', ''configuration_restore'', ''full_backup'', ''full_backup_verify'',
     ''purge_nodes'', ''purge_node_vms'', ''purge_vms'', ''clear_api_logs'', ''clear_api_data'']"

definition terminal :: "status \<Rightarrow> bool" where
  "terminal s = (s = Ok \<or> s = Error \<or> s = Cancelled)"

definition active :: "status \<Rightarrow> bool" where
  "active s = (s = Starting \<or> s = Running)"

definition pending_job :: "job \<Rightarrow> bool" where
  "pending_job j = (jb_status j \<in> {Queued, Starting, Running})"

definition active_row :: "job \<Rightarrow> bool" where
  "active_row j = active (jb_status j)"

section \<open>The web process\<close>

definition unit_name :: "int \<Rightarrow> string" where
  "unit_name i = ''bw-monitor-maintenance@'' @ str_of_int i @ ''.service''"

text \<open>\<open>woke\<close> is the result of waking the dispatcher after the commit.\<close>

definition new_job :: "int \<Rightarrow> int \<Rightarrow> string \<Rightarrow> string \<Rightarrow> string \<Rightarrow> job" where
  "new_job i now action params actor = \<lparr>jb_id = i, jb_created = now, jb_action = action, jb_params = params,
     jb_status = Queued, jb_by = str_or actor ''admin'', jb_message = ''Waiting in FIFO queue'', jb_unit = unit_name i,
     jb_started = None, jb_heartbeat = None, jb_finished = None, jb_progress = 0, jb_attempt = 0,
     jb_cancel_requested = False\<rparr>"

definition note_failed_wake :: "int \<Rightarrow> string \<Rightarrow> queue \<Rightarrow> queue" where
  "note_failed_wake i detail q = q\<lparr>q_jobs := update_where (\<lambda>j. jb_id j = i \<and> jb_status j = Queued)
     (\<lambda>j. j\<lparr>jb_message := ''Queued; immediate dispatcher wake failed, watchdog will retry: '' @ take 500 detail\<rparr>) (q_jobs q)\<rparr>"

definition enqueue_job :: "int \<Rightarrow> bool \<times> string \<Rightarrow> string \<Rightarrow> string \<Rightarrow> string \<Rightarrow> bool \<Rightarrow> queue \<Rightarrow> (string + int \<times> string) \<times> queue" where
  "enqueue_job now woke action0 params actor exclusive q =
     (let action = lower (strip action0) in
      if action \<notin> set ALLOWED_ACTIONS then (Inl ''Unsupported maintenance action'', q)
      else if select_first jb_id (\<lambda>j. jb_action j = ''reset_app_data'' \<and> pending_job j) (q_jobs q) \<noteq> None \<and> \<not> exclusive
        then (Inl ''Nuclear reset job is active; new maintenance work is blocked until it finishes'', q)
      else if exclusive \<and> select_first jb_id pending_job (q_jobs q) \<noteq> None
        then (Inl ''Maintenance queue is not empty'', q)
      else
        (let i = q_next q;
             q1 = \<lparr>q_jobs = q_jobs q @ [new_job i now action params actor], q_next = i + 1\<rparr> in
         (Inr (i, unit_name i), if fst woke then q1 else note_failed_wake i (snd woke) q1)))"

definition cancel_queued_job :: "int \<Rightarrow> int \<Rightarrow> string \<Rightarrow> queue \<Rightarrow> bool \<times> queue" where
  "cancel_queued_job now job_id actor q =
     (let P = (\<lambda>j. jb_id j = job_id \<and> jb_status j = Queued) in
      (rowcount P (q_jobs q) = 1,
       q\<lparr>q_jobs := update_where P (\<lambda>j. j\<lparr>jb_status := Cancelled, jb_finished := Some now, jb_progress := 100,
          jb_message := ''Cancelled by '' @ str_or actor ''admin'' @ '' before execution''\<rparr>) (q_jobs q)\<rparr>))"

definition active_job :: "queue \<Rightarrow> (int \<times> string \<times> status) option" where
  "active_job q = map_option (\<lambda>j. (jb_id j, jb_action j, jb_status j)) (select_first jb_id active_row (q_jobs q))"

section \<open>The dispatcher\<close>

definition LEGACY_ACTIONS :: "string list" where
  "LEGACY_ACTIONS = [''clear_live_cache'', ''checkpoint'']"

definition STARTING_STALE_SECONDS :: int where
  "STARTING_STALE_SECONDS = 120"

definition RUNNING_HEARTBEAT_STALE_SECONDS :: int where
  "RUNNING_HEARTBEAT_STALE_SECONDS = 300"

text \<open>\<open>int(a or b or c)\<close> over columns read with COALESCE(.., 0).\<close>

definition first_time :: "int option list \<Rightarrow> int \<Rightarrow> int" where
  "first_time ts dflt = (case filter (\<lambda>t. t \<noteq> 0) (map (\<lambda>t. case t of None \<Rightarrow> 0 | Some x \<Rightarrow> x) ts) of
     [] \<Rightarrow> dflt | t # _ \<Rightarrow> t)"

definition stale :: "int \<Rightarrow> job \<Rightarrow> bool" where
  "stale now j =
     (let age = now - first_time [jb_started j, Some (jb_created j)] now;
          heartbeat_age = now - first_time [jb_heartbeat j, jb_started j, Some (jb_created j)] now in
      (jb_status j = Starting \<and> STARTING_STALE_SECONDS \<le> age)
      \<or> (jb_status j = Running \<and> RUNNING_HEARTBEAT_STALE_SECONDS \<le> heartbeat_age))"

definition retire_legacy :: "int \<Rightarrow> queue \<Rightarrow> queue" where
  "retire_legacy now q = q\<lparr>q_jobs := update_where (\<lambda>j. jb_action j \<in> set LEGACY_ACTIONS \<and> pending_job j)
     (\<lambda>j. j\<lparr>jb_status := Cancelled, jb_finished := Some now, jb_progress := 100,
        jb_message := ''Legacy maintenance action retired during 50.5.7 upgrade''\<rparr>) (q_jobs q)\<rparr>"

text \<open>
  The rows are read in one transaction and each is updated in its own, if its status is still the
  one that was read.
\<close>

definition recover_row :: "int \<Rightarrow> (string \<Rightarrow> bool) \<Rightarrow> job \<Rightarrow> queue \<Rightarrow> queue" where
  "recover_row now unit_active r q =
     (if unit_active (jb_unit r) \<or> \<not> stale now r then q
      else q\<lparr>q_jobs := update_where (\<lambda>j. jb_id j = jb_id r \<and> jb_status j = jb_status r)
        (\<lambda>j. j\<lparr>jb_status := Error, jb_finished := Some now, jb_progress := 100,
           jb_message := ''Recovered stale job; systemd unit is inactive''\<rparr>) (q_jobs q)\<rparr>)"

definition recover_stale_rows :: "int \<Rightarrow> (string \<Rightarrow> bool) \<Rightarrow> queue \<Rightarrow> queue" where
  "recover_stale_rows now unit_active q =
     (let q1 = retire_legacy now q in
      fold (recover_row now unit_active) (sort_key jb_id (filter active_row (q_jobs q1))) q1)"

text \<open>\<open>locked\<close> are the rows another transaction holds, which SKIP LOCKED passes over.\<close>

definition claimable :: "(int \<Rightarrow> bool) \<Rightarrow> job \<Rightarrow> bool" where
  "claimable locked j = (jb_status j = Queued \<and> \<not> jb_cancel_requested j \<and> \<not> locked (jb_id j))"

definition claim_row :: "int \<Rightarrow> job \<Rightarrow> job" where
  "claim_row now j = j\<lparr>jb_status := Starting,
     jb_started := (case jb_started j of None \<Rightarrow> Some now | Some t \<Rightarrow> Some t), jb_heartbeat := Some now,
     jb_attempt := jb_attempt j + 1, jb_message := ''Dispatcher claimed job; starting systemd worker''\<rparr>"

definition claim_next :: "int \<Rightarrow> (int \<Rightarrow> bool) \<Rightarrow> queue \<Rightarrow> (int \<times> string) option \<times> queue" where
  "claim_next now locked q =
     (if list_ex active_row (q_jobs q) then (None, q)
      else (case select_first jb_id (claimable locked) (q_jobs q) of
          None \<Rightarrow> (None, q)
        | Some r \<Rightarrow> (Some (jb_id r, jb_unit r),
            q\<lparr>q_jobs := update_where (\<lambda>j. jb_id j = jb_id r) (claim_row now) (q_jobs q)\<rparr>)))"

definition mark_start_error :: "int \<Rightarrow> int \<Rightarrow> string \<Rightarrow> queue \<Rightarrow> queue" where
  "mark_start_error now job_id message q = q\<lparr>q_jobs := update_where (\<lambda>j. jb_id j = job_id \<and> jb_status j = Starting)
     (\<lambda>j. j\<lparr>jb_status := Error, jb_finished := Some now, jb_progress := 100, jb_message := take 4000 message\<rparr>) (q_jobs q)\<rparr>"

text \<open>\<open>started\<close> is what systemctl answers for the unit: an error text or success.\<close>

definition dispatch :: "int \<Rightarrow> (string \<Rightarrow> bool) \<Rightarrow> (int \<Rightarrow> bool) \<Rightarrow> (string \<Rightarrow> string option) \<Rightarrow> queue \<Rightarrow> int \<times> queue" where
  "dispatch now unit_active locked start_failure q =
     (case claim_next now locked (recover_stale_rows now unit_active q) of
        (None, q1) \<Rightarrow> (0, q1)
      | (Some (job_id, unit), q1) \<Rightarrow>
          (case start_failure unit of
             None \<Rightarrow> (0, q1)
           | Some output \<Rightarrow> (1, mark_start_error now job_id (strip (str_or output ''systemctl start failed'')) q1)))"

section \<open>The invariant\<close>

definition queue_ok :: "queue \<Rightarrow> bool" where
  "queue_ok q = (distinct (map jb_id (q_jobs q)) \<and> (\<forall>j \<in> set (q_jobs q). jb_id j < q_next q))"

definition active_ids :: "queue \<Rightarrow> int list" where
  "active_ids q = map jb_id (filter active_row (q_jobs q))"

definition waiting_ids :: "queue \<Rightarrow> int list" where
  "waiting_ids q = map jb_id (sort_key jb_id (filter (claimable (\<lambda>i. False)) (q_jobs q)))"

text \<open>At most one job is started or running; a pending reset is the only pending job.\<close>

definition one_active :: "queue \<Rightarrow> bool" where
  "one_active q = (length (filter active_row (q_jobs q)) \<le> 1)"

definition reset_alone :: "queue \<Rightarrow> bool" where
  "reset_alone q = (\<forall>i \<in> set (q_jobs q). \<forall>j \<in> set (q_jobs q).
     jb_action i = ''reset_app_data'' \<longrightarrow> pending_job i \<longrightarrow> pending_job j \<longrightarrow> jb_id j = jb_id i)"

text \<open>
  An update that touches only rows where it applies, keeps the identity and action of a job, and
  makes nothing pending that was not.
\<close>

definition settles :: "(job \<Rightarrow> bool) \<Rightarrow> (job \<Rightarrow> job) \<Rightarrow> bool" where
  "settles P f = (\<forall>j. P j \<longrightarrow> jb_id (f j) = jb_id j \<and> jb_action (f j) = jb_action j
     \<and> (pending_job (f j) \<longrightarrow> pending_job j) \<and> (active_row (f j) \<longrightarrow> active_row j))"

lemma filter_length_le: "(\<And>x. x \<in> set xs \<Longrightarrow> Q (f x) \<Longrightarrow> R x) \<Longrightarrow> length (filter Q (map f xs)) \<le> length (filter R xs)"
  by (induction xs) (auto simp: le_SucI)

lemma reset_alone_update:
  assumes "reset_alone q" "\<And>r. r \<in> set (q_jobs q) \<Longrightarrow> P r \<Longrightarrow>
      jb_id (f r) = jb_id r \<and> jb_action (f r) = jb_action r \<and> (pending_job (f r) \<longrightarrow> pending_job r)"
  shows "reset_alone (q\<lparr>q_jobs := update_where P f (q_jobs q)\<rparr>)"
proof -
  let ?g = "\<lambda>r. if P r then f r else r"
  have g: "r \<in> set (q_jobs q) \<Longrightarrow> jb_id (?g r) = jb_id r \<and> jb_action (?g r) = jb_action r \<and> (pending_job (?g r) \<longrightarrow> pending_job r)" for r
    using assms(2)[of r] by (cases "P r") auto
  show ?thesis
    unfolding reset_alone_def
  proof (intro ballI impI)
    fix i j
    assume "i \<in> set (q_jobs (q\<lparr>q_jobs := update_where P f (q_jobs q)\<rparr>))" "j \<in> set (q_jobs (q\<lparr>q_jobs := update_where P f (q_jobs q)\<rparr>))"
      and a: "jb_action i = ''reset_app_data''" "pending_job i" "pending_job j"
    then obtain i0 j0 where "i0 \<in> set (q_jobs q)" "j0 \<in> set (q_jobs q)" "i = ?g i0" "j = ?g j0"
      by (auto simp: set_update_where)
    with a g[of i0] g[of j0] show "jb_id j = jb_id i" using assms(1) unfolding reset_alone_def by metis
  qed
qed

lemma settles_ok:
  assumes "settles P f"
  shows "queue_ok q \<Longrightarrow> queue_ok (q\<lparr>q_jobs := update_where P f (q_jobs q)\<rparr>)"
    and "one_active q \<Longrightarrow> one_active (q\<lparr>q_jobs := update_where P f (q_jobs q)\<rparr>)"
    and "reset_alone q \<Longrightarrow> reset_alone (q\<lparr>q_jobs := update_where P f (q_jobs q)\<rparr>)"
proof -
  have s: "P j \<Longrightarrow> jb_id (f j) = jb_id j" "P j \<Longrightarrow> jb_action (f j) = jb_action j"
    "P j \<Longrightarrow> pending_job (f j) \<Longrightarrow> pending_job j" "P j \<Longrightarrow> active_row (f j) \<Longrightarrow> active_row j" for j
    using assms by (auto simp: settles_def)
  show "queue_ok q \<Longrightarrow> queue_ok (q\<lparr>q_jobs := update_where P f (q_jobs q)\<rparr>)"
    by (auto simp: queue_ok_def set_update_where s)
  have "length (filter active_row (update_where P f (q_jobs q))) \<le> length (filter active_row (q_jobs q))"
    unfolding update_where_def by (rule filter_length_le) (auto simp: s split: if_splits)
  then show "one_active q \<Longrightarrow> one_active (q\<lparr>q_jobs := update_where P f (q_jobs q)\<rparr>)"
    by (simp add: one_active_def)
  show "reset_alone q \<Longrightarrow> reset_alone (q\<lparr>q_jobs := update_where P f (q_jobs q)\<rparr>)"
    by (erule reset_alone_update) (simp add: s)
qed

definition queue_inv :: "queue \<Rightarrow> bool" where
  "queue_inv q = (queue_ok q \<and> one_active q \<and> reset_alone q)"

lemma settles_inv: "settles P f \<Longrightarrow> queue_inv q \<Longrightarrow> queue_inv (q\<lparr>q_jobs := update_where P f (q_jobs q)\<rparr>)"
  by (simp add: queue_inv_def settles_ok)

lemma empty_queue_inv [simp]: "queue_inv empty_queue"
  by (simp add: queue_inv_def queue_ok_def one_active_def reset_alone_def empty_queue_def)

lemma cancel_inv: "queue_inv q \<Longrightarrow> queue_inv (snd (cancel_queued_job now i actor q))"
  unfolding cancel_queued_job_def Let_def snd_conv
  by (rule settles_inv) (auto simp: settles_def pending_job_def active_row_def active_def)

lemma mark_start_error_inv: "queue_inv q \<Longrightarrow> queue_inv (mark_start_error now i msg q)"
  unfolding mark_start_error_def
  by (rule settles_inv) (auto simp: settles_def pending_job_def active_row_def active_def)

lemma recover_row_inv: "queue_inv q \<Longrightarrow> queue_inv (recover_row now ua r q)"
  unfolding recover_row_def
  by (auto intro!: settles_inv simp: settles_def pending_job_def active_row_def active_def)

lemma retire_legacy_inv: "queue_inv q \<Longrightarrow> queue_inv (retire_legacy now q)"
  unfolding retire_legacy_def
  by (rule settles_inv) (auto simp: settles_def pending_job_def active_row_def active_def)

lemma recover_inv: "queue_inv q \<Longrightarrow> queue_inv (recover_stale_rows now ua q)"
proof -
  have "queue_inv q \<Longrightarrow> queue_inv (fold (recover_row now ua) rs q)" for rs q
    by (induction rs arbitrary: q) (simp_all add: recover_row_inv)
  then show "queue_inv q \<Longrightarrow> queue_inv (recover_stale_rows now ua q)"
    by (simp add: recover_stale_rows_def Let_def retire_legacy_inv)
qed

lemma note_failed_wake_inv: "queue_inv q \<Longrightarrow> queue_inv (note_failed_wake i d q)"
  unfolding note_failed_wake_def
  by (rule settles_inv) (auto simp: settles_def pending_job_def active_row_def active_def)

lemma enqueue_refused: "fst (enqueue_job now woke action params actor exclusive q) = Inl e \<Longrightarrow>
   snd (enqueue_job now woke action params actor exclusive q) = q"
  by (auto simp: enqueue_job_def Let_def split: if_splits)

lemma enqueue_accepted:
  assumes "fst (enqueue_job now woke action params actor exclusive q) = Inr (i, u)"
  shows "i = q_next q" "u = unit_name i" "lower (strip action) \<in> set ALLOWED_ACTIONS"
    and "j \<in> set (q_jobs q) \<Longrightarrow> jb_action j = ''reset_app_data'' \<Longrightarrow> \<not> pending_job j"
    and "exclusive \<Longrightarrow> j \<in> set (q_jobs q) \<Longrightarrow> \<not> pending_job j"
    and "snd (enqueue_job now woke action params actor exclusive q) =
      (let q1 = \<lparr>q_jobs = q_jobs q @ [new_job i now (lower (strip action)) params actor], q_next = i + 1\<rparr> in
       if fst woke then q1 else note_failed_wake i (snd woke) q1)"
proof -
  show "i = q_next q" "u = unit_name i" "lower (strip action) \<in> set ALLOWED_ACTIONS"
    "snd (enqueue_job now woke action params actor exclusive q) =
      (let q1 = \<lparr>q_jobs = q_jobs q @ [new_job i now (lower (strip action)) params actor], q_next = i + 1\<rparr> in
       if fst woke then q1 else note_failed_wake i (snd woke) q1)"
    using assms by (auto simp: enqueue_job_def Let_def split: if_splits)
  show e: "exclusive \<Longrightarrow> j \<in> set (q_jobs q) \<Longrightarrow> \<not> pending_job j" for j
    using assms select_first_None[of jb_id pending_job "q_jobs q"]
    by (auto simp: enqueue_job_def Let_def split: if_splits)
  show "\<not> pending_job j" if "j \<in> set (q_jobs q)" "jb_action j = ''reset_app_data''"
  proof (cases exclusive)
    case True
    then show ?thesis using e that by blast
  next
    case False
    then have "select_first jb_id (\<lambda>j. jb_action j = ''reset_app_data'' \<and> pending_job j) (q_jobs q) = None"
      using assms by (auto simp: enqueue_job_def Let_def split: if_splits)
    then show ?thesis using that unfolding select_first_None by blast
  qed
qed

lemma enqueue_inv:
  assumes inv: "queue_inv q" and ex: "lower (strip action) = ''reset_app_data'' \<Longrightarrow> exclusive"
  shows "queue_inv (snd (enqueue_job now woke action params actor exclusive q))"
proof (cases "fst (enqueue_job now woke action params actor exclusive q)")
  case (Inl e)
  then show ?thesis using enqueue_refused inv by fastforce
next
  case (Inr r)
  obtain i u where r: "fst (enqueue_job now woke action params actor exclusive q) = Inr (i, u)"
    using Inr by (cases r) simp
  note a = enqueue_accepted[OF r]
  let ?row = "new_job i now (lower (strip action)) params actor"
  let ?q1 = "\<lparr>q_jobs = q_jobs q @ [?row], q_next = i + 1\<rparr>"
  have row: "jb_id ?row = i" "jb_action ?row = lower (strip action)" "jb_status ?row = Queued" by (simp_all add: new_job_def)
  have "queue_ok ?q1" using inv row a(1) by (force simp: queue_inv_def queue_ok_def)
  moreover have "one_active ?q1" using inv row by (simp add: queue_inv_def one_active_def active_row_def active_def)
  moreover have "reset_alone ?q1" unfolding reset_alone_def using a(4,5) row ex by auto
  ultimately have "queue_inv ?q1" by (simp add: queue_inv_def)
  then show ?thesis unfolding a(6) Let_def by (simp add: note_failed_wake_inv)
qed

lemma claim_spec:
  assumes "queue_ok q" "claim_next now locked q = (Some (i, u), q')"
  shows "\<exists>r \<in> set (q_jobs q). jb_id r = i \<and> jb_unit r = u \<and> claimable locked r
      \<and> (\<forall>s \<in> set (q_jobs q). claimable locked s \<longrightarrow> i \<le> jb_id s)"
    and "\<not> list_ex active_row (q_jobs q)"
    and "q' = q\<lparr>q_jobs := update_where (\<lambda>j. jb_id j = i) (claim_row now) (q_jobs q)\<rparr>"
    and "active_ids q' = [i]"
proof -
  have idle: "\<not> list_ex active_row (q_jobs q)" using assms(2) by (auto simp: claim_next_def split: if_splits)
  then obtain r where r: "select_first jb_id (claimable locked) (q_jobs q) = Some r" "i = jb_id r" "u = jb_unit r"
    "q' = q\<lparr>q_jobs := update_where (\<lambda>j. jb_id j = i) (claim_row now) (q_jobs q)\<rparr>"
    using assms(2) by (auto simp: claim_next_def split: if_splits option.splits)
  note s = select_first_Some[OF r(1)]
  show "\<exists>r \<in> set (q_jobs q). jb_id r = i \<and> jb_unit r = u \<and> claimable locked r
      \<and> (\<forall>s \<in> set (q_jobs q). claimable locked s \<longrightarrow> i \<le> jb_id s)"
    using s r(2,3) by (intro bexI[of _ r]) auto
  show "\<not> list_ex active_row (q_jobs q)" by (fact idle)
  show "q' = q\<lparr>q_jobs := update_where (\<lambda>j. jb_id j = i) (claim_row now) (q_jobs q)\<rparr>" by (fact r(4))
  have d: "distinct (map jb_id (q_jobs q))" using assms(1) by (simp add: queue_ok_def)
  have "map jb_id (filter active_row (update_where (\<lambda>j. jb_id j = i) (claim_row now) js)) = map jb_id (filter (\<lambda>j. jb_id j = i) js)"
    if "\<not> list_ex active_row js" for js
    using that by (induction js) (auto simp: update_where_def claim_row_def active_row_def active_def)
  then have "active_ids q' = map jb_id (filter (\<lambda>j. jb_id j = i) (q_jobs q))" using idle by (simp add: active_ids_def r(4))
  also have "\<dots> = [i]"
  proof -
    have "distinct (map jb_id js) \<Longrightarrow> i \<in> jb_id ` set js \<Longrightarrow> map jb_id (filter (\<lambda>j. jb_id j = i) js) = [i]" for js
    proof (induction js)
      case (Cons j js)
      have "i \<notin> jb_id ` set js \<Longrightarrow> filter (\<lambda>j. jb_id j = i) js = []" by (auto simp: filter_empty_conv)
      then show ?case using Cons by auto
    qed simp
    then show ?thesis using d s(1) r(2) by auto
  qed
  finally show "active_ids q' = [i]" .
qed

lemma claim_inv:
  assumes "queue_inv q"
  shows "queue_inv (snd (claim_next now locked q))"
proof (cases "fst (claim_next now locked q)")
  case None
  then have "snd (claim_next now locked q) = q" by (auto simp: claim_next_def split: if_splits option.splits)
  then show ?thesis using assms by simp
next
  case (Some iu)
  obtain i u where "iu = (i, u)" by (cases iu)
  then have c: "claim_next now locked q = (Some (i, u), snd (claim_next now locked q))" using Some by (metis prod.collapse)
  have q: "queue_ok q" "reset_alone q" using assms by (simp_all add: queue_inv_def)
  note s = claim_spec[OF q(1) c]
  have d: "distinct (map jb_id (q_jobs q))" using q by (simp add: queue_ok_def)
  have f: "jb_id (claim_row now j) = jb_id j" "jb_action (claim_row now j) = jb_action j" "pending_job (claim_row now j)" for j
    by (simp_all add: claim_row_def pending_job_def)
  from s(1) obtain r where r: "r \<in> set (q_jobs q)" "jb_id r = i" "pending_job r" by (auto simp: claimable_def pending_job_def)
  have same: "j \<in> set (q_jobs q) \<Longrightarrow> jb_id j = i \<Longrightarrow> j = r" for j
    using d r by (metis distinct_map inj_onD)
  have "queue_ok (snd (claim_next now locked q))" unfolding s(3) using q(1) by (auto simp: queue_ok_def set_update_where f)
  moreover have "one_active (snd (claim_next now locked q))"
    using s(4) unfolding active_ids_def one_active_def by (metis One_nat_def length_Cons length_map list.size(3) order_refl)
  moreover have "reset_alone (snd (claim_next now locked q))"
    unfolding s(3) by (rule reset_alone_update[OF q(2)]) (use same r(3) in \<open>simp add: f\<close>)
  ultimately show ?thesis by (simp add: queue_inv_def)
qed

lemma dispatch_inv: "queue_inv q \<Longrightarrow> queue_inv (snd (dispatch now ua locked sf q))"
  using claim_inv[OF recover_inv, of q now locked now ua] mark_start_error_inv
  by (auto simp: dispatch_def split: prod.split option.split)


section \<open>What stays as it is\<close>

text \<open>A row with the given id, if it is there.\<close>

definition job_of :: "int \<Rightarrow> queue \<Rightarrow> job option" where
  "job_of i q = find (\<lambda>j. jb_id j = i) (q_jobs q)"

lemma find_update_where:
  "(\<And>j. P j \<Longrightarrow> jb_id (f j) = jb_id j) \<Longrightarrow>
   find (\<lambda>j. jb_id j = i) (update_where P f js) = map_option (\<lambda>j. if P j then f j else j) (find (\<lambda>j. jb_id j = i) js)"
  by (induction js) (auto simp: update_where_def)

lemma job_of_update:
  "(\<And>j. P j \<Longrightarrow> jb_id (f j) = jb_id j) \<Longrightarrow>
   job_of i (q\<lparr>q_jobs := update_where P f (q_jobs q)\<rparr>) = map_option (\<lambda>j. if P j then f j else j) (job_of i q)"
  by (simp add: job_of_def find_update_where)

definition finished :: "int \<Rightarrow> job \<Rightarrow> queue \<Rightarrow> bool" where
  "finished i j q = (job_of i q = Some j \<and> terminal (jb_status j))"

lemma finished_update:
  "finished i j q \<Longrightarrow> (\<And>r. P r \<Longrightarrow> jb_id (f r) = jb_id r) \<Longrightarrow> (\<And>r. P r \<Longrightarrow> \<not> terminal (jb_status r)) \<Longrightarrow>
   finished i j (q\<lparr>q_jobs := update_where P f (q_jobs q)\<rparr>)"
  by (auto simp: finished_def job_of_update)

lemma finished_append: "finished i j q \<Longrightarrow> finished i j \<lparr>q_jobs = q_jobs q @ [r], q_next = n\<rparr>"
  by (auto simp: finished_def job_of_def find_Some_iff nth_append)

lemma finished_note: "finished i j q \<Longrightarrow> finished i j (note_failed_wake k d q)"
  unfolding note_failed_wake_def by (rule finished_update) (auto simp: terminal_def)

lemma finished_enqueue: "finished i j q \<Longrightarrow> finished i j (snd (enqueue_job now woke action params actor ex q))"
  by (auto simp: enqueue_job_def Let_def intro!: finished_append finished_note)

lemma finished_cancel: "finished i j q \<Longrightarrow> finished i j (snd (cancel_queued_job now k actor q))"
  by (auto simp: cancel_queued_job_def Let_def terminal_def intro!: finished_update)

lemma finished_claim:
  assumes "queue_ok q" "finished i j q"
  shows "finished i j (snd (claim_next now locked q))"
proof (cases "fst (claim_next now locked q)")
  case None
  then have "snd (claim_next now locked q) = q" by (auto simp: claim_next_def split: if_splits option.splits)
  then show ?thesis using assms by simp
next
  case (Some ku)
  obtain k u where "ku = (k, u)" by (cases ku)
  then have c: "claim_next now locked q = (Some (k, u), snd (claim_next now locked q))" using Some by (metis prod.collapse)
  from claim_spec(1)[OF assms(1) c] obtain r where r: "r \<in> set (q_jobs q)" "jb_id r = k" "jb_status r = Queued"
    by (auto simp: claimable_def)
  have j: "j \<in> set (q_jobs q)" "jb_id j = i" "terminal (jb_status j)"
    using assms(2) by (auto simp: finished_def job_of_def find_Some_iff)
  have "distinct (map jb_id (q_jobs q))" using assms(1) by (simp add: queue_ok_def)
  then have "i \<noteq> k" using j r by (metis distinct_map inj_onD status.distinct(5,7,9) terminal_def)
  then show ?thesis
    using assms(2) j(2) unfolding claim_spec(3)[OF assms(1) c]
    by (auto simp: finished_def job_of_update claim_row_def)
qed

lemma finished_recover_row: "finished i j q \<Longrightarrow> active_row r \<Longrightarrow> finished i j (recover_row now ua r q)"
  by (auto simp: recover_row_def active_row_def active_def terminal_def intro!: finished_update)

lemma finished_recover: "finished i j q \<Longrightarrow> finished i j (recover_stale_rows now ua q)"
proof -
  have "\<forall>r \<in> set rs. active_row r \<Longrightarrow> finished i j q \<Longrightarrow> finished i j (fold (recover_row now ua) rs q)" for rs q
    by (induction rs arbitrary: q) (simp_all add: finished_recover_row)
  moreover have "finished i j q \<Longrightarrow> finished i j (retire_legacy now q)"
    by (auto simp: retire_legacy_def pending_job_def terminal_def intro!: finished_update)
  ultimately show "finished i j q \<Longrightarrow> finished i j (recover_stale_rows now ua q)"
    by (simp add: recover_stale_rows_def Let_def)
qed

lemma finished_start_error: "finished i j q \<Longrightarrow> finished i j (mark_start_error now k msg q)"
  by (auto simp: mark_start_error_def terminal_def intro!: finished_update)

lemma finished_dispatch: "queue_inv q \<Longrightarrow> finished i j q \<Longrightarrow> finished i j (snd (dispatch now ua locked sf q))"
  using finished_claim[of "recover_stale_rows now ua q" i j now locked] finished_recover[of i j q now ua]
    recover_inv[of q now ua] finished_start_error
  by (auto simp: dispatch_def queue_inv_def split: prod.split option.split)

section \<open>Recovery\<close>

text \<open>A job whose unit is active is left alone; a stale job without a unit ends in error.\<close>

lemma recover_row_active: "ua (jb_unit r) \<Longrightarrow> recover_row now ua r q = q"
  by (simp add: recover_row_def)

lemma job_of_recover_row:
  "job_of i (recover_row now ua r q) = (if ua (jb_unit r) \<or> \<not> stale now r then job_of i q
     else map_option (\<lambda>j. if jb_id j = jb_id r \<and> jb_status j = jb_status r
       then j\<lparr>jb_status := Error, jb_finished := Some now, jb_progress := 100,
           jb_message := ''Recovered stale job; systemd unit is inactive''\<rparr> else j) (job_of i q))"
  by (simp add: recover_row_def job_of_update)

lemma recover_fold_id:
  "(\<And>r. r \<in> set rs \<Longrightarrow> jb_id r = i \<Longrightarrow> ua (jb_unit r) \<or> \<not> stale now r) \<Longrightarrow>
   job_of i (fold (recover_row now ua) rs q) = job_of i q"
proof (induction rs arbitrary: q)
  case (Cons r rs)
  have "job_of i (recover_row now ua r q) = job_of i q"
  proof (cases "jb_id r = i")
    case True
    then show ?thesis using Cons.prems[of r] by (simp add: job_of_recover_row)
  next
    case False
    have "job_of i q = Some j \<Longrightarrow> jb_id j = i" for j by (auto simp: job_of_def find_Some_iff)
    then show ?thesis using False by (cases "job_of i q") (auto simp: job_of_recover_row)
  qed
  then show ?case using Cons.IH[of "recover_row now ua r q"] Cons.prems by simp
qed simp

lemma job_of_mem: "queue_ok q \<Longrightarrow> r \<in> set (q_jobs q) \<Longrightarrow> job_of (jb_id r) q = Some r"
proof -
  have "distinct (map jb_id js) \<Longrightarrow> r \<in> set js \<Longrightarrow> find (\<lambda>j. jb_id j = jb_id r) js = Some r" for js
    by (induction js) auto
  then show "queue_ok q \<Longrightarrow> r \<in> set (q_jobs q) \<Longrightarrow> job_of (jb_id r) q = Some r"
    by (simp add: queue_ok_def job_of_def)
qed

lemma retire_legacy_other:
  assumes "job_of i q = Some j" "jb_action j \<notin> set LEGACY_ACTIONS"
  shows "job_of i (retire_legacy now q) = Some j"
  using assms by (simp add: retire_legacy_def job_of_update)

lemma recover_keeps_live:
  assumes "queue_ok q" "job_of i q = Some j" "jb_action j \<notin> set LEGACY_ACTIONS" "ua (jb_unit j) \<or> \<not> stale now j"
  shows "job_of i (recover_stale_rows now ua q) = Some j"
proof -
  have q1: "job_of i (retire_legacy now q) = Some j" using assms retire_legacy_other by blast
  have ok: "queue_ok (retire_legacy now q)"
    using assms(1) by (auto simp: retire_legacy_def queue_ok_def set_update_where)
  have "r = j" if "r \<in> set (q_jobs (retire_legacy now q))" "jb_id r = i" for r
    using job_of_mem[OF ok that(1)] q1 that(2) by simp
  then show ?thesis
    using q1 assms(4) unfolding recover_stale_rows_def Let_def by (subst recover_fold_id) auto
qed

section \<open>A queue in first-in first-out order\<close>

text \<open>
  What a client that drains a queue relies on: taking serves the first waiting job when none is
  current and changes nothing otherwise, finishing frees the place and keeps the waiting jobs.
\<close>

locale fifo_service =
  fixes ok :: "'q \<Rightarrow> bool" and waiting :: "'q \<Rightarrow> int list" and current :: "'q \<Rightarrow> int list"
    and take_job :: "'q \<Rightarrow> 'q" and finish_job :: "'q \<Rightarrow> 'q"
  assumes ok_take: "ok q \<Longrightarrow> ok (take_job q)"
    and ok_finish: "ok q \<Longrightarrow> ok (finish_job q)"
    and take_first: "ok q \<Longrightarrow> current q = [] \<Longrightarrow> waiting q = i # is \<Longrightarrow>
      current (take_job q) = [i] \<and> waiting (take_job q) = is"
    and finish_current: "ok q \<Longrightarrow> current q = [i] \<Longrightarrow> current (finish_job q) = [] \<and> waiting (finish_job q) = waiting q"
begin

primrec served :: "nat \<Rightarrow> 'q \<Rightarrow> int list" where
  "served 0 q = []"
| "served (Suc n) q = current (take_job q) @ served n (finish_job (take_job q))"

lemma served_in_order:
  "ok q \<Longrightarrow> current q = [] \<Longrightarrow> n \<le> length (waiting q) \<Longrightarrow> served n q = take n (waiting q)"
proof (induction n arbitrary: q)
  case (Suc n)
  then obtain i "is" where w: "waiting q = i # is" by (cases "waiting q") auto
  note t = take_first[OF Suc.prems(1,2) w] ok_take[OF Suc.prems(1)]
  note f = finish_current[OF t(2) conjunct1[OF t(1)]] ok_finish[OF t(2)]
  show ?case using Suc.IH[OF f(2)] f t w Suc.prems(3) by simp
qed simp

end

end
