(* ===== verification/Maint_Worker.thy ===== *)
theory Maint_Worker
  imports Maint_Queue
begin

text \<open>
  The maintenance worker (app/maintenance.py): its reads and writes of the job row, the actions it
  runs and its main routine. What an action does to the database, the files and the services is
  an outcome of \<open>ops\<close> (an error text or a result); the model keeps the trace of the operations
  in their order, each with whether it succeeded. The text of some messages is shortened.
\<close>

section \<open>The job row\<close>

definition read_job :: "int \<Rightarrow> queue \<Rightarrow> string + string \<times> pyval dict \<times> status" where
  "read_job job_id q = (case job_of job_id q of
      None \<Rightarrow> Inl ''Maintenance job does not exist''
    | Some j \<Rightarrow> (case json_loads (str_or (jb_params j) ''{}'') of
          None \<Rightarrow> Inl ''Maintenance job has invalid parameters JSON''
        | Some (PDict params) \<Rightarrow> Inr (lower (strip (jb_action j)), params, jb_status j)
        | Some _ \<Rightarrow> Inl ''Maintenance job parameters must be an object''))"

record job_update =
  ju_status :: status
  ju_message :: string
  ju_started :: bool
  ju_finished :: bool
  ju_heartbeat :: bool
  ju_progress :: "int option"
  ju_expected :: "status option"

definition apply_update :: "int \<Rightarrow> job_update \<Rightarrow> job \<Rightarrow> job" where
  "apply_update now u j = j\<lparr>jb_status := ju_status u, jb_message := take 4000 (ju_message u),
     jb_started := (if ju_started u \<and> jb_started j = None then Some now else jb_started j),
     jb_finished := (if ju_finished u then Some now else jb_finished j),
     jb_heartbeat := (if ju_heartbeat u \<or> active (ju_status u) then Some now else jb_heartbeat j),
     jb_progress := (case ju_progress u of None \<Rightarrow> jb_progress j | Some p \<Rightarrow> max 0 (min 100 p))\<rparr>"

definition update_job :: "int \<Rightarrow> int \<Rightarrow> job_update \<Rightarrow> queue \<Rightarrow> bool \<times> queue" where
  "update_job now job_id u q =
     (let P = (\<lambda>j. jb_id j = job_id \<and> (case ju_expected u of None \<Rightarrow> True | Some s \<Rightarrow> jb_status j = s)) in
      (rowcount P (q_jobs q) = 1, q\<lparr>q_jobs := update_where P (apply_update now u) (q_jobs q)\<rparr>))"

text \<open>One beat of the loop of \<open>heartbeat_job\<close>.\<close>

definition heartbeat_job :: "int \<Rightarrow> int \<Rightarrow> queue \<Rightarrow> queue" where
  "heartbeat_job now job_id q = q\<lparr>q_jobs := update_where (\<lambda>j. jb_id j = job_id \<and> jb_status j = Running)
     (\<lambda>j. j\<lparr>jb_heartbeat := Some now\<rparr>) (q_jobs q)\<rparr>"

section \<open>Operations and their trace\<close>

datatype event =
    Config_Backup | Full_Backup | Config_Verify | Full_Verify | Job_Progress int
  | Stop_Service | Clear_Monitoring | Config_Restore | Reset_Data | Start_Service | Health_Check
  | Audit string | Online string | Job_Note | Purge string string | Report nat nat

type_synonym 'a act = "(string + 'a) \<times> (event \<times> bool) list"

definition succeeded :: "string + 'a \<Rightarrow> bool" where
  "succeeded r = (case r of Inl _ \<Rightarrow> False | Inr _ \<Rightarrow> True)"

definition perform :: "event \<Rightarrow> string + 'a \<Rightarrow> 'a act" where
  "perform ev r = (r, [(ev, succeeded r)])"

definition give :: "'a \<Rightarrow> 'a act" where
  "give x = (Inr x, [])"

definition reject :: "string \<Rightarrow> 'a act" where
  "reject e = (Inl e, [])"

definition andthen :: "'a act \<Rightarrow> ('a \<Rightarrow> 'b act) \<Rightarrow> 'b act" where
  "andthen m f = (case m of (Inl e, t) \<Rightarrow> (Inl e, t) | (Inr x, t) \<Rightarrow> (case f x of (r, t') \<Rightarrow> (r, t @ t')))"

record ops =
  op_service :: string
  op_load_state :: string
  op_active :: bool
  op_mark_offline :: "string + unit"
  op_stop :: "string + unit"
  op_start_rc :: "nat \<Rightarrow> bool"
  op_active_after :: "nat \<Rightarrow> bool"
  op_probe :: "nat \<Rightarrow> string \<Rightarrow> string + int \<times> string \<times> string"
  op_progress :: "string + unit"
  op_checkpoint :: "string + pyval"
  op_retention :: "string + pyval"
  op_consumption :: "(string + pyval) option"
  op_delete_history :: "int \<Rightarrow> string + pyval"
  op_purge :: "string \<Rightarrow> string \<Rightarrow> string + pyval"
  op_config_backup :: "string \<Rightarrow> bool \<Rightarrow> string + pyval dict"
  op_config_verify :: "string \<Rightarrow> string + unit"
  op_full_backup :: "bool \<Rightarrow> string + pyval dict"
  op_full_verify :: "string \<Rightarrow> string + pyval"
  op_vacuum :: "string + pyval"
  op_clear_api_logs :: "string + pyval"
  op_clear_api_data :: "string + pyval"
  op_clear_monitoring :: "string + pyval"
  op_restore :: "string + pyval"
  op_reset :: "string + pyval"
  op_audit :: "string + unit"

section \<open>The dashboard service\<close>

definition stop_service :: "ops \<Rightarrow> bool act" where
  "stop_service ops =
     (if op_load_state ops \<in> {[], ''not-found''} then reject ''Dashboard service was not found''
      else if \<not> op_active ops then give False
      else (case op_mark_offline ops of
          Inl e \<Rightarrow> reject e
        | Inr u \<Rightarrow> andthen (perform Stop_Service (op_stop ops)) (\<lambda>_. give True)))"

text \<open>The first attempt (from 1) whose start succeeds and after which the service becomes active.\<close>

definition start_service_reliably :: "ops \<Rightarrow> nat \<Rightarrow> string + nat" where
  "start_service_reliably ops attempts =
     (case find (\<lambda>a. op_start_rc ops a \<and> op_active_after ops a) [1..<Suc (max 1 attempts)] of
        None \<Rightarrow> Inl ''Could not restart the service'' | Some a \<Rightarrow> Inr a)"

definition probe_ok :: "string \<Rightarrow> string + int \<times> string \<times> string \<Rightarrow> bool" where
  "probe_ok url r = (case r of
      Inl _ \<Rightarrow> False
    | Inr (code, final_url, body) \<Rightarrow>
        rstrip_by (\<lambda>c. c = CHR ''/'') final_url = rstrip_by (\<lambda>c. c = CHR ''/'') url
        \<and> 200 \<le> code \<and> code < 300 \<and> strip body \<noteq> [])"

definition health_urls :: "int \<Rightarrow> string list" where
  "health_urls port0 = (let port = max 1 (min 65535 port0); base = ''http://127.0.0.1:'' @ str_of_int port in
     [base @ ''/livez'', base @ ''/healthz''])"

definition verify_monitor_health :: "int \<Rightarrow> ops \<Rightarrow> nat \<Rightarrow> string + nat" where
  "verify_monitor_health port ops attempts =
     (case find (\<lambda>a. list_all (\<lambda>u. probe_ok u (op_probe ops a u)) (health_urls port)) [1..<Suc (max 1 attempts)] of
        None \<Rightarrow> Inl ''Monitor health check failed'' | Some a \<Rightarrow> Inr a)"

definition restart_service :: "int \<Rightarrow> ops \<Rightarrow> nat act" where
  "restart_service port ops = andthen (perform Start_Service (start_service_reliably ops 3))
     (\<lambda>_. perform Health_Check (verify_monitor_health port ops 30))"

section \<open>Targeted purges\<close>

text \<open>\<open>int(value)\<close>, whose error is a value; the defaults of the two limits of a purge.\<close>

definition strict_int :: "pyval \<Rightarrow> string + int" where
  "strict_int v = (if safe_int v 0 = safe_int v 1 then Inr (safe_int v 0) else Inl ''invalid literal for int()'')"

definition MAX_SELECTION_ITEMS :: nat where
  "MAX_SELECTION_ITEMS = 300"

definition MAX_PURGE_ITEMS_PER_JOB :: int where
  "MAX_PURGE_ITEMS_PER_JOB = 3"

definition purge_batch_size :: "pyval dict \<Rightarrow> string + int" where
  "purge_batch_size params =
     map_sum id (\<lambda>n. max 1 (min 10 n)) (strict_int (py_or (get_none params ''batch_size'') (PInt MAX_PURGE_ITEMS_PER_JOB)))"

definition clean_text :: "pyval \<Rightarrow> string" where
  "clean_text v = strip (py_str (py_or v (PStr [])))"

definition selected_nodes :: "pyval list \<Rightarrow> string list" where
  "selected_nodes raw = dedup_first [] (filter (\<lambda>n. n \<noteq> []) (map clean_text raw))"

definition selected_vms :: "pyval list \<Rightarrow> (string \<times> string) list" where
  "selected_vms raw = dedup_first [] (List.map_filter (\<lambda>v. case v of
      PDict d \<Rightarrow> (let n = clean_text (get_none d ''node''); u = clean_text (get_none d ''vm_uuid'') in
        if n \<noteq> [] \<and> u \<noteq> [] then Some (n, u) else None)
    | _ \<Rightarrow> None) raw)"

text \<open>
  The items one after another, each in its own transaction; a report after every batch and at the
  end, whose failure is ignored.
\<close>

definition purge_item :: "string \<Rightarrow> string \<Rightarrow> pyval \<Rightarrow> pyval" where
  "purge_item n u deleted = PDict ([(''node'', PStr n)] @ (if u = [] then [] else [(''vm_uuid'', PStr u)]) @ [(''deleted'', deleted)])"

fun purge_items :: "ops \<Rightarrow> int \<Rightarrow> nat \<Rightarrow> nat \<Rightarrow> (string \<times> string) list \<Rightarrow> pyval list act" where
  "purge_items ops batch index tot [] = give []"
| "purge_items ops batch index tot ((n, u) # rest) =
     andthen (perform (Purge n u) (op_purge ops n u)) (\<lambda>deleted.
       andthen (if int index mod batch = 0 \<or> index = tot then (Inr (), [(Report index tot, True)]) else give ())
         (\<lambda>_. andthen (purge_items ops batch (Suc index) tot rest) (\<lambda>ds. give (purge_item n u deleted # ds))))"

definition purge_selection :: "ops \<Rightarrow> string \<Rightarrow> int \<Rightarrow> (string \<times> string) list \<Rightarrow> pyval dict act" where
  "purge_selection ops action batch items =
     (if items = [] then reject ''purge job has no items''
      else if MAX_SELECTION_ITEMS < length items then reject ''purge selection exceeds the maximum''
      else andthen (purge_items ops batch 1 (length items) items)
        (\<lambda>ds. give [(''action'', PStr action), (''items'', PList ds), (''batch_size'', PInt batch),
           (''count'', PInt (int (length items)))]))"

definition transactional_purge :: "ops \<Rightarrow> string \<Rightarrow> pyval dict \<Rightarrow> pyval dict act" where
  "transactional_purge ops action params =
     andthen (purge_batch_size params, []) (\<lambda>batch.
      if action \<in> {''purge_nodes'', ''purge_node_vms''} then
        (case py_or (get_none params ''nodes'') (PList []) of
           PList raw \<Rightarrow> purge_selection ops action batch (map (\<lambda>n. (n, [])) (selected_nodes raw))
         | _ \<Rightarrow> reject ''nodes must be a list'')
      else if action = ''purge_vms'' then
        (case py_or (get_none params ''vms'') (PList []) of
           PList raw \<Rightarrow> purge_selection ops action batch (selected_vms raw)
         | _ \<Rightarrow> reject ''vms must be a list'')
      else reject ''Unsupported purge action'')"

section \<open>Destructive actions\<close>

definition bool_param :: "pyval dict \<Rightarrow> string \<Rightarrow> bool \<Rightarrow> bool" where
  "bool_param params k dflt = truthy (dget_or params k (PBool dflt))"

definition wrap :: "string \<Rightarrow> pyval act \<Rightarrow> pyval dict \<Rightarrow> pyval dict act" where
  "wrap k m result = andthen m (\<lambda>v. give (dset result k v))"

text \<open>The backups and the safety snapshot, made while the dashboard is still online.\<close>

definition prepare_restore :: "ops \<Rightarrow> pyval dict \<Rightarrow> pyval dict \<Rightarrow> pyval dict act" where
  "prepare_restore ops params result =
     (let backup_id = clean_text (get_none params ''backup_id'') in
      andthen (perform Config_Verify (op_config_verify ops backup_id)) (\<lambda>_.
      andthen (perform (Job_Progress 15) (op_progress ops)) (\<lambda>_.
      andthen (perform Config_Backup (op_config_backup ops (''pre-restore:'' @ backup_id) True)) (\<lambda>b.
      andthen (perform (Job_Progress 45) (op_progress ops)) (\<lambda>_.
      give (dset result ''safety_backup'' (PDict b)))))))"

definition prepare_reset :: "ops \<Rightarrow> pyval dict \<Rightarrow> pyval dict \<Rightarrow> pyval dict act" where
  "prepare_reset ops params result =
     andthen (if bool_param params ''create_configuration_backup'' True
        then andthen (perform (Job_Progress 10) (op_progress ops)) (\<lambda>_.
          andthen (perform Config_Backup (op_config_backup ops ''pre-nuclear'' True))
            (\<lambda>b. give [(''configuration'', PDict b)]))
        else give []) (\<lambda>b1.
     andthen (if bool_param params ''create_full_backup'' False
        then andthen (perform (Job_Progress 25) (op_progress ops)) (\<lambda>_.
          andthen (perform Full_Backup (op_full_backup ops True)) (\<lambda>b. give (b1 @ [(''full'', PDict b)])))
        else give b1) (\<lambda>backups.
     andthen (perform (Job_Progress 50) (op_progress ops)) (\<lambda>_.
     give (dset (dset (dset result ''backups'' (PDict backups))
       ''backup_status'' (PStr (if backups \<noteq> [] then ''verified'' else ''skipped_by_super_admin'')))
       ''backup_kind'' (PStr (if backups \<noteq> [] then join ''+'' (map fst backups) else ''none''))))))"

definition destructive :: "ops \<Rightarrow> string \<Rightarrow> pyval dict \<Rightarrow> pyval dict act" where
  "destructive ops action result =
     (if action = ''clear_monitoring_data''
        then wrap ''clear'' (perform Clear_Monitoring (op_clear_monitoring ops)) result
      else if action = ''configuration_restore''
        then wrap ''restore'' (perform Config_Restore (op_restore ops)) result
      else if action = ''reset_app_data''
        then andthen (perform (Job_Progress 70) (op_progress ops)) (\<lambda>_.
          andthen (wrap ''reset'' (perform Reset_Data (op_reset ops)) result) (\<lambda>r.
          give (dset r ''queue_preserved'' (PStr ''current_nuclear_job_only''))))
      else reject ''Unsupported destructive action'')"

definition error_of :: "string + 'a \<Rightarrow> string option" where
  "error_of r = (case r of Inl e \<Rightarrow> Some e | Inr _ \<Rightarrow> None)"

definition first_error :: "string option \<Rightarrow> string option \<Rightarrow> string option" where
  "first_error a b = (case a of Some e \<Rightarrow> Some e | None \<Rightarrow> b)"

text \<open>
  Stop, act, start again whatever happened, and close the audit record of a reset. The entries of
  the result that only describe an error are left out (an error is raised, not returned).
\<close>

definition offline_action :: "int \<Rightarrow> ops \<Rightarrow> string \<Rightarrow> pyval dict \<Rightarrow> pyval dict \<Rightarrow> pyval dict act" where
  "offline_action port ops action params result =
     (let (stopped, t1) = stop_service ops;
          was_active = (case stopped of Inl _ \<Rightarrow> False | Inr b \<Rightarrow> b);
          (acted, t2) = (case stopped of
              Inl e \<Rightarrow> (Inl e, [])
            | Inr b \<Rightarrow> destructive ops action (dset result ''service_was_active'' (PBool b)));
          (restarted, t3) = (if was_active then restart_service port ops else (Inr 0, []));
          err2 = first_error (error_of acted) (error_of restarted);
          committed = (action = ''reset_app_data'' \<and> succeeded acted);
          (audited, t4) = (if committed
            then perform (Audit (if err2 = None then ''done'' else ''reset_done_service_failed'')) (op_audit ops)
            else (Inr (), []));
          r1 = (case acted of Inl _ \<Rightarrow> result | Inr r \<Rightarrow> r);
          r2 = (if was_active then dset r1 ''service_restarted'' (PBool (succeeded restarted)) else r1);
          r3 = (if committed then dset (dset r2 ''completed'' (PBool (err2 = None))) ''nuclear_audit_written'' (PBool (succeeded audited)) else r2);
          r4 = dset (dset r3 ''compact_requested'' (PBool (bool_param params ''compact'' False))) ''compact_skipped'' (PBool True) in
      ((case first_error err2 (error_of audited) of Some e \<Rightarrow> Inl e | None \<Rightarrow> Inr r4), t1 @ t2 @ t3 @ t4))"

section \<open>Actions\<close>

definition offline_actions :: "string list" where
  "offline_actions = [''clear_monitoring_data'', ''reset_app_data'', ''configuration_restore'']"

definition delete_history :: "ops \<Rightarrow> string \<Rightarrow> pyval dict \<Rightarrow> pyval dict \<Rightarrow> pyval dict act" where
  "delete_history ops key params result =
     andthen (strict_int (dget_or params ''days'' (PInt 7)), [])
       (\<lambda>days. wrap key (perform (Online key) (op_delete_history ops days)) result)"

definition execute_action :: "int \<Rightarrow> ops \<Rightarrow> string \<Rightarrow> pyval dict \<Rightarrow> pyval dict act" where
  "execute_action port ops action params =
     (let online = (\<lambda>name r base. wrap name (perform (Online name) r) base);
          base = [(''action'', PStr action)];
          job_id = safe_int (py_or (get_none params ''_job_id'') (PInt 0)) 0 in
      if action = ''checkpoint'' then
        andthen (online ''result'' (op_checkpoint ops) (base @ [(''legacy'', PBool True)]))
          (\<lambda>r. give (dset r ''note'' (PStr ''No checkpoint was forced; PostgreSQL manages checkpoints automatically.'')))
      else if action = ''clear_live_cache'' then give (base @ [(''legacy'', PBool True), (''skipped'', PBool True),
        (''note'', PStr ''CLEAR LIVE 5M was removed before 50.5.7; no current cache was deleted.'')])
      else if action = ''retention'' then
        (let scope = lower (clean_text (py_or (get_none params ''scope'') (PStr ''all''))) in
         if scope = ''consumption'' then
           (case op_consumption ops of
              None \<Rightarrow> reject ''Consumption retention helper is unavailable''
            | Some r \<Rightarrow> online ''result'' r (base @ [(''scope'', PStr ''consumption'')]))
         else if scope \<notin> {[], ''all''} then reject (''Unsupported retention scope: '' @ scope)
         else online ''result'' (op_retention ops) (base @ [(''scope'', PStr ''all'')]))
      else if action = ''delete_history'' then delete_history ops ''result'' params base
      else if action \<in> {''purge_nodes'', ''purge_node_vms'', ''purge_vms''} then transactional_purge ops action params
      else if action = ''configuration_backup'' then
        andthen (perform Config_Backup (op_config_backup ops
            (py_str (py_or (get_none params ''reason'') (PStr ''manual''))) (bool_param params ''protect'' False)))
          (\<lambda>b. give (base @ [(''backup'', PDict b)]))
      else if action = ''full_backup'' then
        andthen (perform Full_Backup (op_full_backup ops False)) (\<lambda>b. give (base @ [(''backup'', PDict b)]))
      else if action = ''full_backup_verify'' then
        wrap ''verification'' (perform Full_Verify (op_full_verify ops (clean_text (get_none params ''backup_id'')))) base
      else if action \<notin> set ([''vacuum'', ''delete_compact'', ''clear_api_logs'', ''clear_api_data''] @ offline_actions)
        then reject (''Unsupported maintenance action: '' @ action)
      else
        (let result = base @ [(''service'', PStr (op_service ops))] in
         if action = ''vacuum'' then online ''vacuum'' (op_vacuum ops) result
         else if action = ''delete_compact'' then
           andthen (delete_history ops ''delete'' params result)
             (\<lambda>r. andthen (if 0 < job_id then (Inr (), [(Job_Note, True)]) else give ()) (\<lambda>_.
               online ''vacuum'' (op_vacuum ops) r))
         else if action = ''clear_api_logs'' then andthen (online ''clear'' (op_clear_api_logs ops) result)
           (\<lambda>r. give (dset r ''vacuum_skipped'' (PStr ''TRUNCATE already releases the API log relations'')))
         else if action = ''clear_api_data'' then andthen (online ''clear'' (op_clear_api_data ops) result)
           (\<lambda>r. give (dset r ''vacuum_skipped'' (PStr ''TRUNCATE already releases the API relations'')))
         else if action \<in> {''reset_app_data'', ''configuration_restore''} \<and> job_id \<le> 0
           then reject (action @ '' is missing the current maintenance job id'')
         else andthen
           (if action = ''configuration_restore'' then prepare_restore ops params result
            else if action = ''reset_app_data'' then prepare_reset ops params result else give result)
           (\<lambda>r. offline_action port ops action params r)))"

section \<open>The worker\<close>

definition application_actions :: "string list" where
  "application_actions = [''retention'', ''delete_history'', ''delete_compact'', ''purge_nodes'', ''purge_node_vms'', ''purge_vms'']"

definition running_update :: "status \<Rightarrow> job_update" where
  "running_update expected = \<lparr>ju_status = Running, ju_message = ''Running under the exclusive worker lock'', ju_started = True,
     ju_finished = False, ju_heartbeat = True, ju_progress = Some 1, ju_expected = Some expected\<rparr>"

definition final_update :: "status \<Rightarrow> string \<Rightarrow> job_update" where
  "final_update st message = \<lparr>ju_status = st, ju_message = message, ju_started = False,
     ju_finished = True, ju_heartbeat = False, ju_progress = Some 100, ju_expected = None\<rparr>"

text \<open>
  The part of \<open>main\<close> before the action: the lock, the row, the application and the claim.
  \<open>load_app\<close> is the result of loading the application.
\<close>

definition worker_claim :: "int \<Rightarrow> bool \<Rightarrow> string + unit \<Rightarrow> int \<Rightarrow> queue \<Rightarrow> (string + string \<times> pyval dict) \<times> queue" where
  "worker_claim now lock_free load_app job_id q =
     (if \<not> lock_free then (Inl ''Another maintenance worker already owns the exclusive lock'', q)
      else (case read_job job_id q of
          Inl e \<Rightarrow> (Inl e, q)
        | Inr (action, params, st) \<Rightarrow>
            (if st \<notin> {Starting, Queued} then (Inl ''Maintenance job is already started or finished'', q)
             else (case (if action \<in> set application_actions then load_app else Inr ()) of
                 Inl e \<Rightarrow> (Inl e, q)
               | Inr _ \<Rightarrow>
                   (let (claimed, q1) = update_job now job_id (running_update st) q in
                    if claimed then (Inr (action, dset params ''_job_id'' (PInt job_id)), q1)
                    else (Inl ''Maintenance job could not be claimed atomically'', q1))))))"

text \<open>The reports an action writes to its job row while it runs.\<close>

definition progress_update :: "int option \<Rightarrow> bool \<Rightarrow> job_update" where
  "progress_update p beat = \<lparr>ju_status = Running, ju_message = ''Progress of the running action'', ju_started = False,
     ju_finished = False, ju_heartbeat = beat, ju_progress = p, ju_expected = None\<rparr>"

fun record_event :: "int \<Rightarrow> int \<Rightarrow> event \<times> bool \<Rightarrow> queue \<Rightarrow> queue" where
  "record_event now job_id (Job_Progress p, True) q = snd (update_job now job_id (progress_update (Some p) True) q)"
| "record_event now job_id (Job_Note, True) q = snd (update_job now job_id (progress_update None False) q)"
| "record_event now job_id (Report a b, True) q = snd (update_job now job_id (progress_update None False) q)"
| "record_event now job_id e q = q"

text \<open>\<open>encode\<close> is the compact JSON text of a result.\<close>

definition worker_main :: "int \<Rightarrow> int \<Rightarrow> (pyval dict \<Rightarrow> string) \<Rightarrow> int \<Rightarrow> ops \<Rightarrow> bool \<Rightarrow> string + unit \<Rightarrow> int \<Rightarrow> queue
    \<Rightarrow> (int \<times> (event \<times> bool) list) \<times> queue" where
  "worker_main now later encode port ops lock_free load_app job_id q =
     (case worker_claim now lock_free load_app job_id q of
        (Inl e, q1) \<Rightarrow> ((1, []), snd (update_job later job_id (final_update Error e) q1))
      | (Inr (action, params), q1) \<Rightarrow>
          (let (r, t) = execute_action port ops action params; q2 = fold (record_event later job_id) t q1 in
           case r of
             Inl e \<Rightarrow> ((1, t), snd (update_job later job_id (final_update Error e) q2))
           | Inr result \<Rightarrow> ((0, t), snd (update_job later job_id (final_update Ok (encode result)) q2))))"

section \<open>The manifest of a backup\<close>

text \<open>
  The parts of a path (a repeated or trailing slash and a single dot leave none), and the loop
  that removes leading \<open>./\<close>.
\<close>

definition path_parts :: "string \<Rightarrow> string list" where
  "path_parts p = filter (\<lambda>w. w \<noteq> [] \<and> w \<noteq> ''.'') (split_on CHR ''/'' p)"

fun drop_dot_slash :: "string \<Rightarrow> string" where
  "drop_dot_slash (a # b # r) = (if a = CHR ''.'' \<and> b = CHR ''/'' then drop_dot_slash r else a # b # r)"
| "drop_dot_slash s = s"

definition manifest_path :: "string \<Rightarrow> string option" where
  "manifest_path field =
     (let relative = drop_dot_slash (map (\<lambda>c. if c = CHR 0x5C then CHR ''/'' else c)
            (dropWhile (\<lambda>c. c = CHR ''*'' \<or> c = CHR '' '') field)) in
      if relative = [] \<or> starts_with ''/'' relative \<or> ''..'' \<in> set (path_parts relative) then None
      else Some (join ''/'' (path_parts relative)))"

text \<open>
  \<open>inside\<close>: the resolved path stays below the backup directory; \<open>sha256\<close>: the digest of a regular
  file of the directory, nothing when there is none.
\<close>

definition manifest_entry :: "(string \<Rightarrow> bool) \<Rightarrow> (string \<Rightarrow> string option) \<Rightarrow> string \<Rightarrow> string + string \<times> string" where
  "manifest_entry inside sha256 line = (case split_ws_max 1 line of
      [digest, field] \<Rightarrow>
        (if length digest \<noteq> 64 then Inl ''Invalid SHA256SUMS line''
         else (case manifest_path field of
             None \<Rightarrow> Inl ''Unsafe backup manifest path''
           | Some p \<Rightarrow>
               (if \<not> inside p then Inl ''Unsafe backup manifest path''
                else (case sha256 p of
                    None \<Rightarrow> Inl ''Backup manifest file is missing''
                  | Some actual \<Rightarrow> if actual \<noteq> lower digest then Inl ''Backup checksum mismatch'' else Inr (p, actual)))))
    | _ \<Rightarrow> Inl ''Invalid SHA256SUMS line'')"

fun manifest_lines :: "(string \<Rightarrow> bool) \<Rightarrow> (string \<Rightarrow> string option) \<Rightarrow> string list \<Rightarrow> string dict \<Rightarrow> string + string dict" where
  "manifest_lines inside sha256 [] verified = Inr verified"
| "manifest_lines inside sha256 (raw # rest) verified =
     (if strip raw = [] then manifest_lines inside sha256 rest verified
      else (case manifest_entry inside sha256 (strip raw) of
          Inl e \<Rightarrow> Inl e
        | Inr (p, actual) \<Rightarrow>
            (if (case dget verified p of None \<Rightarrow> False | Some previous \<Rightarrow> previous \<noteq> actual)
             then Inl ''Conflicting backup manifest entry''
             else manifest_lines inside sha256 rest (dset verified p actual))))"

definition verify_backup_manifest :: "(string \<Rightarrow> bool) \<Rightarrow> (string \<Rightarrow> string option) \<Rightarrow> string \<Rightarrow> string + string dict" where
  "verify_backup_manifest inside sha256 sums_txt =
     (case manifest_lines inside sha256 (splitlines sums_txt) [] of
        Inl e \<Rightarrow> Inl e
      | Inr verified \<Rightarrow>
          if dget verified ''database.dump'' = None \<or> dget verified ''database.list'' = None
          then Inl ''Backup manifest does not cover database.dump and database.list'' else Inr verified)"


section \<open>What the traces show\<close>

lemma andthen_fst: "fst (andthen m f) = (case fst m of Inl e \<Rightarrow> Inl e | Inr x \<Rightarrow> fst (f x))"
  by (auto simp: andthen_def case_prod_beta split: prod.splits sum.splits)

lemma andthen_snd: "snd (andthen m f) = snd m @ (case fst m of Inl e \<Rightarrow> [] | Inr x \<Rightarrow> snd (f x))"
  by (auto simp: andthen_def case_prod_beta split: prod.splits sum.splits)

lemma act_simps [simp]:
  "fst (perform ev r) = r" "snd (perform ev r) = [(ev, succeeded r)]"
  "fst (give x) = Inr x" "snd (give x) = []" "fst (reject e) = Inl e" "snd (reject e) = []"
  "succeeded (Inl e) = False" "succeeded (Inr x) = True"
  by (simp_all add: perform_def give_def reject_def succeeded_def)

lemma succeeded_iff: "succeeded r \<longleftrightarrow> (\<exists>x. r = Inr x)"
  by (cases r) auto

lemma error_of_None: "error_of r = None \<longleftrightarrow> succeeded r"
  by (cases r) (auto simp: error_of_def)

lemma first_error_None [simp]: "first_error a b = None \<longleftrightarrow> a = None \<and> b = None"
  by (cases a) (auto simp: first_error_def)

lemmas act_defs = andthen_fst andthen_snd wrap_def

definition events :: "(event \<times> bool) list \<Rightarrow> event set" where
  "events t = fst ` set t"

lemma events_simps [simp]:
  "events [] = {}" "events (x # t) = insert (fst x) (events t)" "events (s @ t) = events s \<union> events t"
  by (auto simp: events_def)

lemma events_mem: "(ev, b) \<in> set t \<Longrightarrow> ev \<in> events t"
  by (force simp: events_def)

lemma events_andthen: "events (snd (andthen m f)) \<subseteq> E \<longleftrightarrow>
    events (snd m) \<subseteq> E \<and> (\<forall>x. fst m = Inr x \<longrightarrow> events (snd (f x)) \<subseteq> E)"
  by (auto simp: andthen_snd split: sum.splits)

lemma prepare_reset_spec:
  assumes "fst (prepare_reset ops params result) = Inr r"
  shows "bool_param params ''create_configuration_backup'' True \<Longrightarrow> (Config_Backup, True) \<in> set (snd (prepare_reset ops params result))"
    and "bool_param params ''create_full_backup'' False \<Longrightarrow> (Full_Backup, True) \<in> set (snd (prepare_reset ops params result))"
  using assms by (auto simp: prepare_reset_def act_defs split: sum.splits if_splits)

lemma prepare_reset_events: "events (snd (prepare_reset ops params result)) \<subseteq> {Config_Backup, Full_Backup} \<union> range Job_Progress"
  by (auto simp: prepare_reset_def act_defs split: sum.splits if_splits)

lemma prepare_restore_spec:
  assumes "fst (prepare_restore ops params result) = Inr r"
  shows "(Config_Verify, True) \<in> set (snd (prepare_restore ops params result))"
    "(Config_Backup, True) \<in> set (snd (prepare_restore ops params result))"
  using assms by (auto simp: prepare_restore_def act_defs Let_def split: sum.splits if_splits)

lemma prepare_restore_events: "events (snd (prepare_restore ops params result)) \<subseteq> {Config_Verify, Config_Backup} \<union> range Job_Progress"
  by (auto simp: prepare_restore_def act_defs Let_def split: sum.splits if_splits)

lemma stop_service_spec:
  "fst (stop_service ops) = Inr b \<Longrightarrow> b = op_active ops \<and> snd (stop_service ops) = (if b then [(Stop_Service, True)] else [])"
  "fst (stop_service ops) = Inl e \<Longrightarrow> (Stop_Service, True) \<notin> set (snd (stop_service ops))"
  by (auto simp: stop_service_def act_defs split: sum.splits if_splits)

lemma stop_service_events: "events (snd (stop_service ops)) \<subseteq> {Stop_Service}"
  by (auto simp: stop_service_def act_defs split: sum.splits if_splits)

lemma restart_events: "events (snd (restart_service port ops)) \<subseteq> {Start_Service, Health_Check}"
  by (auto simp: restart_service_def act_defs split: sum.splits)

lemma restart_spec:
  "\<exists>b. (Start_Service, b) \<in> set (snd (restart_service port ops))"
  "fst (restart_service port ops) = Inr a \<Longrightarrow>
     snd (restart_service port ops) = [(Start_Service, True), (Health_Check, True)]"
  by (auto simp: restart_service_def act_defs succeeded_iff split: sum.splits)

lemma destructive_events: "events (snd (destructive ops action result)) \<subseteq>
    {Clear_Monitoring, Config_Restore, Reset_Data} \<union> range Job_Progress"
  by (auto simp: destructive_def act_defs split: sum.splits if_splits)

lemma destructive_reset: "(Reset_Data, b) \<in> set (snd (destructive ops action result)) \<Longrightarrow>
    action = ''reset_app_data'' \<and> b = succeeded (fst (destructive ops action result))"
  by (auto simp: destructive_def act_defs split: sum.splits if_splits)

lemma destructive_reset_done: "succeeded (fst (destructive ops ''reset_app_data'' result)) \<Longrightarrow>
    (Reset_Data, True) \<in> set (snd (destructive ops ''reset_app_data'' result))"
  by (auto simp: destructive_def act_defs split: sum.splits if_splits)

text \<open>\<open>y\<close> does not occur before the first \<open>x\<close>.\<close>

definition precedes :: "'a \<Rightarrow> 'a \<Rightarrow> 'a list \<Rightarrow> bool" where
  "precedes x y t = (y \<notin> set (takeWhile (\<lambda>e. e \<noteq> x) t))"

lemma precedes_absent: "y \<notin> set t \<Longrightarrow> precedes x y t"
  by (auto simp: precedes_def dest: set_takeWhileD)

lemma precedes_append: "precedes x y (s @ t) \<longleftrightarrow> (if x \<in> set s then precedes x y s else y \<notin> set s \<and> precedes x y t)"
proof (cases "x \<in> set s")
  case True
  then show ?thesis by (simp add: precedes_def takeWhile_append1[of x])
next
  case False
  then have "takeWhile (\<lambda>e. e \<noteq> x) (s @ t) = s @ takeWhile (\<lambda>e. e \<noteq> x) t"
    by (intro takeWhile_append2) auto
  then show ?thesis using False by (simp add: precedes_def)
qed

lemma precedes_after: "y \<notin> set s \<Longrightarrow> x \<in> set s \<or> precedes x y t \<Longrightarrow> precedes x y (s @ t)"
  unfolding precedes_append by (auto intro: precedes_absent)

lemma not_in_events: "ev \<notin> E \<Longrightarrow> events t \<subseteq> E \<Longrightarrow> (ev, b) \<notin> set t"
  using events_mem by blast

lemma offline_trace:
  "snd (offline_action port ops action params result) =
     snd (stop_service ops) @
     (case fst (stop_service ops) of Inl e \<Rightarrow> [] | Inr b \<Rightarrow>
        snd (destructive ops action (dset result ''service_was_active'' (PBool b)))
        @ (if b then snd (restart_service port ops) else [])
        @ (if action = ''reset_app_data'' \<and> succeeded (fst (destructive ops action (dset result ''service_was_active'' (PBool b))))
           then [(Audit (if \<not> b \<or> succeeded (fst (restart_service port ops)) then ''done'' else ''reset_done_service_failed''),
             succeeded (op_audit ops))] else []))"
proof (cases "fst (stop_service ops)")
  case (Inl e)
  then show ?thesis by (simp add: offline_action_def Let_def case_prod_beta)
next
  case (Inr b)
  then show ?thesis by (cases b) (simp_all add: offline_action_def Let_def case_prod_beta error_of_None)
qed

lemma offline_result:
  assumes "fst (offline_action port ops action params result) = Inr r"
  shows "\<exists>b. fst (stop_service ops) = Inr b
      \<and> succeeded (fst (destructive ops action (dset result ''service_was_active'' (PBool b))))
      \<and> (b \<longrightarrow> succeeded (fst (restart_service port ops)))
      \<and> (action = ''reset_app_data'' \<longrightarrow> succeeded (op_audit ops))"
  using assms
  by (cases "fst (stop_service ops)"; cases "op_audit ops")
    (auto simp: offline_action_def Let_def case_prod_beta error_of_def first_error_def split: option.splits sum.splits if_splits)

lemma offline_execute:
  assumes "action \<in> set offline_actions"
  shows "execute_action port ops action params =
    (let result = [(''action'', PStr action), (''service'', PStr (op_service ops))] in
     if action \<in> {''reset_app_data'', ''configuration_restore''} \<and> safe_int (py_or (get_none params ''_job_id'') (PInt 0)) 0 \<le> 0
       then reject (action @ '' is missing the current maintenance job id'')
     else andthen
       (if action = ''configuration_restore'' then prepare_restore ops params result
        else if action = ''reset_app_data'' then prepare_reset ops params result else give result)
       (\<lambda>r. offline_action port ops action params r))"
proof -
  consider "action = ''clear_monitoring_data''" | "action = ''reset_app_data''" | "action = ''configuration_restore''"
    using assms by (auto simp: offline_actions_def)
  then show ?thesis by cases (simp_all add: execute_action_def Let_def offline_actions_def)
qed

lemma purge_items_events: "events (snd (purge_items ops batch k m its)) \<subseteq> range (case_prod Purge) \<union> range (case_prod Report)"
proof (induction its arbitrary: k)
  case (Cons i its)
  obtain n u where i: "i = (n, u)" by (cases i)
  have p: "Purge n u \<in> range (case_prod Purge)" "Report a b \<in> range (case_prod Report)" for a b
    by (metis case_prod_conv rangeI)+
  show ?case unfolding i purge_items.simps events_andthen using Cons p by (auto simp: events_andthen)
qed simp


lemma purge_events: "events (snd (transactional_purge ops action params)) \<subseteq> range (case_prod Purge) \<union> range (case_prod Report)"
proof -
  have "events (snd (purge_selection ops action b its)) \<subseteq> range (case_prod Purge) \<union> range (case_prod Report)" for b its
    by (simp add: purge_selection_def events_andthen purge_items_events)
  then show ?thesis unfolding transactional_purge_def events_andthen by (auto split: pyval.split)
qed

lemma delete_history_events: "events (snd (delete_history ops key params result)) \<subseteq> range Online"
  by (simp add: delete_history_def wrap_def events_andthen)

text \<open>The actions that stay online never touch the dashboard service or the application data.\<close>

definition online_event :: "event \<Rightarrow> bool" where
  "online_event ev = (case ev of Online _ \<Rightarrow> True | Config_Backup \<Rightarrow> True | Full_Backup \<Rightarrow> True | Full_Verify \<Rightarrow> True
     | Job_Note \<Rightarrow> True | Purge _ _ \<Rightarrow> True | Report _ _ \<Rightarrow> True | _ \<Rightarrow> False)"

lemma online_range: "range Online \<subseteq> Collect online_event"
  "range (case_prod Purge) \<union> range (case_prod Report) \<subseteq> Collect online_event"
  by (auto simp: online_event_def)

lemma online_events:
  assumes "action \<notin> set offline_actions"
  shows "events (snd (execute_action port ops action params)) \<subseteq> Collect online_event"
proof -
  have h: "events (snd (delete_history ops key params result)) \<subseteq> Collect online_event" for key result
    using delete_history_events online_range(1) by blast
  have p: "events (snd (transactional_purge ops action params)) \<subseteq> Collect online_event"
    using purge_events online_range(2) by blast
  have e: "online_event (Online s)" "online_event Config_Backup" "online_event Full_Backup" "online_event Full_Verify"
    "online_event Job_Note" for s by (simp_all add: online_event_def)
  have a: "action \<noteq> ''reset_app_data''" "action \<noteq> ''configuration_restore''" "action \<noteq> ''clear_monitoring_data''"
    using assms by (auto simp: offline_actions_def)
  show ?thesis
    unfolding execute_action_def Let_def wrap_def
    by (simp add: events_andthen h p e a offline_actions_def split: option.split)
qed


lemma execute_reset:
  "execute_action port ops ''reset_app_data'' params =
    (if safe_int (py_or (get_none params ''_job_id'') (PInt 0)) 0 \<le> 0
       then reject ''reset_app_data is missing the current maintenance job id''
     else andthen (prepare_reset ops params [(''action'', PStr ''reset_app_data''), (''service'', PStr (op_service ops))])
       (\<lambda>r. offline_action port ops ''reset_app_data'' params r))"
  by (subst offline_execute) (simp_all add: offline_actions_def Let_def)

lemma offline_reset_after_stop:
  "op_active ops \<Longrightarrow> precedes (Stop_Service, True) (Reset_Data, b) (snd (offline_action port ops action params result))"
proof -
  assume a: "op_active ops"
  have ns: "(Reset_Data, b) \<notin> set (snd (stop_service ops))" by (rule not_in_events[OF _ stop_service_events]) simp
  show ?thesis
  proof (cases "fst (stop_service ops)")
    case (Inl e)
    then show ?thesis using ns by (simp add: offline_trace precedes_absent)
  next
    case (Inr c)
    then have "(Stop_Service, True) \<in> set (snd (stop_service ops))" using a stop_service_spec(1)[OF Inr] by simp
    then show ?thesis unfolding offline_trace using ns by (intro precedes_after) simp_all
  qed
qed

lemma reset_after_events:
  assumes "\<And>r result. fst (prepare_reset ops params result) = Inr r \<Longrightarrow>
      x \<in> set (snd (prepare_reset ops params result)) \<or> precedes x (Reset_Data, b) (snd (offline_action port ops ''reset_app_data'' params r))"
  shows "precedes x (Reset_Data, b) (snd (execute_action port ops ''reset_app_data'' params))"
proof -
  have n: "(Reset_Data, b) \<notin> set (snd (prepare_reset ops params result))" for result
    by (rule not_in_events[OF _ prepare_reset_events]) auto
  have "precedes x (Reset_Data, b) (snd (andthen (prepare_reset ops params result) (\<lambda>r. offline_action port ops ''reset_app_data'' params r)))" for result
    unfolding andthen_snd using assms[of result] n
    by (cases "fst (prepare_reset ops params result)") (auto intro!: precedes_after intro: precedes_absent)
  then show ?thesis by (simp add: execute_reset precedes_absent)
qed

text \<open>A stopped dashboard is started again; the reset is audited exactly when it was committed.\<close>

lemma prepare_no_service:
  "(if action = ''configuration_restore'' then prepare_restore ops params result
    else if action = ''reset_app_data'' then prepare_reset ops params result else give result) = m \<Longrightarrow>
   ev \<in> events (snd m) \<Longrightarrow> ev \<in> {Config_Verify, Config_Backup, Full_Backup} \<union> range Job_Progress"
  using prepare_restore_events prepare_reset_events by (auto split: if_splits) blast+

lemma offline_restart:
  assumes "(Stop_Service, True) \<in> set (snd (offline_action port ops action params result))"
  shows "\<exists>b. (Start_Service, b) \<in> set (snd (offline_action port ops action params result))"
    and "fst (offline_action port ops action params result) = Inr r \<Longrightarrow>
      (Start_Service, True) \<in> set (snd (offline_action port ops action params result))
      \<and> (Health_Check, True) \<in> set (snd (offline_action port ops action params result))"
proof -
  have nd: "(Stop_Service, True) \<notin> set (snd (destructive ops action r))" for r
    by (rule not_in_events[OF _ destructive_events]) auto
  have nr: "(Stop_Service, True) \<notin> set (snd (restart_service port ops))"
    by (rule not_in_events[OF _ restart_events]) auto
  have "fst (stop_service ops) = Inr True"
  proof (cases "fst (stop_service ops)")
    case (Inl e)
    then show ?thesis using assms stop_service_spec(2)[OF Inl] by (simp add: offline_trace)
  next
    case (Inr b)
    then show ?thesis
      using assms nd nr stop_service_spec(1)[OF Inr] by (cases b) (auto simp: offline_trace split: if_splits)
  qed
  note stop = this
  show "\<exists>b. (Start_Service, b) \<in> set (snd (offline_action port ops action params result))"
    using restart_spec(1)[of port ops] by (auto simp: offline_trace stop)
  assume "fst (offline_action port ops action params result) = Inr r"
  then have "succeeded (fst (restart_service port ops))" using offline_result stop by fastforce
  then show "(Start_Service, True) \<in> set (snd (offline_action port ops action params result))
      \<and> (Health_Check, True) \<in> set (snd (offline_action port ops action params result))"
    using restart_spec(2)[of port ops] by (auto simp: offline_trace stop succeeded_iff)
qed

lemma execute_restart:
  assumes stop: "(Stop_Service, True) \<in> set (snd (execute_action port ops action params))"
  shows "\<exists>b. (Start_Service, b) \<in> set (snd (execute_action port ops action params))"
    and "fst (execute_action port ops action params) = Inr r \<Longrightarrow>
      (Start_Service, True) \<in> set (snd (execute_action port ops action params))
      \<and> (Health_Check, True) \<in> set (snd (execute_action port ops action params))"
proof -
  have off: "action \<in> set offline_actions"
    using stop not_in_events[OF _ online_events, of Stop_Service action] by (fastforce simp: online_event_def)
  let ?base = "[(''action'', PStr action), (''service'', PStr (op_service ops))]"
  let ?m = "if action = ''configuration_restore'' then prepare_restore ops params ?base
    else if action = ''reset_app_data'' then prepare_reset ops params ?base else give ?base"
  define m where "m = ?m"
  have n: "(Stop_Service, True) \<notin> set (snd m)" using prepare_no_service[OF refl] events_mem unfolding m_def by blast
  have "execute_action port ops action params = andthen m (\<lambda>r. offline_action port ops action params r)"
    using stop unfolding offline_execute[OF off] Let_def m_def[symmetric] by (auto split: if_splits)
  note e = this
  obtain x where x: "fst m = Inr x" "(Stop_Service, True) \<in> set (snd (offline_action port ops action params x))"
    using stop n unfolding e andthen_snd by (cases "fst m") auto
  show "\<exists>b. (Start_Service, b) \<in> set (snd (execute_action port ops action params))"
    using offline_restart(1)[OF x(2)] by (auto simp: e andthen_snd x(1))
  assume "fst (execute_action port ops action params) = Inr r"
  then have "fst (offline_action port ops action params x) = Inr r" by (simp add: e andthen_fst x(1))
  from offline_restart(2)[OF x(2) this]
  show "(Start_Service, True) \<in> set (snd (execute_action port ops action params))
      \<and> (Health_Check, True) \<in> set (snd (execute_action port ops action params))"
    by (simp add: e andthen_snd x(1))
qed

lemma audit_iff:
  "(\<exists>s b. (Audit s, b) \<in> set (snd (offline_action port ops ''reset_app_data'' params result)))
   \<longleftrightarrow> (Reset_Data, True) \<in> set (snd (offline_action port ops ''reset_app_data'' params result))"
proof -
  have ns: "(Audit s, b) \<notin> set (snd (stop_service ops))" "(Reset_Data, b) \<notin> set (snd (stop_service ops))" for s b
    by (rule not_in_events[OF _ stop_service_events], simp)+
  have nd: "(Audit s, b) \<notin> set (snd (destructive ops a r))" for s b a r
    by (rule not_in_events[OF _ destructive_events]) auto
  have nr: "(Audit s, b) \<notin> set (snd (restart_service port ops))" "(Reset_Data, b) \<notin> set (snd (restart_service port ops))" for s b
    by (rule not_in_events[OF _ restart_events], simp)+
  show ?thesis
  proof (cases "fst (stop_service ops)")
    case (Inl e)
    then show ?thesis by (simp add: offline_trace ns)
  next
    case (Inr b)
    then show ?thesis
      using destructive_reset destructive_reset_done by (auto simp: offline_trace ns nd nr split: if_splits) 
  qed
qed


section \<open>The worker and the row of its job\<close>

lemma job_of_update_job: "job_of i (snd (update_job now k u q)) = map_option
    (\<lambda>j. if jb_id j = k \<and> (case ju_expected u of None \<Rightarrow> True | Some s \<Rightarrow> jb_status j = s) then apply_update now u j else j) (job_of i q)"
  by (simp add: update_job_def Let_def job_of_update apply_update_def)

lemma job_of_id: "job_of i q = Some j \<Longrightarrow> jb_id j = i"
  by (auto simp: job_of_def find_Some_iff)

lemma update_job_other: "i \<noteq> k \<Longrightarrow> job_of i (snd (update_job now k u q)) = job_of i q"
  by (cases "job_of i q") (auto simp: job_of_update_job dest: job_of_id)

lemma update_job_same: "job_of k (snd (update_job now k u q)) = map_option
    (\<lambda>j. if case ju_expected u of None \<Rightarrow> True | Some s \<Rightarrow> jb_status j = s then apply_update now u j else j) (job_of k q)"
  by (cases "job_of k q") (auto simp: job_of_update_job dest: job_of_id)

lemma job_of_update_final: "job_of k (snd (update_job now k (final_update st m) q)) =
    map_option (\<lambda>j. j\<lparr>jb_status := st, jb_message := take 4000 m, jb_finished := Some now,
      jb_heartbeat := (if active st then Some now else jb_heartbeat j), jb_progress := 100\<rparr>) (job_of k q)"
  by (cases "job_of k q") (simp_all add: update_job_same final_update_def apply_update_def)

lemma record_event_other: "i \<noteq> k \<Longrightarrow> job_of i (record_event now k e q) = job_of i q"
  by (cases "(now, k, e, q)" rule: record_event.cases) (simp_all add: update_job_other)

lemma record_event_some: "job_of k (record_event now k e q) = None \<longleftrightarrow> job_of k q = None"
  by (cases "(now, k, e, q)" rule: record_event.cases) (simp_all add: update_job_same)

lemma record_events_some: "job_of k (fold (record_event now k) t q) = None \<longleftrightarrow> job_of k q = None"
  by (induction t arbitrary: q) (simp_all add: record_event_some)

lemma record_events_other: "i \<noteq> k \<Longrightarrow> job_of i (fold (record_event now k) t q) = job_of i q"
  by (induction t arbitrary: q) (simp_all add: record_event_other)

lemma claim_other: "i \<noteq> k \<Longrightarrow> job_of i (snd (worker_claim now free load k q)) = job_of i q"
  by (auto simp: worker_claim_def Let_def case_prod_beta update_job_other split: sum.split)

lemma claim_some: "job_of k (snd (worker_claim now free load k q)) = None \<longleftrightarrow> job_of k q = None"
  by (auto simp: worker_claim_def Let_def case_prod_beta update_job_same split: sum.split)

lemmas worker_rows = record_events_other record_events_some claim_other claim_some update_job_other

lemma worker_main_cases:
  obtains (refused) e where "fst (worker_claim now free load k q) = Inl e"
      "worker_main now later enc port ops free load k q =
        ((1, []), snd (update_job later k (final_update Error e) (snd (worker_claim now free load k q))))"
  | (failed) action params e where "fst (worker_claim now free load k q) = Inr (action, params)"
      "fst (execute_action port ops action params) = Inl e"
      "worker_main now later enc port ops free load k q = ((1, snd (execute_action port ops action params)),
         snd (update_job later k (final_update Error e)
           (fold (record_event later k) (snd (execute_action port ops action params)) (snd (worker_claim now free load k q)))))"
  | (completed) action params r where "fst (worker_claim now free load k q) = Inr (action, params)"
      "fst (execute_action port ops action params) = Inr r"
      "worker_main now later enc port ops free load k q = ((0, snd (execute_action port ops action params)),
         snd (update_job later k (final_update Ok (enc r))
           (fold (record_event later k) (snd (execute_action port ops action params)) (snd (worker_claim now free load k q)))))"
proof (cases "worker_claim now free load k q")
  case (Pair res q1)
  show thesis
  proof (cases res)
    case (Inl e)
    then show thesis using refused Pair by (simp add: worker_main_def)
  next
    case (Inr ap)
    obtain action params where ap: "ap = (action, params)" by (cases ap)
    show thesis
      using failed[of action params] completed[of action params] Pair Inr ap
      by (cases "fst (execute_action port ops action params)") (simp_all add: worker_main_def Let_def case_prod_beta)
  qed
qed

text \<open>However the worker ends, the row of its job is finished, and no other row changes.\<close>

lemma worker_row:
  assumes "worker_main now later enc port ops free load k q = ((rc, t), q')"
  shows "i \<noteq> k \<Longrightarrow> job_of i q' = job_of i q"
    and "job_of k q = None \<longleftrightarrow> job_of k q' = None"
    and "job_of k q' = Some j \<Longrightarrow> jb_status j = (if rc = 0 then Ok else Error) \<and> jb_finished j = Some later \<and> jb_progress j = 100"
    and "rc = 0 \<or> rc = 1"
  by (rule worker_main_cases[of now free load k q later enc port ops];
      use assms in \<open>auto simp: worker_rows job_of_update_final\<close>)+

text \<open>The worker runs an action only after it has claimed the row that waits for it.\<close>

lemma worker_claim_spec:
  assumes "worker_claim now free load k q = (Inr (action, params), q1)"
  shows "free" "\<exists>j. job_of k q = Some j \<and> (jb_status j = Starting \<or> jb_status j = Queued) \<and> action = lower (strip (jb_action j))
      \<and> job_of k q1 = Some (apply_update now (running_update (jb_status j)) j)"
proof -
  show free using assms by (auto simp: worker_claim_def split: if_splits)
  obtain st p where r: "read_job k q = Inr (action, p, st)" "st \<in> {Starting, Queued}"
    "q1 = snd (update_job now k (running_update st) q)"
    using assms by (auto simp: worker_claim_def Let_def case_prod_beta split: if_splits sum.splits)
  then obtain j where j: "job_of k q = Some j" "action = lower (strip (jb_action j))" "st = jb_status j"
    by (auto simp: read_job_def split: option.splits pyval.splits)
  then show "\<exists>j. job_of k q = Some j \<and> (jb_status j = Starting \<or> jb_status j = Queued) \<and> action = lower (strip (jb_action j))
      \<and> job_of k q1 = Some (apply_update now (running_update (jb_status j)) j)"
    using r(2) by (auto simp: r(3) update_job_same running_update_def)
qed


section \<open>Starting and checking the service\<close>

lemma find_upt_Some: "find P [m..<n] = Some a \<longleftrightarrow> m \<le> a \<and> a < n \<and> P a \<and> (\<forall>b. m \<le> b \<longrightarrow> b < a \<longrightarrow> \<not> P b)"
proof -
  have "find P [m..<n] = Some a \<longleftrightarrow> (\<exists>i<n - m. P (m + i) \<and> a = m + i \<and> (\<forall>j<i. \<not> P (m + j)))"
    unfolding find_Some_iff by auto
  also have "\<dots> \<longleftrightarrow> m \<le> a \<and> a < n \<and> P a \<and> (\<forall>b. m \<le> b \<longrightarrow> b < a \<longrightarrow> \<not> P b)"
  proof
    assume "\<exists>i<n - m. P (m + i) \<and> a = m + i \<and> (\<forall>j<i. \<not> P (m + j))"
    then obtain i where i: "i < n - m" "P a" "a = m + i" "\<forall>j<i. \<not> P (m + j)" by blast
    have "\<not> P b" if "m \<le> b" "b < a" for b using i(3,4) that by (metis le_add_diff_inverse nat_add_left_cancel_less)
    then show "m \<le> a \<and> a < n \<and> P a \<and> (\<forall>b. m \<le> b \<longrightarrow> b < a \<longrightarrow> \<not> P b)" using i by auto
  next
    assume "m \<le> a \<and> a < n \<and> P a \<and> (\<forall>b. m \<le> b \<longrightarrow> b < a \<longrightarrow> \<not> P b)"
    then show "\<exists>i<n - m. P (m + i) \<and> a = m + i \<and> (\<forall>j<i. \<not> P (m + j))"
      by (intro exI[of _ "a - m"]) auto
  qed
  finally show ?thesis .
qed

lemma start_service_spec: "start_service_reliably ops n = Inr a \<longleftrightarrow>
    1 \<le> a \<and> a \<le> max 1 n \<and> op_start_rc ops a \<and> op_active_after ops a
    \<and> (\<forall>b. 1 \<le> b \<longrightarrow> b < a \<longrightarrow> \<not> (op_start_rc ops b \<and> op_active_after ops b))"
proof -
  have "start_service_reliably ops n = Inr a \<longleftrightarrow> find (\<lambda>a. op_start_rc ops a \<and> op_active_after ops a) [1..<Suc (max 1 n)] = Some a"
    unfolding start_service_reliably_def by (auto split: option.split simp del: upt_Suc)
  then show ?thesis unfolding find_upt_Some by auto
qed

lemma verify_health_spec: "verify_monitor_health port ops n = Inr a \<Longrightarrow>
    a \<le> max 1 n \<and> (\<forall>u \<in> set (health_urls port). probe_ok u (op_probe ops a u))"
proof -
  assume "verify_monitor_health port ops n = Inr a"
  then have "find (\<lambda>a. list_all (\<lambda>u. probe_ok u (op_probe ops a u)) (health_urls port)) [1..<Suc (max 1 n)] = Some a"
    unfolding verify_monitor_health_def by (auto split: option.splits simp del: upt_Suc)
  then show ?thesis unfolding find_upt_Some by (auto simp: list_all_iff)
qed

section \<open>The order of a purge\<close>

fun purged :: "(event \<times> bool) list \<Rightarrow> (string \<times> string) list" where
  "purged ((Purge n u, True) # t) = (n, u) # purged t"
| "purged (e # t) = purged t"
| "purged [] = []"

lemma purged_Report: "purged ((Report a b, c) # t) = purged t"
  by simp

lemma purge_items_order:
  "case fst (purge_items ops batch k m items) of
     Inr ds \<Rightarrow> purged (snd (purge_items ops batch k m items)) = items \<and> length ds = length items
   | Inl e \<Rightarrow> \<exists>before n u rest. items = before @ (n, u) # rest \<and> op_purge ops n u = Inl e
       \<and> purged (snd (purge_items ops batch k m items)) = before"
proof (induction items arbitrary: k)
  case (Cons i items)
  obtain n u where i: "i = (n, u)" by (cases i)
  show ?case
  proof (cases "op_purge ops n u")
    case (Inl e)
    then show ?thesis unfolding i by (auto simp: act_defs intro: exI[of _ "[]"])
  next
    case (Inr d)
    note IH = Cons.IH[of "Suc k"]
    show ?thesis
    proof (cases "fst (purge_items ops batch (Suc k) m items)")
      case (Inl e)
      with IH obtain before n' u' rest where "items = before @ (n', u') # rest" "op_purge ops n' u' = Inl e"
        "purged (snd (purge_items ops batch (Suc k) m items)) = before" by auto
      then show ?thesis unfolding i using Inr Inl
        by (auto simp: act_defs intro!: exI[of _ "(n, u) # before"])
    next
      case (Inr ds)
      then show ?thesis unfolding i using IH \<open>op_purge ops n u = Inr d\<close> by (auto simp: act_defs)
    qed
  qed
qed simp

lemma selected_nodes_ok: "distinct (selected_nodes raw)" "[] \<notin> set (selected_nodes raw)"
  by (auto simp: selected_nodes_def distinct_dedup_first set_dedup_first)

lemma selected_vms_ok: "distinct (selected_vms raw)" "(n, u) \<in> set (selected_vms raw) \<Longrightarrow> n \<noteq> [] \<and> u \<noteq> []"
  by (auto simp: selected_vms_def distinct_dedup_first set_dedup_first List.map_filter_def Let_def
      split: pyval.splits if_splits)

section \<open>What an accepted manifest guarantees\<close>

text \<open>A path of the manifest neither starts at the root nor climbs out of the directory.\<close>

definition safe_path :: "string \<Rightarrow> bool" where
  "safe_path p = (\<not> starts_with ''/'' p \<and> ''..'' \<notin> set (split_on CHR ''/'' p))"

lemma split_on_parts: "w \<in> set (split_on c s) \<Longrightarrow> c \<notin> set w"
  by (induction s arbitrary: w) (auto split: if_splits list.splits)

lemma manifest_path_safe:
  assumes "manifest_path field = Some p"
  shows "safe_path p"
proof -
  obtain parts s where parts: "parts = path_parts s" "''..'' \<notin> set parts" "p = join ''/'' parts"
    using assms by (auto simp: manifest_path_def Let_def split: if_splits)
  have w: "\<forall>w \<in> set parts. w \<noteq> [] \<and> CHR ''/'' \<notin> set w"
    using split_on_parts by (auto simp: parts(1) path_parts_def)
  show ?thesis
  proof (cases parts)
    case Nil
    then show ?thesis by (simp add: parts(3) safe_path_def join_def starts_with_def)
  next
    case (Cons v vs)
    then have "split_on CHR ''/'' p = parts" using split_on_join[of parts "CHR ''/''"] w by (simp add: parts(3))
    moreover have "\<not> starts_with ''/'' p"
      using w Cons by (cases v; cases vs) (auto simp: parts(3) join_def starts_with_def)
    ultimately show ?thesis using parts(2) by (simp add: safe_path_def)
  qed
qed

lemma manifest_entry_ok:
  assumes "manifest_entry inside sha256 line = Inr (p, h)"
  shows "inside p" "sha256 p = Some h" "safe_path p"
  using assms by (auto simp: manifest_entry_def manifest_path_safe split: list.splits if_splits option.splits)

lemma manifest_lines_keeps: "manifest_lines inside sha256 ls v0 = Inr v \<Longrightarrow> dget v0 p = Some h \<Longrightarrow> dget v p = Some h"
proof (induction ls arbitrary: v0)
  case (Cons l ls)
  then show ?case
    by (fastforce simp: dget_dset split: if_splits sum.splits prod.splits option.splits)
qed simp

lemma manifest_lines_ok:
  "manifest_lines inside sha256 ls v0 = Inr v \<Longrightarrow>
   (\<And>p h. dget v0 p = Some h \<Longrightarrow> safe_path p \<and> inside p \<and> sha256 p = Some h) \<Longrightarrow>
   dget v p = Some h \<Longrightarrow> safe_path p \<and> inside p \<and> sha256 p = Some h"
proof (induction ls arbitrary: v0)
  case (Cons l ls)
  show ?case
  proof (cases "strip l = []")
    case True
    then show ?thesis using Cons by simp
  next
    case False
    then obtain p' h' where e: "manifest_entry inside sha256 (strip l) = Inr (p', h')"
      "manifest_lines inside sha256 ls (dset v0 p' h') = Inr v"
      using Cons.prems(1) by (auto split: sum.splits prod.splits if_splits)
    show ?thesis
      by (rule Cons.IH[OF e(2) _ Cons.prems(3)])
        (use manifest_entry_ok[OF e(1)] Cons.prems(2) in \<open>auto simp: dget_dset split: if_splits\<close>)
  qed
qed simp

lemma manifest_lines_all:
  "manifest_lines inside sha256 ls v0 = Inr v \<Longrightarrow> l \<in> set ls \<Longrightarrow> strip l \<noteq> [] \<Longrightarrow>
   \<exists>p h. manifest_entry inside sha256 (strip l) = Inr (p, h) \<and> dget v p = Some h"
proof (induction ls arbitrary: v0)
  case (Cons k ls)
  show ?case
  proof (cases "strip k = []")
    case True
    then show ?thesis using Cons by auto
  next
    case False
    then obtain p' h' where e: "manifest_entry inside sha256 (strip k) = Inr (p', h')"
      "manifest_lines inside sha256 ls (dset v0 p' h') = Inr v"
      using Cons.prems(1) by (auto split: sum.splits prod.splits if_splits)
    show ?thesis
    proof (cases "l = k")
      case True
      then show ?thesis using e manifest_lines_keeps[OF e(2), of p' h'] by (auto simp: dget_dset)
    next
      case False
      then show ?thesis using Cons.IH[OF e(2)] Cons.prems by auto
    qed
  qed
qed simp


section \<open>Properties\<close>

text \<open>However the worker of a job ends, the row of the job is finished: ok exactly when the
  worker returns zero, error otherwise, and no other row of the queue is written by it.\<close>

theorem worker_finishes_job:
  assumes "worker_main now later enc port ops free load k q = ((rc, t), q')" "job_of k q = Some j"
  shows "(\<exists>j'. job_of k q' = Some j' \<and> jb_status j' = (if rc = 0 then Ok else Error)
      \<and> jb_finished j' = Some later \<and> jb_progress j' = 100) \<and> (\<forall>i. i \<noteq> k \<longrightarrow> job_of i q' = job_of i q)"
proof -
  obtain j' where "job_of k q' = Some j'" using worker_row(2)[OF assms(1)] assms(2) by (cases "job_of k q'") auto
  then show ?thesis using worker_row(1,3)[OF assms(1)] by blast
qed

definition sample_ops :: ops where
  "sample_ops = \<lparr>op_service = ''bw-monitor.service'', op_load_state = ''loaded'', op_active = True,
     op_mark_offline = Inr (), op_stop = Inr (), op_start_rc = (\<lambda>a. a = 2), op_active_after = (\<lambda>a. True),
     op_probe = (\<lambda>a u. Inr (200, u, ''ok'')), op_progress = Inr (), op_checkpoint = Inr PNone, op_retention = Inr PNone,
     op_consumption = None, op_delete_history = (\<lambda>d. Inr (PInt d)), op_purge = (\<lambda>n u. if n = ''bad'' then Inl ''locked'' else Inr PNone),
     op_config_backup = (\<lambda>r p. Inr []), op_config_verify = (\<lambda>b. Inr ()), op_full_backup = (\<lambda>p. Inr []),
     op_full_verify = (\<lambda>b. Inr PNone), op_vacuum = Inr PNone, op_clear_api_logs = Inr PNone, op_clear_api_data = Inr PNone,
     op_clear_monitoring = Inr PNone, op_restore = Inr PNone, op_reset = Inr PNone, op_audit = Inr ()\<rparr>"

definition sample_queue :: "string \<Rightarrow> status \<Rightarrow> queue" where
  "sample_queue action st = \<lparr>q_jobs = [(new_job 1 10 action ''{}'' ''root'')\<lparr>jb_status := st\<rparr>], q_next = 2\<rparr>"

lemma sample_queue_job: "job_of 1 (sample_queue action st) = Some ((new_job 1 10 action ''{}'' ''root'')\<lparr>jb_status := st\<rparr>)"
  by (simp add: sample_queue_def job_of_def new_job_def)

theorem worker_finishes_job_witness:
  "\<exists>t q' j'. worker_main 20 30 (\<lambda>d. ''{}'') 8080 sample_ops True (Inr ()) 1 (sample_queue ''vacuum'' Starting) = ((0, t), q')
     \<and> job_of 1 q' = Some j' \<and> jb_status j' = Ok \<and> jb_finished j' = Some 30"
proof -
  obtain rc t q' where w: "worker_main 20 30 (\<lambda>d. ''{}'') 8080 sample_ops True (Inr ()) 1 (sample_queue ''vacuum'' Starting) = ((rc, t), q')"
    by (metis prod.exhaust)
  have "fst (fst (worker_main 20 30 (\<lambda>d. ''{}'') 8080 sample_ops True (Inr ()) 1 (sample_queue ''vacuum'' Starting))) = 0"
    by code_simp
  then have "rc = 0" by (simp add: w)
  then show ?thesis using worker_finishes_job[OF w sample_queue_job] w by auto
qed

text \<open>Running the unit of a job that is already finished a second time turns its row into an error,
  also when the job had succeeded or had been cancelled: the last update names no expected status.\<close>

theorem second_run_overwrites:
  assumes "job_of k q = Some j" "terminal (jb_status j)"
  shows "\<exists>j'. job_of k (snd (worker_main now later enc port ops free load k q)) = Some j' \<and> jb_status j' = Error
      \<and> fst (fst (worker_main now later enc port ops free load k q)) = 1
      \<and> snd (fst (worker_main now later enc port ops free load k q)) = []"
proof (rule worker_main_cases[of now free load k q later enc port ops])
  fix e assume "fst (worker_claim now free load k q) = Inl e" and w: "worker_main now later enc port ops free load k q =
        ((1, []), snd (update_job later k (final_update Error e) (snd (worker_claim now free load k q))))"
  obtain j1 where "job_of k (snd (worker_claim now free load k q)) = Some j1"
    using claim_some[of k now free load q] assms(1) by (cases "job_of k (snd (worker_claim now free load k q))") auto
  then show ?thesis by (simp add: w job_of_update_final)
next
  fix action params assume "fst (worker_claim now free load k q) = Inr (action, params)"
  then have "worker_claim now free load k q = (Inr (action, params), snd (worker_claim now free load k q))" by (metis prod.collapse)
  from worker_claim_spec(2)[OF this] assms show ?thesis by (auto simp: terminal_def)
next
  fix action params assume "fst (worker_claim now free load k q) = Inr (action, params)"
  then have "worker_claim now free load k q = (Inr (action, params), snd (worker_claim now free load k q))" by (metis prod.collapse)
  from worker_claim_spec(2)[OF this] assms show ?thesis by (auto simp: terminal_def)
qed

theorem second_run_overwrites_witness:
  "\<exists>j'. job_of 1 (snd (worker_main 20 30 (\<lambda>d. ''{}'') 8080 sample_ops True (Inr ()) 1 (sample_queue ''vacuum'' Ok))) = Some j'
     \<and> jb_status j' = Error"
  using second_run_overwrites[of 1 "sample_queue ''vacuum'' Ok" _ 20 30 "\<lambda>d. ''{}''" 8080 sample_ops True "Inr ()", OF sample_queue_job]
  by (auto simp: terminal_def)

text \<open>C35. A reset touches no data before the backups it asks for are made and the dashboard, when it
  ran, is stopped.\<close>

theorem reset_after_backups:
  "(bool_param params ''create_configuration_backup'' True \<longrightarrow>
      precedes (Config_Backup, True) (Reset_Data, b) (snd (execute_action port ops ''reset_app_data'' params)))
   \<and> (bool_param params ''create_full_backup'' False \<longrightarrow>
      precedes (Full_Backup, True) (Reset_Data, b) (snd (execute_action port ops ''reset_app_data'' params)))
   \<and> (op_active ops \<longrightarrow>
      precedes (Stop_Service, True) (Reset_Data, b) (snd (execute_action port ops ''reset_app_data'' params)))"
  by (intro conjI impI reset_after_events)
    (simp_all add: prepare_reset_spec offline_reset_after_stop)

definition reset_params :: "pyval dict" where
  "reset_params = [(''_job_id'', PInt 1), (''create_full_backup'', PBool True)]"

lemma sample_stop: "stop_service sample_ops = (Inr True, [(Stop_Service, True)])"
  by (simp add: stop_service_def sample_ops_def perform_def give_def andthen_def succeeded_def)

lemma sample_restart: "restart_service 8080 sample_ops = (Inr 1, [(Start_Service, True), (Health_Check, True)])"
proof -
  have "start_service_reliably sample_ops 3 = Inr 2" unfolding start_service_spec by (auto simp: sample_ops_def)
  moreover have "verify_monitor_health 8080 sample_ops 30 = Inr 1"
  proof -
    have "strip ''ok'' \<noteq> []" by code_simp
    then have "probe_ok u (op_probe sample_ops a u)" for u a
      by (simp add: sample_ops_def probe_ok_def)
    then show ?thesis by (simp add: verify_monitor_health_def list_all_iff upt_conv_Cons del: upt_Suc)
  qed
  ultimately show ?thesis by (simp add: restart_service_def perform_def andthen_def succeeded_def)
qed

lemma sample_reset: "snd (execute_action 8080 sample_ops ''reset_app_data'' reset_params) =
   [(Job_Progress 10, True), (Config_Backup, True), (Job_Progress 25, True), (Full_Backup, True), (Job_Progress 50, True),
    (Stop_Service, True), (Job_Progress 70, True), (Reset_Data, True), (Start_Service, True), (Health_Check, True), (Audit ''done'', True)]"
   "succeeded (fst (execute_action 8080 sample_ops ''reset_app_data'' reset_params))"
proof -
  have j: "0 < safe_int (py_or (get_none reset_params ''_job_id'') (PInt 0)) 0" by code_simp
  have b: "bool_param reset_params ''create_configuration_backup'' True" "bool_param reset_params ''create_full_backup'' False" by code_simp+
  have p: "\<exists>r. prepare_reset sample_ops reset_params res = (Inr r,
     [(Job_Progress 10, True), (Config_Backup, True), (Job_Progress 25, True), (Full_Backup, True), (Job_Progress 50, True)])" for res
    by (simp add: prepare_reset_def b perform_def give_def andthen_def succeeded_def) (simp add: sample_ops_def)
  have d: "\<exists>r. destructive sample_ops ''reset_app_data'' res = (Inr r, [(Job_Progress 70, True), (Reset_Data, True)])" for res
    by (simp add: destructive_def wrap_def perform_def give_def andthen_def succeeded_def) (simp add: sample_ops_def)
  obtain r where r: "prepare_reset sample_ops reset_params [(''action'', PStr ''reset_app_data''), (''service'', PStr (op_service sample_ops))] = (Inr r,
     [(Job_Progress 10, True), (Config_Backup, True), (Job_Progress 25, True), (Full_Backup, True), (Job_Progress 50, True)])"
    using p by blast
  obtain r' where r': "destructive sample_ops ''reset_app_data'' (dset r ''service_was_active'' (PBool True)) = (Inr r', [(Job_Progress 70, True), (Reset_Data, True)])"
    using d by blast
  have a: "op_audit sample_ops = Inr ()" by (simp add: sample_ops_def)
  show "snd (execute_action 8080 sample_ops ''reset_app_data'' reset_params) =
   [(Job_Progress 10, True), (Config_Backup, True), (Job_Progress 25, True), (Full_Backup, True), (Job_Progress 50, True),
    (Stop_Service, True), (Job_Progress 70, True), (Reset_Data, True), (Start_Service, True), (Health_Check, True), (Audit ''done'', True)]"
    using j by (simp add: execute_reset andthen_snd r offline_trace sample_stop r' sample_restart a)
  show "succeeded (fst (execute_action 8080 sample_ops ''reset_app_data'' reset_params))"
    using j by (simp add: execute_reset andthen_fst r offline_action_def Let_def sample_stop r' sample_restart a perform_def error_of_def first_error_def)
qed

theorem reset_after_backups_witness:
  "precedes (Config_Backup, True) (Reset_Data, True) (snd (execute_action 8080 sample_ops ''reset_app_data'' reset_params))
   \<and> precedes (Full_Backup, True) (Reset_Data, True) (snd (execute_action 8080 sample_ops ''reset_app_data'' reset_params))
   \<and> precedes (Stop_Service, True) (Reset_Data, True) (snd (execute_action 8080 sample_ops ''reset_app_data'' reset_params))
   \<and> (Reset_Data, True) \<in> set (snd (execute_action 8080 sample_ops ''reset_app_data'' reset_params))"
proof -
  have b: "bool_param reset_params ''create_configuration_backup'' True" "bool_param reset_params ''create_full_backup'' False"
    "op_active sample_ops" by code_simp+
  have "(Reset_Data, True) \<in> set (snd (execute_action 8080 sample_ops ''reset_app_data'' reset_params))" by (simp add: sample_reset)
  then show ?thesis using reset_after_backups[of reset_params True 8080 sample_ops] b by blast
qed



text \<open>An action other than clearing, restoring and resetting never stops the dashboard and never
  clears, restores or resets its data.\<close>

theorem online_actions_stay_online:
  assumes "action \<notin> set offline_actions"
  shows "events (snd (execute_action port ops action params)) \<inter>
    {Stop_Service, Start_Service, Clear_Monitoring, Config_Restore, Reset_Data} = {}"
  using online_events[OF assms, of port ops params] by (auto simp: online_event_def)

theorem online_actions_stay_online_witness:
  "events (snd (execute_action 8080 sample_ops ''delete_compact'' reset_params)) = {Online ''delete'', Job_Note, Online ''vacuum''}
   \<and> events (snd (execute_action 8080 sample_ops ''delete_compact'' reset_params)) \<inter>
    {Stop_Service, Start_Service, Clear_Monitoring, Config_Restore, Reset_Data} = {}"
proof -
  have "events (snd (execute_action 8080 sample_ops ''delete_compact'' reset_params)) = {Online ''delete'', Job_Note, Online ''vacuum''}"
    by code_simp
  then show ?thesis using online_actions_stay_online[of "''delete_compact''" 8080 sample_ops reset_params]
    by (simp add: offline_actions_def)
qed

text \<open>Exactly the resets that were committed are recorded in the audit, also when the dashboard
  could not be started afterwards.\<close>

theorem reset_audited:
  "(\<exists>s b. (Audit s, b) \<in> set (snd (execute_action port ops ''reset_app_data'' params)))
   \<longleftrightarrow> (Reset_Data, True) \<in> set (snd (execute_action port ops ''reset_app_data'' params))"
proof -
  have n: "(Audit s, b) \<notin> set (snd (prepare_reset ops params r))" "(Reset_Data, b) \<notin> set (snd (prepare_reset ops params r))" for s b r
    using not_in_events[OF _ prepare_reset_events] by blast+
  show ?thesis
    by (cases "fst (prepare_reset ops params [(''action'', PStr ''reset_app_data''), (''service'', PStr (op_service ops))])")
      (simp_all add: execute_reset andthen_snd n audit_iff)
qed

text \<open>A purge works through its selection in order, one transaction for each item: it ends with
  all items purged, or stops at the first item that fails with the items before it purged.\<close>

theorem purge_in_order:
  "case fst (purge_items ops batch k m items) of
     Inr ds \<Rightarrow> purged (snd (purge_items ops batch k m items)) = items \<and> length ds = length items
   | Inl e \<Rightarrow> \<exists>before n u rest. items = before @ (n, u) # rest \<and> op_purge ops n u = Inl e
       \<and> purged (snd (purge_items ops batch k m items)) = before"
  by (rule purge_items_order)

text \<open>A backup whose manifest is accepted is intact: every line names a file below the directory
  of the backup whose digest is the one recorded, and the dump and its list are among them.\<close>

theorem manifest_verified:
  assumes "verify_backup_manifest inside sha256 sums_txt = Inr verified"
  shows "(\<forall>l \<in> set (splitlines sums_txt). strip l \<noteq> [] \<longrightarrow>
      (\<exists>p h. manifest_entry inside sha256 (strip l) = Inr (p, h) \<and> dget verified p = Some h))
    \<and> (\<forall>p h. dget verified p = Some h \<longrightarrow> safe_path p \<and> inside p \<and> sha256 p = Some h)
    \<and> dget verified ''database.dump'' \<noteq> None \<and> dget verified ''database.list'' \<noteq> None"
proof -
  have m: "manifest_lines inside sha256 (splitlines sums_txt) [] = Inr verified"
    and c: "dget verified ''database.dump'' \<noteq> None" "dget verified ''database.list'' \<noteq> None"
    using assms by (auto simp: verify_backup_manifest_def split: sum.splits if_splits)
  show ?thesis using manifest_lines_all[OF m] manifest_lines_ok[OF m] c by simp
qed

definition sample_manifest :: string where
  "sample_manifest = replicate 64 CHR ''a'' @ ''  ./database.dump'' @ [CHR 0x0A] @ replicate 64 CHR ''b'' @ ''  database.list''"

definition sample_digest :: "string \<Rightarrow> string option" where
  "sample_digest p = (if p = ''database.dump'' then Some (replicate 64 CHR ''a'')
     else if p = ''database.list'' then Some (replicate 64 CHR ''b'') else None)"

theorem manifest_verified_witness:
  "\<exists>v. verify_backup_manifest (\<lambda>p. True) sample_digest sample_manifest = Inr v
     \<and> dget v ''database.dump'' = Some (replicate 64 CHR ''a'') \<and> safe_path ''database.dump''"
proof -
  have v: "verify_backup_manifest (\<lambda>p. True) sample_digest sample_manifest
     = Inr [(''database.dump'', replicate 64 CHR ''a''), (''database.list'', replicate 64 CHR ''b'')]" by code_simp
  then show ?thesis using manifest_verified[OF v] by simp
qed

end
