(* ===== verification/Maint_System.thy ===== *)
theory Maint_System
  imports Maint_Worker
begin

text \<open>
  The maintenance queue, its dispatcher and the worker together: the queue served in order, the
  recovery of stale jobs, the steps the processes take on the shared table, and the retention
  runner (app/retention.py) that shares the lock.
\<close>


section \<open>The queue served by the worker\<close>

text \<open>The end of the action of the active job, as \<open>main\<close> writes it.\<close>

definition finish_active :: "int \<Rightarrow> status \<Rightarrow> string \<Rightarrow> queue \<Rightarrow> queue" where
  "finish_active now st message q = (case active_ids q of
     i # _ \<Rightarrow> snd (update_job now i (final_update st message) q) | [] \<Rightarrow> q)"

lemma waiting_update:
  assumes "\<And>j. j \<in> set (q_jobs q) \<Longrightarrow> P j \<Longrightarrow> \<not> claimable (\<lambda>_. False) j \<and> \<not> claimable (\<lambda>_. False) (f j)"
  shows "waiting_ids (q\<lparr>q_jobs := update_where P f (q_jobs q)\<rparr>) = waiting_ids q"
proof -
  have "(\<And>j. j \<in> set js \<Longrightarrow> P j \<Longrightarrow> \<not> claimable (\<lambda>_. False) j \<and> \<not> claimable (\<lambda>_. False) (f j)) \<Longrightarrow>
    filter (claimable (\<lambda>_. False)) (update_where P f js) = filter (claimable (\<lambda>_. False)) js" for js
    by (induction js) (auto simp: update_where_def)
  then show ?thesis using assms by (simp add: waiting_ids_def)
qed

lemma retire_active:
  assumes "queue_ok q" "active_ids q = [i]"
    and P: "\<And>j. P j \<Longrightarrow> jb_id j = i" "\<And>j. j \<in> set (q_jobs q) \<Longrightarrow> active_row j \<Longrightarrow> P j"
    and f: "\<And>j. P j \<Longrightarrow> \<not> active_row (f j) \<and> jb_status (f j) \<noteq> Queued"
  shows "active_ids (q\<lparr>q_jobs := update_where P f (q_jobs q)\<rparr>) = []"
    and "waiting_ids (q\<lparr>q_jobs := update_where P f (q_jobs q)\<rparr>) = waiting_ids q"
proof -
  show "active_ids (q\<lparr>q_jobs := update_where P f (q_jobs q)\<rparr>) = []"
    using P(2) f by (auto simp: active_ids_def filter_empty_conv set_update_where)
  have d: "distinct (map jb_id (q_jobs q))" using assms(1) by (simp add: queue_ok_def)
  have "i \<in> set (active_ids q)" using assms(2) by simp
  then obtain r where r: "r \<in> set (q_jobs q)" "jb_id r = i" "active_row r" by (auto simp: active_ids_def)
  show "waiting_ids (q\<lparr>q_jobs := update_where P f (q_jobs q)\<rparr>) = waiting_ids q"
  proof (rule waiting_update)
    fix j assume "j \<in> set (q_jobs q)" "P j"
    then have "j = r" using P(1) r d by (metis distinct_map inj_onD)
    then show "\<not> claimable (\<lambda>_. False) j \<and> \<not> claimable (\<lambda>_. False) (f j)"
      using r(3) f[OF \<open>P j\<close>] by (auto simp: claimable_def active_row_def active_def)
  qed
qed

lemma claim_takes_first:
  assumes "queue_ok q" "active_ids q = []" "waiting_ids q = i # is"
  shows "\<exists>u. fst (claim_next now (\<lambda>_. False) q) = Some (i, u)"
    and "active_ids (snd (claim_next now (\<lambda>_. False) q)) = [i]"
    and "waiting_ids (snd (claim_next now (\<lambda>_. False) q)) = is"
proof -
  let ?c = "claimable (\<lambda>_. False)"
  obtain r rs where r: "sort_key jb_id (filter ?c (q_jobs q)) = r # rs" "jb_id r = i" "map jb_id rs = is"
    using assms(3) unfolding waiting_ids_def by (cases "sort_key jb_id (filter ?c (q_jobs q))") auto
  have idle: "\<not> list_ex active_row (q_jobs q)"
    using assms(2) by (auto simp: active_ids_def filter_empty_conv list_ex_iff)
  have c: "claim_next now (\<lambda>_. False) q = (Some (i, jb_unit r),
      q\<lparr>q_jobs := update_where (\<lambda>j. jb_id j = i) (claim_row now) (q_jobs q)\<rparr>)"
    using idle r by (simp add: claim_next_def select_first_def)
  show "\<exists>u. fst (claim_next now (\<lambda>_. False) q) = Some (i, u)" by (simp add: c)
  show "active_ids (snd (claim_next now (\<lambda>_. False) q)) = [i]" using claim_spec(4)[OF assms(1) c] by (simp add: c)
  have "filter ?c (update_where (\<lambda>j. jb_id j = i) (claim_row now) js) = filter (\<lambda>j. jb_id j \<noteq> i) (filter ?c js)" for js
    by (induction js) (auto simp: update_where_def claimable_def claim_row_def)
  then have "waiting_ids (snd (claim_next now (\<lambda>_. False) q)) = map jb_id (filter (\<lambda>j. jb_id j \<noteq> i) (r # rs))"
    unfolding c snd_conv waiting_ids_def r(1)[symmetric] filter_sort by simp
  also have "\<dots> = filter (\<lambda>k. k \<noteq> i) (i # is)" using r(2,3) by (auto simp: filter_map comp_def)
  also have "\<dots> = is"
  proof -
    have "distinct (map jb_id (filter ?c (q_jobs q)))"
      using assms(1) by (auto simp: queue_ok_def intro: distinct_map_filter)
    then have "distinct (waiting_ids q)"
      by (simp add: waiting_ids_def distinct_map)
    then have "i \<notin> set is" by (simp add: assms(3))
    then show ?thesis by (auto simp: filter_id_conv)
  qed
  finally show "waiting_ids (snd (claim_next now (\<lambda>_. False) q)) = is" .
qed

lemma settles_rows: "(\<And>j. j \<in> set (q_jobs q) \<Longrightarrow> P j \<Longrightarrow> jb_id (f j) = jb_id j \<and> jb_action (f j) = jb_action j
     \<and> (pending_job (f j) \<longrightarrow> pending_job j) \<and> (active_row (f j) \<longrightarrow> active_row j)) \<Longrightarrow> queue_inv q \<Longrightarrow>
   queue_inv (q\<lparr>q_jobs := update_where P f (q_jobs q)\<rparr>)"
proof -
  assume a: "\<And>j. j \<in> set (q_jobs q) \<Longrightarrow> P j \<Longrightarrow> jb_id (f j) = jb_id j \<and> jb_action (f j) = jb_action j
     \<and> (pending_job (f j) \<longrightarrow> pending_job j) \<and> (active_row (f j) \<longrightarrow> active_row j)" and q: "queue_inv q"
  have e: "update_where P f (q_jobs q) = update_where (\<lambda>j. P j \<and> j \<in> set (q_jobs q)) f (q_jobs q)"
    by (simp add: update_where_def)
  show ?thesis unfolding e by (rule settles_inv[OF _ q]) (use a in \<open>auto simp: settles_def\<close>)
qed

lemma final_update_inv: "terminal st \<Longrightarrow> queue_inv q \<Longrightarrow> queue_inv (snd (update_job now k (final_update st m) q))"
  unfolding update_job_def Let_def snd_conv
  by (rule settles_rows)
    (auto simp: apply_update_def final_update_def terminal_def pending_job_def active_row_def active_def)

lemma finish_active_spec:
  assumes "queue_inv q" "active_ids q = [i]" "terminal st"
  shows "active_ids (finish_active now st m q) = []" "waiting_ids (finish_active now st m q) = waiting_ids q"
proof -
  have ok: "queue_ok q" using assms(1) by (simp add: queue_inv_def)
  have e: "finish_active now st m q = q\<lparr>q_jobs := update_where (\<lambda>j. jb_id j = i) (apply_update now (final_update st m)) (q_jobs q)\<rparr>"
    by (simp add: finish_active_def assms(2) update_job_def Let_def final_update_def)
  have p: "active_row j \<Longrightarrow> j \<in> set (q_jobs q) \<Longrightarrow> jb_id j = i" for j
  proof -
    assume "active_row j" "j \<in> set (q_jobs q)"
    then have "jb_id j \<in> set (active_ids q)" by (auto simp: active_ids_def)
    then show "jb_id j = i" by (simp add: assms(2))
  qed
  have f: "\<not> active_row (apply_update now (final_update st m) j) \<and> jb_status (apply_update now (final_update st m) j) \<noteq> Queued" for j
    using assms(3) by (auto simp: apply_update_def final_update_def active_row_def active_def terminal_def)
  show "active_ids (finish_active now st m q) = []" "waiting_ids (finish_active now st m q) = waiting_ids q"
    unfolding e using retire_active[OF ok assms(2), of "\<lambda>j. jb_id j = i"] p f by auto
qed

interpretation maintenance: fifo_service queue_inv waiting_ids active_ids
    "\<lambda>q. snd (claim_next now (\<lambda>_. False) q)" "finish_active later Ok message"
  for now later message
proof
  fix q assume q: "queue_inv q"
  show "queue_inv (snd (claim_next now (\<lambda>_. False) q))" using q by (rule claim_inv)
  show "queue_inv (finish_active later Ok message q)"
    using q by (auto simp: finish_active_def terminal_def final_update_inv split: list.split)
next
  fix q i "is" assume "queue_inv q" "active_ids q = []" "waiting_ids q = i # is"
  then show "active_ids (snd (claim_next now (\<lambda>_. False) q)) = [i] \<and> waiting_ids (snd (claim_next now (\<lambda>_. False) q)) = is"
    using claim_takes_first by (simp add: queue_inv_def)
next
  fix q i assume "queue_inv q" "active_ids q = [i]"
  then show "active_ids (finish_active later Ok message q) = [] \<and> waiting_ids (finish_active later Ok message q) = waiting_ids q"
    using finish_active_spec by (simp add: terminal_def)
qed

section \<open>Recovery and the next job\<close>

definition known_actions :: "queue \<Rightarrow> bool" where
  "known_actions q = (\<forall>j \<in> set (q_jobs q). jb_action j \<in> set ALLOWED_ACTIONS)"

lemma retire_legacy_id: "known_actions q \<Longrightarrow> retire_legacy now q = q"
proof -
  assume a: "known_actions q"
  have "update_where (\<lambda>j. jb_action j \<in> set LEGACY_ACTIONS \<and> pending_job j) f (q_jobs q) = q_jobs q" for f
    using a by (auto simp: update_where_def known_actions_def LEGACY_ACTIONS_def ALLOWED_ACTIONS_def intro!: map_idI)
  then show ?thesis by (simp add: retire_legacy_def)
qed

lemma recover_frees:
  assumes inv: "queue_inv q" and known: "known_actions q"
    and dead: "\<And>j. j \<in> set (q_jobs q) \<Longrightarrow> active_row j \<Longrightarrow> \<not> ua (jb_unit j) \<and> stale now j"
  shows "active_ids (recover_stale_rows now ua q) = []" "waiting_ids (recover_stale_rows now ua q) = waiting_ids q"
proof -
  have ok: "queue_ok q" and one: "length (filter active_row (q_jobs q)) \<le> 1"
    using inv by (simp_all add: queue_inv_def one_active_def)
  have "active_ids (recover_stale_rows now ua q) = [] \<and> waiting_ids (recover_stale_rows now ua q) = waiting_ids q"
  proof (cases "filter active_row (q_jobs q)")
    case Nil
    then show ?thesis by (simp add: recover_stale_rows_def Let_def retire_legacy_id[OF known] active_ids_def)
  next
    case (Cons r rs)
    then have f: "filter active_row (q_jobs q) = [r]" using one by simp
    then have ids: "active_ids q = [jb_id r]" by (simp add: active_ids_def)
    have members: "{j \<in> set (q_jobs q). active_row j} = {r}" using arg_cong[OF f, of set] by simp
    then have r: "r \<in> set (q_jobs q)" "active_row r" by auto
    have only: "j \<in> set (q_jobs q) \<Longrightarrow> active_row j \<Longrightarrow> j = r" for j using members by auto
    have "recover_stale_rows now ua q = recover_row now ua r q"
      by (simp add: recover_stale_rows_def Let_def retire_legacy_id[OF known] f)
    also have "\<dots> = q\<lparr>q_jobs := update_where (\<lambda>j. jb_id j = jb_id r \<and> jb_status j = jb_status r)
        (\<lambda>j. j\<lparr>jb_status := Error, jb_finished := Some now, jb_progress := 100,
           jb_message := ''Recovered stale job; systemd unit is inactive''\<rparr>) (q_jobs q)\<rparr>"
      using dead[OF r] by (simp add: recover_row_def)
    finally have e: "recover_stale_rows now ua q = \<dots>" .
    show ?thesis unfolding e
      by (intro conjI retire_active[OF ok ids]) (use only in \<open>auto simp: active_row_def active_def\<close>)
  qed
  then show "active_ids (recover_stale_rows now ua q) = []" "waiting_ids (recover_stale_rows now ua q) = waiting_ids q" by simp_all
qed

lemma dispatch_progress:
  assumes "queue_inv q" "known_actions q" "waiting_ids q = i # is"
    and "\<And>j. j \<in> set (q_jobs q) \<Longrightarrow> active_row j \<Longrightarrow> \<not> ua (jb_unit j) \<and> stale now j"
    and start: "\<And>u. start_failure u = None"
  shows "fst (dispatch now ua (\<lambda>_. False) start_failure q) = 0"
    and "active_ids (snd (dispatch now ua (\<lambda>_. False) start_failure q)) = [i]"
    and "waiting_ids (snd (dispatch now ua (\<lambda>_. False) start_failure q)) = is"
proof -
  let ?q = "recover_stale_rows now ua q"
  note f = recover_frees[OF assms(1,2,4)]
  have ok: "queue_ok ?q" using recover_inv[OF assms(1)] by (simp add: queue_inv_def)
  have w: "active_ids ?q = []" "waiting_ids ?q = i # is" using f assms(3) by simp_all
  note c = claim_takes_first[OF ok w, of now]
  obtain u where u: "claim_next now (\<lambda>_. False) ?q = (Some (i, u), snd (claim_next now (\<lambda>_. False) ?q))"
    using c(1) by (metis prod.collapse)
  have d: "dispatch now ua (\<lambda>_. False) start_failure q = (0, snd (claim_next now (\<lambda>_. False) ?q))"
    unfolding dispatch_def by (subst u) (simp add: start)
  show "fst (dispatch now ua (\<lambda>_. False) start_failure q) = 0"
    "active_ids (snd (dispatch now ua (\<lambda>_. False) start_failure q)) = [i]"
    "waiting_ids (snd (dispatch now ua (\<lambda>_. False) start_failure q)) = is"
    using c(2,3) by (simp_all add: d)
qed


section \<open>The processes on the shared table\<close>

text \<open>
  A web process enqueues and cancels, a dispatcher recovers and claims, the unit of a started job
  runs the worker, which holds the lock until it ends or is killed. \<open>m_worker\<close> is the job whose
  worker holds the lock. systemd answers that the unit of the holder is active; a unit is started
  by the dispatcher only; a reset is enqueued as exclusive.
\<close>

definition enqueue_maintenance_job :: "int \<Rightarrow> bool \<times> string \<Rightarrow> (pyval dict \<Rightarrow> string) \<Rightarrow> string \<Rightarrow> pyval dict \<Rightarrow> string
    \<Rightarrow> queue \<Rightarrow> (string + int \<times> string) \<times> queue" where
  "enqueue_maintenance_job now woke encode action parameters actor q =
     (let payload = (if dget parameters ''requested_by'' = None
            then dset parameters ''requested_by'' (PStr (str_or actor ''admin'')) else parameters) in
      enqueue_job now woke action (encode payload) (str_or actor ''admin'')
        (lower (strip action) \<in> {''reset_app_data'', ''configuration_restore''}) q)"

record maint =
  m_queue :: queue
  m_worker :: "int option"

definition maint_start :: maint where
  "maint_start = \<lparr>m_queue = empty_queue, m_worker = None\<rparr>"

inductive mstep :: "maint \<Rightarrow> maint \<Rightarrow> bool" where
  enqueue: "mstep m (m\<lparr>m_queue := snd (enqueue_maintenance_job now woke encode action parameters actor (m_queue m))\<rparr>)"
| cancel: "mstep m (m\<lparr>m_queue := snd (cancel_queued_job now i actor (m_queue m))\<rparr>)"
| dispatch: "(\<And>i. m_worker m = Some i \<Longrightarrow> unit_active (unit_name i)) \<Longrightarrow>
    mstep m (m\<lparr>m_queue := snd (dispatch now unit_active locked start_failure (m_queue m))\<rparr>)"
| begin_action: "job_of k (m_queue m) = Some j \<Longrightarrow> jb_status j = Starting \<Longrightarrow>
    worker_claim now (m_worker m = None) load k (m_queue m) = (Inr a, q) \<Longrightarrow> mstep m \<lparr>m_queue = q, m_worker = Some k\<rparr>"
| begin_refused: "job_of k (m_queue m) = Some j \<Longrightarrow> jb_status j = Starting \<Longrightarrow>
    worker_claim now (m_worker m = None) load k (m_queue m) = (Inl e, q) \<Longrightarrow>
    mstep m (m\<lparr>m_queue := snd (update_job now k (final_update Error e) q)\<rparr>)"
| beat: "m_worker m = Some k \<Longrightarrow> mstep m (m\<lparr>m_queue := heartbeat_job now k (m_queue m)\<rparr>)"
| report: "m_worker m = Some k \<Longrightarrow> mstep m (m\<lparr>m_queue := record_event now k e (m_queue m)\<rparr>)"
| finish: "m_worker m = Some k \<Longrightarrow> st = Ok \<or> st = Error \<Longrightarrow>
    mstep m \<lparr>m_queue = snd (update_job now k (final_update st message) (m_queue m)), m_worker = None\<rparr>"
| killed: "mstep m (m\<lparr>m_worker := None\<rparr>)"

inductive mreachable :: "maint \<Rightarrow> bool" where
  start: "mreachable maint_start"
| step: "mreachable m \<Longrightarrow> mstep m m' \<Longrightarrow> mreachable m'"

text \<open>The action and the unit of a row never change; the job that holds the lock is running.\<close>

definition rows_ok :: "queue \<Rightarrow> bool" where
  "rows_ok q = (known_actions q \<and> (\<forall>j \<in> set (q_jobs q). jb_unit j = unit_name (jb_id j)))"

definition maint_inv :: "maint \<Rightarrow> bool" where
  "maint_inv m = (queue_inv (m_queue m) \<and> rows_ok (m_queue m)
     \<and> (case m_worker m of None \<Rightarrow> True
        | Some k \<Rightarrow> (\<exists>j. job_of k (m_queue m) = Some j \<and> jb_status j = Running)))"

lemma rows_ok_update: "rows_ok q \<Longrightarrow> (\<And>j. P j \<Longrightarrow> jb_id (f j) = jb_id j \<and> jb_action (f j) = jb_action j \<and> jb_unit (f j) = jb_unit j) \<Longrightarrow>
   rows_ok (q\<lparr>q_jobs := update_where P f (q_jobs q)\<rparr>)"
  by (auto simp: rows_ok_def known_actions_def set_update_where)

lemma rows_ok_enqueue: "rows_ok q \<Longrightarrow> rows_ok (snd (enqueue_job now woke action params actor ex q))"
proof -
  assume r: "rows_ok q"
  have n: "rows_ok q' \<Longrightarrow> rows_ok (note_failed_wake i d q')" for i d q'
    unfolding note_failed_wake_def by (rule rows_ok_update) auto
  have "lower (strip action) \<in> set ALLOWED_ACTIONS \<Longrightarrow>
      rows_ok \<lparr>q_jobs = q_jobs q @ [new_job i now (lower (strip action)) params actor], q_next = k\<rparr>" for i k
    using r by (auto simp: rows_ok_def known_actions_def new_job_def)
  then show ?thesis using r n by (auto simp: enqueue_job_def Let_def)
qed

lemma rows_ok_update_job: "rows_ok q \<Longrightarrow> rows_ok (snd (update_job now k u q))"
  unfolding update_job_def Let_def snd_conv by (rule rows_ok_update) (auto simp: apply_update_def)

lemma rows_ok_claim: "rows_ok q \<Longrightarrow> rows_ok (snd (claim_next now locked q))"
  by (auto simp: claim_next_def claim_row_def split: option.split intro!: rows_ok_update)

lemma rows_ok_recover: "rows_ok q \<Longrightarrow> rows_ok (recover_stale_rows now ua q)"
proof -
  have "rows_ok q \<Longrightarrow> rows_ok (recover_row now ua r q)" for r q
    by (auto simp: recover_row_def intro!: rows_ok_update)
  then have "rows_ok q \<Longrightarrow> rows_ok (fold (recover_row now ua) rs q)" for rs q
    by (induction rs arbitrary: q) simp_all
  moreover have "rows_ok q \<Longrightarrow> rows_ok (retire_legacy now q)"
    by (auto simp: retire_legacy_def intro!: rows_ok_update)
  ultimately show "rows_ok q \<Longrightarrow> rows_ok (recover_stale_rows now ua q)"
    by (simp add: recover_stale_rows_def Let_def)
qed

lemma rows_ok_dispatch: "rows_ok q \<Longrightarrow> rows_ok (snd (dispatch now ua locked sf q))"
  using rows_ok_claim[OF rows_ok_recover, of q now locked now ua]
  by (auto simp: dispatch_def mark_start_error_def split: prod.split option.split intro!: rows_ok_update)

lemma record_event_rows: "rows_ok q \<Longrightarrow> rows_ok (record_event now k e q)"
  by (cases "(now, k, e, q)" rule: record_event.cases) (simp_all add: rows_ok_update_job)

text \<open>An update of the running row of the worker.\<close>

lemma running_row:
  assumes "queue_inv q" "job_of k q = Some j" "jb_status j = Running" "i \<in> set (q_jobs q)" "jb_id i = k"
  shows "i = j"
  using assms job_of_mem[of q i] by (simp add: queue_inv_def)

lemma update_running_inv:
  assumes "queue_inv q" "job_of k q = Some j" "jb_status j = Running"
    and "\<And>i. P i \<Longrightarrow> jb_id i = k" "\<And>i. P i \<Longrightarrow> jb_id (f i) = jb_id i \<and> jb_action (f i) = jb_action i"
  shows "queue_inv (q\<lparr>q_jobs := update_where P f (q_jobs q)\<rparr>)"
proof (rule settles_rows[OF _ assms(1)])
  fix i assume "i \<in> set (q_jobs q)" "P i"
  moreover from this have "i = j" using running_row[OF assms(1-3)] assms(4) by blast
  ultimately show "jb_id (f i) = jb_id i \<and> jb_action (f i) = jb_action i
     \<and> (pending_job (f i) \<longrightarrow> pending_job i) \<and> (active_row (f i) \<longrightarrow> active_row i)"
    using assms(3,5) by (auto simp: pending_job_def active_row_def active_def)
qed

lemma record_event_inv:
  assumes "queue_inv q" "job_of k q = Some j" "jb_status j = Running"
  shows "queue_inv (record_event now k e q)" "\<exists>j'. job_of k (record_event now k e q) = Some j' \<and> jb_status j' = Running"
proof -
  have u: "queue_inv (snd (update_job now k (progress_update p b) q))" for p b
    unfolding update_job_def Let_def snd_conv
    by (rule update_running_inv[OF assms]) (auto simp: apply_update_def)
  have s: "\<exists>j'. job_of k (snd (update_job now k (progress_update p b) q)) = Some j' \<and> jb_status j' = Running" for p b
    using assms(2) by (simp add: update_job_same progress_update_def apply_update_def)
  show "queue_inv (record_event now k e q)" "\<exists>j'. job_of k (record_event now k e q) = Some j' \<and> jb_status j' = Running"
    by (cases "(now, k, e, q)" rule: record_event.cases; use assms u s in simp)+
qed


lemma job_of_cancel_running:
  "job_of k q = Some j \<Longrightarrow> jb_status j = Running \<Longrightarrow> job_of k (snd (cancel_queued_job now i actor q)) = Some j"
  by (simp add: cancel_queued_job_def Let_def job_of_update)

lemma job_of_enqueue:
  assumes "queue_ok q" "job_of k q = Some j" "jb_status j \<noteq> Queued"
  shows "job_of k (snd (enqueue_job now woke action params actor ex q)) = Some j"
proof -
  have a: "job_of k \<lparr>q_jobs = q_jobs q @ [r], q_next = n\<rparr> = Some j" for r n
    using assms(2) by (auto simp: job_of_def find_Some_iff nth_append)
  have "job_of k q' = Some j \<Longrightarrow> job_of k (note_failed_wake i d q') = Some j" for i d q'
    using assms(3) by (simp add: note_failed_wake_def job_of_update)
  then show ?thesis using a assms(2) by (simp add: enqueue_job_def Let_def)
qed

lemma active_claims_nothing:
  assumes "job_of k q = Some j" "active (jb_status j)"
  shows "claim_next now locked q = (None, q)"
proof -
  have "j \<in> set (q_jobs q)" using assms(1) by (auto simp: job_of_def find_Some_iff)
  then have "list_ex active_row (q_jobs q)" using assms(2) by (auto simp: list_ex_iff active_row_def)
  then show ?thesis by (simp add: claim_next_def)
qed

lemma dispatch_keeps_holder:
  assumes "queue_inv q" "rows_ok q" "job_of k q = Some j" "jb_status j = Running" "ua (unit_name k)"
  shows "job_of k (snd (dispatch now ua locked sf q)) = Some j"
proof -
  have j: "j \<in> set (q_jobs q)" "jb_id j = k" using assms(3) by (auto simp: job_of_def find_Some_iff)
  have "jb_unit j = unit_name k" "jb_action j \<notin> set LEGACY_ACTIONS"
    using assms(2) j by (auto simp: rows_ok_def known_actions_def LEGACY_ACTIONS_def ALLOWED_ACTIONS_def)
  then have r: "job_of k (recover_stale_rows now ua q) = Some j"
    using recover_keeps_live[of q k j ua now] assms by (simp add: queue_inv_def)
  then show ?thesis
    using active_claims_nothing[OF r] assms(4) by (simp add: dispatch_def active_def)
qed

lemma claim_worker_inv:
  assumes "queue_inv q" "job_of k q = Some j" "jb_status j = Starting" "worker_claim now free load k q = (Inr a, q')"
  shows "queue_inv q'" "\<exists>j'. job_of k q' = Some j' \<and> jb_status j' = Running" "q' = snd (update_job now k (running_update Starting) q)"
proof -
  have "\<exists>action p. read_job k q = Inr (action, p, Starting) \<and> q' = snd (update_job now k (running_update Starting) q)"
    using assms(2-4) by (auto simp: worker_claim_def Let_def case_prod_beta read_job_def
        split: if_splits sum.splits option.splits pyval.splits)
  then show q: "q' = snd (update_job now k (running_update Starting) q)" by blast
  show "queue_inv q'" unfolding q update_job_def Let_def snd_conv
    by (rule settles_inv[OF _ assms(1)])
      (auto simp: settles_def running_update_def apply_update_def pending_job_def active_row_def active_def)
  show "\<exists>j'. job_of k q' = Some j' \<and> jb_status j' = Running"
    unfolding q using assms(2,3) by (simp add: update_job_same running_update_def apply_update_def)
qed

lemma claim_worker_refused:
  assumes "queue_inv q" "rows_ok q" "job_of k q = Some j" "jb_status j = Starting" "worker_claim now free load k q = (Inl e, q')"
  shows "q' = q"
proof -
  have "rowcount (\<lambda>i. jb_id i = k \<and> jb_status i = Starting) (q_jobs q) = 1"
  proof -
    have j: "j \<in> set (q_jobs q)" "jb_id j = k" using assms(3) by (auto simp: job_of_def find_Some_iff)
    have d: "distinct (map jb_id (q_jobs q))" using assms(1) by (simp add: queue_inv_def queue_ok_def)
    have "filter (\<lambda>i. jb_id i = k \<and> jb_status i = Starting) js = [j]"
      if "distinct (map jb_id js)" "j \<in> set js" for js
      using that
    proof (induction js)
      case (Cons r js)
      show ?case
      proof (cases "r = j")
        case True
        then have "\<forall>i \<in> set js. jb_id i \<noteq> k" using Cons.prems(1) j(2) by (metis distinct.simps(2) image_eqI list.set_map list.simps(9))
        then show ?thesis using True j(2) assms(4) by (auto simp: filter_empty_conv)
      next
        case False
        then have "jb_id r \<noteq> k" using Cons.prems j(2) by force
        then show ?thesis using False Cons by simp
      qed
    qed simp
    from this[OF d j(1)] show ?thesis by (simp add: rowcount_def)
  qed
  then show ?thesis
    using assms(3-5) by (auto simp: worker_claim_def Let_def case_prod_beta read_job_def update_job_def running_update_def
        split: if_splits sum.splits option.splits pyval.splits)
qed

lemma no_holder:
  assumes "maint_inv m" "job_of k (m_queue m) = Some j" "jb_status j = Starting"
  shows "m_worker m = None"
proof (cases "m_worker m")
  case (Some h)
  then obtain i where i: "job_of h (m_queue m) = Some i" "jb_status i = Running" using assms(1) by (auto simp: maint_inv_def)
  have "i \<in> set (q_jobs (m_queue m))" "j \<in> set (q_jobs (m_queue m))" "i \<noteq> j"
    using i assms(2,3) by (auto simp: job_of_def find_Some_iff)
  then have "{i, j} \<subseteq> set (filter active_row (q_jobs (m_queue m)))" "card {i, j} = 2"
    using i(2) assms(3) by (auto simp: active_row_def active_def)
  then have "2 \<le> length (filter active_row (q_jobs (m_queue m)))"
    by (metis List.finite_set card_length card_mono order_trans)
  then show ?thesis using assms(1) by (simp add: maint_inv_def queue_inv_def one_active_def)
qed simp

lemma enqueue_maintenance_inv: "queue_inv q \<Longrightarrow> queue_inv (snd (enqueue_maintenance_job now woke encode action parameters actor q))"
  unfolding enqueue_maintenance_job_def Let_def by (rule enqueue_inv) auto


theorem mstep_inv:
  assumes "mstep m m'" "maint_inv m"
  shows "maint_inv m'"
  using assms
proof (induction rule: mstep.induct)
  case (enqueue m now woke encode action parameters actor)
  let ?q = "snd (enqueue_maintenance_job now woke encode action parameters actor (m_queue m))"
  have "queue_inv ?q" using enqueue enqueue_maintenance_inv by (simp add: maint_inv_def)
  moreover have "rows_ok ?q"
    unfolding enqueue_maintenance_job_def Let_def using enqueue rows_ok_enqueue by (simp add: maint_inv_def)
  moreover have "job_of k ?q = Some j" if "job_of k (m_queue m) = Some j" "jb_status j = Running" for k j
    unfolding enqueue_maintenance_job_def Let_def
    by (rule job_of_enqueue) (use enqueue that in \<open>auto simp: maint_inv_def queue_inv_def\<close>)
  ultimately show ?case using enqueue by (cases "m_worker m") (auto simp: maint_inv_def)
next
  case (cancel m now i actor)
  let ?q = "snd (cancel_queued_job now i actor (m_queue m))"
  have "rows_ok ?q"
    unfolding cancel_queued_job_def Let_def snd_conv
    by (rule rows_ok_update) (use cancel in \<open>auto simp: maint_inv_def\<close>)
  moreover have "queue_inv ?q" using cancel cancel_inv by (simp add: maint_inv_def)
  ultimately show ?case using cancel job_of_cancel_running by (cases "m_worker m") (auto simp: maint_inv_def)
next
  case (dispatch m unit_active now locked start_failure)
  let ?q = "snd (dispatch now unit_active locked start_failure (m_queue m))"
  have "queue_inv ?q" "rows_ok ?q" using dispatch dispatch_inv rows_ok_dispatch by (simp_all add: maint_inv_def)
  moreover have "job_of k ?q = Some j" if "m_worker m = Some k" "job_of k (m_queue m) = Some j" "jb_status j = Running" for k j
    by (rule dispatch_keeps_holder) (use dispatch that in \<open>auto simp: maint_inv_def\<close>)
  ultimately show ?case using dispatch.prems by (cases "m_worker m") (auto simp: maint_inv_def)
next
  case (begin_action k m j now load a q)
  have i: "queue_inv (m_queue m)" "rows_ok (m_queue m)" using begin_action by (simp_all add: maint_inv_def)
  note c = claim_worker_inv[OF i(1) begin_action(1-3)]
  have "rows_ok q" unfolding c(3) using i(2) rows_ok_update_job by blast
  then show ?case using c(1,2) by (simp add: maint_inv_def)
next
  case (begin_refused k m j now load e q)
  then have "q = m_queue m" using claim_worker_refused by (auto simp: maint_inv_def)
  moreover have "m_worker m = None" using no_holder begin_refused by blast
  ultimately show ?case
    using begin_refused.prems final_update_inv rows_ok_update_job by (simp add: maint_inv_def terminal_def)
next
  case (beat m k now)
  then obtain j where j: "job_of k (m_queue m) = Some j" "jb_status j = Running" and i: "queue_inv (m_queue m)" "rows_ok (m_queue m)"
    by (auto simp: maint_inv_def)
  have "queue_inv (heartbeat_job now k (m_queue m))" unfolding heartbeat_job_def
    by (rule update_running_inv[OF i(1) j]) auto
  moreover have "rows_ok (heartbeat_job now k (m_queue m))" unfolding heartbeat_job_def
    by (rule rows_ok_update[OF i(2)]) auto
  ultimately show ?case using j beat(1) by (simp add: maint_inv_def heartbeat_job_def job_of_update)
next
  case (report m k now e)
  then obtain j where j: "job_of k (m_queue m) = Some j" "jb_status j = Running" and i: "queue_inv (m_queue m)" "rows_ok (m_queue m)"
    by (auto simp: maint_inv_def)
  show ?case using record_event_inv[OF i(1) j] record_event_rows[OF i(2)] report by (simp add: maint_inv_def)
next
  case (finish m k st now message)
  then show ?case using final_update_inv rows_ok_update_job by (auto simp: maint_inv_def terminal_def)
next
  case (killed m)
  then show ?case by (simp add: maint_inv_def)
qed

lemma mreachable_inv: "mreachable m \<Longrightarrow> maint_inv m"
proof (induction rule: mreachable.induct)
  case start
  show ?case by (simp add: maint_inv_def maint_start_def rows_ok_def known_actions_def) (simp add: empty_queue_def)
next
  case (step m m')
  then show ?case using mstep_inv by blast
qed

text \<open>A finished row is never written again.\<close>

lemma finished_update_other:
  assumes "finished i j q" "job_of k q = Some r" "\<not> terminal (jb_status r)"
    and "\<And>s. P s \<Longrightarrow> jb_id s = k" "\<And>s. P s \<Longrightarrow> jb_id (f s) = jb_id s"
  shows "finished i j (q\<lparr>q_jobs := update_where P f (q_jobs q)\<rparr>)"
proof -
  have "i \<noteq> k" using assms(1-3) by (auto simp: finished_def)
  moreover have "jb_id j = i" using assms(1) by (auto simp: finished_def dest: job_of_id)
  ultimately show ?thesis using assms(1,4,5) by (auto simp: finished_def job_of_update)
qed

lemma finished_update_job: "finished i j q \<Longrightarrow> job_of k q = Some r \<Longrightarrow> \<not> terminal (jb_status r) \<Longrightarrow>
   finished i j (snd (update_job now k u q))"
  unfolding update_job_def Let_def snd_conv by (rule finished_update_other) (auto simp: apply_update_def)

lemma finished_record: "finished i j q \<Longrightarrow> job_of k q = Some r \<Longrightarrow> \<not> terminal (jb_status r) \<Longrightarrow>
   finished i j (record_event now k e q)"
  by (cases "(now, k, e, q)" rule: record_event.cases) (auto intro: finished_update_job)

theorem mstep_finished:
  assumes "mstep m m'" "maint_inv m" "finished i j (m_queue m)"
  shows "finished i j (m_queue m')"
  using assms
proof (induction rule: mstep.induct)
  case (dispatch m unit_active now locked start_failure)
  then show ?case by (simp add: finished_dispatch maint_inv_def)
next
  case (begin_action k m r now load a q)
  then have "q = snd (update_job now k (running_update Starting) (m_queue m))"
    using claim_worker_inv(3) by (auto simp: maint_inv_def)
  then show ?case using begin_action finished_update_job by (simp add: terminal_def)
next
  case (begin_refused k m r now load e q)
  then have "q = m_queue m" using claim_worker_refused by (auto simp: maint_inv_def)
  then show ?case using begin_refused finished_update_job by (simp add: terminal_def)
next
  case (beat m k now)
  then show ?case by (auto simp: heartbeat_job_def terminal_def intro!: finished_update)
next
  case (report m k now e)
  then obtain r where "job_of k (m_queue m) = Some r" "jb_status r = Running" by (auto simp: maint_inv_def)
  then show ?case using report finished_record by (simp add: terminal_def)
next
  case (finish m k st now message)
  then obtain r where "job_of k (m_queue m) = Some r" "jb_status r = Running" by (auto simp: maint_inv_def)
  then show ?case using finish finished_update_job by (simp add: terminal_def)
qed (simp_all add: enqueue_maintenance_job_def Let_def finished_enqueue finished_cancel)


section \<open>The retention runner\<close>

text \<open>
  app/retention.py: the same lock, the application, the check of pending jobs and the policy, whose
  result is \<open>run\<close>.
\<close>

datatype outcome = Skipped_Locked | Skipped_Jobs nat | Ran pyval

definition active_manual_jobs :: "queue \<Rightarrow> nat" where
  "active_manual_jobs q = rowcount pending_job (q_jobs q)"

definition retention_main :: "bool \<Rightarrow> string + unit \<Rightarrow> string + pyval \<Rightarrow> queue \<Rightarrow> string + outcome" where
  "retention_main lock_free load run q =
     (if \<not> lock_free then Inr Skipped_Locked
      else (case load of
          Inl e \<Rightarrow> Inl e
        | Inr u \<Rightarrow>
            (let jobs = active_manual_jobs q in
             if jobs \<noteq> 0 then Inr (Skipped_Jobs jobs) else map_sum id Ran run)))"

lemma retention_runs: "retention_main free load run q = Inr (Ran r) \<Longrightarrow>
    free \<and> run = Inr r \<and> (\<forall>j \<in> set (q_jobs q). \<not> pending_job j)"
  by (cases run) (auto simp: retention_main_def active_manual_jobs_def rowcount_def Let_def filter_empty_conv
      split: if_splits sum.splits)

lemma no_pending_dispatch: "queue_inv q \<Longrightarrow> (\<forall>j \<in> set (q_jobs q). \<not> pending_job j) \<Longrightarrow>
    waiting_ids q = [] \<and> active_ids q = []"
  by (auto simp: waiting_ids_def active_ids_def pending_job_def claimable_def active_row_def active_def filter_empty_conv)

text \<open>A worker that finds the lock taken ends its job in error.\<close>

lemma lock_busy_fails:
  assumes "job_of k q = Some j"
  shows "\<exists>j'. job_of k (snd (worker_main now later enc port ops False load k q)) = Some j'
      \<and> jb_status j' = Error \<and> jb_message j' = ''Another maintenance worker already owns the exclusive lock''"
  using assms by (simp add: worker_main_def worker_claim_def job_of_update_final)


section \<open>Properties\<close>


definition sample_enqueued :: queue where
  "sample_enqueued = snd (enqueue_maintenance_job 5 (True, []) (\<lambda>d. ''{}'') ''vacuum'' [] ''root'' (snd
     (enqueue_maintenance_job 5 (True, []) (\<lambda>d. ''{}'') ''clear_api_logs'' [] ''root'' empty_queue)))"

definition sample_dispatched :: queue where
  "sample_dispatched = snd (dispatch 9 (\<lambda>u. False) (\<lambda>i. False) (\<lambda>u. None) sample_enqueued)"

definition sample_claimed :: queue where
  "sample_claimed = snd (worker_claim 10 True (Inr ()) 1 sample_dispatched)"

lemma sample_dispatched_job: "map_option jb_status (job_of 1 sample_dispatched) = Some Starting"
  by code_simp

lemma sample_claimed_action: "map_option fst (case fst (worker_claim 10 True (Inr ()) 1 sample_dispatched) of Inl e \<Rightarrow> None | Inr a \<Rightarrow> Some a) = Some ''clear_api_logs''"
  by code_simp

lemma sample_reachable: "mreachable \<lparr>m_queue = sample_dispatched, m_worker = None\<rparr>"
  "mreachable \<lparr>m_queue = sample_claimed, m_worker = Some 1\<rparr>"
  "mstep \<lparr>m_queue = sample_dispatched, m_worker = None\<rparr> \<lparr>m_queue = sample_claimed, m_worker = Some 1\<rparr>"
proof -
  have "mreachable \<lparr>m_queue = snd (enqueue_maintenance_job 5 (True, []) (\<lambda>d. ''{}'') ''clear_api_logs'' [] ''root'' empty_queue), m_worker = None\<rparr>"
    using mreachable.step[OF mreachable.start mstep.enqueue[of maint_start]] by (simp add: maint_start_def)
  then have "mreachable \<lparr>m_queue = sample_enqueued, m_worker = None\<rparr>"
    using mreachable.step[OF _ mstep.enqueue[of "\<lparr>m_queue = snd (enqueue_maintenance_job 5 (True, []) (\<lambda>d. ''{}'') ''clear_api_logs'' [] ''root'' empty_queue), m_worker = None\<rparr>"
        5 "(True, [])" "\<lambda>d. ''{}''" "''vacuum''" "[]" "''root''"]]
    by (simp add: sample_enqueued_def)
  then show d: "mreachable \<lparr>m_queue = sample_dispatched, m_worker = None\<rparr>"
    using mreachable.step[OF _ mstep.dispatch[of "\<lparr>m_queue = sample_enqueued, m_worker = None\<rparr>" "\<lambda>u. False" 9 "\<lambda>i. False" "\<lambda>u. None"]]
    by (simp add: sample_dispatched_def)
  obtain j where j: "job_of 1 sample_dispatched = Some j" "jb_status j = Starting" using sample_dispatched_job by auto
  obtain a where "worker_claim 10 True (Inr ()) 1 sample_dispatched = (Inr a, sample_claimed)"
    using sample_claimed_action unfolding sample_claimed_def
    by (cases "worker_claim 10 True (Inr ()) 1 sample_dispatched") (auto split: sum.splits)
  then show s: "mstep \<lparr>m_queue = sample_dispatched, m_worker = None\<rparr> \<lparr>m_queue = sample_claimed, m_worker = Some 1\<rparr>"
    using mstep.begin_action[of 1 "\<lparr>m_queue = sample_dispatched, m_worker = None\<rparr>" j 10 "Inr ()" a sample_claimed] j by simp
  show "mreachable \<lparr>m_queue = sample_claimed, m_worker = Some 1\<rparr>" by (rule mreachable.step[OF d s])
qed


text \<open>A job that has ended stays as it is: no step of any process writes its row again.\<close>

theorem ended_job_unchanged:
  assumes "mreachable m" "mstep m m'" "job_of i (m_queue m) = Some j" "terminal (jb_status j)"
  shows "job_of i (m_queue m') = Some j"
  using mstep_finished[OF assms(2) mreachable_inv[OF assms(1)], of i j] assms(3,4) by (simp add: finished_def)

definition sample_ended :: queue where
  "sample_ended = snd (update_job 20 1 (final_update Ok ''{}'') sample_claimed)"

lemma sample_ended_job: "map_option jb_status (job_of 1 sample_ended) = Some Ok"
  by code_simp

theorem ended_job_unchanged_witness:
  "\<exists>j. job_of 1 sample_ended = Some j
    \<and> job_of 1 (snd (dispatch 999 (\<lambda>u. False) (\<lambda>i. False) (\<lambda>u. None) sample_ended)) = Some j"
proof -
  let ?m = "\<lparr>m_queue = sample_ended, m_worker = None\<rparr>"
  have r: "mreachable ?m"
    using mreachable.step[OF sample_reachable(2) mstep.finish[of "\<lparr>m_queue = sample_claimed, m_worker = Some 1\<rparr>" 1 Ok 20 "''{}''"]]
    by (simp add: sample_ended_def)
  have s: "mstep ?m (?m\<lparr>m_queue := snd (dispatch 999 (\<lambda>u. False) (\<lambda>i. False) (\<lambda>u. None) (m_queue ?m))\<rparr>)"
    by (rule mstep.dispatch) simp
  obtain j where "job_of 1 sample_ended = Some j" "jb_status j = Ok" using sample_ended_job by auto
  then show ?thesis using ended_job_unchanged[OF r s, of 1 j] by (simp add: terminal_def)
qed

primrec serve_jobs :: "int \<Rightarrow> int \<Rightarrow> string \<Rightarrow> nat \<Rightarrow> queue \<Rightarrow> int list" where
  "serve_jobs now later message 0 q = []"
| "serve_jobs now later message (Suc n) q =
     (let q1 = snd (claim_next now (\<lambda>i. False) q) in
      active_ids q1 @ serve_jobs now later message n (finish_active later Ok message q1))"

lemma serve_jobs_served: "serve_jobs now later message n q = maintenance.served now later message n q"
  by (induction n arbitrary: q) (simp_all add: Let_def)

text \<open>The queue is served first in, first out: from an idle queue, claiming and finishing one job
  after another takes the waiting jobs in the order of their ids, none left out.\<close>

theorem queue_is_fifo:
  assumes "queue_inv q" "active_ids q = []" "n \<le> length (waiting_ids q)"
  shows "serve_jobs now later message n q = take n (waiting_ids q) \<and> sorted (waiting_ids q)"
  using maintenance.served_in_order[OF assms, of now later message] unfolding serve_jobs_served
  by (simp add: waiting_ids_def)

theorem queue_is_fifo_witness:
  "serve_jobs 9 12 ''{}'' 2 sample_enqueued = [1, 2]"
proof -
  have "queue_inv sample_enqueued" unfolding sample_enqueued_def by (simp add: enqueue_maintenance_inv)
  moreover have "active_ids sample_enqueued = []" "waiting_ids sample_enqueued = [1, 2]" by code_simp+
  ultimately show ?thesis using queue_is_fifo[of sample_enqueued 2 9 12 "''{}''"] by simp
qed

text \<open>A job whose worker is gone does not block the queue: once it is stale and its unit is
  inactive, the next run of the dispatcher ends it and starts the first waiting job.\<close>

theorem stale_job_gives_way:
  assumes "queue_inv q" "known_actions q" "waiting_ids q = i # is"
    and "\<forall>j \<in> set (q_jobs q). active_row j \<longrightarrow> \<not> unit_active (jb_unit j) \<and> stale now j"
  shows "fst (dispatch now unit_active (\<lambda>i. False) (\<lambda>u. None) q) = 0
    \<and> active_ids (snd (dispatch now unit_active (\<lambda>i. False) (\<lambda>u. None) q)) = [i]
    \<and> waiting_ids (snd (dispatch now unit_active (\<lambda>i. False) (\<lambda>u. None) q)) = is"
  using dispatch_progress[OF assms(1-3), of unit_active now "\<lambda>u. None"] assms(4) by blast

theorem stale_job_gives_way_witness:
  "active_ids sample_claimed = [1] \<and> active_ids (snd (dispatch 310 (\<lambda>u. False) (\<lambda>i. False) (\<lambda>u. None) sample_claimed)) = [2]"
proof -
  have inv: "queue_inv sample_claimed" using mreachable_inv[OF sample_reachable(2)] by (simp add: maint_inv_def)
  have a: "active_ids sample_claimed = [1]" by code_simp
  have w: "waiting_ids sample_claimed = 2 # []" by code_simp
  have k: "known_actions sample_claimed" by code_simp
  have s: "\<forall>j \<in> set (q_jobs sample_claimed). active_row j \<longrightarrow> \<not> False \<and> stale 310 j" by code_simp
  show ?thesis using stale_job_gives_way[OF inv k w s] a by simp
qed

text \<open>The recovery never touches a job that is alive: one whose unit is active, or which is not
  stale, is left exactly as it was.\<close>

theorem live_job_kept:
  assumes "queue_inv q" "job_of i q = Some j" "jb_action j \<notin> set LEGACY_ACTIONS" "unit_active (jb_unit j) \<or> \<not> stale now j"
  shows "job_of i (recover_stale_rows now unit_active q) = Some j"
  using recover_keeps_live[of q i j unit_active now] assms by (simp add: queue_inv_def)

theorem live_job_kept_witness:
  "job_of 1 (recover_stale_rows 9999 (\<lambda>u. u = unit_name 1) sample_claimed) = job_of 1 sample_claimed"
proof -
  have inv: "queue_inv sample_claimed" using mreachable_inv[OF sample_reachable(2)] by (simp add: maint_inv_def)
  have "map_option (\<lambda>j. (jb_action j, jb_unit j)) (job_of 1 sample_claimed) = Some (''clear_api_logs'', unit_name 1)" by code_simp
  then obtain j where j: "job_of 1 sample_claimed = Some j" "jb_action j = ''clear_api_logs''" "jb_unit j = unit_name 1" by auto
  have "jb_action j \<notin> set LEGACY_ACTIONS" by (simp add: j(2) LEGACY_ACTIONS_def)
  then show ?thesis using live_job_kept[OF inv j(1), of "\<lambda>u. u = unit_name 1" 9999] j(1,3) by simp
qed

text \<open>The retention policy runs only while it holds the lock and only when no job is queued,
  started or running, so that the dispatcher has nothing to start at that moment.\<close>

theorem retention_yields:
  assumes "retention_main lock_free load run q = Inr (Ran r)" "queue_inv q"
  shows "lock_free \<and> run = Inr r \<and> waiting_ids q = [] \<and> active_ids q = []"
  using retention_runs[OF assms(1)] no_pending_dispatch[OF assms(2)] by blast

theorem retention_yields_witness:
  "retention_main True (Inr ()) (Inr PNone) empty_queue = Inr (Ran PNone) \<and> waiting_ids empty_queue = []"
proof -
  have r: "retention_main True (Inr ()) (Inr PNone) empty_queue = Inr (Ran PNone)"
    by (simp add: retention_main_def active_manual_jobs_def rowcount_def empty_queue_def)
  show ?thesis using retention_yields[OF r empty_queue_inv] r by blast
qed

text \<open>A job that is dispatched while the retention runner holds the lock is lost: its worker does
  not wait, and the job ends in error.\<close>

theorem busy_lock_loses_job:
  assumes "job_of k q = Some j"
  shows "\<exists>j'. job_of k (snd (worker_main now later enc port ops False load k q)) = Some j'
      \<and> jb_status j' = Error \<and> jb_message j' = ''Another maintenance worker already owns the exclusive lock''"
  by (rule lock_busy_fails[OF assms])

theorem busy_lock_loses_job_witness:
  "\<exists>j'. job_of 1 (snd (worker_main 20 30 (\<lambda>d. ''{}'') 8080 sample_ops False (Inr ()) 1 sample_dispatched)) = Some j'
      \<and> jb_status j' = Error"
proof -
  obtain j where "job_of 1 sample_dispatched = Some j" using sample_dispatched_job by auto
  then show ?thesis using busy_lock_loses_job by blast
qed

end
