(* ===== verification/Admin_Maintenance.thy ===== *)
theory Admin_Maintenance
  imports Account_Claims Maint_System
begin

text \<open>
  The maintenance form of the operations page: which jobs an account may put into the queue
  (\<open>admin_database_maintenance\<close> of app/node_groups.py over the chain of
  app/runtime_layers/38_agent_maintenance_canonical_routes.py, 22_api_hub_logs.py and
  09_admin_routes.py) and which it may cancel. The files of the backups are read and changed by
  modules whose success or error is an argument. The theorems say what a regular administrator
  can start and under which conditions a reset of the whole application is accepted.
\<close>

section \<open>The forms\<close>

text \<open>
  What the request meets: the wake-up of the dispatcher, the JSON text of parameters, the result
  of an operation on backup files (an error text), the counts of a preview, the random nonce and
  code, and the retention days of the configuration.
\<close>

record surroundings =
  su_woke :: "bool \<times> string"
  su_encode :: "pyval dict \<Rightarrow> string"
  su_files :: "string \<Rightarrow> string \<Rightarrow> string option"
  su_counts :: "int \<times> int"
  su_nonce :: string
  su_code :: string
  su_days :: "int \<times> int"

definition status_text :: "status \<Rightarrow> string" where
  "status_text s = (case s of Queued \<Rightarrow> ''queued'' | Starting \<Rightarrow> ''starting'' | Running \<Rightarrow> ''running'' | Ok \<Rightarrow> ''ok'' | Error \<Rightarrow> ''error'' | Cancelled \<Rightarrow> ''cancelled'')"

definition queue_has_pending_jobs :: "queue \<Rightarrow> job option" where
  "queue_has_pending_jobs q = select_first jb_id pending_job (q_jobs q)"

definition verify_current_admin_password :: "site \<Rightarrow> session \<Rightarrow> admin_db \<Rightarrow> string \<Rightarrow> bool" where
  "verify_current_admin_password si se db password = (case current_dashboard_user se db of
      None \<Rightarrow> False
    | Some u \<Rightarrow> ac_role u = ''super_admin'' \<and> ac_active u \<and> password \<noteq> [] \<and> si_check si (ac_hash u) password)"

definition current_super_admin_identity :: "session \<Rightarrow> admin_db \<Rightarrow> (int \<times> string) option" where
  "current_super_admin_identity se db = (case current_dashboard_user se db of
      None \<Rightarrow> None
    | Some u \<Rightarrow> if ac_role u = ''super_admin'' \<and> ac_active u then Some (ac_id u, ac_name u) else None)"

definition sensitive :: "string list" where
  "sensitive = [''configuration_backup'', ''configuration_restore'', ''configuration_backup_protect'',
     ''configuration_backup_unprotect'', ''configuration_backup_delete'', ''configuration_backup_download'', ''full_backup'',
     ''full_backup_verify'', ''full_backup_protect'', ''full_backup_unprotect'', ''full_backup_delete'', ''full_backup_download'',
     ''reset_app_data_preview'', ''reset_app_data'']"

definition VALID_SECTIONS :: "string list" where
  "VALID_SECTIONS = [''api_keys'', ''groups'', ''node_group_mapping'', ''settings'', ''users'']"

definition form_action :: "request \<Rightarrow> string" where
  "form_action rq = lower (strip (form rq ''action''))"

definition confirmed :: "request \<Rightarrow> string \<Rightarrow> bool" where
  "confirmed rq wanted \<longleftrightarrow> strip (form rq ''confirm_text'') = wanted"

section \<open>The reset of the application\<close>

definition required_text :: "preview \<Rightarrow> string" where
  "required_text p = (if pw_configuration p \<or> pw_full p then ''RESET VIRTINFRA'' else ''RESET VIRTINFRA WITHOUT BACKUP'') @ '' '' @ pw_code p"

definition pending_text :: "job \<Rightarrow> string" where
  "pending_text j = ''job #'' @ str_of_int (jb_id j) @ '' ('' @ jb_action j @ '') is '' @ status_text (jb_status j)"

definition reset_preview :: "surroundings \<Rightarrow> request \<Rightarrow> session \<Rightarrow> queue \<Rightarrow> (string + string) \<times> session" where
  "reset_preview su rq se q = (case queue_has_pending_jobs q of
      Some j \<Rightarrow> (Inl (''Queue must be empty before Nuclear preview: '' @ pending_text j), se)
    | None \<Rightarrow>
        (let options_present = (form rq ''backup_options_present'' = ''1'') in
         (Inr ''Nuclear preview created. Review and confirm within 5 minutes.'',
          se\<lparr>se_preview := Some \<lparr>pw_nonce = su_nonce su, pw_code = su_code su, pw_not_before = rq_now rq + 15, pw_expires_at = rq_now rq + 300,
            pw_created_at = rq_now rq, pw_table_count = fst (su_counts su), pw_estimated_rows = snd (su_counts su),
            pw_configuration = (if options_present then form rq ''create_configuration_backup'' = ''1'' else True),
            pw_full = (if options_present then form rq ''create_full_backup'' = ''1'' else False)\<rparr>\<rparr>)))"

definition reset_parameters :: "int \<Rightarrow> string \<Rightarrow> preview \<Rightarrow> pyval dict" where
  "reset_parameters actor_id actor p =
     [(''requested_by'', PStr actor), (''actor_user_id'', PInt actor_id), (''actor_username'', PStr actor),
      (''preview_created_at'', PInt (pw_created_at p)), (''preview_table_count'', PInt (pw_table_count p)),
      (''preview_estimated_rows'', PInt (pw_estimated_rows p)), (''create_configuration_backup'', PBool (pw_configuration p)),
      (''create_full_backup'', PBool (pw_full p))]"

definition reset_app_data :: "surroundings \<Rightarrow> request \<Rightarrow> int \<Rightarrow> string \<Rightarrow> session \<Rightarrow> queue \<Rightarrow> (string + string) \<times> session \<times> queue" where
  "reset_app_data su rq actor_id actor se q =
     (let now = rq_now rq; expired = (Inl ''Nuclear preview expired. Create a new preview'', se\<lparr>se_preview := None\<rparr>, q) in
      case se_preview se of
        None \<Rightarrow> expired
      | Some p \<Rightarrow>
          (if pw_expires_at p < now then expired
           else if now < pw_not_before p then (Inl (''Nuclear safety delay is active for '' @ str_of_int (pw_not_before p - now) @ '' second(s)''), se, q)
           else if form rq ''preview_nonce'' = [] \<or> form rq ''preview_nonce'' \<noteq> pw_nonce p then (Inl ''Nuclear preview token mismatch'', se, q)
           else if \<not> confirmed rq (required_text p) then (Inl (''Confirmation text must be '' @ required_text p), se, q)
           else (case queue_has_pending_jobs q of
               Some j \<Rightarrow> (Inl (''Nuclear reset cannot wait in FIFO: '' @ pending_text j), se, q)
             | None \<Rightarrow> (case enqueue_job now (su_woke su) ''reset_app_data'' (su_encode su (reset_parameters actor_id actor p)) actor True q of
                   (Inl e, q') \<Rightarrow> (Inl e, se, q')
                 | (Inr (i, u), q') \<Rightarrow> (Inr (''True Nuclear Reset job #'' @ str_of_int i
                     @ '' accepted. Only this super_admin, this job and one Nuclear audit will remain.''), se\<lparr>se_preview := None\<rparr>, q')))))"

section \<open>The actions for super admins\<close>

text \<open>A job that is put into the queue, and an operation on the files of a backup.\<close>

definition queued :: "surroundings \<Rightarrow> request \<Rightarrow> string \<Rightarrow> pyval dict \<Rightarrow> string \<Rightarrow> bool \<Rightarrow> (int \<Rightarrow> string) \<Rightarrow> session \<Rightarrow> queue
    \<Rightarrow> (string + string) \<times> session \<times> queue" where
  "queued su rq action params actor exclusive msg se q =
     (case enqueue_job (rq_now rq) (su_woke su) action (su_encode su params) actor exclusive q of
        (Inl e, q') \<Rightarrow> (Inl e, se, q') | (Inr (i, u), q') \<Rightarrow> (Inr (msg i), se, q'))"

definition on_files :: "surroundings \<Rightarrow> request \<Rightarrow> string \<Rightarrow> session \<Rightarrow> queue \<Rightarrow> (string + string) \<times> session \<times> queue" where
  "on_files su rq msg se q = (case su_files su (form_action rq) (strip (form rq ''backup_id'')) of
      Some e \<Rightarrow> (Inl e, se, q) | None \<Rightarrow> (Inr msg, se, q))"

definition sensitive_action ::
  "surroundings \<Rightarrow> site \<Rightarrow> request \<Rightarrow> int \<Rightarrow> string \<Rightarrow> session \<Rightarrow> admin_db \<Rightarrow> queue \<Rightarrow> (string + string) \<times> session \<times> queue" where
  "sensitive_action su si rq actor_id actor se db q =
     (let action = form_action rq; bid = strip (form rq ''backup_id''); by = (''requested_by'', PStr actor); fail = (\<lambda>e. (Inl e, se, q)) in
      if \<not> verify_current_admin_password si se db (form rq ''admin_password'') then fail ''Super Admin password verification failed''
      else if action = ''configuration_backup'' then
        queued su rq ''configuration_backup'' [by, (''reason'', PStr ''manual'')] actor False
          (\<lambda>i. ''Configuration Backup job #'' @ str_of_int i @ '' queued.'') se q
      else if action = ''full_backup'' then
        queued su rq ''full_backup'' [by] actor False
          (\<lambda>i. ''Full Emergency Database Backup job #'' @ str_of_int i @ '' queued. No web restore is provided.'') se q
      else if action = ''full_backup_verify'' then
        (case su_files su action bid of
           Some e \<Rightarrow> fail e
         | None \<Rightarrow> queued su rq ''full_backup_verify'' [by, (''backup_id'', PStr bid)] actor False
             (\<lambda>i. ''Full Emergency Backup verification job #'' @ str_of_int i @ '' queued for '' @ bid @ ''.'') se q)
      else if action = ''full_backup_protect'' \<or> action = ''full_backup_unprotect'' then
        on_files su rq (''Full Emergency Backup '' @ bid @ '' is now '' @ (if action = ''full_backup_protect'' then ''protected'' else ''unprotected'') @ ''.'') se q
      else if action = ''full_backup_download'' then on_files su rq [] se q
      else if action = ''full_backup_delete'' then
        (if \<not> confirmed rq ''DELETE FULL EMERGENCY BACKUP'' then fail ''Confirmation text must be DELETE FULL EMERGENCY BACKUP''
         else on_files su rq (''Full Emergency Backup '' @ bid @ '' deleted.'') se q)
      else if action = ''configuration_restore'' then
        (if \<not> confirmed rq ''RESTORE CONFIGURATION'' then fail ''Confirmation text must be RESTORE CONFIGURATION''
         else (case su_files su action bid of
             Some e \<Rightarrow> fail e
           | None \<Rightarrow>
               (let sections = filter (\<lambda>name. form rq (''section_'' @ name) = ''1'') VALID_SECTIONS in
                if sections = [] then fail ''Select at least one configuration section''
                else queued su rq ''configuration_restore''
                  [by, (''actor_user_id'', PInt actor_id), (''actor_username'', PStr actor), (''backup_id'', PStr bid), (''sections'', PList (map PStr sections))]
                  actor True (\<lambda>i. ''Configuration Restore job #'' @ str_of_int i @ '' accepted. A protected safety snapshot will be created first.'') se q)))
      else if action = ''configuration_backup_protect'' \<or> action = ''configuration_backup_unprotect'' then
        on_files su rq (''Configuration backup '' @ bid @ '' is now '' @ (if action = ''configuration_backup_protect'' then ''protected'' else ''unprotected'') @ ''.'') se q
      else if action = ''configuration_backup_download'' then on_files su rq [] se q
      else if action = ''configuration_backup_delete'' then
        (if \<not> confirmed rq ''DELETE CONFIGURATION BACKUP'' then fail ''Confirmation text must be DELETE CONFIGURATION BACKUP''
         else on_files su rq (''Configuration backup '' @ bid @ '' deleted.'') se q)
      else if action = ''reset_app_data_preview'' then (let (answer, se1) = reset_preview su rq se q in (answer, se1, q))
      else reset_app_data su rq actor_id actor se q)"

section \<open>The routes\<close>

type_synonym office = "(session \<times> admin_db) \<times> queue"

text \<open>The answer of a page with a queue: the queue is as it was when \<open>require_admin\<close> answers.\<close>

definition guarded_office :: "site \<Rightarrow> request \<Rightarrow> (office \<Rightarrow> response \<times> office) \<Rightarrow> office \<Rightarrow> response \<times> office" where
  "guarded_office si rq go s = (case require_admin si rq (fst s) of
      (Some deny, w) \<Rightarrow> (deny, w, snd s) | (None, w) \<Rightarrow> go (w, snd s))"

definition notice :: "bool \<Rightarrow> string \<Rightarrow> response" where
  "notice good text = Redirect_Note ''maintenance'' good text"

definition sensitive_maintenance :: "surroundings \<Rightarrow> site \<Rightarrow> request \<Rightarrow> office \<Rightarrow> response \<times> office" where
  "sensitive_maintenance su si rq s0 =
     (if clean_role (current_role (fst (fst s0)) (snd (fst s0))) \<noteq> ''super_admin'' then (Reply 403 ''Forbidden: super_admin role required'', s0)
      else guarded_office si rq (\<lambda>((se, db), q). case current_super_admin_identity se db of
          None \<Rightarrow> (Server_Error, (se, db), q)
        | Some (actor_id, actor) \<Rightarrow>
            (let action = form_action rq; log = log_account_event si rq; prefix = ''action='' @ action in
             case sensitive_action su si rq actor_id actor se db q of
               (Inl e, se1, q1) \<Rightarrow>
                 (notice False (''Super Admin maintenance action was not started: '' @ e),
                  log ''super_admin_maintenance_rejected'' actor ''admin'' ''super_admin''
                    (prefix @ '';error='' @ take 400 (''Super Admin maintenance action was not started: '' @ e)) (se1, db), q1)
             | (Inr message, se1, q1) \<Rightarrow>
                 (if action = ''full_backup_download'' \<or> action = ''configuration_backup_download'' then
                    (Reply 200 (strip (form rq ''backup_id'')),
                     log ''super_admin_maintenance_action'' actor ''admin'' ''super_admin'' (prefix @ '';backup_id='' @ strip (form rq ''backup_id'')) (se1, db), q1)
                  else (notice True message,
                    log ''super_admin_maintenance_action'' actor ''admin'' ''super_admin'' (prefix @ '';message='' @ take 300 message) (se1, db), q1)))) s0)"

text \<open>The actions of the older pages: their checks give the parameters of the job or an error.\<close>

definition base_parameters :: "surroundings \<Rightarrow> request \<Rightarrow> string + pyval dict" where
  "base_parameters su rq =
     (let action = form_action rq; need = (\<lambda>text params. if confirmed rq text then Inr params else Inl (''Confirmation text must be '' @ text)) in
      if action = ''delete_history'' \<or> action = ''delete_compact'' then
        (let required = (if action = ''delete_compact'' then ''DELETE AND VACUUM'' else ''DELETE HISTORY'');
             days = (case dget (rq_form rq) ''days'' of None \<Rightarrow> 7 | Some d \<Rightarrow> safe_int (PStr d) 7) in
         if \<not> confirmed rq required then Inl (''Confirmation text must be '' @ required)
         else if days \<notin> {1, 2, 3, 7} then Inl ''Unsupported history age''
         else Inr [(''days'', PInt days)])
      else if action = ''vacuum'' then need ''VACUUM'' []
      else if action = ''retention'' then Inr [(''raw_days'', PInt (fst (su_days su))), (''hourly_days'', PInt (snd (su_days su)))]
      else if action = ''clear_monitoring_data'' then need ''CLEAR ALL MONITORING DATA'' []
      else if action = ''reset_app_data'' then need ''RESET ALL APP DATA'' [(''clear_queue'', PBool True), (''clear_account_logs'', PBool True)]
      else Inl ''Unknown database maintenance action'')"

definition api_parameters :: "request \<Rightarrow> string + pyval dict" where
  "api_parameters rq =
     (if form_action rq = ''clear_api_logs'' then
        (if confirmed rq ''CLEAR API LOGS'' then Inr [(''kind'', PStr ''all''), (''compact'', PBool False)] else Inl ''Confirmation text must be CLEAR API LOGS'')
      else (if confirmed rq ''CLEAR ALL API DATA'' then Inr [(''compact'', PBool False)] else Inl ''Confirmation text must be CLEAR ALL API DATA''))"

definition plain_maintenance :: "surroundings \<Rightarrow> site \<Rightarrow> request \<Rightarrow> string + pyval dict \<Rightarrow> office \<Rightarrow> response \<times> office" where
  "plain_maintenance su si rq params = guarded_office si rq (\<lambda>((se, db), q).
     (let action = form_action rq; actor = str_or (dashboard_username se) (get_admin_username si db);
          failed = (\<lambda>e q1. (notice False (''Could not start maintenance: '' @ e),
            log_account_event si rq ''database_maintenance_queue_failed'' actor ''admin'' ''admin'' (take 500 (''Could not start maintenance: '' @ e)) (se, db), q1)) in
      case params of
        Inl e \<Rightarrow> failed e q
      | Inr p \<Rightarrow> (case enqueue_maintenance_job (rq_now rq) (su_woke su) (su_encode su) action p actor q of
            (Inl e, q1) \<Rightarrow> failed e q1
          | (Inr (i, u), q1) \<Rightarrow>
              (let msg = ''Started maintenance job #'' @ str_of_int i @ '' ('' @ action @ '') as '' @ u @ ''.'' in
               (notice True msg, log_account_event si rq ''database_maintenance_queued'' actor ''admin'' ''admin'' msg (se, db), q1)))))"

definition SUPER_ADMIN_ONLY_MAINTENANCE_ACTIONS :: "string list" where
  "SUPER_ADMIN_ONLY_MAINTENANCE_ACTIONS = [''clear_monitoring_data'', ''reset_app_data_preview'', ''reset_app_data'', ''clear_api_logs'', ''clear_api_data'']"

definition admin_database_maintenance :: "surroundings \<Rightarrow> site \<Rightarrow> request \<Rightarrow> office \<Rightarrow> response \<times> office" where
  "admin_database_maintenance su si rq s =
     (let action = form_action rq; (se, db) = fst s in
      if action \<in> set SUPER_ADMIN_ONLY_MAINTENANCE_ACTIONS \<and> \<not> is_super_admin se db then (Reply 403 ''Forbidden: super_admin role required'', s)
      else if action \<in> set sensitive then sensitive_maintenance su si rq s
      else if action \<in> {''clear_api_logs'', ''clear_api_data''} then plain_maintenance su si rq (api_parameters rq) s
      else plain_maintenance su si rq (base_parameters su rq) s)"

definition sensitive_jobs :: "string list" where
  "sensitive_jobs = [''configuration_backup'', ''configuration_restore'', ''full_backup'', ''full_backup_verify'', ''reset_app_data'']"

definition admin_cancel_maintenance :: "site \<Rightarrow> request \<Rightarrow> office \<Rightarrow> response \<times> office" where
  "admin_cancel_maintenance si rq = guarded_office si rq (\<lambda>((se, db), q).
     (let job_id = safe_int (PStr (form rq ''job_id'')) 0; actor = str_or (dashboard_username se) (get_admin_username si db) in
      if 0 < job_id \<and> (case job_of job_id q of None \<Rightarrow> False | Some j \<Rightarrow> jb_action j \<in> set sensitive_jobs)
          \<and> clean_role (current_role se db) \<noteq> ''super_admin''
      then (Reply 403 ''Forbidden: super_admin role required'', (se, db), q)
      else if job_id \<le> 0 then (notice False ''Invalid maintenance job id'', (se, db), q)
      else (let (changed, q1) = cancel_queued_job (rq_now rq) job_id actor q;
                message = (if changed then ''Cancelled waiting maintenance job #'' @ str_of_int job_id @ ''.''
                  else ''Job #'' @ str_of_int job_id @ '' is no longer waiting and was not cancelled.'') in
        (notice True message,
         log_account_event si rq (if changed then ''maintenance_job_cancelled'' else ''maintenance_job_cancel_skipped'') actor ''admin'' ''admin'' message (se, db), q1))))"


section \<open>Which jobs enter the queue\<close>

abbreviation actions :: "queue \<Rightarrow> string list" where
  "actions q \<equiv> map jb_action (q_jobs q)"

lemma actions_enqueue:
  assumes "enqueue_job now woke a params actor ex q = (x, q')"
  shows "case x of Inl _ \<Rightarrow> q' = q | Inr _ \<Rightarrow> actions q' = actions q @ [lower (strip a)] \<and> (ex \<longrightarrow> queue_has_pending_jobs q = None)"
  using assms by (auto simp: enqueue_job_def Let_def note_failed_wake_def new_job_def queue_has_pending_jobs_def split: if_splits)

text \<open>A new job of an action, or none.\<close>

definition enters :: "queue \<Rightarrow> (string \<Rightarrow> bool) \<Rightarrow> queue \<Rightarrow> bool" where
  "enters q P q' \<longleftrightarrow> actions q' = actions q \<or> (\<exists>a. actions q' = actions q @ [a] \<and> P a)"

lemma enters_refl [simp]: "enters q P q"
  by (simp add: enters_def)

lemma enters_mono: "enters q P q' \<Longrightarrow> (\<And>a. P a \<Longrightarrow> Q a) \<Longrightarrow> enters q Q q'"
  by (auto simp: enters_def)

lemma enters_if: "(c \<Longrightarrow> enters q P (snd (snd x))) \<Longrightarrow> (\<not> c \<Longrightarrow> enters q P (snd (snd y))) \<Longrightarrow> enters q P (snd (snd (if c then x else y)))"
  by simp

lemma enters_option:
  "(o' = None \<Longrightarrow> enters q P (snd (snd x))) \<Longrightarrow> (\<And>u. o' = Some u \<Longrightarrow> enters q P (snd (snd (f u)))) \<Longrightarrow>
    enters q P (snd (snd (case o' of None \<Rightarrow> x | Some u \<Rightarrow> f u)))"
  by (cases o') simp_all

lemma enters_keep: "enters q P (snd (snd (a, b, q)))"
  by simp

lemma enters_queued:
  assumes "P (lower (strip action))"
  shows "enters q P (snd (snd (queued su rq action params actor ex msg se q)))"
proof -
  obtain x q' where e: "enqueue_job (rq_now rq) (su_woke su) action (su_encode su params) actor ex q = (x, q')" by fastforce
  show ?thesis using actions_enqueue[OF e] assms by (cases x) (auto simp: queued_def e enters_def)
qed

lemma enters_prod: "(\<And>a b. x = (a, b) \<Longrightarrow> enters q P (snd (snd (f a b)))) \<Longrightarrow> enters q P (snd (snd (case x of (a, b) \<Rightarrow> f a b)))"
  by (cases x) simp

lemma enters_files: "enters q P (snd (snd (on_files su rq msg se q)))"
  by (simp add: on_files_def split: option.split)

text \<open>When a reset is accepted.\<close>

definition reset_granted :: "request \<Rightarrow> session \<Rightarrow> queue \<Rightarrow> bool" where
  "reset_granted rq se q \<longleftrightarrow> (\<exists>p. se_preview se = Some p \<and> pw_not_before p \<le> rq_now rq \<and> rq_now rq \<le> pw_expires_at p
     \<and> form rq ''preview_nonce'' = pw_nonce p \<and> confirmed rq (required_text p) \<and> queue_has_pending_jobs q = None)"

lemma enters_reset: "enters q (\<lambda>a. reset_granted rq se q) (snd (snd (reset_app_data su rq actor_id actor se q)))"
  unfolding reset_app_data_def Let_def
proof (intro enters_if enters_option enters_keep)
  fix p :: preview
  assume g: "se_preview se = Some p" "\<not> pw_expires_at p < rq_now rq" "\<not> rq_now rq < pw_not_before p"
    "\<not> (form rq ''preview_nonce'' = [] \<or> form rq ''preview_nonce'' \<noteq> pw_nonce p)" "\<not> \<not> confirmed rq (required_text p)"
    "queue_has_pending_jobs q = None"
  have g': "reset_granted rq se q" using g by (auto simp: reset_granted_def)
  obtain x q' where e: "enqueue_job (rq_now rq) (su_woke su) ''reset_app_data'' (su_encode su (reset_parameters actor_id actor p)) actor True q = (x, q')"
    by fastforce
  show "enters q (\<lambda>a. reset_granted rq se q) (snd (snd (case enqueue_job (rq_now rq) (su_woke su) ''reset_app_data''
      (su_encode su (reset_parameters actor_id actor p)) actor True q of
      (Inl e, q') \<Rightarrow> (Inl e, se, q')
    | (Inr (i, u), q') \<Rightarrow> (Inr (''True Nuclear Reset job #'' @ str_of_int i
        @ '' accepted. Only this super_admin, this job and one Nuclear audit will remain.''), se\<lparr>se_preview := None\<rparr>, q'))))"
    using actions_enqueue[OF e] g' unfolding e by (cases x) (auto simp: enters_def)
qed

lemma names:
  "lower (strip ''configuration_backup'') = ''configuration_backup''" "lower (strip ''full_backup'') = ''full_backup''"
  "lower (strip ''full_backup_verify'') = ''full_backup_verify''" "lower (strip ''configuration_restore'') = ''configuration_restore''"
  by code_simp+

lemma enters_sensitive:
  assumes "form_action rq \<in> set sensitive"
  shows "enters q (\<lambda>a. verify_current_admin_password si se db (form rq ''admin_password'')
      \<and> (a = ''reset_app_data'' \<longrightarrow> form_action rq = ''reset_app_data'' \<and> reset_granted rq se q))
    (snd (snd (sensitive_action su si rq actor_id actor se db q)))" (is "enters q ?P _")
  unfolding sensitive_action_def Let_def
proof (intro enters_if enters_option enters_keep enters_files enters_prod)
  assume p: "\<not> \<not> verify_current_admin_password si se db (form rq ''admin_password'')"
    and n: "form_action rq \<noteq> ''configuration_backup''" "form_action rq \<noteq> ''full_backup''" "form_action rq \<noteq> ''full_backup_verify''"
      "\<not> (form_action rq = ''full_backup_protect'' \<or> form_action rq = ''full_backup_unprotect'')" "form_action rq \<noteq> ''full_backup_download''"
      "form_action rq \<noteq> ''full_backup_delete''" "form_action rq \<noteq> ''configuration_restore''"
      "\<not> (form_action rq = ''configuration_backup_protect'' \<or> form_action rq = ''configuration_backup_unprotect'')"
      "form_action rq \<noteq> ''configuration_backup_download''" "form_action rq \<noteq> ''configuration_backup_delete''" "form_action rq \<noteq> ''reset_app_data_preview''"
  have "form_action rq = ''reset_app_data''" using assms n unfolding sensitive_def by simp
  then show "enters q ?P (snd (snd (reset_app_data su rq actor_id actor se q)))"
    using p enters_mono[OF enters_reset] by simp
qed (rule enters_queued, simp add: names)+

text \<open>The routes: nothing enters before \<open>require_admin\<close> has let the request in.\<close>

definition admitted :: "site \<Rightarrow> request \<Rightarrow> session \<Rightarrow> admin_db \<Rightarrow> bool" where
  "admitted si rq se db \<longleftrightarrow> require_admin si rq (se, db) = (None, se, boot si rq db)"

lemma enters_guarded:
  assumes "admitted si rq se db \<Longrightarrow> enters q P (snd (snd (f ((se, boot si rq db), q))))"
  shows "enters q P (snd (snd (guarded_office si rq f ((se, db), q))))"
proof -
  obtain deny se1 db1 where f: "require_admin si rq (se, db) = (deny, se1, db1)" by (metis prod_cases3)
  show ?thesis using require_admin_session[OF f] f assms by (cases deny) (simp_all add: guarded_office_def admitted_def)
qed

lemma enters_plain:
  assumes "\<And>p. admitted si rq se db \<Longrightarrow> params = Inr p \<Longrightarrow> P (lower (strip (form_action rq)))"
  shows "enters q P (snd (snd (plain_maintenance su si rq params ((se, db), q))))"
  unfolding plain_maintenance_def Let_def
proof (rule enters_guarded, unfold prod.case)
  assume a: "admitted si rq se db"
  let ?b = "boot si rq db"
  let ?actor = "str_or (dashboard_username se) (get_admin_username si ?b)"
  let ?failed = "\<lambda>e q1. (notice False (''Could not start maintenance: '' @ e),
      log_account_event si rq ''database_maintenance_queue_failed'' ?actor ''admin'' ''admin'' (take 500 (''Could not start maintenance: '' @ e)) (se, ?b), q1)"
  let ?go = "\<lambda>p. case enqueue_maintenance_job (rq_now rq) (su_woke su) (su_encode su) (form_action rq) p ?actor q of
      (Inl e, q1) \<Rightarrow> ?failed e q1
    | (Inr (i, u), q1) \<Rightarrow> (notice True (''Started maintenance job #'' @ str_of_int i @ '' ('' @ form_action rq @ '') as '' @ u @ ''.''),
        log_account_event si rq ''database_maintenance_queued'' ?actor ''admin'' ''admin''
          (''Started maintenance job #'' @ str_of_int i @ '' ('' @ form_action rq @ '') as '' @ u @ ''.'') (se, ?b), q1)"
  show "enters q P (snd (snd (case params of Inl e \<Rightarrow> ?failed e q | Inr p \<Rightarrow> ?go p)))"
  proof (cases params)
    case (Inr p)
    obtain x q1 where e: "enqueue_maintenance_job (rq_now rq) (su_woke su) (su_encode su) (form_action rq) p ?actor q = (x, q1)" by fastforce
    then have "case x of Inl _ \<Rightarrow> q1 = q | Inr _ \<Rightarrow> actions q1 = actions q @ [lower (strip (form_action rq))]"
      unfolding enqueue_maintenance_job_def Let_def by (auto dest!: actions_enqueue split: sum.splits)
    then show ?thesis using assms[OF a Inr] unfolding Inr sum.case e by (cases x) (auto simp: enters_def)
  qed simp
qed

lemma space_lower: "is_space (lower_char c) = is_space c"
proof (cases "65 \<le> (of_char c :: nat) \<and> (of_char c :: nat) \<le> 90")
  case True
  then have "of_char (char_of (of_char c + 32 :: nat) :: char) = (of_char c + 32 :: nat)" by (simp add: of_char_of)
  then show ?thesis using True by (simp add: is_space_def lower_char_def Let_def)
qed (auto simp: is_space_def lower_char_def Let_def)

lemma form_action_again: "lower (strip (form_action rq)) = form_action rq"
proof -
  have "trimmed (lower s)" if "trimmed s" for s
    using that space_lower by (cases "s = []") (auto simp: trimmed_def lower_def hd_map last_map)
  then show ?thesis using trimmed_strip strip_trimmed lower_idem unfolding form_action_def by metis
qed

lemma base_names: "base_parameters su rq = Inr p \<Longrightarrow> form_action rq \<in> {''delete_history'', ''delete_compact'', ''vacuum'', ''retention'', ''clear_monitoring_data'', ''reset_app_data''}"
  unfolding base_parameters_def Let_def by (simp split: if_splits)

lemma enters_sensitive_route:
  assumes "form_action rq \<in> set sensitive"
  shows "enters q (\<lambda>a. admitted si rq se db \<and> verify_current_admin_password si se (boot si rq db) (form rq ''admin_password'')
      \<and> (a = ''reset_app_data'' \<longrightarrow> form_action rq = ''reset_app_data'' \<and> reset_granted rq se q))
    (snd (snd (sensitive_maintenance su si rq ((se, db), q))))" (is "enters q ?P _")
  unfolding sensitive_maintenance_def fst_conv snd_conv
proof (intro enters_if enters_keep, rule enters_guarded, unfold prod.case, intro enters_option enters_keep enters_prod)
  fix actor_id actor
  assume a: "admitted si rq se db"
  let ?b = "boot si rq db"
  obtain x se1 q1 where s: "sensitive_action su si rq actor_id actor se ?b q = (x, se1, q1)" by (metis prod_cases3)
  have "enters q ?P q1" using enters_mono[OF enters_sensitive[OF assms, of q si se ?b su actor_id actor]] a unfolding s by simp
  then show "enters q ?P (snd (snd (let action = form_action rq; log = log_account_event si rq; prefix = ''action='' @ action in
      case sensitive_action su si rq actor_id actor se ?b q of
        (Inl e, se1, q1) \<Rightarrow> (notice False (''Super Admin maintenance action was not started: '' @ e),
           log ''super_admin_maintenance_rejected'' actor ''admin'' ''super_admin''
             (prefix @ '';error='' @ take 400 (''Super Admin maintenance action was not started: '' @ e)) (se1, ?b), q1)
      | (Inr message, se1, q1) \<Rightarrow>
          (if action = ''full_backup_download'' \<or> action = ''configuration_backup_download'' then
             (Reply 200 (strip (form rq ''backup_id'')),
              log ''super_admin_maintenance_action'' actor ''admin'' ''super_admin'' (prefix @ '';backup_id='' @ strip (form rq ''backup_id'')) (se1, ?b), q1)
           else (notice True message,
             log ''super_admin_maintenance_action'' actor ''admin'' ''super_admin'' (prefix @ '';message='' @ take 300 message) (se1, ?b), q1)))))"
    unfolding s Let_def by (cases x) simp_all
qed

text \<open>What has been checked when a job enters.\<close>

definition start_rights :: "site \<Rightarrow> request \<Rightarrow> session \<Rightarrow> admin_db \<Rightarrow> queue \<Rightarrow> string \<Rightarrow> bool" where
  "start_rights si rq se db q a \<longleftrightarrow> admitted si rq se db
     \<and> (is_super_admin se db \<or> a \<in> {''retention'', ''vacuum'', ''delete_history'', ''delete_compact''}
         \<or> verify_current_admin_password si se (boot si rq db) (form rq ''admin_password''))
     \<and> (a = ''reset_app_data'' \<longrightarrow> reset_granted rq se q \<and> verify_current_admin_password si se (boot si rq db) (form rq ''admin_password''))"

theorem enters_maintenance: "enters q (start_rights si rq se db q) (snd (snd (admin_database_maintenance su si rq ((se, db), q))))"
  unfolding admin_database_maintenance_def Let_def prod.case fst_conv snd_conv
proof (intro enters_if enters_keep)
  let ?P = "start_rights si rq se db q"
  assume n: "\<not> (form_action rq \<in> set SUPER_ADMIN_ONLY_MAINTENANCE_ACTIONS \<and> \<not> is_super_admin se db)"
  { assume "form_action rq \<in> set sensitive"
    from enters_sensitive_route[OF this] show "enters q ?P (snd (snd (sensitive_maintenance su si rq ((se, db), q))))"
      by (rule enters_mono) (simp add: start_rights_def) }
  { assume "form_action rq \<in> {''clear_api_logs'', ''clear_api_data''}"
    then have "is_super_admin se db" "form_action rq \<noteq> ''reset_app_data''" using n by (auto simp: SUPER_ADMIN_ONLY_MAINTENANCE_ACTIONS_def)
    then show "enters q ?P (snd (snd (plain_maintenance su si rq (api_parameters rq) ((se, db), q))))"
      by (intro enters_plain) (simp add: form_action_again start_rights_def) }
  { assume s: "form_action rq \<notin> set sensitive"
    show "enters q ?P (snd (snd (plain_maintenance su si rq (base_parameters su rq) ((se, db), q))))"
    proof (rule enters_plain)
      fix p assume a: "admitted si rq se db" "base_parameters su rq = Inr p"
      have "form_action rq \<noteq> ''reset_app_data''" using s by (auto simp: sensitive_def)
      moreover have "form_action rq = ''clear_monitoring_data'' \<Longrightarrow> is_super_admin se db" using n by (simp add: SUPER_ADMIN_ONLY_MAINTENANCE_ACTIONS_def)
      ultimately show "?P (lower (strip (form_action rq)))"
        using a(1) base_names[OF a(2)] unfolding form_action_again start_rights_def by auto
    qed }
qed

section \<open>What the roles can start\<close>

lemma verified_user:
  assumes "verify_current_admin_password si se db password"
  shows "\<exists>u. current_dashboard_user se db = Some u \<and> ac_role u = ''super_admin'' \<and> ac_active u \<and> si_check si (ac_hash u) password"
  using assms by (auto simp: verify_current_admin_password_def split: option.splits)

text \<open>In every state of the dashboard a form of the maintenance page puts at most one job into the queue, and only for a
  visitor with the cookie of an active account and the token of the session. An administrator gets no action but the retention,
  the compaction and the two clean-ups of old history; every other one needs a super admin.\<close>

theorem role_limits_jobs:
  assumes run: "served si (issued, db)" "se = no_session \<or> se \<in> set issued" and users: "us_users db \<noteq> []" and p: "rq_post rq"
    and go: "admin_database_maintenance su si rq ((se, db), q) = (r, (w, q'))" and new: "actions q' \<noteq> actions q"
  shows "\<exists>a u token. actions q' = actions q @ [a] \<and> allowed si db se \<and> current_dashboard_user se db = Some u \<and> ac_active u
    \<and> se_csrf se = Some token \<and> dget (rq_form rq) ''csrf_token'' = Some token
    \<and> (ac_role u = ''super_admin'' \<or> ac_role u = ''admin'' \<and> a \<in> {''retention'', ''vacuum'', ''delete_history'', ''delete_compact''})"
proof -
  have ok: "accounts_ok db" "session_ok db se" using served_ok[OF run(1)] run(2) by (auto simp: server_ok_def list_all_iff)
  note b = boot_id[OF users]
  obtain a where a: "actions q' = actions q @ [a]" "start_rights si rq se db q a"
    using enters_maintenance[of q si rq se db su] new by (auto simp: go enters_def)
  note r = require_admin_None[OF conjunct1[OF a(2)[unfolded start_rights_def], unfolded admitted_def], unfolded b]
  obtain u where u: "current_dashboard_user se db = Some u" "ac_active u" "clean_role (ac_role u) \<in> {''admin'', ''super_admin''}" using r(3) by blast
  have role: "ac_role u \<in> {''admin'', ''super_admin''}" using u role_clean[OF ok(1) current_user_mem[OF u(1)]] by simp
  have s: "se_csrf se \<noteq> None" "se_user se \<noteq> []" using r(2) ok(2) by (auto elim!: allowed_user simp: session_ok_def)
  have sup: "is_super_admin se db \<Longrightarrow> ac_role u = ''super_admin''"
    using current_user_name(2)[OF ok u(1) s(2)] by (simp add: is_super_admin_def)
  have ver: "verify_current_admin_password si se db x \<Longrightarrow> ac_role u = ''super_admin''" for x using verified_user u(1) by fastforce
  define few where "few = {''retention'', ''vacuum'', ''delete_history'', ''delete_compact''}"
  have "is_super_admin se db \<or> a \<in> few \<or> verify_current_admin_password si se db (form rq ''admin_password'')"
    using a(2)[unfolded start_rights_def b, folded few_def] by (rule conjunct1[OF conjunct2])
  then have "ac_role u = ''super_admin'' \<or> a \<in> few" using sup ver by (elim disjE) simp_all
  then have rights: "ac_role u = ''super_admin'' \<or> ac_role u = ''admin'' \<and> a \<in> few" using role by (cases "ac_role u = ''super_admin''") simp_all
  obtain token where t: "se_csrf se = Some token" using s(1) by blast
  then have "dget (rq_form rq) ''csrf_token'' = Some token" using r(4)[OF p] by simp
  with a(1) r(2) u(1,2) t rights[unfolded few_def] show ?thesis by (intro exI[of _ a] exI[of _ u] exI[of _ token] conjI)
qed

lemma require_admin_reply: "require_admin si rq s = (Some d, s') \<Longrightarrow> d \<noteq> Redirect_Note m good t"
  by (auto simp: require_admin_def Let_def case_prod_beta split: if_splits)

text \<open>The cookie a preview leaves.\<close>

lemma preview_session:
  assumes go: "admin_database_maintenance su si rq ((se0, db0), q0) = (Redirect_Note m True t, ((se, db1), q1))"
    and a: "form_action rq = ''reset_app_data_preview''" and p: "se_preview se = Some p"
  shows "pw_not_before p = rq_now rq + 15 \<and> pw_expires_at p = rq_now rq + 300 \<and> pw_nonce p = su_nonce su \<and> pw_code p = su_code su"
proof -
  have n: "form_action rq \<in> set sensitive" "form_action rq \<in> set SUPER_ADMIN_ONLY_MAINTENANCE_ACTIONS"
    using a by (simp_all add: sensitive_def SUPER_ADMIN_ONLY_MAINTENANCE_ACTIONS_def)
  have su: "is_super_admin se0 db0" using go n by (auto simp: admin_database_maintenance_def Let_def split: if_splits)
  have m: "sensitive_maintenance su si rq ((se0, db0), q0) = (Redirect_Note m True t, ((se, db1), q1))"
    using go n su by (simp add: admin_database_maintenance_def)
  have c: "clean_role (current_role se0 db0) = ''super_admin''" using su by (simp add: is_super_admin_def)
  obtain deny se1 b where f: "require_admin si rq (se0, db0) = (deny, se1, b)" by (metis prod_cases3)
  note m1 = m[unfolded sensitive_maintenance_def guarded_office_def fst_conv snd_conv f c]
  have d: "deny = None"
  proof (cases deny)
    case (Some d)
    then have "d = Redirect_Note m True t" using m1 by simp
    then show ?thesis using require_admin_reply f Some by blast
  qed
  then have f1: "se1 = se0" using require_admin_session(3)[OF f] by simp
  obtain i n' where k: "current_super_admin_identity se0 b = Some (i, n')"
    using m1 d f1 by (cases "current_super_admin_identity se0 b") auto
  obtain x se2 q2 where s: "sensitive_action su si rq i n' se0 b q0 = (x, se2, q2)" by (metis prod_cases3)
  note m2 = m1[unfolded d f1, simplified, unfolded k, simplified, unfolded s, simplified]
  obtain msg where x: "x = Inr msg" using m2 by (cases x) (auto simp: notice_def Let_def)
  have "settled se2 se" using m2 log_session unfolding x by (auto simp: Let_def a notice_def prod_eq_iff) metis+
  moreover have "se2 = (snd (reset_preview su rq se0 q0)) \<and> fst (reset_preview su rq se0 q0) = Inr msg"
    using s x a by (auto simp: sensitive_action_def Let_def case_prod_beta split: if_splits)
  ultimately show ?thesis using p by (auto simp: reset_preview_def Let_def no_session_def split: option.splits)
qed

text \<open>C14. A true reset enters the queue only after a preview that left the cookie it is sent with, between fifteen seconds and
  five minutes later, with the nonce and the code of that preview, while no other job waits or runs, and with the password of the
  active super admin whose session it is.\<close>

theorem reset_needs_fresh_preview:
  assumes users: "us_users db2 \<noteq> []"
    and pre: "admin_database_maintenance su1 si rq1 ((se0, db0), q0) = (Redirect_Note m True t, ((se, db1), q1))"
      "form_action rq1 = ''reset_app_data_preview''"
    and go: "admin_database_maintenance su2 si rq2 ((se, db2), q2) = (r, (w, q3))" "actions q3 = actions q2 @ [''reset_app_data'']"
  shows "rq_now rq1 + 15 \<le> rq_now rq2 \<and> rq_now rq2 \<le> rq_now rq1 + 300 \<and> form rq2 ''preview_nonce'' = su_nonce su1
    \<and> (\<exists>text. strip (form rq2 ''confirm_text'') = text @ '' '' @ su_code su1) \<and> \<not> list_ex pending_job (q_jobs q2)
    \<and> allowed si db2 se \<and> (\<exists>u. current_dashboard_user se db2 = Some u \<and> ac_role u = ''super_admin'' \<and> ac_active u
        \<and> si_check si (ac_hash u) (form rq2 ''admin_password''))"
proof -
  note b = boot_id[OF users]
  have a: "start_rights si rq2 se db2 q2 ''reset_app_data''"
    using enters_maintenance[of q2 si rq2 se db2 su2] go(2) by (auto simp: go(1) enters_def)
  then obtain p where p: "se_preview se = Some p" "pw_not_before p \<le> rq_now rq2" "rq_now rq2 \<le> pw_expires_at p"
      "form rq2 ''preview_nonce'' = pw_nonce p" "confirmed rq2 (required_text p)" "queue_has_pending_jobs q2 = None"
    by (auto simp: start_rights_def reset_granted_def)
  note l = require_admin_None(2)[OF conjunct1[OF a[unfolded start_rights_def], unfolded admitted_def], unfolded b]
  have v: "verify_current_admin_password si se db2 (form rq2 ''admin_password'')" using a by (simp add: start_rights_def b)
  have "\<not> list_ex pending_job (q_jobs q2)"
    using p(6) by (simp add: queue_has_pending_jobs_def select_first_None list_ex_iff)
  moreover have "\<exists>text. strip (form rq2 ''confirm_text'') = text @ '' '' @ pw_code p" using p(5) by (auto simp: confirmed_def required_text_def)
  ultimately show ?thesis using preview_session[OF pre p(1)] p l verified_user[OF v] by simp
qed


section \<open>An example\<close>

definition sample_surroundings :: surroundings where
  "sample_surroundings = \<lparr>su_woke = (True, []), su_encode = (\<lambda>d. ''{}''), su_files = (\<lambda>a b. None), su_counts = (40, 1000), su_nonce = ''n'',
     su_code = ''123456'', su_days = (2, 7)\<rparr>"

definition retention_request :: request where
  "retention_request = post ''admin_database_maintenance'' ''6'' [(''action'', ''retention''), (''csrf_token'', ''t1'')]"

definition preview_request :: request where
  "preview_request = post ''admin_database_maintenance'' ''6''
     [(''action'', ''reset_app_data_preview''), (''admin_password'', ''correct-horse''), (''csrf_token'', ''t1'')]"

definition reset_request :: request where
  "reset_request = (post ''admin_database_maintenance'' ''7''
     [(''action'', ''reset_app_data''), (''admin_password'', ''correct-horse''), (''csrf_token'', ''t1''), (''preview_nonce'', ''n''),
      (''confirm_text'', ''RESET VIRTINFRA 123456'')])\<lparr>rq_now := 200\<rparr>"

definition preview_cookie :: session where
  "preview_cookie = root_cookie\<lparr>se_preview := Some \<lparr>pw_nonce = ''n'', pw_code = ''123456'', pw_not_before = 115, pw_expires_at = 400,
     pw_created_at = 100, pw_table_count = 40, pw_estimated_rows = 1000, pw_configuration = True, pw_full = False\<rparr>\<rparr>"

definition previewed_db :: admin_db where
  "previewed_db = tables [root_row, boss_row (Some 100)] 3 (take 3 log_lines @ [log_line ''super_admin_maintenance_action'' ''root''
     ''action=reset_app_data_preview;message=Nuclear preview created. Review and confirm within 5 minutes.''])"

lemma sample_office:
  "actions (snd (snd (admin_database_maintenance sample_surroundings sample_site retention_request ((root_cookie, both_db), empty_queue)))) = [''retention'']"
  "admin_database_maintenance sample_surroundings sample_site preview_request ((root_cookie, both_db), empty_queue)
    = (Redirect_Note ''maintenance'' True ''Nuclear preview created. Review and confirm within 5 minutes.'', ((preview_cookie, previewed_db), empty_queue))"
  "actions (snd (snd (admin_database_maintenance sample_surroundings sample_site reset_request ((preview_cookie, previewed_db), empty_queue)))) = [''reset_app_data'']"
  by code_simp+

theorem role_limits_jobs_witness:
  "\<exists>a u token. actions (snd (snd (admin_database_maintenance sample_surroundings sample_site retention_request ((root_cookie, both_db), empty_queue)))) = actions empty_queue @ [a]
    \<and> allowed sample_site both_db root_cookie \<and> current_dashboard_user root_cookie both_db = Some u \<and> ac_active u
    \<and> se_csrf root_cookie = Some token \<and> dget (rq_form retention_request) ''csrf_token'' = Some token
    \<and> (ac_role u = ''super_admin'' \<or> ac_role u = ''admin'' \<and> a \<in> {''retention'', ''vacuum'', ''delete_history'', ''delete_compact''})"
proof -
  obtain r w q' where o: "admin_database_maintenance sample_surroundings sample_site retention_request ((root_cookie, both_db), empty_queue) = (r, (w, q'))"
    by (metis prod_cases3)
  have n: "actions q' \<noteq> actions empty_queue" using sample_office(1) unfolding o snd_conv by (simp add: empty_queue_def)
  have p: "rq_post retention_request" by (simp add: retention_request_def post_def)
  have i: "root_cookie = no_session \<or> root_cookie \<in> set [boss_cookie, root_cookie, root_cookie]" by simp
  have u: "us_users both_db \<noteq> []" by (simp add: both_users)
  from role_limits_jobs[OF sample_served(3) i u p o n] show ?thesis by (simp only: o snd_conv)
qed

theorem reset_needs_fresh_preview_witness:
  "100 + 15 \<le> rq_now reset_request \<and> rq_now reset_request \<le> 100 + 300 \<and> allowed sample_site previewed_db preview_cookie"
proof -
  obtain r w q3 where o: "admin_database_maintenance sample_surroundings sample_site reset_request ((preview_cookie, previewed_db), empty_queue) = (r, (w, q3))"
    by (metis prod_cases3)
  have a: "actions q3 = actions empty_queue @ [''reset_app_data'']" using sample_office(3) unfolding o snd_conv by (simp add: empty_queue_def)
  have f: "form_action preview_request = ''reset_app_data_preview''" by code_simp
  have u: "us_users previewed_db \<noteq> []" by (simp add: previewed_db_def tables_def)
  from reset_needs_fresh_preview[OF u sample_office(2) f o a] show ?thesis by (simp add: preview_request_def post_def)
qed

end
