(* ===== verification/Inventory.thy ===== *)
theory Inventory
  imports Admin_Maintenance Push_Ingest
begin

text \<open>
  The inventory and the groups of the nodes: the tables node_inventory, vm_inventory, node_groups,
  node_group_memberships and node_group_membership_history (layer 00, node_groups.py), the pages
  of operations that hide, restore and purge nodes and machines (layers 09 and 24, the later one in
  front), and what a push and the purge worker do to these tables. A page works on the session, the
  accounts, these tables and the maintenance queue.
\<close>

section \<open>Rows by key\<close>

lemma row_of_update: "(\<And>r. key (f r) = key r) \<Longrightarrow> row_of key k (update_where P f rows) = map_option (\<lambda>r. if P r then f r else r) (row_of key k rows)"
  by (induction rows) (auto simp: update_where_def)

lemma row_of_update_key:
  "(\<And>r. key (f r) = key r) \<Longrightarrow> row_of key k (update_where (\<lambda>r. key r = k') f rows) = (if k = k' then map_option f (row_of key k rows) else row_of key k rows)"
  by (induction rows) (auto simp: update_where_def)

lemma row_of_map: "(\<And>r. key (f r) = key r) \<Longrightarrow> row_of key k (map f rows) = map_option f (row_of key k rows)"
  by (induction rows) auto

lemma row_of_Some_iff: "distinct (map key rows) \<Longrightarrow> row_of key k rows = Some r \<longleftrightarrow> r \<in> set rows \<and> key r = k"
  using row_of_key[of key k rows r] row_of_distinct[of key rows r] by auto

lemma map_key_update: "(\<And>r. key (f r) = key r) \<Longrightarrow> map key (update_where P f rows) = map key rows"
  by (simp add: update_where_def)

section \<open>The tables\<close>

record vm_inv =
  vi_node :: string
  vi_uuid :: string
  vi_first_seen :: int
  vi_last_seen :: int
  vi_iface :: string
  vi_bridge :: string
  vi_status :: string
  vi_hidden_at :: "int option"
  vi_deleted_at :: "int option"

record node_group =
  gr_id :: int
  gr_name :: string
  gr_description :: string
  gr_country :: string
  gr_active :: bool
  gr_system :: bool
  gr_created :: int
  gr_updated :: int
  gr_hidden_at :: "int option"

record membership =
  mb_node :: string
  mb_group :: int
  mb_at :: int
  mb_by :: string

text \<open>A row of the history has the id and name of the old and of the new group, where there is one.\<close>

record group_event =
  ge_event :: string
  ge_actor :: string
  ge_node :: string
  ge_old :: "(int \<times> string) option"
  ge_new :: "(int \<times> string) option"
  ge_at :: int

record estate =
  es_nodes :: "node_row list"
  es_vms :: "vm_inv list"
  es_groups :: "node_group list"
  es_next :: int
  es_members :: "membership list"
  es_history :: "group_event list"

text \<open>
  What surrounds a page: the result of waking the dispatcher, the JSON encoder, the sizes of a purge
  (layers 00 and 24), whether the write of the page finds the database locked, and the codes of
  the countries with a flag among the static files.
\<close>

record desk_env =
  de_woke :: "bool \<times> string"
  de_encode :: "pyval dict \<Rightarrow> string"
  de_batch :: int
  de_max :: int
  de_busy :: bool
  de_flags :: "string list"

type_synonym desk = "(session \<times> admin_db) \<times> estate \<times> queue"

definition guarded_desk :: "site \<Rightarrow> request \<Rightarrow> (desk \<Rightarrow> response \<times> desk) \<Rightarrow> desk \<Rightarrow> response \<times> desk" where
  "guarded_desk si rq go s = (case require_admin si rq (fst s) of
      (Some deny, w) \<Rightarrow> (deny, w, snd s) | (None, w) \<Rightarrow> go (w, snd s))"

text \<open>\<open>getlist\<close> of a form, and the values in order without blanks and repetitions.\<close>

definition form_list :: "request \<Rightarrow> string \<Rightarrow> string list" where
  "form_list rq k = map snd (filter (\<lambda>kv. fst kv = k) (rq_form rq))"

definition clean_nodes :: "string list \<Rightarrow> string list" where
  "clean_nodes values = dedup_first [] (filter (\<lambda>n. n \<noteq> []) (map strip values))"

text \<open>A machine of the form: node and uuid around the first tab.\<close>

definition vm_value :: "string \<Rightarrow> (string \<times> string) option" where
  "vm_value value = (let node = takeWhile (\<lambda>c. c \<noteq> CHR 0x09) value in
     if node = value then None else Some (strip node, strip (drop (length node + 1) value)))"

definition clean_pairs :: "(string \<times> string) list \<Rightarrow> (string \<times> string) list" where
  "clean_pairs values = dedup_first [] (filter (\<lambda>(node, vm). node \<noteq> [] \<and> vm \<noteq> []) values)"

section \<open>Hiding and restoring rows\<close>

definition hide_node :: "int \<Rightarrow> node_row \<Rightarrow> node_row" where
  "hide_node now r = r\<lparr>nd_status := ''hidden'', nd_hidden_at := Some (case nd_hidden_at r of None \<Rightarrow> now | Some t \<Rightarrow> t)\<rparr>"

definition soft_hide_node :: "int \<Rightarrow> node_row \<Rightarrow> node_row" where
  "soft_hide_node now r = (hide_node now r)\<lparr>nd_deleted_at := None\<rparr>"

definition restore_node :: "node_row \<Rightarrow> node_row" where
  "restore_node r = r\<lparr>nd_status := ''active'', nd_hidden_at := None, nd_deleted_at := None\<rparr>"

definition hide_vm :: "int \<Rightarrow> vm_inv \<Rightarrow> vm_inv" where
  "hide_vm now r = r\<lparr>vi_status := ''hidden'', vi_hidden_at := Some (case vi_hidden_at r of None \<Rightarrow> now | Some t \<Rightarrow> t)\<rparr>"

definition soft_hide_vm :: "int \<Rightarrow> vm_inv \<Rightarrow> vm_inv" where
  "soft_hide_vm now r = (hide_vm now r)\<lparr>vi_deleted_at := None\<rparr>"

definition restore_vm :: "vm_inv \<Rightarrow> vm_inv" where
  "restore_vm r = r\<lparr>vi_status := ''active'', vi_hidden_at := None, vi_deleted_at := None\<rparr>"

definition vm_key :: "vm_inv \<Rightarrow> string \<times> string" where
  "vm_key r = (vi_node r, vi_uuid r)"

text \<open>UPDATE ... WHERE.\<close>

definition set_nodes :: "(node_row \<Rightarrow> bool) \<Rightarrow> (node_row \<Rightarrow> node_row) \<Rightarrow> estate \<Rightarrow> estate" where
  "set_nodes P f es = es\<lparr>es_nodes := update_where P f (es_nodes es)\<rparr>"

definition set_vms :: "(vm_inv \<Rightarrow> bool) \<Rightarrow> (vm_inv \<Rightarrow> vm_inv) \<Rightarrow> estate \<Rightarrow> estate" where
  "set_vms P f es = es\<lparr>es_vms := update_where P f (es_vms es)\<rparr>"

text \<open>Putting back the status and the time of hiding that rows had before.\<close>

definition put_back_node :: "node_row \<Rightarrow> estate \<Rightarrow> estate" where
  "put_back_node old = set_nodes (\<lambda>r. nd_node r = nd_node old) (\<lambda>r. r\<lparr>nd_status := nd_status old, nd_hidden_at := nd_hidden_at old\<rparr>)"

definition put_back_vm :: "vm_inv \<Rightarrow> estate \<Rightarrow> estate" where
  "put_back_vm old = set_vms (\<lambda>r. vm_key r = vm_key old) (\<lambda>r. r\<lparr>vi_status := vi_status old, vi_hidden_at := vi_hidden_at old\<rparr>)"

section \<open>The purge jobs\<close>

datatype purge_items = Nodes "string list" | Machines "(string \<times> string) list"

definition vm_item :: "string \<times> string \<Rightarrow> pyval" where
  "vm_item p = PDict [(''node'', PStr (fst p)), (''vm_uuid'', PStr (snd p))]"

definition purge_parameters :: "desk_env \<Rightarrow> purge_items \<Rightarrow> pyval dict" where
  "purge_parameters de items = (case items of
      Nodes ns \<Rightarrow> [(''nodes'', PList (map PStr ns)), (''batch_size'', PInt (de_batch de))]
    | Machines vs \<Rightarrow> [(''vms'', PList (map vm_item vs)), (''batch_size'', PInt (de_batch de))])"

definition clean_items :: "purge_items \<Rightarrow> purge_items" where
  "clean_items items = (case items of
      Nodes ns \<Rightarrow> Nodes (clean_nodes ns)
    | Machines vs \<Rightarrow> Machines (clean_pairs (map (\<lambda>(n, v). (strip n, strip v)) vs)))"

definition items_count :: "purge_items \<Rightarrow> nat" where
  "items_count items = (case items of Nodes ns \<Rightarrow> length ns | Machines vs \<Rightarrow> length vs)"

definition enqueue_batched_purge_jobs ::
  "int \<Rightarrow> desk_env \<Rightarrow> string \<Rightarrow> purge_items \<Rightarrow> string \<Rightarrow> queue \<Rightarrow> (string + int \<times> string \<times> nat) \<times> queue" where
  "enqueue_batched_purge_jobs now de action items actor q =
     (let action = lower (strip action); clean = clean_items items; n = items_count clean in
      if action \<notin> {''purge_nodes'', ''purge_node_vms'', ''purge_vms''} then (Inl ''Unsupported purge action'', q)
      else if n = 0 then (Inl ''No valid purge item was selected'', q)
      else if de_max de < int n
      then (Inl (''Selection has '' @ str_of_int (int n) @ '' items; maximum is '' @ str_of_int (de_max de)), q)
      else (case enqueue_maintenance_job now (de_woke de) (de_encode de) action (purge_parameters de clean) actor q of
          (Inl e, q1) \<Rightarrow> (Inl e, q1)
        | (Inr (i, u), q1) \<Rightarrow> (Inr (i, u, n), q1)))"

text \<open>
  A page that has hidden the rows of a purge asks for its job; when that fails it puts the rows
  back. The names are those of the two events, the text of an error begins with \<open>what\<close>.
\<close>

definition queue_purge ::
  "desk_env \<Rightarrow> site \<Rightarrow> request \<Rightarrow> string \<Rightarrow> purge_items \<Rightarrow> string \<Rightarrow> string \<Rightarrow> (int \<Rightarrow> string) \<Rightarrow> (int \<Rightarrow> string)
    \<Rightarrow> (estate \<Rightarrow> estate) \<Rightarrow> desk \<Rightarrow> response \<times> desk" where
  "queue_purge de si rq action items event what msg detail back s =
     (let ((se, db), es, q) = s; actor = str_or (se_admin_user se) (dashboard_username se) in
      case enqueue_batched_purge_jobs (rq_now rq) de action items actor q of
        (Inr (i, u, n), q1) \<Rightarrow>
          (notice True (msg i), log_account_event si rq (event @ ''_queued'') actor ''admin'' ''admin'' (detail i) (se, db), es, q1)
      | (Inl e, q1) \<Rightarrow>
          (let err = ''Could not queue '' @ what @ '': '' @ e in
           (notice False err, log_account_event si rq (event @ ''_queue_failed'') actor ''admin'' ''admin'' (take 500 err) (se, db), back es, q1)))"

section \<open>Single nodes and machines\<close>

text \<open>Back to a section of the operations page, without a message.\<close>

definition back_to :: "string \<Rightarrow> response" where
  "back_to part = Redirect_Note part True []"

text \<open>\<open>_v48124_inventory_write\<close>: a locked database leaves the tables alone.\<close>

definition inventory_write :: "desk_env \<Rightarrow> string \<Rightarrow> (estate \<Rightarrow> estate) \<Rightarrow> desk \<Rightarrow> response option \<times> desk" where
  "inventory_write de busy change s = (let (w, es, q) = s in
     if de_busy de then (Some (Redirect_Note [] False busy), w, es, q) else (None, w, change es, q))"

definition wait_text :: "string \<Rightarrow> string" where
  "wait_text what = ''Database is busy. '' @ what @ ''; wait for the active maintenance job.''"

definition after_write :: "response \<Rightarrow> response option \<times> desk \<Rightarrow> response \<times> desk" where
  "after_write good r = (case fst r of Some busy \<Rightarrow> (busy, snd r) | None \<Rightarrow> (good, snd r))"

definition purge_one_vm :: "desk_env \<Rightarrow> site \<Rightarrow> request \<Rightarrow> desk \<Rightarrow> response \<times> desk" where
  "purge_one_vm de si rq s =
     (let (w, es, q) = s; node = strip (form rq ''node''); vm = strip (form rq ''vm_uuid'');
          previous = row_of vm_key (node, vm) (es_vms es);
          es1 = set_vms (\<lambda>r. vm_key r = (node, vm)) (hide_vm (rq_now rq)) es;
          text1 = (\<lambda>i. ''Queued VM purge job #'' @ str_of_int i @ '' for '' @ node @ ''/'' @ vm @ ''.'') in
      queue_purge de si rq ''purge_vms'' (Machines [(node, vm)]) ''vm_purge'' ''VM purge'' text1 text1
        (case previous of None \<Rightarrow> id | Some old \<Rightarrow> put_back_vm old) (w, es1, q))"

definition base_delete_vm :: "desk_env \<Rightarrow> site \<Rightarrow> request \<Rightarrow> desk \<Rightarrow> response \<times> desk" where
  "base_delete_vm de si rq = guarded_desk si rq (\<lambda>(w, es, q).
     (let node = strip (form rq ''node''); vm = strip (form rq ''vm_uuid'') in
      if node = [] \<or> vm = [] then (Reply 400 ''Missing node or vm_uuid'', w, es, q)
      else if strip (str_or (form rq ''mode'') ''soft'') = ''purge'' then purge_one_vm de si rq (w, es, q)
      else (back_to ''vms'', w, set_vms (\<lambda>r. vm_key r = (node, vm)) (soft_hide_vm (rq_now rq)) es, q)))"

definition admin_delete_vm :: "desk_env \<Rightarrow> site \<Rightarrow> request \<Rightarrow> desk \<Rightarrow> response \<times> desk" where
  "admin_delete_vm de si rq = guarded_desk si rq (\<lambda>s.
     (let node = strip (form rq ''node''); vm = strip (form rq ''vm_uuid'') in
      if lower (strip (str_or (form rq ''mode'') ''soft'')) = ''purge'' then base_delete_vm de si rq s
      else if node = [] \<or> vm = [] then (Reply 400 ''Missing node or vm_uuid'', s)
      else after_write (Redirect_To ''admin_page'')
        (inventory_write de (wait_text ''The VM was not changed'') (set_vms (\<lambda>r. vm_key r = (node, vm)) (soft_hide_vm (rq_now rq))) s)))"

definition admin_restore_vm :: "desk_env \<Rightarrow> site \<Rightarrow> request \<Rightarrow> desk \<Rightarrow> response \<times> desk" where
  "admin_restore_vm de si rq = guarded_desk si rq (\<lambda>s.
     (let node = strip (form rq ''node''); vm = strip (form rq ''vm_uuid'') in
      if node = [] \<or> vm = [] then (Reply 400 ''Missing node or vm_uuid'', s)
      else after_write (Redirect_To ''admin_page'')
        (inventory_write de (wait_text ''No inventory change was committed'') (set_vms (\<lambda>r. vm_key r = (node, vm)) restore_vm) s)))"

definition purge_one_node :: "desk_env \<Rightarrow> site \<Rightarrow> request \<Rightarrow> desk \<Rightarrow> response \<times> desk" where
  "purge_one_node de si rq s =
     (let (w, es, q) = s; node = strip (form rq ''node'');
          previous = row_of nd_node node (es_nodes es);
          es1 = set_nodes (\<lambda>r. nd_node r = node) (hide_node (rq_now rq)) es;
          text1 = (\<lambda>i. ''Queued node purge job #'' @ str_of_int i @ '' for '' @ node @ ''.'') in
      queue_purge de si rq ''purge_nodes'' (Nodes [node]) ''node_purge'' ''node purge'' text1 text1
        (case previous of None \<Rightarrow> id | Some old \<Rightarrow> put_back_node old) (w, es1, q))"

definition base_delete_node :: "desk_env \<Rightarrow> site \<Rightarrow> request \<Rightarrow> desk \<Rightarrow> response \<times> desk" where
  "base_delete_node de si rq = guarded_desk si rq (\<lambda>(w, es, q).
     (let node = strip (form rq ''node'') in
      if node = [] then (Reply 400 ''Missing node'', w, es, q)
      else if strip (str_or (form rq ''mode'') ''soft'') = ''purge'' then purge_one_node de si rq (w, es, q)
      else (back_to ''nodes'', w, set_nodes (\<lambda>r. nd_node r = node) (soft_hide_node (rq_now rq)) es, q)))"

definition admin_delete_node :: "desk_env \<Rightarrow> site \<Rightarrow> request \<Rightarrow> desk \<Rightarrow> response \<times> desk" where
  "admin_delete_node de si rq = guarded_desk si rq (\<lambda>s.
     (let node = strip (form rq ''node'') in
      if lower (strip (str_or (form rq ''mode'') ''soft'')) = ''purge'' then base_delete_node de si rq s
      else if node = [] then (Reply 400 ''Missing node'', s)
      else after_write (Redirect_To ''admin_page'')
        (inventory_write de (wait_text ''The node was not changed'') (set_nodes (\<lambda>r. nd_node r = node) (soft_hide_node (rq_now rq))) s)))"

definition admin_restore_node :: "desk_env \<Rightarrow> site \<Rightarrow> request \<Rightarrow> desk \<Rightarrow> response \<times> desk" where
  "admin_restore_node de si rq = guarded_desk si rq (\<lambda>s.
     (let node = strip (form rq ''node'') in
      if node = [] then (Reply 400 ''Missing node'', s)
      else after_write (Redirect_To ''admin_page'')
        (inventory_write de (wait_text ''No inventory change was committed'') (set_nodes (\<lambda>r. nd_node r = node) restore_node) s)))"

definition admin_purge_node_vms :: "desk_env \<Rightarrow> site \<Rightarrow> request \<Rightarrow> desk \<Rightarrow> response \<times> desk" where
  "admin_purge_node_vms de si rq = guarded_desk si rq (\<lambda>(w, es, q).
     (let node = strip (form rq ''node'');
          previous = filter (\<lambda>r. vi_node r = node) (es_vms es);
          text1 = (\<lambda>i. ''Queued purge-all-VM job #'' @ str_of_int i @ '' for node '' @ node @ ''.'') in
      if node = [] then (Reply 400 ''Missing node'', w, es, q)
      else queue_purge de si rq ''purge_node_vms'' (Nodes [node]) ''node_vms_purge'' ''node VM purge'' text1 text1 (fold put_back_vm previous)
        (w, set_vms (\<lambda>r. vi_node r = node) (hide_vm (rq_now rq)) es, q)))"

section \<open>Many nodes and machines\<close>

definition bulk_text :: "nat \<Rightarrow> string \<Rightarrow> desk_env \<Rightarrow> int \<Rightarrow> string" where
  "bulk_text n what de i = ''Queued '' @ str_of_int (int n) @ what @ '' in exclusive purge job #'' @ str_of_int i
     @ ''. Internal batch size: '' @ str_of_int (de_batch de) @ ''.''"

definition purge_bulk_nodes :: "desk_env \<Rightarrow> site \<Rightarrow> request \<Rightarrow> string list \<Rightarrow> string \<Rightarrow> desk \<Rightarrow> response \<times> desk" where
  "purge_bulk_nodes de si rq nodes action s =
     (let (w, es, q) = s; detail = (\<lambda>i. ''action='' @ action @ '';nodes='' @ str_of_int (int (length nodes)) @ '';jobs=#'' @ str_of_int i) in
      if action = ''purge'' then
        queue_purge de si rq ''purge_nodes'' (Nodes nodes) ''bulk_node_purge'' ''bulk node purge'' (bulk_text (length nodes) '' node item(s)'' de) detail
          (fold put_back_node (filter (\<lambda>r. nd_node r \<in> set nodes) (es_nodes es)))
          (w, fold (\<lambda>n. set_nodes (\<lambda>r. nd_node r = n) (hide_node (rq_now rq))) nodes es, q)
      else
        queue_purge de si rq ''purge_node_vms'' (Nodes nodes) ''bulk_node_purge'' ''bulk node purge'' (bulk_text (length nodes) '' node item(s)'' de) detail
          (fold put_back_vm (filter (\<lambda>r. vi_node r \<in> set nodes) (es_vms es)))
          (w, fold (\<lambda>n. set_vms (\<lambda>r. vi_node r = n) (hide_vm (rq_now rq))) nodes es, q))"

text \<open>The older page gets the two purges, in small letters or not; other actions it gets only in other spellings of these.\<close>

definition base_bulk_nodes :: "desk_env \<Rightarrow> site \<Rightarrow> request \<Rightarrow> desk \<Rightarrow> response \<times> desk" where
  "base_bulk_nodes de si rq = guarded_desk si rq (\<lambda>s.
     (let nodes = clean_nodes (form_list rq ''nodes''); action = strip (str_or (form rq ''action'') ''hide'') in
      if nodes = [] then (back_to ''nodes'', s)
      else if action \<notin> {''purge'', ''purge_vms''} then (Reply 400 ''Invalid node action'', s)
      else purge_bulk_nodes de si rq nodes action s))"

definition inventory_bulk_nodes :: "desk_env \<Rightarrow> site \<Rightarrow> request \<Rightarrow> desk \<Rightarrow> response \<times> desk" where
  "inventory_bulk_nodes de si rq s0 =
     (let action = lower (strip (str_or (form rq ''action'') ''hide'')) in
      if action \<in> {''purge'', ''purge_vms''} then base_bulk_nodes de si rq s0
      else guarded_desk si rq (\<lambda>s.
        (let nodes = clean_nodes (form_list rq ''nodes'') in
         if nodes = [] then (Redirect_To ''admin_page'', s)
         else if action \<notin> {''hide'', ''restore''} then (Reply 400 ''Invalid node action'', s)
         else (case inventory_write de (wait_text ''No inventory change was committed'')
               (fold (\<lambda>n. set_nodes (\<lambda>r. nd_node r = n) (if action = ''restore'' then restore_node else soft_hide_node (rq_now rq))) nodes) s of
             (Some busy, s1) \<Rightarrow> (busy, s1)
           | (None, (se, db), es, q) \<Rightarrow>
               (Redirect_To ''admin_page'',
                log_account_event si rq ''bulk_node_action'' (str_or (se_admin_user se) (dashboard_username se)) ''admin'' ''admin''
                  (''action='' @ action @ '';nodes='' @ join '','' (take 100 nodes)) (se, db), es, q)))) s0)"

definition purge_bulk_vms :: "desk_env \<Rightarrow> site \<Rightarrow> request \<Rightarrow> (string \<times> string) list \<Rightarrow> desk \<Rightarrow> response \<times> desk" where
  "purge_bulk_vms de si rq vms s =
     (let (w, es, q) = s in
      queue_purge de si rq ''purge_vms'' (Machines vms) ''bulk_vm_purge'' ''bulk VM purge'' (bulk_text (length vms) '' VM purge(s)'' de)
        (\<lambda>i. ''vms='' @ str_of_int (int (length vms)) @ '';jobs=#'' @ str_of_int i)
        (fold put_back_vm (List.map_filter (\<lambda>k. row_of vm_key k (es_vms es)) vms))
        (w, fold (\<lambda>k. set_vms (\<lambda>r. vm_key r = k) (hide_vm (rq_now rq))) vms es, q))"

definition base_bulk_vms :: "desk_env \<Rightarrow> site \<Rightarrow> request \<Rightarrow> desk \<Rightarrow> response \<times> desk" where
  "base_bulk_vms de si rq = guarded_desk si rq (\<lambda>s.
     (let vms = clean_pairs (List.map_filter vm_value (form_list rq ''vms'')); action = strip (str_or (form rq ''action'') ''hide'') in
      if vms = [] then (back_to ''vms'', s)
      else if action \<noteq> ''purge'' then (Reply 400 ''Invalid VM action'', s)
      else purge_bulk_vms de si rq vms s))"

definition admin_bulk_vms :: "desk_env \<Rightarrow> site \<Rightarrow> request \<Rightarrow> desk \<Rightarrow> response \<times> desk" where
  "admin_bulk_vms de si rq s0 =
     (let action = lower (strip (str_or (form rq ''action'') ''hide'')) in
      if action = ''purge'' then base_bulk_vms de si rq s0
      else guarded_desk si rq (\<lambda>s.
        (let vms = clean_pairs (List.map_filter vm_value (form_list rq ''vms'')) in
         if vms = [] then (Redirect_To ''admin_page'', s)
         else if action \<notin> {''hide'', ''restore''} then (Reply 400 ''Invalid VM action'', s)
         else (case inventory_write de (wait_text ''No inventory change was committed'')
               (fold (\<lambda>k. set_vms (\<lambda>r. vm_key r = k) (if action = ''restore'' then restore_vm else soft_hide_vm (rq_now rq))) vms) s of
             (Some busy, s1) \<Rightarrow> (busy, s1)
           | (None, (se, db), es, q) \<Rightarrow>
               (Redirect_To ''admin_page'',
                log_account_event si rq ''bulk_vm_action'' (str_or (se_admin_user se) (dashboard_username se)) ''admin'' ''admin''
                  (''action='' @ action @ '';selected='' @ str_of_int (int (length vms)) @ '';nodes='' @ join '','' (take 100 (sort (remdups (map fst vms))))) (se, db), es, q)))) s0)"

end
