(* ===== verification/Node_Groups.thy ===== *)
theory Node_Groups
  imports Inventory
begin

text \<open>
  The groups of the nodes (node_groups.py): the system group, the groups and memberships with
  their history, the pages that create, change, hide, restore and delete a group and that assign
  nodes, and which nodes and machines the monitoring pages show.
\<close>

section \<open>The groups\<close>

definition SYSTEM_GROUP_NAME :: string where
  "SYSTEM_GROUP_NAME = ''Ungrouped''"

definition system_group :: "int \<Rightarrow> int \<Rightarrow> node_group" where
  "system_group now i = \<lparr>gr_id = i, gr_name = SYSTEM_GROUP_NAME, gr_description = ''Default group for nodes without an explicit assignment'',
     gr_country = [], gr_active = True, gr_system = True, gr_created = now, gr_updated = now, gr_hidden_at = None\<rparr>"

text \<open>The unique indexes on the lower-case name and on the one system group; a refused row still uses up an id.\<close>

definition group_clash :: "node_group \<Rightarrow> node_group \<Rightarrow> bool" where
  "group_clash a b \<longleftrightarrow> lower (gr_name a) = lower (gr_name b) \<or> gr_system a \<and> gr_system b"

definition insert_group :: "(int \<Rightarrow> node_group) \<Rightarrow> estate \<Rightarrow> int option \<times> estate" where
  "insert_group new es = (let i = es_next es; g = new i; es1 = es\<lparr>es_next := i + 1\<rparr> in
     if list_ex (group_clash g) (es_groups es) then (None, es1) else (Some i, es1\<lparr>es_groups := es_groups es @ [g]\<rparr>))"

text \<open>The id of the system group, which is created when there is none; no id is an error of the database.\<close>

definition system_group_id :: "int \<Rightarrow> estate \<Rightarrow> int option \<times> estate" where
  "system_group_id now es = (case select_first gr_id gr_system (es_groups es) of
      Some g \<Rightarrow> (Some (gr_id g), es)
    | None \<Rightarrow> insert_group (system_group now) es)"

definition group_row :: "int \<Rightarrow> bool \<Rightarrow> estate \<Rightarrow> node_group option" where
  "group_row gid include_hidden es =
     (if gid \<le> 0 then None else find (\<lambda>g. gr_id g = gid \<and> (include_hidden \<or> gr_active g)) (es_groups es))"

definition clean_group_id :: "string \<Rightarrow> int" where
  "clean_group_id v = (let raw = lower (strip v) in if raw = [] \<or> raw = ''all'' then 0 else max 0 (safe_int (PStr raw) 0))"

definition selected_group_id :: "request \<Rightarrow> estate \<Rightarrow> int" where
  "selected_group_id rq es = (let gid = clean_group_id (dget_or (rq_args rq) ''group'' []) in
     if gid \<le> 0 then 0
     else (case group_row gid True es of None \<Rightarrow> 0 | Some g \<Rightarrow> if gr_active g then gid else 0))"

definition group_nodes :: "int \<Rightarrow> estate \<Rightarrow> string list" where
  "group_nodes gid es = (if gid \<le> 0 then [] else map mb_node (filter (\<lambda>m. mb_group m = gid) (es_members es)))"

definition active_groups :: "int \<Rightarrow> string \<Rightarrow> estate \<Rightarrow> node_group list" where
  "active_groups hidden_selected role es =
     (let i = (if role = ''viewer'' then 0 else hidden_selected) in
      sort_key (\<lambda>g. (\<not> gr_system g, lower (gr_name g))) (filter (\<lambda>g. gr_active g \<or> gr_id g = i) (es_groups es)))"

section \<open>Memberships\<close>

text \<open>INSERT ... ON CONFLICT(node) DO NOTHING, and DO UPDATE.\<close>

definition merge_member :: "membership \<Rightarrow> membership \<Rightarrow> membership" where
  "merge_member old new = old\<lparr>mb_group := mb_group new, mb_at := mb_at new, mb_by := mb_by new\<rparr>"

definition put_member :: "membership \<Rightarrow> estate \<Rightarrow> estate" where
  "put_member m es = es\<lparr>es_members := upsert mb_node merge_member m (es_members es)\<rparr>"

definition add_member :: "membership \<Rightarrow> estate \<Rightarrow> nat \<times> estate" where
  "add_member m es = (let (n, rows) = insert_or_ignore mb_node m (es_members es) in (n, es\<lparr>es_members := rows\<rparr>))"

definition known_node :: "string \<Rightarrow> estate \<Rightarrow> bool" where
  "known_node node es \<longleftrightarrow> row_of nd_node node (es_nodes es) \<noteq> None"

definition audit_membership :: "int \<Rightarrow> string \<Rightarrow> string \<Rightarrow> string \<Rightarrow> (int \<times> string) option \<Rightarrow> (int \<times> string) option \<Rightarrow> estate \<Rightarrow> estate" where
  "audit_membership now event actor node old_row new_row es =
     es\<lparr>es_history := es_history es @ [\<lparr>ge_event = event, ge_actor = actor, ge_node = node, ge_old = old_row, ge_new = new_row, ge_at = now\<rparr>]\<rparr>"

definition group_name :: "node_group \<Rightarrow> int \<times> string" where
  "group_name g = (gr_id g, gr_name g)"

text \<open>The join of a membership with its group.\<close>

definition group_of :: "string \<Rightarrow> estate \<Rightarrow> node_group option" where
  "group_of node es = (case row_of mb_node node (es_members es) of
      None \<Rightarrow> None
    | Some m \<Rightarrow> row_of gr_id (mb_group m) (es_groups es))"

definition group_for_node :: "int \<Rightarrow> string \<Rightarrow> estate \<Rightarrow> node_group option \<times> estate" where
  "group_for_node now node es = (case group_of node es of
      Some g \<Rightarrow> (Some g, es)
    | None \<Rightarrow> (case system_group_id now es of
          (None, es1) \<Rightarrow> (None, es1)
        | (Some gid, es1) \<Rightarrow>
            (let es2 = (if known_node node es1 then snd (add_member \<lparr>mb_node = node, mb_group = gid, mb_at = now, mb_by = ''auto''\<rparr> es1) else es1) in
             (row_of gr_id gid (es_groups es2), es2))))"

definition ensure_node_membership :: "int \<Rightarrow> string \<Rightarrow> string \<Rightarrow> estate \<Rightarrow> int option \<times> estate" where
  "ensure_node_membership now raw actor es = (let node = strip raw in
     if node = [] then (Some 0, es)
     else (case system_group_id now es of
         (None, es1) \<Rightarrow> (None, es1)
       | (Some gid, es1) \<Rightarrow>
           (if known_node node es1 then
              (let (n, es2) = add_member \<lparr>mb_node = node, mb_group = gid, mb_at = now, mb_by = take 128 actor\<rparr> es1 in
               (Some gid, if n = 0 then es2
                 else audit_membership now ''node_group_assigned'' (take 128 actor) node None (map_option group_name (row_of gr_id gid (es_groups es2))) es2))
            else (Some gid, es1))))"

text \<open>The trigger on node_inventory: a new node belongs to the system group. An error of the trigger ends the push.\<close>

definition assign_ungrouped :: "int \<Rightarrow> string \<Rightarrow> estate \<Rightarrow> estate option" where
  "assign_ungrouped now node es = (case system_group_id now es of
      (None, es1) \<Rightarrow> None
    | (Some gid, es1) \<Rightarrow> Some (snd (add_member \<lparr>mb_node = node, mb_group = gid, mb_at = now, mb_by = ''trigger''\<rparr> es1)))"

text \<open>What a push does to the inventory of nodes (the row of Push_Ingest), and what the worker of a purge does.\<close>

definition see_node :: "int \<Rightarrow> int \<Rightarrow> string \<Rightarrow> estate \<Rightarrow> estate" where
  "see_node now data_time node es =
     (let new = \<lparr>nd_node = node, nd_first_seen = data_time, nd_last_push = data_time, nd_status = ''active'', nd_hidden_at = None, nd_deleted_at = None\<rparr>;
          es1 = es\<lparr>es_nodes := upsert nd_node merge_node new (es_nodes es)\<rparr> in
      if known_node node es then es1
      else (case assign_ungrouped now node es1 of None \<Rightarrow> es\<lparr>es_next := es_next es + 1\<rparr> | Some es2 \<Rightarrow> es2))"

definition purge_node_vms :: "string \<Rightarrow> estate \<Rightarrow> estate" where
  "purge_node_vms node es = es\<lparr>es_vms := filter (\<lambda>r. vi_node r \<noteq> node) (es_vms es)\<rparr>"

definition purge_node :: "string \<Rightarrow> estate \<Rightarrow> estate" where
  "purge_node node es = (purge_node_vms node es)\<lparr>es_nodes := filter (\<lambda>r. nd_node r \<noteq> node) (es_nodes es),
     es_members := filter (\<lambda>m. mb_node m \<noteq> node) (es_members es)\<rparr>"

text \<open>A machine is purged by its uuid, on every node (layer 29).\<close>

definition purge_vm :: "string \<times> string \<Rightarrow> estate \<Rightarrow> estate" where
  "purge_vm k es = es\<lparr>es_vms := filter (\<lambda>r. vi_uuid r \<noteq> strip (snd k)) (es_vms es)\<rparr>"

text \<open>The start of the application: the system group, and every node a member of some group.\<close>

definition ensure_schema :: "int \<Rightarrow> estate \<Rightarrow> estate" where
  "ensure_schema now es = (case system_group_id now es of
      (None, es1) \<Rightarrow> es1
    | (Some gid, es1) \<Rightarrow> es1\<lparr>es_members := es_members es1 @
        map (\<lambda>r. \<lparr>mb_node = nd_node r, mb_group = gid, mb_at = now, mb_by = ''migration''\<rparr>)
          (filter (\<lambda>r. row_of mb_node (nd_node r) (es_members es1) = None) (es_nodes es1))\<rparr>)"

section \<open>Assigning nodes\<close>

text \<open>
  The loop of \<open>assign_nodes\<close> over the distinct names; the counters are assigned, moved and removed.
  The name of the target is read before.
\<close>

record tally =
  ta_changed :: nat
  ta_assigned :: nat
  ta_moved :: nat
  ta_removed :: nat

definition no_tally :: tally where
  "no_tally = \<lparr>ta_changed = 0, ta_assigned = 0, ta_moved = 0, ta_removed = 0\<rparr>"

definition assign_one :: "int \<Rightarrow> string \<Rightarrow> node_group \<Rightarrow> int \<Rightarrow> string \<Rightarrow> tally \<times> estate \<Rightarrow> tally \<times> estate" where
  "assign_one now actor target system_id node s = (let (ta, es) = s; old = group_of node es; gid = gr_id target in
     if \<not> known_node node es then (ta, es)
     else if map_option gr_id old = Some gid then (ta, es)
     else (let es1 = put_member \<lparr>mb_node = node, mb_group = gid, mb_at = now, mb_by = take 128 actor\<rparr> es;
               (event, ta1) = (if gid = system_id then (''node_group_removed'', ta\<lparr>ta_removed := ta_removed ta + 1\<rparr>)
                 else if old = None \<or> map_option gr_id old = Some system_id then (''node_group_assigned'', ta\<lparr>ta_assigned := ta_assigned ta + 1\<rparr>)
                 else (''node_group_moved'', ta\<lparr>ta_moved := ta_moved ta + 1\<rparr>)) in
           (ta1\<lparr>ta_changed := ta_changed ta1 + 1\<rparr>,
            audit_membership now event (take 128 actor) node (map_option group_name old) (Some (group_name target)) es1)))"

definition assign_rows :: "int \<Rightarrow> string list \<Rightarrow> int \<Rightarrow> string \<Rightarrow> estate \<Rightarrow> (string + tally \<times> node_group) \<times> estate" where
  "assign_rows now nodes group_id actor es = (case row_of gr_id group_id (es_groups es) of
      None \<Rightarrow> (Inl ''Node Group not found'', es)
    | Some target \<Rightarrow>
        (if \<not> gr_active target then (Inl ''Node Group is hidden'', es)
         else (case system_group_id now es of
             (None, es1) \<Rightarrow> (Inl ''database error'', es1)
           | (Some system_id, es1) \<Rightarrow>
               (let (ta, es2) = fold (assign_one now actor target system_id) nodes (no_tally, es1) in (Inr (ta, target), es2)))))"

definition assign_event :: "tally \<Rightarrow> string" where
  "assign_event ta = (if ta_changed ta = ta_assigned ta then ''node_group_assigned''
     else if ta_changed ta = ta_removed ta then ''node_group_removed'' else ''node_group_moved'')"

definition desk_actor :: "session \<Rightarrow> string" where
  "desk_actor se = take 128 (str_or (str_or (se_admin_user se) (dashboard_username se)) ''system'')"

text \<open>An exception of \<open>assign_nodes\<close> is an internal error of the page.\<close>

definition assign_nodes :: "site \<Rightarrow> request \<Rightarrow> string list \<Rightarrow> int \<Rightarrow> (tally \<Rightarrow> response) \<Rightarrow> desk \<Rightarrow> response \<times> desk" where
  "assign_nodes si rq nodes group_id good s =
     (let ((se, db), es, q) = s; actor = desk_actor se; names = clean_nodes nodes in
      case assign_rows (rq_now rq) names group_id actor es of
        (Inl e, es1) \<Rightarrow> (Server_Error, (se, db), es1, q)
      | (Inr (ta, target), es1) \<Rightarrow>
          (good ta,
           (if ta_changed ta = 0 then (se, db)
            else log_account_event si rq (assign_event ta) (take 128 actor) ''admin'' (current_role se db)
              (take 700 (''nodes='' @ join '','' (take 100 names) @ '';new_group='' @ gr_name target @ '';assigned='' @ str_of_int (int (ta_assigned ta))
                @ '';moved='' @ str_of_int (int (ta_moved ta)) @ '';removed='' @ str_of_int (int (ta_removed ta)))) (se, db)),
           es1, q))"

section \<open>The pages\<close>

definition clean_country_code :: "desk_env \<Rightarrow> string \<Rightarrow> string" where
  "clean_country_code de v = (let code = lower (strip v) in
     if length code = 2 \<and> list_all (\<lambda>c. CHR ''a'' \<le> c \<and> c \<le> CHR ''z'') code \<and> code \<in> set (de_flags de) then code else [])"

definition good_name :: "string \<Rightarrow> bool" where
  "good_name name \<longleftrightarrow> name \<noteq> [] \<and> length name \<le> 80 \<and> lower name \<noteq> lower SYSTEM_GROUP_NAME"

definition logged :: "site \<Rightarrow> request \<Rightarrow> string \<Rightarrow> string \<Rightarrow> session \<times> admin_db \<Rightarrow> session \<times> admin_db" where
  "logged si rq event detail w = log_account_event si rq event (desk_actor (fst w)) ''admin'' (current_role (fst w) (snd w)) detail w"

definition admin_node_groups_create :: "desk_env \<Rightarrow> site \<Rightarrow> request \<Rightarrow> desk \<Rightarrow> response \<times> desk" where
  "admin_node_groups_create de si rq = guarded_desk si rq (\<lambda>(w, es, q).
     (let name = strip (form rq ''name''); description = take 500 (strip (form rq ''description''));
          country = clean_country_code de (form rq ''country_code''); now = rq_now rq in
      if \<not> good_name name then (Reply 400 ''Invalid or reserved group name'', w, es, q)
      else (case insert_group (\<lambda>i. \<lparr>gr_id = i, gr_name = name, gr_description = description, gr_country = country, gr_active = True,
              gr_system = False, gr_created = now, gr_updated = now, gr_hidden_at = None\<rparr>) es of
          (None, es1) \<Rightarrow> (Reply 400 ''Could not create Node Group'', w, es1, q)
        | (Some i, es1) \<Rightarrow>
            (back_to ''groups'',
             logged si rq ''node_group_created'' (''group_id='' @ str_of_int i @ '';group='' @ name @ '';country='' @ country) w,
             audit_membership now ''node_group_created'' (desk_actor (fst w)) [] None (Some (i, name)) es1, q))))"

definition admin_node_groups_update :: "desk_env \<Rightarrow> site \<Rightarrow> request \<Rightarrow> desk \<Rightarrow> response \<times> desk" where
  "admin_node_groups_update de si rq = guarded_desk si rq (\<lambda>(w, es, q).
     (let gid = safe_int (PStr (form rq ''group_id'')) 0; name = strip (form rq ''name''); description = take 500 (strip (form rq ''description''));
          country = clean_country_code de (form rq ''country_code''); now = rq_now rq in
      case group_row gid True es of
        None \<Rightarrow> (Reply 404 ''Node Group not found'', w, es, q)
      | Some row \<Rightarrow>
          (if gr_system row then (Reply 400 ''Ungrouped cannot be renamed or edited'', w, es, q)
           else if \<not> good_name name then (Reply 400 ''Invalid or reserved group name'', w, es, q)
           else if list_ex (\<lambda>g. gr_id g \<noteq> gid \<and> lower (gr_name g) = lower name) (es_groups es) then (Reply 400 ''Could not update Node Group'', w, es, q)
           else (back_to ''groups'',
             logged si rq ''node_group_updated'' (''group_id='' @ str_of_int gid @ '';old_group='' @ gr_name row @ '';new_group='' @ name @ '';country='' @ country) w,
             audit_membership now ''node_group_updated'' (desk_actor (fst w)) [] (Some (group_name row)) (Some (gid, name))
               (es\<lparr>es_groups := update_where (\<lambda>g. gr_id g = gid)
                  (\<lambda>g. g\<lparr>gr_name := name, gr_description := description, gr_country := country, gr_updated := now\<rparr>) (es_groups es)\<rparr>), q))))"

text \<open>Hide, restore or delete: the event and the tables, or the answer when the group still has nodes.\<close>

definition act_on_group :: "int \<Rightarrow> string \<Rightarrow> string \<Rightarrow> node_group \<Rightarrow> estate \<Rightarrow> response + string \<times> estate" where
  "act_on_group now action actor current es =
     (let gid = gr_id current; old = Some (group_name current);
          set_group = (\<lambda>f. es\<lparr>es_groups := update_where (\<lambda>g. gr_id g = gid) f (es_groups es)\<rparr>) in
      if action = ''delete'' then
        (if list_ex (\<lambda>m. mb_group m = gid) (es_members es) then Inl (Reply 409 ''Cannot delete this group because it still contains nodes.'')
         else Inr (''node_group_deleted'',
           audit_membership now ''node_group_deleted'' actor [] old None (es\<lparr>es_groups := filter (\<lambda>g. gr_id g \<noteq> gid) (es_groups es)\<rparr>)))
      else if action = ''hide'' then
        Inr (''node_group_hidden'', audit_membership now ''node_group_hidden'' actor [] old old
          (set_group (\<lambda>g. g\<lparr>gr_active := False, gr_hidden_at := Some now, gr_updated := now\<rparr>)))
      else
        Inr (''node_group_restored'', audit_membership now ''node_group_restored'' actor [] old old
          (set_group (\<lambda>g. g\<lparr>gr_active := True, gr_hidden_at := None, gr_updated := now\<rparr>))))"

definition admin_node_groups_action :: "site \<Rightarrow> request \<Rightarrow> desk \<Rightarrow> response \<times> desk" where
  "admin_node_groups_action si rq = guarded_desk si rq (\<lambda>(w, es, q).
     (let gid = safe_int (PStr (form rq ''group_id'')) 0; action = lower (strip (form rq ''action'')) in
      case group_row gid True es of
        None \<Rightarrow> (Reply 404 ''Node Group not found'', w, es, q)
      | Some row \<Rightarrow>
          (if gr_system row then (Reply 400 ''Ungrouped cannot be renamed, hidden or deleted'', w, es, q)
           else if action \<notin> {''hide'', ''restore'', ''delete''} then (Reply 400 ''Invalid Node Group action'', w, es, q)
           else (case act_on_group (rq_now rq) action (desk_actor (fst w)) row es of
               Inl reply \<Rightarrow> (reply, w, es, q)
             | Inr (event, es1) \<Rightarrow>
                 (back_to ''groups'', logged si rq event (''group_id='' @ str_of_int gid @ '';group='' @ gr_name row) w, es1, q)))))"

definition admin_node_groups_assign :: "site \<Rightarrow> request \<Rightarrow> desk \<Rightarrow> response \<times> desk" where
  "admin_node_groups_assign si rq = guarded_desk si rq (\<lambda>s.
     (let nodes = filter (\<lambda>n. n \<noteq> []) (map strip (form_list rq ''nodes'')); gid = safe_int (PStr (form rq ''group_id'')) 0 in
      if nodes = [] \<or> gid \<le> 0 then (Reply 400 ''Nodes and group_id are required'', s)
      else assign_nodes si rq nodes gid (\<lambda>ta. back_to ''nodes'') s))"

text \<open>
  The bulk page. \<open>matching\<close> is the list of all nodes that the search of the nodes page finds for
  the terms of the form (layer 30).
\<close>

definition matching_admin_nodes :: "(string \<Rightarrow> string \<Rightarrow> estate \<Rightarrow> string list) \<Rightarrow> request \<Rightarrow> estate \<Rightarrow> string list" where
  "matching_admin_nodes matching rq es =
     (let nodes = matching (strip (form rq ''q'')) (strip (form rq ''status'')) es; gid = clean_group_id (form rq ''current_group'') in
      if gid = 0 then nodes else filter (\<lambda>n. n \<in> set (group_nodes gid es)) nodes)"

definition admin_node_groups_bulk :: "(string \<Rightarrow> string \<Rightarrow> estate \<Rightarrow> string list) \<Rightarrow> site \<Rightarrow> request \<Rightarrow> desk \<Rightarrow> response \<times> desk" where
  "admin_node_groups_bulk matching si rq = guarded_desk si rq (\<lambda>(w, es, q).
     (let action = lower (strip (form rq ''action'')); scope = lower (strip (str_or (form rq ''selection_scope'') ''selected''));
          (target, es1) = (if action \<in> {''remove_group'', ''move_ungrouped'', ''move_all_ungrouped''} then system_group_id (rq_now rq) es
            else (Some (safe_int (PStr (form rq ''group_id'')) 0), es));
          source = group_row (safe_int (PStr (form rq ''source_group_id'')) 0) True es1 in
      case target of
        None \<Rightarrow> (Server_Error, w, es1, q)
      | Some gid \<Rightarrow>
          (if action = ''move_all_ungrouped'' \<and> (case source of None \<Rightarrow> True | Some row \<Rightarrow> gr_system row)
           then (Reply 400 ''Invalid source group'', w, es1, q)
           else (let nodes = (if action = ''move_all_ungrouped'' then sort (group_nodes (safe_int (PStr (form rq ''source_group_id'')) 0) es1)
                   else if scope = ''matching'' then matching_admin_nodes matching rq es1
                   else clean_nodes (form_list rq ''nodes'')) in
             if nodes = [] then (Reply 400 ''Select at least one node'', w, es1, q)
             else if gid \<le> 0 then (Reply 400 ''Select a Node Group'', w, es1, q)
             else assign_nodes si rq nodes gid
               (\<lambda>ta. Redirect_Note ''nodes'' True (''Updated '' @ str_of_int (int (ta_changed ta)) @ '' node membership(s).'')) (w, es1, q)))))"

definition admin_bulk_nodes :: "(string \<Rightarrow> string \<Rightarrow> estate \<Rightarrow> string list) \<Rightarrow> desk_env \<Rightarrow> site \<Rightarrow> request \<Rightarrow> desk \<Rightarrow> response \<times> desk" where
  "admin_bulk_nodes matching de si rq =
     (if lower (strip (form rq ''action'')) \<in> {''assign_group'', ''add_group'', ''move_group'', ''remove_group'', ''move_ungrouped''}
      then admin_node_groups_bulk matching si rq else inventory_bulk_nodes de si rq)"

text \<open>The pages by their endpoint; another page leaves these tables alone.\<close>

definition desk_page :: "(string \<Rightarrow> string \<Rightarrow> estate \<Rightarrow> string list) \<Rightarrow> desk_env \<Rightarrow> site \<Rightarrow> request \<Rightarrow> desk \<Rightarrow> response \<times> desk" where
  "desk_page matching de si rq s =
     (let e = rq_endpoint rq in
      if e = ''admin_delete_vm'' then admin_delete_vm de si rq s
      else if e = ''admin_restore_vm'' then admin_restore_vm de si rq s
      else if e = ''admin_delete_node'' then admin_delete_node de si rq s
      else if e = ''admin_restore_node'' then admin_restore_node de si rq s
      else if e = ''admin_purge_node_vms'' then admin_purge_node_vms de si rq s
      else if e = ''admin_bulk_vms'' then admin_bulk_vms de si rq s
      else if e = ''admin_bulk_nodes'' then admin_bulk_nodes matching de si rq s
      else if e = ''admin_node_groups_create'' then admin_node_groups_create de si rq s
      else if e = ''admin_node_groups_update'' then admin_node_groups_update de si rq s
      else if e = ''admin_node_groups_action'' then admin_node_groups_action si rq s
      else if e = ''admin_node_groups_assign'' then admin_node_groups_assign si rq s
      else if e = ''admin_node_groups_bulk'' then admin_node_groups_bulk matching si rq s
      else (Page e [], s))"

section \<open>What the monitoring pages show\<close>

definition shown_row :: "node_row \<Rightarrow> bool" where
  "shown_row r \<longleftrightarrow> nd_status r \<noteq> ''hidden'' \<and> nd_deleted_at r = None"

text \<open>The names a page of the group \<open>gid\<close> shows, or of all groups for 0.\<close>

definition effective_visible_nodes :: "int \<Rightarrow> estate \<Rightarrow> string list" where
  "effective_visible_nodes gid es = map nd_node (filter (\<lambda>r. shown_row r
     \<and> list_ex (\<lambda>m. mb_node m = nd_node r \<and> list_ex (\<lambda>g. gr_id g = mb_group m \<and> gr_active g \<and> (0 < gid \<longrightarrow> gr_id g = gid)) (es_groups es)) (es_members es))
     (es_nodes es))"

definition monitoring_node_visible :: "string \<Rightarrow> estate \<Rightarrow> bool" where
  "monitoring_node_visible node es \<longleftrightarrow> strip node \<noteq> [] \<and> strip node \<in> set (effective_visible_nodes 0 es)"

definition monitoring_vm_visible :: "string \<Rightarrow> string \<Rightarrow> estate \<Rightarrow> bool" where
  "monitoring_vm_visible node vm es \<longleftrightarrow> monitoring_node_visible node es \<and>
     (strip vm = [] \<or> (case row_of vm_key (node, strip vm) (es_vms es) of
        None \<Rightarrow> True | Some r \<Rightarrow> str_or (vi_status r) ''active'' \<noteq> ''hidden'' \<and> vi_deleted_at r = None))"

text \<open>The pages of a node and of a machine, and the search, in front of their older versions.\<close>

definition node_page :: "(string \<Rightarrow> response) \<Rightarrow> string \<Rightarrow> estate \<Rightarrow> response" where
  "node_page base node es = (if monitoring_node_visible node es then base node else Reply 404 ''Node not found'')"

definition vm_page :: "(request \<Rightarrow> response) \<Rightarrow> request \<Rightarrow> estate \<Rightarrow> response" where
  "vm_page base rq es = (let node = strip (dget_or (rq_args rq) ''node'' []); vm = strip (dget_or (rq_args rq) ''vm_uuid'' []) in
     if node \<noteq> [] \<and> \<not> monitoring_vm_visible node vm es then Reply 404 ''VM not found'' else base rq)"

definition get_node_rows :: "(string \<times> 'r) list \<Rightarrow> request \<Rightarrow> estate \<Rightarrow> (string \<times> 'r) list" where
  "get_node_rows rows rq es = filter (\<lambda>r. fst r \<in> set (effective_visible_nodes (selected_group_id rq es) es)) rows"

end
