(* ===== verification/Estate_Safety.thy ===== *)
theory Estate_Safety
  imports Node_Groups
begin

text \<open>
  What the pages of operations, a push and the purge worker do to the inventory and to the groups:
  the invariant of the tables (\<open>estate_ok\<close>) and the histories over which it holds (\<open>managed\<close>, any
  interleaving of pages, pushes, deletions by the worker and starts of the program); the items of
  a purge, and that each page either leaves the tables alone, or puts the hidden rows back when a
  purge cannot be queued, or hands exactly the hidden rows to the worker (\<open>purge_pages\<close>).
\<close>

section \<open>The invariant of the tables\<close>

text \<open>
  The keys are unique, the system group exists once, is active and has its name, and the
  memberships are those of the nodes of the inventory, each in an existing group.
\<close>

definition one_system :: "node_group list \<Rightarrow> bool" where
  "one_system gs \<longleftrightarrow> (\<exists>s \<in> set gs. gr_system s \<and> gr_active s \<and> gr_name s = SYSTEM_GROUP_NAME \<and> (\<forall>g \<in> set gs. gr_system g \<longrightarrow> g = s))"

definition groups_ok :: "estate \<Rightarrow> bool" where
  "groups_ok es \<longleftrightarrow> 0 < es_next es \<and> distinct (map gr_id (es_groups es)) \<and> gr_id ` set (es_groups es) \<subseteq> {0<..<es_next es}
     \<and> distinct (map (\<lambda>g. lower (gr_name g)) (es_groups es)) \<and> one_system (es_groups es)"

definition members_ok :: "estate \<Rightarrow> bool" where
  "members_ok es \<longleftrightarrow> distinct (map mb_node (es_members es)) \<and> mb_node ` set (es_members es) = nd_node ` set (es_nodes es)
     \<and> mb_group ` set (es_members es) \<subseteq> gr_id ` set (es_groups es)"

definition estate_ok :: "estate \<Rightarrow> bool" where
  "estate_ok es \<longleftrightarrow> groups_ok es \<and> members_ok es \<and> distinct (map nd_node (es_nodes es)) \<and> distinct (map vm_key (es_vms es))"

lemma estate_okI:
  assumes "groups_ok es" "distinct (map mb_node (es_members es))" "mb_node ` set (es_members es) = nd_node ` set (es_nodes es)"
    "mb_group ` set (es_members es) \<subseteq> gr_id ` set (es_groups es)" "distinct (map nd_node (es_nodes es))" "distinct (map vm_key (es_vms es))"
  shows "estate_ok es"
  using assms by (simp add: estate_ok_def members_ok_def)

lemma estate_okD:
  assumes "estate_ok es"
  shows "groups_ok es" "distinct (map mb_node (es_members es))" "mb_node ` set (es_members es) = nd_node ` set (es_nodes es)"
    "mb_group ` set (es_members es) \<subseteq> gr_id ` set (es_groups es)" "distinct (map nd_node (es_nodes es))" "distinct (map vm_key (es_vms es))"
    "distinct (map gr_id (es_groups es))" "gr_id ` set (es_groups es) \<subseteq> {0<..<es_next es}" "distinct (map (\<lambda>g. lower (gr_name g)) (es_groups es))"
    "one_system (es_groups es)" "0 < es_next es"
  using assms by (simp_all add: estate_ok_def members_ok_def groups_ok_def)

lemma one_systemE:
  assumes "one_system gs"
  obtains s where "s \<in> set gs" "gr_system s" "gr_active s" "gr_name s = SYSTEM_GROUP_NAME" "\<And>g. g \<in> set gs \<Longrightarrow> gr_system g \<Longrightarrow> g = s"
  using assms unfolding one_system_def by blast

lemma one_systemI:
  "s \<in> set gs \<Longrightarrow> gr_system s \<Longrightarrow> gr_active s \<Longrightarrow> gr_name s = SYSTEM_GROUP_NAME \<Longrightarrow> (\<And>g. g \<in> set gs \<Longrightarrow> gr_system g \<Longrightarrow> g = s) \<Longrightarrow> one_system gs"
  unfolding one_system_def by blast

lemma key_update_where: "(\<And>r. key (f r) = key r) \<Longrightarrow> map key (update_where P f rows) = map key rows"
  by (simp add: update_where_def)

lemma keys_update_where: "(\<And>r. key (f r) = key r) \<Longrightarrow> key ` set (update_where P f rows) = key ` set rows"
  using key_update_where[of key f P rows] by (metis set_map)

lemma ok_set_nodes: "(\<And>r. nd_node (f r) = nd_node r) \<Longrightarrow> estate_ok (set_nodes P f es) = estate_ok es"
  using keys_update_where[of nd_node f P "es_nodes es"] key_update_where[of nd_node f P "es_nodes es"]
  by (simp add: estate_ok_def groups_ok_def members_ok_def set_nodes_def)

lemma ok_set_vms: "(\<And>r. vm_key (f r) = vm_key r) \<Longrightarrow> estate_ok (set_vms P f es) = estate_ok es"
  using key_update_where[of vm_key f P "es_vms es"]
  by (simp add: estate_ok_def groups_ok_def members_ok_def set_vms_def)

lemma row_keys [simp]: "nd_node (hide_node now r) = nd_node r" "nd_node (soft_hide_node now r) = nd_node r" "nd_node (restore_node r) = nd_node r"
  "vm_key (hide_vm now v) = vm_key v" "vm_key (soft_hide_vm now v) = vm_key v" "vm_key (restore_vm v) = vm_key v"
  by (simp_all add: hide_node_def soft_hide_node_def restore_node_def hide_vm_def soft_hide_vm_def restore_vm_def vm_key_def)

lemma ok_fold: "(\<And>x e. estate_ok e \<Longrightarrow> estate_ok (f x e)) \<Longrightarrow> estate_ok es \<Longrightarrow> estate_ok (fold f xs es)"
  by (induction xs arbitrary: es) simp_all

lemma ok_put_back: "estate_ok es \<Longrightarrow> estate_ok (put_back_node old es)" "estate_ok es \<Longrightarrow> estate_ok (put_back_vm v es)"
  by (simp_all add: put_back_node_def put_back_vm_def ok_set_nodes ok_set_vms vm_key_def)

lemma ok_audit [simp]: "estate_ok (audit_membership now e a n o' o'' es) = estate_ok es"
  by (simp add: estate_ok_def groups_ok_def members_ok_def audit_membership_def)

lemma audit_fields [simp]: "es_groups (audit_membership now e a n o' o'' es) = es_groups es" "es_nodes (audit_membership now e a n o' o'' es) = es_nodes es"
  "es_members (audit_membership now e a n o' o'' es) = es_members es" "es_vms (audit_membership now e a n o' o'' es) = es_vms es"
  "es_next (audit_membership now e a n o' o'' es) = es_next es"
  by (simp_all add: audit_membership_def)

lemma system_found:
  assumes "groups_ok es"
  obtains s where "system_group_id now es = (Some (gr_id s), es)" "s \<in> set (es_groups es)" "gr_system s" "gr_active s"
proof -
  obtain s where s: "s \<in> set (es_groups es)" "gr_system s" "gr_active s" "\<And>g. g \<in> set (es_groups es) \<Longrightarrow> gr_system g \<Longrightarrow> g = s"
    using assms unfolding groups_ok_def by (metis one_systemE)
  have "select_first gr_id gr_system (es_groups es) \<noteq> None" using s(1,2) by (auto simp: select_first_None)
  then obtain g where g: "select_first gr_id gr_system (es_groups es) = Some g" by blast
  have "g = s" using select_first_Some(1,2)[OF g] s(4) by blast
  then show ?thesis using that[OF _ s(1-3)] g by (simp add: system_group_id_def)
qed

lemma keeps_member: "keeps_key mb_node merge_member"
  by (simp add: keeps_key_def merge_member_def)

lemma known_node_iff: "known_node node es \<longleftrightarrow> node \<in> nd_node ` set (es_nodes es)"
  by (simp add: known_node_def row_of_None_iff)

lemma groups_ok_eq: "es_groups a = es_groups b \<Longrightarrow> es_next a = es_next b \<Longrightarrow> groups_ok a = groups_ok b"
  by (simp add: groups_ok_def)

lemma ok_members:
  assumes ok: "estate_ok es" and m: "distinct (map mb_node ms)" "mb_node ` set ms = mb_node ` set (es_members es)" "mb_group ` set ms \<subseteq> gr_id ` set (es_groups es)"
  shows "estate_ok (es\<lparr>es_members := ms\<rparr>)"
  using estate_okD[OF ok] m by (intro estate_okI) (simp_all add: groups_ok_def)

lemma ok_put_member:
  assumes ok: "estate_ok es" and k: "known_node (mb_node m) es" and g: "mb_group m \<in> gr_id ` set (es_groups es)"
  shows "estate_ok (put_member m es)"
  unfolding put_member_def
proof (rule ok_members[OF ok])
  note d = estate_okD[OF ok]
  show "distinct (map mb_node (upsert mb_node merge_member m (es_members es)))" by (rule distinct_upsert[OF keeps_member d(2)])
  show "mb_node ` set (upsert mb_node merge_member m (es_members es)) = mb_node ` set (es_members es)"
    using k d(3) unfolding upsert_keys[OF keeps_member] known_node_iff by blast
  have "mb_group r \<in> gr_id ` set (es_groups es)" if "r \<in> set (upsert mb_node merge_member m (es_members es))" for r
    by (rule upsert_all[where P = "\<lambda>r. mb_group r \<in> gr_id ` set (es_groups es)", OF _ g _ that])
      (use d(4) g in \<open>auto simp: merge_member_def\<close>)
  then show "mb_group ` set (upsert mb_node merge_member m (es_members es)) \<subseteq> gr_id ` set (es_groups es)" by blast
qed

lemma add_member_id: "estate_ok es \<Longrightarrow> known_node (mb_node m) es \<Longrightarrow> add_member m es = (0, es)"
  using estate_okD(3)[of es] by (auto simp: add_member_def insert_or_ignore_def row_of_None_iff known_node_iff)

lemma ok_insert_group:
  assumes ok: "estate_ok es" and new: "\<And>i. gr_id (new i) = i \<and> \<not> gr_system (new i)"
  shows "estate_ok (snd (insert_group new es))"
proof (cases "list_ex (group_clash (new (es_next es))) (es_groups es)")
  case True
  then show ?thesis using estate_okD[OF ok] by (intro estate_okI) (auto simp: insert_group_def Let_def groups_ok_def)
next
  case False
  note d = estate_okD[OF ok]
  let ?g = "new (es_next es)"
  have "lower (gr_name ?g) \<notin> (\<lambda>g. lower (gr_name g)) ` set (es_groups es)"
    using False by (auto simp: list_ex_iff group_clash_def)
  then have names: "distinct (map (\<lambda>g. lower (gr_name g)) (es_groups es @ [?g]))" using d(9) by simp
  have ids: "distinct (map gr_id (es_groups es @ [?g]))" using d(7,8) new[of "es_next es"] by auto
  have "one_system (es_groups es @ [?g])"
    using d(10)
  proof (rule one_systemE)
    fix s assume s: "s \<in> set (es_groups es)" "gr_system s" "gr_active s" "gr_name s = SYSTEM_GROUP_NAME" "\<And>g. g \<in> set (es_groups es) \<Longrightarrow> gr_system g \<Longrightarrow> g = s"
    show ?thesis
    proof (rule one_systemI[of s])
      fix h assume h: "h \<in> set (es_groups es @ [?g])" "gr_system h"
      then have "h \<in> set (es_groups es)" using new[of "es_next es"] by (cases "h = ?g") auto
      then show "h = s" using s(5) h(2) by blast
    qed (use s(1-4) in simp_all)
  qed
  then have "groups_ok (snd (insert_group new es))" using False names ids d(8,11) new[of "es_next es"]
    by (auto simp: insert_group_def Let_def groups_ok_def)
  then show ?thesis using d(2-6) False by (intro estate_okI) (auto simp: insert_group_def Let_def)
qed

text \<open>A change of a row other than the system group keeps the invariant, if names stay distinct.\<close>

lemma ok_change_group:
  assumes ok: "estate_ok es" and g: "g \<in> set (es_groups es)" "\<not> gr_system g" and f: "\<And>h. gr_id (f h) = gr_id h \<and> gr_system (f h) = gr_system h"
    and n: "\<And>h. h \<in> set (es_groups es) \<Longrightarrow> gr_id h \<noteq> gr_id g \<Longrightarrow> lower (gr_name h) \<noteq> lower (gr_name (f g))"
  shows "estate_ok (es\<lparr>es_groups := update_where (\<lambda>h. gr_id h = gr_id g) f (es_groups es)\<rparr>)"
proof -
  let ?G = "es_groups es" and ?u = "update_where (\<lambda>h. gr_id h = gr_id g) f (es_groups es)"
  note d = estate_okD[OF ok]
  have only: "h = g" if "h \<in> set ?G" "gr_id h = gr_id g" for h using d(7) that g(1) by (auto simp: distinct_map inj_on_def)
  have u: "?u = map (\<lambda>h. if h = g then f g else h) ?G" unfolding update_where_def using only by (auto intro!: map_cong)
  have ids: "map gr_id ?u = map gr_id ?G" using f by (simp add: update_where_def)
  then have ids': "gr_id ` set ?u = gr_id ` set ?G" by (metis set_map)
  have inj: "inj_on (\<lambda>g. lower (gr_name g)) (set ?G)" "distinct ?G" using d(9) by (simp_all add: distinct_map)
  have "inj_on (\<lambda>h. lower (gr_name (if h = g then f g else h))) (set ?G)"
  proof (rule inj_onI)
    fix x y assume xy: "x \<in> set ?G" "y \<in> set ?G" "lower (gr_name (if x = g then f g else x)) = lower (gr_name (if y = g then f g else y))"
    show "x = y"
      using xy(3) n[OF xy(1)] n[OF xy(2)] only[OF xy(1)] only[OF xy(2)] inj(1)[THEN inj_onD, OF _ xy(1,2)] by (cases "x = g"; cases "y = g") auto
  qed
  then have names: "distinct (map (\<lambda>g. lower (gr_name g)) ?u)" using inj(2) unfolding u by (simp add: distinct_map comp_def)
  have "one_system ?u" using d(10)
  proof (rule one_systemE)
    fix s assume s: "s \<in> set ?G" "gr_system s" "gr_active s" "gr_name s = SYSTEM_GROUP_NAME" "\<And>g. g \<in> set ?G \<Longrightarrow> gr_system g \<Longrightarrow> g = s"
    have ne: "s \<noteq> g" using s(2) g(2) by blast
    show ?thesis
    proof (rule one_systemI[of s])
      show "s \<in> set ?u" unfolding u using s(1) ne by force
      fix h assume h: "h \<in> set ?u" "gr_system h"
      then obtain x where x: "x \<in> set ?G" "h = (if x = g then f g else x)" unfolding u by auto
      then show "h = s" using h(2) s(5) f[of g] g(2) by (cases "x = g") auto
    qed (fact s)+
  qed
  then show ?thesis using d ids ids' names by (intro estate_okI) (simp_all add: groups_ok_def)
qed

lemma ok_delete_group:
  assumes ok: "estate_ok es" and g: "g \<in> set (es_groups es)" "\<not> gr_system g" and e: "\<And>m. m \<in> set (es_members es) \<Longrightarrow> mb_group m \<noteq> gr_id g"
  shows "estate_ok (es\<lparr>es_groups := filter (\<lambda>h. gr_id h \<noteq> gr_id g) (es_groups es)\<rparr>)"
proof -
  note d = estate_okD[OF ok]
  have "one_system (filter (\<lambda>h. gr_id h \<noteq> gr_id g) (es_groups es))" using d(10)
  proof (rule one_systemE)
    fix s assume s: "s \<in> set (es_groups es)" "gr_system s" "gr_active s" "gr_name s = SYSTEM_GROUP_NAME" "\<And>h. h \<in> set (es_groups es) \<Longrightarrow> gr_system h \<Longrightarrow> h = s"
    have "gr_id s \<noteq> gr_id g" using s(1,2) g d(7) by (auto simp: distinct_map inj_on_def)
    then show ?thesis using s(1-4)
    proof (intro one_systemI[of s])
      fix h assume "h \<in> set (filter (\<lambda>h. gr_id h \<noteq> gr_id g) (es_groups es))" "gr_system h"
      then show "h = s" using s(5) by simp
    qed simp_all
  qed
  moreover have "mb_group ` set (es_members es) \<subseteq> gr_id ` {h \<in> set (es_groups es). gr_id h \<noteq> gr_id g}"
    using d(4) e by force
  moreover have "gr_id ` {h \<in> set (es_groups es). gr_id h \<noteq> gr_id g} \<subseteq> {0<..<es_next es}" using d(8) by blast
  ultimately show ?thesis using d by (intro estate_okI) (simp_all add: groups_ok_def distinct_map_filter)
qed

section \<open>The operations keep the invariant\<close>

lemma put_member_fields [simp]: "es_groups (put_member m es) = es_groups es" "es_nodes (put_member m es) = es_nodes es" "es_vms (put_member m es) = es_vms es"
  by (simp_all add: put_member_def)

lemma assign_one_fields:
  "es_groups (snd (assign_one now actor target sid node s)) = es_groups (snd s)" "es_nodes (snd (assign_one now actor target sid node s)) = es_nodes (snd s)"
  "es_vms (snd (assign_one now actor target sid node s)) = es_vms (snd s)"
  by (simp_all add: assign_one_def Let_def case_prod_beta)

lemma ok_assign_one:
  assumes "estate_ok (snd s)" "gr_id target \<in> gr_id ` set (es_groups (snd s))"
  shows "estate_ok (snd (assign_one now actor target sid node s))"
  using assms by (auto simp: assign_one_def Let_def case_prod_beta intro!: ok_put_member)

lemma ok_assign_fold:
  assumes "estate_ok (snd s)" "gr_id target \<in> gr_id ` set (es_groups (snd s))"
  shows "estate_ok (snd (fold (assign_one now actor target sid) nodes s)) \<and> es_groups (snd (fold (assign_one now actor target sid) nodes s)) = es_groups (snd s)"
  using assms
proof (induction nodes arbitrary: s)
  case (Cons n ns)
  note one = ok_assign_one[OF Cons.prems, of now actor sid n] assign_one_fields(1)[of now actor target sid n s]
  show ?case using Cons.IH[OF one(1)] one(2) Cons.prems(2) by simp
qed simp

lemma row_of_in: "row_of key k rows = Some r \<Longrightarrow> r \<in> set rows \<and> key r = k"
  by (auto dest: row_of_key)

lemma ok_assign_rows:
  assumes ok: "estate_ok es"
  shows "estate_ok (snd (assign_rows now nodes gid actor es))"
proof (cases "row_of gr_id gid (es_groups es)")
  case (Some target)
  obtain s where s: "system_group_id now es = (Some (gr_id s), es)" "s \<in> set (es_groups es)" "gr_system s" "gr_active s" by (rule system_found[OF estate_okD(1)[OF ok], of now])
  have t: "gr_id target \<in> gr_id ` set (es_groups es)" using row_of_in[OF Some] by blast
  show ?thesis using ok ok_assign_fold[of "(no_tally, es)" target now actor "gr_id s" nodes] t
    by (simp add: assign_rows_def Some s(1) case_prod_beta Let_def)
qed (use ok in \<open>simp add: assign_rows_def\<close>)

lemma group_row_mem: "group_row gid h es = Some g \<Longrightarrow> g \<in> set (es_groups es) \<and> gr_id g = gid"
  by (auto simp: group_row_def find_Some_iff split: if_splits)

lemma ok_act_on_group:
  assumes ok: "estate_ok es" and g: "g \<in> set (es_groups es)" "\<not> gr_system g" and a: "act_on_group now action actor g es = Inr (event, es')"
  shows "estate_ok es'"
proof -
  have n: "lower (gr_name h) \<noteq> lower (gr_name g)" if "h \<in> set (es_groups es)" "gr_id h \<noteq> gr_id g" for h
    using estate_okD(9)[OF ok] that g(1) by (auto simp: distinct_map inj_on_def)
  note c = ok_change_group[OF ok g]
  show ?thesis
  proof (cases "action = ''delete''")
    case True
    then have "mb_group m \<noteq> gr_id g" if "m \<in> set (es_members es)" for m using a that by (auto simp: act_on_group_def Let_def list_ex_iff split: if_splits)
    from ok_delete_group[OF ok g this] show ?thesis using a True by (auto simp: act_on_group_def Let_def split: if_splits)
  next
    case False
    show ?thesis using a False n by (auto simp: act_on_group_def Let_def split: if_splits intro!: c)
  qed
qed

lemma merge_node_key: "keeps_key nd_node merge_node"
  by (simp add: keeps_key_def merge_node_def)

lemma ok_see_node:
  assumes ok: "estate_ok es"
  shows "estate_ok (see_node now t node es)"
proof -
  note d = estate_okD[OF ok]
  let ?new = "\<lparr>nd_node = node, nd_first_seen = t, nd_last_push = t, nd_status = ''active'', nd_hidden_at = None, nd_deleted_at = None\<rparr>"
  let ?N = "upsert nd_node merge_node ?new (es_nodes es)"
  have N: "nd_node ` set ?N = insert node (nd_node ` set (es_nodes es))" "distinct (map nd_node ?N)"
    using upsert_keys[OF merge_node_key, of ?new "es_nodes es"] distinct_upsert[OF merge_node_key d(5), of ?new] by simp_all
  show ?thesis
  proof (cases "known_node node es")
    case True
    then have "nd_node ` set ?N = nd_node ` set (es_nodes es)" using N(1) by (auto simp: known_node_iff)
    then have "estate_ok (es\<lparr>es_nodes := ?N\<rparr>)" using d N(2) by (intro estate_okI) (simp_all add: groups_ok_def del: upsert.simps)
    then show ?thesis using True by (simp add: see_node_def Let_def del: upsert.simps)
  next
    case False
    have g: "groups_ok (es\<lparr>es_nodes := ?N\<rparr>)" using d(1) by (simp add: groups_ok_def del: upsert.simps)
    obtain s where s: "system_group_id now (es\<lparr>es_nodes := ?N\<rparr>) = (Some (gr_id s), es\<lparr>es_nodes := ?N\<rparr>)" "s \<in> set (es_groups (es\<lparr>es_nodes := ?N\<rparr>))" "gr_system s" "gr_active s"
      by (rule system_found[OF g, of now])
    have fresh: "row_of mb_node node (es_members es) = None" using False d(3) by (simp add: row_of_None_iff known_node_iff)
    have "see_node now t node es = es\<lparr>es_nodes := ?N, es_members := es_members es @ [\<lparr>mb_node = node, mb_group = gr_id s, mb_at = now, mb_by = ''trigger''\<rparr>]\<rparr>"
      using False fresh by (simp add: see_node_def Let_def assign_ungrouped_def s(1) add_member_def insert_or_ignore_def del: upsert.simps)
    moreover have "estate_ok \<dots>" using d N s(2) fresh
      by (intro estate_okI) (auto simp: groups_ok_def row_of_None_iff simp del: upsert.simps)
    ultimately show ?thesis by simp
  qed
qed

lemma ok_purges: "estate_ok es \<Longrightarrow> estate_ok (purge_node_vms node es)" "estate_ok es \<Longrightarrow> estate_ok (purge_vm k es)"
proof -
  assume ok: "estate_ok es"
  note d = estate_okD[OF ok]
  show "estate_ok (purge_node_vms node es)" using d by (intro estate_okI) (simp_all add: purge_node_vms_def groups_ok_def distinct_map_filter)
  show "estate_ok (purge_vm k es)" using d by (intro estate_okI) (simp_all add: purge_vm_def groups_ok_def distinct_map_filter)
qed

lemma filter_keys: "key ` set (filter (\<lambda>r. key r \<noteq> k) rows) = key ` set rows - {k}"
  by auto

lemma ok_purge_node:
  assumes ok: "estate_ok es"
  shows "estate_ok (purge_node node es)"
proof -
  note d = estate_okD[OF ok]
  have "mb_group ` set (filter (\<lambda>m. mb_node m \<noteq> node) (es_members es)) \<subseteq> gr_id ` set (es_groups es)" using d(4) by auto
  then show ?thesis using d filter_keys[of mb_node node "es_members es"] filter_keys[of nd_node node "es_nodes es"]
    by (intro estate_okI) (simp_all add: purge_node_def purge_node_vms_def groups_ok_def distinct_map_filter)
qed

text \<open>The pages: the invariant of the tables a page leaves.\<close>

abbreviation tables_of :: "response \<times> desk \<Rightarrow> estate" where
  "tables_of r \<equiv> fst (snd (snd r))"

lemma guarded_deskI: "(\<And>w. P (go (w, snd s))) \<Longrightarrow> (\<And>d w. P (d, w, snd s)) \<Longrightarrow> P (guarded_desk si rq go s)"
  by (auto simp: guarded_desk_def split: prod.splits option.splits)

lemma queue_purge_tables: "tables_of (queue_purge de si rq a i e wh msg dt bk (w, es, q)) \<in> {es, bk es}"
  by (cases w) (auto simp: queue_purge_def Let_def case_prod_beta split: sum.splits)

lemma ok_queue_purge:
  "estate_ok es \<Longrightarrow> (\<And>e. estate_ok e \<Longrightarrow> estate_ok (bk e)) \<Longrightarrow> estate_ok (tables_of (queue_purge de si rq a i e wh msg dt bk (w, es, q)))"
  using queue_purge_tables[of de si rq a i e wh msg dt bk w es q] by auto

lemma ok_inventory_write:
  "estate_ok (fst (snd s)) \<Longrightarrow> (\<And>e. estate_ok e \<Longrightarrow> estate_ok (f e)) \<Longrightarrow> estate_ok (fst (snd (snd (inventory_write de b f s))))"
  by (simp add: inventory_write_def case_prod_beta Let_def)

lemma after_write_tables [simp]: "tables_of (after_write good r) = fst (snd (snd r))"
  by (simp add: after_write_def split: option.split)

text \<open>One lemma per page.\<close>

abbreviation keeps :: "(desk \<Rightarrow> response \<times> desk) \<Rightarrow> bool" where
  "keeps page \<equiv> \<forall>s. estate_ok (fst (snd s)) \<longrightarrow> estate_ok (tables_of (page s))"

lemma keeps_guarded: "keeps go \<Longrightarrow> keeps (guarded_desk si rq go)"
  by (auto intro!: guarded_deskI[where P = "\<lambda>r. estate_ok (tables_of r)"])

lemma keeps_if: "(c \<Longrightarrow> keeps f) \<Longrightarrow> (\<not> c \<Longrightarrow> keeps g) \<Longrightarrow> keeps (\<lambda>s. if c then f s else g s)"
  by simp

lemma keeps_same: "keeps (\<lambda>s. (r s, s))" "keeps (\<lambda>(w, es, q). (r' w es q, w' w es q, es, q))"
  by simp_all

lemma keeps_write: "(\<And>e. estate_ok e \<Longrightarrow> estate_ok (f e)) \<Longrightarrow> keeps (\<lambda>s. after_write good (inventory_write de b f s))"
  using ok_inventory_write by simp

lemma keeps_delete_vm: "keeps (admin_delete_vm de si rq)" "keeps (base_delete_vm de si rq)"
proof -
  have p: "keeps (purge_one_vm de si rq)"
    by (auto simp: purge_one_vm_def Let_def case_prod_beta intro!: ok_queue_purge ok_put_back split: option.split) (simp_all add: ok_set_vms)
  show b: "keeps (base_delete_vm de si rq)"
    unfolding base_delete_vm_def by (rule keeps_guarded) (use p in \<open>auto simp: Let_def ok_set_vms\<close>)
  show "keeps (admin_delete_vm de si rq)" unfolding admin_delete_vm_def
    by (rule keeps_guarded) (use b in \<open>auto simp: Let_def ok_set_vms intro!: ok_inventory_write\<close>)
qed

lemma keeps_delete_node: "keeps (admin_delete_node de si rq)" "keeps (base_delete_node de si rq)"
proof -
  have p: "keeps (purge_one_node de si rq)"
    by (auto simp: purge_one_node_def Let_def case_prod_beta intro!: ok_queue_purge ok_put_back split: option.split) (simp_all add: ok_set_nodes)
  show b: "keeps (base_delete_node de si rq)"
    unfolding base_delete_node_def by (rule keeps_guarded) (use p in \<open>auto simp: Let_def ok_set_nodes\<close>)
  show "keeps (admin_delete_node de si rq)" unfolding admin_delete_node_def
    by (rule keeps_guarded) (use b in \<open>auto simp: Let_def ok_set_nodes intro!: ok_inventory_write\<close>)
qed

lemma keeps_restore: "keeps (admin_restore_vm de si rq)" "keeps (admin_restore_node de si rq)"
proof -
  show "keeps (admin_restore_vm de si rq)" unfolding admin_restore_vm_def
    by (rule keeps_guarded) (auto simp: Let_def ok_set_vms intro!: ok_inventory_write)
  show "keeps (admin_restore_node de si rq)" unfolding admin_restore_node_def
    by (rule keeps_guarded) (auto simp: Let_def ok_set_nodes intro!: ok_inventory_write)
qed

lemma keeps_purge_node_vms: "keeps (admin_purge_node_vms de si rq)"
  unfolding admin_purge_node_vms_def
  by (rule keeps_guarded) (auto simp: Let_def ok_set_vms intro!: ok_queue_purge ok_fold ok_put_back)

lemma ok_fold_nodes: "(\<And>r. nd_node (f r) = nd_node r) \<Longrightarrow> estate_ok es \<Longrightarrow> estate_ok (fold (\<lambda>n. set_nodes (\<lambda>r. nd_node r = n) f) ns es)"
  by (intro ok_fold) (simp_all add: ok_set_nodes)

lemma ok_fold_vms: "(\<And>r. vm_key (f r) = vm_key r) \<Longrightarrow> estate_ok es \<Longrightarrow> estate_ok (fold (\<lambda>k. set_vms (\<lambda>r. vm_key r = k) f) ks es)"
  by (intro ok_fold) (simp_all add: ok_set_vms)

lemma keeps_bulk_nodes: "keeps (inventory_bulk_nodes de si rq)"
proof -
  have p: "keeps (purge_bulk_nodes de si rq nodes action)" for nodes action
    by (auto simp: purge_bulk_nodes_def Let_def case_prod_beta intro!: ok_queue_purge ok_fold ok_put_back) (simp_all add: ok_set_vms ok_set_nodes)
  have b: "keeps (base_bulk_nodes de si rq)" unfolding base_bulk_nodes_def
    by (rule keeps_guarded) (use p in \<open>auto simp: Let_def\<close>)
  show ?thesis unfolding inventory_bulk_nodes_def Let_def
    by (rule keeps_if, rule b, rule keeps_guarded) (simp add: inventory_write_def case_prod_beta Let_def ok_fold_nodes)
qed

lemma keeps_bulk_vms: "keeps (admin_bulk_vms de si rq)"
proof -
  have p: "keeps (purge_bulk_vms de si rq vms)" for vms
    by (auto simp: purge_bulk_vms_def Let_def case_prod_beta ok_set_vms intro!: ok_queue_purge ok_fold ok_put_back)
  have b: "keeps (base_bulk_vms de si rq)" unfolding base_bulk_vms_def
    by (rule keeps_guarded) (use p in \<open>auto simp: Let_def\<close>)
  show ?thesis unfolding admin_bulk_vms_def Let_def
    by (rule keeps_if, rule b, rule keeps_guarded) (simp add: inventory_write_def case_prod_beta Let_def ok_fold_vms)
qed

lemma keeps_assign_nodes: "estate_ok (fst (snd s)) \<Longrightarrow> estate_ok (tables_of (assign_nodes si rq nodes gid good s))"
  using ok_assign_rows[of "fst (snd s)" "rq_now rq" "clean_nodes nodes" gid "desk_actor (fst (fst s))"]
  by (auto simp: assign_nodes_def Let_def case_prod_beta split: prod.split sum.split)

lemma keeps_create: "keeps (admin_node_groups_create de si rq)"
  unfolding admin_node_groups_create_def
proof (rule keeps_guarded, intro allI impI, goal_cases)
  case (1 s)
  let ?new = "\<lambda>i. \<lparr>gr_id = i, gr_name = strip (form rq ''name''), gr_description = take 500 (strip (form rq ''description'')),
    gr_country = clean_country_code de (form rq ''country_code''), gr_active = True, gr_system = False, gr_created = rq_now rq,
    gr_updated = rq_now rq, gr_hidden_at = None\<rparr>"
  have "estate_ok (snd (insert_group ?new (fst (snd s))))" by (rule ok_insert_group[OF 1]) simp
  then show ?case using 1 by (simp add: Let_def case_prod_beta split: option.split prod.split)
qed

lemma keeps_update: "keeps (admin_node_groups_update de si rq)"
  unfolding admin_node_groups_update_def
proof (rule keeps_guarded, intro allI impI, goal_cases)
  case (1 s)
  obtain w es q where s: "s = (w, es, q)" by (metis prod_cases3)
  let ?gid = "safe_int (PStr (form rq ''group_id'')) 0" and ?name = "strip (form rq ''name'')"
  let ?f = "\<lambda>g. g\<lparr>gr_name := ?name, gr_description := take 500 (strip (form rq ''description'')),
    gr_country := clean_country_code de (form rq ''country_code''), gr_updated := rq_now rq\<rparr>"
  have "estate_ok (es\<lparr>es_groups := update_where (\<lambda>g. gr_id g = ?gid) ?f (es_groups es)\<rparr>)"
    if r: "group_row ?gid True es = Some row" "\<not> gr_system row" "\<not> list_ex (\<lambda>g. gr_id g \<noteq> ?gid \<and> lower (gr_name g) = lower ?name) (es_groups es)" for row
  proof -
    have g: "row \<in> set (es_groups es)" "gr_id row = ?gid" using group_row_mem[OF r(1)] by auto
    have "estate_ok es" using 1 s by simp
    from ok_change_group[OF this g(1) r(2), of ?f] show ?thesis using r(3) g(2) by (auto simp: list_ex_iff)
  qed
  then show ?case using 1 by (simp add: s Let_def split: option.split)
qed

lemma keeps_action: "keeps (admin_node_groups_action si rq)"
  unfolding admin_node_groups_action_def
proof (rule keeps_guarded, intro allI impI, goal_cases)
  case (1 s)
  obtain w es q where s: "s = (w, es, q)" by (metis prod_cases3)
  have "estate_ok es'" if "group_row gid True es = Some row" "\<not> gr_system row" "act_on_group now action actor row es = Inr (event, es')"
    for gid row now action actor event es'
    using ok_act_on_group[OF _ _ that(2,3)] group_row_mem[OF that(1)] 1 s by simp
  then show ?case using 1 by (auto simp: s Let_def split: option.split sum.split)
qed

lemma keeps_assign: "keeps (admin_node_groups_assign si rq)"
  unfolding admin_node_groups_assign_def by (rule keeps_guarded) (auto simp: Let_def keeps_assign_nodes)

lemma keeps_group_bulk: "keeps (admin_node_groups_bulk matching si rq)"
  unfolding admin_node_groups_bulk_def
proof (rule keeps_guarded, intro allI impI, goal_cases)
  case (1 s)
  obtain w es q where s: "s = (w, es, q)" by (metis prod_cases3)
  have ok: "estate_ok es" using 1 s by simp
  obtain g where g: "system_group_id (rq_now rq) es = (Some (gr_id g), es)" "g \<in> set (es_groups es)" "gr_system g" "gr_active g"
    by (rule system_found[OF estate_okD(1)[OF ok], of "rq_now rq"])
  define go where "go = assign_nodes si rq"
  have "estate_ok (tables_of (go nodes gid good (w, es, q)))" for nodes gid good
    using keeps_assign_nodes[of "(w, es, q)"] ok by (simp add: go_def)
  then show ?case unfolding go_def[symmetric] using ok by (simp add: s g Let_def split: option.split)
qed

lemma keeps_bulk_or_group: "keeps (admin_bulk_nodes matching de si rq)"
  using keeps_group_bulk keeps_bulk_nodes by (simp add: admin_bulk_nodes_def)

lemmas keeps_page = keeps_delete_vm[rule_format] keeps_delete_node[rule_format] keeps_restore[rule_format] keeps_purge_node_vms[rule_format]
  keeps_bulk_vms[rule_format] keeps_bulk_or_group[rule_format] keeps_create[rule_format] keeps_update[rule_format]
  keeps_action[rule_format] keeps_assign[rule_format] keeps_group_bulk[rule_format]

lemma ok_desk_page: "estate_ok (fst (snd s)) \<Longrightarrow> estate_ok (tables_of (desk_page matching de si rq s))"
  unfolding desk_page_def Let_def by (simp add: keeps_page)

section \<open>The histories of an installation\<close>

text \<open>
  The tables over the time: the start of the application on a database with nodes and machines but
  without groups, pages of operations, pushes, the purge worker, and whatever writes the machines.
\<close>

inductive managed :: "estate \<Rightarrow> bool" where
  start: "distinct (map nd_node ns) \<Longrightarrow> distinct (map vm_key vs) \<Longrightarrow>
    managed (ensure_schema now \<lparr>es_nodes = ns, es_vms = vs, es_groups = [], es_next = 1, es_members = [], es_history = []\<rparr>)"
| restart: "managed es \<Longrightarrow> managed (ensure_schema now es)"
| page: "managed es \<Longrightarrow> desk_page matching de si rq (w, es, q) = (r, w', es', q') \<Longrightarrow> managed es'"
| push: "managed es \<Longrightarrow> managed (see_node now data_time node es)"
| machines: "managed es \<Longrightarrow> distinct (map vm_key vs) \<Longrightarrow> managed (es\<lparr>es_vms := vs\<rparr>)"
| purge: "managed es \<Longrightarrow> managed (purge_node node es)"
| purge_machines: "managed es \<Longrightarrow> managed (purge_node_vms node es)"
| purge_machine: "managed es \<Longrightarrow> managed (purge_vm k es)"
| lookup: "managed es \<Longrightarrow> managed (snd (group_for_node now node es))"
| ensure: "managed es \<Longrightarrow> managed (snd (ensure_node_membership now node actor es))"

lemma ensure_schema_id:
  assumes ok: "estate_ok es"
  shows "ensure_schema now es = es"
proof -
  obtain g where g: "system_group_id now es = (Some (gr_id g), es)" "g \<in> set (es_groups es)" "gr_system g" "gr_active g"
    by (rule system_found[OF estate_okD(1)[OF ok], of now])
  have "filter (\<lambda>r. row_of mb_node (nd_node r) (es_members es) = None) (es_nodes es) = []"
    using estate_okD(3)[OF ok] by (auto simp: filter_empty_conv row_of_None_iff)
  then show ?thesis by (simp add: ensure_schema_def g)
qed

lemma ok_start:
  assumes "distinct (map nd_node ns)" "distinct (map vm_key vs)"
  shows "estate_ok (ensure_schema now \<lparr>es_nodes = ns, es_vms = vs, es_groups = [], es_next = 1, es_members = [], es_history = []\<rparr>)"
  using assms by (intro estate_okI)
    (auto simp: ensure_schema_def system_group_id_def select_first_def insert_group_def Let_def system_group_def groups_ok_def one_system_def comp_def image_image)

lemma group_of_known: "estate_ok es \<Longrightarrow> known_node node es \<Longrightarrow> \<exists>g \<in> set (es_groups es). group_of node es = Some g"
proof -
  assume ok: "estate_ok es" and "known_node node es"
  then have "row_of mb_node node (es_members es) \<noteq> None" using estate_okD(3)[OF ok] by (auto simp: known_node_iff row_of_None_iff)
  then obtain m where m: "row_of mb_node node (es_members es) = Some m" by blast
  then have "mb_group m \<in> gr_id ` set (es_groups es)" using estate_okD(4)[OF ok] row_of_in[OF m] by blast
  then have "row_of gr_id (mb_group m) (es_groups es) \<noteq> None" by (auto simp: row_of_None_iff)
  then obtain g where g: "row_of gr_id (mb_group m) (es_groups es) = Some g" by blast
  then show ?thesis using m row_of_in[OF g] by (simp add: group_of_def)
qed

lemma lookup_id:
  assumes ok: "estate_ok es"
  shows "snd (group_for_node now node es) = es" "snd (ensure_node_membership now node actor es) = es"
proof -
  obtain g where g: "system_group_id now es = (Some (gr_id g), es)" "g \<in> set (es_groups es)" "gr_system g" "gr_active g"
    by (rule system_found[OF estate_okD(1)[OF ok], of now])
  show "snd (group_for_node now node es) = es"
    using group_of_known[OF ok, of node] by (cases "known_node node es") (auto simp: group_for_node_def g split: option.split)
  show "snd (ensure_node_membership now node actor es) = es"
    using add_member_id[OF ok] by (simp add: ensure_node_membership_def Let_def g)
qed

lemma managed_ok: "managed es \<Longrightarrow> estate_ok es"
proof (induction rule: managed.induct)
  case (page es matching de si rq w q r w' es' q')
  then show ?case using ok_desk_page[of "(w, es, q)" matching de si rq] by simp
next
  case (machines es vs)
  then show ?case using estate_okD[of es] by (intro estate_okI) (simp_all add: groups_ok_def)
qed (simp_all add: ok_start ensure_schema_id ok_see_node ok_purge_node ok_purges lookup_id)

section \<open>A purge that cannot be queued\<close>

text \<open>Putting rows back after an update that kept the keys.\<close>

lemma put_back_rows:
  assumes p: "\<And>old r. key (put old r) = key r" and d: "distinct (map key olds)"
  shows "fold (\<lambda>old. update_where (\<lambda>r. key r = key old) (put old)) olds rows
    = map (\<lambda>r. case row_of key (key r) olds of None \<Rightarrow> r | Some old \<Rightarrow> put old r) rows"
  using d
proof (induction olds arbitrary: rows)
  case (Cons old olds)
  have "row_of key (key old) olds = None" using Cons.prems by (auto simp: row_of_None_iff)
  then show ?case using Cons by (auto simp: update_where_def p)
qed simp

lemma put_back_updated:
  assumes p: "\<And>old r. key (put old r) = key r" "\<And>r. key (f r) = key r" "\<And>r. put r (f r) = r" and d: "distinct (map key olds)"
    and o: "\<And>r. r \<in> set rows \<Longrightarrow> row_of key (key r) olds = (if P r then Some r else None)"
  shows "fold (\<lambda>old. update_where (\<lambda>r. key r = key old) (put old)) olds (update_where P f rows) = rows"
  unfolding put_back_rows[OF p(1) d] unfolding update_where_def map_map
  by (rule map_idI) (simp add: o p(2,3))

lemma row_of_kept:
  assumes "distinct (map key rows)" "r \<in> set rows"
  shows "row_of key (key r) (filter P rows) = (if P r then Some r else None)"
proof (cases "P r")
  case True
  have "distinct (map key (filter P rows))" by (simp add: distinct_map_filter assms(1))
  then show ?thesis using row_of_distinct[of key "filter P rows" r] True assms(2) by simp
next
  case False
  have "\<And>s. s \<in> set rows \<Longrightarrow> key s = key r \<Longrightarrow> s = r" using assms by (auto simp: distinct_map inj_on_def)
  then show ?thesis using False by (auto simp: row_of_None_iff)
qed

lemma distinct_dedup [simp]: "distinct (clean_nodes ns)" "distinct (clean_pairs ps)"
  by (simp_all add: clean_nodes_def clean_pairs_def distinct_dedup_first)

lemma fold_set_nodes: "fold put_back_node olds es = es\<lparr>es_nodes := fold (\<lambda>old. update_where (\<lambda>r. nd_node r = nd_node old)
    (\<lambda>r. r\<lparr>nd_status := nd_status old, nd_hidden_at := nd_hidden_at old\<rparr>)) olds (es_nodes es)\<rparr>"
  by (induction olds arbitrary: es) (simp_all add: put_back_node_def set_nodes_def)

lemma fold_set_vms: "fold put_back_vm olds es = es\<lparr>es_vms := fold (\<lambda>old. update_where (\<lambda>r. vm_key r = vm_key old)
    (\<lambda>r. r\<lparr>vi_status := vi_status old, vi_hidden_at := vi_hidden_at old\<rparr>)) olds (es_vms es)\<rparr>"
  by (induction olds arbitrary: es) (simp_all add: put_back_vm_def set_vms_def)

lemma hidden_put_back [simp]:
  "(hide_node now r)\<lparr>nd_status := nd_status r, nd_hidden_at := nd_hidden_at r\<rparr> = r"
  "(hide_vm now v)\<lparr>vi_status := vi_status v, vi_hidden_at := vi_hidden_at v\<rparr> = v"
  by (simp_all add: hide_node_def hide_vm_def)

lemma vm_key_update [simp]: "vm_key (v\<lparr>vi_status := x, vi_hidden_at := y\<rparr>) = vm_key v"
  by (simp add: vm_key_def)

lemma nodes_back:
  assumes "distinct (map nd_node olds)" "\<And>r. r \<in> set (es_nodes es) \<Longrightarrow> row_of nd_node (nd_node r) olds = (if P r then Some r else None)"
  shows "fold put_back_node olds (set_nodes P (hide_node now) es) = es"
  using put_back_updated[of nd_node "\<lambda>old r. r\<lparr>nd_status := nd_status old, nd_hidden_at := nd_hidden_at old\<rparr>" "hide_node now" olds "es_nodes es" P] assms
  by (simp add: fold_set_nodes set_nodes_def)

lemma vms_back:
  assumes "distinct (map vm_key olds)" "\<And>r. r \<in> set (es_vms es) \<Longrightarrow> row_of vm_key (vm_key r) olds = (if P r then Some r else None)"
  shows "fold put_back_vm olds (set_vms P (hide_vm now) es) = es"
  using put_back_updated[of vm_key "\<lambda>old r. r\<lparr>vi_status := vi_status old, vi_hidden_at := vi_hidden_at old\<rparr>" "hide_vm now" olds "es_vms es" P] assms
  by (simp add: fold_set_vms set_vms_def)

lemma filtered_back:
  assumes ok: "estate_ok es"
  shows "fold put_back_node (filter P (es_nodes es)) (set_nodes P (hide_node now) es) = es"
    "fold put_back_vm (filter Q (es_vms es)) (set_vms Q (hide_vm now) es) = es"
proof -
  note d = estate_okD(5,6)[OF ok]
  show "fold put_back_node (filter P (es_nodes es)) (set_nodes P (hide_node now) es) = es"
    by (rule nodes_back) (simp_all add: distinct_map_filter d row_of_kept)
  show "fold put_back_vm (filter Q (es_vms es)) (set_vms Q (hide_vm now) es) = es"
    by (rule vms_back) (simp_all add: distinct_map_filter d row_of_kept)
qed

lemma one_filtered: "distinct (map key rows) \<Longrightarrow> filter (\<lambda>r. key r = k) rows = (case row_of key k rows of None \<Rightarrow> [] | Some r \<Rightarrow> [r])"
proof (induction rows)
  case (Cons r rs)
  then show ?case by (cases "key r = k") (auto simp: row_of_None_iff split: option.splits)
qed simp

lemma one_back:
  assumes ok: "estate_ok es"
  shows "(case row_of nd_node n (es_nodes es) of None \<Rightarrow> id | Some old \<Rightarrow> put_back_node old) (set_nodes (\<lambda>r. nd_node r = n) (hide_node now) es) = es"
    "(case row_of vm_key k (es_vms es) of None \<Rightarrow> id | Some v \<Rightarrow> put_back_vm v) (set_vms (\<lambda>r. vm_key r = k) (hide_vm now) es) = es"
  using filtered_back(1)[OF ok, of "\<lambda>r. nd_node r = n" now] filtered_back(2)[OF ok, of "\<lambda>r. vm_key r = k" now]
    one_filtered[OF estate_okD(5)[OF ok], of n] one_filtered[OF estate_okD(6)[OF ok], of k]
  by (auto split: option.splits)

text \<open>Hiding name after name is hiding all of them.\<close>

lemma hide_twice [simp]: "hide_node now (hide_node now r) = hide_node now r" "hide_vm now (hide_vm now v) = hide_vm now v"
  by (simp_all add: hide_node_def hide_vm_def)

lemma fold_hide:
  "fold (\<lambda>n. set_nodes (\<lambda>r. nd_node r = n) (hide_node now)) ns es = set_nodes (\<lambda>r. nd_node r \<in> set ns) (hide_node now) es"
  "fold (\<lambda>n. set_vms (\<lambda>r. vi_node r = n) (hide_vm now)) ns es = set_vms (\<lambda>r. vi_node r \<in> set ns) (hide_vm now) es"
  "fold (\<lambda>k. set_vms (\<lambda>r. vm_key r = k) (hide_vm now)) ks es = set_vms (\<lambda>r. vm_key r \<in> set ks) (hide_vm now) es"
proof -
  have v: "vi_node (hide_vm now r) = vi_node r" for r by (simp add: hide_vm_def)
  show "fold (\<lambda>n. set_nodes (\<lambda>r. nd_node r = n) (hide_node now)) ns es = set_nodes (\<lambda>r. nd_node r \<in> set ns) (hide_node now) es"
    by (induction ns arbitrary: es) (auto simp: set_nodes_def update_where_def)
  show "fold (\<lambda>n. set_vms (\<lambda>r. vi_node r = n) (hide_vm now)) ns es = set_vms (\<lambda>r. vi_node r \<in> set ns) (hide_vm now) es"
    by (induction ns arbitrary: es) (auto simp: set_vms_def update_where_def v)
  show "fold (\<lambda>k. set_vms (\<lambda>r. vm_key r = k) (hide_vm now)) ks es = set_vms (\<lambda>r. vm_key r \<in> set ks) (hide_vm now) es"
    by (induction ks arbitrary: es) (auto simp: set_vms_def update_where_def)
qed

lemma row_of_picked: "row_of key k (List.map_filter (\<lambda>k. row_of key k rows) ks) = (if k \<in> set ks then row_of key k rows else None)"
proof (induction ks)
  case (Cons k' ks)
  show ?case
  proof (cases "row_of key k' rows")
    case None
    then show ?thesis using Cons by (simp add: map_filter_simps)
  next
    case (Some v)
    then have v: "key v = k'" using row_of_in[OF Some] by blast
    have pick: "List.map_filter (\<lambda>k. row_of key k rows) (k' # ks) = v # List.map_filter (\<lambda>k. row_of key k rows) ks"
      using Some by (simp add: map_filter_simps)
    show ?thesis
    proof (cases "k = k'")
      case True
      then show ?thesis unfolding pick using v Some by simp
    next
      case False
      then show ?thesis unfolding pick using v Cons by simp
    qed
  qed
qed (simp add: map_filter_simps)

lemma picked_keys:
  "key ` set (List.map_filter (\<lambda>k. row_of key k rows) ks) \<subseteq> set ks"
  "distinct ks \<Longrightarrow> distinct (map key (List.map_filter (\<lambda>k. row_of key k rows) ks))"
proof -
  show *: "key ` set (List.map_filter (\<lambda>k. row_of key k rows) ks) \<subseteq> set ks" for ks
  proof (induction ks)
    case (Cons k ks)
    show ?case
    proof (cases "row_of key k rows")
      case (Some v)
      then have "key v = k" using row_of_in[OF Some] by blast
      then show ?thesis using Cons by (auto simp: map_filter_simps Some)
    qed (use Cons in \<open>auto simp: map_filter_simps\<close>)
  qed (simp add: map_filter_simps)
  show "distinct ks \<Longrightarrow> distinct (map key (List.map_filter (\<lambda>k. row_of key k rows) ks))"
  proof (induction ks)
    case (Cons k ks)
    show ?case
    proof (cases "row_of key k rows")
      case (Some v)
      then have "key v = k" using row_of_in[OF Some] by blast
      then show ?thesis using Cons *[of ks] by (auto simp: map_filter_simps Some)
    qed (use Cons in \<open>auto simp: map_filter_simps\<close>)
  qed (simp add: map_filter_simps)
qed

lemma picked_back:
  assumes ok: "estate_ok es" and d: "distinct ks"
  shows "fold put_back_vm (List.map_filter (\<lambda>k. row_of vm_key k (es_vms es)) ks) (set_vms (\<lambda>r. vm_key r \<in> set ks) (hide_vm now) es) = es"
proof (rule vms_back)
  let ?pick = "\<lambda>ks. List.map_filter (\<lambda>k. row_of vm_key k (es_vms es)) ks"
  show "distinct (map vm_key (?pick ks))" by (rule picked_keys(2)[OF d])
  fix r assume r: "r \<in> set (es_vms es)"
  have k: "row_of vm_key (vm_key r) (es_vms es) = Some r" by (rule row_of_distinct[OF estate_okD(6)[OF ok] r])
  show "row_of vm_key (vm_key r) (?pick ks) = (if vm_key r \<in> set ks then Some r else None)"
    unfolding row_of_picked k by (rule refl)
qed

section \<open>What the page of a purge does\<close>

text \<open>The rows that a purge of the items hides, and the job as the worker reads it.\<close>

definition hide_items :: "int \<Rightarrow> string \<Rightarrow> purge_items \<Rightarrow> estate \<Rightarrow> estate" where
  "hide_items now action items = (case items of
      Nodes ns \<Rightarrow> if action = ''purge_nodes'' then set_nodes (\<lambda>r. nd_node r \<in> set ns) (hide_node now) else set_vms (\<lambda>r. vi_node r \<in> set ns) (hide_vm now)
    | Machines ks \<Rightarrow> set_vms (\<lambda>r. vm_key r \<in> set ks) (hide_vm now))"

definition targets :: "purge_items \<Rightarrow> (string \<times> string) list" where
  "targets items = (case items of Nodes ns \<Rightarrow> map (\<lambda>n. (n, [])) ns | Machines ks \<Rightarrow> ks)"

definition fits :: "string \<Rightarrow> purge_items \<Rightarrow> bool" where
  "fits action items \<longleftrightarrow> (case items of Nodes ns \<Rightarrow> action \<in> {''purge_nodes'', ''purge_node_vms''} | Machines ks \<Rightarrow> action = ''purge_vms'')"

definition job_of_items :: "desk_env \<Rightarrow> string \<Rightarrow> purge_items \<Rightarrow> queue \<Rightarrow> queue \<Rightarrow> bool" where
  "job_of_items de action items q q' \<longleftrightarrow> (\<exists>j params. actions q' = actions q @ [action] \<and> last (q_jobs q') = j \<and> jb_params j = de_encode de params
     \<and> (\<forall>ops. \<exists>batch. transactional_purge ops action params = purge_selection ops action batch (targets items)))"

definition purge_outcome :: "int \<Rightarrow> desk_env \<Rightarrow> desk \<Rightarrow> response \<times> desk \<Rightarrow> bool" where
  "purge_outcome now de s r \<longleftrightarrow> (case r of (reply, w, es', q') \<Rightarrow>
     (\<forall>part text. reply = Redirect_Note part False text \<longrightarrow> es' = fst (snd s) \<and> q_jobs q' = q_jobs (snd (snd s))) \<and>
     (\<forall>text. reply = Redirect_Note ''maintenance'' True text \<longrightarrow>
       (\<exists>action items. fits action items \<and> clean_items items = items \<and> targets items \<noteq> [] \<and> int (length (targets items)) \<le> de_max de
          \<and> es' = hide_items now action items (fst (snd s)) \<and> job_of_items de action items (snd (snd s)) q')))"

lemma outcome_other [simp]: "(\<And>p g t. reply \<noteq> Redirect_Note p g t) \<Longrightarrow> purge_outcome now de s (reply, d)"
  by (simp add: purge_outcome_def case_prod_beta)

lemma outcome_back [simp]: "part \<noteq> ''maintenance'' \<Longrightarrow> purge_outcome now de s (back_to part, d)"
  by (simp add: purge_outcome_def case_prod_beta back_to_def)

lemma purge_guarded:
  assumes "\<And>w. purge_outcome now de (w, snd s) (go (w, snd s))"
  shows "purge_outcome now de s (guarded_desk si rq go s)"
proof -
  obtain d w where f: "require_admin si rq (fst s) = (d, w)" by (rule prod.exhaust)
  show ?thesis
  proof (cases d)
    case None
    then show ?thesis using assms[of w] by (simp add: guarded_desk_def f purge_outcome_def)
  next
    case (Some reply)
    then show ?thesis using require_admin_reply[OF f[unfolded Some]] by (auto simp: guarded_desk_def f)
  qed
qed

lemma enqueue_params:
  assumes "enqueue_job now woke a params actor ex q = (Inr x, q')"
  shows "map jb_params (q_jobs q') = map jb_params (q_jobs q) @ [params]"
  using assms by (auto simp: enqueue_job_def Let_def note_failed_wake_def new_job_def split: if_splits)

lemma last_params: "map jb_params js = ps @ [p] \<Longrightarrow> jb_params (last js) = p"
  by (cases js rule: rev_cases) auto

lemma clean_again: "clean_nodes (clean_nodes ns) = clean_nodes ns"
proof -
  have "trimmed n \<and> n \<noteq> []" if "n \<in> set (clean_nodes ns)" for n using that by (auto simp: clean_nodes_def set_dedup_first trimmed_strip)
  then have "map strip (clean_nodes ns) = clean_nodes ns" "filter (\<lambda>n. n \<noteq> []) (clean_nodes ns) = clean_nodes ns"
    by (auto intro!: map_idI filter_True simp: strip_trimmed)
  then show ?thesis using distinct_dedup(1)[of ns] by (simp add: clean_nodes_def[of "clean_nodes ns"] dedup_first_distinct)
qed

lemma clean_items_again: "clean_items (clean_items items) = clean_items items"
proof (cases items)
  case (Machines ks)
  let ?c = "clean_pairs (map (\<lambda>(n, v). (strip n, strip v)) ks)"
  have *: "trimmed (fst p) \<and> trimmed (snd p) \<and> fst p \<noteq> [] \<and> snd p \<noteq> []" if "p \<in> set ?c" for p
    using that unfolding clean_pairs_def set_dedup_first by (auto simp: trimmed_strip)
  have "map (\<lambda>(n, v). (strip n, strip v)) ?c = ?c" using * by (intro map_idI) (simp add: case_prod_beta strip_trimmed)
  moreover have "filter (\<lambda>(node, vm). node \<noteq> [] \<and> vm \<noteq> []) ?c = ?c" using * by (intro filter_True) (simp add: case_prod_beta)
  ultimately have "clean_pairs (map (\<lambda>(n, v). (strip n, strip v)) ?c) = ?c"
    using distinct_dedup(2) by (simp add: clean_pairs_def[of ?c] dedup_first_distinct)
  then show ?thesis by (simp add: clean_items_def Machines)
qed (simp add: clean_items_def clean_again)

text \<open>The worker reads the items of the page.\<close>

lemma clean_text_str: "clean_text (PStr s) = strip s"
  by (simp add: clean_text_def py_or_def truthy_def py_str_def)

lemma selected_again:
  "selected_nodes (map PStr ns) = clean_nodes ns"
  "selected_vms (map vm_item ks) = clean_pairs (map (\<lambda>(n, v). (strip n, strip v)) ks)"
proof -
  show "selected_nodes (map PStr ns) = clean_nodes ns" by (simp add: selected_nodes_def clean_nodes_def comp_def clean_text_str)
  have "List.map_filter (\<lambda>v. case v of
      PDict d \<Rightarrow> (let n = clean_text (get_none d ''node''); u = clean_text (get_none d ''vm_uuid'') in
        if n \<noteq> [] \<and> u \<noteq> [] then Some (n, u) else None)
    | _ \<Rightarrow> None) (map vm_item ks) = filter (\<lambda>(node, vm). node \<noteq> [] \<and> vm \<noteq> []) (map (\<lambda>(n, v). (strip n, strip v)) ks)"
    by (induction ks) (auto simp: map_filter_simps vm_item_def get_none_def dget_def dget_or_def clean_text_str Let_def)
  then show "selected_vms (map vm_item ks) = clean_pairs (map (\<lambda>(n, v). (strip n, strip v)) ks)"
    by (simp add: selected_vms_def clean_pairs_def)
qed

lemma batch_read: "\<exists>b. purge_batch_size (dset (purge_parameters de items) ''requested_by'' v) = Inr b"
  by (cases items) (auto simp: purge_batch_size_def purge_parameters_def dset_def get_none_def dget_def dget_or_def py_or_def truthy_def strict_int_def safe_int_def)

lemma worker_reads:
  assumes f: "fits action items" and c: "clean_items items = items" and n: "targets items \<noteq> []"
  shows "\<exists>batch. transactional_purge ops action (dset (purge_parameters de items) ''requested_by'' v) = purge_selection ops action batch (targets items)"
proof -
  obtain b where b: "purge_batch_size (dset (purge_parameters de items) ''requested_by'' v) = Inr b" using batch_read by blast
  show ?thesis
  proof (cases items)
    case (Nodes ns)
    have "py_or (get_none (dset (purge_parameters de items) ''requested_by'' v) ''nodes'') (PList []) = PList (map PStr ns)"
      by (simp add: Nodes purge_parameters_def dset_def get_none_def dget_def dget_or_def py_or_def truthy_def)
    moreover have "clean_nodes ns = ns" using c by (simp add: Nodes clean_items_def)
    ultimately show ?thesis using f b unfolding transactional_purge_def
      by (auto simp: fits_def Nodes targets_def andthen_def selected_again)
  next
    case (Machines ks)
    have "py_or (get_none (dset (purge_parameters de items) ''requested_by'' v) ''vms'') (PList []) = PList (map vm_item ks)"
      by (simp add: Machines purge_parameters_def dset_def get_none_def dget_def dget_or_def py_or_def truthy_def)
    moreover have "clean_pairs (map (\<lambda>(n, v). (strip n, strip v)) ks) = ks" using c by (simp add: Machines clean_items_def)
    ultimately show ?thesis using f b unfolding transactional_purge_def
      by (auto simp: fits_def Machines targets_def andthen_def selected_again)
  qed
qed

lemma enqueue_batched:
  assumes e: "enqueue_batched_purge_jobs now de action items actor q = (x, q1)" and a: "lower (strip action) = action" and f: "fits action items"
  shows "case x of Inl _ \<Rightarrow> q1 = q
    | Inr (i, u, n) \<Rightarrow> targets (clean_items items) \<noteq> [] \<and> int (length (targets (clean_items items))) \<le> de_max de \<and> job_of_items de action (clean_items items) q q1"
proof -
  have f1: "fits action (clean_items items)" using f by (cases items) (auto simp: fits_def clean_items_def)
  have n: "items_count its = length (targets its)" for its by (cases its) (simp_all add: items_count_def targets_def)
  let ?p = "purge_parameters de (clean_items items)"
  have r: "dget ?p ''requested_by'' = None" by (cases "clean_items items") (simp_all add: purge_parameters_def dget_def)
  define v where "v = PStr (str_or actor ''admin'')"
  obtain y q2 where q2: "enqueue_job now (de_woke de) action (de_encode de (dset ?p ''requested_by'' v)) (str_or actor ''admin'')
      (action \<in> {''reset_app_data'', ''configuration_restore''}) q = (y, q2)" by fastforce
  have m: "enqueue_maintenance_job now (de_woke de) (de_encode de) action ?p actor q = (y, q2)"
    by (simp add: enqueue_maintenance_job_def r a q2[unfolded v_def] del: insert_iff)
  note j = actions_enqueue[OF q2]
  show ?thesis
  proof (cases y)
    case (Inl err)
    then show ?thesis using e j by (auto simp: enqueue_batched_purge_jobs_def Let_def a m n split: if_splits)
  next
    case (Inr iu)
    have "jb_params (last (q_jobs q2)) = de_encode de (dset ?p ''requested_by'' v)" by (rule last_params[OF enqueue_params[OF q2[unfolded Inr]]])
    moreover have "actions q2 = actions q @ [action]" using j by (simp add: Inr a)
    ultimately have "job_of_items de action (clean_items items) q q2" if "targets (clean_items items) \<noteq> []"
      unfolding job_of_items_def using worker_reads[OF f1 clean_items_again that] by blast
    then show ?thesis using e by (auto simp: enqueue_batched_purge_jobs_def Let_def a m n Inr split: if_splits prod.splits)
  qed
qed

lemma outcome_queue_purge:
  assumes f: "fits a items" "lower (strip a) = a" and b: "bk es1 = es" and h: "es1 = hide_items (rq_now rq) a (clean_items items) es"
  shows "purge_outcome (rq_now rq) de (w0, es, q) (queue_purge de si rq a items ev what msg dt bk (w, es1, q))"
proof -
  obtain se db where w: "w = (se, db)" by (rule prod.exhaust)
  obtain x q1 where e: "enqueue_batched_purge_jobs (rq_now rq) de a items (str_or (se_admin_user se) (dashboard_username se)) q = (x, q1)"
    by (rule prod.exhaust)
  note r = enqueue_batched[OF e f(2,1)]
  have f1: "fits a (clean_items items)" using f(1) by (cases items) (auto simp: fits_def clean_items_def)
  show ?thesis
  proof (cases x)
    case (Inl err)
    then show ?thesis using r b by (auto simp: queue_purge_def w e Let_def notice_def purge_outcome_def)
  next
    case (Inr iun)
    obtain i u n where iun: "iun = (i, u, n)" by (rule prod_cases3)
    have "fits a (clean_items items) \<and> clean_items (clean_items items) = clean_items items \<and> targets (clean_items items) \<noteq> []
        \<and> int (length (targets (clean_items items))) \<le> de_max de \<and> es1 = hide_items (rq_now rq) a (clean_items items) es
        \<and> job_of_items de a (clean_items items) q q1"
      using r f1 h by (simp add: Inr iun clean_items_again)
    then show ?thesis by (auto simp: queue_purge_def w e Let_def notice_def purge_outcome_def Inr iun)
  qed
qed

lemma purge_names: "lower (strip ''purge_vms'') = ''purge_vms''" "lower (strip ''purge_nodes'') = ''purge_nodes''"
  "lower (strip ''purge_node_vms'') = ''purge_node_vms''"
  by code_simp+

lemma clean_one: "n \<noteq> [] \<Longrightarrow> trimmed n \<Longrightarrow> clean_items (Nodes [n]) = Nodes [n]"
  "n \<noteq> [] \<Longrightarrow> v \<noteq> [] \<Longrightarrow> trimmed n \<Longrightarrow> trimmed v \<Longrightarrow> clean_items (Machines [(n, v)]) = Machines [(n, v)]"
  by (simp_all add: clean_items_def clean_nodes_def clean_pairs_def strip_trimmed)

lemma purge_if: "(c \<Longrightarrow> purge_outcome now de s x) \<Longrightarrow> (\<not> c \<Longrightarrow> purge_outcome now de s y) \<Longrightarrow> purge_outcome now de s (if c then x else y)"
  by simp

lemma purge_write: "(\<And>p g t. good \<noteq> Redirect_Note p g t) \<Longrightarrow> purge_outcome now de s (after_write good (inventory_write de b f s))"
  by (auto simp: after_write_def inventory_write_def case_prod_beta Let_def purge_outcome_def)

abbreviation outcomes :: "desk_env \<Rightarrow> request \<Rightarrow> (desk \<Rightarrow> response \<times> desk) \<Rightarrow> bool" where
  "outcomes de rq page \<equiv> \<forall>w es q. estate_ok es \<longrightarrow> purge_outcome (rq_now rq) de (w, es, q) (page (w, es, q))"

lemma outcomes_guarded: "outcomes de rq go \<Longrightarrow> outcomes de rq (guarded_desk si rq go)"
  by (intro allI impI purge_guarded) (unfold snd_conv, blast)

lemma outcomes_base_vm: "outcomes de rq (base_delete_vm de si rq)"
  unfolding base_delete_vm_def
proof (rule outcomes_guarded, intro allI impI, unfold prod.case Let_def, intro purge_if, goal_cases)
  case (2 w es q)
  show ?case unfolding purge_one_vm_def Let_def prod.case
    by (rule outcome_queue_purge) (use 2 in \<open>simp_all add: fits_def purge_names one_back hide_items_def clean_one trimmed_strip\<close>)
qed simp_all

lemma outcomes_delete_vm: "outcomes de rq (admin_delete_vm de si rq)"
  unfolding admin_delete_vm_def
proof (rule outcomes_guarded, intro allI impI, unfold Let_def, intro purge_if, goal_cases)
  case (1 w es q)
  then show ?case using outcomes_base_vm by blast
next
  case (3 w es q)
  show ?case by (rule purge_write) simp
qed simp

lemma outcomes_base_node: "outcomes de rq (base_delete_node de si rq)"
  unfolding base_delete_node_def
proof (rule outcomes_guarded, intro allI impI, unfold prod.case Let_def, intro purge_if, goal_cases)
  case (2 w es q)
  show ?case unfolding purge_one_node_def Let_def prod.case
    by (rule outcome_queue_purge) (use 2 in \<open>simp_all add: fits_def purge_names one_back hide_items_def clean_one trimmed_strip\<close>)
qed simp_all

lemma outcomes_delete_node: "outcomes de rq (admin_delete_node de si rq)"
  unfolding admin_delete_node_def
proof (rule outcomes_guarded, intro allI impI, unfold Let_def, intro purge_if, goal_cases)
  case (1 w es q)
  then show ?case using outcomes_base_node by blast
next
  case (3 w es q)
  show ?case by (rule purge_write) simp
qed simp

lemma outcomes_restore: "outcomes de rq (admin_restore_vm de si rq)" "outcomes de rq (admin_restore_node de si rq)"
  unfolding admin_restore_vm_def admin_restore_node_def
  by (rule outcomes_guarded, intro allI impI, unfold Let_def, intro purge_if purge_write; simp)+

lemma outcomes_purge_node_vms: "outcomes de rq (admin_purge_node_vms de si rq)"
  unfolding admin_purge_node_vms_def
proof (rule outcomes_guarded, intro allI impI, unfold prod.case Let_def, intro purge_if, goal_cases)
  case (2 w es q)
  show ?case
    by (rule outcome_queue_purge) (use 2 in \<open>simp_all add: fits_def purge_names filtered_back hide_items_def clean_one trimmed_strip\<close>)
qed simp

lemma outcome_logged: "(\<And>p g t. good \<noteq> Redirect_Note p g t) \<Longrightarrow> purge_outcome now de s (case inventory_write de b f s of (Some busy, s1) \<Rightarrow> (busy, s1)
    | (None, (se, db), es, q) \<Rightarrow> (good, lg se db, es, q))"
  by (auto simp: inventory_write_def case_prod_beta Let_def purge_outcome_def)

lemma outcomes_bulk_nodes: "outcomes de rq (inventory_bulk_nodes de si rq)"
proof -
  have p: "purge_outcome (rq_now rq) de (w, es, q) (purge_bulk_nodes de si rq (clean_nodes ns) action (w, es, q))"
    if "estate_ok es" for w es q ns action
    unfolding purge_bulk_nodes_def Let_def prod.case
    by (intro purge_if; rule outcome_queue_purge)
      (use that in \<open>simp_all add: fits_def purge_names fold_hide filtered_back hide_items_def clean_items_def clean_again\<close>)
  have b: "outcomes de rq (base_bulk_nodes de si rq)" unfolding base_bulk_nodes_def
    by (rule outcomes_guarded, intro allI impI, unfold Let_def, intro purge_if p) simp_all
  show ?thesis unfolding inventory_bulk_nodes_def Let_def
  proof (intro allI impI purge_if, goal_cases)
    case (1 w es q)
    then show ?case using b by blast
  next
    case (2 w es q)
    show ?case by (rule purge_guarded, intro purge_if outcome_logged) simp_all
  qed
qed

lemma outcomes_bulk_vms: "outcomes de rq (admin_bulk_vms de si rq)"
proof -
  have c: "clean_items (Machines (clean_pairs (List.map_filter vm_value vs))) = Machines (clean_pairs (List.map_filter vm_value vs))" for vs
  proof -
    have "trimmed (fst p) \<and> trimmed (snd p)" if "vm_value v = Some p" for v p
      using that by (auto simp: vm_value_def Let_def trimmed_strip split: if_splits)
    then have "trimmed (fst p) \<and> trimmed (snd p)" if "p \<in> set (List.map_filter vm_value vs)" for p
      using that by (auto simp: List.map_filter_def)
    then have "map (\<lambda>(n, v). (strip n, strip v)) (List.map_filter vm_value vs) = List.map_filter vm_value vs"
      by (intro map_idI) (simp add: case_prod_beta strip_trimmed)
    then show ?thesis using clean_items_again[of "Machines (List.map_filter vm_value vs)"] by (simp add: clean_items_def)
  qed
  have p: "purge_outcome (rq_now rq) de (w, es, q) (purge_bulk_vms de si rq (clean_pairs (List.map_filter vm_value vs)) (w, es, q))"
    if "estate_ok es" for w es q vs
    unfolding purge_bulk_vms_def Let_def prod.case
    by (rule outcome_queue_purge) (use that in \<open>simp_all add: fits_def purge_names fold_hide picked_back hide_items_def c\<close>)
  have b: "outcomes de rq (base_bulk_vms de si rq)" unfolding base_bulk_vms_def
    by (rule outcomes_guarded, intro allI impI, unfold Let_def, intro purge_if p) simp_all
  show ?thesis unfolding admin_bulk_vms_def Let_def
  proof (intro allI impI purge_if, goal_cases)
    case (1 w es q)
    then show ?case using b by blast
  next
    case (2 w es q)
    show ?case by (rule purge_guarded, intro purge_if outcome_logged) simp_all
  qed
qed

text \<open>The pages of the groups answer neither with a refusal nor for the queue.\<close>

lemma outcome_assign:
  "(\<And>ta. \<exists>part t. good ta = Redirect_Note part True t \<and> part \<noteq> ''maintenance'') \<Longrightarrow> purge_outcome now de s (assign_nodes si rq ns gid good s')"
proof -
  assume g: "\<And>ta. \<exists>part t. good ta = Redirect_Note part True t \<and> part \<noteq> ''maintenance''"
  have "purge_outcome now de s (good ta, d)" for ta d using g[of ta] by (auto simp: purge_outcome_def case_prod_beta)
  then show ?thesis by (auto simp: assign_nodes_def Let_def case_prod_beta split: sum.split prod.split)
qed

lemma outcomes_groups:
  "outcomes de rq (admin_node_groups_create de si rq)" "outcomes de rq (admin_node_groups_update de si rq)"
  "outcomes de rq (admin_node_groups_action si rq)" "outcomes de rq (admin_node_groups_assign si rq)"
  "outcomes de rq (admin_node_groups_bulk matching si rq)"
proof -
  show "outcomes de rq (admin_node_groups_create de si rq)" unfolding admin_node_groups_create_def
    by (rule outcomes_guarded) (auto simp: Let_def split: option.split prod.split)
  show "outcomes de rq (admin_node_groups_update de si rq)" unfolding admin_node_groups_update_def
    by (rule outcomes_guarded) (auto simp: Let_def split: option.split)
  have a: "purge_outcome now de s (reply, d)" if "act_on_group t action actor row es = Inl reply" for now s t action actor row es reply d
    using that by (auto simp: act_on_group_def Let_def split: if_splits)
  show "outcomes de rq (admin_node_groups_action si rq)" unfolding admin_node_groups_action_def
    by (rule outcomes_guarded) (auto simp: Let_def a split: option.split sum.split)
  show "outcomes de rq (admin_node_groups_assign si rq)" unfolding admin_node_groups_assign_def
    by (rule outcomes_guarded) (auto simp: Let_def back_to_def intro!: outcome_assign)
  define go where "go = assign_nodes si rq"
  have g: "purge_outcome now de s (go ns gid (\<lambda>ta. Redirect_Note ''nodes'' True (f ta)) s')" for now s ns gid f s'
    unfolding go_def by (rule outcome_assign) simp
  show "outcomes de rq (admin_node_groups_bulk matching si rq)" unfolding admin_node_groups_bulk_def go_def[symmetric]
    by (rule outcomes_guarded) (auto simp: Let_def case_prod_beta g split: option.split)
qed

lemma purge_pages: "estate_ok es \<Longrightarrow> purge_outcome (rq_now rq) de (w, es, q) (desk_page matching de si rq (w, es, q))"
proof -
  assume ok: "estate_ok es"
  note pages = outcomes_delete_vm outcomes_restore outcomes_delete_node outcomes_purge_node_vms outcomes_bulk_vms outcomes_bulk_nodes outcomes_groups
  note p = pages[THEN spec, THEN spec, THEN spec, THEN mp, OF ok]
  show ?thesis unfolding desk_page_def Let_def admin_bulk_nodes_def by (simp add: p)
qed

end
