(* ===== verification/Estate_Claims.thy ===== *)
theory Estate_Claims
  imports Estate_Safety Account_Claims
begin

text \<open>
  The properties of the inventory and the groups: one system group and one group per node, what an
  assignment moves, a hidden group that comes back, purges that are refused and purges that reach
  the worker, and what a push shows; each applied to an installation with two nodes.
\<close>

section \<open>What an assignment does\<close>

lemma group_of_put: "group_of n (put_member m es) = (if n = mb_node m then row_of gr_id (mb_group m) (es_groups es) else group_of n es)"
  using row_of_upsert[OF keeps_member, of n m "es_members es"]
  by (auto simp: group_of_def put_member_def merge_member_def split: option.splits simp del: upsert.simps)

lemma group_of_audit [simp]: "group_of n (audit_membership now e a m x y es) = group_of n es"
  by (simp add: group_of_def split: option.split)

lemma known_fields: "es_nodes a = es_nodes b \<Longrightarrow> known_node n a = known_node n b"
  by (simp add: known_node_def)

definition moved_nodes :: "node_group \<Rightarrow> string list \<Rightarrow> estate \<Rightarrow> string list" where
  "moved_nodes target ns es = filter (\<lambda>n. known_node n es \<and> map_option gr_id (group_of n es) \<noteq> Some (gr_id target)) ns"

definition summed :: "tally \<Rightarrow> bool" where
  "summed ta \<longleftrightarrow> ta_changed ta = ta_assigned ta + ta_moved ta + ta_removed ta"

definition change_of :: "group_event \<Rightarrow> string \<times> (int \<times> string) option \<times> (int \<times> string) option" where
  "change_of e = (ge_node e, ge_old e, ge_new e)"

lemma assign_one_effect:
  assumes t: "row_of gr_id (gr_id target) (es_groups es) = Some target" and go: "assign_one now actor target sid n (ta, es) = (ta1, es1)" and s: "summed ta"
  shows "group_of m es1 = (if m = n \<and> known_node n es then Some target else group_of m es)" (is ?g)
    "map change_of (es_history es1) = map change_of (es_history es) @ map (\<lambda>n. (n, map_option group_name (group_of n es), Some (group_name target))) (moved_nodes target [n] es)" (is ?h)
    "ta_changed ta1 = ta_changed ta + length (moved_nodes target [n] es)" (is ?c)
    "summed ta1" (is ?s)
    "es_groups es1 = es_groups es" "es_nodes es1 = es_nodes es"
proof -
  have same: "group_of n es = Some target" if i: "map_option gr_id (group_of n es) = Some (gr_id target)"
  proof -
    obtain g where g: "group_of n es = Some g" "gr_id g = gr_id target" using i by auto
    then obtain k where k: "row_of gr_id k (es_groups es) = Some g" by (auto simp: group_of_def split: option.splits)
    then have "k = gr_id target" using row_of_in[OF k] g(2) by simp
    then show ?thesis using k t g(1) by simp
  qed
  show "es_groups es1 = es_groups es" "es_nodes es1 = es_nodes es"
    using assign_one_fields[of now actor target sid n "(ta, es)"] by (simp_all add: go)
  let ?moves = "known_node n es \<and> map_option gr_id (group_of n es) \<noteq> Some (gr_id target)"
  have "?g \<and> ?h \<and> ?c \<and> ?s"
  proof (cases ?moves)
    case True
    let ?put = "put_member \<lparr>mb_node = n, mb_group = gr_id target, mb_at = now, mb_by = take 128 actor\<rparr> es"
    obtain ev where e: "es1 = audit_membership now ev (take 128 actor) n (map_option group_name (group_of n es)) (Some (group_name target)) ?put"
      using go True by (auto simp: assign_one_def Let_def split: if_splits)
    have ta: "ta_changed ta1 = ta_changed ta + 1" "summed ta1" using go True s by (auto simp: assign_one_def Let_def summed_def split: if_splits)
    have h: "es_history es1 = es_history es @ [\<lparr>ge_event = ev, ge_actor = take 128 actor, ge_node = n, ge_old = map_option group_name (group_of n es),
        ge_new = Some (group_name target), ge_at = now\<rparr>]"
      unfolding e by (simp add: audit_membership_def put_member_def)
    have "group_of m es1 = (if m = n then Some target else group_of m es)" unfolding e by (simp add: group_of_put t)
    then show ?thesis using True ta by (simp add: h moved_nodes_def change_of_def)
  next
    case False
    then have "ta1 = ta \<and> es1 = es" using go by (auto simp: assign_one_def Let_def split: if_splits)
    moreover have "moved_nodes target [n] es = []" using False by (auto simp: moved_nodes_def)
    ultimately show ?thesis using False same s by auto
  qed
  then show ?g ?h ?c ?s by blast+
qed

lemma assign_fold_effect:
  assumes "row_of gr_id (gr_id target) (es_groups es) = Some target" "fold (assign_one now actor target sid) ns (ta, es) = (ta1, es1)" "summed ta" "distinct ns"
  shows "(\<forall>m. group_of m es1 = (if m \<in> set ns \<and> known_node m es then Some target else group_of m es))
    \<and> map change_of (es_history es1) = map change_of (es_history es) @ map (\<lambda>n. (n, map_option group_name (group_of n es), Some (group_name target))) (moved_nodes target ns es)
    \<and> ta_changed ta1 = ta_changed ta + length (moved_nodes target ns es) \<and> summed ta1 \<and> es_groups es1 = es_groups es \<and> es_nodes es1 = es_nodes es"
  using assms
proof (induction ns arbitrary: ta es)
  case (Cons n ns)
  obtain ta' es' where one: "assign_one now actor target sid n (ta, es) = (ta', es')" by (rule prod.exhaust)
  note e = assign_one_effect[OF Cons.prems(1) one Cons.prems(3)]
  have rest: "fold (assign_one now actor target sid) ns (ta', es') = (ta1, es1)" using Cons.prems(2) one by simp
  have t': "row_of gr_id (gr_id target) (es_groups es') = Some target" using Cons.prems(1) e(5) by simp
  have k: "known_node m es' = known_node m es" for m by (rule known_fields[OF e(6)])
  have g: "group_of m es' = group_of m es" if "m \<in> set ns" for m using e(1)[of m] that Cons.prems(4) by auto
  have "filter (\<lambda>n. known_node n es \<and> map_option gr_id (group_of n es') \<noteq> Some (gr_id target)) ns
      = filter (\<lambda>n. known_node n es \<and> map_option gr_id (group_of n es) \<noteq> Some (gr_id target)) ns"
    by (rule filter_cong) (simp_all add: g)
  then have m: "moved_nodes target ns es' = moved_nodes target ns es" by (simp add: moved_nodes_def k)
  have h: "map (\<lambda>n. (n, map_option group_name (group_of n es'), Some (group_name target))) (moved_nodes target ns es)
      = map (\<lambda>n. (n, map_option group_name (group_of n es), Some (group_name target))) (moved_nodes target ns es)"
    by (rule map_cong) (auto simp: moved_nodes_def g)
  have c: "moved_nodes target (n # ns) es = moved_nodes target [n] es @ moved_nodes target ns es" by (simp add: moved_nodes_def)
  have d: "distinct ns" using Cons.prems(4) by simp
  note ih = Cons.IH[OF t' rest e(4) d]
  have hist: "map change_of (es_history es1) = map change_of (es_history es)
      @ map (\<lambda>n. (n, map_option group_name (group_of n es), Some (group_name target))) (moved_nodes target (n # ns) es)"
    using ih unfolding m h e(2) c by simp
  have "ta_changed ta1 = ta_changed ta + length (moved_nodes target (n # ns) es)" using ih unfolding m e(3) c by simp
  moreover have "group_of m es1 = (if m \<in> set (n # ns) \<and> known_node m es then Some target else group_of m es)" for m
    using ih e(1)[of m] k[of m] by auto
  ultimately show ?case using hist ih e(5,6) by simp
qed (simp add: moved_nodes_def)

text \<open>C23. Assigning nodes to an active group puts exactly the known nodes of the list into it and leaves every other node
where it was; the answer counts the nodes that changed their group, each as assigned, moved or removed, and the history gets
one row for each of them with the group it left and the group it came to.\<close>

theorem assign_moves_exactly:
  assumes m: "managed es" and go: "assign_rows now (clean_nodes nodes) gid actor es = (Inr (ta, target), es1)"
  shows "gr_id target = gid \<and> gr_active target
    \<and> (\<forall>n. group_of n es1 = (if n \<in> set (clean_nodes nodes) \<and> known_node n es then Some target else group_of n es))
    \<and> ta_changed ta = ta_assigned ta + ta_moved ta + ta_removed ta
    \<and> ta_changed ta = length (moved_nodes target (clean_nodes nodes) es)
    \<and> map change_of (es_history es1) = map change_of (es_history es)
        @ map (\<lambda>n. (n, map_option group_name (group_of n es), Some (group_name target))) (moved_nodes target (clean_nodes nodes) es)"
proof -
  note ok = managed_ok[OF m]
  obtain s where s: "system_group_id now es = (Some (gr_id s), es)" "s \<in> set (es_groups es)" "gr_system s" "gr_active s"
    by (rule system_found[OF estate_okD(1)[OF ok], of now])
  obtain t where t: "row_of gr_id gid (es_groups es) = Some t" "gr_active t"
    using go by (auto simp: assign_rows_def split: option.splits if_splits)
  obtain ta' es' where f: "fold (assign_one now actor t (gr_id s)) (clean_nodes nodes) (no_tally, es) = (ta', es')" by (rule prod.exhaust)
  have eq: "t = target" "ta' = ta" "es' = es1" using go t by (simp_all add: assign_rows_def s f)
  have gid: "gr_id target = gid" using row_of_in[OF t(1)] eq by simp
  have z: "summed no_tally" "ta_changed no_tally = 0" by (simp_all add: summed_def no_tally_def)
  note e = assign_fold_effect[OF _ f[unfolded eq] z(1) distinct_dedup(1)]
  show ?thesis using e t gid z(2) unfolding eq summed_def by simp
qed

section \<open>Groups and visibility\<close>

text \<open>C19. In every history of an installation there is one system group, active and with its name, and every node of the
inventory belongs to exactly one existing group; no other name has a membership.\<close>

theorem every_node_in_one_group:
  assumes m: "managed es"
  shows "(\<exists>!s. s \<in> set (es_groups es) \<and> gr_system s) \<and> (\<forall>s \<in> set (es_groups es). gr_system s \<longrightarrow> gr_active s \<and> gr_name s = SYSTEM_GROUP_NAME)
    \<and> distinct (map gr_id (es_groups es)) \<and> distinct (map mb_node (es_members es))
    \<and> (\<forall>n. known_node n es \<longleftrightarrow> n \<in> mb_node ` set (es_members es)) \<and> (\<forall>n. known_node n es \<longrightarrow> (\<exists>g \<in> set (es_groups es). group_of n es = Some g))"
proof -
  note ok = managed_ok[OF m]
  note d = estate_okD[OF ok]
  have "(\<exists>!s. s \<in> set (es_groups es) \<and> gr_system s) \<and> (\<forall>s \<in> set (es_groups es). gr_system s \<longrightarrow> gr_active s \<and> gr_name s = SYSTEM_GROUP_NAME)"
    using d(10) unfolding one_system_def by metis
  then show ?thesis using d(2,3,7) group_of_known[OF ok] by (simp add: known_node_iff)
qed

lemma group_of_iff:
  assumes ok: "estate_ok es"
  shows "(\<exists>m \<in> set (es_members es). mb_node m = n \<and> (\<exists>g \<in> set (es_groups es). gr_id g = mb_group m \<and> P g)) \<longleftrightarrow> (\<exists>g. group_of n es = Some g \<and> P g)"
proof -
  note d = estate_okD[OF ok]
  have m: "row_of mb_node n (es_members es) = Some m" if "m \<in> set (es_members es)" "mb_node m = n" for m
    using row_of_distinct[OF d(2) that(1)] that(2) by simp
  have g: "row_of gr_id k (es_groups es) = Some g" if "g \<in> set (es_groups es)" "gr_id g = k" for g k
    using row_of_distinct[OF d(7) that(1)] that(2) by simp
  show ?thesis
  proof
    assume "\<exists>m \<in> set (es_members es). mb_node m = n \<and> (\<exists>g \<in> set (es_groups es). gr_id g = mb_group m \<and> P g)"
    then show "\<exists>g. group_of n es = Some g \<and> P g" using m g by (auto simp: group_of_def)
  next
    assume "\<exists>g. group_of n es = Some g \<and> P g"
    then obtain h k where k: "row_of mb_node n (es_members es) = Some k" "row_of gr_id (mb_group k) (es_groups es) = Some h" "P h"
      by (auto simp: group_of_def split: option.splits)
    then show "\<exists>m \<in> set (es_members es). mb_node m = n \<and> (\<exists>g \<in> set (es_groups es). gr_id g = mb_group m \<and> P g)"
      using row_of_in[OF k(1)] row_of_in[OF k(2)] by blast
  qed
qed

lemma visible_iff:
  assumes ok: "estate_ok es"
  shows "n \<in> set (effective_visible_nodes gid es) \<longleftrightarrow>
    (\<exists>r. row_of nd_node n (es_nodes es) = Some r \<and> shown_row r) \<and> (\<exists>g. group_of n es = Some g \<and> gr_active g \<and> (0 < gid \<longrightarrow> gr_id g = gid))"
proof -
  have r: "(\<exists>r \<in> set (es_nodes es). nd_node r = n \<and> P r) \<longleftrightarrow> (\<exists>r. row_of nd_node n (es_nodes es) = Some r \<and> P r)" for P
    using row_of_distinct[OF estate_okD(5)[OF ok]] row_of_in[of nd_node n "es_nodes es"] by metis
  have "n \<in> set (effective_visible_nodes gid es) \<longleftrightarrow> (\<exists>r \<in> set (es_nodes es). nd_node r = n \<and> shown_row r
      \<and> (\<exists>m \<in> set (es_members es). mb_node m = n \<and> (\<exists>g \<in> set (es_groups es). gr_id g = mb_group m \<and> gr_active g \<and> (0 < gid \<longrightarrow> gr_id g = gid))))"
    unfolding effective_visible_nodes_def by (auto simp: list_ex_iff)
  then show ?thesis unfolding group_of_iff[OF ok] r by blast
qed

text \<open>The tables after a page has hidden, or restored, a group.\<close>

lemma action_effect:
  assumes ok: "estate_ok es" and go: "admin_node_groups_action si rq (w, es, q) = (back_to ''groups'', w', es', q')"
    and a: "lower (strip (form rq ''action'')) = action" "action \<in> {''hide'', ''restore''}" and gid: "safe_int (PStr (form rq ''group_id'')) 0 = gid"
  shows "es_nodes es' = es_nodes es \<and> es_vms es' = es_vms es \<and> es_members es' = es_members es \<and> q' = q
    \<and> es_groups es' = update_where (\<lambda>g. gr_id g = gid) (\<lambda>g. g\<lparr>gr_active := (action = ''restore''),
        gr_hidden_at := (if action = ''hide'' then Some (rq_now rq) else None), gr_updated := rq_now rq\<rparr>) (es_groups es)
    \<and> (\<exists>row \<in> set (es_groups es). gr_id row = gid \<and> \<not> gr_system row)"
proof -
  obtain d w1 where f: "require_admin si rq w = (d, w1)" by (rule prod.exhaust)
  have d: "d = None"
  proof (cases d)
    case (Some r)
    then have "r = Redirect_Note ''groups'' True []" using go by (simp add: admin_node_groups_action_def guarded_desk_def f back_to_def)
    then show ?thesis using require_admin_reply[OF f[unfolded Some]] by blast
  qed
  note g = go[unfolded admin_node_groups_action_def guarded_desk_def fst_conv snd_conv f d prod.case option.case Let_def a(1) gid]
  obtain row where row: "group_row gid True es = Some row" using g by (cases "group_row gid True es") (auto simp: back_to_def)
  have nsys: "\<not> gr_system row" using g row by (auto simp: back_to_def split: if_splits)
  have mem: "row \<in> set (es_groups es)" "gr_id row = gid" using group_row_mem[OF row] by auto
  let ?ev = "if action = ''hide'' then ''node_group_hidden'' else ''node_group_restored''"
  define es1 where "es1 = audit_membership (rq_now rq) ?ev (desk_actor (fst w1)) [] (Some (group_name row)) (Some (group_name row))
    (es\<lparr>es_groups := update_where (\<lambda>g. gr_id g = gid) (\<lambda>g. g\<lparr>gr_active := (action = ''restore''),
       gr_hidden_at := (if action = ''hide'' then Some (rq_now rq) else None), gr_updated := rq_now rq\<rparr>) (es_groups es)\<rparr>)"
  have two: "act_on_group (rq_now rq) action (desk_actor (fst w1)) row es = Inr (?ev, es1)"
    using a(2) unfolding es1_def by (elim insertE emptyE) (simp_all add: act_on_group_def Let_def mem)
  have "action \<in> {''hide'', ''restore'', ''delete''}" using a(2) by blast
  then have "es' = es1 \<and> q' = q" using g[unfolded row option.case two sum.case prod.case] nsys by simp
  then show ?thesis unfolding es1_def using nsys mem by auto
qed

lemma group_of_updated:
  assumes "es_members es' = es_members es" "es_groups es' = update_where (\<lambda>g. gr_id g = gid) f (es_groups es)" "\<And>g. gr_id (f g) = gr_id g"
  shows "group_of n es' = map_option (\<lambda>g. if gr_id g = gid then f g else g) (group_of n es)"
proof -
  have "row_of gr_id k (update_where P f gs) = map_option (\<lambda>g. if P g then f g else g) (row_of gr_id k gs)" for k P gs
    by (induction gs) (auto simp: update_where_def assms(3))
  then show ?thesis by (simp add: group_of_def assms(1,2) split: option.split)
qed

lemma action_visible:
  assumes m: "managed es" "managed es'" and go: "admin_node_groups_action si rq (w, es, q) = (back_to ''groups'', w', es', q')"
    and a: "lower (strip (form rq ''action'')) = action" "action \<in> {''hide'', ''restore''}" and gid: "safe_int (PStr (form rq ''group_id'')) 0 = gid"
  shows "n \<in> set (effective_visible_nodes 0 es') \<longleftrightarrow> (\<exists>r. row_of nd_node n (es_nodes es) = Some r \<and> shown_row r)
    \<and> (\<exists>g. group_of n es = Some g \<and> (if gr_id g = gid then action = ''restore'' else gr_active g))"
proof -
  note e = action_effect[OF managed_ok[OF m(1)] go a gid]
  note g = group_of_updated[OF conjunct1[OF conjunct2[OF conjunct2[OF e]]] conjunct1[OF conjunct2[OF conjunct2[OF conjunct2[OF conjunct2[OF e]]]]]]
  have "(\<exists>g. group_of n es' = Some g \<and> gr_active g) \<longleftrightarrow> (\<exists>g. group_of n es = Some g \<and> (if gr_id g = gid then action = ''restore'' else gr_active g))"
    by (cases "group_of n es") (simp_all add: g)
  then show ?thesis unfolding visible_iff[OF managed_ok[OF m(2)]] using e by simp
qed

text \<open>C24. Hiding a group takes exactly its nodes off the monitoring pages, and changes no node, machine or membership;
restoring it later brings back exactly what was shown before, if it was shown before.\<close>

theorem hidden_group_comes_back:
  assumes m: "managed es" and active: "row_of gr_id gid (es_groups es) = Some g" "gr_active g"
    and hide: "admin_node_groups_action si rq (w, es, q) = (back_to ''groups'', w1, es1, q1)"
      "lower (strip (form rq ''action'')) = ''hide''" "safe_int (PStr (form rq ''group_id'')) 0 = gid" "rq_endpoint rq = ''admin_node_groups_action''"
    and restore: "admin_node_groups_action si rq' (w', es1, q') = (back_to ''groups'', w2, es2, q2)"
      "lower (strip (form rq' ''action'')) = ''restore''" "safe_int (PStr (form rq' ''group_id'')) 0 = gid" "rq_endpoint rq' = ''admin_node_groups_action''"
  shows "set (effective_visible_nodes 0 es1) = set (effective_visible_nodes 0 es) - {n. map_option gr_id (group_of n es) = Some gid}
    \<and> set (effective_visible_nodes 0 es2) = set (effective_visible_nodes 0 es)
    \<and> es_nodes es2 = es_nodes es \<and> es_vms es2 = es_vms es \<and> es_members es2 = es_members es"
proof -
  have "desk_page matching de si rq (w, es, q) = (back_to ''groups'', w1, es1, q1)" for matching de by (simp add: desk_page_def hide)
  note m1 = managed.page[OF m this]
  have "desk_page matching de si rq' (w', es1, q') = (back_to ''groups'', w2, es2, q2)" for matching de by (simp add: desk_page_def restore)
  note m2 = managed.page[OF m1 this]
  note e1 = action_effect[OF managed_ok[OF m] hide(1,2) _ hide(3), simplified] and e2 = action_effect[OF managed_ok[OF m1] restore(1,2) _ restore(3), simplified]
  have g1: "group_of n es1 = map_option (\<lambda>g. if gr_id g = gid then g\<lparr>gr_active := False, gr_hidden_at := Some (rq_now rq), gr_updated := rq_now rq\<rparr> else g) (group_of n es)" for n
    by (rule group_of_updated) (use e1 in simp_all)
  have act: "gr_active h" if "group_of n es = Some h" "gr_id h = gid" for n h
  proof -
    obtain k where "row_of gr_id k (es_groups es) = Some h" using \<open>group_of n es = Some h\<close> by (auto simp: group_of_def split: option.splits)
    then show ?thesis using row_of_in[of gr_id k "es_groups es" h] that(2) active by simp
  qed
  have "n \<in> set (effective_visible_nodes 0 es1) \<longleftrightarrow> n \<in> set (effective_visible_nodes 0 es) \<and> map_option gr_id (group_of n es) \<noteq> Some gid" for n
    unfolding action_visible[OF m m1 hide(1,2) _ hide(3), simplified] visible_iff[OF managed_ok[OF m]] by auto
  moreover have "n \<in> set (effective_visible_nodes 0 es2) \<longleftrightarrow> n \<in> set (effective_visible_nodes 0 es)" for n
    unfolding action_visible[OF m1 m2 restore(1,2) _ restore(3), simplified] visible_iff[OF managed_ok[OF m]]
    using e1 act[of n] by (cases "group_of n es") (auto simp: g1)
  ultimately show ?thesis using e1 e2 by auto
qed

section \<open>Purges\<close>

text \<open>C20. When a page cannot do what was asked and says so on the operations page (the database is locked, a selection is too
large, the job of a purge was refused), the inventory and the groups are exactly what they were before, although a purge
hides its rows first, and no job was added.\<close>

theorem refused_purge_restores:
  assumes "managed es" "desk_page matching de si rq (w, es, q) = (Redirect_Note part False text, w', es', q')"
  shows "es' = es \<and> q_jobs q' = q_jobs q"
  using purge_pages[OF managed_ok[OF assms(1)], of rq de w q matching si] assms(2) by (simp add: purge_outcome_def)

text \<open>C21. When a page answers that a purge is queued, one job was added, the rows it hid are exactly those of the items
(between one and the maximum, without repetitions), and from the parameters of the job the worker reads exactly these items.\<close>

theorem queued_purge_reaches_worker:
  assumes "managed es" "desk_page matching de si rq (w, es, q) = (Redirect_Note ''maintenance'' True text, w', es', q')"
  shows "\<exists>action items params. fits action items \<and> clean_items items = items \<and> 1 \<le> length (targets items) \<and> int (length (targets items)) \<le> de_max de
    \<and> es' = hide_items (rq_now rq) action items es \<and> actions q' = actions q @ [action] \<and> jb_params (last (q_jobs q')) = de_encode de params
    \<and> (\<forall>ops. \<exists>batch. transactional_purge ops action params = purge_selection ops action batch (targets items))"
proof -
  obtain action items where i: "fits action items" "clean_items items = items" "targets items \<noteq> []" "int (length (targets items)) \<le> de_max de"
      "es' = hide_items (rq_now rq) action items es" "job_of_items de action items q q'"
    using purge_pages[OF managed_ok[OF assms(1)], of rq de w q matching si] assms(2) by (auto simp: purge_outcome_def)
  have "1 \<le> length (targets items)" using i(3) by (cases "targets items") simp_all
  then show ?thesis using i unfolding job_of_items_def by blast
qed

lemma purged_machines: "es_vms (fold purge_vm ks es) = filter (\<lambda>r. vi_uuid r \<notin> (strip \<circ> snd) ` set ks) (es_vms es)"
  by (induction ks arbitrary: es) (auto simp: purge_vm_def intro: filter_cong)

text \<open>C22. The purge of a machine hides the selected row only, but its job deletes every row of the uuid: what another node has of
the machine is still listed after the page, and gone after the job.\<close>

theorem purge_takes_other_copies:
  assumes "managed es" "desk_page matching de si rq (w, es, q) = (Redirect_Note ''maintenance'' True text, w', es', q')"
    and "actions q' = actions q @ [''purge_vms'']"
  shows "\<exists>ks params. jb_params (last (q_jobs q')) = de_encode de params \<and> ks \<noteq> []
    \<and> (\<forall>ops. \<exists>batch. transactional_purge ops ''purge_vms'' params = purge_selection ops ''purge_vms'' batch ks)
    \<and> (\<forall>r \<in> set (es_vms es). vm_key r \<notin> set ks \<longrightarrow> r \<in> set (es_vms es'))
    \<and> (\<forall>r \<in> set (es_vms (fold purge_vm ks es')). \<forall>k \<in> set ks. vi_uuid r \<noteq> strip (snd k))"
proof -
  obtain action items where i: "fits action items" "targets items \<noteq> []" "es' = hide_items (rq_now rq) action items es" "job_of_items de action items q q'"
    using purge_pages[OF managed_ok[OF assms(1)], of rq de w q matching si] assms(2) by (auto simp: purge_outcome_def)
  then have a: "action = ''purge_vms''" using assms(3) by (auto simp: job_of_items_def)
  then obtain ks where ks: "items = Machines ks" using i(1) by (cases items) (auto simp: fits_def)
  have es': "es' = set_vms (\<lambda>r. vm_key r \<in> set ks) (hide_vm (rq_now rq)) es" using i(3) by (simp add: hide_items_def ks)
  have kept: "r \<in> set (es_vms es')" if "r \<in> set (es_vms es)" "vm_key r \<notin> set ks" for r
    using that by (force simp: es' set_vms_def update_where_def)
  have gone: "vi_uuid r \<noteq> strip (snd k)" if "r \<in> set (es_vms (fold purge_vm ks s))" "k \<in> set ks" for r k s
    using that by (auto simp: purged_machines)
  obtain params where "jb_params (last (q_jobs q')) = de_encode de params"
      "\<forall>ops. \<exists>batch. transactional_purge ops ''purge_vms'' params = purge_selection ops ''purge_vms'' batch ks"
    using i(4) unfolding job_of_items_def a by (auto simp: ks targets_def)
  then show ?thesis using i(2) kept gone by (intro exI[of _ ks] exI[of _ params]) (auto simp: ks targets_def)
qed

text \<open>A push shows no node that was hidden, or whose group is hidden, and hides none; a node it names for the first time
belongs to the system group and is shown.\<close>

theorem push_respects_visibility:
  assumes m: "managed es"
  shows "(\<forall>n. known_node n es \<longrightarrow> n \<in> set (effective_visible_nodes 0 (see_node now t node es))
        \<longrightarrow> n \<in> set (effective_visible_nodes 0 es) \<or> (\<exists>r. row_of nd_node n (es_nodes es) = Some r \<and> nd_deleted_at r \<noteq> None \<and> nd_status r \<noteq> ''hidden''))
    \<and> (\<forall>n. n \<in> set (effective_visible_nodes 0 es) \<longrightarrow> n \<in> set (effective_visible_nodes 0 (see_node now t node es)))
    \<and> (\<not> known_node node es \<longrightarrow> node \<in> set (effective_visible_nodes 0 (see_node now t node es))
        \<and> (\<exists>g. group_of node (see_node now t node es) = Some g \<and> gr_system g))"
proof -
  note ok = managed_ok[OF m] and ok' = ok_see_node[OF managed_ok[OF m], of now t node]
  note d = estate_okD[OF ok]
  let ?new = "\<lparr>nd_node = node, nd_first_seen = t, nd_last_push = t, nd_status = ''active'', nd_hidden_at = None, nd_deleted_at = None\<rparr>"
  let ?N = "upsert nd_node merge_node ?new (es_nodes es)"
  have row: "row_of nd_node n ?N = (if n = node then Some (case row_of nd_node node (es_nodes es) of None \<Rightarrow> ?new | Some r \<Rightarrow> merge_node r ?new)
      else row_of nd_node n (es_nodes es))" for n
    using row_of_upsert[OF merge_node_key, of n ?new "es_nodes es"] by simp
  show ?thesis
  proof (cases "known_node node es")
    case True
    then have see: "see_node now t node es = es\<lparr>es_nodes := ?N\<rparr>" by (simp add: see_node_def Let_def del: upsert.simps)
    have g: "group_of n (see_node now t node es) = group_of n es" for n by (simp add: see group_of_def del: upsert.simps split: option.split)
    obtain old where old: "row_of nd_node node (es_nodes es) = Some old" using True by (auto simp: known_node_def)
    show ?thesis unfolding visible_iff[OF ok] visible_iff[OF ok'] g using True row
      by (auto simp: see old merge_node_def shown_row_def simp del: upsert.simps split: if_splits)
  next
    case False
    have g0: "groups_ok (es\<lparr>es_nodes := ?N\<rparr>)" using d(1) by (simp add: groups_ok_def del: upsert.simps)
    obtain s where s: "system_group_id now (es\<lparr>es_nodes := ?N\<rparr>) = (Some (gr_id s), es\<lparr>es_nodes := ?N\<rparr>)" "s \<in> set (es_groups (es\<lparr>es_nodes := ?N\<rparr>))"
        "gr_system s" "gr_active s"
      by (rule system_found[OF g0, of now])
    have fresh: "row_of mb_node node (es_members es) = None" using False d(3) by (simp add: row_of_None_iff known_node_iff)
    have none: "row_of nd_node node (es_nodes es) = None" using False by (simp add: known_node_def)
    have see: "see_node now t node es = es\<lparr>es_nodes := ?N, es_members := es_members es @ [\<lparr>mb_node = node, mb_group = gr_id s, mb_at = now, mb_by = ''trigger''\<rparr>]\<rparr>"
      using False fresh by (simp add: see_node_def Let_def assign_ungrouped_def s(1) add_member_def insert_or_ignore_def del: upsert.simps)
    have sr: "row_of gr_id (gr_id s) (es_groups es) = Some s" using row_of_distinct[OF d(7)] s(2) by simp
    have g: "group_of n (see_node now t node es) = (if n = node then Some s else group_of n es)" for n
      using fresh sr by (auto simp: see group_of_def row_of_append split: option.split simp del: upsert.simps)
    show ?thesis unfolding visible_iff[OF ok] visible_iff[OF ok'] g using False row s(3,4)
      by (auto simp: see none shown_row_def known_node_def simp del: upsert.simps split: if_splits)
  qed
qed

section \<open>An example\<close>

text \<open>The installation of Account_Claims, whose first administrator has a node in the system group and one in a group of its own.\<close>

definition desk_post :: "string \<Rightarrow> string dict \<Rightarrow> request" where
  "desk_post endpoint fields1 = post endpoint ''8'' ((''csrf_token'', ''t1'') # fields1)"

definition sample_desk_env :: desk_env where
  "sample_desk_env = \<lparr>de_woke = (True, []), de_encode = (\<lambda>d. ''{}''), de_batch = 3, de_max = 1, de_busy = False, de_flags = [''de'']\<rparr>"

definition no_estate :: estate where
  "no_estate = \<lparr>es_nodes = [], es_vms = [], es_groups = [], es_next = 1, es_members = [], es_history = []\<rparr>"

definition two_nodes :: estate where
  "two_nodes = see_node 100 90 ''n2'' (see_node 100 90 ''n1'' (ensure_schema 50 no_estate))"

definition create_berlin :: request where
  "create_berlin = desk_post ''admin_node_groups_create'' [(''name'', ''Berlin''), (''country_code'', ''DE'')]"

definition assign_berlin :: request where
  "assign_berlin = desk_post ''admin_node_groups_assign'' [(''group_id'', ''2''), (''nodes'', ''n1''), (''nodes'', ''n9'')]"

definition hide_berlin :: request where
  "hide_berlin = desk_post ''admin_node_groups_action'' [(''group_id'', ''2''), (''action'', ''hide'')]"

definition restore_berlin :: request where
  "restore_berlin = desk_post ''admin_node_groups_action'' [(''group_id'', ''2''), (''action'', ''restore'')]"

definition purge_request :: "string list \<Rightarrow> request" where
  "purge_request names = desk_post ''admin_bulk_nodes'' ((''action'', ''purge'') # map (\<lambda>n. (''nodes'', n)) names)"

definition at_desk :: "request \<Rightarrow> estate \<Rightarrow> response \<times> desk" where
  "at_desk rq es = desk_page (\<lambda>a b e. []) sample_desk_env sample_site rq ((root_cookie, both_db), es, empty_queue)"

definition berlin :: estate where
  "berlin = tables_of (at_desk assign_berlin (tables_of (at_desk create_berlin two_nodes)))"

lemma managed_page: "managed es \<Longrightarrow> managed (tables_of (at_desk rq es))"
proof -
  assume m: "managed es"
  obtain r w' es' q' where go: "desk_page (\<lambda>a b e. []) sample_desk_env sample_site rq ((root_cookie, both_db), es, empty_queue) = (r, w', es', q')"
    by (rule prod_cases4)
  show ?thesis using managed.page[OF m go] by (simp add: at_desk_def go)
qed

lemma managed_berlin: "managed two_nodes" "managed berlin"
proof -
  have "managed (ensure_schema 50 no_estate)" using managed.start[of "[]" "[]" 50] by (simp add: no_estate_def)
  then show t: "managed two_nodes" unfolding two_nodes_def by (intro managed.push)
  show "managed berlin" unfolding berlin_def by (intro managed_page t)
qed

text \<open>What berlin leaves in the tables, written out.\<close>

definition berlin_rows :: estate where
  "berlin_rows = \<lparr>es_nodes = map (\<lambda>n. \<lparr>nd_node = n, nd_first_seen = 90, nd_last_push = 90, nd_status = ''active'', nd_hidden_at = None, nd_deleted_at = None\<rparr>) [''n1'', ''n2''],
     es_vms = [],
     es_groups = [system_group 50 1, \<lparr>gr_id = 2, gr_name = ''Berlin'', gr_description = [], gr_country = ''de'', gr_active = True, gr_system = False,
       gr_created = 100, gr_updated = 100, gr_hidden_at = None\<rparr>],
     es_next = 3,
     es_members = [\<lparr>mb_node = ''n1'', mb_group = 2, mb_at = 100, mb_by = ''root''\<rparr>, \<lparr>mb_node = ''n2'', mb_group = 1, mb_at = 100, mb_by = ''trigger''\<rparr>],
     es_history = [\<lparr>ge_event = ''node_group_created'', ge_actor = ''root'', ge_node = [], ge_old = None, ge_new = Some (2, ''Berlin''), ge_at = 100\<rparr>,
       \<lparr>ge_event = ''node_group_assigned'', ge_actor = ''root'', ge_node = ''n1'', ge_old = Some (1, ''Ungrouped''), ge_new = Some (2, ''Berlin''), ge_at = 100\<rparr>]\<rparr>"

lemma berlin_is: "berlin = berlin_rows"
  by code_simp

lemma sample_hide: "fst (at_desk hide_berlin berlin_rows) = back_to ''groups''"
  by code_simp

lemma sample_hidden: "effective_visible_nodes 0 (tables_of (at_desk hide_berlin berlin_rows)) = [''n2'']"
  by code_simp

lemma sample_restore: "fst (at_desk restore_berlin (tables_of (at_desk hide_berlin berlin_rows))) = back_to ''groups''"
  by code_simp

lemma sample_group: "map_option gr_active (row_of gr_id 2 (es_groups berlin_rows)) = Some True"
  by code_simp

lemma sample_refused: "fst (at_desk (purge_request [''n1'', ''n2'']) berlin_rows) = Redirect_Note ''maintenance'' False ''Could not queue bulk node purge: Selection has 2 items; maximum is 1''"
  by code_simp

lemma sample_queued: "fst (at_desk (purge_request [''n1'']) berlin_rows) = Redirect_Note ''maintenance'' True (bulk_text 1 '' node item(s)'' sample_desk_env 1)"
  by code_simp

lemma sample_assign: "fst (assign_rows 120 (clean_nodes ['' n1'', ''n2'', ''n1'', ''n9'']) 1 ''root'' berlin_rows)
    = Inr (\<lparr>ta_changed = 1, ta_assigned = 0, ta_moved = 0, ta_removed = 1\<rparr>, system_group 50 1)"
  by code_simp

lemma sample_visible: "effective_visible_nodes 0 berlin_rows = [''n1'', ''n2'']"
  by code_simp

lemmas sample_desk = sample_hide[folded berlin_is] sample_restore[folded berlin_is] sample_group[folded berlin_is] sample_refused[folded berlin_is]
  sample_queued[folded berlin_is] sample_assign[folded berlin_is] sample_visible[folded berlin_is] sample_hidden[folded berlin_is]

theorem every_node_in_one_group_witness:
  "(\<exists>!s. s \<in> set (es_groups berlin) \<and> gr_system s) \<and> (\<forall>n. known_node n berlin \<longleftrightarrow> n \<in> mb_node ` set (es_members berlin))"
  using every_node_in_one_group[OF managed_berlin(2)] by blast

theorem assign_moves_exactly_witness:
  "\<exists>es1 ta target. assign_rows 120 (clean_nodes ['' n1'', ''n2'', ''n1'', ''n9'']) 1 ''root'' berlin = (Inr (ta, target), es1) \<and> gr_active target
    \<and> ta_changed ta = length (moved_nodes target (clean_nodes ['' n1'', ''n2'', ''n1'', ''n9'']) berlin)"
proof -
  obtain x es1 where go: "assign_rows 120 (clean_nodes ['' n1'', ''n2'', ''n1'', ''n9'']) 1 ''root'' berlin = (x, es1)" by (rule prod.exhaust)
  obtain ta target where x: "x = Inr (ta, target)" using sample_desk(6) unfolding go fst_conv by blast
  from assign_moves_exactly[OF managed_berlin(2) go[unfolded x]] show ?thesis using go x by blast
qed

lemma at_action: "rq_endpoint rq = ''admin_node_groups_action'' \<Longrightarrow> at_desk rq es = admin_node_groups_action sample_site rq ((root_cookie, both_db), es, empty_queue)"
  by (simp add: at_desk_def desk_page_def)

theorem hidden_group_comes_back_witness:
  "set (effective_visible_nodes 0 (tables_of (at_desk restore_berlin (tables_of (at_desk hide_berlin berlin))))) = {''n1'', ''n2''}
    \<and> set (effective_visible_nodes 0 (tables_of (at_desk hide_berlin berlin))) \<noteq> {''n1'', ''n2''}"
proof -
  obtain r1 w1 es1 q1 where h: "at_desk hide_berlin berlin = (r1, w1, es1, q1)" by (rule prod_cases4)
  obtain r2 w2 es2 q2 where r: "at_desk restore_berlin es1 = (r2, w2, es2, q2)" by (rule prod_cases4)
  have e: "rq_endpoint hide_berlin = ''admin_node_groups_action''" "rq_endpoint restore_berlin = ''admin_node_groups_action''"
    "lower (strip (form hide_berlin ''action'')) = ''hide''" "lower (strip (form restore_berlin ''action'')) = ''restore''"
    "safe_int (PStr (form hide_berlin ''group_id'')) 0 = 2" "safe_int (PStr (form restore_berlin ''group_id'')) 0 = 2"
    by code_simp+
  have h': "admin_node_groups_action sample_site hide_berlin ((root_cookie, both_db), berlin, empty_queue) = (back_to ''groups'', w1, es1, q1)"
    using h sample_desk(1) unfolding at_action[OF e(1)] by simp
  have r': "admin_node_groups_action sample_site restore_berlin ((root_cookie, both_db), es1, empty_queue) = (back_to ''groups'', w2, es2, q2)"
    using r sample_desk(2) h unfolding at_action[OF e(2)] by simp
  obtain g where g: "row_of gr_id 2 (es_groups berlin) = Some g" "gr_active g" using sample_desk(3) by auto
  from hidden_group_comes_back[OF managed_berlin(2) g h' e(3,5,1) r' e(4,6,2)]
  have "set (effective_visible_nodes 0 es2) = set (effective_visible_nodes 0 berlin)" by blast
  then show ?thesis using sample_desk(7,8) by (simp add: h r)
qed

theorem refused_purge_restores_witness: "tables_of (at_desk (purge_request [''n1'', ''n2'']) berlin) = berlin"
proof -
  obtain r w' es' q' where go: "at_desk (purge_request [''n1'', ''n2'']) berlin = (r, w', es', q')" by (rule prod_cases4)
  from sample_desk(4) have "r = Redirect_Note ''maintenance'' False ''Could not queue bulk node purge: Selection has 2 items; maximum is 1''"
    unfolding go by simp
  from refused_purge_restores[OF managed_berlin(2) go[unfolded this at_desk_def]] show ?thesis by (simp add: go)
qed

theorem queued_purge_reaches_worker_witness:
  "\<exists>action items. actions (snd (snd (snd (at_desk (purge_request [''n1'']) berlin)))) = actions empty_queue @ [action] \<and> length (targets items) = 1
    \<and> tables_of (at_desk (purge_request [''n1'']) berlin) = hide_items (rq_now (purge_request [''n1''])) action items berlin"
proof -
  obtain r w' es' q' where go: "at_desk (purge_request [''n1'']) berlin = (r, w', es', q')" by (rule prod_cases4)
  from sample_desk(5) have "r = Redirect_Note ''maintenance'' True (bulk_text 1 '' node item(s)'' sample_desk_env 1)" unfolding go by simp
  from queued_purge_reaches_worker[OF managed_berlin(2) go[unfolded this at_desk_def]]
  obtain action items where "1 \<le> length (targets items)" "int (length (targets items)) \<le> de_max sample_desk_env"
    "es' = hide_items (rq_now (purge_request [''n1''])) action items berlin" "actions q' = actions empty_queue @ [action]" by blast
  then show ?thesis by (intro exI[of _ action] exI[of _ items]) (simp add: go sample_desk_env_def)
qed

text \<open>A machine that moved from one node to the other.\<close>

definition moved_machine :: estate where
  "moved_machine = berlin\<lparr>es_vms := map (\<lambda>n. \<lparr>vi_node = n, vi_uuid = ''u1'', vi_first_seen = 90, vi_last_seen = 90, vi_iface = ''tap0'', vi_bridge = ''viifbr0'',
     vi_status = ''active'', vi_hidden_at = None, vi_deleted_at = None\<rparr>) [''n1'', ''n2'']\<rparr>"

definition purge_old_copy :: request where
  "purge_old_copy = desk_post ''admin_delete_vm'' [(''mode'', ''purge''), (''node'', ''n1''), (''vm_uuid'', ''u1'')]"

lemma managed_moved: "managed moved_machine"
  unfolding moved_machine_def by (intro managed.machines managed_berlin) (simp add: vm_key_def)

lemma sample_copies:
  "fst (at_desk purge_old_copy moved_machine) = Redirect_Note ''maintenance'' True ''Queued VM purge job #1 for n1/u1.''"
  "actions (snd (snd (snd (at_desk purge_old_copy moved_machine)))) = actions empty_queue @ [''purge_vms'']"
  unfolding moved_machine_def berlin_is by code_simp+

theorem purge_takes_other_copies_witness:
  "\<exists>ks. ks \<noteq> [] \<and> (\<forall>r \<in> set (es_vms moved_machine). vm_key r \<notin> set ks \<longrightarrow> r \<in> set (es_vms (tables_of (at_desk purge_old_copy moved_machine))))
    \<and> (\<forall>r \<in> set (es_vms (fold purge_vm ks (tables_of (at_desk purge_old_copy moved_machine)))). \<forall>k \<in> set ks. vi_uuid r \<noteq> strip (snd k))"
proof -
  obtain r w' es' q' where go: "at_desk purge_old_copy moved_machine = (r, w', es', q')" by (rule prod_cases4)
  have "r = Redirect_Note ''maintenance'' True ''Queued VM purge job #1 for n1/u1.''" "actions q' = actions empty_queue @ [''purge_vms'']"
    using sample_copies by (simp_all add: go)
  from purge_takes_other_copies[OF managed_moved go[unfolded this(1) at_desk_def] this(2)] show ?thesis by (auto simp: go)
qed

theorem push_respects_visibility_witness:
  "(\<forall>n. n \<in> set (effective_visible_nodes 0 berlin) \<longrightarrow> n \<in> set (effective_visible_nodes 0 (see_node 200 190 ''n3'' berlin)))
    \<and> (\<not> known_node ''n3'' berlin \<longrightarrow> ''n3'' \<in> set (effective_visible_nodes 0 (see_node 200 190 ''n3'' berlin)))"
  using push_respects_visibility[OF managed_berlin(2), of 200 190 "''n3''"] by blast

end
