(* ===== verification/Vm_Presence.thy ===== *)
theory Vm_Presence
  imports Inventory
begin

text \<open>
  Where the machines are: the tables vm_node_presence, vm_inventory, vm_location_latest and
  vm_migration_events, which every push writes (\<open>process_node_vm_presence\<close> of layer 37 with the
  transitions between nodes of layer 02), and the purge of machines that have moved. A machine is
  at one place; that another node names it does not move it until the old node has missed it.
\<close>

section \<open>The tables\<close>

record presence =
  pr_vm :: string
  pr_node :: string
  pr_first_seen :: int
  pr_last_seen :: int
  pr_last_push :: int
  pr_missing_since :: "int option"
  pr_missing_count :: int
  pr_present_count :: int
  pr_status :: string
  pr_pending_node :: "string option"
  pr_migrated_to :: "string option"
  pr_migrated_at :: "int option"
  pr_purged_at :: "int option"
  pr_iface :: string
  pr_bridge :: string
  pr_flags :: string

record location =
  lo_vm :: string
  lo_node :: string
  lo_first_seen :: int
  lo_last_seen :: int
  lo_previous :: "string option"
  lo_moved_at :: "int option"
  lo_moves :: int
  lo_iface :: string
  lo_bridge :: string
  lo_level :: string
  lo_flags :: string

record migration_event =
  me_time :: int
  me_vm :: string
  me_old :: string
  me_new :: string
  me_old_seen :: int
  me_new_seen :: int
  me_detail :: string

record whereabouts =
  wh_presence :: "presence list"
  wh_vms :: "vm_inv list"
  wh_locations :: "location list"
  wh_events :: "migration_event list"

text \<open>The VM_MIGRATION constants of layer 00 in their ranges; \<open>mg_stamp\<close> prints a time in the configured zone.\<close>

record migration_config =
  mg_confirm_pushes :: int
  mg_confirm_seconds :: int
  mg_purge_seconds :: int
  mg_stamp :: "int \<Rightarrow> string"

definition pr_key :: "presence \<Rightarrow> string \<times> string" where
  "pr_key r = (pr_vm r, pr_node r)"

section \<open>What a push says\<close>

text \<open>A machine of the stage: uuid, interface and bridge.\<close>

type_synonym sighting = "string \<times> string \<times> string"

definition stage :: "sighting list \<Rightarrow> sighting list" where
  "stage seen = filter (\<lambda>(vm, i, b). vm \<noteq> [] \<and> vm \<noteq> ''-'') (map (\<lambda>(vm, i, b). (strip vm, str_or i ''-'', str_or b ''-'')) seen)"

definition seen_presence :: "string \<Rightarrow> int \<Rightarrow> sighting \<Rightarrow> presence" where
  "seen_presence node t x = (case x of (vm, iface, bridge) \<Rightarrow>
     \<lparr>pr_vm = vm, pr_node = node, pr_first_seen = t, pr_last_seen = t, pr_last_push = t, pr_missing_since = None, pr_missing_count = 0, pr_present_count = 1,
      pr_status = ''active'', pr_pending_node = None, pr_migrated_to = None, pr_migrated_at = None, pr_purged_at = None, pr_iface = iface, pr_bridge = bridge, pr_flags = []\<rparr>)"

definition merge_presence :: "presence \<Rightarrow> presence \<Rightarrow> presence" where
  "merge_presence old new = old\<lparr>pr_last_seen := max (pr_last_seen old) (pr_last_seen new), pr_last_push := pr_last_push new, pr_missing_since := None,
     pr_missing_count := 0, pr_present_count := pr_present_count old + 1, pr_status := ''active'', pr_pending_node := None, pr_migrated_to := None,
     pr_migrated_at := None, pr_purged_at := None, pr_iface := pr_iface new, pr_bridge := pr_bridge new, pr_flags := []\<rparr>"

definition seen_vm :: "string \<Rightarrow> int \<Rightarrow> sighting \<Rightarrow> vm_inv" where
  "seen_vm node t x = (case x of (vm, iface, bridge) \<Rightarrow>
     \<lparr>vi_node = node, vi_uuid = vm, vi_first_seen = t, vi_last_seen = t, vi_iface = iface, vi_bridge = bridge, vi_status = ''active'', vi_hidden_at = None, vi_deleted_at = None\<rparr>)"

definition merge_vm :: "vm_inv \<Rightarrow> vm_inv \<Rightarrow> vm_inv" where
  "merge_vm old new = (let hidden = vi_status old = ''hidden'' in
     old\<lparr>vi_last_seen := max (vi_last_seen old) (vi_last_seen new), vi_iface := vi_iface new, vi_bridge := vi_bridge new,
      vi_status := (if hidden then ''hidden'' else ''active''), vi_hidden_at := (if hidden then vi_hidden_at old else None),
      vi_deleted_at := (if hidden then vi_deleted_at old else None)\<rparr>)"

definition new_location :: "string \<Rightarrow> int \<Rightarrow> sighting \<Rightarrow> location" where
  "new_location node t x = (case x of (vm, iface, bridge) \<Rightarrow>
     \<lparr>lo_vm = vm, lo_node = node, lo_first_seen = t, lo_last_seen = t, lo_previous = None, lo_moved_at = None, lo_moves = 0,
      lo_iface = iface, lo_bridge = bridge, lo_level = ''ok'', lo_flags = []\<rparr>)"

text \<open>
  The machines of a payload: of the interfaces, then the performance rows, then the inventory, each
  uuid once, with what the first item says.
\<close>

definition add_sighting :: "sighting \<Rightarrow> sighting list \<Rightarrow> sighting list" where
  "add_sighting x seen = (if fst x = [] \<or> fst x = ''-'' \<or> fst x \<in> fst ` set seen then seen else seen @ [x])"

definition interface_sighting :: "pyval \<Rightarrow> sighting option" where
  "interface_sighting v = (case v of PDict d \<Rightarrow> Some (strip (text_or d ''vm_uuid'' ''-''), text_or d ''iface'' ''-'', text_or d ''bridge'' ''-'') | _ \<Rightarrow> None)"

definition vm_sighting :: "pyval \<Rightarrow> sighting option" where
  "vm_sighting v = (case v of PDict d \<Rightarrow> Some (strip (text_or d ''vm_uuid'' ''-''), ''-'', ''-'') | _ \<Rightarrow> None)"

definition inventory_sighting :: "pyval \<Rightarrow> sighting" where
  "inventory_sighting v = (case v of
      PDict d \<Rightarrow> (strip (py_str (py_or (py_or (get_none d ''vm_uuid'') (get_none d ''uuid'')) (PStr ''-''))), text_or d ''iface'' ''-'', text_or d ''bridge'' ''-'')
    | _ \<Rightarrow> (strip (py_str (py_or v (PStr ''-''))), ''-'', ''-''))"

definition seen_vm_locations :: "pyval list \<Rightarrow> pyval list \<Rightarrow> pyval list \<Rightarrow> sighting list" where
  "seen_vm_locations interfaces vms inventory =
     fold add_sighting (List.map_filter interface_sighting interfaces @ List.map_filter vm_sighting vms @ map inventory_sighting inventory) []"

section \<open>Missing machines\<close>

text \<open>A complete inventory marks what the node had, active or between two nodes, and does not name.\<close>

definition missed_by :: "string \<Rightarrow> string list \<Rightarrow> presence \<Rightarrow> bool" where
  "missed_by node names r \<longleftrightarrow> pr_node r = node \<and> (pr_status r = ''active'' \<or> pr_status r = ''pending_migration'') \<and> pr_vm r \<notin> set names"

definition miss :: "int \<Rightarrow> presence \<Rightarrow> presence" where
  "miss t r = r\<lparr>pr_status := ''missing'', pr_missing_since := Some (case pr_missing_since r of None \<Rightarrow> t | Some s \<Rightarrow> s),
     pr_missing_count := pr_missing_count r + 1, pr_last_push := t, pr_flags := ''MISSING:'' @ str_of_int (pr_missing_count r + 1)\<rparr>"

definition set_vm_status :: "(vm_inv \<Rightarrow> bool) \<Rightarrow> string \<Rightarrow> vm_inv list \<Rightarrow> vm_inv list" where
  "set_vm_status P status = update_where (\<lambda>r. P r \<and> vi_status r \<noteq> ''hidden'') (\<lambda>r. r\<lparr>vi_status := status, vi_hidden_at := None, vi_deleted_at := None\<rparr>)"

definition mark_missing :: "string \<Rightarrow> string list \<Rightarrow> int \<Rightarrow> whereabouts \<Rightarrow> whereabouts" where
  "mark_missing node names t s =
     (let missing = map pr_vm (filter (missed_by node names) (wh_presence s)) in
      s\<lparr>wh_presence := update_where (missed_by node names) (miss t) (wh_presence s),
        wh_vms := set_vm_status (\<lambda>r. vi_node r = node \<and> vi_uuid r \<in> set missing) ''missing'' (wh_vms s)\<rparr>)"

section \<open>Transitions between nodes\<close>

definition old_node_missing_enough :: "migration_config \<Rightarrow> string \<Rightarrow> string \<Rightarrow> int \<Rightarrow> whereabouts \<Rightarrow> bool \<times> string" where
  "old_node_missing_enough mg vm old_node t s = (case row_of pr_key (vm, old_node) (wh_presence s) of
      None \<Rightarrow> (False, ''old-node presence not confirmed missing'')
    | Some r \<Rightarrow>
        (let gone = pr_status r \<in> {''missing'', ''migrated'', ''purged''}; n = pr_missing_count r; since = (case pr_missing_since r of None \<Rightarrow> 0 | Some m \<Rightarrow> m) in
         if gone \<and> mg_confirm_pushes mg \<le> n then (True, ''old node missing for '' @ str_of_int n @ '' pushes'')
         else if gone \<and> since \<noteq> 0 \<and> mg_confirm_seconds mg \<le> t - since then (True, ''old node missing since '' @ mg_stamp mg since)
         else (False, ''waiting old node missing confirmation ('' @ str_of_int n @ ''/'' @ str_of_int (mg_confirm_pushes mg) @ '' pushes)'')))"

definition set_presence :: "string \<times> string \<Rightarrow> (presence \<Rightarrow> presence) \<Rightarrow> whereabouts \<Rightarrow> whereabouts" where
  "set_presence k f s = s\<lparr>wh_presence := update_where (\<lambda>r. pr_key r = k) f (wh_presence s)\<rparr>"

definition set_location :: "string \<Rightarrow> (location \<Rightarrow> location) \<Rightarrow> whereabouts \<Rightarrow> whereabouts" where
  "set_location vm f s = s\<lparr>wh_locations := update_where (\<lambda>r. lo_vm r = vm) f (wh_locations s)\<rparr>"

definition pend :: "string \<Rightarrow> string \<Rightarrow> presence \<Rightarrow> presence" where
  "pend other flags r = r\<lparr>pr_status := ''pending_migration'', pr_pending_node := Some other, pr_flags := flags\<rparr>"

definition hold_location :: "string \<Rightarrow> string \<Rightarrow> string \<Rightarrow> int \<Rightarrow> string \<Rightarrow> whereabouts \<Rightarrow> whereabouts" where
  "hold_location vm old_node node t reason s =
     (let s1 = set_presence (vm, old_node) (pend node (''PENDING_TO:'' @ node @ ''; '' @ reason)) s;
          s2 = set_presence (vm, node) (pend old_node (''PENDING_FROM:'' @ old_node @ ''; '' @ reason)) s1;
          s3 = s2\<lparr>wh_vms := set_vm_status (\<lambda>r. vi_uuid r = vm \<and> vi_node r \<in> {old_node, node}) ''pending_migration'' (wh_vms s2)\<rparr> in
      set_location vm (\<lambda>l. l\<lparr>lo_last_seen := max (lo_last_seen l) t, lo_level := ''pending_migration'',
        lo_flags := ''PENDING_MOVE:'' @ old_node @ ''->'' @ node @ ''; '' @ reason\<rparr>) s3)"

text \<open>An event is not repeated for the same move within a day.\<close>

definition add_move :: "migration_event \<Rightarrow> migration_event list \<Rightarrow> migration_event list" where
  "add_move e es = (if list_ex (\<lambda>x. me_vm x = me_vm e \<and> me_old x = me_old e \<and> me_new x = me_new e \<and> me_time e - 86400 \<le> me_time x) es then es else es @ [e])"

definition move_location :: "string \<Rightarrow> string \<Rightarrow> string \<Rightarrow> int \<Rightarrow> string \<Rightarrow> string \<Rightarrow> string \<Rightarrow> location \<Rightarrow> whereabouts \<Rightarrow> whereabouts" where
  "move_location vm old_node node t reason iface bridge old s =
     (let s1 = s\<lparr>wh_events := add_move \<lparr>me_time = t, me_vm = vm, me_old = old_node, me_new = node, me_old_seen = lo_last_seen old, me_new_seen = t,
            me_detail = ''VM moved from '' @ old_node @ '' to '' @ node @ ''; '' @ reason\<rparr> (wh_events s)\<rparr>;
          s2 = set_presence (vm, old_node) (\<lambda>r. r\<lparr>pr_status := ''migrated'', pr_migrated_to := Some node, pr_migrated_at := Some t, pr_flags := ''MIGRATED_TO:'' @ node\<rparr>) s1;
          s3 = s2\<lparr>wh_vms := set_vm_status (\<lambda>r. vi_node r = old_node \<and> vi_uuid r = vm) ''migrated'' (wh_vms s2)\<rparr> in
      set_location vm (\<lambda>l. l\<lparr>lo_node := node, lo_previous := Some old_node, lo_moved_at := Some t, lo_moves := lo_moves old + 1, lo_last_seen := t,
        lo_iface := iface, lo_bridge := bridge, lo_level := ''migrated'', lo_flags := ''MIGRATED_FROM:'' @ old_node\<rparr>) s3)"

definition create_or_update_location :: "migration_config \<Rightarrow> string \<Rightarrow> int \<Rightarrow> sighting \<Rightarrow> whereabouts \<Rightarrow> whereabouts" where
  "create_or_update_location mg node t x s = (case x of (vm, iface, bridge) \<Rightarrow>
     (case row_of lo_vm vm (wh_locations s) of
        None \<Rightarrow> s\<lparr>wh_locations := wh_locations s @ [new_location node t x]\<rparr>
      | Some old \<Rightarrow>
          (if lo_node old = node then
             set_location vm (\<lambda>l. l\<lparr>lo_last_seen := max (lo_last_seen l) t, lo_iface := iface, lo_bridge := bridge, lo_level := ''ok'', lo_flags := []\<rparr>) s
           else (case old_node_missing_enough mg vm (lo_node old) t s of
               (False, reason) \<Rightarrow> hold_location vm (lo_node old) node t reason s
             | (True, reason) \<Rightarrow> move_location vm (lo_node old) node t reason iface bridge old s))))"

section \<open>The push\<close>

text \<open>
  A stage with a uuid twice breaks its primary key. A node is seen first, then what it misses is
  marked, then new places are added and those of this node refreshed, then the machines of other
  nodes go through the transition, in the order of their names.
\<close>

definition refresh_locations :: "string \<Rightarrow> int \<Rightarrow> sighting list \<Rightarrow> location list \<Rightarrow> location list" where
  "refresh_locations node t rows ls =
     map (\<lambda>l. if lo_node l = node then (case row_of fst (lo_vm l) rows of
            Some (vm, iface, bridge) \<Rightarrow> l\<lparr>lo_last_seen := max (lo_last_seen l) t, lo_iface := iface, lo_bridge := bridge, lo_level := ''ok'', lo_flags := []\<rparr>
          | None \<Rightarrow> l) else l)
       (ls @ map (new_location node t) (filter (\<lambda>x. row_of lo_vm (fst x) ls = None) rows))"

definition process_node_vm_presence :: "migration_config \<Rightarrow> string \<Rightarrow> sighting list \<Rightarrow> int \<Rightarrow> bool \<Rightarrow> whereabouts \<Rightarrow> whereabouts option" where
  "process_node_vm_presence mg node seen t inventory_complete s =
     (let rows = stage seen;
          s1 = s\<lparr>wh_presence := fold (upsert pr_key merge_presence) (map (seen_presence node t) rows) (wh_presence s),
                 wh_vms := fold (upsert vm_key merge_vm) (map (seen_vm node t) rows) (wh_vms s)\<rparr>;
          s2 = (if inventory_complete then mark_missing node (map fst rows) t s1 else s1);
          moved = sort_key fst (filter (\<lambda>x. case row_of lo_vm (fst x) (wh_locations s2) of None \<Rightarrow> False | Some l \<Rightarrow> lo_node l \<noteq> node) rows);
          s3 = s2\<lparr>wh_locations := refresh_locations node t rows (wh_locations s2)\<rparr> in
      if \<not> distinct (map fst rows) then None else Some (fold (create_or_update_location mg node t) moved s3))"

section \<open>Purge\<close>

definition purge_presence :: "int \<Rightarrow> presence \<Rightarrow> whereabouts \<Rightarrow> whereabouts" where
  "purge_presence now r s =
     (let s1 = set_presence (pr_key r) (\<lambda>p. p\<lparr>pr_status := ''purged'', pr_purged_at := Some now,
            pr_flags := ''PURGED_AFTER_MIGRATION_TO:'' @ (case pr_migrated_to r of None \<Rightarrow> ''None'' | Some n \<Rightarrow> n)\<rparr>) s in
      s1\<lparr>wh_vms := update_where (\<lambda>v. vi_uuid v = pr_vm r \<and> vi_node v = pr_node r \<and> vi_status v \<noteq> ''hidden'')
        (\<lambda>v. v\<lparr>vi_status := ''purged'', vi_hidden_at := Some (case vi_hidden_at v of None \<Rightarrow> now | Some h \<Rightarrow> h),
          vi_deleted_at := Some (case vi_deleted_at v of None \<Rightarrow> now | Some d \<Rightarrow> d)\<rparr>) (wh_vms s1)\<rparr>)"

definition auto_purge_migrated_vms :: "migration_config \<Rightarrow> int \<Rightarrow> whereabouts \<Rightarrow> nat \<times> whereabouts" where
  "auto_purge_migrated_vms mg now s =
     (let cutoff = now - mg_purge_seconds mg;
          rows = take 500 (filter (\<lambda>r. pr_status r = ''migrated'' \<and> pr_purged_at r = None \<and> (case pr_migrated_at r of None \<Rightarrow> False | Some m \<Rightarrow> m \<le> cutoff)) (wh_presence s)) in
      (length rows, fold (purge_presence now) rows s))"

text \<open>\<open>purge_vm_data\<close> of layer 29 deletes a machine from all four tables.\<close>

definition forget_vm :: "string \<Rightarrow> whereabouts \<Rightarrow> whereabouts" where
  "forget_vm vm s = s\<lparr>wh_presence := filter (\<lambda>r. pr_vm r \<noteq> vm) (wh_presence s), wh_vms := filter (\<lambda>r. vi_uuid r \<noteq> vm) (wh_vms s),
     wh_events := filter (\<lambda>e. me_vm e \<noteq> vm) (wh_events s), wh_locations := filter (\<lambda>l. lo_vm l \<noteq> vm) (wh_locations s)\<rparr>"

section \<open>One machine\<close>

text \<open>
  What the tables hold of one machine: its rows by node, and its place. A push is a step of each
  machine on its own.
\<close>

type_synonym track = "(string \<Rightarrow> presence option) \<times> location option"

definition track :: "string \<Rightarrow> whereabouts \<Rightarrow> track" where
  "track vm s = (\<lambda>n. row_of pr_key (vm, n) (wh_presence s), row_of lo_vm vm (wh_locations s))"

definition track_missing :: "int \<Rightarrow> presence option \<Rightarrow> presence option" where
  "track_missing t = map_option (\<lambda>r. if pr_status r = ''active'' \<or> pr_status r = ''pending_migration'' then miss t r else r)"

definition missing_enough :: "migration_config \<Rightarrow> int \<Rightarrow> presence option \<Rightarrow> bool \<times> string" where
  "missing_enough mg t p = old_node_missing_enough mg (case p of None \<Rightarrow> [] | Some r \<Rightarrow> pr_vm r) (case p of None \<Rightarrow> [] | Some r \<Rightarrow> pr_node r) t
     \<lparr>wh_presence = (case p of None \<Rightarrow> [] | Some r \<Rightarrow> [r]), wh_vms = [], wh_locations = [], wh_events = []\<rparr>"

definition track_move :: "migration_config \<Rightarrow> string \<Rightarrow> int \<Rightarrow> string \<times> string \<Rightarrow> location \<Rightarrow> (string \<Rightarrow> presence option) \<Rightarrow> track" where
  "track_move mg node t x l p = (let a = lo_node l in case missing_enough mg t (p a) of
      (False, reason) \<Rightarrow>
        (p(a := map_option (pend node (''PENDING_TO:'' @ node @ ''; '' @ reason)) (p a),
           node := map_option (pend a (''PENDING_FROM:'' @ a @ ''; '' @ reason)) (p node)),
         Some (l\<lparr>lo_last_seen := max (lo_last_seen l) t, lo_level := ''pending_migration'', lo_flags := ''PENDING_MOVE:'' @ a @ ''->'' @ node @ ''; '' @ reason\<rparr>))
    | (True, reason) \<Rightarrow>
        (p(a := map_option (\<lambda>r. r\<lparr>pr_status := ''migrated'', pr_migrated_to := Some node, pr_migrated_at := Some t, pr_flags := ''MIGRATED_TO:'' @ node\<rparr>) (p a)),
         Some (l\<lparr>lo_node := node, lo_previous := Some a, lo_moved_at := Some t, lo_moves := lo_moves l + 1, lo_last_seen := t,
           lo_iface := fst x, lo_bridge := snd x, lo_level := ''migrated'', lo_flags := ''MIGRATED_FROM:'' @ a\<rparr>)))"

definition track_step :: "migration_config \<Rightarrow> string \<Rightarrow> int \<Rightarrow> bool \<Rightarrow> string \<Rightarrow> (string \<times> string) option \<Rightarrow> track \<Rightarrow> track" where
  "track_step mg node t inventory_complete vm seen s = (let (p, l) = s in case seen of
      None \<Rightarrow> (if inventory_complete then p(node := track_missing t (p node)) else p, l)
    | Some x \<Rightarrow>
        (let new = seen_presence node t (vm, x); p1 = p(node := Some (case p node of None \<Rightarrow> new | Some r \<Rightarrow> merge_presence r new)) in
         case l of
           None \<Rightarrow> (p1, Some (new_location node t (vm, x)))
         | Some old \<Rightarrow>
             (if lo_node old = node
              then (p1, Some (old\<lparr>lo_last_seen := max (lo_last_seen old) t, lo_iface := fst x, lo_bridge := snd x, lo_level := ''ok'', lo_flags := []\<rparr>))
              else track_move mg node t x old p1)))"

lemma presence_keys [simp]:
  "pr_key (miss t r) = pr_key r" "pr_key (pend n fl r) = pr_key r" "pr_key (seen_presence n t x) = (fst x, n)" "keeps_key pr_key merge_presence"
  by (auto simp: pr_key_def miss_def pend_def seen_presence_def merge_presence_def keeps_key_def split: prod.splits)

lemma track_set_presence: "(\<And>r. pr_key (f r) = pr_key r) \<Longrightarrow>
  track v (set_presence (vm, n) f s) = (if v = vm then ((fst (track v s))(n := map_option f (fst (track v s) n)), snd (track v s)) else track v s)"
  by (auto simp: track_def set_presence_def row_of_update_key intro!: ext)

lemma track_set_location: "(\<And>r. lo_vm (f r) = lo_vm r) \<Longrightarrow>
  track v (set_location vm f s) = (if v = vm then apsnd (map_option f) (track v s) else track v s)"
  by (auto simp: track_def set_location_def row_of_update_key)

lemma track_other_tables [simp]: "track v (s\<lparr>wh_vms := x\<rparr>) = track v s" "track v (s\<lparr>wh_events := y\<rparr>) = track v s"
  by (simp_all add: track_def)

lemma missing_enough_eq: "old_node_missing_enough mg vm a t s = missing_enough mg t (fst (track vm s) a)"
proof (cases "row_of pr_key (vm, a) (wh_presence s)")
  case (Some r)
  then have "pr_key r = (vm, a)" using row_of_key by metis
  then show ?thesis using Some by (simp add: missing_enough_def old_node_missing_enough_def track_def pr_key_def)
qed (simp add: missing_enough_def old_node_missing_enough_def track_def)

lemma track_hold:
  "track v (hold_location vm a node t reason s) = (if v = vm
     then (let p = fst (track v s) in
       (p(a := map_option (pend node (''PENDING_TO:'' @ node @ ''; '' @ reason)) (p a),
          node := map_option (pend a (''PENDING_FROM:'' @ a @ ''; '' @ reason)) ((p(a := map_option (pend node (''PENDING_TO:'' @ node @ ''; '' @ reason)) (p a))) node)),
        map_option (\<lambda>l. l\<lparr>lo_last_seen := max (lo_last_seen l) t, lo_level := ''pending_migration'', lo_flags := ''PENDING_MOVE:'' @ a @ ''->'' @ node @ ''; '' @ reason\<rparr>)
          (snd (track v s))))
     else track v s)"
  by (simp add: hold_location_def Let_def track_set_presence track_set_location apsnd_def map_prod_def split: prod.split)

lemma track_moved:
  "track v (move_location vm a node t reason iface bridge old s) = (if v = vm
     then (let p = fst (track v s) in
       (p(a := map_option (\<lambda>r. r\<lparr>pr_status := ''migrated'', pr_migrated_to := Some node, pr_migrated_at := Some t, pr_flags := ''MIGRATED_TO:'' @ node\<rparr>) (p a)),
        map_option (\<lambda>l. l\<lparr>lo_node := node, lo_previous := Some a, lo_moved_at := Some t, lo_moves := lo_moves old + 1, lo_last_seen := t,
        lo_iface := iface, lo_bridge := bridge, lo_level := ''migrated'', lo_flags := ''MIGRATED_FROM:'' @ a\<rparr>) (snd (track v s))))
     else track v s)"
  by (simp add: move_location_def Let_def track_set_presence track_set_location pr_key_def apsnd_def map_prod_def split: prod.split)

lemma track_transition_other: "fst x \<noteq> v \<Longrightarrow> track v (create_or_update_location mg node t x s) = track v s"
proof -
  obtain vm i b where x: "x = (vm, i, b)" by (rule prod_cases3)
  show "fst x \<noteq> v \<Longrightarrow> ?thesis"
    by (simp add: x create_or_update_location_def track_hold track_moved track_set_location case_prod_beta split: option.split bool.split)
      (auto simp: track_def row_of_append new_location_def split: option.split)
qed

lemma track_transition:
  assumes "snd (track vm s) = Some old" "lo_node old \<noteq> node"
  shows "track vm (create_or_update_location mg node t (vm, x) s) = track_move mg node t x old (fst (track vm s))"
proof -
  obtain i b where x: "x = (i, b)" by (rule prod.exhaust)
  obtain c reason where e: "missing_enough mg t (fst (track vm s) (lo_node old)) = (c, reason)" by (rule prod.exhaust)
  have r: "row_of lo_vm vm (wh_locations s) = Some old" using assms(1) by (simp add: track_def)
  show ?thesis
    using assms by (cases c) (simp_all add: create_or_update_location_def r missing_enough_eq e track_hold track_moved track_move_def Let_def x)
qed

lemma track_transitions:
  assumes "distinct (map fst moved)" "\<forall>x \<in> set moved. \<exists>l. snd (track (fst x) s) = Some l \<and> lo_node l \<noteq> node"
  shows "track vm (fold (create_or_update_location mg node t) moved s) = (case row_of fst vm moved of
      None \<Rightarrow> track vm s | Some x \<Rightarrow> track_move mg node t (snd x) (the (snd (track vm s))) (fst (track vm s)))"
  using assms
proof (induction moved arbitrary: s)
  case (Cons x xs)
  let ?s = "create_or_update_location mg node t x s"
  have others: "track (fst y) ?s = track (fst y) s" if "y \<in> set xs" for y
    using that Cons.prems(1) by (intro track_transition_other) auto
  have IH: "track vm (fold (create_or_update_location mg node t) xs ?s) = (case row_of fst vm xs of
      None \<Rightarrow> track vm ?s | Some x \<Rightarrow> track_move mg node t (snd x) (the (snd (track vm ?s))) (fst (track vm ?s)))"
    using Cons.prems others by (intro Cons.IH) auto
  show ?case
  proof (cases "fst x = vm")
    case True
    then have "row_of fst vm xs = None" using Cons.prems(1) by (auto simp: row_of_None_iff)
    moreover obtain l where "snd (track vm s) = Some l" "lo_node l \<noteq> node" using Cons.prems(2) True by auto
    moreover have "x = (vm, snd x)" using True by auto
    ultimately show ?thesis using IH track_transition[of vm s l node mg t "snd x"] True by simp
  next
    case False
    then show ?thesis using IH unfolding track_transition_other[OF False] by simp
  qed
qed simp

lemma stage_names: "x \<in> set (stage seen) \<Longrightarrow> fst x \<noteq> []"
  by (auto simp: stage_def)

lemma track_sightings:
  assumes "distinct (map fst rows)"
  shows "row_of pr_key (vm, n) (fold (upsert pr_key merge_presence) (map (seen_presence node t) rows) ps) =
    (case (if n = node then row_of fst vm rows else None) of
       Some x \<Rightarrow> Some (case row_of pr_key (vm, n) ps of None \<Rightarrow> seen_presence node t x | Some r \<Rightarrow> merge_presence r (seen_presence node t x))
     | None \<Rightarrow> row_of pr_key (vm, n) ps)"
proof -
  have d: "distinct (map pr_key (map (seen_presence node t) rows))" using assms by (simp add: comp_def distinct_map inj_on_def)
  have "row_of pr_key (vm, n) (map (seen_presence node t) rows) = (if n = node then map_option (seen_presence node t) (row_of fst vm rows) else None)"
    by (induction rows) auto
  then show ?thesis by (simp add: row_of_fold_upsert[OF presence_keys(4) d] split: option.split)
qed

lemma new_location_vm [simp]: "lo_vm (new_location node t x) = fst x"
  by (simp add: new_location_def case_prod_beta)

lemma row_of_refreshed:
  "row_of lo_vm vm (refresh_locations node t rows ls) = (case row_of fst vm rows of
      None \<Rightarrow> row_of lo_vm vm ls
    | Some x \<Rightarrow> Some (case row_of lo_vm vm ls of None \<Rightarrow> new_location node t x
        | Some l \<Rightarrow> if lo_node l = node then l\<lparr>lo_last_seen := max (lo_last_seen l) t, lo_iface := fst (snd x), lo_bridge := snd (snd x), lo_level := ''ok'', lo_flags := []\<rparr> else l))"
proof -
  let ?new = "map (new_location node t) (filter (\<lambda>x. row_of lo_vm (fst x) ls = None) rows)"
  have new: "row_of lo_vm vm ?new = (if row_of lo_vm vm ls = None then map_option (new_location node t) (row_of fst vm rows) else None)"
    by (induction rows) auto
  have all: "row_of lo_vm vm (ls @ ?new) = (case row_of lo_vm vm ls of None \<Rightarrow> map_option (new_location node t) (row_of fst vm rows) | Some l \<Rightarrow> Some l)"
    by (simp add: row_of_append new split: option.split)
  have key: "lo_vm r = vm" if "row_of lo_vm vm ls = Some r" for r using row_of_key[OF that] by simp
  have nk: "fst x = vm" if "row_of fst vm rows = Some x" for x using row_of_key[OF that] by simp
  define F where "F l = (if lo_node l = node then (case row_of fst (lo_vm l) rows of
        Some (vm, iface, bridge) \<Rightarrow> l\<lparr>lo_last_seen := max (lo_last_seen l) t, lo_iface := iface, lo_bridge := bridge, lo_level := ''ok'', lo_flags := []\<rparr>
      | None \<Rightarrow> l) else l)" for l :: location
  have "lo_vm (F l) = lo_vm l" for l by (simp add: F_def split: option.split prod.split)
  then have r: "row_of lo_vm vm (refresh_locations node t rows ls) = map_option F (row_of lo_vm vm (ls @ ?new))"
    unfolding refresh_locations_def F_def[symmetric] by (rule row_of_map)
  show ?thesis
  proof (cases "row_of lo_vm vm ls")
    case None
    show ?thesis
    proof (cases "row_of fst vm rows")
      case (Some x)
      obtain i b where x: "x = (vm, i, b)" using nk[OF Some] by (cases x) auto
      show ?thesis unfolding r all using None Some x by (simp add: F_def new_location_def)
    qed (simp add: r all None)
  next
    case (Some l)
    then have "lo_vm l = vm" by (rule key)
    then show ?thesis unfolding r all using Some by (cases "row_of fst vm rows") (auto simp: F_def split: prod.split)
  qed
qed

lemma track_missed:
  "track vm (mark_missing node names t s) = (if vm \<in> set names then track vm s
    else ((fst (track vm s))(node := track_missing t (fst (track vm s) node)), snd (track vm s)))"
proof -
  have "row_of pr_key (vm, n) (update_where (missed_by node names) (miss t) (wh_presence s))
      = (if n = node \<and> vm \<notin> set names then track_missing t (row_of pr_key (vm, n) (wh_presence s)) else row_of pr_key (vm, n) (wh_presence s))" for n
  proof (cases "row_of pr_key (vm, n) (wh_presence s)")
    case (Some r)
    then have "pr_vm r = vm" "pr_node r = n" using row_of_key[OF Some] by (auto simp: pr_key_def)
    then show ?thesis using Some by (cases "n = node") (simp_all add: row_of_update track_missing_def missed_by_def)
  next
    case None
    then show ?thesis by (cases "n = node") (simp_all add: row_of_update track_missing_def)
  qed
  then show ?thesis by (auto simp: mark_missing_def Let_def track_def intro!: ext)
qed

lemma push_track:
  assumes "process_node_vm_presence mg node seen t inventory_complete s = Some s'"
  shows "track vm s' = track_step mg node t inventory_complete vm (map_option snd (row_of fst vm (stage seen))) (track vm s)"
proof -
  let ?rows = "stage seen"
  define s1 where "s1 = s\<lparr>wh_presence := fold (upsert pr_key merge_presence) (map (seen_presence node t) ?rows) (wh_presence s),
      wh_vms := fold (upsert vm_key merge_vm) (map (seen_vm node t) ?rows) (wh_vms s)\<rparr>"
  define s2 where "s2 = (if inventory_complete then mark_missing node (map fst ?rows) t s1 else s1)"
  define moved where "moved = sort_key fst (filter (\<lambda>x. case row_of lo_vm (fst x) (wh_locations s2) of None \<Rightarrow> False | Some l \<Rightarrow> lo_node l \<noteq> node) ?rows)"
  define s3 where "s3 = s2\<lparr>wh_locations := refresh_locations node t ?rows (wh_locations s2)\<rparr>"
  have d: "distinct (map fst ?rows)" and s': "s' = fold (create_or_update_location mg node t) moved s3"
    using assms by (simp_all add: process_node_vm_presence_def Let_def s1_def s2_def s3_def moved_def split: if_splits)
  have ls: "wh_locations s2 = wh_locations s" by (simp add: s2_def s1_def mark_missing_def Let_def)
  obtain p l where t: "track vm s = (p, l)" by (rule prod.exhaust)
  have pl: "p = (\<lambda>n. row_of pr_key (vm, n) (wh_presence s))" "l = row_of lo_vm vm (wh_locations s)" using t by (simp_all add: track_def)
  have dm: "distinct (map fst moved)" using d by (auto simp: moved_def distinct_map intro: inj_on_subset)
  have moved_iff: "row_of fst vm moved = Some x \<longleftrightarrow> row_of fst vm ?rows = Some x \<and> (\<exists>old. l = Some old \<and> lo_node old \<noteq> node)" for x
  proof -
    show ?thesis unfolding row_of_Some_iff[OF dm] row_of_Some_iff[OF d] by (auto simp: moved_def ls pl(2) split: option.splits)
  qed
  have trans: "track vm s' = (case row_of fst vm moved of None \<Rightarrow> track vm s3
      | Some x \<Rightarrow> track_move mg node t (snd x) (the (snd (track vm s3))) (fst (track vm s3)))"
    unfolding s'
  proof (rule track_transitions)
    show "distinct (map fst moved)" by (rule dm)
    show "\<forall>x \<in> set moved. \<exists>l. snd (track (fst x) s3) = Some l \<and> lo_node l \<noteq> node"
      by (auto simp: moved_def s3_def track_def row_of_refreshed split: option.splits)
  qed
  show ?thesis
  proof (cases "row_of fst vm ?rows")
    case None
    then have n: "vm \<notin> set (map fst ?rows)" by (auto simp: row_of_None_iff)
    have "track vm s1 = (p, l)" using None by (auto simp: s1_def track_def track_sightings[OF d] pl intro!: ext)
    then have "track vm s2 = (if inventory_complete then p(node := track_missing t (p node)) else p, l)" using n by (simp add: s2_def track_missed)
    then have "track vm s3 = (if inventory_complete then p(node := track_missing t (p node)) else p, l)"
      using None by (simp add: s3_def track_def row_of_refreshed)
    moreover have "row_of fst vm moved = None" using moved_iff None by (cases "row_of fst vm moved") auto
    ultimately show ?thesis using None trans by (simp add: track_step_def t)
  next
    case (Some y)
    then obtain x where x: "row_of fst vm ?rows = Some (vm, x)" "y = (vm, x)" using row_of_key[OF Some] by (cases y) auto
    then have n: "vm \<in> set (map fst ?rows)" using row_of_key[OF x(1)] by force
    let ?p1 = "p(node := Some (case p node of None \<Rightarrow> seen_presence node t (vm, x) | Some r \<Rightarrow> merge_presence r (seen_presence node t (vm, x))))"
    have "track vm s1 = (?p1, l)" using x(1) by (auto simp: s1_def track_def track_sightings[OF d] pl intro!: ext)
    then have "track vm s2 = (?p1, l)" using n by (simp add: s2_def track_missed)
    then have t3: "track vm s3 = (?p1, Some (case l of None \<Rightarrow> new_location node t (vm, x)
        | Some old \<Rightarrow> if lo_node old = node then old\<lparr>lo_last_seen := max (lo_last_seen old) t, lo_iface := fst x, lo_bridge := snd x, lo_level := ''ok'', lo_flags := []\<rparr> else old))"
      using x(1) by (cases l) (simp_all add: s3_def track_def row_of_refreshed ls pl(2)[symmetric])
    show ?thesis
    proof (cases "\<exists>old. l = Some old \<and> lo_node old \<noteq> node")
      case True
      then obtain old where old: "l = Some old" "lo_node old \<noteq> node" by blast
      then have "row_of fst vm moved = Some (vm, x)" using moved_iff x(1) by simp
      then show ?thesis using trans t3 old x(1) by (simp add: track_step_def t Let_def)
    next
      case False
      then have "row_of fst vm moved \<noteq> Some y" for y using moved_iff[of y] by blast
      then have "row_of fst vm moved = None" by (cases "row_of fst vm moved") auto
      then show ?thesis using trans t3 False x(1) by (cases l) (auto simp: track_step_def t Let_def)
    qed
  qed
qed

end
