(* ===== verification/Presence_Claims.thy ===== *)
theory Presence_Claims
  imports Vm_Presence
begin

text \<open>
  The histories of the machines between nodes: the pushes, purges and deletions in any order, with
  what each node has missed. In every one a machine has one place, leaves it only after its node
  has missed it, and is found at its new node once the old one has.
\<close>

section \<open>The histories\<close>

text \<open>A visit: the node of a push, the machines it names, whether its inventory is complete, and its time; the newest first.\<close>

record visit =
  vs_node :: string
  vs_names :: "string list"
  vs_complete :: bool
  vs_time :: int

definition nowhere :: whereabouts where
  "nowhere = \<lparr>wh_presence = [], wh_vms = [], wh_locations = [], wh_events = []\<rparr>"

inductive roamed :: "migration_config \<Rightarrow> visit list \<Rightarrow> whereabouts \<Rightarrow> bool" for mg where
  fresh: "roamed mg [] nowhere"
| visit: "roamed mg vs s \<Longrightarrow> process_node_vm_presence mg node seen t c s = Some s' \<Longrightarrow>
    roamed mg (\<lparr>vs_node = node, vs_names = map fst (stage seen), vs_complete = c, vs_time = t\<rparr> # vs) s'"
| purge: "roamed mg vs s \<Longrightarrow> auto_purge_migrated_vms mg now s = (n, s') \<Longrightarrow> roamed mg vs s'"
| forget: "roamed mg vs s \<Longrightarrow> roamed mg vs (forget_vm vm s)"

text \<open>The complete inventories of a node without a machine since the node last named it, and the time of the first of them.\<close>

fun absences :: "string \<Rightarrow> string \<Rightarrow> visit list \<Rightarrow> int" where
  "absences vm a [] = 0"
| "absences vm a (v # vs) = (if vs_node v \<noteq> a then absences vm a vs else if vm \<in> set (vs_names v) then 0
     else (if vs_complete v then 1 else 0) + absences vm a vs)"

fun absent_since :: "string \<Rightarrow> string \<Rightarrow> visit list \<Rightarrow> int option" where
  "absent_since vm a [] = None"
| "absent_since vm a (v # vs) = (if vs_node v \<noteq> a then absent_since vm a vs else if vm \<in> set (vs_names v) then None
     else case absent_since vm a vs of None \<Rightarrow> (if vs_complete v then Some (vs_time v) else None) | Some t \<Rightarrow> Some t)"

lemma absences_nonneg: "0 \<le> absences vm a vs"
  by (induction vs) auto

definition row_ok :: "presence \<Rightarrow> bool" where
  "row_ok r \<longleftrightarrow> 0 \<le> pr_missing_count r \<and>
     (case pr_missing_since r of None \<Rightarrow> pr_missing_count r = 0 | Some m \<Rightarrow> 1 \<le> pr_missing_count r) \<and>
     (pr_status r = ''active'' \<and> pr_missing_since r = None
      \<or> pr_status r = ''pending_migration'' \<and> pr_pending_node r \<noteq> None
      \<or> pr_status r = ''missing'' \<and> pr_missing_since r \<noteq> None
      \<or> (pr_status r = ''migrated'' \<or> pr_status r = ''purged'' \<and> pr_purged_at r \<noteq> None)
          \<and> pr_missing_since r \<noteq> None \<and> pr_migrated_to r \<noteq> None \<and> pr_migrated_at r \<noteq> None)"

definition left_node :: "presence \<Rightarrow> bool" where
  "left_node r \<longleftrightarrow> pr_status r = ''migrated'' \<or> pr_status r = ''purged''"

definition track_ok :: "string \<Rightarrow> visit list \<Rightarrow> track \<Rightarrow> bool" where
  "track_ok vm vs s \<longleftrightarrow>
     (\<forall>a r. fst s a = Some r \<longrightarrow> pr_key r = (vm, a) \<and> row_ok r \<and> pr_missing_count r \<le> absences vm a vs \<and> pr_missing_since r = absent_since vm a vs) \<and>
     (case snd s of None \<Rightarrow> \<forall>a. fst s a = None
      | Some l \<Rightarrow> lo_vm l = vm \<and> (\<exists>r. fst s (lo_node l) = Some r \<and> \<not> left_node r))"

lemma row_ok_seen: "row_ok (seen_presence n t x)" "row_ok (merge_presence r (seen_presence n t x))"
  by (simp_all add: row_ok_def seen_presence_def merge_presence_def case_prod_beta)

lemma row_ok_miss: "row_ok r \<Longrightarrow> row_ok (miss t r)"
  by (auto simp: row_ok_def miss_def split: option.splits)

lemma row_ok_pend: "row_ok r \<Longrightarrow> row_ok (pend n fl r)"
  by (auto simp: row_ok_def pend_def split: option.splits)

lemma seen_fields [simp]:
  "pr_missing_since (seen_presence n t x) = None" "pr_missing_since (merge_presence r (seen_presence n t x)) = None"
  "pr_missing_count (seen_presence n t x) = 0" "pr_missing_count (merge_presence r (seen_presence n t x)) = 0"
  "\<not> left_node (seen_presence n t x)" "\<not> left_node (merge_presence r (seen_presence n t x))"
  "pr_key (merge_presence r y) = pr_key r"
  "pr_missing_since (pend n fl r) = pr_missing_since r" "pr_missing_count (pend n fl r) = pr_missing_count r" "\<not> left_node (pend n fl r)"
  "\<not> left_node (miss t r)"
  by (simp_all add: seen_presence_def merge_presence_def pend_def miss_def left_node_def pr_key_def case_prod_beta)

text \<open>The rows and the place after each kind of visit.\<close>

definition presence_ok :: "string \<Rightarrow> visit list \<Rightarrow> (string \<Rightarrow> presence option) \<Rightarrow> bool" where
  "presence_ok vm vs p \<longleftrightarrow> (\<forall>a r. p a = Some r \<longrightarrow>
     pr_key r = (vm, a) \<and> row_ok r \<and> pr_missing_count r \<le> absences vm a vs \<and> pr_missing_since r = absent_since vm a vs)"

definition place_ok :: "string \<Rightarrow> track \<Rightarrow> bool" where
  "place_ok vm s \<longleftrightarrow> (case snd s of None \<Rightarrow> \<forall>a. fst s a = None
      | Some l \<Rightarrow> lo_vm l = vm \<and> (\<exists>r. fst s (lo_node l) = Some r \<and> \<not> left_node r))"

lemma track_ok_parts: "track_ok vm vs s \<longleftrightarrow> presence_ok vm vs (fst s) \<and> place_ok vm s"
  by (simp add: track_ok_def presence_ok_def place_ok_def)

lemma presence_ok_update:
  assumes "presence_ok vm vs p" "\<And>r. p a = Some r \<Longrightarrow> pr_key r = (vm, a) \<Longrightarrow> row_ok r \<Longrightarrow>
      pr_key (f r) = pr_key r \<and> row_ok (f r) \<and> pr_missing_count (f r) = pr_missing_count r \<and> pr_missing_since (f r) = pr_missing_since r"
  shows "presence_ok vm vs (p(a := map_option f (p a)))"
  using assms by (auto simp: presence_ok_def)

lemma presence_ok_pend:
  assumes "presence_ok vm vs p" "a \<noteq> n"
  shows "presence_ok vm vs (p(a := map_option (pend x y) (p a), n := map_option (pend z w) (p n)))"
  using assms by (auto simp: presence_ok_def row_ok_pend)

lemma presence_ok_other: "presence_ok vm vs p \<Longrightarrow> vs_node v = node \<Longrightarrow> presence_ok vm (v # vs) (p(node := x)) \<longleftrightarrow>
  (\<forall>r. x = Some r \<longrightarrow> pr_key r = (vm, node) \<and> row_ok r \<and> pr_missing_count r \<le> absences vm node (v # vs) \<and> pr_missing_since r = absent_since vm node (v # vs))"
  by (auto simp: presence_ok_def)

lemma presence_ok_absent:
  assumes "presence_ok vm vs p" "vs_node v = node" "vs_complete v = c" "vs_time v = t" "vm \<notin> set (vs_names v)"
  shows "presence_ok vm (v # vs) (if c then p(node := track_missing t (p node)) else p)"
proof -
  have key: "pr_key r = (vm, node) \<and> row_ok r \<and> pr_missing_count r \<le> absences vm node (v # vs) \<and> pr_missing_since r = absent_since vm node (v # vs)"
    if x: "(if c then track_missing t (p node) else p node) = Some r" for r
  proof -
    obtain q where q: "p node = Some q" "r = (if c \<and> (pr_status q = ''active'' \<or> pr_status q = ''pending_migration'') then miss t q else q)"
      using x by (cases "p node") (auto simp: track_missing_def split: if_splits)
    have k: "pr_key q = (vm, node)" "row_ok q" "pr_missing_count q \<le> absences vm node vs" "pr_missing_since q = absent_since vm node vs"
      using assms(1) q(1) by (auto simp: presence_ok_def)
    show ?thesis
    proof (cases "c \<and> (pr_status q = ''active'' \<or> pr_status q = ''pending_migration'')")
      case True
      then have "r = miss t q" "c" using q(2) by simp_all
      then show ?thesis using k assms(2-5) row_ok_miss[OF k(2), of t] by (cases "absent_since vm node vs") (simp_all add: miss_def pr_key_def)
    next
      case False
      then have "r = q" using q(2) by argo
      moreover have "c \<Longrightarrow> pr_missing_since q \<noteq> None" using False k(2) by (auto simp: row_ok_def)
      ultimately show ?thesis using k assms(2-5) by (cases c) (auto split: option.split)
    qed
  qed
  have "presence_ok vm (v # vs) (p(node := if c then track_missing t (p node) else p node))"
    unfolding presence_ok_other[OF assms(1,2)] using key by blast
  then show ?thesis by (cases c) (simp_all add: fun_upd_idem)
qed

lemma track_missing_stays: "p = Some r \<Longrightarrow> \<not> left_node r \<Longrightarrow> \<exists>r'. track_missing t p = Some r' \<and> \<not> left_node r'"
  by (simp add: track_missing_def)

lemma presence_ok_named:
  assumes "presence_ok vm vs p" "vs_node v = node" "vm \<in> set (vs_names v)"
  shows "presence_ok vm (v # vs) (p(node := Some (case p node of None \<Rightarrow> seen_presence node t (vm, x) | Some r \<Rightarrow> merge_presence r (seen_presence node t (vm, x)))))"
  unfolding presence_ok_other[OF assms(1,2)] using assms by (auto simp: presence_ok_def row_ok_seen split: option.split)

lemma missing_enough_Some: "missing_enough mg t (Some r) = (let gone = pr_status r \<in> {''missing'', ''migrated'', ''purged''}; n = pr_missing_count r;
     since = (case pr_missing_since r of None \<Rightarrow> 0 | Some m \<Rightarrow> m) in
   if gone \<and> mg_confirm_pushes mg \<le> n then (True, ''old node missing for '' @ str_of_int n @ '' pushes'')
   else if gone \<and> since \<noteq> 0 \<and> mg_confirm_seconds mg \<le> t - since then (True, ''old node missing since '' @ mg_stamp mg since)
   else (False, ''waiting old node missing confirmation ('' @ str_of_int n @ ''/'' @ str_of_int (mg_confirm_pushes mg) @ '' pushes)''))"
  by (simp add: missing_enough_def old_node_missing_enough_def pr_key_def)

lemma enough_facts:
  assumes "missing_enough mg t p = (True, reason)"
  obtains r where "p = Some r" "pr_status r \<in> {''missing'', ''migrated'', ''purged''}"
    "mg_confirm_pushes mg \<le> pr_missing_count r \<or> (\<exists>m. pr_missing_since r = Some m \<and> mg_confirm_seconds mg \<le> t - m)"
proof (cases p)
  case None
  then show thesis using assms by (simp add: missing_enough_def old_node_missing_enough_def)
next
  case (Some r)
  then show thesis using assms that by (auto simp: missing_enough_Some Let_def split: if_splits option.splits)
qed

lemma track_ok_step:
  assumes ok: "track_ok vm vs s" and v: "vs_node v = node" "vs_complete v = c" "vs_time v = t" "(vm \<in> set (vs_names v)) = (seen \<noteq> None)"
  shows "track_ok vm (v # vs) (track_step mg node t c vm seen s)"
proof -
  obtain p l where s: "s = (p, l)" by (rule prod.exhaust)
  have r: "presence_ok vm vs p" and pl: "place_ok vm (p, l)" using ok by (simp_all add: track_ok_parts s)
  show ?thesis
  proof (cases seen)
    case None
    have "place_ok vm (if c then p(node := track_missing t (p node)) else p, l)"
    proof (cases l)
      case None
      then show ?thesis using pl by (simp add: place_ok_def track_missing_def)
    next
      case (Some old)
      then obtain r where "lo_vm old = vm" "p (lo_node old) = Some r" "\<not> left_node r" using pl by (auto simp: place_ok_def)
      then show ?thesis using track_missing_stays[of "p node" r t] by (cases "lo_node old = node") (auto simp: place_ok_def Some)
    qed
    then show ?thesis using presence_ok_absent[OF r v(1-3)] v(4) by (simp add: track_step_def s None track_ok_parts)
  next
    case (Some x)
    define p1 where "p1 = p(node := Some (case p node of None \<Rightarrow> seen_presence node t (vm, x) | Some r \<Rightarrow> merge_presence r (seen_presence node t (vm, x))))"
    have r1: "presence_ok vm (v # vs) p1" using presence_ok_named[OF r v(1), of t x] v(4) Some by (simp add: p1_def)
    have here: "\<exists>r. p1 node = Some r \<and> \<not> left_node r" by (auto simp: p1_def split: option.split)
    have step: "track_step mg node t c vm seen s = (case l of None \<Rightarrow> (p1, Some (new_location node t (vm, x)))
       | Some old \<Rightarrow> if lo_node old = node
           then (p1, Some (old\<lparr>lo_last_seen := max (lo_last_seen old) t, lo_iface := fst x, lo_bridge := snd x, lo_level := ''ok'', lo_flags := []\<rparr>))
           else track_move mg node t x old p1)" unfolding track_step_def s Some p1_def Let_def by simp
    show ?thesis
    proof (cases l)
      case None
      have "lo_node (new_location node t (vm, x)) = node" by (simp add: new_location_def case_prod_beta)
      then show ?thesis using r1 here None by (simp add: step track_ok_parts place_ok_def)
    next
      case (Some old)
      then have old: "lo_vm old = vm" using pl by (simp add: place_ok_def)
      show ?thesis
      proof (cases "lo_node old = node")
        case True
        then show ?thesis using r1 here Some old by (simp add: step track_ok_parts place_ok_def)
      next
        case False
        then obtain r where r: "p1 (lo_node old) = Some r" "\<not> left_node r" using pl Some by (auto simp: place_ok_def p1_def)
        obtain b reason where e: "missing_enough mg t (p1 (lo_node old)) = (b, reason)" by (rule prod.exhaust)
        show ?thesis
        proof (cases b)
          case True
          then have e': "missing_enough mg t (p1 (lo_node old)) = (True, reason)" using e by simp
          obtain r' where "p1 (lo_node old) = Some r'" "pr_status r' \<in> {''missing'', ''migrated'', ''purged''}"
              "mg_confirm_pushes mg \<le> pr_missing_count r' \<or> (\<exists>m. pr_missing_since r' = Some m \<and> mg_confirm_seconds mg \<le> t - m)"
            by (rule enough_facts[OF e'])
          then have m: "pr_status r = ''missing''" using r by (auto simp: left_node_def)
          let ?f = "\<lambda>r. r\<lparr>pr_status := ''migrated'', pr_migrated_to := Some node, pr_migrated_at := Some t, pr_flags := ''MIGRATED_TO:'' @ node\<rparr>"
          have "presence_ok vm (v # vs) (p1(lo_node old := map_option ?f (p1 (lo_node old))))"
            using r1 by (rule presence_ok_update) (use r m in \<open>auto simp: row_ok_def pr_key_def split: option.split\<close>)
          then show ?thesis using here False True old e
            by (simp add: step Some track_move_def track_ok_parts place_ok_def Let_def)
        next
          case b: False
          let ?s = "track_move mg node t x old p1"
          have "presence_ok vm (v # vs) (fst ?s)" using presence_ok_pend[OF r1 False] b e
            by (simp add: track_move_def Let_def)
          moreover have "place_ok vm ?s" using r old False b e by (simp add: track_move_def Let_def place_ok_def)
          ultimately show ?thesis using False by (simp add: step Some track_ok_parts)
        qed
      qed
    qed
  qed
qed

section \<open>Purges\<close>

lemma purge_track: "track vm (purge_presence now r s) = (if pr_vm r = vm then
    ((fst (track vm s))(pr_node r := map_option (\<lambda>p. p\<lparr>pr_status := ''purged'', pr_purged_at := Some now,
       pr_flags := ''PURGED_AFTER_MIGRATION_TO:'' @ (case pr_migrated_to r of None \<Rightarrow> ''None'' | Some n \<Rightarrow> n)\<rparr>) (fst (track vm s) (pr_node r))), snd (track vm s))
    else track vm s)"
proof -
  obtain v n where k: "pr_key r = (v, n)" "v = pr_vm r" "n = pr_node r" by (simp add: pr_key_def)
  show ?thesis unfolding purge_presence_def Let_def track_other_tables k(1) by (subst track_set_presence) (auto simp: k(2,3) pr_key_def)
qed

lemma purge_left_ok:
  assumes ok: "track_ok vm vs s" and l: "\<And>q. fst s a = Some q \<Longrightarrow> left_node q"
  shows "track_ok vm vs ((fst s)(a := map_option (\<lambda>p. p\<lparr>pr_status := ''purged'', pr_purged_at := Some now, pr_flags := fl\<rparr>) (fst s a)), snd s)"
proof -
  have "presence_ok vm vs ((fst s)(a := map_option (\<lambda>p. p\<lparr>pr_status := ''purged'', pr_purged_at := Some now, pr_flags := fl\<rparr>) (fst s a)))"
  proof (rule presence_ok_update)
    show "presence_ok vm vs (fst s)" using ok by (simp add: track_ok_parts)
  qed (use l in \<open>auto simp: row_ok_def left_node_def pr_key_def split: option.split\<close>)
  moreover have "place_ok vm ((fst s)(a := map_option (\<lambda>p. p\<lparr>pr_status := ''purged'', pr_purged_at := Some now, pr_flags := fl\<rparr>) (fst s a)), snd s)"
    using ok l by (fastforce simp: track_ok_parts place_ok_def split: option.splits)
  ultimately show ?thesis by (simp add: track_ok_parts)
qed

lemma purges_ok:
  assumes "track_ok vm vs (track vm s)" "\<And>r q. r \<in> set rows \<Longrightarrow> fst (track (pr_vm r) s) (pr_node r) = Some q \<Longrightarrow> left_node q"
  shows "track_ok vm vs (track vm (fold (purge_presence now) rows s))"
  using assms
proof (induction rows arbitrary: s)
  case (Cons r rows)
  have left: "left_node q" if "x \<in> set rows" "fst (track (pr_vm x) (purge_presence now r s)) (pr_node x) = Some q" for x q
    using that Cons.prems(2)[of x] by (auto simp: purge_track left_node_def split: if_splits)
  have "track_ok vm vs (track vm (purge_presence now r s))"
  proof (cases "pr_vm r = vm")
    case True
    then show ?thesis using purge_left_ok[OF Cons.prems(1), of "pr_node r"] Cons.prems(2)[of r] by (simp add: purge_track)
  next
    case False
    then show ?thesis using Cons.prems(1) by (simp add: purge_track)
  qed
  then show ?case using Cons.IH left by simp
qed simp

definition unique_rows :: "whereabouts \<Rightarrow> bool" where
  "unique_rows s \<longleftrightarrow> distinct (map pr_key (wh_presence s)) \<and> distinct (map lo_vm (wh_locations s))"

lemma forget_track: "track vm (forget_vm v s) = (if vm = v then (\<lambda>n. None, None) else track vm s)"
proof -
  have p: "row_of pr_key (vm, n) (filter (\<lambda>r. pr_vm r \<noteq> v) ps) = (if vm = v then None else row_of pr_key (vm, n) ps)" for ps n
  proof (induction ps)
    case (Cons r ps)
    then show ?case using pr_key_def[of r] by (cases "pr_vm r = v") auto
  qed simp
  have l: "row_of lo_vm vm (filter (\<lambda>l. lo_vm l \<noteq> v) ls) = (if vm = v then None else row_of lo_vm vm ls)" for ls
    by (induction ls) auto
  show ?thesis by (simp add: track_def forget_vm_def p l)
qed

lemma unique_transition: "unique_rows s \<Longrightarrow> unique_rows (create_or_update_location mg node t x s)"
proof -
  have p: "unique_rows s \<Longrightarrow> unique_rows (set_presence k f s)" if "\<And>r. pr_key (f r) = pr_key r" for k f s
    using that by (simp add: unique_rows_def set_presence_def map_key_update)
  have l: "unique_rows s \<Longrightarrow> unique_rows (set_location v f s)" if "\<And>r. lo_vm (f r) = lo_vm r" for v f s
    using that by (simp add: unique_rows_def set_location_def map_key_update)
  have o: "unique_rows (s\<lparr>wh_vms := a\<rparr>) = unique_rows s" "unique_rows (s\<lparr>wh_events := b\<rparr>) = unique_rows s" for s a b by (simp_all add: unique_rows_def)
  have h: "unique_rows s \<Longrightarrow> unique_rows (hold_location vm a node t reason s)" for vm a reason
    unfolding hold_location_def Let_def by (intro l) (simp_all add: o p)
  have m: "unique_rows s \<Longrightarrow> unique_rows (move_location vm a node t reason i b old s)" for vm a reason i b old
    unfolding move_location_def Let_def by (intro l) (simp_all add: o p pr_key_def)
  show "unique_rows s \<Longrightarrow> ?thesis"
    by (auto simp: create_or_update_location_def h m l case_prod_beta split: option.split bool.split)
      (auto simp: unique_rows_def row_of_None_iff)
qed

lemma unique_process:
  assumes "process_node_vm_presence mg node seen t c s = Some s'" "unique_rows s"
  shows "unique_rows s'"
proof -
  let ?rows = "stage seen"
  let ?s1 = "s\<lparr>wh_presence := fold (upsert pr_key merge_presence) (map (seen_presence node t) ?rows) (wh_presence s),
      wh_vms := fold (upsert vm_key merge_vm) (map (seen_vm node t) ?rows) (wh_vms s)\<rparr>"
  let ?s2 = "if c then mark_missing node (map fst ?rows) t ?s1 else ?s1"
  have d: "distinct (map fst ?rows)" using assms(1) by (simp add: process_node_vm_presence_def Let_def split: if_splits)
  have "unique_rows ?s2" using assms(2)
    by (simp add: unique_rows_def mark_missing_def Let_def map_key_update distinct_fold_upsert)
  moreover have "distinct (map lo_vm (refresh_locations node t ?rows ls))" if "distinct (map lo_vm ls)" for ls
  proof -
    have "map lo_vm (refresh_locations node t ?rows ls) = map lo_vm ls @ map fst (filter (\<lambda>x. row_of lo_vm (fst x) ls = None) ?rows)"
      by (auto simp: refresh_locations_def split: option.split)
    then show ?thesis using that d by (auto simp: distinct_map_filter row_of_None_iff)
  qed
  ultimately have "unique_rows (?s2\<lparr>wh_locations := refresh_locations node t ?rows (wh_locations ?s2)\<rparr>)" by (simp add: unique_rows_def)
  moreover have "unique_rows (fold (create_or_update_location mg node t) xs z)" if "unique_rows z" for xs z
    using that by (induction xs arbitrary: z) (simp_all add: unique_transition)
  ultimately show ?thesis using assms(1) by (auto simp: process_node_vm_presence_def Let_def split: if_splits)
qed

lemma unique_purges: "unique_rows s \<Longrightarrow> unique_rows (fold (purge_presence now) rows s)"
proof (induction rows arbitrary: s)
  case (Cons r rows)
  have "unique_rows (purge_presence now r s)" using Cons.prems
    by (simp add: purge_presence_def Let_def unique_rows_def set_presence_def map_key_update pr_key_def)
  then show ?case using Cons.IH by simp
qed simp

lemma roamed_track:
  assumes "roamed mg vs s"
  shows "unique_rows s \<and> (\<forall>vm. track_ok vm vs (track vm s))"
  using assms
proof (induction rule: roamed.induct)
  case fresh
  then show ?case by (simp add: unique_rows_def nowhere_def track_def track_ok_def)
next
  case (visit vs s node seen t c s')
  have "track_ok vm (\<lparr>vs_node = node, vs_names = map fst (stage seen), vs_complete = c, vs_time = t\<rparr> # vs) (track vm s')" for vm
    unfolding push_track[OF visit.hyps(2)] using visit.IH by (intro track_ok_step) (auto simp: row_of_None_iff image_iff)
  then show ?case using unique_process[OF visit.hyps(2)] visit.IH by blast
next
  case (purge vs s now n s')
  let ?rows = "take 500 (filter (\<lambda>r. pr_status r = ''migrated'' \<and> pr_purged_at r = None
    \<and> (case pr_migrated_at r of None \<Rightarrow> False | Some m \<Rightarrow> m \<le> now - mg_purge_seconds mg)) (wh_presence s))"
  have s': "s' = fold (purge_presence now) ?rows s" using purge.hyps(2) by (simp add: auto_purge_migrated_vms_def Let_def)
  have u: "unique_rows s" using purge.IH by blast
  have "left_node q" if "r \<in> set ?rows" "fst (track (pr_vm r) s) (pr_node r) = Some q" for r q
  proof -
    have r: "r \<in> set (wh_presence s)" "pr_status r = ''migrated''" using that(1) by (auto dest: in_set_takeD)
    have "row_of pr_key (pr_key r) (wh_presence s) = Some r" using u r(1) by (intro row_of_distinct) (simp_all add: unique_rows_def)
    then show ?thesis using that(2) r(2) by (simp add: track_def pr_key_def left_node_def)
  qed
  then show ?case unfolding s' using purges_ok purge.IH unique_purges[OF u] by blast
next
  case (forget vs s vm)
  have "unique_rows (forget_vm vm s)" using forget.IH by (simp add: unique_rows_def forget_vm_def distinct_map_filter)
  then show ?case using forget.IH by (simp add: forget_track track_ok_def)
qed

section \<open>Where a machine is\<close>


lemma track_step_moves:
  assumes ok: "track_ok vm vs (p, Some l)" and s: "track_step mg node t c vm seen (p, Some l) = (p', Some l')" and m: "lo_node l' \<noteq> lo_node l"
  shows "lo_node l' = node \<and> seen \<noteq> None \<and> (\<exists>m. absent_since vm (lo_node l) vs = Some m \<and> 1 \<le> absences vm (lo_node l) vs
    \<and> (mg_confirm_pushes mg \<le> absences vm (lo_node l) vs \<or> mg_confirm_seconds mg \<le> t - m))"
proof -
  obtain x where x: "seen = Some x" using s m by (cases seen) (auto simp: track_step_def)
  define p1 where "p1 = p(node := Some (case p node of None \<Rightarrow> seen_presence node t (vm, x) | Some r \<Rightarrow> merge_presence r (seen_presence node t (vm, x))))"
  have other: "lo_node l \<noteq> node" using s m by (auto simp: track_step_def x Let_def)
  then have mv: "track_move mg node t x l p1 = (p', Some l')" using s by (simp add: track_step_def x Let_def p1_def)
  obtain b reason where e: "missing_enough mg t (p1 (lo_node l)) = (b, reason)" by (rule prod.exhaust)
  have b: "b" using mv m e by (cases b) (auto simp: track_move_def Let_def)
  then have e': "missing_enough mg t (p (lo_node l)) = (True, reason)" using e other by (simp add: p1_def)
  obtain r where r: "p (lo_node l) = Some r" "pr_status r \<in> {''missing'', ''migrated'', ''purged''}"
      "mg_confirm_pushes mg \<le> pr_missing_count r \<or> (\<exists>m. pr_missing_since r = Some m \<and> mg_confirm_seconds mg \<le> t - m)"
    by (rule enough_facts[OF e'])
  have k: "row_ok r" "pr_missing_count r \<le> absences vm (lo_node l) vs" "pr_missing_since r = absent_since vm (lo_node l) vs"
    using ok r(1) by (auto simp: track_ok_def)
  have "pr_missing_since r \<noteq> None" using k(1) r(2) by (auto simp: row_ok_def)
  then obtain m where mm: "pr_missing_since r = Some m" by blast
  then have "1 \<le> pr_missing_count r" using k(1) by (simp add: row_ok_def)
  moreover have "lo_node l' = node" using mv b e by (auto simp: track_move_def Let_def)
  moreover have "absent_since vm (lo_node l) vs = Some m" using k(3) mm by simp
  moreover have "mg_confirm_pushes mg \<le> pr_missing_count r \<or> mg_confirm_seconds mg \<le> t - m" using r(3) mm by simp
  moreover have "seen \<noteq> None" using x by simp
  ultimately show ?thesis using k(2) by (meson order_trans)
qed

text \<open>C26. A push moves a machine only to the node that sends it and names the machine, and only after the node it leaves has itself
sent complete inventories without it since it last named it: as many as are configured, or the first of them long enough ago.\<close>

theorem moves_need_absence:
  assumes "roamed mg vs s" "process_node_vm_presence mg node seen t c s = Some s'"
    and "l \<in> set (wh_locations s)" "l' \<in> set (wh_locations s')" "lo_vm l' = lo_vm l" "lo_node l' \<noteq> lo_node l"
  shows "lo_node l' = node \<and> lo_vm l \<in> fst ` set (stage seen) \<and> (\<exists>m. absent_since (lo_vm l) (lo_node l) vs = Some m
    \<and> 1 \<le> absences (lo_vm l) (lo_node l) vs \<and> (mg_confirm_pushes mg \<le> absences (lo_vm l) (lo_node l) vs \<or> mg_confirm_seconds mg \<le> t - m))"
proof -
  have u: "unique_rows s" and ok: "track_ok (lo_vm l) vs (track (lo_vm l) s)" using roamed_track[OF assms(1)] by auto
  have u': "unique_rows s'" by (rule unique_process[OF assms(2) u])
  obtain p where t: "track (lo_vm l) s = (p, Some l)"
    using assms(3) u by (cases "track (lo_vm l) s") (auto simp: track_def unique_rows_def row_of_distinct)
  obtain p' where t': "track (lo_vm l) s' = (p', Some l')"
    using assms(4) u' row_of_distinct[of lo_vm "wh_locations s'" l'] by (cases "track (lo_vm l) s'") (auto simp: track_def unique_rows_def assms(5))
  have "track_step mg node t c (lo_vm l) (map_option snd (row_of fst (lo_vm l) (stage seen))) (p, Some l) = (p', Some l')"
    using push_track[OF assms(2), of "lo_vm l"] t t' by simp
  from track_step_moves[OF _ this assms(6)] ok t show ?thesis by (auto simp: row_of_None_iff image_iff)
qed

section \<open>A machine that has moved is found\<close>

text \<open>A round: a complete inventory of the node the machine left, without it, and a push of the node it is at, with it.\<close>

type_synonym round = "(sighting list \<times> int) \<times> (sighting list \<times> int \<times> bool)"

fun rounds :: "migration_config \<Rightarrow> string \<Rightarrow> string \<Rightarrow> round list \<Rightarrow> whereabouts \<Rightarrow> whereabouts option" where
  "rounds mg a b [] s = Some s"
| "rounds mg a b (((seen, t), (seen', t', c)) # rs) s = (case process_node_vm_presence mg a seen t True s of
      None \<Rightarrow> None
    | Some s1 \<Rightarrow> (case process_node_vm_presence mg b seen' t' c s1 of None \<Rightarrow> None | Some s2 \<Rightarrow> rounds mg a b rs s2))"

definition left_for :: "string \<Rightarrow> round \<Rightarrow> bool" where
  "left_for vm r = (case r of ((seen, t), (seen', t', c)) \<Rightarrow> distinct (map fst (stage seen)) \<and> distinct (map fst (stage seen'))
     \<and> vm \<notin> fst ` set (stage seen) \<and> vm \<in> fst ` set (stage seen'))"

text \<open>How often the old node has missed the machine, or will have with its next inventory.\<close>

definition missed_times :: "presence \<Rightarrow> int" where
  "missed_times r = pr_missing_count r + (if pr_status r = ''missing'' then 0 else 1)"

definition waits :: "migration_config \<Rightarrow> string \<Rightarrow> int \<Rightarrow> track \<Rightarrow> bool" where
  "waits mg a n s \<longleftrightarrow> (\<exists>l r. snd s = Some l \<and> lo_node l = a \<and> fst s a = Some r \<and> \<not> left_node r \<and> row_ok r \<and> n \<le> missed_times r)"

definition found_at :: "string \<Rightarrow> track \<Rightarrow> bool" where
  "found_at b s \<longleftrightarrow> (\<exists>l. snd s = Some l \<and> lo_node l = b)"

lemma found_stays: "found_at b s \<Longrightarrow> found_at b (track_step mg b t' c vm (Some x) (track_step mg a t True vm None s))"
  by (cases s) (auto simp: found_at_def track_step_def Let_def)

lemma missed_row:
  assumes "\<not> left_node r" "row_ok r"
  shows "\<exists>r'. track_missing t (Some r) = Some r' \<and> pr_status r' = ''missing'' \<and> pr_missing_count r' = missed_times r \<and> row_ok r'"
proof (cases "pr_status r = ''missing''")
  case True
  then show ?thesis using assms(2) by (simp add: track_missing_def missed_times_def)
next
  case False
  then have "pr_status r = ''active'' \<or> pr_status r = ''pending_migration''" using assms by (auto simp: left_node_def row_ok_def)
  then show ?thesis using False row_ok_miss[OF assms(2), of t] by (simp add: track_missing_def missed_times_def) (simp add: miss_def)
qed

lemma track_round:
  assumes "waits mg a n s" "a \<noteq> b"
  shows "found_at b (track_step mg b t' c vm (Some x) (track_step mg a t True vm None s))
    \<or> n < mg_confirm_pushes mg \<and> waits mg a (n + 1) (track_step mg b t' c vm (Some x) (track_step mg a t True vm None s))"
proof -
  obtain p where s: "fst s = p" by simp
  obtain l r where r: "snd s = Some l" "lo_node l = a" "p a = Some r" "\<not> left_node r" "row_ok r" "n \<le> missed_times r"
    using assms(1) s by (auto simp: waits_def)
  obtain q where q: "track_missing t (Some r) = Some q" "pr_status q = ''missing''" "pr_missing_count q = missed_times r" "row_ok q"
    using missed_row[OF r(4,5)] by blast
  have s1: "track_step mg a t True vm None s = (p(a := Some q), Some l)"
    using s r(1,3) q(1) by (cases s) (simp add: track_step_def)
  define p1 where "p1 = p(a := Some q, b := Some (case p b of None \<Rightarrow> seen_presence b t' (vm, x) | Some r \<Rightarrow> merge_presence r (seen_presence b t' (vm, x))))"
  have s2: "track_step mg b t' c vm (Some x) (p(a := Some q), Some l) = track_move mg b t' x l p1"
    using assms(2) r(2) by (simp add: track_step_def Let_def p1_def)
  obtain e reason where e: "missing_enough mg t' (Some q) = (e, reason)" by (rule prod.exhaust)
  have pa: "p1 a = Some q" using assms(2) by (simp add: p1_def)
  show ?thesis
  proof (cases e)
    case True
    then show ?thesis using e pa r(2) by (simp add: s1 s2 track_move_def Let_def found_at_def)
  next
    case False
    then have "pr_missing_count q < mg_confirm_pushes mg" using e q(2) by (auto simp: missing_enough_Some Let_def split: if_splits)
    moreover have "waits mg a (n + 1) (track_move mg b t' x l p1)"
      using False e pa r(2,6) assms(2) q(3) row_ok_pend[OF q(4)]
      by (simp add: track_move_def Let_def waits_def missed_times_def) (simp add: pend_def)
    ultimately show ?thesis using q(3) r(6) by (simp add: s1 s2)
  qed
qed

lemma rounds_find:
  assumes "a \<noteq> b" "\<forall>r \<in> set rs. left_for vm r" "found_at b (track vm s) \<or> waits mg a n (track vm s) \<and> mg_confirm_pushes mg < n + int (length rs) \<and> rs \<noteq> []"
  shows "\<exists>s'. rounds mg a b rs s = Some s' \<and> found_at b (track vm s')"
  using assms(2,3)
proof (induction rs arbitrary: s n)
  case (Cons r rs)
  obtain seen t seen' t' c where r: "r = ((seen, t), (seen', t', c))" by (metis prod.exhaust)
  have d: "distinct (map fst (stage seen))" "distinct (map fst (stage seen'))" "vm \<notin> fst ` set (stage seen)" "vm \<in> fst ` set (stage seen')"
    using Cons.prems(1) r by (simp_all add: left_for_def)
  obtain s1 where s1: "process_node_vm_presence mg a seen t True s = Some s1" using d(1) by (simp add: process_node_vm_presence_def Let_def)
  obtain s2 where s2: "process_node_vm_presence mg b seen' t' c s1 = Some s2" using d(2) by (simp add: process_node_vm_presence_def Let_def)
  have n: "row_of fst vm (stage seen) = None" using d(3) by (auto simp: row_of_None_iff)
  have "row_of fst vm (stage seen') \<noteq> None" using d(4) by (auto simp: row_of_None_iff)
  then obtain y where y: "row_of fst vm (stage seen') = Some y" by blast
  have t2: "track vm s2 = track_step mg b t' c vm (Some (snd y)) (track_step mg a t True vm None (track vm s))"
    using push_track[OF s1, of vm] push_track[OF s2, of vm] n y by simp
  have "found_at b (track vm s2) \<or> waits mg a (n + 1) (track vm s2) \<and> mg_confirm_pushes mg < (n + 1) + int (length rs) \<and> rs \<noteq> []"
  proof (cases "found_at b (track vm s)")
    case True
    then show ?thesis using found_stays t2 by simp
  next
    case False
    then have w: "waits mg a n (track vm s)" "mg_confirm_pushes mg < n + int (length rs) + 1" using Cons.prems(2) by simp_all
    show ?thesis using track_round[OF w(1) assms(1), of t' c vm "snd y" t] w(2) unfolding t2 by (cases rs) auto
  qed
  then obtain s' where "rounds mg a b rs s2 = Some s'" "found_at b (track vm s')" using Cons.IH[of s2 "n + 1"] Cons.prems(1) by auto
  then show ?case by (simp add: r s1 s2)
qed simp

text \<open>C27. A machine that has moved is found: after as many rounds as pushes are configured, each with a complete inventory of the
node it left without it and a push of its new node with it, its place is the new node.\<close>

theorem moved_machine_is_found:
  assumes "roamed mg vs s" "l \<in> set (wh_locations s)" "lo_vm l = vm" "lo_node l = a" "a \<noteq> b"
    and "\<forall>r \<in> set rs. left_for vm r" "mg_confirm_pushes mg \<le> int (length rs)" "rs \<noteq> []"
  shows "\<exists>s'. rounds mg a b rs s = Some s' \<and> (\<exists>l' \<in> set (wh_locations s'). lo_vm l' = vm \<and> lo_node l' = b)"
proof -
  have u: "unique_rows s" and ok: "track_ok vm vs (track vm s)" using roamed_track[OF assms(1)] by auto
  have t: "snd (track vm s) = Some l" using assms(2,3) u by (auto simp: track_def unique_rows_def row_of_distinct)
  obtain r where r: "fst (track vm s) a = Some r" "\<not> left_node r" "row_ok r" using ok t assms(4) by (auto simp: track_ok_def)
  have "1 \<le> missed_times r" using r(3) by (auto simp: missed_times_def row_ok_def split: option.splits)
  then have w: "waits mg a 1 (track vm s)" using t r assms(4) by (auto simp: waits_def)
  obtain s' where s': "rounds mg a b rs s = Some s'" "found_at b (track vm s')"
    using rounds_find[OF assms(5,6), of s mg 1] w assms(7,8) by auto
  then obtain l' where "row_of lo_vm vm (wh_locations s') = Some l'" "lo_node l' = b" by (auto simp: found_at_def track_def)
  then show ?thesis using s'(1) row_of_key[of lo_vm vm "wh_locations s'" l'] by auto
qed

section \<open>A history\<close>

definition short_watch :: migration_config where
  "short_watch = \<lparr>mg_confirm_pushes = 2, mg_confirm_seconds = 900, mg_purge_seconds = 86400, mg_stamp = str_of_int\<rparr>"

definition web :: sighting where
  "web = (''web'', ''vnet0'', ''br0'')"

definition at_home :: whereabouts where
  "at_home = the (process_node_vm_presence short_watch ''oslo'' [web] 1000 True nowhere)"

definition gone_once :: whereabouts where
  "gone_once = the (process_node_vm_presence short_watch ''oslo'' [] 1300 True at_home)"

definition gone_long :: whereabouts where
  "gone_long = the (process_node_vm_presence short_watch ''bergen'' [web] 2300 True gone_once)"

lemma at_home_pushed: "process_node_vm_presence short_watch ''oslo'' [web] 1000 True nowhere = Some at_home"
  by (simp add: at_home_def process_node_vm_presence_def Let_def stage_def web_def)

lemma gone_once_pushed: "process_node_vm_presence short_watch ''oslo'' [] 1300 True at_home = Some gone_once"
  by (simp add: gone_once_def process_node_vm_presence_def Let_def stage_def)

lemma gone_long_pushed: "process_node_vm_presence short_watch ''bergen'' [web] 2300 True gone_once = Some gone_long"
  by (simp add: gone_long_def process_node_vm_presence_def Let_def stage_def web_def)

lemma home_history: "roamed short_watch [\<lparr>vs_node = ''oslo'', vs_names = [''web''], vs_complete = True, vs_time = 1000\<rparr>] at_home"
proof -
  have "map fst (stage [web]) = [''web'']" by code_simp
  then show ?thesis using roamed.visit[OF roamed.fresh at_home_pushed] by simp
qed

lemma once_history: "roamed short_watch [\<lparr>vs_node = ''oslo'', vs_names = [], vs_complete = True, vs_time = 1300\<rparr>,
    \<lparr>vs_node = ''oslo'', vs_names = [''web''], vs_complete = True, vs_time = 1000\<rparr>] gone_once"
  using roamed.visit[OF home_history gone_once_pushed] by (simp add: stage_def)

lemma at_home_places: "map (\<lambda>l. (lo_vm l, lo_node l)) (wh_locations at_home) = [(''web'', ''oslo'')]"
  by code_simp

lemma gone_once_places: "map (\<lambda>l. (lo_vm l, lo_node l)) (wh_locations gone_once) = [(''web'', ''oslo'')]"
  by code_simp

lemma gone_long_places: "map (\<lambda>l. (lo_vm l, lo_node l)) (wh_locations gone_long) = [(''web'', ''bergen'')]"
  by code_simp

lemma places_one: "map (\<lambda>l. (lo_vm l, lo_node l)) ls = [(v, n)] \<Longrightarrow> \<exists>l. ls = [l] \<and> lo_vm l = v \<and> lo_node l = n"
  by (auto simp: map_eq_Cons_conv)


theorem moves_need_absence_witness:
  "\<exists>m. absent_since ''web'' ''oslo'' [\<lparr>vs_node = ''oslo'', vs_names = [], vs_complete = True, vs_time = 1300\<rparr>,
    \<lparr>vs_node = ''oslo'', vs_names = [''web''], vs_complete = True, vs_time = 1000\<rparr>] = Some m \<and> 900 \<le> 2300 - m"
proof -
  obtain l where l: "wh_locations gone_once = [l]" "lo_vm l = ''web''" "lo_node l = ''oslo''" using places_one[OF gone_once_places] by blast
  obtain l' where l': "wh_locations gone_long = [l']" "lo_vm l' = ''web''" "lo_node l' = ''bergen''" using places_one[OF gone_long_places] by blast
  show ?thesis using moves_need_absence[OF once_history gone_long_pushed, of l l'] l l' by (auto simp: short_watch_def)
qed

definition two_rounds :: "round list" where
  "two_rounds = [(([], 1300), ([web], 1310, True)), (([], 1600), ([web], 1610, True))]"

theorem moved_machine_is_found_witness:
  "\<exists>s'. rounds short_watch ''oslo'' ''bergen'' two_rounds at_home = Some s' \<and> (\<exists>l' \<in> set (wh_locations s'). lo_vm l' = ''web'' \<and> lo_node l' = ''bergen'')"
proof -
  obtain l where l: "wh_locations at_home = [l]" "lo_vm l = ''web''" "lo_node l = ''oslo''" using places_one[OF at_home_places] by blast
  have "\<forall>r \<in> set two_rounds. left_for ''web'' r" by code_simp
  then show ?thesis using moved_machine_is_found[OF home_history, of l "''web''" "''oslo''" "''bergen''" two_rounds] l
    by (simp add: two_rounds_def short_watch_def)
qed

end
