(* ===== verification/Api_Keys.thy ===== *)
theory Api_Keys
  imports Inventory
begin

text \<open>
  The keys of the read-only API (layers 21 to 23): the tables api_keys, api_key_events and
  api_access_logs, the check of a call (\<open>_api_authenticate\<close>) with the windows of the rate limit, and the
  pages that create, change, rotate, revoke and delete keys. Parsing of addresses, the hash and the
  random tokens are parameters.
\<close>

section \<open>Keys, calls and what the installation provides\<close>

record api_key =
  ak_id :: int
  ak_key :: string
  ak_name :: string
  ak_hash :: string
  ak_scopes :: "string list"
  ak_ips :: "string list"
  ak_active :: bool
  ak_created_at :: int
  ak_created_by :: string
  ak_expires :: "int option"
  ak_used_at :: "int option"
  ak_used_ip :: string
  ak_uses :: int
  ak_revoked_at :: "int option"
  ak_revoked_by :: string
  ak_rotated_from :: string
  ak_note :: string

record key_event =
  ke_time :: int
  ke_type :: string
  ke_key :: string
  ke_name :: string
  ke_actor :: string
  ke_ip :: string
  ke_detail :: string

text \<open>A row of api_access_logs, without the duration, the size and the user agent.\<close>

record access_row =
  al_time :: int
  al_request :: string
  al_key :: string
  al_name :: string
  al_ip :: string
  al_method :: string
  al_path :: string
  al_query :: string
  al_endpoint :: string
  al_status :: int
  al_error :: string

record api_tables =
  at_keys :: "api_key list"
  at_next :: int
  at_events :: "key_event list"
  at_logs :: "access_row list"

text \<open>What a process keeps: the windows of the rate limit, the last flush of a key and an address, the last pruning of the log.\<close>

record api_memory =
  am_rates :: "((string \<times> string \<times> int) \<times> int) list"
  am_used :: "((string \<times> string) \<times> int) list"
  am_pruned :: int

text \<open>
  \<open>ipaddress\<close>: the canonical texts of an address and of a network, and membership of the canonical
  texts; SHA-256; the trusted proxies as canonical networks; the constants of the layers.
\<close>

record network =
  nt_address :: "string \<Rightarrow> string option"
  nt_network :: "string \<Rightarrow> string option"
  nt_member :: "string \<Rightarrow> string \<Rightarrow> bool"
  nt_sha :: "string \<Rightarrow> string"
  nt_trust_proxy :: bool
  nt_proxies :: "string list"
  nt_limit :: int
  nt_flush :: int
  nt_logs :: bool
  nt_days :: int

record call =
  cl_now :: int
  cl_remote :: string
  cl_forwarded :: string
  cl_real_ip :: string
  cl_auth :: string
  cl_method :: string
  cl_path :: string
  cl_query :: string
  cl_endpoint :: string
  cl_request :: string

definition API_SUPPORTED_SCOPES :: "string list" where
  "API_SUPPORTED_SCOPES = [''abuse:read'', ''abuse_events:read'', ''vm:read'', ''node:read'', ''bandwidth:read'', ''api_logs:read'']"

section \<open>Names, scopes and lists of addresses\<close>

definition clean_scopes :: "string list \<Rightarrow> string list" where
  "clean_scopes values = dedup_first [] (filter (\<lambda>v. v \<in> set API_SUPPORTED_SCOPES) (map (\<lambda>v. lower (strip v)) values))"

definition clean_key_name :: "string \<Rightarrow> string + string" where
  "clean_key_name value = (let v = join '' '' (words_ws (strip value)) in
     if length v < 3 then Inl ''API key name must be at least 3 characters.''
     else if 80 < length v then Inl ''API key name must not exceed 80 characters.''
     else Inr v)"

text \<open>The tokens of a text; a list has its items as tokens.\<close>

definition allowlist_tokens :: "string \<Rightarrow> string list" where
  "allowlist_tokens text = split_on (CHR 0x0A) (map (\<lambda>c. if c \<in> {CHR 0x0D, CHR '','', CHR '';'', CHR '' '', CHR 0x09} then CHR 0x0A else c) text)"

definition canonical :: "network \<Rightarrow> string \<Rightarrow> string option" where
  "canonical net token = (if CHR ''/'' \<in> set token then nt_network net token else nt_address net token)"

fun normalize_from :: "network \<Rightarrow> string list \<Rightarrow> string list \<Rightarrow> string + string list" where
  "normalize_from net result [] = Inr result"
| "normalize_from net result (t # ts) = (let token = strip t in
     if token = [] then normalize_from net result ts
     else (case canonical net token of
         None \<Rightarrow> Inl (''Invalid allowed IP or CIDR: '' @ token)
       | Some c \<Rightarrow> normalize_from net (if c \<in> set result then result else result @ [c]) ts))"

definition normalize_allowlist :: "network \<Rightarrow> string list \<Rightarrow> string + string list" where
  "normalize_allowlist net tokens = (case normalize_from net [] tokens of
      Inl e \<Rightarrow> Inl e
    | Inr result \<Rightarrow> if 64 < length result then Inl ''A maximum of 64 IP/CIDR entries is allowed per key.'' else Inr result)"

definition ip_in_networks :: "network \<Rightarrow> string \<Rightarrow> string list \<Rightarrow> bool" where
  "ip_in_networks net ip networks = (case nt_address net (strip ip) of None \<Rightarrow> False | Some a \<Rightarrow> list_ex (nt_member net a) networks)"

definition first_forwarded :: "call \<Rightarrow> string" where
  "first_forwarded c = strip (takeWhile (\<lambda>x. x \<noteq> CHR '','') (cl_forwarded c))"

definition api_client_ip :: "network \<Rightarrow> call \<Rightarrow> string" where
  "api_client_ip net c =
     (let remote = strip (cl_remote c) in
      if \<not> nt_trust_proxy net \<or> \<not> ip_in_networks net remote (nt_proxies net) then remote
      else (case nt_address net (first_forwarded c) of None \<Rightarrow> remote | Some a \<Rightarrow> a))"

text \<open>The address in the log of the pages, from the headers as they are.\<close>

definition client_ip :: "call \<Rightarrow> string" where
  "client_ip c = str_or (first_forwarded c) (str_or (cl_real_ip c) (str_or (cl_remote c) ''-''))"

definition allowed_by :: "network \<Rightarrow> string \<Rightarrow> string \<Rightarrow> bool" where
  "allowed_by net a entry = (if CHR ''/'' \<in> set entry then (case nt_network net entry of None \<Rightarrow> False | Some n \<Rightarrow> nt_member net a n)
     else nt_address net entry = Some a)"

definition allowlist_matches :: "network \<Rightarrow> string \<Rightarrow> string list \<Rightarrow> bool" where
  "allowlist_matches net ip entries = (if entries = [] then True
     else (case nt_address net ip of None \<Rightarrow> False | Some a \<Rightarrow> list_ex (allowed_by net a) entries))"

section \<open>Tokens\<close>

text \<open>\<open>s.split(c, n)\<close>\<close>

fun split_max :: "nat \<Rightarrow> char \<Rightarrow> string \<Rightarrow> string list" where
  "split_max 0 c s = [s]"
| "split_max (Suc n) c s = (if c \<in> set s then takeWhile (\<lambda>x. x \<noteq> c) s # split_max n c (tl (dropWhile (\<lambda>x. x \<noteq> c) s)) else [s])"

definition key_token :: "string \<Rightarrow> string \<Rightarrow> string" where
  "key_token key_id secret = ''bwm_live_'' @ key_id @ ''_'' @ secret"

definition parse_token :: "string \<Rightarrow> (string \<times> string) option" where
  "parse_token token = (case split_max 3 (CHR ''_'') (strip token) of
      [a, b, c, d] \<Rightarrow>
        (let key_id = lower (strip c); secret = strip d in
         if a \<noteq> ''bwm'' \<or> b \<noteq> ''live'' then None
         else if length key_id \<noteq> 12 \<or> list_ex (\<lambda>ch. ch \<notin> set ''0123456789abcdef'') key_id then None
         else if length secret < 32 \<or> 256 < length secret then None
         else Some (key_id, secret))
    | _ \<Rightarrow> None)"

definition extract_bearer :: "string \<Rightarrow> string" where
  "extract_bearer authorization =
     (let header = strip authorization; scheme = takeWhile (\<lambda>c. c \<noteq> CHR '' '') header in
      if scheme = header \<or> lower scheme \<noteq> ''bearer'' then [] else strip (drop (length scheme + 1) header))"

section \<open>Tables\<close>

definition get_key_by_id :: "string \<Rightarrow> api_tables \<Rightarrow> api_key option" where
  "get_key_by_id key_id t = row_of ak_key (lower key_id) (at_keys t)"

definition log_key_event :: "int \<Rightarrow> string \<Rightarrow> string \<Rightarrow> string \<Rightarrow> string \<Rightarrow> string \<Rightarrow> string \<Rightarrow> api_tables \<Rightarrow> api_tables" where
  "log_key_event now event key_id key_name actor ip detail t = t\<lparr>at_events := at_events t @
     [\<lparr>ke_time = now, ke_type = take 48 event, ke_key = take 64 key_id, ke_name = take 120 key_name, ke_actor = take 120 actor,
       ke_ip = take 128 ip, ke_detail = take 1000 detail\<rparr>]\<rparr>"

definition update_key :: "string \<Rightarrow> (api_key \<Rightarrow> api_key) \<Rightarrow> api_tables \<Rightarrow> api_tables" where
  "update_key key_id f t = t\<lparr>at_keys := update_where (\<lambda>r. ak_key r = key_id) f (at_keys t)\<rparr>"

definition expiry_text :: "int option \<Rightarrow> string" where
  "expiry_text e = (case e of None \<Rightarrow> ''never'' | Some x \<Rightarrow> str_of_int x)"

text \<open>
  A new key: the random pair of key id and secret is the first of \<open>random\<close>. Were the id taken, the
  failed INSERT would leave the transaction aborted, so that the next try fails whatever its id.
\<close>

definition new_key :: "network \<Rightarrow> int \<Rightarrow> string \<times> string \<Rightarrow> string \<Rightarrow> string list \<Rightarrow> string list \<Rightarrow> int option \<Rightarrow> string \<Rightarrow> string \<Rightarrow> string \<Rightarrow> api_tables \<Rightarrow> api_key" where
  "new_key net now pair name scopes ips expires actor note_text from t =
     \<lparr>ak_id = at_next t, ak_key = fst pair, ak_name = name, ak_hash = nt_sha net (snd pair), ak_scopes = scopes, ak_ips = ips, ak_active = True,
      ak_created_at = now, ak_created_by = actor, ak_expires = expires, ak_used_at = None, ak_used_ip = [], ak_uses = 0, ak_revoked_at = None,
      ak_revoked_by = [], ak_rotated_from = take 64 from, ak_note = note_text\<rparr>"

definition create_key_record ::
  "network \<Rightarrow> call \<Rightarrow> string \<times> string \<Rightarrow> string \<Rightarrow> string list \<Rightarrow> string list \<Rightarrow> int option \<Rightarrow> string \<Rightarrow> string \<Rightarrow> string \<Rightarrow> api_tables \<Rightarrow> string + string \<times> string \<times> api_tables" where
  "create_key_record net c pair name scopes ips expires actor note_text from t =
     (case clean_key_name name of Inl e \<Rightarrow> Inl e | Inr name' \<Rightarrow>
       (let scopes' = clean_scopes scopes in
        if scopes' = [] then Inl ''Select at least one API permission.''
        else (case normalize_allowlist net ips of Inl e \<Rightarrow> Inl e | Inr ips' \<Rightarrow>
          (let expires' = (if expires = Some 0 then None else expires); actor' = take 120 (strip (str_or actor ''admin'')) in
           if (case expires' of None \<Rightarrow> False | Some e \<Rightarrow> e \<le> cl_now c) then Inl ''Expiration must be in the future.''
           else if row_of ak_key (fst pair) (at_keys t) \<noteq> None then Inl ''current transaction is aborted, commands ignored until end of transaction block''
           else (let row = new_key net (cl_now c) pair name' scopes' ips' expires' actor' (take 500 (strip note_text)) from t in
             Inr (fst pair, key_token (fst pair) (snd pair),
               log_key_event (cl_now c) ''KEY_CREATED'' (fst pair) name' actor' (api_client_ip net c)
                 (''scopes='' @ join '','' scopes' @ ''; expires_at='' @ expiry_text expires')
                 (t\<lparr>at_keys := at_keys t @ [row], at_next := at_next t + 1\<rparr>)))))))"

section \<open>A call\<close>

text \<open>A refusal: code, message and HTTP status.\<close>

type_synonym refusal = "string \<times> string \<times> int"

text \<open>More than 10000 windows make the process forget up to 8000 that are older than two minutes.\<close>

definition prune_rates :: "int \<Rightarrow> ((string \<times> string \<times> int) \<times> int) list \<Rightarrow> ((string \<times> string \<times> int) \<times> int) list" where
  "prune_rates minute ws = (if 10000 < length ws
     then (let stale = take 8000 (filter (\<lambda>k. snd (snd k) < minute - 2) (map fst ws)) in filter (\<lambda>w. fst w \<notin> set stale) ws)
     else ws)"

definition rate_count :: "string \<times> string \<times> int \<Rightarrow> api_memory \<Rightarrow> int" where
  "rate_count k m = (case row_of fst k (am_rates m) of None \<Rightarrow> 0 | Some w \<Rightarrow> snd w)"

definition rate_allowed :: "network \<Rightarrow> string \<Rightarrow> string \<Rightarrow> int \<Rightarrow> api_memory \<Rightarrow> bool \<times> api_memory" where
  "rate_allowed net key_id ip now m =
     (let minute = now div 60; m1 = m\<lparr>am_rates := prune_rates minute (am_rates m)\<rparr>; k = (key_id, ip, minute); count = rate_count k m1 + 1 in
      (count \<le> nt_limit net, m1\<lparr>am_rates := upsert fst (\<lambda>old new. new) (k, count) (am_rates m1)\<rparr>))"

definition flush_last_used :: "network \<Rightarrow> string \<Rightarrow> string \<Rightarrow> int \<Rightarrow> api_tables \<times> api_memory \<Rightarrow> api_tables \<times> api_memory" where
  "flush_last_used net key_id ip now s =
     (let (t, m) = s; last_flush = (case row_of fst (key_id, ip) (am_used m) of None \<Rightarrow> 0 | Some w \<Rightarrow> snd w) in
      if now - last_flush < nt_flush net then s
      else (t\<lparr>at_keys := update_where (\<lambda>r. ak_key r = key_id \<and> ak_active r)
              (\<lambda>r. r\<lparr>ak_used_at := Some now, ak_used_ip := take 128 ip, ak_uses := ak_uses r + 1\<rparr>) (at_keys t)\<rparr>,
            m\<lparr>am_used := upsert fst (\<lambda>old new. new) ((key_id, ip), now) (am_used m)\<rparr>))"

definition expired :: "int option \<Rightarrow> int \<Rightarrow> bool" where
  "expired e now = (case e of None \<Rightarrow> False | Some x \<Rightarrow> x \<noteq> 0 \<and> x \<le> now)"

text \<open>The checks before the rate limit, with the event of a refusal.\<close>

definition check_key :: "network \<Rightarrow> string list \<Rightarrow> call \<Rightarrow> api_tables \<Rightarrow> (refusal + api_key) \<times> api_tables" where
  "check_key net required c t =
     (let ip = api_client_ip net c in
      case parse_token (extract_bearer (cl_auth c)) of
        None \<Rightarrow> (Inl (''missing_or_invalid_api_key'', ''Provide a valid Bearer API key.'', 401), t)
      | Some (key_id, secret) \<Rightarrow>
          (case get_key_by_id key_id t of
             None \<Rightarrow> (Inl (''invalid_api_key'', ''The API key is invalid.'', 401), t)
           | Some key \<Rightarrow>
               (let missing = filter (\<lambda>s. s \<notin> set (ak_scopes key)) required;
                    logged = (\<lambda>event detail. log_key_event (cl_now c) event key_id (ak_name key) ''api'' ip detail t) in
                if ak_hash key \<noteq> nt_sha net secret then (Inl (''invalid_api_key'', ''The API key is invalid.'', 401), logged ''AUTH_FAILED'' (cl_path c))
                else if \<not> ak_active key then (Inl (''api_key_revoked'', ''The API key has been revoked.'', 401), t)
                else if expired (ak_expires key) (cl_now c) then (Inl (''api_key_expired'', ''The API key has expired.'', 401), t)
                else if \<not> allowlist_matches net ip (ak_ips key)
                then (Inl (''source_ip_not_allowed'', ''This source IP is not allowed for the API key.'', 403), logged ''IP_DENIED'' (cl_path c))
                else if missing \<noteq> []
                then (Inl (''insufficient_scope'', ''Required scope: '' @ join '', '' missing @ ''.'', 403),
                      logged ''SCOPE_DENIED'' (''path='' @ cl_path c @ ''; missing='' @ join '','' missing))
                else (Inr key, t))))"

definition authenticate :: "network \<Rightarrow> string list \<Rightarrow> call \<Rightarrow> api_tables \<times> api_memory \<Rightarrow> (refusal + api_key) \<times> api_tables \<times> api_memory" where
  "authenticate net required c s = (case check_key net required c (fst s) of
      (Inl e, t) \<Rightarrow> (Inl e, t, snd s)
    | (Inr key, t) \<Rightarrow>
        (let ip = api_client_ip net c; (ok, m) = rate_allowed net (ak_key key) ip (cl_now c) (snd s) in
         if \<not> ok then (Inl (''rate_limit_exceeded'', ''Too many API requests. Retry after the next minute window.'', 429), t, m)
         else (Inr key, flush_last_used net (ak_key key) ip (cl_now c) (t, m))))"

section \<open>The log of the calls\<close>

definition prune_access_logs :: "network \<Rightarrow> int \<Rightarrow> api_tables \<times> api_memory \<Rightarrow> api_tables \<times> api_memory" where
  "prune_access_logs net now s = (let (t, m) = s in
     if now - am_pruned m < 3600 then s
     else (t\<lparr>at_logs := filter (\<lambda>l. \<not> al_time l < now - nt_days net * 86400) (at_logs t)\<rparr>, m\<lparr>am_pruned := now\<rparr>))"

text \<open>After an answer, when its key is known: status and error code of the answer.\<close>

definition store_api_request_log :: "network \<Rightarrow> call \<Rightarrow> api_key \<Rightarrow> int \<times> string \<Rightarrow> api_tables \<times> api_memory \<Rightarrow> api_tables \<times> api_memory" where
  "store_api_request_log net c key answer s =
     (if \<not> nt_logs net \<or> \<not> starts_with ''/api/v1/'' (cl_path c) \<or> ak_key key = [] then s
      else prune_access_logs net (cl_now c) ((fst s)\<lparr>at_logs := at_logs (fst s) @
        [\<lparr>al_time = cl_now c, al_request = take 64 (cl_request c), al_key = ak_key key, al_name = take 120 (ak_name key), al_ip = take 128 (api_client_ip net c),
          al_method = take 12 (cl_method c), al_path = take 500 (cl_path c), al_query = take 1000 (cl_query c), al_endpoint = take 160 (cl_endpoint c),
          al_status = fst answer, al_error = take 80 (snd answer)\<rparr>]\<rparr>, snd s))"

text \<open>An endpoint behind \<open>require_api_scopes\<close>; \<open>answer\<close> is the status and error code of its body.\<close>

definition api_endpoint :: "network \<Rightarrow> string list \<Rightarrow> (api_key \<Rightarrow> int \<times> string) \<Rightarrow> call \<Rightarrow> api_tables \<times> api_memory \<Rightarrow> (int \<times> string) \<times> api_tables \<times> api_memory" where
  "api_endpoint net scopes answer c s = (case authenticate net (clean_scopes scopes) c s of
      (Inl (code, message, status), s1) \<Rightarrow> ((status, code), s1)
    | (Inr key, s1) \<Rightarrow> (answer key, store_api_request_log net c key (answer key) s1))"

section \<open>The pages of the keys\<close>

text \<open>
  A page works on the session and the accounts and on these tables; its second result is the key
  that the session shows once. The arguments give the call that the request is, and the random pair.
\<close>

type_synonym key_desk = "(session \<times> admin_db) \<times> api_tables \<times> api_memory"

definition key_actor :: "session \<Rightarrow> string" where
  "key_actor se = take 120 (str_or (actor_name se) ''admin'')"

definition back_to_keys :: "bool \<Rightarrow> string \<Rightarrow> response" where
  "back_to_keys ok text = Redirect_Note ''admin_api_keys_page'' ok text"

definition guarded_keys :: "site \<Rightarrow> request \<Rightarrow> (key_desk \<Rightarrow> response \<times> string option \<times> key_desk) \<Rightarrow> key_desk \<Rightarrow> response \<times> string option \<times> key_desk" where
  "guarded_keys si rq go s = (case require_admin si rq (fst s) of
      (Some deny, w) \<Rightarrow> (deny, None, w, snd s) | (None, w) \<Rightarrow> go (w, snd s))"

definition form_key :: "request \<Rightarrow> string" where
  "form_key rq = lower (strip (form rq ''key_id''))"

definition expiration_from_form :: "int \<Rightarrow> string \<Rightarrow> string + int option" where
  "expiration_from_form now value =
     (let v = lower (strip (str_or value ''never'')) in
      if v \<in> {[], ''never'', ''0''} then Inr None
      else (case int_of_str v of
          None \<Rightarrow> Inl ''Invalid expiration option.''
        | Some days \<Rightarrow> if days \<in> {7, 30, 90, 180, 365} then Inr (Some (now + days * 86400)) else Inl ''Invalid expiration option.''))"

definition create_key :: "network \<Rightarrow> request \<Rightarrow> call \<Rightarrow> string \<times> string \<Rightarrow> key_desk \<Rightarrow> response \<times> string option \<times> key_desk" where
  "create_key net rq c pair s =
     (let (w, t, m) = s in
      case expiration_from_form (rq_now rq) (form rq ''expiration'') of
        Inl e \<Rightarrow> (back_to_keys False e, None, s)
      | Inr expires \<Rightarrow>
          (case create_key_record net c pair (form rq ''name'') (form_list rq ''scopes'') (allowlist_tokens (form rq ''allowed_ips'')) expires (key_actor (fst w))
                  (form rq ''note'') [] t of
             Inl e \<Rightarrow> (back_to_keys False (take 500 e), None, s)
           | Inr (key_id, token, t') \<Rightarrow>
               (back_to_keys True ''API key created. Copy the plaintext key now; it will not be shown again.'', Some token, w, t', m)))"

definition admin_api_key_create :: "site \<Rightarrow> network \<Rightarrow> request \<Rightarrow> call \<Rightarrow> string \<times> string \<Rightarrow> key_desk \<Rightarrow> response \<times> string option \<times> key_desk" where
  "admin_api_key_create si net rq c pair = guarded_keys si rq (create_key net rq c pair)"

definition revoke_row :: "int \<Rightarrow> string \<Rightarrow> api_key \<Rightarrow> api_key" where
  "revoke_row now actor r = r\<lparr>ak_active := False, ak_revoked_at := Some now, ak_revoked_by := actor\<rparr>"

definition revoke_key :: "request \<Rightarrow> call \<Rightarrow> key_desk \<Rightarrow> response \<times> string option \<times> key_desk" where
  "revoke_key rq c s =
     (let (w, t, m) = s; key_id = form_key rq; actor = key_actor (fst w) in
      case get_key_by_id key_id t of
        None \<Rightarrow> (back_to_keys False ''API key not found.'', None, s)
      | Some key \<Rightarrow>
          (if \<not> ak_active key then (back_to_keys False ''API key is already revoked.'', None, s)
           else (back_to_keys True (''API key '' @ ak_name key @ '' was revoked.''), None, w,
             log_key_event (rq_now rq) ''KEY_REVOKED'' key_id (ak_name key) actor (client_ip c) ''Revoked from Admin'' (update_key key_id (revoke_row (rq_now rq) actor) t), m)))"

definition admin_api_key_revoke :: "site \<Rightarrow> request \<Rightarrow> call \<Rightarrow> key_desk \<Rightarrow> response \<times> string option \<times> key_desk" where
  "admin_api_key_revoke si rq c = guarded_keys si rq (revoke_key rq c)"

text \<open>A replacement takes over name, scopes, addresses, note and expiry; an expiry that has passed is dropped.\<close>

definition rotate_key :: "network \<Rightarrow> request \<Rightarrow> call \<Rightarrow> string \<times> string \<Rightarrow> key_desk \<Rightarrow> response \<times> string option \<times> key_desk" where
  "rotate_key net rq c pair s =
     (let (w, t, m) = s; old_id = form_key rq; actor = key_actor (fst w) in
      case get_key_by_id old_id t of
        None \<Rightarrow> (back_to_keys False ''API key not found.'', None, s)
      | Some old \<Rightarrow>
          (if \<not> ak_active old then (back_to_keys False ''Only an active API key can be rotated.'', None, s)
           else (let expires = (if expired (ak_expires old) (rq_now rq) then None else ak_expires old) in
             case create_key_record net c pair (str_or (ak_name old) ''Rotated API Key'') (ak_scopes old) (ak_ips old) expires actor (ak_note old) old_id t of
               Inl e \<Rightarrow> (back_to_keys False (take 500 e), None, s)
             | Inr (new_id, token, t1) \<Rightarrow>
                 (back_to_keys True ''API key rotated. The old key is revoked; copy the new key now.'', Some token, w,
                  log_key_event (rq_now rq) ''KEY_ROTATED'' old_id (ak_name old) actor (client_ip c) (''replacement='' @ new_id)
                    (update_key old_id (revoke_row (rq_now rq) actor) t1), m))))"

definition admin_api_key_rotate :: "site \<Rightarrow> network \<Rightarrow> request \<Rightarrow> call \<Rightarrow> string \<times> string \<Rightarrow> key_desk \<Rightarrow> response \<times> string option \<times> key_desk" where
  "admin_api_key_rotate si net rq c pair = guarded_keys si rq (rotate_key net rq c pair)"

text \<open>A deletion also clears the windows and flushes of the key, and is recorded with the accounts.\<close>

definition delete_key :: "site \<Rightarrow> request \<Rightarrow> key_desk \<Rightarrow> response \<times> string option \<times> key_desk" where
  "delete_key si rq s =
     (let (w, t, m) = s; key_id = form_key rq; wanted = ''DELETE '' @ key_id; actor = key_actor (fst w) in
      if dget (rq_form rq) ''confirm_text'' \<noteq> Some wanted then (back_to_keys False (''Confirmation text must be '' @ wanted), None, s)
      else (case get_key_by_id key_id t of
          None \<Rightarrow> (back_to_keys False ''API key not found.'', None, s)
        | Some key \<Rightarrow>
            (let calls = filter (\<lambda>l. al_key l = key_id) (at_logs t); events = filter (\<lambda>e. ke_key e = key_id) (at_events t);
                 t' = t\<lparr>at_keys := filter (\<lambda>r. ak_key r \<noteq> key_id) (at_keys t), at_events := filter (\<lambda>e. ke_key e \<noteq> key_id) (at_events t),
                        at_logs := filter (\<lambda>l. al_key l \<noteq> key_id) (at_logs t)\<rparr>;
                 m' = m\<lparr>am_used := filter (\<lambda>u. fst (fst u) \<noteq> key_id) (am_used m), am_rates := filter (\<lambda>r. fst (fst r) \<noteq> key_id) (am_rates m)\<rparr> in
             (back_to_keys True (''API key '' @ ak_name key @ '' and '' @ str_of_nat (length calls + length events) @ '' related log row(s) were permanently deleted.''), None,
              log_account_event si rq ''api_key_deleted_permanently'' actor ''admin'' ''admin''
                (take 500 (''key_id='' @ key_id @ '';name='' @ ak_name key @ '';access_logs='' @ str_of_nat (length calls) @ '';events='' @ str_of_nat (length events))) w,
              t', m'))))"

definition admin_api_key_delete :: "site \<Rightarrow> request \<Rightarrow> key_desk \<Rightarrow> response \<times> string option \<times> key_desk" where
  "admin_api_key_delete si rq = guarded_keys si rq (delete_key si rq)"

definition expiration_value :: "int \<Rightarrow> string \<Rightarrow> int option \<Rightarrow> string + int option" where
  "expiration_value now value current =
     (let v = lower (strip (str_or value ''keep'')) in
      if v = ''keep'' then Inr (if current = Some 0 then None else current)
      else if v = ''never'' then Inr None
      else if v \<notin> {''7'', ''30'', ''90'', ''180'', ''365''} then Inl ''Invalid expiration option.''
      else (case int_of_str v of None \<Rightarrow> Inl ''Invalid expiration option.'' | Some days \<Rightarrow> Inr (Some (now + days * 86400))))"

text \<open>The form of a key; \<open>encode\<close> is the JSON text of the detail of the event.\<close>

definition values_key :: "request \<Rightarrow> string" where
  "values_key rq = lower (strip (case dget (rq_args rq) ''key_id'' of None \<Rightarrow> form rq ''key_id'' | Some v \<Rightarrow> v))"

definition edit_key :: "network \<Rightarrow> (api_key \<Rightarrow> api_key \<Rightarrow> string) \<Rightarrow> request \<Rightarrow> call \<Rightarrow> key_desk \<Rightarrow> response \<times> string option \<times> key_desk" where
  "edit_key net encode rq c s =
     (let (w, t, m) = s; key_id = values_key rq; actor = key_actor (fst w); again = (\<lambda>e. (Redirect_Note ''admin_api_key_edit'' False (take 500 e), None, s)) in
      case get_key_by_id key_id t of
        None \<Rightarrow> (Reply 404 ''API key not found'', None, s)
      | Some key \<Rightarrow>
          (if \<not> rq_post rq then (Page ''Edit API Key'' [], None, s)
           else (case clean_key_name (str_or (form rq ''name'') (ak_name key)) of Inl e \<Rightarrow> again e | Inr name \<Rightarrow>
             (let scopes = clean_scopes (form_list rq ''scopes'') in
              if scopes = [] then again ''Select at least one API permission.''
              else (case normalize_allowlist net (allowlist_tokens (form rq ''allowed_ips'')) of Inl e \<Rightarrow> again e | Inr ips \<Rightarrow>
                (case expiration_value (rq_now rq) (form rq ''expiration'') (ak_expires key) of Inl e \<Rightarrow> again e | Inr expires \<Rightarrow>
                  (let change = (\<lambda>r. r\<lparr>ak_name := name, ak_scopes := scopes, ak_ips := ips, ak_expires := expires, ak_note := take 500 (strip (form rq ''note''))\<rparr>) in
                   (back_to_keys True (''API key '' @ name @ '' was updated. The existing secret remains valid.''), None, w,
                    log_key_event (rq_now rq) ''KEY_UPDATED'' key_id name actor (api_client_ip net c) (take 1000 (encode key (change key)))
                      (update_key key_id change t), m))))))))"

definition admin_api_key_edit :: "site \<Rightarrow> network \<Rightarrow> (api_key \<Rightarrow> api_key \<Rightarrow> string) \<Rightarrow> request \<Rightarrow> call \<Rightarrow> key_desk \<Rightarrow> response \<times> string option \<times> key_desk" where
  "admin_api_key_edit si net encode rq c = guarded_keys si rq (edit_key net encode rq c)"

text \<open>The figures of the database under /api/v1/performance ask only the flag of the session.\<close>

definition api_v1_performance :: "session \<Rightarrow> response" where
  "api_v1_performance se = (if \<not> se_dash se then Reply 401 ''authentication required'' else Page ''performance'' [])"

definition performance_page :: "site \<Rightarrow> request \<Rightarrow> session \<times> admin_db \<Rightarrow> response" where
  "performance_page si rq s = (case enforce_dashboard_login si rq (snd s) (fst s) of (Some deny, se) \<Rightarrow> deny | (None, se) \<Rightarrow> api_v1_performance se)"

end
