(* ===== verification/Api_Claims.thy ===== *)
theory Api_Claims
  imports Api_Keys
begin

text \<open>
  The histories of the keys: what administrators were shown and decided (\<open>ledger\<close>), and that a call is
  let in exactly as the ledger says; a key that was shown works, the rate limit holds in every
  process, and only super admins decide. The last section has two ways around.
\<close>

section \<open>The ledger of the keys\<close>

text \<open>
  What the administrators were shown and decided, the newest first: a key shown once with what it
  grants, a change of what it grants, and its end. A key works as the ledger says.
\<close>

record grant =
  gt_scopes :: "string list"
  gt_ips :: "string list"
  gt_expires :: "int option"

datatype key_fact = Issued string string grant | Changed string grant | Ended string

fun ledger :: "key_fact list \<Rightarrow> string \<Rightarrow> (string \<times> grant) option" where
  "ledger [] k = None"
| "ledger (Issued k' h g # fs) k = (if k = k' then Some (h, g) else ledger fs k)"
| "ledger (Changed k' g # fs) k = (if k = k' then map_option (\<lambda>x. (fst x, g)) (ledger fs k) else ledger fs k)"
| "ledger (Ended k' # fs) k = (if k = k' then None else ledger fs k)"

definition dated :: "int option \<Rightarrow> int option" where
  "dated e = (if e = Some 0 then None else e)"

definition form_ips :: "network \<Rightarrow> string list \<Rightarrow> string list" where
  "form_ips net tokens = (case normalize_allowlist net tokens of Inl e \<Rightarrow> [] | Inr ips \<Rightarrow> ips)"

definition form_expiry :: "request \<Rightarrow> int option" where
  "form_expiry rq = (case expiration_from_form (rq_now rq) (form rq ''expiration'') of Inl e \<Rightarrow> None | Inr x \<Rightarrow> dated x)"

definition create_grant :: "network \<Rightarrow> request \<Rightarrow> grant" where
  "create_grant net rq = \<lparr>gt_scopes = clean_scopes (form_list rq ''scopes''), gt_ips = form_ips net (allowlist_tokens (form rq ''allowed_ips'')),
     gt_expires = form_expiry rq\<rparr>"

definition edit_grant :: "network \<Rightarrow> request \<Rightarrow> int option \<Rightarrow> grant" where
  "edit_grant net rq current = \<lparr>gt_scopes = clean_scopes (form_list rq ''scopes''), gt_ips = form_ips net (allowlist_tokens (form rq ''allowed_ips'')),
     gt_expires = (case expiration_value (rq_now rq) (form rq ''expiration'') current of Inl e \<Rightarrow> None | Inr x \<Rightarrow> x)\<rparr>"

definition rotate_grant :: "network \<Rightarrow> int \<Rightarrow> grant \<Rightarrow> grant" where
  "rotate_grant net now g = \<lparr>gt_scopes = clean_scopes (gt_scopes g), gt_ips = form_ips net (gt_ips g),
     gt_expires = (if expired (gt_expires g) now then None else dated (gt_expires g))\<rparr>"

definition issued :: "network \<Rightarrow> string option \<Rightarrow> grant \<Rightarrow> key_fact list" where
  "issued net once g = (case once of None \<Rightarrow> [] | Some token \<Rightarrow>
     (case parse_token token of None \<Rightarrow> [] | Some (k, secret) \<Rightarrow> [Issued k (nt_sha net secret) g]))"

definition ledger_grant :: "key_fact list \<Rightarrow> string \<Rightarrow> grant" where
  "ledger_grant fs k = (case ledger fs k of None \<Rightarrow> \<lparr>gt_scopes = [], gt_ips = [], gt_expires = None\<rparr> | Some x \<Rightarrow> snd x)"

definition agreed :: "response \<Rightarrow> bool" where
  "agreed r = (case r of Redirect_Note where_to ok text \<Rightarrow> ok | _ \<Rightarrow> False)"

text \<open>What \<open>token_hex(6)\<close> and \<open>token_urlsafe(32)\<close> return.\<close>

definition good_pair :: "string \<times> string \<Rightarrow> bool" where
  "good_pair pair \<longleftrightarrow> length (fst pair) = 12 \<and> set (fst pair) \<subseteq> set ''0123456789abcdef''
     \<and> 32 \<le> length (snd pair) \<and> length (snd pair) \<le> 256 \<and> (\<forall>c \<in> set (snd pair). \<not> is_space c)"

definition no_keys :: api_tables where
  "no_keys = \<lparr>at_keys = [], at_next = 1, at_events = [], at_logs = []\<rparr>"

text \<open>The histories: pages and calls by any accounts, on processes with any memory.\<close>

inductive keyed :: "site \<Rightarrow> network \<Rightarrow> key_fact list \<Rightarrow> api_tables \<Rightarrow> bool" for si net where
  fresh: "keyed si net [] no_keys"
| calls: "keyed si net fs t \<Longrightarrow> api_endpoint net scopes answer c (t, m) = (r, t', m') \<Longrightarrow> keyed si net fs t'"
| creates: "keyed si net fs t \<Longrightarrow> good_pair pair \<Longrightarrow> admin_api_key_create si net rq c pair (w, t, m) = (r, once, w', t', m') \<Longrightarrow>
    keyed si net (issued net once (create_grant net rq) @ fs) t'"
| rotates: "keyed si net fs t \<Longrightarrow> good_pair pair \<Longrightarrow> admin_api_key_rotate si net rq c pair (w, t, m) = (r, once, w', t', m') \<Longrightarrow>
    keyed si net ((if agreed r then [Ended (form_key rq)] else []) @ issued net once (rotate_grant net (rq_now rq) (ledger_grant fs (form_key rq))) @ fs) t'"
| revokes: "keyed si net fs t \<Longrightarrow> admin_api_key_revoke si rq c (w, t, m) = (r, once, w', t', m') \<Longrightarrow>
    keyed si net ((if agreed r then [Ended (form_key rq)] else []) @ fs) t'"
| deletes: "keyed si net fs t \<Longrightarrow> admin_api_key_delete si rq (w, t, m) = (r, once, w', t', m') \<Longrightarrow>
    keyed si net ((if agreed r then [Ended (form_key rq)] else []) @ fs) t'"
| edits: "keyed si net fs t \<Longrightarrow> admin_api_key_edit si net encode rq c (w, t, m) = (r, once, w', t', m') \<Longrightarrow>
    keyed si net ((if agreed r then [Changed (values_key rq) (edit_grant net rq (gt_expires (ledger_grant fs (values_key rq))))] else []) @ fs) t'"

definition granted :: "network \<Rightarrow> key_fact list \<Rightarrow> string list \<Rightarrow> call \<Rightarrow> bool" where
  "granted net fs required c = (case parse_token (extract_bearer (cl_auth c)) of
      None \<Rightarrow> False
    | Some (k, secret) \<Rightarrow> (case ledger fs k of
          None \<Rightarrow> False
        | Some (h, g) \<Rightarrow> h = nt_sha net secret \<and> \<not> expired (gt_expires g) (cl_now c)
            \<and> allowlist_matches net (api_client_ip net c) (gt_ips g) \<and> set required \<subseteq> set (gt_scopes g)))"

section \<open>Tokens\<close>

lemma lower_hex: "set k \<subseteq> set ''0123456789abcdef'' \<Longrightarrow> lower k = k"
  by (induction k) (auto simp: lower_def lower_char_def)

lemma strip_no_space: "\<forall>c \<in> set s. \<not> is_space c \<Longrightarrow> strip s = s"
proof -
  assume a: "\<forall>c \<in> set s. \<not> is_space c"
  have "dropWhile is_space s = s" using a by (cases s) auto
  moreover have "dropWhile is_space (rev s) = rev s" using a by (cases "rev s") auto
  ultimately show ?thesis by (simp add: strip_def rstrip_by_def lstrip_def)
qed

lemma hex_space: "set k \<subseteq> set ''0123456789abcdef'' \<Longrightarrow> \<forall>c \<in> set k. \<not> is_space c \<and> c \<noteq> CHR ''_''"
  by (auto simp: is_space_def)

lemma split_max_part:
  assumes "c \<notin> set a"
  shows "split_max (Suc n) c (a @ c # b) = a # split_max n c b"
proof -
  have "takeWhile (\<lambda>x. x \<noteq> c) (a @ c # b) = a" "dropWhile (\<lambda>x. x \<noteq> c) (a @ c # b) = c # b"
    using assms by (induction a) auto
  then show ?thesis by simp
qed

lemma split_token:
  assumes "CHR ''_'' \<notin> set k"
  shows "split_max 3 (CHR ''_'') (key_token k s) = [''bwm'', ''live'', k, s]"
proof -
  have "key_token k s = ''bwm'' @ CHR ''_'' # ''live'' @ CHR ''_'' # k @ CHR ''_'' # s" by (simp add: key_token_def)
  moreover have "CHR ''_'' \<notin> set ''bwm''" "CHR ''_'' \<notin> set ''live''" by simp_all
  ultimately show ?thesis using split_max_part[OF assms, of 0] split_max_part[of "CHR ''_''" "''bwm''" 2] split_max_part[of "CHR ''_''" "''live''" 1]
    by (simp add: numeral_3_eq_3 numeral_2_eq_2 del: split_max.simps(2) append.simps)
qed

lemma parse_key_token:
  assumes "good_pair pair"
  shows "parse_token (key_token (fst pair) (snd pair)) = Some pair"
proof -
  obtain k s where p: "pair = (k, s)" by (rule prod.exhaust)
  have h: "set k \<subseteq> set ''0123456789abcdef''" "length k = 12" "32 \<le> length s" "length s \<le> 256" "\<forall>c \<in> set s. \<not> is_space c"
    using assms unfolding good_pair_def p fst_conv snd_conv by blast+
  have ks: "\<forall>c \<in> set k. \<not> is_space c \<and> c \<noteq> CHR ''_''" by (rule hex_space[OF h(1)])
  have "\<forall>c \<in> set ''bwm_live_''. \<not> is_space c" "\<not> is_space (CHR ''_'')" by (simp_all add: is_space_def)
  then have "\<forall>c \<in> set (key_token k s). \<not> is_space c" using ks h(5) unfolding key_token_def set_append by auto
  then have st: "strip (key_token k s) = key_token k s" by (rule strip_no_space)
  have k: "strip k = k" "lower k = k" "strip s = s" using ks h(5) lower_hex[OF h(1)] by (auto intro: strip_no_space)
  have "\<not> list_ex (\<lambda>ch. ch \<notin> set ''0123456789abcdef'') k" using h(1) by (auto simp only: list_ex_iff)
  moreover have sp: "split_max 3 (CHR ''_'') (key_token k s) = [''bwm'', ''live'', k, s]" using ks by (intro split_token) blast
  ultimately show ?thesis using h(2-4) unfolding parse_token_def p fst_conv snd_conv st sp by (simp add: k Let_def)
qed

section \<open>The tables follow the ledger\<close>

definition live :: "api_key option \<Rightarrow> (string \<times> grant) option" where
  "live x = (case x of None \<Rightarrow> None
     | Some r \<Rightarrow> if ak_active r then Some (ak_hash r, \<lparr>gt_scopes = ak_scopes r, gt_ips = ak_ips r, gt_expires = ak_expires r\<rparr>) else None)"

definition follows :: "key_fact list \<Rightarrow> api_key list \<Rightarrow> bool" where
  "follows fs rows \<longleftrightarrow> distinct (map ak_key rows) \<and> (\<forall>k. ledger fs k = live (row_of ak_key k rows))"

lemma live_simps [simp]: "live None = None"
  "live (Some r) = (if ak_active r then Some (ak_hash r, \<lparr>gt_scopes = ak_scopes r, gt_ips = ak_ips r, gt_expires = ak_expires r\<rparr>) else None)"
  by (simp_all add: live_def)

lemma tables_keys [simp]:
  "at_keys (log_key_event now e k n a i d t) = at_keys t" "at_keys (update_key k f t) = update_where (\<lambda>r. ak_key r = k) f (at_keys t)"
  by (simp_all add: log_key_event_def update_key_def)

lemma follows_update:
  assumes "follows fs rows" "\<And>r. ak_key (f r) = ak_key r" "\<And>r. P r \<Longrightarrow> live (Some (f r)) = live (Some r)"
  shows "follows fs (update_where P f rows)"
proof -
  have "live (row_of ak_key k (update_where P f rows)) = live (row_of ak_key k rows)" for k
    using assms(3) by (cases "row_of ak_key k rows") (auto simp: row_of_update[where key = ak_key and f = f, OF assms(2)] simp del: live_simps(2))
  then show ?thesis using assms(1,2) by (simp add: follows_def)
qed

lemma follows_ended:
  assumes "follows fs rows" "\<And>r. ak_key (f r) = ak_key r" "\<And>r. \<not> ak_active (f r)"
  shows "follows (Ended k # fs) (update_where (\<lambda>r. ak_key r = k) f rows)"
proof -
  have "live (map_option f x) = None" for x using assms(3) by (cases x) simp_all
  then show ?thesis using assms(1,2) by (auto simp: follows_def row_of_update_key[where key = ak_key and f = f, OF assms(2)])
qed

lemma follows_deleted: "follows fs rows \<Longrightarrow> follows (Ended k # fs) (filter (\<lambda>r. ak_key r \<noteq> k) rows)"
proof -
  have "row_of ak_key k' (filter (\<lambda>r. ak_key r \<noteq> k) rows) = (if k' = k then None else row_of ak_key k' rows)" for k'
    by (induction rows) auto
  then show "follows fs rows \<Longrightarrow> ?thesis" by (auto simp: follows_def distinct_map_filter)
qed

lemma follows_issued:
  assumes "follows fs rows" "row_of ak_key (ak_key r) rows = None" "ak_active r"
  shows "follows (Issued (ak_key r) (ak_hash r) \<lparr>gt_scopes = ak_scopes r, gt_ips = ak_ips r, gt_expires = ak_expires r\<rparr> # fs) (rows @ [r])"
proof -
  have "row_of ak_key k (rows @ [r]) = (if k = ak_key r then Some r else row_of ak_key k rows)" for k
    using assms(2) by (auto simp: row_of_append split: option.split)
  then show ?thesis using assms by (simp add: follows_def row_of_None_iff)
qed

lemma follows_changed:
  assumes "follows fs rows" "\<And>r. ak_key (f r) = ak_key r" "\<And>r. ak_active (f r) = ak_active r" "\<And>r. ak_hash (f r) = ak_hash r"
    "\<And>r. ak_scopes (f r) = gt_scopes g" "\<And>r. ak_ips (f r) = gt_ips g" "\<And>r. ak_expires (f r) = gt_expires g"
  shows "follows (Changed k g # fs) (update_where (\<lambda>r. ak_key r = k) f rows)"
proof -
  have "live (map_option f x) = map_option (\<lambda>x. (fst x, g)) (live x)" for x using assms(3-) by (cases x) simp_all
  then show ?thesis using assms(1,2) by (simp add: follows_def row_of_update_key[where key = ak_key and f = f, OF assms(2)])
qed

subsection \<open>Calls\<close>

lemma check_keys [simp]: "at_keys (snd (check_key net required c t)) = at_keys t"
  by (simp add: check_key_def Let_def split: option.split prod.split)

lemma follows_flush: "follows fs (at_keys t) \<Longrightarrow> follows fs (at_keys (fst (flush_last_used net k ip now (t, m))))"
  by (auto simp: flush_last_used_def Let_def intro!: follows_update)

lemma follows_authenticate: "follows fs (at_keys t) \<Longrightarrow> follows fs (at_keys (fst (snd (authenticate net required c (t, m)))))"
proof -
  assume a: "follows fs (at_keys t)"
  obtain x t1 where x: "check_key net required c t = (x, t1)" by (rule prod.exhaust)
  have t1: "follows fs (at_keys t1)" using a check_keys[of net required c t] x by simp
  show ?thesis
  proof (cases x)
    case (Inr key)
    obtain ok m1 where r: "rate_allowed net (ak_key key) (api_client_ip net c) (cl_now c) m = (ok, m1)" by (rule prod.exhaust)
    show ?thesis using follows_flush[OF t1] t1 by (cases ok) (simp_all add: authenticate_def x Inr r Let_def)
  qed (simp add: authenticate_def x t1)
qed

lemma follows_call: "follows fs (at_keys t) \<Longrightarrow> api_endpoint net scopes answer c (t, m) = (r, t', m') \<Longrightarrow> follows fs (at_keys t')"
proof -
  assume a: "follows fs (at_keys t)" and e: "api_endpoint net scopes answer c (t, m) = (r, t', m')"
  obtain x t1 m1 where x: "authenticate net (clean_scopes scopes) c (t, m) = (x, t1, m1)" by (rule prod_cases3)
  have t1: "follows fs (at_keys t1)" using follows_authenticate[OF a, of net "clean_scopes scopes" c m] x by simp
  have "at_keys (fst (prune_access_logs net n (u, m))) = at_keys u" for n u m by (simp add: prune_access_logs_def)
  then have "at_keys (fst (store_api_request_log net c key y (t1, m1))) = at_keys t1" for key y
    by (simp add: store_api_request_log_def)
  then have st: "at_keys t' = at_keys t1" if "store_api_request_log net c key y (t1, m1) = (t', m')" for key y using that by (metis fst_conv)
  show ?thesis
  proof (cases x)
    case (Inl y)
    then show ?thesis using e t1 x by (auto simp: api_endpoint_def split: prod.splits)
  next
    case (Inr key)
    then have "store_api_request_log net c key (answer key) (t1, m1) = (t', m')" using e x by (auto simp: api_endpoint_def)
    then show ?thesis using st t1 by simp
  qed
qed

subsection \<open>Pages\<close>

lemma denied_page: "require_admin si rq s = (Some deny, w) \<Longrightarrow> \<not> agreed deny"
  using require_admin_reply[of si rq s deny w] by (cases deny) (auto simp: agreed_def)

lemma guarded_page:
  assumes "guarded_keys si rq go (w, x) = (r, once, w', x')"
  obtains "\<not> agreed r" "once = None" "x' = x" | w1 where "go (w1, x) = (r, once, w', x')"
  using assms denied_page by (auto simp: guarded_keys_def split: prod.splits option.splits)

lemma create_record_facts:
  assumes "create_key_record net c pair name scopes ips expires actor n from t = Inr (k, token, t')"
  obtains row where "k = fst pair" "token = key_token (fst pair) (snd pair)" "row_of ak_key (fst pair) (at_keys t) = None" "at_keys t' = at_keys t @ [row]"
    "ak_key row = fst pair" "ak_hash row = nt_sha net (snd pair)" "ak_active row" "ak_scopes row = clean_scopes scopes" "ak_ips row = form_ips net ips"
    "ak_expires row = dated expires"
  using assms by (auto simp: create_key_record_def Let_def form_ips_def dated_def new_key_def split: sum.splits if_splits)

lemma issued_row:
  assumes "good_pair pair" "ak_key row = fst pair" "ak_hash row = nt_sha net (snd pair)" "ak_scopes row = gt_scopes g" "ak_ips row = gt_ips g" "ak_expires row = gt_expires g"
  shows "issued net (Some (key_token (fst pair) (snd pair))) g = [Issued (ak_key row) (ak_hash row) \<lparr>gt_scopes = ak_scopes row, gt_ips = ak_ips row, gt_expires = ak_expires row\<rparr>]"
  using assms parse_key_token[OF assms(1)] by (cases pair) (simp add: issued_def)

lemma agreed_back [simp]: "agreed (back_to_keys ok text) = ok"
  by (simp add: agreed_def back_to_keys_def)

lemma follows_create:
  assumes "follows fs (at_keys t)" "good_pair pair" "create_key net rq c pair (w, t, m) = (r, once, w', t', m')"
  shows "follows (issued net once (create_grant net rq) @ fs) (at_keys t')"
proof (cases "expiration_from_form (rq_now rq) (form rq ''expiration'')")
  case (Inl e)
  then show ?thesis using assms by (simp add: create_key_def issued_def)
next
  case e: (Inr e)
  define x where "x = create_key_record net c pair (form rq ''name'') (form_list rq ''scopes'') (allowlist_tokens (form rq ''allowed_ips'')) e (key_actor (fst w)) (form rq ''note'') [] t"
  show ?thesis
  proof (cases x)
    case (Inl y)
    then show ?thesis using assms(1,3) by (simp add: create_key_def issued_def e x_def)
  next
    case (Inr y)
    obtain k token t1 where y: "y = (k, token, t1)" by (rule prod_cases3)
    obtain row where row: "k = fst pair" "token = key_token (fst pair) (snd pair)" "row_of ak_key (fst pair) (at_keys t) = None" "at_keys t1 = at_keys t @ [row]"
      "ak_key row = fst pair" "ak_hash row = nt_sha net (snd pair)" "ak_active row" "ak_scopes row = clean_scopes (form_list rq ''scopes'')"
      "ak_ips row = form_ips net (allowlist_tokens (form rq ''allowed_ips''))" "ak_expires row = dated e"
      by (rule create_record_facts[OF Inr[unfolded x_def y]])
    have o: "once = Some token" "t' = t1" using assms(3) Inr y by (simp_all add: create_key_def e x_def)
    have "issued net once (create_grant net rq) = [Issued (ak_key row) (ak_hash row) \<lparr>gt_scopes = ak_scopes row, gt_ips = ak_ips row, gt_expires = ak_expires row\<rparr>]"
      unfolding o row(2) using row(5-10) by (intro issued_row[OF assms(2)]) (simp_all add: create_grant_def form_expiry_def e)
    then show ?thesis using follows_issued[OF assms(1), of row] row o by simp
  qed
qed

lemma follows_revoke:
  assumes "follows fs (at_keys t)" "revoke_key rq c (w, t, m) = (r, once, w', t', m')"
  shows "follows ((if agreed r then [Ended (form_key rq)] else []) @ fs) (at_keys t')"
proof (cases "get_key_by_id (form_key rq) t")
  case None
  then show ?thesis using assms by (auto simp: revoke_key_def Let_def)
next
  case (Some key)
  then show ?thesis using assms follows_ended[OF assms(1), of "revoke_row (rq_now rq) (key_actor (fst w))" "form_key rq"]
    by (cases "ak_active key") (auto simp: revoke_key_def Let_def revoke_row_def)
qed

lemma follows_delete:
  assumes "follows fs (at_keys t)" "delete_key si rq (w, t, m) = (r, once, w', t', m')"
  shows "follows ((if agreed r then [Ended (form_key rq)] else []) @ fs) (at_keys t')"
proof (cases "dget (rq_form rq) ''confirm_text'' = Some (''DELETE '' @ form_key rq)")
  case True
  then show ?thesis using assms follows_deleted[OF assms(1), of "form_key rq"]
    by (cases "get_key_by_id (form_key rq) t") (auto simp: delete_key_def Let_def)
next
  case False
  then show ?thesis using assms by (auto simp: delete_key_def Let_def)
qed

lemma form_keys [simp]: "lower (form_key rq) = form_key rq" "lower (values_key rq) = values_key rq"
  by (simp_all add: form_key_def values_key_def)

lemma follows_row:
  assumes "follows fs rows" "row_of ak_key k rows = Some r" "ak_active r"
  shows "ledger_grant fs k = \<lparr>gt_scopes = ak_scopes r, gt_ips = ak_ips r, gt_expires = ak_expires r\<rparr>"
  using assms by (simp add: follows_def ledger_grant_def)

lemma follows_rotate:
  assumes f: "follows fs (at_keys t)" and p: "good_pair pair" and e: "rotate_key net rq c pair (w, t, m) = (r, once, w', t', m')"
  shows "follows ((if agreed r then [Ended (form_key rq)] else []) @ issued net once (rotate_grant net (rq_now rq) (ledger_grant fs (form_key rq))) @ fs) (at_keys t')"
proof (cases "get_key_by_id (form_key rq) t")
  case None
  then show ?thesis using f e by (auto simp: rotate_key_def issued_def)
next
  case old: (Some old)
  show ?thesis
  proof (cases "ak_active old")
    case False
    then show ?thesis using f e old by (auto simp: rotate_key_def issued_def)
  next
    case True
    define x where "x = create_key_record net c pair (str_or (ak_name old) ''Rotated API Key'') (ak_scopes old) (ak_ips old)
      (if expired (ak_expires old) (rq_now rq) then None else ak_expires old) (key_actor (fst w)) (ak_note old) (form_key rq) t"
    show ?thesis
    proof (cases x)
      case (Inl y)
      then show ?thesis using f e old True by (auto simp: rotate_key_def issued_def x_def Let_def)
    next
      case (Inr y)
      obtain k token t1 where y: "y = (k, token, t1)" by (rule prod_cases3)
      obtain row where row: "k = fst pair" "token = key_token (fst pair) (snd pair)" "row_of ak_key (fst pair) (at_keys t) = None" "at_keys t1 = at_keys t @ [row]"
        "ak_key row = fst pair" "ak_hash row = nt_sha net (snd pair)" "ak_active row" "ak_scopes row = clean_scopes (ak_scopes old)"
        "ak_ips row = form_ips net (ak_ips old)" "ak_expires row = dated (if expired (ak_expires old) (rq_now rq) then None else ak_expires old)"
        by (rule create_record_facts[OF Inr[unfolded x_def y]])
      have o: "once = Some token" "agreed r" "at_keys t' = update_where (\<lambda>r. ak_key r = form_key rq) (revoke_row (rq_now rq) (key_actor (fst w))) (at_keys t1)"
        using e old True Inr y by (auto simp: rotate_key_def x_def Let_def)
      have g: "ledger_grant fs (form_key rq) = \<lparr>gt_scopes = ak_scopes old, gt_ips = ak_ips old, gt_expires = ak_expires old\<rparr>"
        using old True by (intro follows_row[OF f]) (simp_all add: get_key_by_id_def)
      have "issued net once (rotate_grant net (rq_now rq) (ledger_grant fs (form_key rq)))
          = [Issued (ak_key row) (ak_hash row) \<lparr>gt_scopes = ak_scopes row, gt_ips = ak_ips row, gt_expires = ak_expires row\<rparr>]"
        unfolding o(1) row(2) using row(5-10) by (intro issued_row[OF p]) (simp_all add: rotate_grant_def g dated_def)
      then have "follows (issued net once (rotate_grant net (rq_now rq) (ledger_grant fs (form_key rq))) @ fs) (at_keys t1)"
        using follows_issued[OF f, of row] row by simp
      then show ?thesis using o(2,3) follows_ended[of _ "at_keys t1" "revoke_row (rq_now rq) (key_actor (fst w))" "form_key rq"]
        by (simp add: revoke_row_def)
    qed
  qed
qed

lemma edit_cases:
  assumes "edit_key net encode rq c (w, t, m) = (r, once, w', t', m')"
  obtains "t' = t" "\<not> agreed r"
  | key name ips expires where "agreed r" "get_key_by_id (values_key rq) t = Some key" "normalize_allowlist net (allowlist_tokens (form rq ''allowed_ips'')) = Inr ips"
      "expiration_value (rq_now rq) (form rq ''expiration'') (ak_expires key) = Inr expires"
      "at_keys t' = update_where (\<lambda>r. ak_key r = values_key rq) (\<lambda>r. r\<lparr>ak_name := name, ak_scopes := clean_scopes (form_list rq ''scopes''), ak_ips := ips,
         ak_expires := expires, ak_note := take 500 (strip (form rq ''note''))\<rparr>) (at_keys t)"
proof (cases "get_key_by_id (values_key rq) t")
  case None
  then show thesis using assms that(1) by (auto simp: edit_key_def Let_def agreed_def)
next
  case key: (Some key)
  show thesis
  proof (cases "rq_post rq")
    case False
    then show thesis using assms that(1) key by (auto simp: edit_key_def Let_def agreed_def)
  next
    case post: True
    note d = assms[unfolded edit_key_def Let_def, simplified, unfolded key, simplified, simplified post, simplified]
    show thesis
    proof (cases "clean_key_name (str_or (form rq ''name'') (ak_name key))")
      case (Inl e)
      then show thesis using d that(1) by (auto simp: agreed_def)
    next
      case name: (Inr name)
      show thesis
      proof (cases "clean_scopes (form_list rq ''scopes'') = []")
        case True
        then show thesis using d that(1) name by (auto simp: agreed_def)
      next
        case scopes: False
        show thesis
        proof (cases "normalize_allowlist net (allowlist_tokens (form rq ''allowed_ips''))")
          case (Inl e)
          then show thesis using d that(1) name scopes by (auto simp: agreed_def)
        next
          case ips: (Inr ips)
          show thesis
          proof (cases "expiration_value (rq_now rq) (form rq ''expiration'') (ak_expires key)")
            case (Inl e)
            then show thesis using d that(1) name scopes ips by (auto simp: agreed_def)
          next
            case (Inr expires)
            show thesis by (rule that(2)[OF _ key ips Inr, of name]) (use d name scopes ips Inr in auto)
          qed
        qed
      qed
    qed
  qed
qed

lemma follows_edit:
  assumes f: "follows fs (at_keys t)" and e: "edit_key net encode rq c (w, t, m) = (r, once, w', t', m')"
  shows "follows ((if agreed r then [Changed (values_key rq) (edit_grant net rq (gt_expires (ledger_grant fs (values_key rq))))] else []) @ fs) (at_keys t')"
  using e
proof (rule edit_cases)
  assume "t' = t" "\<not> agreed r"
  then show ?thesis using f by simp
next
  fix key name ips expires
  assume a: "agreed r" "get_key_by_id (values_key rq) t = Some key" "normalize_allowlist net (allowlist_tokens (form rq ''allowed_ips'')) = Inr ips"
      "expiration_value (rq_now rq) (form rq ''expiration'') (ak_expires key) = Inr expires"
      "at_keys t' = update_where (\<lambda>r. ak_key r = values_key rq) (\<lambda>r. r\<lparr>ak_name := name, ak_scopes := clean_scopes (form_list rq ''scopes''), ak_ips := ips,
         ak_expires := expires, ak_note := take 500 (strip (form rq ''note''))\<rparr>) (at_keys t)"
  let ?g = "edit_grant net rq (gt_expires (ledger_grant fs (values_key rq)))"
  have k: "row_of ak_key (values_key rq) (at_keys t) = Some key" using a(2) by (simp add: get_key_by_id_def)
  show ?thesis
  proof (cases "ak_active key")
    case True
    have "?g = \<lparr>gt_scopes = clean_scopes (form_list rq ''scopes''), gt_ips = ips, gt_expires = expires\<rparr>"
      using a(3,4) follows_row[OF f k True] by (simp add: edit_grant_def form_ips_def)
    then show ?thesis using a(1,5) by (auto intro: follows_changed[OF f])
  next
    case False
    then have n: "ledger fs (values_key rq) = None" using f k by (simp add: follows_def)
    have "ledger (Changed (values_key rq) ?g # fs) k' = ledger fs k'" for k' using n by simp
    moreover have "follows fs (at_keys t')"
      unfolding a(5)
    proof (unfold follows_def, intro conjI allI)
      show "distinct (map ak_key (update_where (\<lambda>r. ak_key r = values_key rq) (\<lambda>r. r\<lparr>ak_name := name, ak_scopes := clean_scopes (form_list rq ''scopes''), ak_ips := ips,
         ak_expires := expires, ak_note := take 500 (strip (form rq ''note''))\<rparr>) (at_keys t)))" using f by (simp add: follows_def)
      show "ledger fs k' = live (row_of ak_key k' (update_where (\<lambda>r. ak_key r = values_key rq) (\<lambda>r. r\<lparr>ak_name := name, ak_scopes := clean_scopes (form_list rq ''scopes''), ak_ips := ips,
         ak_expires := expires, ak_note := take 500 (strip (form rq ''note''))\<rparr>) (at_keys t)))" for k'
        using f False k by (subst row_of_update_key) (auto simp: follows_def)
    qed
    ultimately show ?thesis using a(1) by (simp add: follows_def)
  qed
qed

lemma keyed_follows: "keyed si net fs t \<Longrightarrow> follows fs (at_keys t)"
proof (induction rule: keyed.induct)
  case fresh
  then show ?case by (simp add: follows_def no_keys_def)
next
  case (calls fs t scopes answer c m r t' m')
  then show ?case using follows_call by blast
next
  case (creates fs t pair rq c w m r once w' t' m')
  from creates.hyps(3)[unfolded admin_api_key_create_def] show ?case
    by (rule guarded_page) (use creates.IH follows_create[OF creates.IH creates.hyps(2)] in \<open>auto simp: issued_def\<close>)
next
  case (rotates fs t pair rq c w m r once w' t' m')
  from rotates.hyps(3)[unfolded admin_api_key_rotate_def] show ?case
    by (rule guarded_page) (use rotates.IH follows_rotate[OF rotates.IH rotates.hyps(2)] in \<open>auto simp: issued_def\<close>)
next
  case (revokes fs t rq c w m r once w' t' m')
  from revokes.hyps(2)[unfolded admin_api_key_revoke_def] show ?case
    by (rule guarded_page) (use revokes.IH follows_revoke[OF revokes.IH] in auto)
next
  case (deletes fs t rq w m r once w' t' m')
  from deletes.hyps(2)[unfolded admin_api_key_delete_def] show ?case
    by (rule guarded_page) (use deletes.IH follows_delete[OF deletes.IH] in auto)
next
  case (edits fs t encode rq c w m r once w' t' m')
  from edits.hyps(2)[unfolded admin_api_key_edit_def] show ?case
    by (rule guarded_page) (use edits.IH follows_edit[OF edits.IH] in auto)
qed

section \<open>What a key opens\<close>

lemma parse_token_lower: "parse_token x = Some (k, s) \<Longrightarrow> lower k = k"
  by (auto simp: parse_token_def Let_def split: list.splits if_splits)

lemma check_granted:
  assumes "follows fs (at_keys t)"
  shows "(\<exists>key t'. check_key net required c t = (Inr key, t')) \<longleftrightarrow> granted net fs required c"
proof (cases "parse_token (extract_bearer (cl_auth c))")
  case None
  then show ?thesis by (simp add: check_key_def granted_def Let_def)
next
  case (Some x)
  obtain k s where x: "x = (k, s)" by (rule prod.exhaust)
  have l: "ledger fs k = live (row_of ak_key k (at_keys t))" using assms by (simp add: follows_def)
  have g: "get_key_by_id k t = row_of ak_key k (at_keys t)" using parse_token_lower Some x by (simp add: get_key_by_id_def)
  have e: "(filter (\<lambda>s. s \<notin> set ys) required = []) = (set required \<subseteq> set ys)" for ys by (auto simp: filter_empty_conv)
  show ?thesis
    by (cases "row_of ak_key k (at_keys t)") (auto simp: check_key_def granted_def Some x g l Let_def e)
qed

lemma check_key_id: "check_key net required c t = (Inr key, t') \<Longrightarrow> \<exists>s. parse_token (extract_bearer (cl_auth c)) = Some (ak_key key, s) \<and> get_key_by_id (ak_key key) t = Some key"
proof -
  assume a: "check_key net required c t = (Inr key, t')"
  obtain k s where p: "parse_token (extract_bearer (cl_auth c)) = Some (k, s)" using a by (auto simp: check_key_def Let_def split: option.splits)
  have g: "get_key_by_id k t = Some key" using a p by (auto simp: check_key_def Let_def split: option.splits if_splits)
  then have "ak_key key = k" using parse_token_lower[OF p] row_of_key[of ak_key k "at_keys t" key] by (simp add: get_key_by_id_def)
  then show ?thesis using p g by blast
qed

lemma authenticate_iff: "(\<exists>key s'. authenticate net required c (t, m) = (Inr key, s')) \<longleftrightarrow>
  (\<exists>key t'. check_key net required c t = (Inr key, t')) \<and> fst (rate_allowed net (fst (the (parse_token (extract_bearer (cl_auth c))))) (api_client_ip net c) (cl_now c) m)"
proof -
  obtain x t1 where x: "check_key net required c t = (x, t1)" by (rule prod.exhaust)
  show ?thesis
  proof (cases x)
    case (Inr key)
    obtain s where p: "parse_token (extract_bearer (cl_auth c)) = Some (ak_key key, s)" using check_key_id x Inr by blast
    obtain ok m1 where r: "rate_allowed net (ak_key key) (api_client_ip net c) (cl_now c) m = (ok, m1)" by (rule prod.exhaust)
    show ?thesis by (cases ok) (auto simp: authenticate_def x Inr p r Let_def)
  qed (simp add: authenticate_def x)
qed

text \<open>C15. A call is let in exactly when the key of its token was shown to an administrator and has not ended since, the secret has the
recorded hash, and the last decision on the key still covers the time, the address and the scopes, within the rate limit.\<close>

theorem access_follows_ledger:
  assumes "keyed si net fs t"
  shows "(\<exists>key s'. authenticate net required c (t, m) = (Inr key, s')) \<longleftrightarrow>
    granted net fs required c \<and> fst (rate_allowed net (fst (the (parse_token (extract_bearer (cl_auth c))))) (api_client_ip net c) (cl_now c) m)"
  unfolding authenticate_iff check_granted[OF keyed_follows[OF assms]] ..

lemma bearer_token:
  assumes "good_pair pair"
  shows "extract_bearer (''Bearer '' @ key_token (fst pair) (snd pair)) = key_token (fst pair) (snd pair)"
proof -
  let ?t = "key_token (fst pair) (snd pair)"
  have "snd pair \<noteq> []" "\<forall>c \<in> set (snd pair). \<not> is_space c" using assms by (auto simp: good_pair_def)
  then have l: "\<not> is_space (last ?t)" by (simp add: key_token_def)
  have b: "\<not> is_space (CHR ''B'')" "\<not> is_space (CHR ''b'')" by (simp_all add: is_space_def)
  have "trimmed (''Bearer '' @ ?t)" using l b by (simp add: trimmed_def key_token_def)
  moreover have "trimmed ?t" using l b by (simp add: trimmed_def key_token_def)
  moreover have "lower ''Bearer'' = ''bearer''" by code_simp
  ultimately show ?thesis by (simp add: extract_bearer_def strip_trimmed Let_def)
qed

lemma pruned_count: "rate_count (k, ip, now div 60) (m\<lparr>am_rates := prune_rates (now div 60) (am_rates m)\<rparr>) = rate_count (k, ip, now div 60) m"
proof -
  have "row_of fst x (filter (\<lambda>w. fst w \<notin> S) ws) = row_of fst x ws" if "x \<notin> S" for x S and ws :: "((string \<times> string \<times> int) \<times> int) list"
    using that by (induction ws) auto
  moreover have "(k, ip, now div 60) \<notin> set (take 8000 (filter (\<lambda>k. snd (snd k) < now div 60 - 2) (map fst (am_rates m))))"
    by (auto dest: in_set_takeD)
  ultimately show ?thesis by (simp add: rate_count_def prune_rates_def Let_def)
qed

lemma rate_allowed_iff: "fst (rate_allowed net k ip now m) \<longleftrightarrow> rate_count (k, ip, now div 60) m < nt_limit net"
  by (auto simp: rate_allowed_def Let_def pruned_count)

text \<open>C16. The key an administrator is shown works: sent as it is shown, it lets its holder in from then on, until it ends or changes,
for the scopes and from the addresses of the form and until the expiry of the form.\<close>

theorem shown_key_works:
  assumes "keyed si net fs t" "good_pair pair" "admin_api_key_create si net rq c0 pair (w, t, m) = (r, Some token, w', t', m')"
    and "cl_auth c = ''Bearer '' @ token" "set required \<subseteq> set (clean_scopes (form_list rq ''scopes''))"
    and "allowlist_matches net (api_client_ip net c) (form_ips net (allowlist_tokens (form rq ''allowed_ips'')))" "\<not> expired (form_expiry rq) (cl_now c)"
    and "rate_count (fst pair, api_client_ip net c, cl_now c div 60) m2 < nt_limit net"
  shows "\<exists>key s'. authenticate net required c (t', m2) = (Inr key, s') \<and> ak_key key = fst pair"
proof -
  have f: "follows fs (at_keys t)" by (rule keyed_follows[OF assms(1)])
  have tok: "token = key_token (fst pair) (snd pair) \<and> follows (issued net (Some token) (create_grant net rq) @ fs) (at_keys t')"
    using assms(3)[unfolded admin_api_key_create_def]
  proof (rule guarded_page)
    fix w1
    assume c: "create_key net rq c0 pair (w1, t, m) = (r, Some token, w', t', m')"
    then obtain k t1 e where "create_key_record net c0 pair (form rq ''name'') (form_list rq ''scopes'') (allowlist_tokens (form rq ''allowed_ips'')) e
        (key_actor (fst w1)) (form rq ''note'') [] t = Inr (k, token, t1)"
      by (auto simp: create_key_def split: sum.splits)
    then have "token = key_token (fst pair) (snd pair)" by (rule create_record_facts)
    then show ?thesis using follows_create[OF f assms(2) c] by simp
  qed simp
  then have i: "issued net (Some token) (create_grant net rq) = [Issued (fst pair) (nt_sha net (snd pair)) (create_grant net rq)]"
    using parse_key_token[OF assms(2)] by (cases pair) (simp add: issued_def)
  have p: "parse_token (extract_bearer (cl_auth c)) = Some pair" using tok parse_key_token[OF assms(2)] bearer_token[OF assms(2)] by (simp add: assms(4))
  have "granted net (issued net (Some token) (create_grant net rq) @ fs) required c"
    unfolding i using assms(5-7) by (cases pair) (simp add: granted_def p create_grant_def)
  then have "\<exists>key s'. authenticate net required c (t', m2) = (Inr key, s')"
    unfolding authenticate_iff check_granted[OF conjunct2[OF tok]] using assms(8) by (simp add: p rate_allowed_iff)
  then obtain key s' where a: "authenticate net required c (t', m2) = (Inr key, s')" by blast
  then obtain t2 where "check_key net required c t' = (Inr key, t2)"
    by (auto simp: authenticate_def Let_def split: prod.splits sum.splits if_splits)
  then show ?thesis using a check_key_id p by fastforce
qed

section \<open>The rate limit\<close>

type_synonym served_call = "api_tables \<times> string list \<times> call"

text \<open>The calls a process lets in for a key and an address in one minute, whatever else changes the tables.\<close>

fun let_in :: "network \<Rightarrow> string \<times> string \<times> int \<Rightarrow> served_call list \<Rightarrow> api_memory \<Rightarrow> nat" where
  "let_in net w [] m = 0"
| "let_in net w ((t, required, c) # cs) m = (case authenticate net required c (t, m) of
      (Inl e, t', m') \<Rightarrow> let_in net w cs m'
    | (Inr key, t', m') \<Rightarrow> (if (ak_key key, api_client_ip net c, cl_now c div 60) = w then 1 else 0) + let_in net w cs m')"

lemma rate_step:
  assumes "snd (snd w) \<ge> now div 60"
  shows "rate_count w (snd (rate_allowed net k ip now m)) = rate_count w m + (if w = (k, ip, now div 60) then 1 else 0)"
proof -
  have other: "row_of fst w (filter (\<lambda>u. fst u \<notin> S) ws) = row_of fst w ws" if "w \<notin> S" for S and ws :: "((string \<times> string \<times> int) \<times> int) list"
    using that by (induction ws) auto
  have n: "w \<notin> set (take 8000 (filter (\<lambda>k. snd (snd k) < now div 60 - 2) (map fst (am_rates m))))"
    using assms by (auto dest!: in_set_takeD)
  have p: "rate_count w (m\<lparr>am_rates := prune_rates (now div 60) (am_rates m)\<rparr>) = rate_count w m"
    using other[OF n] by (simp add: rate_count_def prune_rates_def Let_def)
  have up: "row_of fst w (upsert fst (\<lambda>old new. new) (k', n) ws) = (if w = k' then Some (k', n) else row_of fst w ws)" for k' n and ws :: "((string \<times> string \<times> int) \<times> int) list"
    by (induction ws) auto
  show ?thesis
    using p by (auto simp: rate_allowed_def Let_def rate_count_def up)
qed

lemma authenticate_memory:
  "authenticate net required c (t, m) = (x, t', m') \<Longrightarrow>
    am_rates m' = am_rates m \<and> isl x \<or> (\<exists>key. check_key net required c t = (Inr key, snd (check_key net required c t))
      \<and> am_rates m' = am_rates (snd (rate_allowed net (ak_key key) (api_client_ip net c) (cl_now c) m))
      \<and> (isl x \<or> x = Inr key \<and> rate_count (ak_key key, api_client_ip net c, cl_now c div 60) m < nt_limit net))"
proof -
  assume a: "authenticate net required c (t, m) = (x, t', m')"
  obtain y t1 where y: "check_key net required c t = (y, t1)" by (rule prod.exhaust)
  show ?thesis
  proof (cases y)
    case (Inl e)
    then show ?thesis using a by (auto simp: authenticate_def y)
  next
    case (Inr key)
    obtain ok m1 where r: "rate_allowed net (ak_key key) (api_client_ip net c) (cl_now c) m = (ok, m1)" by (rule prod.exhaust)
    have "am_rates (snd (flush_last_used net k ip now (t1, m1))) = am_rates m1" for k ip now by (auto simp: flush_last_used_def Let_def)
    then have st: "am_rates m' = am_rates m1" if "flush_last_used net k ip now (t1, m1) = (t', m')" for k ip now using that by (metis snd_conv)
    have "am_rates m' = am_rates m1 \<and> (isl x \<or> x = Inr key \<and> ok)" using a Inr y r st
      by (cases ok) (auto simp: authenticate_def Let_def)
    then show ?thesis using r Inr y rate_allowed_iff[of net "ak_key key" "api_client_ip net c" "cl_now c" m] by auto
  qed
qed

lemma let_in_later: "\<forall>x \<in> set cs. snd (snd w) < cl_now (snd (snd x)) div 60 \<Longrightarrow> let_in net w cs m = 0"
proof (induction cs arbitrary: m)
  case (Cons x cs)
  obtain t required c where x: "x = (t, required, c)" by (rule prod_cases3)
  obtain y t' m' where y: "authenticate net required c (t, m) = (y, t', m')" by (rule prod_cases3)
  have "let_in net w cs m' = 0" using Cons by simp
  moreover have "(k, ip, cl_now c div 60) \<noteq> w" for k ip using Cons.prems x by auto
  ultimately show ?case by (cases y) (simp_all add: x y)
qed simp

lemma let_in_bound:
  assumes "sorted (map (\<lambda>x. cl_now (snd (snd x))) cs)"
  shows "int (let_in net w cs m) \<le> max 0 (nt_limit net - rate_count w m)"
  using assms
proof (induction cs arbitrary: m)
  case (Cons x cs)
  obtain t required c where x: "x = (t, required, c)" by (rule prod_cases3)
  show ?case
  proof (cases "snd (snd w) < cl_now c div 60")
    case True
    have "\<forall>y \<in> set (x # cs). snd (snd w) < cl_now (snd (snd y)) div 60"
    proof
      fix y assume "y \<in> set (x # cs)"
      then have "cl_now c \<le> cl_now (snd (snd y))" using Cons.prems x by auto
      then have "cl_now c div 60 \<le> cl_now (snd (snd y)) div 60" by (rule zdiv_mono1) simp
      then show "snd (snd w) < cl_now (snd (snd y)) div 60" using True by simp
    qed
    then show ?thesis by (simp only: let_in_later)
  next
    case False
    obtain y t' m' where y: "authenticate net required c (t, m) = (y, t', m')" by (rule prod_cases3)
    have IH: "int (let_in net w cs m') \<le> max 0 (nt_limit net - rate_count w m')" using Cons by simp
    have step: "rate_count w (m\<lparr>am_rates := am_rates (snd (rate_allowed net k ip (cl_now c) m))\<rparr>) = rate_count w m + (if w = (k, ip, cl_now c div 60) then 1 else 0)" for k ip
      using rate_step[of "cl_now c" w net k ip m] False by (simp add: rate_count_def)
    have eq: "am_rates a = am_rates b \<Longrightarrow> rate_count w a = rate_count w b" for a b by (simp add: rate_count_def)
    from authenticate_memory[OF y] show ?thesis
    proof (elim disjE exE conjE)
      assume "am_rates m' = am_rates m" "isl y"
      then show ?thesis using IH eq[of m' m] by (cases y) (simp_all add: x y)
    next
      fix key
      assume "am_rates m' = am_rates (snd (rate_allowed net (ak_key key) (api_client_ip net c) (cl_now c) m))" "isl y"
      then have "rate_count w m' = rate_count w (m\<lparr>am_rates := am_rates m'\<rparr>)" "isl y"
        and "am_rates m' = am_rates (snd (rate_allowed net (ak_key key) (api_client_ip net c) (cl_now c) m))" by (simp_all add: rate_count_def)
      then have "rate_count w m \<le> rate_count w m'" "isl y" using step[of "ak_key key" "api_client_ip net c"] by simp_all
      then show ?thesis using IH by (cases y) (auto simp: x y)
    next
      fix key
      assume a: "am_rates m' = am_rates (snd (rate_allowed net (ak_key key) (api_client_ip net c) (cl_now c) m))" "y = Inr key"
        "rate_count (ak_key key, api_client_ip net c, cl_now c div 60) m < nt_limit net"
      have "rate_count w m' = rate_count w m + (if w = (ak_key key, api_client_ip net c, cl_now c div 60) then 1 else 0)"
        using step[of "ak_key key" "api_client_ip net c"] eq[of m' "m\<lparr>am_rates := am_rates m'\<rparr>"] a(1) by simp
      then show ?thesis using IH a(2,3) by (cases "w = (ak_key key, api_client_ip net c, cl_now c div 60)") (auto simp: x y)
    qed
  qed
qed simp

text \<open>C17. A process lets in no more calls of a key from an address in a minute than the limit, whatever else it serves and forgets.\<close>

theorem rate_limit_holds:
  assumes "sorted (map (\<lambda>x. cl_now (snd (snd x))) cs)" "0 \<le> rate_count (key_id, ip, minute) m" "0 \<le> nt_limit net"
  shows "int (let_in net (key_id, ip, minute) cs m) \<le> nt_limit net"
  using let_in_bound[OF assms(1), of net "(key_id, ip, minute)" m] assms(2,3) by linarith

section \<open>Who decides on keys\<close>

datatype key_action = Create_Key "string \<times> string" | Rotate_Key "string \<times> string" | Revoke_Key | Delete_Key | Edit_Key "api_key \<Rightarrow> api_key \<Rightarrow> string"

fun key_endpoint :: "key_action \<Rightarrow> string" where
  "key_endpoint (Create_Key p) = ''admin_api_key_create''"
| "key_endpoint (Rotate_Key p) = ''admin_api_key_rotate''"
| "key_endpoint Revoke_Key = ''admin_api_key_revoke''"
| "key_endpoint Delete_Key = ''admin_api_key_delete''"
| "key_endpoint (Edit_Key e) = ''admin_api_key_edit''"

fun key_page :: "site \<Rightarrow> network \<Rightarrow> request \<Rightarrow> call \<Rightarrow> key_action \<Rightarrow> key_desk \<Rightarrow> response \<times> string option \<times> key_desk" where
  "key_page si net rq c (Create_Key p) = admin_api_key_create si net rq c p"
| "key_page si net rq c (Rotate_Key p) = admin_api_key_rotate si net rq c p"
| "key_page si net rq c Revoke_Key = admin_api_key_revoke si rq c"
| "key_page si net rq c Delete_Key = admin_api_key_delete si rq"
| "key_page si net rq c (Edit_Key e) = admin_api_key_edit si net e rq c"

lemma key_page_guarded: "\<exists>go. key_page si net rq c a = guarded_keys si rq go"
  by (cases a) (auto simp: admin_api_key_create_def admin_api_key_rotate_def admin_api_key_revoke_def admin_api_key_delete_def admin_api_key_edit_def)

lemma key_endpoint_super: "key_endpoint a \<notin> set ADMIN_ALLOWED_ENDPOINTS"
  by (cases a) (simp_all add: ADMIN_ALLOWED_ENDPOINTS_def)

text \<open>C18. The tables of the keys change by a page only for a visitor with the cookie of an active super admin and the token of the session.\<close>

theorem keys_need_super_admin:
  assumes run: "served si (ss, db)" "se = no_session \<or> se \<in> set ss" and users: "us_users db \<noteq> []"
    and p: "rq_endpoint rq = key_endpoint a" "rq_post rq" and go: "key_page si net rq c a ((se, db), t, m) = (r, once, w', t', m')" and new: "t' \<noteq> t"
  shows "\<exists>token u. se_csrf se = Some token \<and> dget (rq_form rq) ''csrf_token'' = Some token \<and> allowed si db se
    \<and> current_dashboard_user se db = Some u \<and> ac_active u \<and> ac_role u = ''super_admin''"
proof -
  have ok: "accounts_ok db" "session_ok db se" using served_ok[OF run(1)] run(2) by (auto simp: server_ok_def list_all_iff)
  note b = boot_id[OF users]
  obtain page where g: "key_page si net rq c a = guarded_keys si rq page" using key_page_guarded by blast
  obtain deny se1 db1 where d: "require_admin si rq (se, db) = (deny, se1, db1)" by (rule prod_cases3)
  have "deny = None" using go new by (cases deny) (simp_all add: g guarded_keys_def d)
  then have "require_admin si rq (se, db) = (None, se, boot si rq db)" using d require_admin_session[OF d] by simp
  note r = require_admin_None[OF this, unfolded b]
  obtain u where u: "current_dashboard_user se db = Some u" "ac_active u" "clean_role (ac_role u) \<in> {''admin'', ''super_admin''}" using r(3) by blast
  have s: "se_csrf se \<noteq> None" "se_user se \<noteq> []" using r(2) ok(2) by (auto elim!: allowed_user simp: session_ok_def)
  have "ac_role u \<in> {''admin'', ''super_admin''}" using u role_clean[OF ok(1) current_user_mem[OF u(1)]] by simp
  moreover have "ac_role u \<noteq> ''admin''" using r(5) key_endpoint_super[of a] current_user_name(2)[OF ok u(1) s(2)] p(1) by auto
  ultimately show ?thesis using r(2,4) u(1,2) s(1) p(2) by auto
qed

section \<open>Two ways around\<close>

text \<open>A key that has expired but was not revoked can be rotated, and its replacement has the same scopes and never expires.\<close>

theorem expired_key_lives_on:
  assumes "keyed si net fs t" "get_key_by_id (form_key rq) t = Some old" "ak_active old" "expired (ak_expires old) (rq_now rq)"
    and "admin_api_key_rotate si net rq c pair (w, t, m) = (r, Some token, w', t', m')"
  shows "\<exists>row. row_of ak_key (fst pair) (at_keys t') = Some row \<and> ak_active row \<and> ak_expires row = None \<and> ak_scopes row = clean_scopes (ak_scopes old)
    \<and> ak_hash row = nt_sha net (snd pair) \<and> token = key_token (fst pair) (snd pair)"
  using assms(5)[unfolded admin_api_key_rotate_def]
proof (rule guarded_page)
  fix w1
  assume e: "rotate_key net rq c pair (w1, t, m) = (r, Some token, w', t', m')"
  then obtain k t1 where x: "create_key_record net c pair (str_or (ak_name old) ''Rotated API Key'') (ak_scopes old) (ak_ips old) None (key_actor (fst w1)) (ak_note old)
      (form_key rq) t = Inr (k, token, t1)"
    and t': "at_keys t' = update_where (\<lambda>r. ak_key r = form_key rq) (revoke_row (rq_now rq) (key_actor (fst w1))) (at_keys t1)"
    using assms(2-4) by (auto simp: rotate_key_def Let_def split: sum.splits prod.splits)
  obtain row where row: "token = key_token (fst pair) (snd pair)" "row_of ak_key (fst pair) (at_keys t) = None" "at_keys t1 = at_keys t @ [row]"
      "ak_key row = fst pair" "ak_hash row = nt_sha net (snd pair)" "ak_active row" "ak_scopes row = clean_scopes (ak_scopes old)" "ak_expires row = dated None"
    using create_record_facts[OF x] by metis
  have old: "row_of ak_key (form_key rq) (at_keys t) = Some old" using assms(2) by (simp add: get_key_by_id_def)
  then have n: "fst pair \<noteq> form_key rq" using row(2) by auto
  have "row_of ak_key (fst pair) (at_keys t') = row_of ak_key (fst pair) (at_keys t1)"
    unfolding t' by (subst row_of_update_key) (simp_all add: revoke_row_def n)
  then have "row_of ak_key (fst pair) (at_keys t') = Some row" using row(2-4) by (simp add: row_of_append)
  then show ?thesis using row by (intro exI[of _ row]) (simp add: dated_def)
qed simp

text \<open>A session that was ended with its account, so that every page of the dashboard turns it away, is still answered by the page
of the performance figures, whose gate reads only the flag in the cookie.\<close>

theorem ended_session_reads_performance:
  assumes "\<not> allowed si db se" "se_dash se" "rq_path rq = ''/api/v1/performance''"
  shows "performance_page si rq (se, db) = Page ''performance'' [] \<and> (\<forall>rq2. \<exists>deny. fst (require_dashboard si rq2 db se) = Some deny)"
proof
  have "starts_with ''/api/v1/'' ''/api/v1/performance''" by (simp add: starts_with_iff)
  then have "enforce_dashboard_login si rq db se = (None, se)" using assms(3) by (simp add: enforce_dashboard_login_def Let_def)
  then show "performance_page si rq (se, db) = Page ''performance'' []" using assms(2) by (simp add: performance_page_def api_v1_performance_def)
  obtain ok se1 where o: "dashboard_allowed si db se = (ok, se1)" by (rule prod.exhaust)
  then show "\<forall>rq2. \<exists>deny. fst (require_dashboard si rq2 db se) = Some deny" using assms(1) by (simp add: allowed_def require_dashboard_def)
qed

section \<open>An installation\<close>

definition sample_net :: network where
  "sample_net = \<lparr>nt_address = (\<lambda>s. if s \<noteq> [] \<and> list_all (\<lambda>c. is_digit c \<or> c = CHR ''.'') s then Some s else None), nt_network = Some,
     nt_member = (\<lambda>a n. starts_with (takeWhile (\<lambda>c. c \<noteq> CHR ''/'') n) a), nt_sha = (\<lambda>s. ''h'' @ s), nt_trust_proxy = False, nt_proxies = [],
     nt_limit = 120, nt_flush = 60, nt_logs = True, nt_days = 7\<rparr>"

definition first_pair :: "string \<times> string" where
  "first_pair = (''0123456789ab'', ''aaaa_bbbb-cccc_dddd-eeee_ffff-gggg'')"

definition second_pair :: "string \<times> string" where
  "second_pair = (''ba9876543210'', ''gggg_bbbb-cccc_dddd-eeee_ffff-aaaa'')"

definition desk_call :: call where
  "desk_call = \<lparr>cl_now = 100, cl_remote = ''10.0.0.1'', cl_forwarded = [], cl_real_ip = [], cl_auth = [], cl_method = ''POST'', cl_path = ''/admin/api-keys/create'',
     cl_query = [], cl_endpoint = ''admin_api_key_create'', cl_request = ''r1''\<rparr>"

definition app_call :: call where
  "app_call = \<lparr>cl_now = 200, cl_remote = ''10.0.0.7'', cl_forwarded = ''10.9.9.9'', cl_real_ip = [], cl_auth = ''Bearer '' @ key_token (fst first_pair) (snd first_pair),
     cl_method = ''GET'', cl_path = ''/api/v1/abuse/vms'', cl_query = [], cl_endpoint = ''api_v1_abuse_vms'', cl_request = ''r2''\<rparr>"

definition key_form :: request where
  "key_form = post ''admin_api_key_create'' ''9'' [(''name'', ''Windows app''), (''scopes'', ''abuse:read''), (''allowed_ips'', ''10.0.0.7 10.1.''),
     (''expiration'', ''30''), (''csrf_token'', ''t3'')]"

definition late_rotate :: request where
  "late_rotate = (post ''admin_api_key_rotate'' ''9'' [(''key_id'', ''0123456789ab''), (''csrf_token'', ''t3'')])\<lparr>rq_now := 100 + 31 * 86400\<rparr>"

definition fresh_memory :: api_memory where
  "fresh_memory = \<lparr>am_rates = [], am_used = [], am_pruned = 0\<rparr>"

definition key_shown :: "response \<times> string option \<times> key_desk" where
  "key_shown = admin_api_key_create sample_site sample_net key_form desk_call first_pair ((boss_cookie, both_db), no_keys, fresh_memory)"

definition shown_tables :: api_tables where
  "shown_tables = fst (snd (snd (snd key_shown)))"

definition key_rotated :: "response \<times> string option \<times> key_desk" where
  "key_rotated = admin_api_key_rotate sample_site sample_net late_rotate desk_call second_pair ((boss_cookie, both_db), shown_tables, fresh_memory)"

lemma key_gates:
  "require_admin sample_site key_form (boss_cookie, both_db) = (None, boss_cookie, both_db)"
  "require_admin sample_site late_rotate (boss_cookie, both_db) = (None, boss_cookie, both_db)"
  by code_simp+

lemma form_values: "clean_key_name (form key_form ''name'') = Inr ''Windows app''" "clean_scopes (form_list key_form ''scopes'') = [''abuse:read'']"
  "normalize_allowlist sample_net (allowlist_tokens (form key_form ''allowed_ips'')) = Inr [''10.0.0.7'', ''10.1.'']"
  "expiration_from_form 100 (form key_form ''expiration'') = Inr (Some 2592100)"
  "key_actor boss_cookie = ''boss''" "strip ''boss'' = ''boss''" 
  by code_simp+

lemma good_pairs: "good_pair first_pair" "good_pair second_pair"
  by code_simp+

definition first_row :: api_key where
  "first_row = new_key sample_net 100 first_pair ''Windows app'' [''abuse:read''] [''10.0.0.7'', ''10.1.''] (Some 2592100) ''boss'' [] [] no_keys"

lemma row_values [simp]: "ak_key first_row = ''0123456789ab''" "ak_hash first_row = ''h'' @ snd first_pair" "ak_active first_row" "ak_scopes first_row = [''abuse:read'']"
  "ak_ips first_row = [''10.0.0.7'', ''10.1.'']" "ak_expires first_row = Some 2592100" "ak_name first_row = ''Windows app''" "ak_note first_row = []"
  by (simp_all add: first_row_def new_key_def first_pair_def sample_net_def)

lemma form_more: "rq_now key_form = 100" "rq_now late_rotate = 2678500" "cl_now desk_call = 100" "strip [] = []" "form_key late_rotate = ''0123456789ab''"
  "form key_form ''note'' = []"
  by (simp_all add: key_form_def late_rotate_def post_def desk_call_def) code_simp+

lemma shown_once: "fst (snd key_shown) = Some (key_token (fst first_pair) (snd first_pair))" "at_keys shown_tables = [first_row]"
proof -
  have "key_shown = (fst key_shown, Some (key_token (fst first_pair) (snd first_pair)), snd (snd key_shown)) \<and> at_keys shown_tables = [first_row]"
    unfolding shown_tables_def
    by (simp add: key_shown_def admin_api_key_create_def guarded_keys_def key_gates create_key_def Let_def form_values form_more create_key_record_def str_or_def
      no_keys_def first_row_def)
  then show "fst (snd key_shown) = Some (key_token (fst first_pair) (snd first_pair))" "at_keys shown_tables = [first_row]" by (auto dest: arg_cong[where f = "\<lambda>x. fst (snd x)"])
qed

lemma old_values: "clean_key_name ''Windows app'' = Inr ''Windows app''" "clean_scopes [''abuse:read''] = [''abuse:read'']"
  "normalize_allowlist sample_net [''10.0.0.7'', ''10.1.''] = Inr [''10.0.0.7'', ''10.1.'']" "lower ''0123456789ab'' = ''0123456789ab''" "fst second_pair = ''ba9876543210''"
  by code_simp+

lemma rotated_once: "fst (snd key_rotated) = Some (key_token (fst second_pair) (snd second_pair))"
  by (simp add: key_rotated_def admin_api_key_rotate_def guarded_keys_def key_gates rotate_key_def Let_def form_values form_more create_key_record_def str_or_def
      get_key_by_id_def shown_once(2) old_values expired_def)

lemma shown_keyed: "keyed sample_site sample_net (issued sample_net (fst (snd key_shown)) (create_grant sample_net key_form)) shown_tables"
proof -
  obtain r once w t m where k: "key_shown = (r, once, w, t, m)" by (metis prod.exhaust)
  have "keyed sample_site sample_net (issued sample_net once (create_grant sample_net key_form) @ []) t"
    using keyed.creates[OF keyed.fresh good_pairs(1) k[unfolded key_shown_def]] .
  then show ?thesis by (simp add: k shown_tables_def)
qed

lemma app_values: "extract_bearer (cl_auth app_call) = key_token (fst first_pair) (snd first_pair)" "parse_token (key_token (fst first_pair) (snd first_pair)) = Some first_pair"
  "api_client_ip sample_net app_call = ''10.0.0.7''" "allowlist_matches sample_net ''10.0.0.7'' [''10.0.0.7'', ''10.1.'']" "cl_now app_call = 200"
  by code_simp+

theorem access_follows_ledger_witness:
  "\<exists>key s'. authenticate sample_net [''abuse:read''] app_call (shown_tables, fresh_memory) = (Inr key, s')"
proof -
  have g: "form_ips sample_net (allowlist_tokens (form key_form ''allowed_ips'')) = [''10.0.0.7'', ''10.1.'']" "form_expiry key_form = Some 2592100"
    by (simp_all add: form_ips_def form_expiry_def form_values form_more dated_def)
  obtain k x where p: "first_pair = (k, x)" by (rule prod.exhaust)
  have "granted sample_net (issued sample_net (fst (snd key_shown)) (create_grant sample_net key_form)) [''abuse:read''] app_call"
    by (simp add: granted_def app_values shown_once issued_def p[symmetric] create_grant_def form_values g expired_def split: prod.split) (simp add: first_pair_def)
  moreover have "fst (rate_allowed sample_net k ''10.0.0.7'' 200 fresh_memory)" for k
    by (simp add: rate_allowed_iff rate_count_def fresh_memory_def sample_net_def)
  ultimately show ?thesis using access_follows_ledger[OF shown_keyed, of "[''abuse:read'']" app_call fresh_memory] by (simp add: app_values)
qed

theorem shown_key_works_witness:
  "\<exists>key s'. authenticate sample_net [''abuse:read''] app_call (shown_tables, fresh_memory) = (Inr key, s') \<and> ak_key key = fst first_pair"
proof -
  obtain r once w t m where k: "key_shown = (r, once, w, t, m)" by (metis prod.exhaust)
  have k': "admin_api_key_create sample_site sample_net key_form desk_call first_pair ((boss_cookie, both_db), no_keys, fresh_memory)
      = (r, Some (key_token (fst first_pair) (snd first_pair)), w, shown_tables, m)"
    using shown_once(1) k by (simp add: key_shown_def shown_tables_def)
  show ?thesis
    by (rule shown_key_works[OF keyed.fresh good_pairs(1) k'])
      (simp_all add: form_values app_values form_ips_def form_expiry_def form_more dated_def expired_def rate_count_def fresh_memory_def, simp_all add: app_call_def sample_net_def)
qed

theorem rate_limit_holds_witness:
  "int (let_in sample_net (''0123456789ab'', ''10.0.0.7'', 3) (replicate 500 (shown_tables, [''abuse:read''], app_call)) fresh_memory) \<le> 120"
  using rate_limit_holds[of "replicate 500 (shown_tables, [''abuse:read''], app_call)" "''0123456789ab''" "''10.0.0.7''" 3 fresh_memory sample_net]
  by (simp add: rate_count_def fresh_memory_def sample_net_def)

theorem keys_need_super_admin_witness:
  "\<exists>token u. se_csrf boss_cookie = Some token \<and> dget (rq_form key_form) ''csrf_token'' = Some token \<and> allowed sample_site both_db boss_cookie
    \<and> current_dashboard_user boss_cookie both_db = Some u \<and> ac_active u \<and> ac_role u = ''super_admin''"
proof -
  obtain r once w t m where k: "key_shown = (r, once, w, t, m)" by (metis prod.exhaust)
  have "at_keys t = [first_row]" using shown_once(2) unfolding shown_tables_def k by simp
  then have n: "t \<noteq> no_keys" by (auto simp: no_keys_def)
  have p: "key_page sample_site sample_net key_form desk_call (Create_Key first_pair) ((boss_cookie, both_db), no_keys, fresh_memory) = (r, once, w, t, m)"
    using k by (simp add: key_shown_def)
  show ?thesis
    by (rule keys_need_super_admin[OF sample_served(3) _ _ _ _ p n]) (simp_all add: both_users key_form_def post_def)
qed

theorem expired_key_lives_on_witness:
  "\<exists>row. row_of ak_key (fst second_pair) (at_keys (fst (snd (snd (snd key_rotated))))) = Some row \<and> ak_active row \<and> ak_expires row = None"
proof -
  obtain r once w t m where k: "key_rotated = (r, once, w, t, m)" by (metis prod.exhaust)
  have k': "admin_api_key_rotate sample_site sample_net late_rotate desk_call second_pair ((boss_cookie, both_db), shown_tables, fresh_memory)
      = (r, Some (key_token (fst second_pair) (snd second_pair)), w, t, m)"
    using rotated_once k by (simp add: key_rotated_def)
  have "get_key_by_id (form_key late_rotate) shown_tables = Some first_row" by (simp add: get_key_by_id_def form_more old_values shown_once(2))
  from expired_key_lives_on[OF shown_keyed this _ _ k'] show ?thesis unfolding k by (auto simp: expired_def form_more)
qed

theorem ended_session_reads_performance_witness:
  "performance_page sample_site ((post ''api_v1_performance_v48140'' ''9'' [])\<lparr>rq_path := ''/api/v1/performance''\<rparr>) (root_cookie, deleted_db) = Page ''performance'' []
    \<and> (\<forall>rq2. \<exists>deny. fst (require_dashboard sample_site rq2 deleted_db root_cookie) = Some deny)"
proof (rule ended_session_reads_performance)
  show "\<not> allowed sample_site deleted_db root_cookie" by code_simp
  show "se_dash root_cookie" by (simp add: root_cookie_def admin_cookie_def)
qed simp

end
