(* ===== verification/Sql_Text.thy ===== *)
theory Sql_Text
  imports Prelude
begin

text \<open>
  The texts of SQL between the application, which writes the dialect of SQLite, and psycopg
  (bw_pg.py): the splitting of scripts, the placeholders, the percent signs and the scalar MAX and
  MIN. The scanners go over the text by index; here they go over the text that is left, with what
  the flags of a scanner say as its mode. The loop over MAX and MIN ends, two
  scanners are compared with one reading of the text (\<open>pieces\<close>), and the percent signs with how
  psycopg reads them (\<open>psycopg_text\<close>).
\<close>

section \<open>Scripts\<close>

text \<open>The flags quote, dollar_tag, line_comment and block_comment, of which at most one is set.\<close>

datatype mode = Plain | Quote char | Dollar string | Line | Block

definition word_char :: "char \<Rightarrow> bool" where
  "word_char c \<longleftrightarrow> c = CHR ''_'' \<or> is_digit c \<or> (let l = lower_char c in CHR ''a'' \<le> l \<and> l \<le> CHR ''z'')"

definition dollar_tag :: "string \<Rightarrow> string option" where
  "dollar_tag s = (case s of [] \<Rightarrow> None | d # r \<Rightarrow>
     (let name = takeWhile word_char r in if d = CHR ''$'' \<and> starts_with ''$'' (drop (length name) r) then Some (''$'' @ name @ ''$'') else None))"

definition add_statement :: "string \<Rightarrow> string list \<Rightarrow> string list" where
  "add_statement buf out = (let statement = strip buf in if statement = [] then out else statement # out)"

text \<open>The next character \<open>nxt\<close>, if there is one, is a given one.\<close>

abbreviation nxt :: "char \<Rightarrow> string \<Rightarrow> bool" where
  "nxt c s \<equiv> (case s of [] \<Rightarrow> False | x # r \<Rightarrow> x = c)"

fun split_from :: "mode \<Rightarrow> string \<Rightarrow> string \<Rightarrow> string list" where
  "split_from m buf [] = add_statement buf []"
| "split_from Line buf (ch # s) = split_from (if ch = CHR 0x0A then Plain else Line) (buf @ [ch]) s"
| "split_from Block buf (ch # s) =
     (if ch = CHR ''*'' \<and> nxt CHR ''/'' s then split_from Plain (buf @ ''*/'') (tl s) else split_from Block (buf @ [ch]) s)"
| "split_from (Quote q) buf (ch # s) =
     (if ch = q \<and> nxt q s then split_from (Quote q) (buf @ [q, q]) (tl s)
      else split_from (if ch = q then Plain else Quote q) (buf @ [ch]) s)"
| "split_from (Dollar tag) buf (ch # s) =
     (if starts_with tag (ch # s) then split_from Plain (buf @ tag) (drop (length tag - 1) s) else split_from (Dollar tag) (buf @ [ch]) s)"
| "split_from Plain buf (ch # s) =
     (if ch = CHR ''-'' \<and> nxt CHR ''-'' s then split_from Line (buf @ ''--'') (tl s)
      else if ch = CHR ''/'' \<and> nxt CHR ''*'' s then split_from Block (buf @ ''/*'') (tl s)
      else if ch = CHR 0x27 \<or> ch = CHR 0x22 then split_from (Quote ch) (buf @ [ch]) s
      else (case dollar_tag (ch # s) of Some tag \<Rightarrow> split_from (Dollar tag) (buf @ tag) (drop (length tag - 1) s)
        | None \<Rightarrow>
            (if ch = CHR '';'' then add_statement buf (split_from Plain [] s)
             else split_from Plain (buf @ [ch]) s)))"

definition split_sql_script :: "string \<Rightarrow> string list" where
  "split_sql_script script = split_from Plain [] script"

section \<open>Placeholders\<close>

fun qmarks_from :: "mode \<Rightarrow> string \<Rightarrow> string" where
  "qmarks_from m [] = []"
| "qmarks_from Line (ch # s) = ch # qmarks_from (if ch = CHR 0x0A then Plain else Line) s"
| "qmarks_from Block (ch # s) =
     (if ch = CHR ''*'' \<and> nxt CHR ''/'' s then ''*/'' @ qmarks_from Plain (tl s) else ch # qmarks_from Block s)"
| "qmarks_from (Quote q) (ch # s) =
     (if ch = q \<and> nxt q s then [q, q] @ qmarks_from (Quote q) (tl s)
      else ch # qmarks_from (if ch = q then Plain else Quote q) s)"
| "qmarks_from m (ch # s) =
     (if ch = CHR ''-'' \<and> nxt CHR ''-'' s then ''--'' @ qmarks_from Line (tl s)
      else if ch = CHR ''/'' \<and> nxt CHR ''*'' s then ''/*'' @ qmarks_from Block (tl s)
      else if ch = CHR 0x27 \<or> ch = CHR 0x22 then ch # qmarks_from (Quote ch) s
      else if ch = CHR ''?'' then ''%s'' @ qmarks_from Plain s
      else ch # qmarks_from Plain s)"

definition qmarks_to_psycopg :: "string \<Rightarrow> string" where
  "qmarks_to_psycopg sql = qmarks_from Plain sql"

text \<open>A name, and the number of characters of the placeholder \<open>%(name)s\<close> that a text starts with after the percent sign.\<close>

definition sql_name :: "string \<Rightarrow> bool" where
  "sql_name n \<longleftrightarrow> n \<noteq> [] \<and> \<not> is_digit (hd n) \<and> list_all word_char n"

fun find_end :: "string \<Rightarrow> string option" where
  "find_end [] = None"
| "find_end (c # s) = (if c = CHR '')'' \<and> nxt CHR ''s'' s then Some [] else map_option (Cons c) (find_end s))"

definition named :: "string \<Rightarrow> string option" where
  "named s = (case s of [] \<Rightarrow> None | c # r \<Rightarrow> if c \<noteq> CHR ''('' then None
     else (case find_end r of None \<Rightarrow> None | Some n \<Rightarrow> if sql_name n then Some (''('' @ n @ '')s'') else None))"

text \<open>Named parameters; \<open>p\<close>: the character before is a colon.\<close>

function named_from :: "bool \<Rightarrow> string \<Rightarrow> string" where
  "named_from p [] = []"
| "named_from p (c # s) =
     (let n = takeWhile word_char s in
      if c = CHR '':'' \<and> \<not> p \<and> sql_name n then ''%('' @ n @ '')s'' @ named_from False (drop (length n) s)
      else c # named_from (c = CHR '':'') s)"
  by pat_completeness auto
termination
  by (relation "measure (\<lambda>(p, s). length s)") auto

definition named_to_psycopg :: "string \<Rightarrow> string" where
  "named_to_psycopg sql = named_from False sql"

function escape_psycopg_percent :: "string \<Rightarrow> string" where
  "escape_psycopg_percent s = (case s of [] \<Rightarrow> []
     | ch # r \<Rightarrow>
         (if ch \<noteq> CHR ''%'' then ch # escape_psycopg_percent r
          else (case named r of
              Some p \<Rightarrow> ''%'' @ p @ escape_psycopg_percent (drop (length p) r)
            | None \<Rightarrow>
                (if nxt CHR ''s'' r \<or> nxt CHR ''b'' r \<or> nxt CHR ''t'' r \<or> nxt CHR ''%'' r then ''%'' @ [hd r] @ escape_psycopg_percent (tl r)
                 else ''%%'' @ escape_psycopg_percent r))))"
  by pat_completeness auto
termination
  by (relation "measure length") auto

declare escape_psycopg_percent.simps [simp del]

section \<open>Scalar MAX and MIN\<close>

text \<open>The pattern MAX or MIN, white space and a parenthesis: which of the two, and the text behind.\<close>

definition call_at :: "string \<Rightarrow> (bool \<times> string) option" where
  "call_at s = (let w = upper (take 3 s); r = dropWhile is_space (drop 3 s) in
     if (w = ''MAX'' \<or> w = ''MIN'') \<and> nxt CHR ''('' r then Some (w = ''MAX'', tl r) else None)"

text \<open>The scan for the closing parenthesis: whether a comma was met at depth one, the arguments and the rest.\<close>

definition kept :: "string \<Rightarrow> (bool \<times> string \<times> string) option \<Rightarrow> (bool \<times> string \<times> string) option" where
  "kept u r = map_option (\<lambda>(comma, a, s). (comma, u @ a, s)) r"

fun close_paren :: "char option \<Rightarrow> nat \<Rightarrow> bool \<Rightarrow> string \<Rightarrow> (bool \<times> string \<times> string) option" where
  "close_paren quote depth comma [] = None"
| "close_paren (Some q) depth comma (ch # s) =
     (if ch = q \<and> nxt q s then kept [q, q] (close_paren (Some q) depth comma (tl s))
      else kept [ch] (close_paren (if ch = q then None else Some q) depth comma s))"
| "close_paren None depth comma (ch # s) =
     (if ch = CHR 0x27 \<or> ch = CHR 0x22 then kept [ch] (close_paren (Some ch) depth comma s)
      else if ch = CHR ''('' then kept [ch] (close_paren None (depth + 1) comma s)
      else if ch = CHR '')'' then (if depth = 1 then Some (comma, [], s) else kept [ch] (close_paren None (depth - 1) comma s))
      else kept [ch] (close_paren None depth (comma \<or> ch = CHR '','' \<and> depth = 1) s))"

text \<open>One round of the loop: the first call that closes and has a comma is rewritten. \<open>p\<close>: the character before is part of a word.\<close>

definition rewrite_call :: "string \<Rightarrow> string option" where
  "rewrite_call s = (case call_at s of
      None \<Rightarrow> None
    | Some (greatest, r) \<Rightarrow>
        (case close_paren None 1 False r of
           Some (True, args, r2) \<Rightarrow> Some ((if greatest then ''GREATEST('' else ''LEAST('') @ args @ '')'' @ r2)
         | _ \<Rightarrow> None))"

fun rewrite_first :: "bool \<Rightarrow> string \<Rightarrow> string option" where
  "rewrite_first p [] = None"
| "rewrite_first p (ch # s) = (case (if p then None else rewrite_call (ch # s)) of
      Some t \<Rightarrow> Some t
    | None \<Rightarrow> map_option (Cons ch) (rewrite_first (word_char ch) s))"

text \<open>The matches of the pattern.\<close>

fun calls :: "bool \<Rightarrow> string \<Rightarrow> nat" where
  "calls p [] = 0"
| "calls p (ch # s) = (if \<not> p \<and> call_at (ch # s) \<noteq> None then 1 else 0) + calls (word_char ch) s"

section \<open>The loop of MAX and MIN ends\<close>

lemma kept_Some: "kept u r = Some (c, a, t) \<longleftrightarrow> (\<exists>a'. r = Some (c, a', t) \<and> a = u @ a')"
  by (cases r) (auto simp: kept_def)

lemma nxt_tl: "nxt c s \<Longrightarrow> s = c # tl s"
  by (cases s) auto

lemma close_paren_text: "close_paren quote depth comma s = Some (c, a, t) \<Longrightarrow> s = a @ '')'' @ t"
proof (induction quote depth comma s arbitrary: a rule: close_paren.induct)
  case (2 q depth comma ch s)
  show ?case
  proof (cases "ch = q \<and> nxt q s")
    case True
    then obtain a' where "close_paren (Some q) depth comma (tl s) = Some (c, a', t)" "a = [q, q] @ a'"
      using "2.prems" by (auto simp: kept_Some)
    then show ?thesis using "2.IH"(1)[OF True] nxt_tl[of q s] True by simp
  next
    case False
    then obtain a' where "close_paren (if ch = q then None else Some q) depth comma s = Some (c, a', t)" "a = [ch] @ a'"
      using "2.prems" by (auto simp: kept_Some simp del: split_paired_Ex)
    then show ?thesis using "2.IH"(2)[OF False] by simp
  qed
next
  case (3 depth comma ch s)
  consider (quote) "ch = CHR 0x27 \<or> ch = CHR 0x22" | (left) "ch = CHR ''(''" | (final) "ch = CHR '')''" "depth = 1" | (right) "ch = CHR '')''" "depth \<noteq> 1"
    | (other) "\<not> (ch = CHR 0x27 \<or> ch = CHR 0x22)" "ch \<noteq> CHR ''(''" "ch \<noteq> CHR '')''" by blast
  then show ?case
  proof cases
    case quote
    then show ?thesis using "3.prems" "3.IH"(1) by (auto simp: kept_Some)
  next
    case left
    then show ?thesis using "3.prems" "3.IH"(2) by (auto simp: kept_Some)
  next
    case final
    then show ?thesis using "3.prems" by simp
  next
    case right
    then show ?thesis using "3.prems" "3.IH"(3) by (auto simp: kept_Some)
  next
    case other
    then show ?thesis using "3.prems" "3.IH"(4) by (auto simp: kept_Some)
  qed
qed simp

lemma drop_while_text: "dropWhile P s = c # r \<Longrightarrow> s = takeWhile P s @ c # r"
  by (metis takeWhile_dropWhile_id)

lemma char_is: "c = d \<longleftrightarrow> (of_char c :: nat) = of_char d"
  by simp

lemma word_char_code: "word_char c \<longleftrightarrow> (let n = of_char c :: nat in 48 \<le> n \<and> n \<le> 57 \<or> 97 \<le> n \<and> n \<le> 122 \<or> 65 \<le> n \<and> n \<le> 90 \<or> n = 95)"
  unfolding word_char_def is_digit_def less_eq_char_def lower_char_def char_is[of c "CHR ''_''"] by (auto simp: Let_def)

lemma space_not_word: "is_space c \<Longrightarrow> \<not> word_char c"
  by (auto simp: word_char_code is_space_def Let_def)

lemma upper_char_code: "(of_char (upper_char c) :: nat) = (let n = of_char c in if 97 \<le> n \<and> n \<le> 122 then n - 32 else n)"
proof -
  have "(of_char c :: nat) < 256" by (rule nat_of_char_less_256)
  then have "((of_char c :: nat) - 32) mod 256 = of_char c - 32" by (intro mod_less) linarith
  then show ?thesis by (simp add: upper_char_def Let_def)
qed

lemma upper_letter: "upper_char c = d \<Longrightarrow> d \<in> {CHR ''M'', CHR ''A'', CHR ''X'', CHR ''I'', CHR ''N''} \<Longrightarrow> word_char c \<and> c \<notin> {CHR ''G'', CHR ''L''}"
  using upper_char_code[of c] by (auto simp: word_char_code Let_def split: if_splits)

lemma call_at_text:
  assumes "call_at s = Some (g, r)"
  shows "\<exists>m a b u. s = [m, a, b] @ u @ ''('' @ r \<and> upper [m, a, b] = (if g then ''MAX'' else ''MIN'') \<and> (\<forall>c \<in> set u. is_space c)"
proof -
  have w: "upper (take 3 s) = (if g then ''MAX'' else ''MIN'')" and n: "nxt CHR ''('' (dropWhile is_space (drop 3 s))"
    and r: "r = tl (dropWhile is_space (drop 3 s))"
    using assms by (auto simp: call_at_def Let_def split: if_splits)
  have l: "length (take 3 s) = 3" using arg_cong[OF w, of length] by (simp add: upper_def split: if_splits)
  then obtain m a b t where s: "s = m # a # b # t"
    by (cases s; cases "tl s"; cases "tl (tl s)") auto
  have t: "t = takeWhile is_space t @ ''('' @ r" using nxt_tl[OF n] r by (simp add: s drop_while_text)
  have "s = [m, a, b] @ takeWhile is_space t @ ''('' @ r" using t s by simp
  moreover have "\<forall>c \<in> set (takeWhile is_space t). is_space c" by (auto dest: set_takeWhileD)
  ultimately show ?thesis using w s by (intro exI[of _ m] exI[of _ a] exI[of _ b] exI[of _ "takeWhile is_space t"]) simp
qed

lemma call_at_E:
  assumes "call_at s = Some (g, r)"
  obtains m a b u where "s = [m, a, b] @ u @ ''('' @ r" "upper [m, a, b] = (if g then ''MAX'' else ''MIN'')" "\<forall>c \<in> set u. is_space c"
  using call_at_text[OF assms] by blast

lemma call_at_None: "\<not> (\<exists>a b. upper [ch, a, b] \<in> {''MAX'', ''MIN''}) \<Longrightarrow> call_at (ch # s) = None"
proof (cases "call_at (ch # s)")
  case (Some x)
  then obtain g r where "call_at (ch # s) = Some (g, r)" by (cases x) auto
  from call_at_text[OF this] show "\<not> (\<exists>a b. upper [ch, a, b] \<in> {''MAX'', ''MIN''}) \<Longrightarrow> ?thesis" by (auto split: if_splits)
qed simp

lemma not_a_call: "upper_char ch \<noteq> CHR ''M'' \<Longrightarrow> call_at (ch # s) = None"
  by (rule call_at_None) (simp add: upper_def)

lemma before_char: "u @ g # w = v @ r \<Longrightarrow> g \<notin> set v \<Longrightarrow> \<exists>t. u = v @ t"
proof (induction v arbitrary: u)
  case (Cons x v)
  then show ?case by (cases u) auto
qed simp

text \<open>A call is not found across a character that belongs to no word, space or parenthesis of the pattern.\<close>

lemma call_at_cut:
  assumes "call_at (u @ g # w) = Some x" "g = CHR ''G'' \<or> g = CHR ''L''"
  shows "call_at (u @ v) \<noteq> None"
proof -
  obtain b r where x: "call_at (u @ g # w) = Some (b, r)" using assms(1) by (cases x) auto
  obtain m a c t where t: "u @ g # w = [m, a, c] @ t @ ''('' @ r" "upper [m, a, c] = (if b then ''MAX'' else ''MIN'')" "\<forall>c \<in> set t. is_space c"
    by (rule call_at_E[OF x])
  have "upper_char m = CHR ''M'' \<and> (upper_char a = CHR ''A'' \<or> upper_char a = CHR ''I'') \<and> (upper_char c = CHR ''X'' \<or> upper_char c = CHR ''N'')"
    using t(2) by (simp add: upper_def split: if_splits)
  then have "g \<noteq> m \<and> g \<noteq> a \<and> g \<noteq> c"
    using assms(2) upper_letter[of m] upper_letter[of a] upper_letter[of c] by blast
  moreover have "g \<noteq> CHR ''(''" "\<not> is_space g" using assms(2) by (auto simp: is_space_def)
  ultimately have "u @ g # w = (m # a # c # t @ ''('') @ r" "g \<notin> set (m # a # c # t @ ''('')" using t(1,3) by auto
  then obtain r' where "u = (m # a # c # t @ ''('') @ r'" using before_char by metis
  moreover have "\<not> is_space CHR ''(''" by (simp add: is_space_def)
  ultimately show ?thesis using t(2,3) by (auto simp: call_at_def Let_def upper_def dropWhile_append2 split: if_splits)
qed

lemma space_not_M: "is_space c \<Longrightarrow> upper_char c \<noteq> CHR ''M''"
  using upper_letter[of c "CHR ''M''"] space_not_word[of c] by auto

lemma calls_spaces: "\<forall>c \<in> set u. is_space c \<Longrightarrow> calls p (u @ ''('' @ r) = calls False r"
proof (induction u arbitrary: p)
  case Nil
  have "call_at (''('' @ r) = None" "\<not> word_char CHR ''(''" by (simp add: not_a_call upper_char_def) (simp add: word_char_code)
  then show ?case by simp
next
  case (Cons c u)
  then show ?case by (simp add: not_a_call space_not_M space_not_word)
qed

lemma calls_call:
  assumes "call_at s = Some (g, r)"
  shows "calls False s = Suc (calls False r)"
proof -
  obtain m a b u where t: "s = [m, a, b] @ u @ ''('' @ r" "upper [m, a, b] = (if g then ''MAX'' else ''MIN'')" "\<forall>c \<in> set u. is_space c"
    by (rule call_at_E[OF assms])
  have w: "word_char m" "word_char a" using t(2) upper_letter[of m] upper_letter[of a] by (auto simp: upper_def split: if_splits)
  have "call_at (m # a # b # u @ ''('' @ r) = Some (g, r)" using assms t(1) by simp
  then show ?thesis using w calls_spaces[OF t(3), of "word_char b" r] by (simp add: t(1))
qed

lemma calls_word: "list_all word_char w \<Longrightarrow> calls True (w @ ''('' @ r) = calls False r"
proof (induction w)
  case Nil
  then show ?case by (simp add: word_char_code)
qed simp

lemma calls_new: "calls False (''GREATEST('' @ s) = calls False s" "calls False (''LEAST('' @ s) = calls False s"
proof -
  have "list_all word_char ''REATEST''" "list_all word_char ''EAST''" by (simp_all add: word_char_code)
  then have r: "calls True (''REATEST('' @ s) = calls False s" "calls True (''EAST('' @ s) = calls False s"
    using calls_word[of "''REATEST''" s] calls_word[of "''EAST''" s] by simp_all
  have "word_char CHR ''G''" "word_char CHR ''L''" by (simp_all add: word_char_code)
  then show "calls False (''GREATEST('' @ s) = calls False s" "calls False (''LEAST('' @ s) = calls False s"
    using r by (simp_all add: not_a_call upper_char_def)
qed

lemma rewrite_call_parts:
  assumes "rewrite_call s = Some t"
  obtains g r args r2 where "call_at s = Some (g, r)" "close_paren None 1 False r = Some (True, args, r2)" "r = args @ '')'' @ r2"
    "t = (if g then ''GREATEST('' else ''LEAST('') @ r"
proof -
  obtain g r args r2 where a: "call_at s = Some (g, r)" "close_paren None 1 False r = Some (True, args, r2)"
      "t = (if g then ''GREATEST('' else ''LEAST('') @ args @ '')'' @ r2"
    using assms by (auto simp: rewrite_call_def split: option.splits bool.splits)
  with close_paren_text[OF a(2)] that show thesis by simp
qed

lemma calls_rewritten: "rewrite_call s = Some t \<Longrightarrow> calls False s = Suc (calls False t)"
  using calls_new by (elim rewrite_call_parts) (simp add: calls_call del: calls.simps append_Cons append_assoc)

lemma rewrite_first_shape: "rewrite_first p s = Some t \<Longrightarrow> \<exists>u v g w. s = u @ v \<and> t = u @ g # w \<and> (g = CHR ''G'' \<or> g = CHR ''L'')"
proof (induction p s arbitrary: t rule: rewrite_first.induct)
  case (2 p ch s)
  show ?case
  proof (cases "if p then None else rewrite_call (ch # s)")
    case None
    then obtain t' where "rewrite_first (word_char ch) s = Some t'" "t = ch # t'" using "2.prems" by auto
    with "2.IH"[OF None] show ?thesis by (metis append_Cons)
  next
    case (Some x)
    then have r: "rewrite_call (ch # s) = Some t" using "2.prems" by (auto split: if_splits)
    obtain g r where "t = (if g then ''GREATEST('' else ''LEAST('') @ r" by (rule rewrite_call_parts[OF r])
    then show ?thesis by (intro exI[of _ "[]"] exI[of _ "ch # s"]) auto
  qed
qed simp

lemma rewrite_first_calls: "rewrite_first p s = Some t \<Longrightarrow> calls p t < calls p s"
proof (induction p s arbitrary: t rule: rewrite_first.induct)
  case (2 p ch s)
  show ?case
  proof (cases "if p then None else rewrite_call (ch # s)")
    case None
    then obtain t' where t': "rewrite_first (word_char ch) s = Some t'" "t = ch # t'" using "2.prems" by auto
    obtain u v g w where u: "s = u @ v" "t' = u @ g # w" "g = CHR ''G'' \<or> g = CHR ''L''" using rewrite_first_shape[OF t'(1)] by blast
    have "call_at (ch # s) \<noteq> None" if "call_at (ch # t') \<noteq> None"
      using that call_at_cut[of "ch # u" g w _ v] u by auto
    then show ?thesis using "2.IH"[OF None t'(1)] t'(2) by auto
  next
    case (Some x)
    then have "\<not> p" "rewrite_call (ch # s) = Some t" using "2.prems" by (auto split: if_splits)
    then show ?thesis using calls_rewritten[of "ch # s" t] by (simp del: calls.simps)
  qed
qed simp

function translate_scalar_minmax :: "string \<Rightarrow> string" where
  "translate_scalar_minmax sql = (case rewrite_first False sql of None \<Rightarrow> sql | Some t \<Rightarrow> translate_scalar_minmax t)"
  by pat_completeness auto
termination
  by (relation "measure (calls False)") (simp_all add: rewrite_first_calls)

declare translate_scalar_minmax.simps [simp del]

text \<open>
  What a text has that the loop rewrites: a call of several arguments at the start of a word whose
  parentheses close.
\<close>

definition scalar_call :: "bool \<Rightarrow> string \<Rightarrow> bool" where
  "scalar_call p s \<longleftrightarrow> \<not> p \<and> (\<exists>g r args r2. call_at s = Some (g, r) \<and> close_paren None 1 False r = Some (True, args, r2))"

lemma rewrite_call_None: "rewrite_call s = None \<longleftrightarrow> \<not> scalar_call False s"
  by (force simp: rewrite_call_def scalar_call_def split: option.splits bool.splits)

lemma no_call_left: "rewrite_first p s = None \<Longrightarrow> s = u @ v \<Longrightarrow> v \<noteq> [] \<Longrightarrow> \<not> scalar_call (if u = [] then p else word_char (last u)) v"
proof (induction p s arbitrary: u rule: rewrite_first.induct)
  case (2 p ch s)
  have n: "(if p then None else rewrite_call (ch # s)) = None" using "2.prems"(1) by (auto split: option.splits)
  show ?case
  proof (cases u)
    case Nil
    then show ?thesis using n "2.prems"(2) by (auto simp: rewrite_call_None scalar_call_def split: if_splits)
  next
    case (Cons c w)
    then have "rewrite_first (word_char ch) s = None" "s = w @ v" "c = ch" using "2.prems" n by auto
    from "2.IH"[OF n this(1,2) "2.prems"(3)] show ?thesis using Cons \<open>c = ch\<close> by auto
  qed
qed simp

lemma translate_rounds: "\<exists>k \<le> calls False s. ((\<lambda>t. the (rewrite_first False t)) ^^ k) s = translate_scalar_minmax s \<and> rewrite_first False (translate_scalar_minmax s) = None"
proof (induction s rule: translate_scalar_minmax.induct)
  case (1 s)
  show ?case
  proof (cases "rewrite_first False s")
    case None
    then show ?thesis by (intro exI[of _ 0]) (simp add: translate_scalar_minmax.simps[of s])
  next
    case (Some t)
    obtain k where k: "k \<le> calls False t" "((\<lambda>t. the (rewrite_first False t)) ^^ k) t = translate_scalar_minmax t" "rewrite_first False (translate_scalar_minmax t) = None"
      using "1.IH"[OF Some] by blast
    have e: "translate_scalar_minmax s = translate_scalar_minmax t" using Some by (simp add: translate_scalar_minmax.simps[of s])
    have "((\<lambda>t. the (rewrite_first False t)) ^^ Suc k) s = translate_scalar_minmax s"
      using k(2) Some by (simp add: funpow_swap1 e del: funpow.simps add: funpow_Suc_right)
    then show ?thesis using k(1,3) rewrite_first_calls[OF Some] e by (intro exI[of _ "Suc k"]) simp
  qed
qed

text \<open>C38. The loop over MAX and MIN ends after at most as many rounds as the text has calls, with a text in which no call of several
arguments is left at the start of a word, so translating it again changes nothing.\<close>

theorem minmax_loop_ends:
  "\<exists>k \<le> calls False sql. ((\<lambda>t. the (rewrite_first False t)) ^^ k) sql = translate_scalar_minmax sql
    \<and> (\<nexists>u v. translate_scalar_minmax sql = u @ v \<and> v \<noteq> [] \<and> scalar_call (u \<noteq> [] \<and> word_char (last u)) v)
    \<and> translate_scalar_minmax (translate_scalar_minmax sql) = translate_scalar_minmax sql"
proof -
  obtain k where k: "k \<le> calls False sql" "((\<lambda>t. the (rewrite_first False t)) ^^ k) sql = translate_scalar_minmax sql"
      "rewrite_first False (translate_scalar_minmax sql) = None"
    using translate_rounds by blast
  have "\<not> scalar_call (u \<noteq> [] \<and> word_char (last u)) v" if "translate_scalar_minmax sql = u @ v" "v \<noteq> []" for u v
    using no_call_left[OF k(3) that] by (cases "u = []") simp_all
  moreover have "translate_scalar_minmax (translate_scalar_minmax sql) = translate_scalar_minmax sql"
    using k(3) by (simp add: translate_scalar_minmax.simps[of "translate_scalar_minmax sql"])
  ultimately show ?thesis using k(1,2) by blast
qed

section \<open>What the scanners see\<close>

text \<open>
  The reading of a text both scanners share: characters of code, and quoted texts, comments and
  (for scripts) dollar quoted bodies as they stand.
\<close>

datatype piece = Code char | Opaque string

primrec piece_text :: "piece \<Rightarrow> string" where
  "piece_text (Code c) = [c]"
| "piece_text (Opaque t) = t"

definition pieces_text :: "piece list \<Rightarrow> string" where
  "pieces_text ps = concat (map piece_text ps)"

text \<open>Through the end of a line, of a block comment, of a quoted text with its doubled quotes, through a tag.\<close>

definition through_line :: "string \<Rightarrow> string \<times> string" where
  "through_line s = (let l = takeWhile (\<lambda>c. c \<noteq> CHR 0x0A) s; n = length l + 1 in (take n s, drop n s))"

fun through_block :: "string \<Rightarrow> string \<times> string" where
  "through_block [] = ([], [])"
| "through_block (c # s) = (if c = CHR ''*'' \<and> nxt CHR ''/'' s then (''*/'', tl s) else apfst (Cons c) (through_block s))"

fun through_quote :: "char \<Rightarrow> string \<Rightarrow> string \<times> string" where
  "through_quote q [] = ([], [])"
| "through_quote q (c # s) =
     (if c \<noteq> q then apfst (Cons c) (through_quote q s)
      else if nxt q s then apfst (append [q, q]) (through_quote q (tl s)) else ([q], s))"

fun through_tag :: "string \<Rightarrow> string \<Rightarrow> string \<times> string" where
  "through_tag tag [] = ([], [])"
| "through_tag tag (c # s) = (if starts_with tag (c # s) then (tag, drop (length tag - 1) s) else apfst (Cons c) (through_tag tag s))"

text \<open>An opaque piece at the start of a text, with the rest.\<close>

definition opaque_at :: "bool \<Rightarrow> string \<Rightarrow> (string \<times> string) option" where
  "opaque_at dollars s = (case s of [] \<Rightarrow> None | c # r \<Rightarrow>
     (if c = CHR ''-'' \<and> nxt CHR ''-'' r then Some (apfst (append ''--'') (through_line (tl r)))
      else if c = CHR ''/'' \<and> nxt CHR ''*'' r then Some (apfst (append ''/*'') (through_block (tl r)))
      else if c = CHR 0x27 \<or> c = CHR 0x22 then Some (apfst (Cons c) (through_quote c r))
      else if dollars then map_option (\<lambda>tag. apfst (append tag) (through_tag tag (drop (length tag - 1) r))) (dollar_tag s)
      else None))"

lemma through_lengths [simp]: "length (snd (through_line s)) \<le> length s" "length (snd (through_block s)) \<le> length s"
  "length (snd (through_quote q s)) \<le> length s" "length (snd (through_tag tag s)) \<le> length s"
proof -
  show "length (snd (through_line s)) \<le> length s" by (simp add: through_line_def Let_def)
  show "length (snd (through_block s)) \<le> length s" by (induction s rule: through_block.induct) auto
  show "length (snd (through_quote q s)) \<le> length s" by (induction q s rule: through_quote.induct) auto
  show "length (snd (through_tag tag s)) \<le> length s" by (induction tag s rule: through_tag.induct) auto
qed

lemma opaque_shorter: "opaque_at d (c # r) = Some x \<Longrightarrow> length (snd x) < Suc (length r)"
  using through_lengths(1)[of "tl r"] through_lengths(2)[of "tl r"] through_lengths(3)[of c r]
    le_trans[OF through_lengths(4)]
  by (auto simp: opaque_at_def less_Suc_eq_le le_diff_conv intro: le_trans split: if_splits)

function pieces :: "bool \<Rightarrow> string \<Rightarrow> piece list" where
  "pieces d s = (case s of [] \<Rightarrow> [] | c # r \<Rightarrow>
     (case opaque_at d s of Some (t, r2) \<Rightarrow> Opaque t # pieces d r2 | None \<Rightarrow> Code c # pieces d r))"
  by pat_completeness auto
termination
  by (relation "measure (length \<circ> snd)") (auto dest: opaque_shorter)

declare pieces.simps [simp del]

lemma apfst_is: "apfst f x = (t, r) \<longleftrightarrow> t = f (fst x) \<and> r = snd x"
  by (cases x) auto

lemma through_line_simps [simp]:
  "through_line [] = ([], [])" "through_line (c # s) = (if c = CHR 0x0A then ([c], s) else apfst (Cons c) (through_line s))"
  by (simp_all add: through_line_def Let_def)

lemma starts_drop: "starts_with tag s \<Longrightarrow> s = tag @ drop (length tag) s"
  by (metis append_take_drop_id starts_with_def)

lemma starts_Cons: "starts_with tag (c # s) \<Longrightarrow> tag \<noteq> [] \<Longrightarrow> c # s = tag @ drop (length tag - 1) s"
  using starts_drop[of tag "c # s"] by (cases tag) simp_all

lemma through_text:
  "fst (through_line s) @ snd (through_line s) = s" "fst (through_block s) @ snd (through_block s) = s"
  "fst (through_quote q s) @ snd (through_quote q s) = s" "tag \<noteq> [] \<Longrightarrow> fst (through_tag tag s) @ snd (through_tag tag s) = s"
proof -
  show "fst (through_line s) @ snd (through_line s) = s" by (induction s) auto
  show "fst (through_block s) @ snd (through_block s) = s" by (induction s rule: through_block.induct) (auto dest: nxt_tl)
  show "fst (through_quote q s) @ snd (through_quote q s) = s" by (induction q s rule: through_quote.induct) (auto dest: nxt_tl)
  show "tag \<noteq> [] \<Longrightarrow> fst (through_tag tag s) @ snd (through_tag tag s) = s"
    by (induction tag s rule: through_tag.induct) (auto dest: starts_Cons)
qed

lemma dollar_tag_text:
  assumes "dollar_tag (c # r) = Some tag"
  shows "tag \<noteq> []" "c # r = tag @ drop (length tag - 1) r"
proof -
  let ?n = "takeWhile word_char r"
  have t: "tag = ''$'' @ ?n @ ''$''" "c = CHR ''$''" "starts_with ''$'' (drop (length ?n) r)"
    using assms by (auto simp: dollar_tag_def Let_def split: if_splits)
  then show "tag \<noteq> []" by simp
  have "r = ?n @ drop (length ?n) r" by (metis dropWhile_eq_drop takeWhile_dropWhile_id)
  moreover obtain r2 where "drop (length ?n) r = CHR ''$'' # r2" using starts_drop[OF t(3)] by auto
  ultimately have "r = ?n @ CHR ''$'' # r2" by simp
  then show "c # r = tag @ drop (length tag - 1) r" by (metis (no_types) append_Cons append_Nil append_assoc append_eq_conv_conj t(1,2) diff_Suc_1 length_Cons drop_Suc_Cons)
qed

lemma opaque_text: "opaque_at d (c # r) = Some (t, r2) \<Longrightarrow> c # r = t @ r2"
proof -
  assume o: "opaque_at d (c # r) = Some (t, r2)"
  consider (line) "c = CHR ''-''" "nxt CHR ''-'' r" "(t, r2) = apfst (append ''--'') (through_line (tl r))"
    | (block) "c = CHR ''/''" "nxt CHR ''*'' r" "(t, r2) = apfst (append ''/*'') (through_block (tl r))"
    | (quote) "(t, r2) = apfst (Cons c) (through_quote c r)"
    | (tag) tag where "dollar_tag (c # r) = Some tag" "(t, r2) = apfst (append tag) (through_tag tag (drop (length tag - 1) r))"
    using o by (auto simp: opaque_at_def split: if_splits)
  then show ?thesis
  proof cases
    case line
    then show ?thesis using nxt_tl[OF line(2)] through_text(1)[of "tl r"] by (simp add: apfst_def map_prod_def split: prod.splits)
  next
    case block
    then show ?thesis using nxt_tl[OF block(2)] through_text(2)[of "tl r"] by (simp add: apfst_def map_prod_def split: prod.splits)
  next
    case quote
    then show ?thesis using through_text(3)[of c r] by (simp add: apfst_def map_prod_def split: prod.splits)
  next
    case tag
    then show ?thesis using dollar_tag_text[OF tag(1)] through_text(4)[of tag "drop (length tag - 1) r"]
      by (simp add: apfst_def map_prod_def split: prod.splits)
  qed
qed

text \<open>Reading a text piece by piece.\<close>

lemma pieces_simps [simp]:
  "pieces d [] = []" "opaque_at d (c # r) = None \<Longrightarrow> pieces d (c # r) = Code c # pieces d r"
  "opaque_at d (c # r) = Some (t, r2) \<Longrightarrow> pieces d (c # r) = Opaque t # pieces d r2"
  by (simp_all add: pieces.simps[of d "[]"] pieces.simps[of d "c # r"])

lemma pieces_induct [case_names Nil Code Opaque]:
  assumes "P []" "\<And>c r. opaque_at d (c # r) = None \<Longrightarrow> P r \<Longrightarrow> P (c # r)"
    "\<And>c r t r2. opaque_at d (c # r) = Some (t, r2) \<Longrightarrow> P r2 \<Longrightarrow> P (c # r)"
  shows "P s"
proof (induction s rule: length_induct)
  case (1 s)
  show ?case
  proof (cases s)
    case (Cons c r)
    show ?thesis
    proof (cases "opaque_at d (c # r)")
      case None
      then show ?thesis using assms(2) 1 Cons by simp
    next
      case (Some x)
      then show ?thesis using assms(3)[of c r "fst x" "snd x"] 1 Cons opaque_shorter[OF Some] by simp
    qed
  qed (simp add: assms(1))
qed

lemma pieces_lossless: "pieces_text (pieces d s) = s"
proof (induction s rule: pieces_induct[where d = d])
  case (Opaque c r t r2)
  then have "pieces_text (pieces d (c # r)) = t @ r2" by (simp add: pieces_text_def)
  then show ?case using opaque_text[OF Opaque(1)] by simp
qed (simp_all add: pieces_text_def)

section \<open>Placeholders\<close>

definition put_placeholder :: "piece \<Rightarrow> string" where
  "put_placeholder p = (if p = Code CHR ''?'' then ''%s'' else piece_text p)"

lemma qmarks_through:
  "qmarks_from Line s = fst (through_line s) @ qmarks_from Plain (snd (through_line s))"
  "qmarks_from Block s = fst (through_block s) @ qmarks_from Plain (snd (through_block s))"
  "qmarks_from (Quote q) s = fst (through_quote q s) @ qmarks_from Plain (snd (through_quote q s))"
proof -
  show "qmarks_from Line s = fst (through_line s) @ qmarks_from Plain (snd (through_line s))" by (induction s) auto
  show "qmarks_from Block s = fst (through_block s) @ qmarks_from Plain (snd (through_block s))" by (induction s rule: through_block.induct) auto
  show "qmarks_from (Quote q) s = fst (through_quote q s) @ qmarks_from Plain (snd (through_quote q s))"
    by (induction q s rule: through_quote.induct) auto
qed

lemma qmarks_pieces: "qmarks_from Plain s = concat (map put_placeholder (pieces False s))"
proof (induction s rule: pieces_induct[where d = False])
  case (Code c r)
  then have "qmarks_from Plain (c # r) = put_placeholder (Code c) @ qmarks_from Plain r"
    by (auto simp: opaque_at_def put_placeholder_def split: if_splits)
  then show ?case using Code by simp
next
  case (Opaque c r t r2)
  then have "qmarks_from Plain (c # r) = t @ qmarks_from Plain r2"
    by (auto simp: opaque_at_def qmarks_through apfst_is split: if_splits)
  then show ?case using Opaque by (simp add: put_placeholder_def)
qed simp

section \<open>Statements\<close>

fun cut :: "piece list \<Rightarrow> piece list list" where
  "cut [] = [[]]"
| "cut (p # ps) = (if p = Code CHR '';'' then [] # cut ps else (p # hd (cut ps)) # tl (cut ps))"

definition statements :: "string \<Rightarrow> piece list \<Rightarrow> string list" where
  "statements buf ps = (let ts = map pieces_text (cut ps) in filter (\<lambda>t. t \<noteq> []) (map strip ((buf @ hd ts) # tl ts)))"

lemma cut_not_Nil [simp]: "cut ps \<noteq> []"
  by (cases ps) simp_all

lemma statements_simps [simp]:
  "statements buf [] = add_statement buf []"
  "statements buf (Code c # ps) = (if c = CHR '';'' then add_statement buf (statements [] ps) else statements (buf @ [c]) ps)"
  "statements buf (Opaque t # ps) = statements (buf @ t) ps"
proof -
  obtain w ws where "cut ps = w # ws" using cut_not_Nil[of ps] by (cases "cut ps") blast+
  then show "statements (buf :: string) (Code c # ps) = (if c = CHR '';'' then add_statement buf (statements [] ps) else statements (buf @ [c]) ps)"
    "statements buf (Opaque t # ps) = statements (buf @ t) ps"
    by (simp_all add: statements_def add_statement_def pieces_text_def Let_def)
qed (simp add: statements_def add_statement_def pieces_text_def Let_def)

lemma split_through:
  "split_from Line buf s = split_from Plain (buf @ fst (through_line s)) (snd (through_line s))"
  "split_from Block buf s = split_from Plain (buf @ fst (through_block s)) (snd (through_block s))"
  "split_from (Quote q) buf s = split_from Plain (buf @ fst (through_quote q s)) (snd (through_quote q s))"
  "split_from (Dollar tag) buf s = split_from Plain (buf @ fst (through_tag tag s)) (snd (through_tag tag s))"
proof -
  show "split_from Line buf s = split_from Plain (buf @ fst (through_line s)) (snd (through_line s))"
    by (induction s arbitrary: buf) auto
  show "split_from Block buf s = split_from Plain (buf @ fst (through_block s)) (snd (through_block s))"
    by (induction s arbitrary: buf rule: through_block.induct) auto
  show "split_from (Quote q) buf s = split_from Plain (buf @ fst (through_quote q s)) (snd (through_quote q s))"
    by (induction q s arbitrary: buf rule: through_quote.induct) auto
  show "split_from (Dollar tag) buf s = split_from Plain (buf @ fst (through_tag tag s)) (snd (through_tag tag s))"
    by (induction tag s arbitrary: buf rule: through_tag.induct) auto
qed

lemma split_pieces: "split_from Plain buf s = statements buf (pieces True s)"
proof (induction s arbitrary: buf rule: pieces_induct[where d = True])
  case (Code c r)
  then have "split_from Plain buf (c # r) = (if c = CHR '';'' then add_statement buf (split_from Plain [] r) else split_from Plain (buf @ [c]) r)"
    by (auto simp: opaque_at_def split: if_splits)
  then show ?case using Code by simp
next
  case (Opaque c r t r2)
  then have "split_from Plain buf (c # r) = split_from Plain (buf @ t) r2"
    by (auto simp: opaque_at_def split_through apfst_is split: if_splits)
  then show ?case using Opaque by simp
qed simp

text \<open>C37. Both scanners act on the reading of the text into characters of code and opaque pieces (quoted texts with doubled quotes,
comments, and for scripts dollar quoted bodies), which loses nothing: a script is cut at the semicolons of the code and
nowhere else, and of a statement only the question marks of the code become placeholders.\<close>

theorem scanners_read_pieces:
  "split_sql_script script = filter (\<lambda>t. t \<noteq> []) (map (strip \<circ> pieces_text) (cut (pieces True script)))
    \<and> qmarks_to_psycopg sql = concat (map put_placeholder (pieces False sql))
    \<and> pieces_text (pieces True script) = script \<and> pieces_text (pieces False sql) = sql"
proof -
  have "statements [] ps = filter (\<lambda>t. t \<noteq> []) (map (strip \<circ> pieces_text) (cut ps))" for ps
    using cut_not_Nil[of ps] by (cases "cut ps") (simp_all add: statements_def Let_def)
  then show ?thesis by (simp add: split_sql_script_def split_pieces qmarks_to_psycopg_def qmarks_pieces pieces_lossless)
qed

section \<open>Percent signs\<close>

text \<open>
  How psycopg reads a text with parameters (its documentation): \<open>%%\<close> is a percent sign, \<open>%s\<close>, \<open>%b\<close>,
  \<open>%t\<close> and \<open>%(name)s\<close> are placeholders. \<open>fill\<close>: what it puts for one; a text with any other percent sign
  is refused.
\<close>

function psycopg_text :: "(string \<Rightarrow> string) \<Rightarrow> string \<Rightarrow> string option" where
  "psycopg_text fill s = (case s of [] \<Rightarrow> Some []
     | ch # r \<Rightarrow>
         (if ch \<noteq> CHR ''%'' then map_option (Cons ch) (psycopg_text fill r)
          else (case named r of
              Some p \<Rightarrow> map_option (append (fill p)) (psycopg_text fill (drop (length p) r))
            | None \<Rightarrow>
                (if nxt CHR ''%'' r then map_option (append ''%'') (psycopg_text fill (tl r))
                 else if nxt CHR ''s'' r \<or> nxt CHR ''b'' r \<or> nxt CHR ''t'' r then map_option (append (fill [hd r])) (psycopg_text fill (tl r))
                 else None))))"
  by pat_completeness auto
termination
  by (relation "measure (length \<circ> snd)") auto

declare psycopg_text.simps [simp del]

text \<open>What the application means: every percent sign stands for itself, unless it begins a placeholder or is already doubled.\<close>

function meant_text :: "(string \<Rightarrow> string) \<Rightarrow> string \<Rightarrow> string" where
  "meant_text fill s = (case s of [] \<Rightarrow> []
     | ch # r \<Rightarrow>
         (if ch \<noteq> CHR ''%'' then ch # meant_text fill r
          else (case named r of
              Some p \<Rightarrow> fill p @ meant_text fill (drop (length p) r)
            | None \<Rightarrow>
                (if nxt CHR ''%'' r then CHR ''%'' # meant_text fill (tl r)
                 else if nxt CHR ''s'' r \<or> nxt CHR ''b'' r \<or> nxt CHR ''t'' r then fill [hd r] @ meant_text fill (tl r)
                 else CHR ''%'' # meant_text fill r))))"
  by pat_completeness auto
termination
  by (relation "measure (length \<circ> snd)") auto

declare meant_text.simps [simp del]

text \<open>Reading a text up to a percent sign.\<close>

lemma named_iff: "named s = Some p \<longleftrightarrow> (\<exists>n r. p = ''('' @ n @ '')s'' \<and> sql_name n \<and> s = p @ r)"
proof
  assume "named s = Some p"
  then obtain n r where s: "s = CHR ''('' # r" "find_end r = Some n" "sql_name n" "p = ''('' @ n @ '')s''"
    by (auto simp: named_def split: list.splits if_splits option.splits)
  have "find_end r = Some n \<Longrightarrow> \<exists>r2. r = n @ '')s'' @ r2" for r n
  proof (induction r arbitrary: n)
    case (Cons c r)
    show ?case
    proof (cases "c = CHR '')'' \<and> nxt CHR ''s'' r")
      case True
      then show ?thesis using Cons.prems nxt_tl[of "CHR ''s''" r] by (intro exI[of _ "tl r"]) simp
    next
      case False
      then obtain m where "find_end r = Some m" "n = c # m" using Cons.prems by auto
      then show ?thesis using Cons.IH by auto
    qed
  qed simp
  then show "\<exists>n r. p = ''('' @ n @ '')s'' \<and> sql_name n \<and> s = p @ r" using s by fastforce
next
  assume "\<exists>n r. p = ''('' @ n @ '')s'' \<and> sql_name n \<and> s = p @ r"
  then obtain n r where s: "p = ''('' @ n @ '')s''" "sql_name n" "s = p @ r" by blast
  have "list_all word_char n \<Longrightarrow> find_end (n @ '')s'' @ r) = Some n" for n
  proof (induction n)
    case (Cons c n)
    then have "c \<noteq> CHR '')''" by (auto simp: word_char_code)
    then show ?case using Cons by simp
  qed simp
  then show "named s = Some p" using s by (simp add: named_def sql_name_def)
qed

lemma named_no_percent: "named s = Some p \<Longrightarrow> CHR ''%'' \<notin> set p"
proof -
  have "\<not> word_char CHR ''%''" by (simp add: word_char_code)
  then show "named s = Some p \<Longrightarrow> CHR ''%'' \<notin> set p" by (auto simp: named_iff sql_name_def list_all_iff)
qed

lemma escape_simps [simp]:
  "escape_psycopg_percent [] = []" "c \<noteq> CHR ''%'' \<Longrightarrow> escape_psycopg_percent (c # r) = c # escape_psycopg_percent r"
  by (simp_all add: escape_psycopg_percent.simps[of "[]"] escape_psycopg_percent.simps[of "c # r"])

lemma escape_percent:
  "escape_psycopg_percent (CHR ''%'' # r) = (case named r of
      Some p \<Rightarrow> ''%'' @ p @ escape_psycopg_percent (drop (length p) r)
    | None \<Rightarrow> (if nxt CHR ''s'' r \<or> nxt CHR ''b'' r \<or> nxt CHR ''t'' r \<or> nxt CHR ''%'' r then ''%'' @ [hd r] @ escape_psycopg_percent (tl r)
         else ''%%'' @ escape_psycopg_percent r))"
  by (simp add: escape_psycopg_percent.simps[of "CHR ''%'' # r"])

lemma escape_prefix: "CHR ''%'' \<notin> set p \<Longrightarrow> escape_psycopg_percent (p @ r) = p @ escape_psycopg_percent r"
  by (induction p) auto

lemma escape_starts: "escape_psycopg_percent s = p @ t \<Longrightarrow> CHR ''%'' \<notin> set p \<Longrightarrow> \<exists>r. s = p @ r"
proof (induction p arbitrary: s)
  case (Cons c p)
  show ?case
  proof (cases s)
    case (Cons d r)
    show ?thesis
    proof (cases "d = CHR ''%''")
      case True
      have "hd (escape_psycopg_percent (CHR ''%'' # r)) = CHR ''%''" by (auto simp: escape_percent split: option.split)
      then show ?thesis using Cons.prems True \<open>s = d # r\<close> by simp
    next
      case False
      then show ?thesis using Cons.prems Cons.IH[of r] \<open>s = d # r\<close> by simp
    qed
  qed (use Cons.prems in simp)
qed simp

lemma named_escape [simp]: "named (escape_psycopg_percent s) = named s"
proof -
  have "named (escape_psycopg_percent s) = Some p \<longleftrightarrow> named s = Some p" for p
  proof
    assume n: "named (escape_psycopg_percent s) = Some p"
    then obtain t where "escape_psycopg_percent s = p @ t" by (auto simp: named_iff)
    then show "named s = Some p" using escape_starts[OF _ named_no_percent[OF n]] n by (auto simp: named_iff)
  next
    assume n: "named s = Some p"
    then obtain r where "s = p @ r" by (auto simp: named_iff)
    then show "named (escape_psycopg_percent s) = Some p" using n escape_prefix[OF named_no_percent[OF n]] by (auto simp: named_iff)
  qed
  then show ?thesis by (cases "named s") auto
qed

text \<open>The cases of all three readings: no percent sign, a named placeholder, a percent sign with a letter or doubled, a single one.\<close>

definition percent_pair :: "char \<Rightarrow> bool" where
  "percent_pair d \<longleftrightarrow> d = CHR ''s'' \<or> d = CHR ''b'' \<or> d = CHR ''t'' \<or> d = CHR ''%''"

lemma percent_induct [case_names Nil Other Named Pair Single]:
  assumes "P []" "\<And>c r. c \<noteq> CHR ''%'' \<Longrightarrow> P r \<Longrightarrow> P (c # r)"
    "\<And>p r. named (p @ r) = Some p \<Longrightarrow> P r \<Longrightarrow> P (CHR ''%'' # p @ r)"
    "\<And>d r. named (d # r) = None \<Longrightarrow> percent_pair d \<Longrightarrow> P r \<Longrightarrow> P (CHR ''%'' # d # r)"
    "\<And>r. named r = None \<Longrightarrow> \<not> (\<exists>d r2. r = d # r2 \<and> percent_pair d) \<Longrightarrow> P r \<Longrightarrow> P (CHR ''%'' # r)"
  shows "P s"
proof (induction s rule: length_induct)
  case (1 s)
  show ?case
  proof (cases s)
    case (Cons c r)
    show ?thesis
    proof (cases "c = CHR ''%''")
      case True
      show ?thesis
      proof (cases "named r")
        case None
        show ?thesis
        proof (cases "\<exists>d r2. r = d # r2 \<and> percent_pair d")
          case pair: True
          then obtain d r2 where "r = d # r2" "percent_pair d" by blast
          then show ?thesis using assms(4)[of d r2] None 1 Cons True by simp
        next
          case False
          then show ?thesis using assms(5)[of r] None 1 Cons True by simp
        qed
      next
        case (Some p)
        then obtain r2 where "r = p @ r2" by (auto simp: named_iff)
        then show ?thesis using assms(3)[of p r2] Some 1 Cons True by simp
      qed
    qed (use assms(2) 1 Cons in simp)
  qed (simp add: assms(1))
qed

lemma not_pair: "\<not> (\<exists>d r2. r = d # r2 \<and> percent_pair d) \<longleftrightarrow> \<not> (nxt CHR ''s'' r \<or> nxt CHR ''b'' r \<or> nxt CHR ''t'' r \<or> nxt CHR ''%'' r)"
  by (cases r) (auto simp: percent_pair_def)

lemma escape_cases [simp]:
  "named (p @ r) = Some p \<Longrightarrow> escape_psycopg_percent (CHR ''%'' # p @ r) = CHR ''%'' # p @ escape_psycopg_percent r"
  "named (d # r) = None \<Longrightarrow> percent_pair d \<Longrightarrow> escape_psycopg_percent (CHR ''%'' # d # r) = CHR ''%'' # d # escape_psycopg_percent r"
  "named r = None \<Longrightarrow> \<not> (\<exists>d r2. r = d # r2 \<and> percent_pair d) \<Longrightarrow> escape_psycopg_percent (CHR ''%'' # r) = ''%%'' @ escape_psycopg_percent r"
  unfolding not_pair by (auto simp: escape_percent percent_pair_def)

lemma psycopg_cases [simp]:
  "psycopg_text fill [] = Some []" "c \<noteq> CHR ''%'' \<Longrightarrow> psycopg_text fill (c # r) = map_option (Cons c) (psycopg_text fill r)"
  "named (p @ r) = Some p \<Longrightarrow> psycopg_text fill (CHR ''%'' # p @ r) = map_option (append (fill p)) (psycopg_text fill r)"
  "named (d # r) = None \<Longrightarrow> percent_pair d \<Longrightarrow> psycopg_text fill (CHR ''%'' # d # r)
     = map_option (append (if d = CHR ''%'' then ''%'' else fill [d])) (psycopg_text fill r)"
  by (auto simp: psycopg_text.simps[of fill "[]"] psycopg_text.simps[of fill "c # r" for c r] percent_pair_def)

lemma meant_cases [simp]:
  "meant_text fill [] = []" "c \<noteq> CHR ''%'' \<Longrightarrow> meant_text fill (c # r) = c # meant_text fill r"
  "named (p @ r) = Some p \<Longrightarrow> meant_text fill (CHR ''%'' # p @ r) = fill p @ meant_text fill r"
  "named (d # r) = None \<Longrightarrow> percent_pair d \<Longrightarrow> meant_text fill (CHR ''%'' # d # r) = (if d = CHR ''%'' then ''%'' else fill [d]) @ meant_text fill r"
  "named r = None \<Longrightarrow> \<not> (\<exists>d r2. r = d # r2 \<and> percent_pair d) \<Longrightarrow> meant_text fill (CHR ''%'' # r) = CHR ''%'' # meant_text fill r"
  unfolding not_pair by (auto simp: meant_text.simps[of fill "[]"] meant_text.simps[of fill "c # r" for c r] percent_pair_def)

lemma named_letter: "d \<noteq> CHR ''('' \<Longrightarrow> named (d # r) = None"
  by (simp add: named_def)

lemma pair_not_named: "percent_pair d \<Longrightarrow> named (d # r) = None"
  by (auto simp: percent_pair_def named_letter)


end
