(* ===== verification/Spec2Isabelle.thy ===== *)
theory Spec2Isabelle
  imports Policy_Sync Estate_Claims Presence_Claims Api_Claims Sql_Text
begin

text \<open>
  VirtInfra Monitor: verification development.

  \<^bold>\<open>The program.\<close> VirtInfra Monitor watches KVM nodes. An agent on every node
  (deploy/agent/agent.py) samples the counters of the interfaces, collects a payload every five
  minutes and pushes it to the monitor, a web application over PostgreSQL. The application is one
  namespace: app/runtime_loader.py executes the files of app/runtime_layers in the order of
  app/runtime_layers/manifest.json, and a later layer replaces functions of an earlier one. The
  model takes the definition that is in force at the end: the push of layer 10 with the native
  COPY writer of layer 37, the slot windows of layer 47, the pages of operations of layers 09 and 24
  with the hooks of app/node_groups.py. Beside the web process,
  app/maintenance_dispatch.py starts one systemd unit at a time for the jobs of the table
  maintenance_jobs (app/maintenance_queue.py), each running app/maintenance.py, and
  app/retention.py runs on a timer.

  \<^bold>\<open>The theories.\<close>
  \<^item> Prelude, Json: Python values read from JSON (\<open>pyval\<close>), dictionaries as association lists in
    insertion order, the string methods, \<open>int()\<close>, \<open>float()\<close>, \<open>round()\<close> and \<open>json.loads\<close>.
  \<^item> Agent_Base: configuration (the module constants of agent.py), health notes, counters, bridge
    roles. The record \<open>env\<close> is what a cycle reads from the host.
  \<^item> Agent_Parse: the parsers of /proc, \<open>ip\<close> and \<open>virsh\<close> outputs. Agent_Window: quality of a window
    and the merge of windows (\<open>merge_network_windows\<close>). Agent_Sampler: the class \<open>NetworkSampler\<close>
    (record \<open>sampler\<close>; \<open>sample\<close>, \<open>rotate\<close>, \<open>health\<close>) and the deadlines of its loop. Agent_Storage:
    filesystems, one mount root per filesystem, the mount of an image. Agent_Collect, Agent_Cycle:
    traffic, domains, host, uplinks and \<open>collect_cycle_payload\<close>, over the state of state.json.
    Agent_Delivery: runtime.json (record \<open>runtime\<close>), the answer of the monitor, HTTP with the
    uncompressed second try, \<open>run_push_cycle\<close>, start and stop of \<open>main\<close>.
  \<^item> Server_Base: INSERT with conflict clauses, GROUP BY and rounding of SQL over lists of rows, the
    time grid. Push_Ingest: admission of a push (\<open>push\<close>), receipts, outages, node and snapshot
    rows, the interface rows and their merge into the hourly and daily tables. Slot_Window: the
    query of a rolling window, cut into days, hours and packed five-minute slots. Vm_Current: the
    rows of the machines of a push and the table vm_current_fast. Sql_Text: how app/bw_pg.py rewrites
    the SQL texts (scripts, placeholders, percent signs, scalar MAX and MIN).
  \<^item> Delivery: agent and monitor together as an inductive step relation with lost answers,
    repeated requests, crashes of the agent and the deletion of old receipts. Policy_Sync: the
    packet threshold of the policy on its way to the agent and back in the payloads.
  \<^item> Abuse_Policy: the settings of the abuse engine, its tests, streaks and flags (layers 12, 16,
    26, 27). Abuse_Engine: the evaluation of a push, events and incidents (layers 26, 36).
    Abuse_System: both with \<open>push\<close>, over histories of pushes and changes of the policy.
  \<^item> Vm_Presence: the machines a push names, those it misses and the transitions between nodes
    (layers 02, 10, 37), and the purge of migrated machines. Presence_Claims: their histories.
  \<^item> Accounts: log-in, sessions, roles and the accounts of the dashboard (app/node_groups.py, layers
    01 and 07). Account_Safety, Account_Claims: histories of requests, where a browser may send any
    cookie it was ever given. Admin_Maintenance: the form that puts jobs into the queue, with the
    preview and the code of a reset.
  \<^item> Api_Keys: the keys of the read-only API, the check of a call with its rate limit, the log of the
    calls and the pages of the keys (layers 21 to 23). Api_Claims: their histories, with a ledger of
    what administrators were shown and decided.
  \<^item> Inventory: the pages that hide, restore and purge nodes and machines (layers 09 and 24).
    Node_Groups: groups, memberships and what the monitoring pages show. Estate_Safety,
    Estate_Claims: the histories of pages, pushes, purges and starts over these tables.
  \<^item> Maint_Queue: the jobs, \<open>enqueue_job\<close>, \<open>cancel_queued_job\<close>, recovery, claim and dispatch.
    Maint_Worker: the job row, services, health checks, purges, restore and reset, the backup
    manifest, \<open>main\<close>; what an action does outside the queue is an outcome, its order a trace.
    Maint_System: queue, dispatcher, worker and retention together as a step relation.

  \<^bold>\<open>What the lemmas show.\<close> Agent: a parser reads back what was printed; a configuration is in
  bounds; the sampler keeps its invariant (\<open>sampler_ok\<close>) and sums exactly the growth of the
  counters; windows are carried without loss (locale \<open>carry_store\<close>); the inventory keeps the best
  mount of every filesystem (locale \<open>keyed_minimum\<close>); a payload reports the growth of the counters
  since the state it started from, and the state to commit travels with it. Monitor: \<open>accounts\<close>
  says that the tables hold exactly the accepted rows; it is an invariant of \<open>push\<close>, and over it a
  window query adds up the accepted traffic of the window (locale \<open>interval_sum\<close>). Both together:
  \<open>world_ok\<close> is an invariant of the steps and gives the end-to-end property that every byte is
  counted once. Abuse: an incident is open exactly while a row is abusive (\<open>engine_ok\<close>), a sustained
  rule needs its full run of cycles, and a policy reaches the agent. Machines: what the tables hold
  of one machine is a step of its own (\<open>push_track\<close>), it has one place in every history
  (\<open>track_ok\<close>) and moves after its node has missed it. Accounts: the outcomes of a request
  (\<open>outcome\<close>), one super administrator remains, a changed account ends its sessions, and no write
  without the token of the session. API: a call is let in exactly as the ledger of the keys says
  (\<open>follows\<close>), and the rate limit holds in every process. Estate: every node is in one group (\<open>estate_ok\<close>), a refused
  purge leaves the tables as they were, a queued one reaches the worker. SQL: the scanners agree
  with one reading of the text. Maintenance: the queue serves in order (locale \<open>fifo_service\<close>), at most one job is
  active, ended jobs are not written again, a stale job gives way, and the worker leaves its job
  ended, with backups before a reset and the dashboard started again after it.

  \<^bold>\<open>Bounds and fuel.\<close> No definition has fuel: loops are structural recursion or have a termination
  proof (white-space words and JSON by the length of the text, the edges of a window by the time
  that is left, the scanners of SQL by the text that is left, the loop over MAX and MIN by the calls
  that are left; a property of Sql_Text bounds its rounds). The retries of services and of health checks have the number of tries of the code.

  \<^bold>\<open>Not modelled.\<close> Strings are lists of ASCII characters and floats exact rationals; wall-clock
  timings of the health report and the texts of log lines are left out. Of the transaction of a
  push the model has the receipt, outage, snapshot, node, consumption, machine, presence and abuse
  tables, each group of tables in its own theory; the performance and disk tables and the storage
  of layer 29 and later are not modelled. The tables are lists of rows in which the keys of the
  schema are unique by the operations themselves (ON CONFLICT) or by a proved invariant, also where
  the code relies on an index (\<open>idx_vm_abuse_incident_open\<close> of layer 26). Gzip, systemd, virsh,
  PostgreSQL, HTTP, password hashes, HMAC, SHA-256, the parsing of addresses and random tokens are parameters: outcomes or functions
  given to the definitions. Texts are ordered by code points. The lists, charts and HTML of the
  pages, the dashboards over the abuse and consumption tables, the storage pages, the bodies of
  the API endpoints, native backups and restores, the loader and the installer scripts are presentation or glue around
  these parts and not modelled.
\<close>

end
